(* ===== verification/Prelude.thy ===== *)
theory Prelude
  imports Main "HOL-Library.Word"
begin

text \<open>
  Shared vocabulary of the development: the machine types of a 64-bit Windows build,
  byte-addressed memory, overflow guards on \<^typ>\<open>64 word\<close>, and the list lemmas that several
  components use. A C++ \<open>std::uintptr_t\<close> or \<open>std::size_t\<close> that is computed with is a
  \<^typ>\<open>64 word\<close> (the build refuses any other pointer size); the size of a container held by the
  program is a \<^typ>\<open>nat\<close>.
\<close>

unbundle bit_operations_syntax

named_theorems mem_simps \<open>reading and writing byte-addressed memory\<close>
named_theorems overflow_simps \<open>overflow guards as arithmetic on unat\<close>

section \<open>Machine types\<close>

type_synonym byte = "8 word"
type_synonym u8 = "8 word"
type_synonym u16 = "16 word"
type_synonym u32 = "32 word"
type_synonym u64 = "64 word"
type_synonym addr = "64 word"
type_synonym memory = "addr \<Rightarrow> byte"

abbreviation max_u64 :: u64 where "max_u64 \<equiv> - 1"

lemma unat_max_u64: "unat max_u64 = 2 ^ 64 - 1"
  by (simp add: unsigned_minus_1_eq_mask mask_eq_exp_minus_1)

lemma unat_lt_2p64: "unat (a :: u64) < 2 ^ 64"
  using unsigned_less [of a] by simp

lemma unat_le_max: "unat (a :: u64) \<le> 18446744073709551615"
  using unat_lt_2p64 [of a] by simp

lemma unat_max_minus: "unat (max_u64 - a) = 2 ^ 64 - 1 - unat a"
proof -
  have "a \<le> max_u64" by (rule word_order.extremum)
  then show ?thesis by (simp add: unat_sub unat_max_u64)
qed

text \<open>The guard \<open>right > max - left\<close> of the sources is exactly "the sum leaves 64 bits".\<close>

lemma add_guard [overflow_simps]: "max_u64 - a < b \<longleftrightarrow> 2 ^ 64 \<le> unat a + unat b"
  using unat_le_max [of a] by (auto simp: word_less_nat_alt unat_max_minus)

lemma unat_add_no_overflow:
  "unat (a :: u64) + unat b < 2 ^ 64 \<Longrightarrow> unat (a + b) = unat a + unat b"
  by (simp add: unat_word_ariths)

lemma unat_of_nat_u64: "n < 2 ^ 64 \<Longrightarrow> unat (word_of_nat n :: u64) = n"
  by (simp add: unat_of_nat take_bit_nat_eq_self)

lemma unat_add_of_nat:
  "unat (a :: u64) + n < 2 ^ 64 \<Longrightarrow> unat (a + word_of_nat n) = unat a + n"
  by (subst unat_add_no_overflow) (auto simp: unat_of_nat_u64)

lemma word_of_nat_inj_u64:
  "m < 2 ^ 64 \<Longrightarrow> n < 2 ^ 64 \<Longrightarrow> (word_of_nat m :: u64) = word_of_nat n \<longleftrightarrow> m = n"
  by (metis unat_of_nat_u64)

text \<open>Masks and shifts as arithmetic.\<close>

lemma and_mask_take_bit: "(w :: 'a::len word) AND mask n = take_bit n w"
  by (simp add: take_bit_eq_mask)

lemma unat_take_bit: "unat (take_bit n (w :: 'a::len word)) = unat w mod 2 ^ n"
  by (simp only: unsigned_take_bit_eq take_bit_eq_mod [of n "unat w"])

lemma drop_bit_take_bit_eq_unat:
  "drop_bit n (take_bit LENGTH('a) (unat (w :: 'a::len word))) = drop_bit n (unat w)"
  by (simp add: take_bit_nat_eq_self)

lemma unat_drop_bit: "unat (drop_bit n (w :: 'a::len word)) = unat w div 2 ^ n"
  by (simp only: drop_bit_eq_div [of n "unat w"] unsigned_drop_bit_eq drop_bit_take_bit_eq_unat)

lemma join_bits: "push_bit n (drop_bit n w) OR take_bit n w = (w :: 'a::len word)"
  by (rule bit_word_eqI)
    (auto simp: bit_or_iff bit_take_bit_iff bit_push_bit_iff bit_drop_bit_eq)

text \<open>\<open>std::to_string\<close> of an unsigned value.\<close>

fun to_dec :: "nat \<Rightarrow> string" where
  "to_dec n = (if n < 10 then [char_of (48 + n)] else to_dec (n div 10) @ [char_of (48 + n mod 10)])"

declare to_dec.simps [simp del]

section \<open>Byte-addressed memory\<close>

definition mem_range :: "addr \<Rightarrow> nat \<Rightarrow> addr set" where
  "mem_range a n = (\<lambda>i. a + word_of_nat i) ` {..<n}"

definition mem_read :: "memory \<Rightarrow> addr \<Rightarrow> nat \<Rightarrow> byte list" where
  "mem_read m a n = map (\<lambda>i. m (a + word_of_nat i)) [0..<n]"

primrec mem_write :: "memory \<Rightarrow> addr \<Rightarrow> byte list \<Rightarrow> memory" where
  "mem_write m a [] = m"
| "mem_write m a (b # bs) = mem_write (m(a := b)) (a + 1) bs"

lemma length_mem_read [simp, mem_simps]: "length (mem_read m a n) = n"
  by (simp add: mem_read_def)

lemma mem_read_nth [mem_simps]: "i < n \<Longrightarrow> mem_read m a n ! i = m (a + word_of_nat i)"
  by (simp add: mem_read_def)

lemma mem_read_0 [simp]: "mem_read m a 0 = []"
  by (simp add: mem_read_def)

lemma mem_read_Suc: "mem_read m a (Suc n) = m a # mem_read m (a + 1) n"
proof -
  have "mem_read m a (Suc n) = m a # map (\<lambda>i. m (a + word_of_nat (Suc i))) [0..<n]"
    by (simp add: mem_read_def upt_conv_Cons map_Suc_upt [symmetric] del: upt_Suc)
  then show ?thesis by (simp add: mem_read_def add.assoc)
qed

lemma mem_range_Suc: "mem_range a (Suc n) = insert a (mem_range (a + 1) n)"
proof -
  have "mem_range a (Suc n) = insert a ((\<lambda>i. a + word_of_nat (Suc i)) ` {..<n})"
    by (simp add: mem_range_def lessThan_Suc_eq_insert_0 image_image)
  then show ?thesis by (simp add: mem_range_def add.assoc)
qed

lemma mem_range_0 [simp]: "mem_range a 0 = {}"
  by (simp add: mem_range_def)

lemma mem_range_iff:
  assumes "unat a + n \<le> 2 ^ 64"
  shows "x \<in> mem_range a n \<longleftrightarrow> unat a \<le> unat x \<and> unat x < unat a + n"
proof
  assume "x \<in> mem_range a n"
  then obtain i where "i < n" and x: "x = a + word_of_nat i"
    by (auto simp: mem_range_def)
  then have "unat x = unat a + i"
    using assms by (simp add: unat_add_of_nat)
  with \<open>i < n\<close> show "unat a \<le> unat x \<and> unat x < unat a + n" by simp
next
  assume b: "unat a \<le> unat x \<and> unat x < unat a + n"
  define i where "i = unat x - unat a"
  have "unat (a + word_of_nat i) = unat x"
    using b unsigned_less [of x] by (subst unat_add_of_nat) (auto simp: i_def)
  then have "x = a + word_of_nat i" by (simp add: word_unat_eq_iff)
  moreover have "i < n" using b by (auto simp: i_def)
  ultimately show "x \<in> mem_range a n" by (auto simp: mem_range_def)
qed

lemma mem_write_outside [mem_simps]:
  "x \<notin> mem_range a (length bs) \<Longrightarrow> mem_write m a bs x = m x"
  by (induction bs arbitrary: m a) (auto simp: mem_range_Suc)

lemma mem_read_cong:
  "(\<And>x. x \<in> mem_range a n \<Longrightarrow> m x = m' x) \<Longrightarrow> mem_read m a n = mem_read m' a n"
  by (auto simp: mem_read_def mem_range_def)

lemma mem_read_eqD:
  assumes "mem_read m a n = mem_read m' a n" and "x \<in> mem_range a n"
  shows "m x = m' x"
proof -
  from assms(2) obtain i where "i < n" and "x = a + word_of_nat i"
    by (auto simp: mem_range_def)
  then show ?thesis using arg_cong [OF assms(1), of "\<lambda>xs. xs ! i"]
    by (simp add: mem_read_nth)
qed

lemma mem_range_not_self:
  assumes "n < 2 ^ 64"
  shows "a \<notin> mem_range (a + 1) n"
proof
  assume "a \<in> mem_range (a + 1) n"
  then obtain i where "i < n" and "a = a + 1 + word_of_nat i"
    by (auto simp: mem_range_def)
  then have "(word_of_nat (Suc i) :: u64) = word_of_nat 0" by (simp add: add.assoc)
  then show False using assms \<open>i < n\<close> by (simp only: word_of_nat_inj_u64)
qed

lemma mem_read_write [mem_simps]:
  assumes "length bs < 2 ^ 64"
  shows "mem_read (mem_write m a bs) a (length bs) = bs"
  using assms
proof (induction bs arbitrary: m a)
  case Nil
  then show ?case by simp
next
  case (Cons b bs)
  then have "a \<notin> mem_range (a + 1) (length bs)" by (simp add: mem_range_not_self)
  with Cons show ?case by (simp add: mem_read_Suc mem_write_outside)
qed

lemma mem_range_mono: "m \<le> n \<Longrightarrow> mem_range a m \<subseteq> mem_range a n"
  by (auto simp: mem_range_def)

section \<open>Exceptions as sums\<close>

text \<open>
  A C++ function that may throw returns \<open>Inl what\<close>, the message of the exception, or \<open>Inr\<close> its
  result. \<open>bindE\<close> is sequencing: the first exception ends the computation.
\<close>

definition bindE :: "'e + 'a \<Rightarrow> ('a \<Rightarrow> 'e + 'b) \<Rightarrow> 'e + 'b" where
  "bindE m f = (case m of Inl e \<Rightarrow> Inl e | Inr x \<Rightarrow> f x)"

definition ensure :: "bool \<Rightarrow> 'e \<Rightarrow> 'e + unit" where
  "ensure ok e = (if ok then Inr () else Inl e)"

lemma bindE_simps [simp]: "bindE (Inl e) f = Inl e" "bindE (Inr x) f = f x"
  by (simp_all add: bindE_def)

lemma bindE_Inr_iff: "bindE m f = Inr y \<longleftrightarrow> (\<exists>x. m = Inr x \<and> f x = Inr y)"
  by (cases m) auto

lemma bindE_Inl_iff: "bindE m f = Inl e \<longleftrightarrow> m = Inl e \<or> (\<exists>x. m = Inr x \<and> f x = Inl e)"
  by (cases m) auto

lemma bindE_cong [fundef_cong]:
  "m = m' \<Longrightarrow> (\<And>x. m' = Inr x \<Longrightarrow> f x = g x) \<Longrightarrow> bindE m f = bindE m' g"
  by (cases m') auto

lemma ensure_Inr_iff [simp]: "ensure ok e = Inr u \<longleftrightarrow> ok"
  by (simp add: ensure_def)

lemma ensure_Inl_iff [simp]: "ensure ok e = Inl e' \<longleftrightarrow> \<not> ok \<and> e' = e"
  by (auto simp: ensure_def)

lemma ensure_True [simp]: "ensure True e = Inr ()"
  by (simp add: ensure_def)

section \<open>Lists\<close>

lemma map2_map_self: "map2 f (map g xs) xs = map (\<lambda>x. f (g x) x) xs"
  by (induction xs) simp_all

lemma map2_map_both: "map2 f (map g xs) (map h xs) = map (\<lambda>x. f (g x) (h x)) xs"
  by (induction xs) simp_all

lemma find_Some_iff: "find P xs = Some x \<Longrightarrow> x \<in> set xs \<and> P x"
  by (induction xs) (auto split: if_splits)

lemma find_None: "find P xs = None \<longleftrightarrow> (\<forall>x. x \<in> set xs \<longrightarrow> \<not> P x)"
  by (induction xs) auto

text \<open>\<open>std::vector\<close> insertion into a \<open>std::set\<close> that must be new: the element list stays distinct.\<close>

lemma distinct_snoc: "distinct (xs @ [x]) \<longleftrightarrow> distinct xs \<and> x \<notin> set xs"
  by auto

end
