(* ===== verification/Hex_Text.thy ===== *)
theory Hex_Text
  imports Prelude
begin

text \<open>
  The hexadecimal text of the host: the conversions of addresses (\<open>ParseAddress\<close>,
  \<open>FormatAddress\<close> of memory_reader.cpp, the stricter parser of memory_transaction.cpp, the
  canonical form of lua_host.cpp, the internal form of frtk_record_access.cpp) and of byte
  strings. \<open>std::to_chars\<close>, \<open>std::from_chars\<close>, \<open>std::toupper\<close> and \<open>operator<<\<close> with \<open>std::hex\<close> are the
  standard library's and are written out first. The lemmas show that the canonical form is unique
  and that parsing inverts formatting.
\<close>

section \<open>Characters and the standard library's conversions\<close>

abbreviation code :: "char \<Rightarrow> nat" where "code c \<equiv> of_char c"

definition is_digit :: "char \<Rightarrow> bool" where
  "is_digit c \<longleftrightarrow> 48 \<le> code c \<and> code c \<le> 57"

definition is_upper_af :: "char \<Rightarrow> bool" where
  "is_upper_af c \<longleftrightarrow> 65 \<le> code c \<and> code c \<le> 70"

definition is_lower_af :: "char \<Rightarrow> bool" where
  "is_lower_af c \<longleftrightarrow> 97 \<le> code c \<and> code c \<le> 102"

definition is_upper_hex :: "char \<Rightarrow> bool" where
  "is_upper_hex c \<longleftrightarrow> is_digit c \<or> is_upper_af c"

definition toupper :: "char \<Rightarrow> char" where
  "toupper c = (if 97 \<le> code c \<and> code c \<le> 122 then char_of (code c - 32) else c)"

definition lower_digit :: "nat \<Rightarrow> char" where
  "lower_digit n = char_of (if n < 10 then 48 + n else 87 + n)"

definition upper_digit :: "nat \<Rightarrow> char" where
  "upper_digit n = char_of (if n < 10 then 48 + n else 55 + n)"

definition hex_value :: "char \<Rightarrow> nat option" where
  "hex_value c =
     (if is_digit c then Some (code c - 48)
      else if is_upper_af c then Some (code c - 55)
      else if is_lower_af c then Some (code c - 87)
      else None)"

fun to_hex :: "(nat \<Rightarrow> char) \<Rightarrow> nat \<Rightarrow> string" where
  "to_hex digit n = (if n < 16 then [digit n] else to_hex digit (n div 16) @ [digit (n mod 16)])"

declare to_hex.simps [simp del]

text \<open>\<open>std::to_chars(first, last, value, 16)\<close>: lower case, no leading zeros, fails when the
  buffer of \<open>capacity\<close> characters is too small.\<close>

definition to_chars16 :: "nat \<Rightarrow> nat \<Rightarrow> string option" where
  "to_chars16 capacity n =
     (let digits = to_hex lower_digit n in if length digits \<le> capacity then Some digits else None)"

fun scan_hex :: "nat \<Rightarrow> string \<Rightarrow> nat \<times> string" where
  "scan_hex acc [] = (acc, [])"
| "scan_hex acc (c # cs) =
     (case hex_value c of None \<Rightarrow> (acc, c # cs) | Some d \<Rightarrow> scan_hex (acc * 16 + d) cs)"

text \<open>\<open>std::from_chars(first, last, value, 16)\<close> on a 64-bit unsigned value: the longest prefix of
  digits; no digit or a value out of range is an error. Returns the value and the unread rest.\<close>

definition from_chars16 :: "string \<Rightarrow> (nat \<times> string) option" where
  "from_chars16 text =
     (case text of
        [] \<Rightarrow> None
      | c # _ \<Rightarrow>
          if hex_value c = None then None
          else let (v, rest) = scan_hex 0 text in if v < 2 ^ 64 then Some (v, rest) else None)"

section \<open>Addresses\<close>

text \<open>memory_reader.cpp\<close>

definition strip_0x :: "string \<Rightarrow> string" where
  "strip_0x text =
     (case text of
        a # b # rest \<Rightarrow> if a = CHR ''0'' \<and> (b = CHR ''x'' \<or> b = CHR ''X'') then rest else text
      | _ \<Rightarrow> text)"

definition ParseAddress :: "string \<Rightarrow> addr option" where
  "ParseAddress text =
     (let text = strip_0x text in
      if text = [] then None
      else case from_chars16 text of
             Some (v, []) \<Rightarrow> Some (word_of_nat v)
           | _ \<Rightarrow> None)"

definition FormatAddress :: "addr \<Rightarrow> string" where
  "FormatAddress address =
     (case to_chars16 16 (unat address) of
        None \<Rightarrow> []
      | Some digits \<Rightarrow> ''0x'' @ map toupper digits)"

text \<open>memory_transaction.cpp, anonymous \<open>ParseAddress\<close>\<close>

definition ParseAddress_tx :: "string \<Rightarrow> addr option" where
  "ParseAddress_tx text =
     (if length text \<le> 2 \<or> text ! 0 \<noteq> CHR ''0'' \<or> text ! 1 \<noteq> CHR ''x'' \<or>
         (length text > 3 \<and> text ! 2 = CHR ''0'') \<or> \<not> list_all is_upper_hex (drop 2 text)
      then None
      else case from_chars16 (drop 2 text) of
             Some (v, []) \<Rightarrow> Some (word_of_nat v)
           | _ \<Rightarrow> None)"

text \<open>lua_host.cpp\<close>

definition upper_af :: "char \<Rightarrow> char" where
  "upper_af c = (if is_lower_af c then char_of (code c - 97 + 65) else c)"

definition FormatCanonicalAddress :: "addr \<Rightarrow> string" where
  "FormatCanonicalAddress address =
     (case to_chars16 16 (unat address) of
        None \<Rightarrow> []
      | Some digits \<Rightarrow> ''0x'' @ map upper_af digits)"

definition CanonicalAddress :: "string \<Rightarrow> string option" where
  "CanonicalAddress text =
     (if length text < 3 \<or> text ! 0 \<noteq> CHR ''0'' \<or> text ! 1 \<noteq> CHR ''x'' then None
      else case ParseAddress text of
             None \<Rightarrow> None
           | Some parsed \<Rightarrow>
               (let formatted = FormatCanonicalAddress parsed in
                if formatted \<noteq> text then None else Some formatted))"

text \<open>frtk_record_access.cpp: \<open>operator<<\<close> under \<open>std::uppercase << std::hex\<close> prints the digits.\<close>

definition Address :: "addr \<Rightarrow> string" where
  "Address address = ''0x'' @ to_hex upper_digit (unat address)"

definition InternalAddress :: "string \<Rightarrow> addr option" where
  "InternalAddress text =
     (if length text \<le> 2 \<or> take 2 text \<noteq> ''0x'' then None
      else case from_chars16 (drop 2 text) of
             Some (v, []) \<Rightarrow> Some (word_of_nat v)
           | _ \<Rightarrow> None)"

section \<open>Byte strings\<close>

definition nibble :: "char \<Rightarrow> u8 option" where
  "nibble c =
     (if is_digit c then Some (word_of_nat (code c - 48))
      else if is_upper_af c then Some (word_of_nat (code c - 65 + 10))
      else None)"

fun hex_pairs :: "string \<Rightarrow> byte list option" where
  "hex_pairs [] = Some []"
| "hex_pairs [c] = None"
| "hex_pairs (h # l # rest) =
     (case (nibble h, nibble l) of
        (Some high, Some low) \<Rightarrow>
          map_option ((#) (push_bit 4 high OR low)) (hex_pairs rest)
      | _ \<Rightarrow> None)"

text \<open>\<open>MappedBytes\<close>: a byte buffer in mapped storage. Whether the system grants a mapping of the
  size is the parameter \<open>can_map\<close>; a fresh mapping is zero-filled.\<close>

type_synonym MappedBytes = "byte list"

definition Allocate :: "(nat \<Rightarrow> bool) \<Rightarrow> nat \<Rightarrow> MappedBytes option" where
  "Allocate can_map n =
     (if n = 0 then None else if can_map n then Some (replicate n 0) else None)"

definition FromUpperHex :: "(nat \<Rightarrow> bool) \<Rightarrow> string \<Rightarrow> MappedBytes option" where
  "FromUpperHex can_map text =
     (if text = [] \<or> length text mod 2 \<noteq> 0 then None
      else case Allocate can_map (length text div 2) of
             None \<Rightarrow> None
           | Some _ \<Rightarrow> hex_pairs text)"

definition CopyFrom :: "(nat \<Rightarrow> bool) \<Rightarrow> byte list \<Rightarrow> MappedBytes option" where
  "CopyFrom can_map bytes =
     (case Allocate can_map (length bytes) of None \<Rightarrow> None | Some _ \<Rightarrow> Some bytes)"

definition kMaxPatternBytes :: nat where "kMaxPatternBytes = 4096"

definition DecodeScanHex :: "(nat \<Rightarrow> bool) \<Rightarrow> string \<Rightarrow> MappedBytes option" where
  "DecodeScanHex can_map text =
     (if length text > kMaxPatternBytes * 2 then None else FromUpperHex can_map text)"

text \<open>lua_host.cpp: the string case of \<open>HexToBytes\<close>, and \<open>BytesToHex\<close>\<close>

definition hex_text_bytes :: "string \<Rightarrow> byte list option" where
  "hex_text_bytes text = (if text = [] \<or> length text mod 2 \<noteq> 0 then None else hex_pairs text)"

definition BytesToHex :: "byte list \<Rightarrow> string" where
  "BytesToHex bytes =
     concat (map (\<lambda>b. [''0123456789ABCDEF'' ! unat (drop_bit 4 b),
                       ''0123456789ABCDEF'' ! unat (b AND 0x0F)]) bytes)"

text \<open>frtk_profile.cpp\<close>

definition IsUpperHex :: "string \<Rightarrow> bool" where
  "IsUpperHex value \<longleftrightarrow> \<not> (value = [] \<or> length value mod 2 \<noteq> 0) \<and> list_all is_upper_hex value"

definition profile_nibble :: "char \<Rightarrow> u8" where
  "profile_nibble c = (if code c \<le> 57 then word_of_nat (code c - 48) else word_of_nat (code c - 65 + 10))"

fun profile_pairs :: "string \<Rightarrow> byte list" where
  "profile_pairs (h # l # rest) =
     (push_bit 4 (profile_nibble h) OR profile_nibble l) # profile_pairs rest"
| "profile_pairs _ = []"

definition DecodeHex :: "string \<Rightarrow> string + byte list" where
  "DecodeHex value =
     (if \<not> IsUpperHex value then Inl ''Expected uppercase hex bytes''
      else Inr (profile_pairs value))"

section \<open>Digits\<close>

lemma code_char_of [simp]: "n < 256 \<Longrightarrow> code (char_of n) = n"
  by (simp add: of_char_mod_256 take_bit_eq_mod)

lemma code_bound: "code c < 256"
  by simp

lemma char_of_eq: "n < 256 \<Longrightarrow> char_of n = c \<longleftrightarrow> n = code c"
  by (metis char_of_char code_char_of)

lemma hex_value_lower [simp]: "n < 16 \<Longrightarrow> hex_value (lower_digit n) = Some n"
  by (auto simp: hex_value_def lower_digit_def is_digit_def is_upper_af_def is_lower_af_def)

lemma hex_value_upper [simp]: "n < 16 \<Longrightarrow> hex_value (upper_digit n) = Some n"
  by (auto simp: hex_value_def upper_digit_def is_digit_def is_upper_af_def is_lower_af_def)

lemma toupper_lower_digit [simp]: "n < 16 \<Longrightarrow> toupper (lower_digit n) = upper_digit n"
  by (auto simp: toupper_def lower_digit_def upper_digit_def)

lemma upper_af_lower_digit [simp]: "n < 16 \<Longrightarrow> upper_af (lower_digit n) = upper_digit n"
  by (auto simp: upper_af_def lower_digit_def upper_digit_def is_lower_af_def)

lemma is_upper_hex_upper_digit [simp]: "n < 16 \<Longrightarrow> is_upper_hex (upper_digit n)"
  by (auto simp: is_upper_hex_def is_digit_def is_upper_af_def upper_digit_def)

lemma upper_hex_value:
  assumes "is_upper_hex c"
  shows "\<exists>d < 16. hex_value c = Some d \<and> c = upper_digit d"
proof -
  have "hex_value c = Some (the (hex_value c)) \<and> the (hex_value c) < 16 \<and>
      upper_digit (the (hex_value c)) = c"
    using assms
    by (auto simp: hex_value_def is_upper_hex_def is_digit_def is_upper_af_def upper_digit_def)
  then show ?thesis by metis
qed

lemma upper_digit_eq_0 [simp]: "n < 16 \<Longrightarrow> upper_digit n = CHR ''0'' \<longleftrightarrow> n = 0"
  by (auto simp: upper_digit_def char_of_eq)

lemma to_hex_map:
  "(\<And>n. n < 16 \<Longrightarrow> f (digit n) = digit' n) \<Longrightarrow> map f (to_hex digit n) = to_hex digit' n"
proof (induction digit n rule: to_hex.induct)
  case (1 digit n)
  then show ?case
    by (cases "n < 16") (simp_all add: to_hex.simps [of _ n])
qed

lemma to_hex_all:
  "(\<And>n. n < 16 \<Longrightarrow> P (digit n)) \<Longrightarrow> list_all P (to_hex digit n)"
proof (induction digit n rule: to_hex.induct)
  case (1 digit n)
  then show ?case
    by (cases "n < 16") (simp_all add: to_hex.simps [of _ n])
qed

lemma to_hex_nonempty [simp]: "to_hex digit n \<noteq> []"
  by (subst to_hex.simps) simp

lemma length_to_hex: "0 < k \<Longrightarrow> n < 16 ^ k \<Longrightarrow> length (to_hex digit n) \<le> k"
proof (induction digit n arbitrary: k rule: to_hex.induct)
  case (1 digit n)
  show ?case
  proof (cases "n < 16")
    case True
    with "1.prems" show ?thesis by (simp add: to_hex.simps [of _ n])
  next
    case False
    have "k \<noteq> Suc 0" using "1.prems" False by auto
    with "1.prems" obtain j where k: "k = Suc j" and "0 < j"
      by (cases k) auto
    with "1.prems" have "n div 16 < 16 ^ j" by (simp add: less_mult_imp_div_less)
    with "1.IH" False \<open>0 < j\<close> k show ?thesis by (simp add: to_hex.simps [of _ n])
  qed
qed

lemma to_chars16_u64: "to_chars16 16 (unat (a :: u64)) = Some (to_hex lower_digit (unat a))"
proof -
  have "length (to_hex lower_digit (unat a)) \<le> 16"
    using unat_lt_2p64 [of a] by (intro length_to_hex) simp_all
  then show ?thesis by (simp add: to_chars16_def)
qed

section \<open>Formatting and parsing addresses\<close>

lemma FormatAddress_eq: "FormatAddress a = ''0x'' @ to_hex upper_digit (unat a)"
  by (simp add: FormatAddress_def to_chars16_u64 to_hex_map)

lemma FormatCanonicalAddress_eq: "FormatCanonicalAddress a = FormatAddress a"
  by (simp add: FormatCanonicalAddress_def FormatAddress_eq to_chars16_u64 to_hex_map)

lemma Address_eq: "Address a = FormatAddress a"
  by (simp add: Address_def FormatAddress_eq)

definition hex_number :: "nat \<Rightarrow> string \<Rightarrow> nat" where
  "hex_number = foldl (\<lambda>acc c. acc * 16 + the (hex_value c))"

lemma scan_hex_digits:
  "list_all (\<lambda>c. hex_value c \<noteq> None) ds \<Longrightarrow> scan_hex acc ds = (hex_number acc ds, [])"
  by (induction ds arbitrary: acc) (auto simp: hex_number_def)

lemma hex_number_append: "hex_number acc (xs @ ys) = hex_number (hex_number acc xs) ys"
  by (simp add: hex_number_def)

lemma hex_number_to_hex:
  "(\<And>n. n < 16 \<Longrightarrow> hex_value (digit n) = Some n) \<Longrightarrow> hex_number 0 (to_hex digit n) = n"
proof (induction digit n rule: to_hex.induct)
  case (1 digit n)
  then show ?case
    by (cases "n < 16") (simp_all add: to_hex.simps [of _ n] hex_number_append,
        simp_all add: hex_number_def)
qed

lemma from_chars16_digits:
  assumes "list_all (\<lambda>c. hex_value c \<noteq> None) ds" and "ds \<noteq> []"
  shows "from_chars16 ds =
    (if hex_number 0 ds < 2 ^ 64 then Some (hex_number 0 ds, []) else None)"
  using assms by (cases ds) (auto simp: from_chars16_def scan_hex_digits Let_def
      simp del: scan_hex.simps)

lemma from_chars16_to_hex:
  assumes "\<And>n. n < 16 \<Longrightarrow> hex_value (digit n) = Some n" and "n < 2 ^ 64"
  shows "from_chars16 (to_hex digit n) = Some (n, [])"
proof -
  have "list_all (\<lambda>c. hex_value c \<noteq> None) (to_hex digit n)"
    using assms(1) by (intro to_hex_all) simp
  with assms show ?thesis by (simp add: from_chars16_digits hex_number_to_hex)
qed

lemma ParseAddress_FormatAddress [simp]: "ParseAddress (FormatAddress a) = Some a"
  using unat_lt_2p64 [of a]
  by (simp add: ParseAddress_def FormatAddress_eq strip_0x_def from_chars16_to_hex)

lemma InternalAddress_Address [simp]: "InternalAddress (Address a) = Some a"
  using unat_lt_2p64 [of a] to_hex_nonempty [of upper_digit "unat a"]
  by (auto simp: InternalAddress_def Address_def from_chars16_to_hex)

text \<open>A digit string without a leading zero is the formatting of its value.\<close>

lemma canonical_digits:
  assumes "list_all is_upper_hex ds" and "ds \<noteq> []" and "hd ds \<noteq> CHR ''0''"
  shows "0 < hex_number 0 ds \<and> to_hex upper_digit (hex_number 0 ds) = ds"
  using assms
proof (induction ds rule: rev_induct)
  case Nil
  then show ?case by simp
next
  case (snoc c ds)
  from snoc.prems obtain d where d: "d < 16" "hex_value c = Some d" "c = upper_digit d"
    using upper_hex_value [of c] by auto
  show ?case
  proof (cases ds)
    case Nil
    with d snoc.prems show ?thesis
      by (auto simp: hex_number_def to_hex.simps [of _ d])
  next
    case (Cons e es)
    with snoc have IH: "0 < hex_number 0 ds" "to_hex upper_digit (hex_number 0 ds) = ds" by auto
    have n: "hex_number 0 (ds @ [c]) = hex_number 0 ds * 16 + d"
      using d by (simp add: hex_number_def)
    with IH d show ?thesis
      by (simp add: n to_hex.simps [of _ "hex_number 0 ds * 16 + d"])
  qed
qed

lemma is_upper_hex_value: "is_upper_hex c \<Longrightarrow> hex_value c \<noteq> None"
  using upper_hex_value [of c] by auto

lemma canonical_text:
  assumes "list_all is_upper_hex ds" and "ds \<noteq> []" and "\<not> (1 < length ds \<and> hd ds = CHR ''0'')"
  shows "to_hex upper_digit (hex_number 0 ds) = ds"
proof (cases "hd ds = CHR ''0''")
  case True
  with assms(2,3) have "ds = ''0''" by (cases ds) auto
  then show ?thesis
    by (simp add: hex_number_def hex_value_def is_digit_def to_hex.simps char_of_eq
        upper_digit_def)
next
  case False
  with assms show ?thesis using canonical_digits by blast
qed

lemma ParseAddress_tx_Some:
  assumes "ParseAddress_tx text = Some a"
  shows "text = FormatAddress a"
proof -
  define ds where "ds = drop 2 text"
  from assms have guards: "2 < length text" "text ! 0 = CHR ''0''" "text ! 1 = CHR ''x''"
      "\<not> (3 < length text \<and> text ! 2 = CHR ''0'')" "list_all is_upper_hex ds"
    and parsed: "\<exists>v. from_chars16 ds = Some (v, []) \<and> a = word_of_nat v"
    by (auto simp: ParseAddress_tx_def ds_def split: if_splits option.splits list.splits)
  from guards(1) have "Suc (Suc (Suc 0)) \<le> length text" by simp
  with guards(2,3) obtain c r where "text = CHR ''0'' # CHR ''x'' # c # r"
    by (auto simp: Suc_le_length_iff)
  then have shape: "text = ''0x'' @ ds" and head: "hd ds = text ! 2" and ne: "ds \<noteq> []"
    by (simp_all add: ds_def)
  have dig: "list_all (\<lambda>c. hex_value c \<noteq> None) ds"
    using guards(5) is_upper_hex_value by (auto simp: list_all_iff)
  have canon: "to_hex upper_digit (hex_number 0 ds) = ds"
    using guards(4,5) ne head shape by (intro canonical_text) auto
  from parsed have "hex_number 0 ds < 2 ^ 64" and "a = word_of_nat (hex_number 0 ds)"
    using from_chars16_digits [OF dig ne] by (auto split: if_splits)
  with canon shape show ?thesis by (simp add: FormatAddress_eq unat_of_nat_u64)
qed

lemma ParseAddress_tx_FormatAddress: "ParseAddress_tx (FormatAddress a) = Some a"
proof -
  define n where "n = unat a"
  have lt: "n < 2 ^ 64" unfolding n_def by (rule unat_lt_2p64)
  have hex: "list_all is_upper_hex (to_hex upper_digit n)"
    by (rule to_hex_all) simp
  have lead: "\<not> (1 < length (to_hex upper_digit n) \<and> hd (to_hex upper_digit n) = CHR ''0'')"
    for n
  proof (induction upper_digit n rule: to_hex.induct)
    case (1 n)
    show ?case
    proof (cases "n < 16")
      case True
      then show ?thesis by (simp add: to_hex.simps [of _ n])
    next
      case False
      with 1 show ?thesis
        by (cases "n div 16 < 16")
          (auto simp: to_hex.simps [of _ n] to_hex.simps [of _ "n div 16"])
    qed
  qed
  have "from_chars16 (to_hex upper_digit n) = Some (n, [])"
    using lt by (rule from_chars16_to_hex [rotated]) simp
  then show ?thesis
    using lead [of n] hex to_hex_nonempty [of upper_digit n]
    by (cases "to_hex upper_digit n")
      (auto simp: ParseAddress_tx_def FormatAddress_eq n_def [symmetric], simp_all add: n_def)
qed

lemma ParseAddress_tx_iff: "ParseAddress_tx text = Some a \<longleftrightarrow> text = FormatAddress a"
  using ParseAddress_tx_Some ParseAddress_tx_FormatAddress by blast

lemma FormatAddress_inj: "FormatAddress a = FormatAddress b \<longleftrightarrow> a = b"
  using ParseAddress_FormatAddress by (metis option.inject)

section \<open>Byte strings: decoding inverts encoding\<close>

lemma hex_table: "n < 16 \<Longrightarrow> ''0123456789ABCDEF'' ! n = upper_digit n"
proof -
  assume "n < 16"
  then have "n \<in> {0, 1, 2, 3, 4, 5, 6, 7, 8, 9, 10, 11, 12, 13, 14, 15}"
    by (simp only: insert_iff empty_iff) arith
  then show ?thesis
    by (elim insertE emptyE) (simp_all add: upper_digit_def char_of_eq eq_commute [of _ "char_of _"])
qed

lemma nibble_upper_digit [simp]: "n < 16 \<Longrightarrow> nibble (upper_digit n) = Some (word_of_nat n)"
  by (auto simp: nibble_def upper_digit_def is_digit_def is_upper_af_def)

lemma nibble_upper_hex: "nibble c \<noteq> None \<longleftrightarrow> is_upper_hex c"
  by (auto simp: nibble_def is_upper_hex_def)

lemma nibbleD:
  assumes "nibble c = Some v"
  shows "\<exists>n < 16. v = word_of_nat n \<and> c = upper_digit n"
proof -
  have "is_upper_hex c" using assms nibble_upper_hex [of c] by simp
  then obtain n where "n < 16" and "c = upper_digit n"
    using upper_hex_value by blast
  with assms show ?thesis by auto
qed

lemma profile_nibble_upper_digit [simp]: "n < 16 \<Longrightarrow> profile_nibble (upper_digit n) = word_of_nat n"
  by (auto simp: profile_nibble_def upper_digit_def)

lemma mask_nibble: "(b :: byte) AND 0x0F = take_bit 4 b"
  by (simp add: take_bit_eq_mask mask_eq_exp_minus_1)

lemma unat_byte_lt: "unat (b :: byte) < 256"
  using unsigned_less [of b] by simp

lemma high_nibble_bound: "unat (drop_bit 4 (b :: byte)) < 16"
  using unat_byte_lt [of b] by (simp add: unat_drop_bit less_mult_imp_div_less)

lemma low_nibble_bound: "unat (take_bit 4 (b :: byte)) < 16"
  by (simp add: unat_take_bit)

lemma BytesToHex_Nil [simp]: "BytesToHex [] = []"
  by (simp add: BytesToHex_def)

lemma BytesToHex_Cons [simp]:
  "BytesToHex (b # bs) =
     upper_digit (unat (drop_bit 4 b)) # upper_digit (unat (take_bit 4 b)) # BytesToHex bs"
  by (simp add: BytesToHex_def mask_nibble hex_table high_nibble_bound low_nibble_bound)

lemma length_BytesToHex: "length (BytesToHex bs) = 2 * length bs"
  by (induction bs) simp_all

lemma hex_pairs_BytesToHex: "hex_pairs (BytesToHex bs) = Some bs"
  by (induction bs) (simp_all add: high_nibble_bound low_nibble_bound join_bits)

lemma split_nibbles:
  assumes "h < 16" and "l < 16"
  shows "drop_bit 4 (push_bit 4 (word_of_nat h) OR word_of_nat l :: byte) = word_of_nat h"
    and "take_bit 4 (push_bit 4 (word_of_nat h) OR word_of_nat l :: byte) = word_of_nat l"
proof -
  have l: "drop_bit 4 (word_of_nat l :: byte) = 0" "take_bit 4 (word_of_nat l :: byte) = word_of_nat l"
    using assms by (simp_all add: word_unat_eq_iff unat_drop_bit unat_take_bit unat_of_nat)
  have h: "take_bit 4 (word_of_nat h :: byte) = word_of_nat h"
    using assms by (simp add: word_unat_eq_iff unat_take_bit unat_of_nat)
  have "drop_bit 4 (push_bit 4 x :: byte) = take_bit 4 x" for x
    by (rule bit_word_eqI) (auto simp: bit_take_bit_iff bit_push_bit_iff bit_drop_bit_eq)
  then show "drop_bit 4 (push_bit 4 (word_of_nat h) OR word_of_nat l :: byte) = word_of_nat h"
    using l h by (simp add: drop_bit_or)
  show "take_bit 4 (push_bit 4 (word_of_nat h) OR word_of_nat l :: byte) = word_of_nat l"
    using l by (simp add: take_bit_or take_bit_push_bit)
qed

lemma BytesToHex_hex_pairs: "hex_pairs t = Some bs \<Longrightarrow> BytesToHex bs = t"
proof (induction t arbitrary: bs rule: hex_pairs.induct)
  case (3 h l rest)
  then obtain x y r where x: "nibble h = Some x" and y: "nibble l = Some y"
    and r: "hex_pairs rest = Some r" and bs: "bs = (push_bit 4 x OR y) # r"
    by (auto split: option.splits)
  from nibbleD [OF x] obtain m where m: "m < 16" "x = word_of_nat m" "h = upper_digit m" by blast
  from nibbleD [OF y] obtain n where n: "n < 16" "y = word_of_nat n" "l = upper_digit n" by blast
  from "3.IH" [OF refl x y r] m n show ?case
    by (simp add: bs split_nibbles unat_of_nat take_bit_nat_eq_self del: drop_bit_or take_bit_or)
qed simp_all

lemma hex_pairs_Some_iff:
  "(\<exists>bs. hex_pairs t = Some bs) \<longleftrightarrow> even (length t) \<and> list_all is_upper_hex t"
proof (induction t rule: hex_pairs.induct)
  case (3 h l rest)
  then show ?case
    by (cases "nibble h"; cases "nibble l")
      (use nibble_upper_hex [of h] nibble_upper_hex [of l] in auto)
qed simp_all

lemma profile_pairs_eq: "hex_pairs t = Some bs \<Longrightarrow> profile_pairs t = bs"
proof (induction t arbitrary: bs rule: hex_pairs.induct)
  case (3 h l rest)
  then obtain x y r where x: "nibble h = Some x" and y: "nibble l = Some y"
    and r: "hex_pairs rest = Some r" and bs: "bs = (push_bit 4 x OR y) # r"
    by (auto split: option.splits)
  from nibbleD [OF x] nibbleD [OF y] "3.IH" [OF refl x y r] show ?case by (auto simp: bs)
qed simp_all

lemma DecodeHex_eq:
  "DecodeHex t = (case hex_text_bytes t of
     None \<Rightarrow> Inl ''Expected uppercase hex bytes'' | Some bs \<Rightarrow> Inr bs)"
  using hex_pairs_Some_iff [of t]
  by (auto simp: DecodeHex_def IsUpperHex_def hex_text_bytes_def profile_pairs_eq
      even_iff_mod_2_eq_zero split: option.splits)

section \<open>Properties\<close>

lemma CanonicalAddress_iff:
  "CanonicalAddress t = Some u \<longleftrightarrow> u = t \<and> (\<exists>a. t = FormatAddress a)"
proof -
  have "3 \<le> length (FormatAddress a) \<and> FormatAddress a ! 0 = CHR ''0'' \<and> FormatAddress a ! 1 = CHR ''x''" for a
    using to_hex_nonempty [of upper_digit "unat a"]
    by (cases "to_hex upper_digit (unat a)") (auto simp: FormatAddress_eq)
  then have "CanonicalAddress (FormatAddress a) = Some (FormatAddress a)" for a
    by (simp add: CanonicalAddress_def FormatCanonicalAddress_eq Let_def not_less)
  moreover have "u = t \<and> (\<exists>a. t = FormatAddress a)" if "CanonicalAddress t = Some u"
    using that by (auto simp: CanonicalAddress_def FormatCanonicalAddress_eq Let_def
        split: if_splits option.splits)
  ultimately show ?thesis by auto
qed

text \<open>Canonical addresses. The transaction engine's parser accepts exactly the text
  \<open>FormatAddress\<close> prints, with that address; the protocol's \<open>CanonicalAddress\<close> accepts the same texts
  and returns them unchanged; the lenient \<open>ParseAddress\<close> and the database's \<open>InternalAddress\<close> read
  the printed text back.\<close>

lemma canonical_addresses:
  "(ParseAddress_tx t = Some a \<longleftrightarrow> t = FormatAddress a) \<and>
   (CanonicalAddress t = Some u \<longleftrightarrow> u = t \<and> (\<exists>b. ParseAddress_tx t = Some b)) \<and>
   ParseAddress (FormatAddress a) = Some a \<and> InternalAddress (Address a) = Some a \<and>
   Address a = FormatAddress a \<and> FormatCanonicalAddress a = FormatAddress a"
  using InternalAddress_Address [of a]
  by (simp add: ParseAddress_tx_iff CanonicalAddress_iff FormatCanonicalAddress_eq Address_eq)

text \<open>Hexadecimal byte strings. The decoder of the wire format accepts exactly the upper-case
  encodings of non-empty byte strings and inverts the encoder; the profile decoder agrees with it
  and throws on every other text.\<close>

lemma hex_bytes_roundtrip:
  "(hex_text_bytes t = Some bytes \<longleftrightarrow> bytes \<noteq> [] \<and> t = BytesToHex bytes) \<and>
   (DecodeHex t = Inr bytes \<longleftrightarrow> bytes \<noteq> [] \<and> t = BytesToHex bytes)"
proof -
  have "hex_text_bytes t = Some bytes \<longleftrightarrow> bytes \<noteq> [] \<and> t = BytesToHex bytes"
  proof
    assume "hex_text_bytes t = Some bytes"
    then have t: "t \<noteq> []" "hex_pairs t = Some bytes" by (auto simp: hex_text_bytes_def split: if_splits)
    then have "t = BytesToHex bytes" using BytesToHex_hex_pairs by auto
    with t show "bytes \<noteq> [] \<and> t = BytesToHex bytes" by auto
  next
    assume r: "bytes \<noteq> [] \<and> t = BytesToHex bytes"
    then have "length t mod 2 = 0" "t \<noteq> []"
      by (auto simp: length_BytesToHex neq_Nil_conv)
    with r show "hex_text_bytes t = Some bytes" by (simp add: hex_text_bytes_def hex_pairs_BytesToHex)
  qed
  then show ?thesis by (cases "hex_text_bytes t") (auto simp: DecodeHex_eq)
qed

end
