(* ===== verification/Win_Memory.thy ===== *)
theory Win_Memory
  imports Prelude
begin

text \<open>
  The Windows memory interface the host relies on and the region predicates built on it.
  \<open>VirtualQuery\<close> is a parameter: a function from an address to the description of its region,
  \<open>None\<close> when the call does not fill the structure. One call of a host function sees one snapshot of
  the address space. The constants are those of the Windows SDK. The locale \<open>virtual_query\<close>
  states what the documentation promises of \<open>VirtualQuery\<close>; it is interpreted on
  address spaces given as tables of disjoint regions.
\<close>

section \<open>Constants and the region structure\<close>

type_synonym DWORD = "32 word"

definition PAGE_NOACCESS :: DWORD where "PAGE_NOACCESS = 0x01"
definition PAGE_READONLY :: DWORD where "PAGE_READONLY = 0x02"
definition PAGE_READWRITE :: DWORD where "PAGE_READWRITE = 0x04"
definition PAGE_WRITECOPY :: DWORD where "PAGE_WRITECOPY = 0x08"
definition PAGE_EXECUTE :: DWORD where "PAGE_EXECUTE = 0x10"
definition PAGE_EXECUTE_READ :: DWORD where "PAGE_EXECUTE_READ = 0x20"
definition PAGE_EXECUTE_READWRITE :: DWORD where "PAGE_EXECUTE_READWRITE = 0x40"
definition PAGE_EXECUTE_WRITECOPY :: DWORD where "PAGE_EXECUTE_WRITECOPY = 0x80"
definition PAGE_GUARD :: DWORD where "PAGE_GUARD = 0x100"
definition MEM_COMMIT :: DWORD where "MEM_COMMIT = 0x1000"
definition MEM_PRIVATE :: DWORD where "MEM_PRIVATE = 0x20000"
definition MEM_MAPPED :: DWORD where "MEM_MAPPED = 0x40000"

lemmas win_constants =
  PAGE_NOACCESS_def PAGE_READONLY_def PAGE_READWRITE_def PAGE_WRITECOPY_def PAGE_EXECUTE_def
  PAGE_EXECUTE_READ_def PAGE_EXECUTE_READWRITE_def PAGE_EXECUTE_WRITECOPY_def PAGE_GUARD_def
  MEM_COMMIT_def MEM_PRIVATE_def MEM_MAPPED_def

record MEMORY_BASIC_INFORMATION =
  BaseAddress :: addr
  AllocationBase :: addr
  AllocationProtect :: DWORD
  RegionSize :: u64
  State :: DWORD
  Protect :: DWORD
  MemType :: DWORD

type_synonym query = "addr \<Rightarrow> MEMORY_BASIC_INFORMATION option"

section \<open>Protection predicates\<close>

text \<open>memory_reader.cpp\<close>

definition IsReadableProtection :: "DWORD \<Rightarrow> bool" where
  "IsReadableProtection protection =
     (if protection AND (PAGE_GUARD OR PAGE_NOACCESS) \<noteq> 0 then False
      else (let base = protection AND 0xFF in
        base = PAGE_READONLY \<or> base = PAGE_READWRITE \<or> base = PAGE_WRITECOPY \<or>
        base = PAGE_EXECUTE_READ \<or> base = PAGE_EXECUTE_READWRITE \<or> base = PAGE_EXECUTE_WRITECOPY))"

text \<open>memory_transaction.cpp: the guard and no-access bits are tested by the caller.\<close>

definition IsReadableProtection_tx :: "DWORD \<Rightarrow> bool" where
  "IsReadableProtection_tx protection =
     (let base = protection AND 0xFF in
        base = PAGE_READONLY \<or> base = PAGE_READWRITE \<or> base = PAGE_WRITECOPY \<or>
        base = PAGE_EXECUTE_READ \<or> base = PAGE_EXECUTE_READWRITE \<or> base = PAGE_EXECUTE_WRITECOPY)"

definition IsWritableProtection :: "DWORD \<Rightarrow> bool" where
  "IsWritableProtection protection =
     (let base = protection AND 0xFF in
        base = PAGE_READWRITE \<or> base = PAGE_WRITECOPY \<or>
        base = PAGE_EXECUTE_READWRITE \<or> base = PAGE_EXECUTE_WRITECOPY)"

text \<open>board_mutation.cpp\<close>

definition ReadableProtection :: "DWORD \<Rightarrow> bool" where
  "ReadableProtection protection =
     (if protection AND (PAGE_GUARD OR PAGE_NOACCESS) \<noteq> 0 then False
      else (let base = protection AND 0xFF in
        base = PAGE_READONLY \<or> base = PAGE_READWRITE \<or> base = PAGE_WRITECOPY \<or>
        base = PAGE_EXECUTE_READ \<or> base = PAGE_EXECUTE_READWRITE \<or> base = PAGE_EXECUTE_WRITECOPY))"

definition WritableProtection :: "DWORD \<Rightarrow> bool" where
  "WritableProtection protection =
     (if protection AND (PAGE_GUARD OR PAGE_NOACCESS) \<noteq> 0 then False
      else (let base = protection AND 0xFF in
        base = PAGE_READWRITE \<or> base = PAGE_WRITECOPY \<or>
        base = PAGE_EXECUTE_READWRITE \<or> base = PAGE_EXECUTE_WRITECOPY))"

section \<open>Single-region checks\<close>

text \<open>memory_reader.cpp\<close>

definition AddOverflows :: "addr \<Rightarrow> u64 \<Rightarrow> bool" where
  "AddOverflows left right \<longleftrightarrow> right > max_u64 - left"

definition SizeAddOverflows :: "u64 \<Rightarrow> u64 \<Rightarrow> bool" where
  "SizeAddOverflows left right \<longleftrightarrow> right > max_u64 - left"

definition IsEligiblePrivateReadableRegion :: "MEMORY_BASIC_INFORMATION \<Rightarrow> bool" where
  "IsEligiblePrivateReadableRegion info \<longleftrightarrow>
     State info = MEM_COMMIT \<and> MemType info = MEM_PRIVATE \<and> RegionSize info \<noteq> 0 \<and>
     IsReadableProtection (Protect info)"

definition IsMappedReadableStorage :: "query \<Rightarrow> addr \<Rightarrow> bool" where
  "IsMappedReadableStorage VirtualQuery pointer \<longleftrightarrow>
     pointer \<noteq> 0 \<and>
     (case VirtualQuery pointer of
        None \<Rightarrow> False
      | Some info \<Rightarrow> State info = MEM_COMMIT \<and> MemType info = MEM_MAPPED \<and>
          IsReadableProtection (Protect info))"

definition IsWithinOneEligibleRegion :: "query \<Rightarrow> addr \<Rightarrow> u64 \<Rightarrow> bool" where
  "IsWithinOneEligibleRegion VirtualQuery address n =
     (case VirtualQuery address of
        None \<Rightarrow> False
      | Some info \<Rightarrow>
          if \<not> IsEligiblePrivateReadableRegion info then False
          else (let base = BaseAddress info in
            if address < base \<or> AddOverflows base (RegionSize info) \<or> AddOverflows address n
            then False
            else address + n \<le> base + RegionSize info))"

definition OverlapsRange :: "addr \<Rightarrow> u64 \<Rightarrow> addr \<Rightarrow> u64 \<Rightarrow> bool" where
  "OverlapsRange candidate candidate_length excluded excluded_length =
     (if excluded = 0 \<or> excluded_length = 0 then False
      else if AddOverflows candidate candidate_length \<or> AddOverflows excluded excluded_length
      then False
      else candidate < excluded + excluded_length \<and> excluded < candidate + candidate_length)"

text \<open>native_call.cpp\<close>

definition IsExecutableAddress :: "query \<Rightarrow> addr \<Rightarrow> bool" where
  "IsExecutableAddress VirtualQuery address =
     (if address = 0 then False
      else case VirtualQuery address of
        None \<Rightarrow> False
      | Some info \<Rightarrow>
          if State info \<noteq> MEM_COMMIT \<or> Protect info AND (PAGE_GUARD OR PAGE_NOACCESS) \<noteq> 0 then False
          else Protect info AND (PAGE_EXECUTE OR PAGE_EXECUTE_READ OR PAGE_EXECUTE_READWRITE OR
                 PAGE_EXECUTE_WRITECOPY) \<noteq> 0)"

text \<open>research_watch.cpp. The region end is computed without an overflow guard and wraps.\<close>

definition IsExecutable :: "query \<Rightarrow> addr \<Rightarrow> bool" where
  "IsExecutable VirtualQuery address =
     (if address = 0 then False
      else case VirtualQuery address of
        None \<Rightarrow> False
      | Some info \<Rightarrow>
          if State info \<noteq> MEM_COMMIT \<or> Protect info AND (PAGE_GUARD OR PAGE_NOACCESS) \<noteq> 0 then False
          else Protect info AND (PAGE_EXECUTE OR PAGE_EXECUTE_READ OR PAGE_EXECUTE_READWRITE OR
                 PAGE_EXECUTE_WRITECOPY) \<noteq> 0)"

definition IsWritable :: "query \<Rightarrow> addr \<Rightarrow> u64 \<Rightarrow> bool" where
  "IsWritable VirtualQuery address n =
     (if address = 0 \<or> n = 0 \<or> address > max_u64 - n then False
      else case VirtualQuery address of
        None \<Rightarrow> False
      | Some info \<Rightarrow>
          if State info \<noteq> MEM_COMMIT \<or> Protect info AND (PAGE_GUARD OR PAGE_NOACCESS) \<noteq> 0 then False
          else (let region_end = BaseAddress info + RegionSize info in
            address + n \<le> region_end \<and>
            Protect info AND (PAGE_READWRITE OR PAGE_WRITECOPY OR PAGE_EXECUTE_READWRITE OR
              PAGE_EXECUTE_WRITECOPY) \<noteq> 0))"

text \<open>lua_host.cpp\<close>

definition IsAccessible :: "query \<Rightarrow> addr \<Rightarrow> u64 \<Rightarrow> bool \<Rightarrow> bool" where
  "IsAccessible VirtualQuery address n writable =
     (if address = 0 \<or> n = 0 \<or> address + n < address then False
      else case VirtualQuery address of
        None \<Rightarrow> False
      | Some info \<Rightarrow>
          if State info \<noteq> MEM_COMMIT \<or> Protect info AND (PAGE_GUARD OR PAGE_NOACCESS) \<noteq> 0 then False
          else (let readable = PAGE_READONLY OR PAGE_READWRITE OR PAGE_WRITECOPY OR
                      PAGE_EXECUTE_READ OR PAGE_EXECUTE_READWRITE OR PAGE_EXECUTE_WRITECOPY;
                    writeable = PAGE_READWRITE OR PAGE_WRITECOPY OR PAGE_EXECUTE_READWRITE OR
                      PAGE_EXECUTE_WRITECOPY;
                    region_end = BaseAddress info + RegionSize info in
            address + n \<le> region_end \<and>
            Protect info AND (if writable then writeable else readable) \<noteq> 0))"

section \<open>Walks over several regions\<close>

text \<open>
  The loop that \<open>ProcessMemoryBackend::Validate\<close> and \<open>ReadableRange\<close> share: query at the cursor,
  refuse an unacceptable region or one that does not advance, go on at its end. It stops because
  the cursor grows.
\<close>

function walk_regions ::
  "query \<Rightarrow> (MEMORY_BASIC_INFORMATION \<Rightarrow> bool) \<Rightarrow> addr \<Rightarrow> addr \<Rightarrow> bool" where
  "walk_regions VirtualQuery accept limit cursor =
     (if cursor < limit then
        (case VirtualQuery cursor of
           None \<Rightarrow> False
         | Some info \<Rightarrow>
             if \<not> accept info then False
             else (let region_end = BaseAddress info + RegionSize info in
               if region_end \<le> cursor then False
               else walk_regions VirtualQuery accept limit (min limit region_end)))
      else True)"
  by pat_completeness auto
termination
  by (relation "measure (\<lambda>(q, acc, limit, cursor). unat limit - unat cursor)")
    (auto simp: min_def word_less_nat_alt word_le_nat_alt)

declare walk_regions.simps [simp del]

text \<open>memory_transaction.cpp\<close>

definition validate_region :: "bool \<Rightarrow> MEMORY_BASIC_INFORMATION \<Rightarrow> bool" where
  "validate_region writable info \<longleftrightarrow>
     \<not> (State info \<noteq> MEM_COMMIT \<or> Protect info AND PAGE_GUARD \<noteq> 0 \<or>
        Protect info AND PAGE_NOACCESS \<noteq> 0 \<or> \<not> IsReadableProtection_tx (Protect info) \<or>
        (writable \<and> \<not> IsWritableProtection (Protect info))) \<and>
     \<not> RegionSize info > max_u64 - BaseAddress info"

definition ProcessMemoryBackend_Validate :: "query \<Rightarrow> addr \<Rightarrow> u64 \<Rightarrow> bool \<Rightarrow> bool" where
  "ProcessMemoryBackend_Validate VirtualQuery address n writable =
     (if n = 0 \<or> address > max_u64 - n then False
      else walk_regions VirtualQuery (validate_region writable) (address + n) address)"

text \<open>board_mutation.cpp\<close>

definition ReadableRange :: "query \<Rightarrow> addr \<Rightarrow> u64 \<Rightarrow> bool" where
  "ReadableRange VirtualQuery address n =
     (if address = 0 \<or> n = 0 \<or> address > max_u64 - n then False
      else walk_regions VirtualQuery
             (\<lambda>info. \<not> (State info \<noteq> MEM_COMMIT \<or> \<not> ReadableProtection (Protect info)))
             (address + n) address)"

text \<open>lua_host.cpp, \<open>ProcessDiscoveryBackend::AllocationExists\<close>: the whole range must lie in one
  allocation. \<open>expired\<close> is the deadline, read once per region. An allocation base of 0 is
  overwritten by the next region's, as in the source.\<close>

function allocation_walk ::
  "query \<Rightarrow> (addr \<Rightarrow> bool) \<Rightarrow> addr \<Rightarrow> addr \<Rightarrow> addr \<Rightarrow> bool" where
  "allocation_walk VirtualQuery expired limit allocation_base cursor =
     (if cursor < limit then
        if expired cursor then False
        else (case VirtualQuery cursor of
           None \<Rightarrow> False
         | Some info \<Rightarrow>
             if State info \<noteq> MEM_COMMIT \<or> RegionSize info = 0 then False
             else (let observed = AllocationBase info;
                       allocation_base = (if allocation_base = 0 then observed else allocation_base) in
               if observed \<noteq> allocation_base then False
               else (let region_end = BaseAddress info + RegionSize info in
                 if region_end \<le> cursor then False
                 else allocation_walk VirtualQuery expired limit allocation_base
                        (min limit region_end))))
      else cursor = limit)"
  by pat_completeness auto
termination
  by (relation "measure (\<lambda>(q, e, limit, b, cursor). unat limit - unat cursor)")
    (auto simp: min_def word_less_nat_alt word_le_nat_alt)

declare allocation_walk.simps [simp del]

definition AllocationExists :: "query \<Rightarrow> (addr \<Rightarrow> bool) \<Rightarrow> addr \<Rightarrow> u64 \<Rightarrow> bool" where
  "AllocationExists VirtualQuery expired base n =
     (if base = 0 \<or> n = 0 \<or> n > max_u64 - base then False
      else allocation_walk VirtualQuery expired (base + n) 0 base)"

section \<open>Guards as arithmetic\<close>

lemma AddOverflows_iff [overflow_simps]: "AddOverflows a b \<longleftrightarrow> 2 ^ 64 \<le> unat a + unat b"
  by (simp add: AddOverflows_def add_guard)

lemma SizeAddOverflows_iff [overflow_simps]: "SizeAddOverflows a b \<longleftrightarrow> 2 ^ 64 \<le> unat a + unat b"
  by (simp add: SizeAddOverflows_def add_guard)

lemma add_guard_swapped [overflow_simps]: "max_u64 - n < a \<longleftrightarrow> 2 ^ 64 \<le> unat a + unat n"
  by (simp add: add_guard add.commute)

lemma wrapped_add: "(a :: u64) + n < a \<longleftrightarrow> 2 ^ 64 \<le> unat a + unat n"
proof -
  have "unat (a + n) = (unat a + unat n) mod 2 ^ 64" by (simp add: unat_word_ariths)
  moreover have "unat a < 2 ^ 64" "unat n < 2 ^ 64" by (rule unat_lt_2p64)+
  ultimately show ?thesis
    by (cases "unat a + unat n < 2 ^ 64")
      (auto simp: word_less_nat_alt not_less le_mod_geq mod_if)
qed

text \<open>The sources hold three copies of the protection test; they agree.\<close>

lemma IsReadableProtection_eq:
  "IsReadableProtection p \<longleftrightarrow>
     p AND (PAGE_GUARD OR PAGE_NOACCESS) = 0 \<and> IsReadableProtection_tx p"
  by (auto simp: IsReadableProtection_def IsReadableProtection_tx_def Let_def)

lemma ReadableProtection_eq: "ReadableProtection p = IsReadableProtection p"
  by (simp add: ReadableProtection_def IsReadableProtection_def)

lemma WritableProtection_eq:
  "WritableProtection p \<longleftrightarrow> p AND (PAGE_GUARD OR PAGE_NOACCESS) = 0 \<and> IsWritableProtection p"
  by (auto simp: WritableProtection_def IsWritableProtection_def Let_def)

lemma guard_bits_split:
  "p AND (PAGE_GUARD OR PAGE_NOACCESS) = 0 \<longleftrightarrow> p AND PAGE_GUARD = 0 \<and> p AND PAGE_NOACCESS = 0"
  by (auto simp: bit.conj_disj_distrib bit_eq_iff bit_or_iff)

lemma IsExecutable_eq: "IsExecutable vq a = IsExecutableAddress vq a"
  by (simp add: IsExecutable_def IsExecutableAddress_def)

section \<open>What VirtualQuery promises\<close>

definition same_attributes ::
  "MEMORY_BASIC_INFORMATION \<Rightarrow> MEMORY_BASIC_INFORMATION \<Rightarrow> bool" where
  "same_attributes i j \<longleftrightarrow> State j = State i \<and> Protect j = Protect i \<and> MemType j = MemType i \<and>
     AllocationBase j = AllocationBase i"

definition in_region :: "MEMORY_BASIC_INFORMATION \<Rightarrow> addr \<Rightarrow> bool" where
  "in_region i a \<longleftrightarrow> unat (BaseAddress i) \<le> unat a \<and>
     unat a < unat (BaseAddress i) + unat (RegionSize i)"

text \<open>
  \<open>VirtualQuery\<close> describes the run of pages from the page of the queried address on that share
  state, protection, type and allocation; user-mode regions end below the top of the address
  space.
\<close>

locale virtual_query =
  fixes VQ :: query
  assumes covers: "VQ a = Some i \<Longrightarrow> in_region i a"
    and no_wrap: "VQ a = Some i \<Longrightarrow> unat (BaseAddress i) + unat (RegionSize i) < 2 ^ 64"
    and uniform: "VQ a = Some i \<Longrightarrow> in_region i b \<Longrightarrow> \<exists>j. VQ b = Some j \<and> same_attributes i j"
begin

lemma region_end:
  assumes "VQ a = Some i"
  shows "unat (BaseAddress i + RegionSize i) = unat (BaseAddress i) + unat (RegionSize i)"
    and "\<not> BaseAddress i + RegionSize i \<le> a"
    and "\<not> RegionSize i > max_u64 - BaseAddress i"
  using covers [OF assms] no_wrap [OF assms] unat_add_no_overflow [of "BaseAddress i" "RegionSize i"]
  by (auto simp: in_region_def word_le_nat_alt overflow_simps)

lemma walk_step:
  assumes i: "VQ cursor = Some i"
  shows "unat (min limit (BaseAddress i + RegionSize i)) =
      min (unat limit) (unat (BaseAddress i) + unat (RegionSize i))"
    and "unat cursor < unat (BaseAddress i) + unat (RegionSize i)"
  using covers [OF i] region_end(1) [OF i]
  by (auto simp: min_def word_le_nat_alt in_region_def)

text \<open>A walk that accepts has seen every address of the range in an acceptable region.\<close>

lemma walk_sound:
  assumes "walk_regions VQ accept limit cursor"
    and good: "\<And>i j. accept i \<Longrightarrow> same_attributes i j \<Longrightarrow> good j"
    and "unat cursor \<le> unat x" and "unat x < unat limit"
  shows "\<exists>j. VQ x = Some j \<and> good j"
  using assms(1,3,4)
proof (induction "unat limit - unat cursor" arbitrary: cursor rule: less_induct)
  case less
  from less.prems(2,3) have c: "cursor < limit" by (simp add: word_less_nat_alt)
  with less.prems(1) obtain i where i: "VQ cursor = Some i" and acc: "accept i"
    and go: "walk_regions VQ accept limit (min limit (BaseAddress i + RegionSize i))"
    by (auto simp: walk_regions.simps [of VQ accept limit cursor] Let_def
        split: option.splits if_splits)
  show ?case
  proof (cases "in_region i x")
    case True
    with uniform [OF i] good [OF acc] show ?thesis by blast
  next
    case False
    with less.prems(2) covers [OF i]
    have "unat (BaseAddress i) + unat (RegionSize i) \<le> unat x" by (auto simp: in_region_def)
    with less.prems(3) walk_step(1) [OF i, of limit] walk_step(2) [OF i] c show ?thesis
      by (intro less.hyps [OF _ go]) (auto simp: word_less_nat_alt)
  qed
qed

text \<open>Conversely a range that lies in acceptable regions is accepted.\<close>

lemma walk_complete:
  assumes good: "\<And>a j. VQ a = Some j \<Longrightarrow> good j \<Longrightarrow> accept j"
    and all: "\<And>x. unat cursor \<le> unat x \<Longrightarrow> unat x < unat limit \<Longrightarrow> \<exists>j. VQ x = Some j \<and> good j"
  shows "walk_regions VQ accept limit cursor"
  using all
proof (induction "unat limit - unat cursor" arbitrary: cursor rule: less_induct)
  case less
  show ?case
  proof (cases "cursor < limit")
    case False
    then show ?thesis by (simp add: walk_regions.simps [of VQ accept limit cursor])
  next
    case True
    then obtain i where i: "VQ cursor = Some i" and "good i"
      using less.prems [of cursor] by (auto simp: word_less_nat_alt)
    then have acc: "accept i" by (blast intro: good)
    have "walk_regions VQ accept limit (min limit (BaseAddress i + RegionSize i))"
      using walk_step(1) [OF i, of limit] walk_step(2) [OF i] True less.prems
      by (intro less.hyps) (auto simp: word_less_nat_alt)
    with True i acc region_end(2) [OF i] show ?thesis
      by (simp add: walk_regions.simps [of VQ accept limit cursor] Let_def)
  qed
qed

end

section \<open>Address spaces as tables of disjoint regions\<close>

definition wf_space :: "MEMORY_BASIC_INFORMATION list \<Rightarrow> bool" where
  "wf_space rs \<longleftrightarrow>
     list_all (\<lambda>r. unat (BaseAddress r) + unat (RegionSize r) < 2 ^ 64) rs \<and>
     sorted_wrt (\<lambda>r q. unat (BaseAddress r) + unat (RegionSize r) \<le> unat (BaseAddress q)) rs"

typedef address_space = "{rs. wf_space rs}"
  morphisms regions_of space_of
  by (rule exI [of _ "[]"]) (simp add: wf_space_def)

definition space_query :: "address_space \<Rightarrow> query" where
  "space_query sp a = find (\<lambda>r. in_region r a) (regions_of sp)"

lemma find_disjoint:
  assumes "sorted_wrt (\<lambda>r q. unat (BaseAddress r) + unat (RegionSize r) \<le> unat (BaseAddress q)) rs"
    and "i \<in> set rs" and "in_region i b"
  shows "find (\<lambda>r. in_region r b) rs = Some i"
  using assms by (induction rs) (auto simp: in_region_def)

interpretation space: virtual_query "space_query sp" for sp
proof unfold_locales
  fix a i
  assume f: "space_query sp a = Some i"
  have wf: "wf_space (regions_of sp)" using regions_of [of sp] by simp
  from f have i: "i \<in> set (regions_of sp)" "in_region i a"
    by (auto simp: space_query_def dest: find_Some_iff)
  from i(2) show "in_region i a" .
  from i(1) wf show "unat (BaseAddress i) + unat (RegionSize i) < 2 ^ 64"
    by (auto simp: wf_space_def list_all_iff)
  fix b
  assume "in_region i b"
  with i(1) wf show "\<exists>j. space_query sp b = Some j \<and> same_attributes i j"
    by (auto simp: wf_space_def space_query_def find_disjoint same_attributes_def)
qed

section \<open>What the checks guarantee\<close>

definition usable_at :: "query \<Rightarrow> bool \<Rightarrow> addr \<Rightarrow> bool" where
  "usable_at vq writable x =
     (case vq x of
        None \<Rightarrow> False
      | Some i \<Rightarrow> State i = MEM_COMMIT \<and> IsReadableProtection (Protect i) \<and>
          (writable \<longrightarrow> WritableProtection (Protect i)))"

lemma validate_region_iff:
  "validate_region w i \<longleftrightarrow> State i = MEM_COMMIT \<and> IsReadableProtection (Protect i) \<and>
     (w \<longrightarrow> WritableProtection (Protect i)) \<and> \<not> RegionSize i > max_u64 - BaseAddress i"
  by (auto simp: validate_region_def IsReadableProtection_eq WritableProtection_eq guard_bits_split)

definition readable_at :: "query \<Rightarrow> addr \<Rightarrow> bool" where
  "readable_at vq x =
     (case vq x of None \<Rightarrow> False | Some i \<Rightarrow> State i = MEM_COMMIT \<and> IsReadableProtection (Protect i))"

lemma usable_at_readable: "usable_at vq False = readable_at vq"
  by (rule ext) (simp add: usable_at_def readable_at_def split: option.splits)

lemma usable_at_mono: "usable_at vq True x \<Longrightarrow> usable_at vq w x"
  by (auto simp: usable_at_def split: option.splits)

context virtual_query
begin

text \<open>A walk over \<open>[a, a + n)\<close> whose region test is a test of the attributes.\<close>

lemma walk_range:
  assumes accept: "\<And>i. accept i \<Longrightarrow> good i" "\<And>b j. VQ b = Some j \<Longrightarrow> good j \<Longrightarrow> accept j"
    and good: "\<And>i j. good i \<Longrightarrow> same_attributes i j \<Longrightarrow> good j"
    and bound: "unat a + unat n < 2 ^ 64"
  shows "walk_regions VQ accept (a + n) a \<longleftrightarrow>
    (\<forall>x :: addr. unat a \<le> unat x \<and> unat x < unat a + unat n \<longrightarrow> (\<exists>j. VQ x = Some j \<and> good j))"
    (is "?walk \<longleftrightarrow> ?all")
proof
  assume w: ?walk
  have "\<exists>j. VQ x = Some j \<and> good j"
    if "unat a \<le> unat x" "unat x < unat a + unat n" for x :: addr
    using that bound accept(1) good
    by (intro walk_sound [OF w]) (auto simp: unat_add_no_overflow)
  then show ?all by blast
next
  assume ?all
  then show ?walk
    using bound accept(2) by (intro walk_complete [of good]) (auto simp: unat_add_no_overflow)
qed

lemma validate_usable:
  "ProcessMemoryBackend_Validate VQ a n w \<longleftrightarrow>
    n \<noteq> 0 \<and> unat a + unat n < 2 ^ 64 \<and>
    (\<forall>x :: addr. unat a \<le> unat x \<and> unat x < unat a + unat n \<longrightarrow> usable_at VQ w x)"
proof -
  define good where "good j \<longleftrightarrow> State j = MEM_COMMIT \<and> IsReadableProtection (Protect j) \<and>
      (w \<longrightarrow> WritableProtection (Protect j))"
    for j :: MEMORY_BASIC_INFORMATION
  have here: "(\<exists>j. VQ x = Some j \<and> good j) \<longleftrightarrow> usable_at VQ w x" for x
    by (auto simp: usable_at_def good_def split: option.splits)
  have "walk_regions VQ (validate_region w) (a + n) a \<longleftrightarrow>
      (\<forall>x :: addr. unat a \<le> unat x \<and> unat x < unat a + unat n \<longrightarrow> usable_at VQ w x)"
    if "unat a + unat n < 2 ^ 64"
    unfolding here [symmetric]
    using that region_end(3)
    by (intro walk_range) (auto simp: validate_region_iff good_def same_attributes_def)
  then show ?thesis
    by (auto simp: ProcessMemoryBackend_Validate_def overflow_simps)
qed

lemma readable_range:
  "ReadableRange VQ a n \<longleftrightarrow>
    a \<noteq> 0 \<and> n \<noteq> 0 \<and> unat a + unat n < 2 ^ 64 \<and>
    (\<forall>x :: addr. unat a \<le> unat x \<and> unat x < unat a + unat n \<longrightarrow> readable_at VQ x)"
proof -
  define good where "good j \<longleftrightarrow> State j = MEM_COMMIT \<and> IsReadableProtection (Protect j)"
    for j :: MEMORY_BASIC_INFORMATION
  have here: "(\<exists>j. VQ x = Some j \<and> good j) \<longleftrightarrow> readable_at VQ x" for x
    by (auto simp: readable_at_def good_def split: option.splits)
  have "walk_regions VQ (\<lambda>info. \<not> (State info \<noteq> MEM_COMMIT \<or> \<not> ReadableProtection (Protect info)))
        (a + n) a \<longleftrightarrow>
      (\<forall>x :: addr. unat a \<le> unat x \<and> unat x < unat a + unat n \<longrightarrow> readable_at VQ x)"
    if "unat a + unat n < 2 ^ 64"
    unfolding here [symmetric]
    using that by (intro walk_range) (auto simp: good_def same_attributes_def ReadableProtection_eq)
  then show ?thesis
    by (auto simp: ReadableRange_def overflow_simps)
qed

end

text \<open>\<open>ProcessMemoryBackend::Validate\<close> accepts a range exactly when it is not empty, does
  not leave 64 bits, and every address in it is committed, readable, and writable when asked.\<close>

lemma Validate_iff:
  assumes "virtual_query vq"
  shows "ProcessMemoryBackend_Validate vq a n w \<longleftrightarrow>
    n \<noteq> 0 \<and> unat a + unat n < 2 ^ 64 \<and>
    (\<forall>x :: addr. unat a \<le> unat x \<and> unat x < unat a + unat n \<longrightarrow> usable_at vq w x)"
  by (rule virtual_query.validate_usable [OF assms])

text \<open>Two adjacent committed regions of one allocation, the second read-only.\<close>

definition sample_region :: "addr \<Rightarrow> DWORD \<Rightarrow> MEMORY_BASIC_INFORMATION" where
  "sample_region base protection =
     \<lparr>BaseAddress = base, AllocationBase = 0x10000, AllocationProtect = PAGE_READWRITE,
      RegionSize = 0x1000, State = MEM_COMMIT, Protect = protection, MemType = MEM_PRIVATE\<rparr>"

definition sample_space :: address_space where
  "sample_space =
     space_of [sample_region 0x10000 PAGE_READWRITE, sample_region 0x11000 PAGE_READONLY]"

lemma regions_of_sample:
  "regions_of sample_space =
     [sample_region 0x10000 PAGE_READWRITE, sample_region 0x11000 PAGE_READONLY]"
  by (simp add: sample_space_def space_of_inverse wf_space_def sample_region_def)

lemma sample_query:
  "space_query sample_space a =
     (if 0x10000 \<le> unat a \<and> unat a < 0x11000 then Some (sample_region 0x10000 PAGE_READWRITE)
      else if 0x11000 \<le> unat a \<and> unat a < 0x12000 then Some (sample_region 0x11000 PAGE_READONLY)
      else None)"
  by (auto simp: space_query_def regions_of_sample in_region_def sample_region_def)

lemma Validate_iff_witness:
  "ProcessMemoryBackend_Validate (space_query sample_space) 0x10FF0 0x20 False \<and>
   \<not> ProcessMemoryBackend_Validate (space_query sample_space) 0x10FF0 0x20 True"
proof
  show "ProcessMemoryBackend_Validate (space_query sample_space) 0x10FF0 0x20 False"
    unfolding Validate_iff [OF space.virtual_query_axioms]
    by (auto simp: usable_at_def sample_query sample_region_def IsReadableProtection_def
        win_constants)
  have "\<not> usable_at (space_query sample_space) True 0x11000"
    by (simp add: usable_at_def sample_query sample_region_def WritableProtection_def
        win_constants)
  then have "\<exists>x :: addr. 0x10FF0 \<le> unat x \<and> unat x < 0x11010 \<and>
      \<not> usable_at (space_query sample_space) True x"
    by (intro exI [where x = "0x11000 :: addr"]) simp
  then show "\<not> ProcessMemoryBackend_Validate (space_query sample_space) 0x10FF0 0x20 True"
    unfolding Validate_iff [OF space.virtual_query_axioms] by auto
qed

end
