(* ===== verification/Os_Calls.thy ===== *)
theory Os_Calls
  imports Win_Memory
begin

text \<open>
  The operating-system calls the host reads and writes its own process with, as a record of
  functions over the state of the process, what their documentation promises (locale
  \<open>os_process\<close>), and a process with a page table and bytes on which the promises hold.
\<close>

text \<open>
  The operating-system calls: \<open>VirtualQuery\<close>, \<open>ReadProcessMemory\<close> (success flag and the bytes
  copied) and \<open>WriteProcessMemory\<close> (success flag and the number of bytes copied).
\<close>

record 's Os =
  VirtualQuery :: "'s \<Rightarrow> query"
  ReadProcessMemory :: "'s \<Rightarrow> addr \<Rightarrow> nat \<Rightarrow> (bool \<times> byte list) \<times> 's"
  WriteProcessMemory :: "'s \<Rightarrow> addr \<Rightarrow> byte list \<Rightarrow> (bool \<times> nat) \<times> 's"

text \<open>Reading does not change memory and a complete read returns it; a complete write stores its
  bytes and any write stays inside its range.\<close>

locale os_process =
  fixes os :: "'s Os" and mem :: "'s \<Rightarrow> memory"
  assumes rpm_mem: "mem (snd (ReadProcessMemory os s a n)) = mem s"
    and rpm_bytes: "ReadProcessMemory os s a n = ((True, bytes), s') \<Longrightarrow> length bytes = n \<Longrightarrow>
          bytes = mem_read (mem s) a n"
    and wpm_frame: "x \<notin> mem_range a (length bytes) \<Longrightarrow>
          mem (snd (WriteProcessMemory os s a bytes)) x = mem s x"
    and wpm_bytes: "WriteProcessMemory os s a bytes = ((True, length bytes), s') \<Longrightarrow>
          mem s' = mem_write (mem s) a bytes"

text \<open>A process: a page table and the bytes. A write across an inaccessible page stores the bytes
  before it and fails.\<close>

record process =
  pages :: address_space
  ram :: memory

definition accessible :: "process \<Rightarrow> bool \<Rightarrow> addr \<Rightarrow> nat \<Rightarrow> bool" where
  "accessible s writable a n \<longleftrightarrow>
     list_all (\<lambda>i. usable_at (space_query (pages s)) writable (a + word_of_nat i)) [0..<n]"

definition accessible_prefix :: "process \<Rightarrow> addr \<Rightarrow> nat \<Rightarrow> nat" where
  "accessible_prefix s a n =
     length (takeWhile (\<lambda>i. usable_at (space_query (pages s)) True (a + word_of_nat i)) [0..<n])"

definition windows :: "process Os" where
  "windows =
     \<lparr>VirtualQuery = \<lambda>s. space_query (pages s),
      ReadProcessMemory = \<lambda>s a n.
        if accessible s False a n then ((True, mem_read (ram s) a n), s) else ((False, []), s),
      WriteProcessMemory = \<lambda>s a bytes.
        let k = accessible_prefix s a (length bytes)
        in ((k = length bytes, k), s\<lparr>ram := mem_write (ram s) a (take k bytes)\<rparr>)\<rparr>"

lemma accessible_prefix_le: "accessible_prefix s a n \<le> n"
  unfolding accessible_prefix_def by (metis length_takeWhile_le length_upt minus_nat.diff_0)

interpretation win: os_process windows ram
proof unfold_locales
  show "ram (snd (WriteProcessMemory windows s a bytes)) x = ram s x"
    if "x \<notin> mem_range a (length bytes)" for s a bytes x
  proof -
    let ?k = "accessible_prefix s a (length bytes)"
    have "x \<notin> mem_range a (length (take ?k bytes))"
      using that mem_range_mono [of "length (take ?k bytes)" "length bytes" a] by auto
    then show ?thesis by (simp add: windows_def Let_def mem_write_outside)
  qed
qed (auto simp: windows_def Let_def split: if_splits)

end
