(* ===== verification/Transaction.thy ===== *)
theory Transaction
  imports Hex_Text Os_Calls "HOL-Library.Multiset"
begin

text \<open>
  The memory transaction engine (memory_transaction.h, memory_transaction.cpp). A transaction is
  a list of operations, each an address with the bytes expected there and the bytes to put in
  their place; a verify-only operation has no replacement. \<open>RunTransaction\<close> checks the request,
  the memory and the expected bytes before it writes; a failed write or a failed read-back rolls
  every attempted write back, and the rollback is itself verified.

  The abstract class \<open>MemoryBackend\<close> is a record of three state-passing functions over the state
  \<open>'s\<close> of the backend; what the transaction relies on is the locale \<open>memory_backend\<close>. It is
  interpreted on the backend of the process (over the operating-system calls, locale
  \<open>os_process\<close>), on the fake backend of the smoke test, and it is preserved by the two fault
  injecting backends of the host.
\<close>

section \<open>Requests and results\<close>

definition kMaxTransactionOperations :: nat where "kMaxTransactionOperations = 32"
definition kMaxOperationBytes :: nat where "kMaxOperationBytes = 4096"
definition kMaxTransactionBytes :: nat where "kMaxTransactionBytes = 64 * 1024"

datatype TransactionOperationKind = kWrite | kVerifyOnly

record TransactionOperation =
  op_address :: string
  op_expected :: "byte list"
  op_replacement :: "byte list"
  op_kind :: TransactionOperationKind

record TransactionRequest =
  transaction_id :: string
  tx_operations :: "TransactionOperation list"

datatype TransactionStatus =
  kRejected | kAppliedVerified | kRolledBackVerified | kRollbackUnverified

record OperationResult =
  res_index :: nat
  res_applied :: bool
  res_verified :: bool

record TransactionResult =
  tr_status :: TransactionStatus
  tr_code :: string
  tr_operations :: "OperationResult list"

record 's MemoryBackend =
  Validate :: "'s \<Rightarrow> addr \<Rightarrow> nat \<Rightarrow> bool \<Rightarrow> bool \<times> 's"
  Read :: "'s \<Rightarrow> addr \<Rightarrow> nat \<Rightarrow> byte list option \<times> 's"
  Write :: "'s \<Rightarrow> addr \<Rightarrow> byte list \<Rightarrow> bool \<times> 's"

record PreparedOperation =
  prep_address :: addr
  prep_original :: "byte list"

record Range =
  range_begin :: addr
  range_end :: addr

section \<open>The checks of the request\<close>

definition is_id_char :: "char \<Rightarrow> bool" where
  "is_id_char c \<longleftrightarrow> (65 \<le> code c \<and> code c \<le> 90) \<or> (97 \<le> code c \<and> code c \<le> 122) \<or>
     (48 \<le> code c \<and> code c \<le> 57) \<or> c = CHR ''.'' \<or> c = CHR ''_'' \<or> c = CHR ''-''"

definition IsValidTransactionId :: "string \<Rightarrow> bool" where
  "IsValidTransactionId t = (if t = [] \<or> length t > 64 then False else list_all is_id_char t)"

definition Rejected :: "string \<Rightarrow> TransactionResult" where
  "Rejected c = \<lparr>tr_status = kRejected, tr_code = c, tr_operations = []\<rparr>"

text \<open>The first loop: sizes, the aggregate and the addresses, operation by operation.\<close>

definition check_operation :: "nat \<Rightarrow> TransactionOperation \<Rightarrow> string + addr" where
  "check_operation aggregate_bytes operation =
     (let n = length (op_expected operation) in
      if op_expected operation = [] \<or>
         (if op_kind operation = kVerifyOnly then op_replacement operation \<noteq> []
          else n \<noteq> length (op_replacement operation)) \<or>
         n > kMaxOperationBytes
      then Inl ''invalid_operation_size''
      else if aggregate_bytes > kMaxTransactionBytes - n then Inl ''transaction_too_large''
      else case ParseAddress_tx (op_address operation) of
             None \<Rightarrow> Inl ''invalid_address''
           | Some a \<Rightarrow> if a > max_u64 - word_of_nat n then Inl ''invalid_address'' else Inr a)"

fun check_operations :: "nat \<Rightarrow> TransactionOperation list \<Rightarrow> string + addr list" where
  "check_operations aggregate_bytes [] = Inr []"
| "check_operations aggregate_bytes (operation # rest) =
     bindE (check_operation aggregate_bytes operation) (\<lambda>a.
     bindE (check_operations (aggregate_bytes + length (op_expected operation)) rest) (\<lambda>as.
     Inr (a # as)))"

text \<open>The ranges are sorted by their begin and neighbours compared.\<close>

definition range_of :: "addr \<Rightarrow> TransactionOperation \<Rightarrow> Range" where
  "range_of a operation =
     \<lparr>range_begin = a, range_end = a + word_of_nat (length (op_expected operation))\<rparr>"

fun neighbours_overlap :: "Range list \<Rightarrow> bool" where
  "neighbours_overlap (r # q # rs) =
     (if range_begin q < range_end r then True else neighbours_overlap (q # rs))"
| "neighbours_overlap _ = False"

definition ranges_overlap :: "Range list \<Rightarrow> bool" where
  "ranges_overlap ranges = neighbours_overlap (sort_key range_begin ranges)"

section \<open>Preflight, apply and rollback\<close>

fun validate_all ::
  "'s MemoryBackend \<Rightarrow> addr list \<Rightarrow> TransactionOperation list \<Rightarrow> 's \<Rightarrow> bool \<times> 's" where
  "validate_all backend (a # as) (operation # rest) s =
     (case Validate backend s a (length (op_expected operation)) (op_kind operation = kWrite) of
        (False, s) \<Rightarrow> (False, s)
      | (True, s) \<Rightarrow> validate_all backend as rest s)"
| "validate_all backend _ _ s = (True, s)"

fun read_all ::
  "'s MemoryBackend \<Rightarrow> addr list \<Rightarrow> TransactionOperation list \<Rightarrow> 's \<Rightarrow>
     byte list list option \<times> 's" where
  "read_all backend (a # as) (operation # rest) s =
     (case Read backend s a (length (op_expected operation)) of
        (None, s) \<Rightarrow> (None, s)
      | (Some bytes, s) \<Rightarrow>
          (case read_all backend as rest s of
             (None, s) \<Rightarrow> (None, s)
           | (Some originals, s) \<Rightarrow> (Some (bytes # originals), s)))"
| "read_all backend _ _ s = (Some [], s)"

text \<open>\<open>RollBack\<close>: the attempted writes in reverse, then the read-back in order.\<close>

fun restore_loop ::
  "'s MemoryBackend \<Rightarrow> PreparedOperation list \<Rightarrow> nat list \<Rightarrow> bool \<Rightarrow> OperationResult list \<Rightarrow> 's \<Rightarrow>
     bool \<times> OperationResult list \<times> 's" where
  "restore_loop backend prepared [] restored results s = (restored, results, s)"
| "restore_loop backend prepared (index # rest) restored results s =
     (let (ok, s) = Write backend s (prep_address (prepared ! index)) (prep_original (prepared ! index))
      in restore_loop backend prepared rest (restored \<and> ok)
           (results[index := (results ! index)\<lparr>res_applied := False, res_verified := False\<rparr>]) s)"

fun readback_loop ::
  "'s MemoryBackend \<Rightarrow> PreparedOperation list \<Rightarrow> nat list \<Rightarrow> bool \<Rightarrow> 's \<Rightarrow> bool \<times> 's" where
  "readback_loop backend prepared [] restored s = (restored, s)"
| "readback_loop backend prepared (index # rest) restored s =
     (let (readback, s) = Read backend s (prep_address (prepared ! index))
            (length (prep_original (prepared ! index)))
      in readback_loop backend prepared rest
           (restored \<and> readback = Some (prep_original (prepared ! index))) s)"

definition RollBack ::
  "PreparedOperation list \<Rightarrow> nat list \<Rightarrow> OperationResult list \<Rightarrow> 's MemoryBackend \<Rightarrow> 's \<Rightarrow>
     TransactionResult \<times> 's" where
  "RollBack prepared attempted results backend s =
     (let (restored, results, s) = restore_loop backend prepared (rev attempted) True results s;
          (restored, s) = readback_loop backend prepared attempted restored s
      in (\<lparr>tr_status = if restored then kRolledBackVerified else kRollbackUnverified,
           tr_code = if restored then ''rolled_back_verified'' else ''rollback_unverified'',
           tr_operations = results\<rparr>, s))"

text \<open>The apply loop; the first argument lists the operations still to run, the first of them
  has number \<open>index\<close>.\<close>

fun apply_loop ::
  "TransactionOperation list \<Rightarrow> nat \<Rightarrow> PreparedOperation list \<Rightarrow> nat list \<Rightarrow> OperationResult list \<Rightarrow>
     's MemoryBackend \<Rightarrow> 's \<Rightarrow> TransactionResult \<times> 's" where
  "apply_loop [] index prepared attempted results backend s =
     (\<lparr>tr_status = kAppliedVerified, tr_code = ''applied_verified'', tr_operations = results\<rparr>, s)"
| "apply_loop (operation # rest) index prepared attempted results backend s =
     (if op_kind operation = kVerifyOnly then
        apply_loop rest (Suc index) prepared attempted
          (results[index := (results ! index)\<lparr>res_verified := True\<rparr>]) backend s
      else let attempted = attempted @ [index] in
        (case Write backend s (prep_address (prepared ! index)) (op_replacement operation) of
           (False, s) \<Rightarrow> RollBack prepared attempted results backend s
         | (True, s) \<Rightarrow>
             let results = results[index := (results ! index)\<lparr>res_applied := True\<rparr>] in
             (case Read backend s (prep_address (prepared ! index))
                     (length (op_replacement operation)) of
                (readback, s) \<Rightarrow>
                  if readback \<noteq> Some (op_replacement operation)
                  then RollBack prepared attempted results backend s
                  else apply_loop rest (Suc index) prepared attempted
                         (results[index := (results ! index)\<lparr>res_verified := True\<rparr>]) backend s)))"

definition prepare :: "addr list \<Rightarrow> byte list list \<Rightarrow> PreparedOperation list" where
  "prepare as originals =
     map2 (\<lambda>a original. \<lparr>prep_address = a, prep_original = original\<rparr>) as originals"

definition initial_results :: "nat \<Rightarrow> OperationResult list" where
  "initial_results n =
     map (\<lambda>i. \<lparr>res_index = i, res_applied = False, res_verified = False\<rparr>) [0..<n]"

definition RunTransaction ::
  "TransactionRequest \<Rightarrow> 's MemoryBackend \<Rightarrow> 's \<Rightarrow> TransactionResult \<times> 's" where
  "RunTransaction request backend s =
     (let operations = tx_operations request in
      if \<not> IsValidTransactionId (transaction_id request)
      then (Rejected ''invalid_transaction_id'', s)
      else if operations = [] \<or> length operations > kMaxTransactionOperations
      then (Rejected ''invalid_operation_count'', s)
      else case check_operations 0 operations of
        Inl c \<Rightarrow> (Rejected c, s)
      | Inr addresses \<Rightarrow>
          if ranges_overlap (map2 range_of addresses operations)
          then (Rejected ''overlapping_operations'', s)
          else (case validate_all backend addresses operations s of
            (False, s) \<Rightarrow> (Rejected ''invalid_memory_range'', s)
          | (True, s) \<Rightarrow>
              (case read_all backend addresses operations s of
                 (None, s) \<Rightarrow> (Rejected ''preflight_read_failed'', s)
               | (Some originals, s) \<Rightarrow>
                   if \<not> list_all2 (\<lambda>original operation. original = op_expected operation)
                        originals operations
                   then (Rejected ''expected_mismatch'', s)
                   else apply_loop operations 0 (prepare addresses originals) []
                          (initial_results (length operations)) backend s)))"

section \<open>Which requests are well formed\<close>

definition address_of :: "TransactionOperation \<Rightarrow> addr" where
  "address_of operation = the (ParseAddress_tx (op_address operation))"

definition range_set :: "TransactionOperation \<Rightarrow> addr set" where
  "range_set operation = mem_range (address_of operation) (length (op_expected operation))"

definition wf_operation :: "TransactionOperation \<Rightarrow> bool" where
  "wf_operation operation \<longleftrightarrow>
     op_expected operation \<noteq> [] \<and> length (op_expected operation) \<le> kMaxOperationBytes \<and>
     length (op_replacement operation) =
       (if op_kind operation = kWrite then length (op_expected operation) else 0) \<and>
     (\<exists>a. op_address operation = FormatAddress a \<and>
       unat a + length (op_expected operation) < 2 ^ 64)"

definition total_bytes :: "TransactionOperation list \<Rightarrow> nat" where
  "total_bytes operations = sum_list (map (\<lambda>operation. length (op_expected operation)) operations)"

definition valid_request :: "TransactionRequest \<Rightarrow> bool" where
  "valid_request request \<longleftrightarrow>
     IsValidTransactionId (transaction_id request) \<and>
     tx_operations request \<noteq> [] \<and> length (tx_operations request) \<le> kMaxTransactionOperations \<and>
     list_all wf_operation (tx_operations request) \<and>
     total_bytes (tx_operations request) \<le> kMaxTransactionBytes \<and>
     sorted_wrt (\<lambda>p q. range_set p \<inter> range_set q = {}) (tx_operations request)"

lemma kind_cases: "k \<noteq> kVerifyOnly \<longleftrightarrow> k = kWrite" "k \<noteq> kWrite \<longleftrightarrow> k = kVerifyOnly"
  by (cases k; simp)+

lemma check_operation_Inr:
  "check_operation agg operation = Inr a \<longleftrightarrow>
     wf_operation operation \<and> a = address_of operation \<and>
     agg + length (op_expected operation) \<le> kMaxTransactionBytes"
proof -
  define n where "n = length (op_expected operation)"
  have guard: "a > max_u64 - word_of_nat n \<longleftrightarrow> \<not> unat a + n < 2 ^ 64" if "n \<le> kMaxOperationBytes" for a
    using that by (simp add: add_guard_swapped unat_of_nat_u64 kMaxOperationBytes_def not_less)
  have sum: "agg > kMaxTransactionBytes - n \<longleftrightarrow> \<not> agg + n \<le> kMaxTransactionBytes"
    if "n \<le> kMaxOperationBytes"
    using that by (auto simp: kMaxOperationBytes_def kMaxTransactionBytes_def)
  have sizes: "\<not> (op_expected operation = [] \<or>
         (if op_kind operation = kVerifyOnly then op_replacement operation \<noteq> []
          else n \<noteq> length (op_replacement operation)) \<or> n > kMaxOperationBytes) \<longleftrightarrow>
     op_expected operation \<noteq> [] \<and> n \<le> kMaxOperationBytes \<and>
     length (op_replacement operation) = (if op_kind operation = kWrite then n else 0)"
    by (cases "op_kind operation") (auto simp: not_less)
  show ?thesis
  proof (cases "\<exists>b. op_address operation = FormatAddress b")
    case True
    then obtain b where b: "op_address operation = FormatAddress b" by blast
    then have "(\<exists>c. op_address operation = FormatAddress c \<and> unat c + n < 2 ^ 64) \<longleftrightarrow>
        unat b + n < 2 ^ 64" and "address_of operation = b"
      by (auto simp: FormatAddress_inj address_of_def ParseAddress_tx_FormatAddress)
    with b sizes show ?thesis
      unfolding check_operation_def wf_operation_def n_def [symmetric]
      by (auto simp: Let_def guard sum ParseAddress_tx_FormatAddress)
  next
    case False
    then have "ParseAddress_tx (op_address operation) = None"
      using ParseAddress_tx_Some by (cases "ParseAddress_tx (op_address operation)") auto
    with False show ?thesis
      by (auto simp: check_operation_def wf_operation_def Let_def split: if_splits)
  qed
qed

lemma check_operations_Inr:
  "agg \<le> kMaxTransactionBytes \<Longrightarrow>
   check_operations agg ops = Inr as \<longleftrightarrow>
     list_all wf_operation ops \<and> as = map address_of ops \<and>
     agg + total_bytes ops \<le> kMaxTransactionBytes"
proof (induction agg ops arbitrary: as rule: check_operations.induct)
  case (2 agg operation rest)
  have IH: "agg + length (op_expected operation) \<le> kMaxTransactionBytes \<Longrightarrow>
      check_operation agg operation = Inr (address_of operation) \<Longrightarrow>
      check_operations (agg + length (op_expected operation)) rest = Inr bs \<longleftrightarrow>
      list_all wf_operation rest \<and> bs = map address_of rest \<and>
      agg + length (op_expected operation) + total_bytes rest \<le> kMaxTransactionBytes" for bs
    using "2.IH" by blast
  show ?case
    by (auto simp: bindE_Inr_iff check_operation_Inr IH total_bytes_def)
qed (auto simp: total_bytes_def)

section \<open>The overlap test\<close>

definition disjoint_ranges :: "Range \<Rightarrow> Range \<Rightarrow> bool" where
  "disjoint_ranges r q \<longleftrightarrow> range_end r \<le> range_begin q \<or> range_end q \<le> range_begin r"

text \<open>Pairwise symmetric properties do not depend on the order of the list.\<close>

lemma sorted_wrt_mset:
  assumes "\<And>x y. P x y \<longleftrightarrow> P y x"
  shows "sorted_wrt P xs \<longleftrightarrow>
    (\<forall>x M. mset xs = add_mset x M \<longrightarrow> (\<forall>y \<in># M. P x y))"
proof (induction xs)
  case Nil
  then show ?case by simp
next
  case (Cons z zs)
  show ?case
  proof
    assume s: "sorted_wrt P (z # zs)"
    show "\<forall>x M. mset (z # zs) = add_mset x M \<longrightarrow> (\<forall>y \<in># M. P x y)"
    proof (intro allI impI ballI)
      fix x M y
      assume eq: "mset (z # zs) = add_mset x M" and y: "y \<in># M"
      show "P x y"
      proof (cases "x = z")
        case True
        with eq y s show ?thesis by auto
      next
        case False
        with eq obtain N where N: "mset zs = add_mset x N" "M = add_mset z N"
          by (auto simp: add_eq_conv_ex)
        with s Cons.IH have "\<forall>y \<in># N. P x y" by auto
        moreover have "x \<in> set zs" using N(1) by (metis set_mset_mset union_single_eq_member)
        then have "P x z" using s assms [of x z] by auto
        ultimately show ?thesis using y N(2) by auto
      qed
    qed
  next
    assume a: "\<forall>x M. mset (z # zs) = add_mset x M \<longrightarrow> (\<forall>y \<in># M. P x y)"
    then have "\<forall>y \<in> set zs. P z y" by auto
    moreover have "sorted_wrt P zs"
      unfolding Cons.IH
    proof (intro allI impI)
      fix x M
      assume "mset zs = add_mset x M"
      then have "mset (z # zs) = add_mset x (add_mset z M)" by simp
      with a have "\<forall>y \<in># add_mset z M. P x y" by blast
      then show "\<forall>y \<in># M. P x y" by simp
    qed
    ultimately show "sorted_wrt P (z # zs)" by simp
  qed
qed

lemma sorted_wrt_perm:
  assumes "\<And>x y. P x y \<longleftrightarrow> P y x" and "mset xs = mset ys"
  shows "sorted_wrt P xs = sorted_wrt P ys"
  using assms(2) by (simp add: sorted_wrt_mset [OF assms(1)])

lemma neighbours_overlap_iff:
  assumes "sorted (map range_begin rs)" and "list_all (\<lambda>r. range_begin r < range_end r) rs"
  shows "\<not> neighbours_overlap rs \<longleftrightarrow> sorted_wrt disjoint_ranges rs"
  using assms
proof (induction rs rule: neighbours_overlap.induct)
  case (1 r q rs)
  have step: "range_end r \<le> range_begin q \<longleftrightarrow> disjoint_ranges r q"
    using "1.prems" by (auto simp: disjoint_ranges_def)
  have far: "disjoint_ranges r p" if "range_end r \<le> range_begin q" "p \<in> set rs" for p
    using that "1.prems" by (force simp: disjoint_ranges_def)
  show ?case
    using 1 step far by (auto simp: not_less)
qed simp_all

lemma ranges_overlap_iff:
  assumes "list_all (\<lambda>r. range_begin r < range_end r) rs"
  shows "\<not> ranges_overlap rs \<longleftrightarrow> sorted_wrt disjoint_ranges rs"
proof -
  have "list_all (\<lambda>r. range_begin r < range_end r) (sort_key range_begin rs)"
    using assms by (simp add: list_all_iff)
  then have "\<not> ranges_overlap rs \<longleftrightarrow> sorted_wrt disjoint_ranges (sort_key range_begin rs)"
    by (simp add: ranges_overlap_def neighbours_overlap_iff)
  also have "\<dots> \<longleftrightarrow> sorted_wrt disjoint_ranges rs"
    by (rule sorted_wrt_perm) (auto simp: disjoint_ranges_def)
  finally show ?thesis .
qed

lemma wf_operationD:
  assumes "wf_operation p"
  shows "unat (address_of p) + length (op_expected p) < 2 ^ 64" "op_expected p \<noteq> []"
    "ParseAddress_tx (op_address p) = Some (address_of p)" "length (op_expected p) < 2 ^ 64"
  using assms by (auto simp: wf_operation_def address_of_def ParseAddress_tx_FormatAddress
      kMaxOperationBytes_def)

lemma range_of_ends:
  assumes "wf_operation p"
  shows "unat (range_begin (range_of (address_of p) p)) = unat (address_of p)"
    and "unat (range_end (range_of (address_of p) p)) = unat (address_of p) + length (op_expected p)"
  using wf_operationD [OF assms] by (simp_all add: range_of_def unat_add_of_nat)

lemma range_set_iff:
  assumes "wf_operation p"
  shows "x \<in> range_set p \<longleftrightarrow>
    unat (address_of p) \<le> unat x \<and> unat x < unat (address_of p) + length (op_expected p)"
  using wf_operationD(1) [OF assms] by (simp add: range_set_def mem_range_iff)

lemma disjoint_ranges_iff:
  assumes "wf_operation p" and "wf_operation q"
  shows "disjoint_ranges (range_of (address_of p) p) (range_of (address_of q) q) \<longleftrightarrow>
    range_set p \<inter> range_set q = {}"
proof -
  let ?a = "unat (address_of p)" and ?b = "unat (address_of q)"
  let ?m = "length (op_expected p)" and ?n = "length (op_expected q)"
  have pos: "0 < ?m" "0 < ?n" using wf_operationD(2) assms by auto
  have "range_set p \<inter> range_set q = {}" if "?a + ?m \<le> ?b \<or> ?b + ?n \<le> ?a"
    using that range_set_iff [OF assms(1)] range_set_iff [OF assms(2)] by fastforce
  moreover have "?a + ?m \<le> ?b \<or> ?b + ?n \<le> ?a" if "range_set p \<inter> range_set q = {}"
  proof (rule ccontr)
    assume "\<not> ?thesis"
    then have "(if ?a \<le> ?b then address_of q else address_of p) \<in> range_set p \<inter> range_set q"
      using pos range_set_iff [OF assms(1)] range_set_iff [OF assms(2)] by auto
    with that show False by blast
  qed
  ultimately show ?thesis
    using assms by (auto simp: disjoint_ranges_def word_le_nat_alt range_of_ends)
qed

lemma operations_overlap_iff:
  assumes "list_all wf_operation ops"
  shows "\<not> ranges_overlap (map2 range_of (map address_of ops) ops) \<longleftrightarrow>
    sorted_wrt (\<lambda>p q. range_set p \<inter> range_set q = {}) ops"
proof -
  have m: "map2 range_of (map address_of ops) ops = map (\<lambda>p. range_of (address_of p) p) ops"
    by (induction ops) auto
  have "list_all (\<lambda>r. range_begin r < range_end r) (map (\<lambda>p. range_of (address_of p) p) ops)"
    using assms by (auto simp: list_all_iff word_less_nat_alt range_of_ends dest: wf_operationD(2))
  then show ?thesis
    unfolding m
    using assms by (auto simp: ranges_overlap_iff sorted_wrt_map disjoint_ranges_iff list_all_iff
        elim!: sorted_wrt_mono_rel [rotated])
qed

section \<open>The contract of a backend\<close>

text \<open>
  \<open>mem s\<close> is the memory the backend acts on in state \<open>s\<close>. A read that succeeds returns it, no
  validation or read changes it, a write that succeeds stores its bytes, and a write that fails may
  have stored anything, but only inside its range.
\<close>

locale memory_backend =
  fixes backend :: "'s MemoryBackend" and mem :: "'s \<Rightarrow> memory"
  assumes validate_mem: "mem (snd (Validate backend s a n w)) = mem s"
    and read_mem: "mem (snd (Read backend s a n)) = mem s"
    and read_bytes: "fst (Read backend s a n) = Some bytes \<Longrightarrow> bytes = mem_read (mem s) a n"
    and write_frame: "x \<notin> mem_range a (length bytes) \<Longrightarrow> mem (snd (Write backend s a bytes)) x = mem s x"
    and write_bytes: "fst (Write backend s a bytes) \<Longrightarrow>
          mem (snd (Write backend s a bytes)) = mem_write (mem s) a bytes"

definition slot :: "PreparedOperation list \<Rightarrow> nat \<Rightarrow> addr set" where
  "slot prepared i =
     mem_range (prep_address (prepared ! i)) (length (prep_original (prepared ! i)))"

text \<open>What the apply loop stores when it succeeds.\<close>

fun store_all :: "(PreparedOperation \<times> TransactionOperation) list \<Rightarrow> memory \<Rightarrow> memory" where
  "store_all [] m = m"
| "store_all ((p, operation) # rest) m =
     store_all rest
       (if op_kind operation = kWrite then mem_write m (prep_address p) (op_replacement operation)
        else m)"

context memory_backend
begin

lemma validate_all_mem: "mem (snd (validate_all backend as ops s)) = mem s"
proof (induction as arbitrary: ops s)
  case (Cons a as)
  show ?case
  proof (cases ops)
    case (Cons operation rest)
    have "mem (snd (Validate backend s a n w)) = mem s" for n w by (rule validate_mem)
    with Cons.IH [of rest] Cons show ?thesis
      by (auto split: prod.splits bool.splits simp: snd_def) (metis snd_conv split_conv)+
  qed simp
qed simp

lemma read_all_mem: "mem (snd (read_all backend as ops s)) = mem s"
proof (induction as arbitrary: ops s)
  case (Cons a as)
  show ?case
  proof (cases ops)
    case (Cons operation rest)
    obtain r t where r: "Read backend s a (length (op_expected operation)) = (r, t)"
      by (metis surj_pair)
    with read_mem have "mem t = mem s" by (metis snd_conv)
    with Cons.IH [of rest t] Cons r show ?thesis
      by (auto split: prod.splits option.splits)
  qed simp
qed simp

lemma read_all_bytes:
  "read_all backend as ops s = (Some originals, s') \<Longrightarrow> length as = length ops \<Longrightarrow>
   originals = map2 (\<lambda>a operation. mem_read (mem s) a (length (op_expected operation))) as ops"
proof (induction as arbitrary: ops s originals s')
  case (Cons a as)
  then obtain operation rest where ops: "ops = operation # rest" by (cases ops) auto
  obtain r t where r: "Read backend s a (length (op_expected operation)) = (r, t)"
    by (metis surj_pair)
  with read_mem have m: "mem t = mem s" by (metis snd_conv)
  from Cons.prems(1) r ops obtain bytes tail where b: "r = Some bytes"
    and tail: "read_all backend as rest t = (Some tail, s')" "originals = bytes # tail"
    by (auto split: prod.splits option.splits)
  from b r read_bytes have "bytes = mem_read (mem s) a (length (op_expected operation))"
    by (metis fst_conv)
  with Cons.IH [OF tail(1)] tail(2) ops m Cons.prems(2) show ?case by simp
qed simp

lemma restore_loop_frame:
  "x \<notin> (\<Union>i \<in> set idx. slot prepared i) \<Longrightarrow>
   mem (snd (snd (restore_loop backend prepared idx restored results s))) x = mem s x"
proof (induction idx arbitrary: restored results s)
  case (Cons i idx)
  obtain ok t where w: "Write backend s (prep_address (prepared ! i)) (prep_original (prepared ! i)) = (ok, t)"
    by (metis surj_pair)
  have "mem t x = mem s x"
    using write_frame [of x _ _ s] Cons.prems w by (metis UN_I list.set_intros(1) slot_def snd_conv)
  with Cons w show ?case by simp
qed simp

lemma readback_loop_mem: "mem (snd (readback_loop backend prepared idx restored s)) = mem s"
proof (induction idx arbitrary: restored s)
  case (Cons i idx)
  obtain r t where r: "Read backend s (prep_address (prepared ! i))
      (length (prep_original (prepared ! i))) = (r, t)" by (metis surj_pair)
  with read_mem have "mem t = mem s" by (metis snd_conv)
  with Cons r show ?case by simp
qed simp

lemma readback_loop_true:
  "fst (readback_loop backend prepared idx restored s) \<Longrightarrow> restored \<and>
     (\<forall>i \<in> set idx. mem_read (mem s) (prep_address (prepared ! i))
        (length (prep_original (prepared ! i))) = prep_original (prepared ! i))"
proof (induction idx arbitrary: restored s)
  case (Cons i idx)
  obtain r t where r: "Read backend s (prep_address (prepared ! i))
      (length (prep_original (prepared ! i))) = (r, t)" by (metis surj_pair)
  with read_mem have m: "mem t = mem s" by (metis snd_conv)
  from Cons.prems r have "fst (readback_loop backend prepared idx
      (restored \<and> r = Some (prep_original (prepared ! i))) t)" by simp
  from Cons.IH [OF this] m read_bytes [of s _ _ "prep_original (prepared ! i)"] r
  show ?case by auto
qed simp

lemma RollBack_frame:
  assumes "RollBack prepared attempted results backend s = (r, s')"
    and "x \<notin> (\<Union>i \<in> set attempted. slot prepared i)"
  shows "mem s' x = mem s x"
proof -
  obtain ok res t where l: "restore_loop backend prepared (rev attempted) True results s = (ok, res, t)"
    by (metis surj_pair)
  obtain ok' t' where r: "readback_loop backend prepared attempted ok t = (ok', t')"
    by (metis surj_pair)
  from assms(2) have "mem t x = mem s x"
    using restore_loop_frame [of x prepared "rev attempted" True results s] l by simp
  moreover have "s' = t'" using assms(1) l r by (auto simp: RollBack_def)
  moreover have "mem t' = mem t" using readback_loop_mem [of prepared attempted ok t] r by simp
  ultimately show ?thesis by simp
qed

lemma RollBack_verified:
  assumes "RollBack prepared attempted results backend s = (r, s')"
    and "tr_status r = kRolledBackVerified" and "i \<in> set attempted"
  shows "mem_read (mem s') (prep_address (prepared ! i)) (length (prep_original (prepared ! i))) =
    prep_original (prepared ! i)"
proof -
  obtain ok res t where l: "restore_loop backend prepared (rev attempted) True results s = (ok, res, t)"
    by (metis surj_pair)
  obtain ok' t' where r: "readback_loop backend prepared attempted ok t = (ok', t')"
    by (metis surj_pair)
  from assms l r have "ok'" "s' = t'" by (auto simp: RollBack_def split: if_splits)
  with readback_loop_true [of prepared attempted ok t] readback_loop_mem [of prepared attempted ok t]
    r assms(3) show ?thesis by auto
qed

text \<open>The apply loop, with \<open>m0\<close> the memory the preflight saw.\<close>

definition loop_invariant ::
  "memory \<Rightarrow> nat set \<Rightarrow> PreparedOperation list \<Rightarrow> nat list \<Rightarrow> nat \<Rightarrow>
     TransactionOperation list \<Rightarrow> 's \<Rightarrow> bool" where
  "loop_invariant m0 W prepared attempted index rest s \<longleftrightarrow>
     (\<forall>x. x \<notin> (\<Union>i \<in> set attempted. slot prepared i) \<longrightarrow> mem s x = m0 x) \<and>
     set attempted \<subseteq> W \<and> W \<subseteq> {..<length prepared} \<and>
     (\<forall>i < length prepared. prep_original (prepared ! i) =
        mem_read m0 (prep_address (prepared ! i)) (length (prep_original (prepared ! i)))) \<and>
     (\<forall>j < length rest. op_kind (rest ! j) = kWrite \<longrightarrow> index + j \<in> W \<and>
        length (op_replacement (rest ! j)) = length (prep_original (prepared ! (index + j))))"

lemma loop_invariant_rest:
  assumes "loop_invariant m0 W prepared attempted index (operation # rest) s"
  shows "\<forall>j < length rest. op_kind (rest ! j) = kWrite \<longrightarrow> Suc index + j \<in> W \<and>
        length (op_replacement (rest ! j)) = length (prep_original (prepared ! (Suc index + j)))"
    and "op_kind operation = kWrite \<Longrightarrow> index \<in> W \<and>
        length (op_replacement operation) = length (prep_original (prepared ! index))"
proof -
  have a: "\<forall>j < length (operation # rest). op_kind ((operation # rest) ! j) = kWrite \<longrightarrow>
      index + j \<in> W \<and> length (op_replacement ((operation # rest) ! j)) =
        length (prep_original (prepared ! (index + j)))"
    using assms unfolding loop_invariant_def by blast
  show "\<forall>j < length rest. op_kind (rest ! j) = kWrite \<longrightarrow> Suc index + j \<in> W \<and>
        length (op_replacement (rest ! j)) = length (prep_original (prepared ! (Suc index + j)))"
  proof (intro allI impI)
    fix j
    assume "j < length rest" and "op_kind (rest ! j) = kWrite"
    with a [THEN spec, of "Suc j"]
    show "Suc index + j \<in> W \<and>
        length (op_replacement (rest ! j)) = length (prep_original (prepared ! (Suc index + j)))"
      by simp
  qed
  show "op_kind operation = kWrite \<Longrightarrow> index \<in> W \<and>
        length (op_replacement operation) = length (prep_original (prepared ! index))"
    using a [THEN spec, of 0] by simp
qed

lemma rolled_back_restores:
  assumes "RollBack prepared attempted results backend s = (r, s')"
    and "\<And>x. x \<notin> (\<Union>i \<in> set attempted. slot prepared i) \<Longrightarrow> mem s x = m0 x"
    and "\<And>i. i \<in> set attempted \<Longrightarrow> prep_original (prepared ! i) =
        mem_read m0 (prep_address (prepared ! i)) (length (prep_original (prepared ! i)))"
    and "tr_status r = kRolledBackVerified"
  shows "mem s' = m0"
proof
  fix x
  show "mem s' x = m0 x"
  proof (cases "x \<in> (\<Union>i \<in> set attempted. slot prepared i)")
    case False
    with assms(1,2) RollBack_frame show ?thesis by metis
  next
    case True
    then obtain i where i: "i \<in> set attempted" "x \<in> slot prepared i" by blast
    from RollBack_verified [OF assms(1,4) i(1)] assms(3) [OF i(1)]
    have "mem_read (mem s') (prep_address (prepared ! i)) (length (prep_original (prepared ! i))) =
      mem_read m0 (prep_address (prepared ! i)) (length (prep_original (prepared ! i)))" by simp
    then show ?thesis using i(2) by (auto simp: slot_def dest: mem_read_eqD)
  qed
qed

lemma loop_invariant_write:
  assumes inv: "loop_invariant m0 W prepared attempted index (operation # rest) s"
    and w: "Write backend s (prep_address (prepared ! index)) (op_replacement operation) = (ok, t)"
    and k: "op_kind operation = kWrite"
    and u: "mem u = mem t"
  shows "loop_invariant m0 W prepared (attempted @ [index]) (Suc index) rest u"
proof -
  note r = loop_invariant_rest [OF inv]
  have "mem u x = m0 x" if x: "x \<notin> (\<Union>i \<in> set (attempted @ [index]). slot prepared i)" for x
  proof -
    from x have "x \<notin> mem_range (prep_address (prepared ! index)) (length (op_replacement operation))"
      using r(2) [OF k] by (simp add: slot_def)
    then have "mem t x = mem s x" using w by (metis snd_conv write_frame)
    moreover have "mem s x = m0 x" using inv x by (simp add: loop_invariant_def)
    ultimately show ?thesis by (simp add: u)
  qed
  then show ?thesis
    using inv r(1) r(2) [OF k] by (simp add: loop_invariant_def)
qed

lemma loop_invariant_skip:
  assumes "loop_invariant m0 W prepared attempted index (operation # rest) s"
  shows "loop_invariant m0 W prepared attempted (Suc index) rest s"
  using assms loop_invariant_rest(1) [OF assms] by (simp add: loop_invariant_def)

text \<open>One step of the loop on a write, as an elimination rule.\<close>

lemma apply_write_cases:
  assumes "apply_loop (operation # rest) index prepared attempted results backend s = (r, s')"
    and "op_kind operation = kWrite"
  obtains (roll) ok t u res where
      "Write backend s (prep_address (prepared ! index)) (op_replacement operation) = (ok, t)"
      "mem u = mem t" "RollBack prepared (attempted @ [index]) res backend u = (r, s')"
      "res = results \<or> res = results[index := (results ! index)\<lparr>res_applied := True\<rparr>]"
  | (step) t u where
      "Write backend s (prep_address (prepared ! index)) (op_replacement operation) = (True, t)"
      "mem u = mem t"
      "mem t = mem_write (mem s) (prep_address (prepared ! index)) (op_replacement operation)"
      "apply_loop rest (Suc index) prepared (attempted @ [index])
         (results[index := ((results[index := (results ! index)\<lparr>res_applied := True\<rparr>]) ! index)
            \<lparr>res_verified := True\<rparr>]) backend u = (r, s')"
proof -
  obtain ok t where w: "Write backend s (prep_address (prepared ! index)) (op_replacement operation) = (ok, t)"
    by (metis surj_pair)
  show thesis
  proof (cases ok)
    case False
    with assms w have "RollBack prepared (attempted @ [index]) results backend t = (r, s')" by simp
    with w show thesis by (intro roll) auto
  next
    case True
    obtain rb u where rd: "Read backend t (prep_address (prepared ! index))
        (length (op_replacement operation)) = (rb, u)" by (metis surj_pair)
    with read_mem have u: "mem u = mem t" by (metis snd_conv)
    have st: "mem t = mem_write (mem s) (prep_address (prepared ! index)) (op_replacement operation)"
      using w True write_bytes by (metis fst_conv snd_conv)
    show thesis
    proof (cases "rb = Some (op_replacement operation)")
      case False
      with assms w True rd show thesis
        by (intro roll [OF w u, of "results[index := (results ! index)\<lparr>res_applied := True\<rparr>]"])
          (auto simp: Let_def)
    next
      case True
      with \<open>ok\<close> assms w rd u st show thesis by (intro step [of t u]) (auto simp: Let_def)
    qed
  qed
qed

lemma RollBack_invariant:
  assumes "RollBack prepared attempted results backend s = (r, s')"
    and "loop_invariant m0 W prepared attempted index rest s"
  shows "tr_status r = kRolledBackVerified \<or> tr_status r = kRollbackUnverified"
    and "tr_status r = kRolledBackVerified \<Longrightarrow> mem s' = m0"
    and "x \<notin> (\<Union>i \<in> W. slot prepared i) \<Longrightarrow> mem s' x = m0 x"
proof -
  show "tr_status r = kRolledBackVerified \<or> tr_status r = kRollbackUnverified"
    using assms(1) by (auto simp: RollBack_def split: prod.splits if_splits)
  show "mem s' = m0" if "tr_status r = kRolledBackVerified"
  proof (rule rolled_back_restores [OF assms(1) _ _ that])
    show "mem s x = m0 x" if "x \<notin> (\<Union>i \<in> set attempted. slot prepared i)" for x
      using assms(2) that by (simp add: loop_invariant_def)
    show "prep_original (prepared ! i) =
        mem_read m0 (prep_address (prepared ! i)) (length (prep_original (prepared ! i)))"
      if "i \<in> set attempted" for i
      using assms(2) that by (auto simp: loop_invariant_def)
  qed
  show "mem s' x = m0 x" if "x \<notin> (\<Union>i \<in> W. slot prepared i)"
  proof -
    from that assms(2) have "x \<notin> (\<Union>i \<in> set attempted. slot prepared i)"
      by (auto simp: loop_invariant_def)
    with assms(2) RollBack_frame [OF assms(1) this] show ?thesis by (simp add: loop_invariant_def)
  qed
qed

lemma apply_loop_invariant:
  assumes "apply_loop rest index prepared attempted results backend s = (r, s')"
    and "loop_invariant m0 W prepared attempted index rest s"
  shows "tr_status r \<noteq> kRejected \<and> (tr_status r = kRolledBackVerified \<longrightarrow> mem s' = m0) \<and>
    (\<forall>x. x \<notin> (\<Union>i \<in> W. slot prepared i) \<longrightarrow> mem s' x = m0 x)"
  using assms
proof (induction rest arbitrary: index attempted results s)
  case Nil
  then have r: "tr_status r = kAppliedVerified" "s' = s" by auto
  have "mem s x = m0 x" if "x \<notin> (\<Union>i \<in> W. slot prepared i)" for x
    using Nil.prems(2) that unfolding loop_invariant_def by blast
  with r show ?case by simp
next
  case (Cons operation rest)
  show ?case
  proof (cases "op_kind operation")
    case kVerifyOnly
    with Cons.prems(1) show ?thesis
      by (intro Cons.IH [OF _ loop_invariant_skip [OF Cons.prems(2)]]) simp_all
  next
    case kWrite
    from Cons.prems(1) kWrite show ?thesis
    proof (cases rule: apply_write_cases)
      case (roll ok t u res)
      have inv: "loop_invariant m0 W prepared (attempted @ [index]) (Suc index) rest u"
        by (rule loop_invariant_write [OF Cons.prems(2) roll(1) kWrite roll(2)])
      show ?thesis using RollBack_invariant [OF roll(3) inv] by auto
    next
      case (step t u)
      show ?thesis
        by (rule Cons.IH [OF step(4) loop_invariant_write [OF Cons.prems(2) step(1) kWrite step(2)]])
    qed
  qed
qed

lemma apply_loop_stores:
  assumes "apply_loop rest index prepared attempted results backend s = (r, s')"
    and "index + length rest = length prepared"
    and "tr_status r = kAppliedVerified"
  shows "mem s' = store_all (zip (drop index prepared) rest) (mem s)"
  using assms
proof (induction rest arbitrary: index attempted results s)
  case (Cons operation rest)
  then have d: "drop index prepared = prepared ! index # drop (Suc index) prepared"
    by (intro Cons_nth_drop_Suc [symmetric]) simp
  show ?case
  proof (cases "op_kind operation")
    case kVerifyOnly
    with Cons.prems(1) have "apply_loop rest (Suc index) prepared attempted
          (results[index := (results ! index)\<lparr>res_verified := True\<rparr>]) backend s = (r, s')" by simp
    from Cons.IH [OF this] Cons.prems(2,3) kVerifyOnly show ?thesis by (simp add: d)
  next
    case kWrite
    from Cons.prems(1) kWrite show ?thesis
    proof (cases rule: apply_write_cases)
      case (roll ok t u res)
      then have "tr_status r \<noteq> kAppliedVerified"
        by (auto simp: RollBack_def split: prod.splits if_splits)
      with Cons.prems(3) show ?thesis by simp
    next
      case (step t u)
      from Cons.IH [OF step(4)] step(2,3) Cons.prems(2,3) kWrite show ?thesis by (simp add: d)
    qed
  qed
qed simp

text \<open>Every run is a rejection or reaches the apply loop with a valid request whose expected bytes
  were found.\<close>

lemma RunTransaction_cases:
  assumes "RunTransaction request backend s = (r, s')"
  obtains (reject) c where "r = Rejected c" "mem s' = mem s"
  | (run) t where "valid_request request" "mem t = mem s"
      "\<And>p. p \<in> set (tx_operations request) \<Longrightarrow>
         mem_read (mem s) (address_of p) (length (op_expected p)) = op_expected p"
      "apply_loop (tx_operations request) 0
         (map (\<lambda>p. \<lparr>prep_address = address_of p, prep_original = op_expected p\<rparr>) (tx_operations request))
         [] (initial_results (length (tx_operations request))) backend t = (r, s')"
proof -
  let ?ops = "tx_operations request"
  show thesis
  proof (cases "r = Rejected (tr_code r) \<and> mem s' = mem s")
    case True
    then show thesis by (intro reject) auto
  next
    case False
    note no = False
    from no assms have id: "IsValidTransactionId (transaction_id request)"
      and cnt: "?ops \<noteq> []" "length ?ops \<le> kMaxTransactionOperations"
      by (auto simp: RunTransaction_def Rejected_def Let_def split: if_splits)
    from no assms id cnt obtain as where as: "check_operations 0 ?ops = Inr as"
      by (cases "check_operations 0 ?ops") (auto simp: RunTransaction_def Rejected_def Let_def)
    then have wf: "list_all wf_operation ?ops" "total_bytes ?ops \<le> kMaxTransactionBytes"
      and as': "as = map address_of ?ops"
      by (auto simp: check_operations_Inr)
    from no assms id cnt as have ov: "\<not> ranges_overlap (map2 range_of as ?ops)"
      by (auto simp: RunTransaction_def Rejected_def Let_def split: if_splits)
    with wf as' have valid: "valid_request request"
      using id cnt by (simp add: valid_request_def operations_overlap_iff)
    obtain v t where v: "validate_all backend as ?ops s = (v, t)" by (metis surj_pair)
    then have t: "mem t = mem s" using validate_all_mem by (metis snd_conv)
    obtain d u where d: "read_all backend as ?ops t = (d, u)" by (metis surj_pair)
    then have u: "mem u = mem s" using read_all_mem t by (metis snd_conv)
    from no assms id cnt as ov v t have "v"
      by (cases v) (auto simp: RunTransaction_def Rejected_def Let_def)
    with no assms id cnt as ov v d u obtain originals where o: "d = Some originals"
      by (cases d) (auto simp: RunTransaction_def Rejected_def Let_def)
    with no assms id cnt as ov v d u \<open>v\<close> have eq: "list_all2 (\<lambda>original operation. original = op_expected operation) originals ?ops"
      by (auto simp: RunTransaction_def Rejected_def Let_def split: if_splits)
    then have orig: "originals = map op_expected ?ops"
      by (auto simp: list_all2_conv_all_nth intro: nth_equalityI)
    have "originals = map (\<lambda>p. mem_read (mem t) (address_of p) (length (op_expected p))) ?ops"
      using read_all_bytes [OF d [unfolded o]] as' by (simp add: map2_map_self)
    with orig t have found: "\<And>p. p \<in> set ?ops \<Longrightarrow>
        mem_read (mem s) (address_of p) (length (op_expected p)) = op_expected p" by auto
    have "prepare as originals = map (\<lambda>p. \<lparr>prep_address = address_of p, prep_original = op_expected p\<rparr>) ?ops"
      by (simp add: prepare_def as' orig map2_map_map)
    with assms id cnt as ov v d o eq \<open>v\<close> u found valid show thesis
      by (intro run [of u]) (auto simp: RunTransaction_def Let_def)
  qed
qed

end

text \<open>What \<open>store_all\<close> leaves in memory when the ranges are disjoint.\<close>

abbreviation prepared_of :: "TransactionOperation list \<Rightarrow> PreparedOperation list" where
  "prepared_of ops \<equiv> map (\<lambda>p. \<lparr>prep_address = address_of p, prep_original = op_expected p\<rparr>) ops"

definition write_set :: "TransactionOperation list \<Rightarrow> addr set" where
  "write_set ops = (\<Union>p \<in> {p \<in> set ops. op_kind p = kWrite}. range_set p)"

lemma wf_operation_lengths:
  assumes "wf_operation p" and "op_kind p = kWrite"
  shows "length (op_replacement p) = length (op_expected p)"
    and "mem_range (address_of p) (length (op_replacement p)) = range_set p"
  using assms by (simp_all add: wf_operation_def range_set_def)

lemma wf_write_outside:
  assumes "wf_operation p" and "op_kind p = kWrite" and "x \<notin> range_set p"
  shows "mem_write m (address_of p) (op_replacement p) x = m x"
  using assms wf_operation_lengths(2) [OF assms(1,2)] by (simp add: mem_write_outside)

lemma store_all_outside:
  assumes "list_all wf_operation ops" and "x \<notin> write_set ops"
  shows "store_all (zip (prepared_of ops) ops) m x = m x"
  using assms
proof (induction ops arbitrary: m)
  case (Cons p ops)
  have "x \<notin> range_set p" if "op_kind p = kWrite" using Cons.prems(2) that by (auto simp: write_set_def)
  moreover have "x \<notin> write_set ops" using Cons.prems(2) by (auto simp: write_set_def)
  ultimately show ?case
    using Cons.prems(1) Cons.IH by (auto simp: wf_write_outside)
qed simp

lemma store_all_read:
  assumes "list_all wf_operation ops"
    and "sorted_wrt (\<lambda>p q. range_set p \<inter> range_set q = {}) ops"
    and "q \<in> set ops"
  shows "mem_read (store_all (zip (prepared_of ops) ops) m) (address_of q) (length (op_expected q)) =
    (if op_kind q = kWrite then op_replacement q
     else mem_read m (address_of q) (length (op_expected q)))"
  using assms
proof (induction ops arbitrary: m)
  case (Cons p ops)
  define m' where "m' = (if op_kind p = kWrite then mem_write m (address_of p) (op_replacement p) else m)"
  have st: "store_all (zip (prepared_of (p # ops)) (p # ops)) m =
      store_all (zip (prepared_of ops) ops) m'" by (simp add: m'_def)
  show ?case
  proof (cases "q \<in> set ops")
    case True
    have "mem_read m' (address_of q) (length (op_expected q)) =
        mem_read m (address_of q) (length (op_expected q))"
    proof (rule mem_read_cong)
      fix x
      assume "x \<in> mem_range (address_of q) (length (op_expected q))"
      then have "x \<notin> range_set p" using Cons.prems(2) True by (auto simp: range_set_def)
      then show "m' x = m x"
        using Cons.prems(1) by (auto simp: m'_def wf_write_outside)
    qed
    with Cons.IH [of m'] Cons.prems True show ?thesis unfolding st by simp
  next
    case False
    with Cons.prems have q: "q = p" "wf_operation p" by auto
    have "mem_read (store_all (zip (prepared_of ops) ops) m') (address_of p) (length (op_expected p)) =
        mem_read m' (address_of p) (length (op_expected p))"
    proof (rule mem_read_cong)
      fix x
      assume "x \<in> mem_range (address_of p) (length (op_expected p))"
      then have "x \<notin> write_set ops"
        using Cons.prems(2) by (auto simp: range_set_def write_set_def)
      then show "store_all (zip (prepared_of ops) ops) m' x = m' x"
        using Cons.prems(1) by (intro store_all_outside) auto
    qed
    moreover have "mem_read m' (address_of p) (length (op_expected p)) = op_replacement p"
      if "op_kind p = kWrite"
      using that q(2) wf_operationD(4) [OF q(2)] mem_read_write [of "op_replacement p" m "address_of p"]
      by (simp add: m'_def wf_operation_lengths)
    ultimately show ?thesis unfolding st q(1) by (cases "op_kind p") (auto simp: m'_def)
  qed
qed simp

section \<open>Reports\<close>

text \<open>The flags of the report: after a rollback nothing counts as applied; after success every
  operation is verified and exactly the writes are applied.\<close>

lemma restore_loop_flags:
  assumes "restore_loop backend prepared idx restored results s = (ok, results', s')"
  shows "length results' = length results"
    and "i < length results \<Longrightarrow> res_applied (results' ! i) \<longleftrightarrow> res_applied (results ! i) \<and> i \<notin> set idx"
proof -
  have "length results' = length results \<and> (\<forall>i < length results.
      res_applied (results' ! i) \<longleftrightarrow> res_applied (results ! i) \<and> i \<notin> set idx)"
    using assms
  proof (induction idx arbitrary: restored results s)
    case (Cons j idx)
    obtain b t where "Write backend s (prep_address (prepared ! j)) (prep_original (prepared ! j)) = (b, t)"
      by (metis surj_pair)
    with Cons.prems have "restore_loop backend prepared idx (restored \<and> b)
        (results[j := (results ! j)\<lparr>res_applied := False, res_verified := False\<rparr>]) t =
      (ok, results', s')" by simp
    from Cons.IH [OF this] show ?case
      by (cases "j < length results") (auto simp: nth_list_update list_update_beyond)
  qed simp
  then show "length results' = length results"
    and "i < length results \<Longrightarrow> res_applied (results' ! i) \<longleftrightarrow> res_applied (results ! i) \<and> i \<notin> set idx"
    by auto
qed

lemma RollBack_flags:
  assumes "RollBack prepared attempted results backend s = (r, s')"
    and "\<forall>i < length results. res_applied (results ! i) \<longrightarrow> i \<in> set attempted"
  shows "\<not> list_ex res_applied (tr_operations r)"
proof -
  obtain ok res t where l: "restore_loop backend prepared (rev attempted) True results s = (ok, res, t)"
    by (metis surj_pair)
  from assms(1) l have r: "tr_operations r = res"
    by (auto simp: RollBack_def split: prod.splits)
  from restore_loop_flags [OF l] assms(2) have "\<forall>i < length res. \<not> res_applied (res ! i)" by auto
  then show ?thesis using r by (auto simp: list_ex_iff in_set_conv_nth)
qed

definition report_of :: "OperationResult \<Rightarrow> TransactionOperation \<Rightarrow> OperationResult" where
  "report_of result operation =
     result\<lparr>res_applied := (op_kind operation = kWrite \<or> res_applied result), res_verified := True\<rparr>"

lemma list_update_split:
  "i < length xs \<Longrightarrow> take (Suc i) (xs[i := y]) = take i xs @ [y] \<and>
     drop (Suc i) (xs[i := y]) = drop (Suc i) xs \<and> drop i xs = xs ! i # drop (Suc i) xs"
  by (simp add: take_Suc_conv_app_nth Cons_nth_drop_Suc)

lemma apply_loop_flags:
  assumes "apply_loop rest index prepared attempted results backend s = (r, s')"
    and "index + length rest = length results"
    and "\<forall>i < length results. res_applied (results ! i) \<longrightarrow> i \<in> set attempted"
  shows "if tr_status r = kAppliedVerified
    then tr_operations r = take index results @ map2 report_of (drop index results) rest
    else \<not> list_ex res_applied (tr_operations r)"
  using assms
proof (induction rest arbitrary: index attempted results s)
  case Nil
  then show ?case by auto
next
  case (Cons operation rest)
  have i: "index < length results" using Cons.prems(2) by simp
  define verified where "verified res = res[index := (res ! index)\<lparr>res_verified := True\<rparr>]"
    for res :: "OperationResult list"
  define applied where "applied = results[index := (results ! index)\<lparr>res_applied := True\<rparr>]"
  have roll: ?case if "RollBack prepared (attempted @ [index]) res backend u = (r, s')"
    "res = results \<or> res = applied" for res u
  proof -
    have "\<forall>i < length res. res_applied (res ! i) \<longrightarrow> i \<in> set (attempted @ [index])"
      using that(2) Cons.prems(3) i by (auto simp: applied_def nth_list_update split: if_splits)
    then have "\<not> list_ex res_applied (tr_operations r)" by (rule RollBack_flags [OF that(1)])
    moreover have "tr_status r \<noteq> kAppliedVerified"
      using that(1) by (auto simp: RollBack_def split: prod.splits if_splits)
    ultimately show ?case by simp
  qed
  show ?case
  proof (cases "op_kind operation")
    case kVerifyOnly
    with Cons.prems(1) have "apply_loop rest (Suc index) prepared attempted (verified results)
        backend s = (r, s')" by (simp add: verified_def)
    from Cons.IH [OF this] Cons.prems(2,3) list_update_split [OF i] kVerifyOnly show ?thesis
      by (auto simp: verified_def report_of_def nth_list_update split: if_splits)
  next
    case kWrite
    obtain ok t where w: "Write backend s (prep_address (prepared ! index)) (op_replacement operation) = (ok, t)"
      by (metis surj_pair)
    obtain rb u where rd: "Read backend t (prep_address (prepared ! index))
        (length (op_replacement operation)) = (rb, u)" by (metis surj_pair)
    show ?thesis
    proof (cases "ok \<and> rb = Some (op_replacement operation)")
      case False
      with w rd Cons.prems(1) kWrite have "\<exists>res v. (res = results \<or> res = applied) \<and>
          RollBack prepared (attempted @ [index]) res backend v = (r, s')"
        by (auto simp: Let_def applied_def split: if_splits bool.splits)
      then show ?thesis using roll by blast
    next
      case True
      with w rd Cons.prems(1) kWrite have "apply_loop rest (Suc index) prepared (attempted @ [index])
          (verified applied) backend u = (r, s')"
        by (simp add: Let_def applied_def verified_def)
      from Cons.IH [OF this] Cons.prems(2,3) list_update_split [OF i] kWrite i show ?thesis
        by (auto simp: verified_def applied_def report_of_def nth_list_update split: if_splits)
    qed
  qed
qed

section \<open>The backend of the process\<close>

definition ProcessMemoryBackend_Read :: "'s Os \<Rightarrow> 's \<Rightarrow> addr \<Rightarrow> nat \<Rightarrow> byte list option \<times> 's" where
  "ProcessMemoryBackend_Read os s address n =
     (let ((ok, copied), s) = ReadProcessMemory os s address n
      in (if ok \<and> length copied = n then Some copied else None, s))"

definition ProcessMemoryBackend_Write :: "'s Os \<Rightarrow> 's \<Rightarrow> addr \<Rightarrow> byte list \<Rightarrow> bool \<times> 's" where
  "ProcessMemoryBackend_Write os s address input =
     (let ((ok, copied), s) = WriteProcessMemory os s address input
      in (ok \<and> copied = length input, s))"

definition ProcessMemoryBackend :: "'s Os \<Rightarrow> 's MemoryBackend" where
  "ProcessMemoryBackend os =
     \<lparr>Validate = \<lambda>s address n writable.
        (ProcessMemoryBackend_Validate (VirtualQuery os s) address (word_of_nat n) writable, s),
      Read = ProcessMemoryBackend_Read os,
      Write = ProcessMemoryBackend_Write os\<rparr>"

sublocale os_process \<subseteq> memory_backend "ProcessMemoryBackend os" mem
proof unfold_locales
  show "mem (snd (Validate (ProcessMemoryBackend os) s a n w)) = mem s" for s a n w
    by (simp add: ProcessMemoryBackend_def)
  show "mem (snd (Read (ProcessMemoryBackend os) s a n)) = mem s" for s a n
    using rpm_mem [of s a n]
    by (auto simp: ProcessMemoryBackend_def ProcessMemoryBackend_Read_def split: prod.splits)
  show "bytes = mem_read (mem s) a n"
    if "fst (Read (ProcessMemoryBackend os) s a n) = Some bytes" for s a n bytes
    using that rpm_bytes [of s a n bytes]
    by (auto simp: ProcessMemoryBackend_def ProcessMemoryBackend_Read_def
        split: prod.splits if_splits)
  show "mem (snd (Write (ProcessMemoryBackend os) s a bytes)) x = mem s x"
    if "x \<notin> mem_range a (length bytes)" for s a bytes x
    using wpm_frame [OF that, of s]
    by (auto simp: ProcessMemoryBackend_def ProcessMemoryBackend_Write_def split: prod.splits)
  show "mem (snd (Write (ProcessMemoryBackend os) s a bytes)) = mem_write (mem s) a bytes"
    if "fst (Write (ProcessMemoryBackend os) s a bytes)" for s a bytes
    using that wpm_bytes [of s a bytes]
    by (auto simp: ProcessMemoryBackend_def ProcessMemoryBackend_Write_def split: prod.splits)
qed

section \<open>Reliable backends\<close>

text \<open>On a reliable backend what \<open>Validate\<close> accepts can be read, and written when validated for
  writing, and the accessible memory does not change.\<close>

locale reliable_backend = memory_backend backend mem
  for backend :: "'s MemoryBackend" and mem :: "'s \<Rightarrow> memory" +
  fixes usable :: "'s \<Rightarrow> addr \<Rightarrow> nat \<Rightarrow> bool \<Rightarrow> bool"
  assumes validate_usable: "n < 2 ^ 64 \<Longrightarrow> fst (Validate backend s a n w) = usable s a n w"
    and read_usable: "usable s a n w \<Longrightarrow> fst (Read backend s a n) \<noteq> None"
    and write_usable: "usable s a (length bytes) True \<Longrightarrow> fst (Write backend s a bytes)"
    and usable_stable: "usable (snd (Validate backend s a n w)) = usable s"
      "usable (snd (Read backend s a n)) = usable s"
      "usable (snd (Write backend s a bytes)) = usable s"
begin

lemma validate_step:
  assumes "n < 2 ^ 64"
  obtains t where "Validate backend s a n w = (usable s a n w, t)" "usable t = usable s" "mem t = mem s"
  using validate_usable [OF assms, of s a w] usable_stable(1) [of s a n w] validate_mem [of s a n w]
  by (cases "Validate backend s a n w") (simp add: that)

lemma read_step:
  assumes "usable s a n w"
  obtains t where "Read backend s a n = (Some (mem_read (mem s) a n), t)" "usable t = usable s"
    "mem t = mem s"
  using read_usable [OF assms] usable_stable(2) [of s a n] read_mem [of s a n] read_bytes [of s a n]
  by (metis not_None_eq prod.collapse)

lemma write_step:
  assumes "usable s a (length bytes) True"
  obtains t where "Write backend s a bytes = (True, t)" "usable t = usable s"
    "mem t = mem_write (mem s) a bytes"
  using write_usable [OF assms] usable_stable(3) [of s a bytes] write_bytes [of s a bytes]
  by (metis (full_types) prod.collapse)

lemma validate_all_usable:
  assumes "length as = length ops" and "list_all (\<lambda>p. length (op_expected p) < 2 ^ 64) ops"
  obtains t where "validate_all backend as ops s =
      (list_all2 (\<lambda>a p. usable s a (length (op_expected p)) (op_kind p = kWrite)) as ops, t)"
    "usable t = usable s" "mem t = mem s"
  using assms
proof (induction as ops arbitrary: s thesis rule: list_induct2)
  case Nil
  then show ?case by simp
next
  case (Cons a as p ops)
  from Cons.prems(2) have n: "length (op_expected p) < 2 ^ 64" by simp
  obtain t where t: "Validate backend s a (length (op_expected p)) (op_kind p = kWrite) =
      (usable s a (length (op_expected p)) (op_kind p = kWrite), t)" "usable t = usable s"
      "mem t = mem s" by (rule validate_step [OF n])
  obtain u where u: "validate_all backend as ops t =
      (list_all2 (\<lambda>a p. usable t a (length (op_expected p)) (op_kind p = kWrite)) as ops, u)"
    "usable u = usable t" "mem u = mem t" using Cons.IH [of t] Cons.prems(2) by auto
  show ?case
    by (rule Cons.prems(1) [of "if usable s a (length (op_expected p)) (op_kind p = kWrite) then u else t"])
      (use t u in auto)
qed

lemma read_all_usable:
  assumes "length as = length ops"
    and "list_all2 (\<lambda>a p. usable s a (length (op_expected p)) (op_kind p = kWrite)) as ops"
  obtains t where "read_all backend as ops s =
      (Some (map2 (\<lambda>a p. mem_read (mem s) a (length (op_expected p))) as ops), t)"
    "usable t = usable s" "mem t = mem s"
  using assms
proof (induction as ops arbitrary: s thesis rule: list_induct2)
  case Nil
  then show ?case by simp
next
  case (Cons a as p ops)
  then obtain t where t: "Read backend s a (length (op_expected p)) =
      (Some (mem_read (mem s) a (length (op_expected p))), t)" "usable t = usable s" "mem t = mem s"
    by (auto elim: read_step)
  from Cons.prems(2) t(2)
  have use: "list_all2 (\<lambda>a p. usable t a (length (op_expected p)) (op_kind p = kWrite)) as ops" by simp
  obtain u where "read_all backend as ops t =
      (Some (map2 (\<lambda>a p. mem_read (mem t) a (length (op_expected p))) as ops), u)"
    "usable u = usable t" "mem u = mem t" using Cons.IH [OF _ use] by blast
  with t show ?case by (intro Cons.prems(1) [of u]) auto
qed

lemma apply_loop_applies:
  assumes "index + length rest = length prepared"
    and "\<And>p operation. (p, operation) \<in> set (zip (drop index prepared) rest) \<Longrightarrow>
      op_kind operation = kWrite \<Longrightarrow>
      usable s (prep_address p) (length (op_replacement operation)) True \<and>
      length (op_replacement operation) < 2 ^ 64"
  shows "tr_status (fst (apply_loop rest index prepared attempted results backend s)) = kAppliedVerified"
  using assms
proof (induction rest arbitrary: index attempted results s)
  case (Cons operation rest)
  then have d: "drop index prepared = prepared ! index # drop (Suc index) prepared"
    by (intro Cons_nth_drop_Suc [symmetric]) simp
  have rest: "usable s (prep_address p) (length (op_replacement q)) True \<and> length (op_replacement q) < 2 ^ 64"
    if "(p, q) \<in> set (zip (drop (Suc index) prepared) rest)" "op_kind q = kWrite" for p q
    using that Cons.prems(2) [of p q] by (simp add: d)
  show ?case
  proof (cases "op_kind operation")
    case kVerifyOnly
    then show ?thesis using Cons.IH [of "Suc index"] Cons.prems(1) rest by simp
  next
    case kWrite
    let ?a = "prep_address (prepared ! index)" and ?n = "length (op_replacement operation)"
    from Cons.prems(2) [of "prepared ! index" operation] kWrite
    have use: "usable s ?a ?n True" and len: "?n < 2 ^ 64" by (simp_all add: d)
    from use obtain t where t: "Write backend s ?a (op_replacement operation) = (True, t)"
      "usable t = usable s" "mem t = mem_write (mem s) ?a (op_replacement operation)"
      by (rule write_step)
    from use t(2) obtain u where u: "Read backend t ?a ?n = (Some (mem_read (mem t) ?a ?n), u)"
      "usable u = usable t" by (metis read_step)
    have "mem_read (mem t) ?a ?n = op_replacement operation"
      using len by (simp add: t(3) mem_read_write)
    with kWrite t u Cons.IH [of "Suc index" u] Cons.prems(1) rest show ?thesis
      by (simp add: Let_def)
  qed
qed simp

lemma RunTransaction_outcome:
  "tr_status (fst (RunTransaction request backend s)) =
    (if valid_request request \<and>
        (\<forall>p \<in> set (tx_operations request).
           usable s (address_of p) (length (op_expected p)) (op_kind p = kWrite) \<and>
           mem_read (mem s) (address_of p) (length (op_expected p)) = op_expected p)
     then kAppliedVerified else kRejected)"
    (is "_ = (if ?good then _ else _)")
proof (cases "valid_request request")
  case False
  obtain r s' where run: "RunTransaction request backend s = (r, s')" by (metis surj_pair)
  then show ?thesis
    by (cases rule: RunTransaction_cases) (use False run in \<open>auto simp: Rejected_def\<close>)
next
  case True
  let ?ops = "tx_operations request"
  let ?as = "map address_of ?ops"
  define u where "u \<longleftrightarrow> (\<forall>p \<in> set ?ops.
      usable s (address_of p) (length (op_expected p)) (op_kind p = kWrite))"
  have u_iff: "list_all2 (\<lambda>a p. usable s a (length (op_expected p)) (op_kind p = kWrite)) ?as ?ops \<longleftrightarrow> u"
    by (simp add: list_all2_map1 list_all2_same u_def)
  from True have head: "IsValidTransactionId (transaction_id request)" "?ops \<noteq> []"
      "length ?ops \<le> kMaxTransactionOperations" "check_operations 0 ?ops = Inr ?as"
      "\<not> ranges_overlap (map2 range_of ?as ?ops)" and wf: "list_all wf_operation ?ops"
    by (auto simp: valid_request_def check_operations_Inr operations_overlap_iff)
  obtain t where "validate_all backend ?as ?ops s =
      (list_all2 (\<lambda>a p. usable s a (length (op_expected p)) (op_kind p = kWrite)) ?as ?ops, t)"
      and t: "usable t = usable s" "mem t = mem s"
    by (rule validate_all_usable [of ?as ?ops])
      (use wf wf_operationD(4) in \<open>auto simp: list_all_iff\<close>)
  then have v: "validate_all backend ?as ?ops s = (u, t)" by (simp only: u_iff)
  show ?thesis
  proof (cases u)
    case False
    then have "RunTransaction request backend s = (Rejected ''invalid_memory_range'', t)"
      using head v by (simp add: RunTransaction_def Let_def)
    moreover have "\<not> ?good" using False by (auto simp: u_def)
    ultimately show ?thesis by (simp only: Rejected_def if_False fst_conv TransactionResult.simps)
  next
    case True
    then have "list_all2 (\<lambda>a p. usable t a (length (op_expected p)) (op_kind p = kWrite)) ?as ?ops"
      by (simp only: t(1) u_iff)
    then obtain w where w: "read_all backend ?as ?ops t =
        (Some (map2 (\<lambda>a p. mem_read (mem t) a (length (op_expected p))) ?as ?ops), w)"
      "usable w = usable t" "mem w = mem t"
      by (metis (no_types, lifting) length_map read_all_usable)
    let ?orig = "map (\<lambda>p. mem_read (mem s) (address_of p) (length (op_expected p))) ?ops"
    have orig: "map2 (\<lambda>a p. mem_read (mem t) a (length (op_expected p))) ?as ?ops = ?orig"
      by (simp add: map2_map_self t(2))
    have match: "list_all2 (\<lambda>original operation. original = op_expected operation) ?orig ?ops \<longleftrightarrow>
        (\<forall>p \<in> set ?ops. mem_read (mem s) (address_of p) (length (op_expected p)) = op_expected p)"
      by (simp add: list_all2_map1 list_all2_same)
    have applies: "tr_status (fst (apply_loop ?ops 0 (prepare ?as ?orig) [] results backend w)) =
        kAppliedVerified" for results
    proof (rule apply_loop_applies)
      show "0 + length ?ops = length (prepare ?as ?orig)" by (simp add: prepare_def)
      fix p q
      assume "(p, q) \<in> set (zip (drop 0 (prepare ?as ?orig)) ?ops)" and k: "op_kind q = kWrite"
      then obtain i where i: "i < length ?ops" "q = ?ops ! i" "prep_address p = address_of q"
        by (auto simp: set_zip prepare_def)
      then have q: "q \<in> set ?ops" by simp
      with wf have "length (op_replacement q) = length (op_expected q)"
        "length (op_expected q) < 2 ^ 64"
        using wf_operation_lengths(1) [OF _ k] wf_operationD(4) by (auto simp: list_all_iff)
      moreover from True q have "usable s (address_of q) (length (op_expected q)) (op_kind q = kWrite)"
        by (simp add: u_def)
      ultimately show "usable w (prep_address p) (length (op_replacement q)) True \<and>
          length (op_replacement q) < 2 ^ 64"
        by (simp only: k i(3) w(2) t(1) simp_thms)
    qed
    show ?thesis
    proof (cases ?good)
      case good: True
      with match have "list_all2 (\<lambda>original operation. original = op_expected operation) ?orig ?ops"
        by blast
      with head v True w(1) orig applies have "tr_status (fst (RunTransaction request backend s)) = kAppliedVerified"
        by (simp add: RunTransaction_def Let_def)
      with good show ?thesis by simp
    next
      case bad: False
      with match True \<open>valid_request request\<close>
      have "\<not> list_all2 (\<lambda>original operation. original = op_expected operation) ?orig ?ops"
        by (auto simp: u_def)
      with head v True w(1) orig have "RunTransaction request backend s = (Rejected ''expected_mismatch'', w)"
        by (simp add: RunTransaction_def Let_def)
      then show ?thesis using bad by (simp only: Rejected_def if_False fst_conv TransactionResult.simps)
    qed
  qed
qed

end

text \<open>The process backend is reliable.\<close>

definition windows_usable :: "process \<Rightarrow> addr \<Rightarrow> nat \<Rightarrow> bool \<Rightarrow> bool" where
  "windows_usable s a n w =
     (n < 2 ^ 64 \<and> ProcessMemoryBackend_Validate (space_query (pages s)) a (word_of_nat n) w)"

lemma windows_usable_accessible:
  assumes "windows_usable s a n w"
  shows "accessible s w a n"
  using assms
  by (auto simp: windows_usable_def space.validate_usable unat_of_nat_u64 accessible_def list_all_iff
      unat_add_of_nat)

lemma accessible_prefix_all: "accessible s True a n \<Longrightarrow> accessible_prefix s a n = n"
  by (auto simp: accessible_def accessible_prefix_def list_all_iff takeWhile_eq_all_conv
      [THEN iffD2])

interpretation win_reliable: reliable_backend "ProcessMemoryBackend windows" ram windows_usable
proof unfold_locales
  fix s a n w
  show "fst (Validate (ProcessMemoryBackend windows) s a n w) = windows_usable s a n w" if "n < 2 ^ 64"
    using that by (simp add: ProcessMemoryBackend_def windows_def windows_usable_def)
  show "fst (Read (ProcessMemoryBackend windows) s a n) \<noteq> None" if "windows_usable s a n w"
    using windows_usable_accessible [OF that] usable_at_mono [of "space_query (pages s)" _ False]
    by (cases w) (auto simp: ProcessMemoryBackend_def ProcessMemoryBackend_Read_def windows_def
        accessible_def list_all_iff)
  show "fst (Write (ProcessMemoryBackend windows) s a bytes)"
    if "windows_usable s a (length bytes) True" for bytes
    using accessible_prefix_all [OF windows_usable_accessible [OF that]]
    by (simp add: ProcessMemoryBackend_def ProcessMemoryBackend_Write_def windows_def Let_def)
  show "windows_usable (snd (Validate (ProcessMemoryBackend windows) s a n w)) = windows_usable s"
    by (simp add: ProcessMemoryBackend_def)
  show "windows_usable (snd (Read (ProcessMemoryBackend windows) s a n)) = windows_usable s"
    by (simp add: ProcessMemoryBackend_def ProcessMemoryBackend_Read_def windows_def)
  show "windows_usable (snd (Write (ProcessMemoryBackend windows) s a bytes)) = windows_usable s" for bytes
    by (auto simp: ProcessMemoryBackend_def ProcessMemoryBackend_Write_def windows_def Let_def
        windows_usable_def fun_eq_iff)
qed

section \<open>The fault injecting backends of the host\<close>

text \<open>lua_host.cpp, \<open>SmokeRollbackUnverifiedBackend\<close>: from the second read on, reads fail. The state
  is the inner state and the number of reads. (The optional delay before the second read is left
  out.)\<close>

definition SmokeRollbackUnverifiedBackend :: "'s MemoryBackend \<Rightarrow> ('s \<times> nat) MemoryBackend" where
  "SmokeRollbackUnverifiedBackend backend =
     \<lparr>Validate = \<lambda>(s, reads) address n writable.
        let (ok, s) = Validate backend s address n writable in (ok, (s, reads)),
      Read = \<lambda>(s, reads) address n.
        let reads = reads + 1 in
        if reads \<ge> 2 then (None, (s, reads))
        else let (output, s) = Read backend s address n in (output, (s, reads)),
      Write = \<lambda>(s, reads) address input.
        let (ok, s) = Write backend s address input in (ok, (s, reads))\<rparr>"

text \<open>\<open>SmokeApplyFailureBackend\<close>: the first write fails without writing.\<close>

definition SmokeApplyFailureBackend :: "'s MemoryBackend \<Rightarrow> ('s \<times> nat) MemoryBackend" where
  "SmokeApplyFailureBackend backend =
     \<lparr>Validate = \<lambda>(s, writes) address n writable.
        let (ok, s) = Validate backend s address n writable in (ok, (s, writes)),
      Read = \<lambda>(s, writes) address n.
        let (output, s) = Read backend s address n in (output, (s, writes)),
      Write = \<lambda>(s, writes) address input.
        let writes = writes + 1 in
        if writes = 1 then (False, (s, writes))
        else let (ok, s) = Write backend s address input in (ok, (s, writes))\<rparr>"

context memory_backend
begin

lemma backend_eqs:
  "Validate backend s a n w = (ok, t) \<Longrightarrow> mem t = mem s"
  "Read backend s a n = (out, t) \<Longrightarrow> mem t = mem s"
  "Read backend s a n = (Some bytes, t) \<Longrightarrow> bytes = mem_read (mem s) a n"
  "Write backend s a bytes = (ok, t) \<Longrightarrow> x \<notin> mem_range a (length bytes) \<Longrightarrow> mem t x = mem s x"
  "Write backend s a bytes = (True, t) \<Longrightarrow> mem t = mem_write (mem s) a bytes"
  using validate_mem [of s a n w] read_mem [of s a n] read_bytes [of s a n bytes]
    write_frame [of x a bytes s] write_bytes [of s a bytes]
  by auto

lemma smoke_rollback_backend: "memory_backend (SmokeRollbackUnverifiedBackend backend) (mem \<circ> fst)"
  by unfold_locales
    (auto simp: SmokeRollbackUnverifiedBackend_def Let_def dest: backend_eqs split: prod.splits if_splits)

lemma smoke_apply_backend: "memory_backend (SmokeApplyFailureBackend backend) (mem \<circ> fst)"
  by unfold_locales
    (auto simp: SmokeApplyFailureBackend_def Let_def dest: backend_eqs split: prod.splits if_splits)

end

text \<open>What the fault injecting backends do to a transaction the inner backend would apply.\<close>

lemma RunTransaction_run:
  assumes "valid_request request"
    and "validate_all backend (map address_of (tx_operations request)) (tx_operations request) s = (True, t)"
    and "read_all backend (map address_of (tx_operations request)) (tx_operations request) t =
      (Some (map op_expected (tx_operations request)), u)"
  shows "RunTransaction request backend s =
    apply_loop (tx_operations request) 0 (prepared_of (tx_operations request)) []
      (initial_results (length (tx_operations request))) backend u"
proof -
  let ?ops = "tx_operations request"
  from assms(1) have head: "IsValidTransactionId (transaction_id request)" "?ops \<noteq> []"
      "length ?ops \<le> kMaxTransactionOperations" "check_operations 0 ?ops = Inr (map address_of ?ops)"
      "\<not> ranges_overlap (map2 range_of (map address_of ?ops) ?ops)"
    by (auto simp: valid_request_def check_operations_Inr operations_overlap_iff)
  have "prepare (map address_of ?ops) (map op_expected ?ops) = prepared_of ?ops"
    by (simp add: prepare_def map2_map_both)
  moreover have "list_all2 (\<lambda>original operation. original = op_expected operation) (map op_expected ?ops) ?ops"
    by (simp add: list_all2_map1 list_all2_same)
  ultimately show ?thesis
    using head assms(2,3) by (simp add: RunTransaction_def Let_def)
qed

lemma validate_all_smoke:
  "validate_all (SmokeApplyFailureBackend backend) as ops (s, k) =
     (let (v, t) = validate_all backend as ops s in (v, (t, k)))"
  "validate_all (SmokeRollbackUnverifiedBackend backend) as ops (s, k) =
     (let (v, t) = validate_all backend as ops s in (v, (t, k)))"
  by (induction backend as ops s rule: validate_all.induct)
    (auto simp: SmokeApplyFailureBackend_def SmokeRollbackUnverifiedBackend_def
      split: prod.splits bool.splits)

lemma read_all_smoke:
  "read_all (SmokeApplyFailureBackend backend) as ops (s, k) =
     (let (v, t) = read_all backend as ops s in (v, (t, k)))"
  by (induction backend as ops s rule: read_all.induct)
    (auto simp: SmokeApplyFailureBackend_def split: prod.splits option.splits)

context reliable_backend
begin

lemma applied_run:
  assumes "tr_status (fst (RunTransaction request backend s)) = kAppliedVerified"
  obtains t u where "valid_request request"
    "validate_all backend (map address_of (tx_operations request)) (tx_operations request) s = (True, t)"
    "read_all backend (map address_of (tx_operations request)) (tx_operations request) t =
      (Some (map op_expected (tx_operations request)), u)"
    "usable u = usable s" "mem u = mem s"
    "\<And>p. p \<in> set (tx_operations request) \<Longrightarrow>
       usable s (address_of p) (length (op_expected p)) (op_kind p = kWrite)"
proof -
  let ?ops = "tx_operations request"
  from assms have valid: "valid_request request"
    and good: "\<forall>p \<in> set ?ops.
      usable s (address_of p) (length (op_expected p)) (op_kind p = kWrite) \<and>
      mem_read (mem s) (address_of p) (length (op_expected p)) = op_expected p"
    by (simp_all add: RunTransaction_outcome split: if_splits)
  from valid have wf: "list_all wf_operation ?ops" by (simp add: valid_request_def)
  let ?u = "\<lambda>s. list_all2 (\<lambda>a p. usable s a (length (op_expected p)) (op_kind p = kWrite)) (map address_of ?ops) ?ops"
  from good have us: "?u s" by (simp add: list_all2_map1 list_all2_same)
  obtain t where t: "validate_all backend (map address_of ?ops) ?ops s = (?u s, t)"
      "usable t = usable s" "mem t = mem s"
    by (rule validate_all_usable [of "map address_of ?ops" ?ops])
      (use wf wf_operationD(4) in \<open>auto simp: list_all_iff\<close>)
  from us t(2) have ut: "?u t" by simp
  obtain u where u: "read_all backend (map address_of ?ops) ?ops t =
      (Some (map2 (\<lambda>a p. mem_read (mem t) a (length (op_expected p))) (map address_of ?ops) ?ops), u)"
    "usable u = usable t" "mem u = mem t"
    by (rule read_all_usable [OF _ ut]) simp_all
  have "map2 (\<lambda>a p. mem_read (mem t) a (length (op_expected p))) (map address_of ?ops) ?ops =
      map op_expected ?ops" using good t(3) by (simp add: map2_map_self)
  with t u us valid good show thesis by (intro that [of t u]) auto
qed

lemma smoke_apply_loop:
  assumes "index + length rest = length prepared"
    and "\<exists>q \<in> set rest. op_kind q = kWrite"
    and "\<And>p q. (p, q) \<in> set (zip (drop index prepared) rest) \<Longrightarrow> op_kind q = kWrite \<Longrightarrow>
      usable s (prep_address p) (length (prep_original p)) True \<and> length (prep_original p) < 2 ^ 64"
  shows "tr_status (fst (apply_loop rest index prepared [] results
    (SmokeApplyFailureBackend backend) (s, 0))) = kRolledBackVerified"
  using assms
proof (induction rest arbitrary: index results)
  case (Cons q rest)
  then have d: "drop index prepared = prepared ! index # drop (Suc index) prepared"
    by (intro Cons_nth_drop_Suc [symmetric]) simp
  show ?case
  proof (cases "op_kind q")
    case kVerifyOnly
    have "\<exists>q \<in> set rest. op_kind q = kWrite" using Cons.prems(2) kVerifyOnly by auto
    moreover have "usable s (prep_address p) (length (prep_original p)) True \<and>
        length (prep_original p) < 2 ^ 64"
      if "(p, q) \<in> set (zip (drop (Suc index) prepared) rest)" "op_kind q = kWrite" for p q
      using that Cons.prems(3) [of p q] by (simp add: d)
    ultimately have "tr_status (fst (apply_loop rest (Suc index) prepared [] res
        (SmokeApplyFailureBackend backend) (s, 0))) = kRolledBackVerified" for res
      using Cons.prems(1) by (intro Cons.IH) auto
    then show ?thesis by (simp add: kVerifyOnly)
  next
    case kWrite
    let ?p = "prepared ! index"
    from Cons.prems(3) [of ?p q] kWrite have use: "usable s (prep_address ?p) (length (prep_original ?p)) True"
      and len: "length (prep_original ?p) < 2 ^ 64" by (simp_all add: d)
    obtain t where t: "Write backend s (prep_address ?p) (prep_original ?p) = (True, t)"
      "usable t = usable s" "mem t = mem_write (mem s) (prep_address ?p) (prep_original ?p)"
      by (rule write_step [OF use])
    obtain u where u: "Read backend t (prep_address ?p) (length (prep_original ?p)) =
        (Some (mem_read (mem t) (prep_address ?p) (length (prep_original ?p))), u)"
      using use t(2) by (metis read_step)
    have "mem_read (mem t) (prep_address ?p) (length (prep_original ?p)) = prep_original ?p"
      using len by (simp add: t(3) mem_read_write)
    with t(1) u kWrite show ?thesis
      by (simp add: Let_def RollBack_def SmokeApplyFailureBackend_def)
  qed
qed simp

lemma smoke_apply_outcome:
  assumes applied: "tr_status (fst (RunTransaction request backend s)) = kAppliedVerified"
    and some_write: "\<exists>p \<in> set (tx_operations request). op_kind p = kWrite"
  shows "tr_status (fst (RunTransaction request (SmokeApplyFailureBackend backend) (s, 0))) =
    kRolledBackVerified"
proof -
  let ?ops = "tx_operations request"
  from applied obtain t u where run: "valid_request request"
    "validate_all backend (map address_of ?ops) ?ops s = (True, t)"
    "read_all backend (map address_of ?ops) ?ops t = (Some (map op_expected ?ops), u)"
    and u: "usable u = usable s"
    and use: "\<And>p. p \<in> set ?ops \<Longrightarrow> usable s (address_of p) (length (op_expected p)) (op_kind p = kWrite)"
    by (rule applied_run) blast
  from run(1) have wf: "\<And>p. p \<in> set ?ops \<Longrightarrow> wf_operation p"
    by (simp add: valid_request_def list_all_iff)
  have "RunTransaction request (SmokeApplyFailureBackend backend) (s, 0) =
      apply_loop ?ops 0 (prepared_of ?ops) [] (initial_results (length ?ops))
        (SmokeApplyFailureBackend backend) (u, 0)"
    using run by (intro RunTransaction_run) (auto simp: validate_all_smoke read_all_smoke)
  moreover have "tr_status (fst (apply_loop ?ops 0 (prepared_of ?ops) [] (initial_results (length ?ops))
      (SmokeApplyFailureBackend backend) (u, 0))) = kRolledBackVerified"
  proof (rule smoke_apply_loop)
    show "0 + length ?ops = length (prepared_of ?ops)" by simp
    show "\<exists>q \<in> set ?ops. op_kind q = kWrite" by (rule some_write)
    fix p q
    assume "(p, q) \<in> set (zip (drop 0 (prepared_of ?ops)) ?ops)" and k: "op_kind q = kWrite"
    then have q: "q \<in> set ?ops" and p: "prep_address p = address_of q" "prep_original p = op_expected q"
      by (auto simp: set_zip)
    show "usable u (prep_address p) (length (prep_original p)) True \<and> length (prep_original p) < 2 ^ 64"
      using use [OF q] wf_operationD(4) [OF wf [OF q]] k by (simp add: p u)
  qed
  ultimately show ?thesis by simp
qed

lemma smoke_rollback_outcome:
  assumes applied: "tr_status (fst (RunTransaction request backend s)) = kAppliedVerified"
    and single: "tx_operations request = [p]" "op_kind p = kWrite"
  shows "tr_status (fst (RunTransaction request (SmokeRollbackUnverifiedBackend backend) (s, 0))) =
    kRollbackUnverified"
proof -
  from applied obtain t u where run: "valid_request request"
    "validate_all backend (map address_of (tx_operations request)) (tx_operations request) s = (True, t)"
    "read_all backend (map address_of (tx_operations request)) (tx_operations request) t =
      (Some (map op_expected (tx_operations request)), u)"
    by (rule applied_run) blast
  from run(3) have "Read backend t (address_of p) (length (op_expected p)) = (Some (op_expected p), u)"
    by (auto simp: single split: prod.splits option.splits)
  then have "read_all (SmokeRollbackUnverifiedBackend backend) (map address_of (tx_operations request))
      (tx_operations request) (t, 0) = (Some (map op_expected (tx_operations request)), (u, 1))"
    by (simp add: single SmokeRollbackUnverifiedBackend_def)
  with run have "RunTransaction request (SmokeRollbackUnverifiedBackend backend) (s, 0) =
      apply_loop (tx_operations request) 0 (prepared_of (tx_operations request)) []
        (initial_results (length (tx_operations request)))
        (SmokeRollbackUnverifiedBackend backend) (u, 1)"
    by (intro RunTransaction_run) (auto simp: validate_all_smoke)
  moreover have "tr_status (fst (RollBack prepared [0] results (SmokeRollbackUnverifiedBackend backend) (v, Suc n))) =
      kRollbackUnverified" for prepared results v n
    by (auto simp: RollBack_def SmokeRollbackUnverifiedBackend_def split: prod.splits)
  ultimately show ?thesis
    by (auto simp: single Let_def SmokeRollbackUnverifiedBackend_def split: prod.splits bool.splits)
qed

end

section \<open>The fake backend of the smoke test\<close>

text \<open>memory_transaction_smoke.cpp: 256 bytes, call records and fault flags. The \<open>int\<close> counters
  stay far below overflow in any run of a transaction.\<close>

record FakeMemoryBackend =
  fake_bytes :: memory
  write_calls :: int
  read_calls :: int
  fail_write_index :: int
  fail_verification_read :: bool
  fail_restore :: bool
  fail_restore_read :: bool
  rollback_started :: bool
  write_addresses :: "addr list"
  apply_calls :: "string list"
  validation_modes :: "bool list"

definition fake_original :: memory where
  "fake_original a = ucast a"

definition fake_reset :: FakeMemoryBackend where
  "fake_reset = \<lparr>fake_bytes = fake_original, write_calls = 0, read_calls = 0, fail_write_index = -1,
     fail_verification_read = False, fail_restore = False, fail_restore_read = False,
     rollback_started = False, write_addresses = [], apply_calls = [], validation_modes = []\<rparr>"

definition fake_Validate :: "FakeMemoryBackend \<Rightarrow> addr \<Rightarrow> nat \<Rightarrow> bool \<Rightarrow> bool \<times> FakeMemoryBackend" where
  "fake_Validate b address n writable =
     (unat address \<le> 256 \<and> n \<le> 256 - unat address,
      b\<lparr>validation_modes := validation_modes b @ [writable]\<rparr>)"

definition fake_Read ::
  "FakeMemoryBackend \<Rightarrow> addr \<Rightarrow> nat \<Rightarrow> byte list option \<times> FakeMemoryBackend" where
  "fake_Read b address n =
     (let b = b\<lparr>read_calls := read_calls b + 1\<rparr>;
          b = (if write_calls b > 0
               then b\<lparr>apply_calls := apply_calls b @ [''read:'' @ to_dec (unat address)]\<rparr> else b)
      in if fail_verification_read b \<and> write_calls b > 0 \<and> \<not> rollback_started b
         then (None, b\<lparr>fail_verification_read := False, rollback_started := True\<rparr>)
         else if fail_restore_read b \<and> rollback_started b then (None, b)
         else let (ok, b) = fake_Validate b address n False
              in (if ok then Some (mem_read (fake_bytes b) address n) else None, b))"

definition fake_Write ::
  "FakeMemoryBackend \<Rightarrow> addr \<Rightarrow> byte list \<Rightarrow> bool \<times> FakeMemoryBackend" where
  "fake_Write b address input =
     (let call_index = write_calls b;
          b = b\<lparr>write_calls := write_calls b + 1,
                write_addresses := write_addresses b @ [address],
                apply_calls := apply_calls b @ [''write:'' @ to_dec (unat address)]\<rparr>
      in if \<not> rollback_started b \<and> call_index = fail_write_index b
         then (False, b\<lparr>rollback_started := True\<rparr>)
         else if rollback_started b \<and> fail_restore b then (False, b)
         else let (ok, b) = fake_Validate b address (length input) True
              in if \<not> ok then (False, b)
                 else (True, b\<lparr>fake_bytes := mem_write (fake_bytes b) address input\<rparr>))"

definition fake_backend :: "FakeMemoryBackend MemoryBackend" where
  "fake_backend = \<lparr>Validate = fake_Validate, Read = fake_Read, Write = fake_Write\<rparr>"

lemmas fake_defs = fake_backend_def fake_Validate_def fake_Read_def fake_Write_def

interpretation fake: memory_backend fake_backend fake_bytes
  by unfold_locales (auto simp: fake_defs Let_def mem_write_outside split: if_splits)

context memory_backend
begin

lemma initial_invariant:
  assumes "valid_request request" and "mem t = mem s"
    and "\<And>p. p \<in> set (tx_operations request) \<Longrightarrow>
         mem_read (mem s) (address_of p) (length (op_expected p)) = op_expected p"
  shows "loop_invariant (mem s)
      {i. i < length (tx_operations request) \<and> op_kind (tx_operations request ! i) = kWrite}
      (prepared_of (tx_operations request)) [] 0 (tx_operations request) t"
  using assms wf_operation_lengths(1)
  by (auto simp: loop_invariant_def valid_request_def list_all_length)

lemma write_slots:
  "(\<Union>i \<in> {i. i < length ops \<and> op_kind (ops ! i) = kWrite}. slot (prepared_of ops) i) = write_set ops"
  by (force simp: write_set_def slot_def range_set_def in_set_conv_nth)

lemma initial_results_length [simp]: "length (initial_results n) = n"
  by (simp add: initial_results_def)

lemma initial_results_fresh: "i < n \<Longrightarrow> \<not> res_applied (initial_results n ! i)"
  by (simp add: initial_results_def)

lemma run_frame:
  assumes "RunTransaction request backend s = (r, s')"
  shows "tr_status r \<in> {kRejected, kRolledBackVerified} \<Longrightarrow> mem s' = mem s"
    and "x \<notin> write_set (tx_operations request) \<Longrightarrow> mem s' x = mem s x"
proof -
  have "(tr_status r \<in> {kRejected, kRolledBackVerified} \<longrightarrow> mem s' = mem s) \<and>
    (\<forall>x. x \<notin> write_set (tx_operations request) \<longrightarrow> mem s' x = mem s x)"
    using assms
  proof (cases rule: RunTransaction_cases)
    case (run t)
    from apply_loop_invariant [OF run(4) initial_invariant [OF run(1-3)]] show ?thesis
      by (auto simp: write_slots)
  qed simp
  then show "tr_status r \<in> {kRejected, kRolledBackVerified} \<Longrightarrow> mem s' = mem s"
    and "x \<notin> write_set (tx_operations request) \<Longrightarrow> mem s' x = mem s x" by blast+
qed

lemma run_report:
  assumes "RunTransaction request backend s = (r, s')"
  shows "if tr_status r = kAppliedVerified
    then tr_operations r = map2 report_of (initial_results (length (tx_operations request))) (tx_operations request)
    else \<not> list_ex res_applied (tr_operations r)"
  using assms
proof (cases rule: RunTransaction_cases)
  case (run t)
  from apply_loop_flags [OF run(4)] show ?thesis by (simp add: initial_results_fresh)
qed (simp add: Rejected_def)

lemma run_applied:
  assumes "RunTransaction request backend s = (r, s')" and "tr_status r = kAppliedVerified"
  shows "valid_request request"
    and "p \<in> set (tx_operations request) \<Longrightarrow>
      mem_read (mem s) (address_of p) (length (op_expected p)) = op_expected p \<and>
      mem_read (mem s') (address_of p) (length (op_expected p)) =
        (if op_kind p = kWrite then op_replacement p else op_expected p)"
proof -
  have "valid_request request \<and> (\<forall>p \<in> set (tx_operations request).
      mem_read (mem s) (address_of p) (length (op_expected p)) = op_expected p \<and>
      mem_read (mem s') (address_of p) (length (op_expected p)) =
        (if op_kind p = kWrite then op_replacement p else op_expected p))"
    using assms(1)
  proof (cases rule: RunTransaction_cases)
    case (reject c)
    with assms(2) show ?thesis by (simp add: Rejected_def)
  next
    case (run t)
    let ?ops = "tx_operations request"
    have "mem s' = store_all (zip (prepared_of ?ops) ?ops) (mem s)"
      using apply_loop_stores [OF run(4) _ assms(2)] run(2) by simp
    moreover from run(1) have "list_all wf_operation ?ops"
        "sorted_wrt (\<lambda>p q. range_set p \<inter> range_set q = {}) ?ops"
      by (simp_all add: valid_request_def)
    ultimately show ?thesis using run(1,3) store_all_read [of ?ops _ "mem s"] by auto
  qed
  then show "valid_request request"
    and "p \<in> set (tx_operations request) \<Longrightarrow>
      mem_read (mem s) (address_of p) (length (op_expected p)) = op_expected p \<and>
      mem_read (mem s') (address_of p) (length (op_expected p)) =
        (if op_kind p = kWrite then op_replacement p else op_expected p)"
    by blast+
qed

end

text \<open>A process of two pages and two requests on it.\<close>

definition sample_process :: process where
  "sample_process = \<lparr>pages = sample_space, ram = \<lambda>_. 0\<rparr>"

definition sample_write :: TransactionOperation where
  "sample_write = \<lparr>op_address = FormatAddress 0x10000, op_expected = [0, 0],
     op_replacement = [1, 2], op_kind = kWrite\<rparr>"

definition sample_verify :: TransactionOperation where
  "sample_verify = \<lparr>op_address = FormatAddress 0x11000, op_expected = [0],
     op_replacement = [], op_kind = kVerifyOnly\<rparr>"

definition sample_request :: "TransactionOperation list \<Rightarrow> TransactionRequest" where
  "sample_request ops = \<lparr>transaction_id = ''smoke.valid-1'', tx_operations = ops\<rparr>"

lemmas sample_defs = sample_write_def sample_verify_def sample_request_def

lemma sample_addresses [simp]:
  "address_of sample_write = 0x10000" "address_of sample_verify = 0x11000"
  by (simp_all add: address_of_def sample_defs ParseAddress_tx_FormatAddress)

lemma sample_wf: "wf_operation sample_write" "wf_operation sample_verify"
  by (auto simp: wf_operation_def sample_defs kMaxOperationBytes_def intro!: exI)

lemma sample_valid:
  "valid_request (sample_request [sample_write])"
  "valid_request (sample_request [sample_verify, sample_write])"
  by (auto simp: valid_request_def sample_request_def sample_wf IsValidTransactionId_def is_id_char_def
      kMaxTransactionOperations_def kMaxTransactionBytes_def total_bytes_def range_set_iff,
      auto simp: sample_defs)

lemma sample_usable:
  "windows_usable sample_process 0x10000 2 True" "windows_usable sample_process 0x11000 1 False"
  by (auto simp: windows_usable_def space.validate_usable usable_at_def sample_process_def sample_query
      sample_region_def IsReadableProtection_def WritableProtection_def win_constants)

lemma sample_applied:
  "tr_status (fst (RunTransaction (sample_request [sample_write]) (ProcessMemoryBackend windows) sample_process)) =
     kAppliedVerified"
  "tr_status (fst (RunTransaction (sample_request [sample_verify, sample_write]) (ProcessMemoryBackend windows) sample_process)) =
     kAppliedVerified"
  unfolding win_reliable.RunTransaction_outcome
  using sample_valid sample_usable
  by (auto simp: sample_request_def, auto simp: sample_write_def sample_verify_def sample_process_def
      mem_read_def numeral_2_eq_2)

section \<open>Properties\<close>

text \<open>C6: atomicity. A transaction that is rejected, or that reports a verified rollback, leaves the
  memory exactly as it was, whatever a failed write of the backend stored in its range.\<close>

theorem transaction_atomic:
  assumes "memory_backend backend mem" and "RunTransaction request backend s = (r, s')"
    and "tr_status r = kRejected \<or> tr_status r = kRolledBackVerified"
  shows "mem s' = mem s"
  using memory_backend.run_frame(1) [OF assms(1,2)] assms(3) by blast

theorem transaction_atomic_witness:
  "let run = RunTransaction (sample_request [sample_verify, sample_write])
       (SmokeApplyFailureBackend (ProcessMemoryBackend windows)) (sample_process, 0)
   in tr_status (fst run) = kRolledBackVerified \<and> ram (fst (snd run)) = (\<lambda>_. 0)"
proof -
  let ?run = "RunTransaction (sample_request [sample_verify, sample_write])
       (SmokeApplyFailureBackend (ProcessMemoryBackend windows)) (sample_process, 0)"
  have status: "tr_status (fst ?run) = kRolledBackVerified"
    by (rule win_reliable.smoke_apply_outcome [OF sample_applied(2)])
      (simp add: sample_request_def sample_write_def)
  with transaction_atomic [OF win.smoke_apply_backend, of "sample_request [sample_verify, sample_write]"
      "(sample_process, 0)" "fst ?run" "snd ?run"]
  show ?thesis by (simp add: Let_def sample_process_def)
qed

text \<open>C7: success. When a transaction reports \<open>applied_verified\<close>, its request was well formed with
  pairwise disjoint ranges, every operation found its expected bytes, every write's replacement and
  every verified range's bytes are in memory afterwards, and no other byte changed.\<close>

theorem transaction_applied:
  assumes "memory_backend backend mem" and "RunTransaction request backend s = (r, s')"
    and "tr_status r = kAppliedVerified"
  shows "valid_request request \<and>
    (\<forall>p \<in> set (tx_operations request).
      mem_read (mem s) (address_of p) (length (op_expected p)) = op_expected p \<and>
      mem_read (mem s') (address_of p) (length (op_expected p)) =
        (if op_kind p = kWrite then op_replacement p else op_expected p)) \<and>
    (\<forall>x. x \<notin> write_set (tx_operations request) \<longrightarrow> mem s' x = mem s x)"
  using memory_backend.run_applied [OF assms] memory_backend.run_frame(2) [OF assms(1,2)] by blast

theorem transaction_applied_witness:
  "mem_read (ram (snd (RunTransaction (sample_request [sample_verify, sample_write])
     (ProcessMemoryBackend windows) sample_process))) 0x10000 2 = [1, 2]"
proof -
  let ?run = "RunTransaction (sample_request [sample_verify, sample_write])
     (ProcessMemoryBackend windows) sample_process"
  from transaction_applied [OF win.memory_backend_axioms, of "sample_request [sample_verify, sample_write]"
      sample_process "fst ?run" "snd ?run"] sample_applied(2)
  show ?thesis by (simp add: sample_request_def) (simp add: sample_write_def numeral_2_eq_2)
qed



text \<open>C8: exact outcome. On a backend that reads and writes what it validated, a transaction is
  applied exactly when the request is well formed, every range validates and every expected byte
  is found; otherwise it is rejected, and a rollback never happens.\<close>

theorem transaction_outcome:
  assumes "reliable_backend backend mem usable"
  shows "tr_status (fst (RunTransaction request backend s)) =
    (if valid_request request \<and>
        (\<forall>p \<in> set (tx_operations request).
           usable s (address_of p) (length (op_expected p)) (op_kind p = kWrite) \<and>
           mem_read (mem s) (address_of p) (length (op_expected p)) = op_expected p)
     then kAppliedVerified else kRejected)"
  by (rule reliable_backend.RunTransaction_outcome [OF assms])

theorem transaction_outcome_witness:
  "tr_status (fst (RunTransaction (sample_request [sample_write]) (ProcessMemoryBackend windows)
     sample_process)) = kAppliedVerified \<and>
   tr_status (fst (RunTransaction (sample_request [sample_write, sample_write])
     (ProcessMemoryBackend windows) sample_process)) = kRejected"
proof -
  have "0x10000 \<in> range_set sample_write"
    by (simp add: range_set_iff sample_wf) (simp add: sample_write_def)
  then have "\<not> valid_request (sample_request [sample_write, sample_write])"
    by (auto simp: valid_request_def sample_request_def)
  then show ?thesis
    unfolding transaction_outcome [OF win_reliable.reliable_backend_axioms]
    using sample_valid(1) sample_usable(1)
    by (simp add: sample_request_def) (simp add: sample_write_def sample_process_def mem_read_def
        numeral_2_eq_2)
qed

text \<open>C10: injected faults. Over a backend on which the transaction would be applied, the
  apply-failure wrapper turns it into a verified rollback, and the rollback-failure wrapper turns a
  single write into an unverified rollback.\<close>

theorem transaction_injected_faults:
  assumes "reliable_backend backend mem usable"
    and "tr_status (fst (RunTransaction request backend s)) = kAppliedVerified"
    and "\<exists>p \<in> set (tx_operations request). op_kind p = kWrite"
  shows "tr_status (fst (RunTransaction request (SmokeApplyFailureBackend backend) (s, 0))) =
      kRolledBackVerified \<and>
    (length (tx_operations request) = 1 \<longrightarrow>
      tr_status (fst (RunTransaction request (SmokeRollbackUnverifiedBackend backend) (s, 0))) =
        kRollbackUnverified)"
  using reliable_backend.smoke_apply_outcome [OF assms]
    reliable_backend.smoke_rollback_outcome [OF assms(1,2)] assms(3)
  by (auto simp: length_Suc_conv)

theorem transaction_injected_faults_witness:
  "tr_status (fst (RunTransaction (sample_request [sample_write])
     (SmokeRollbackUnverifiedBackend (ProcessMemoryBackend windows)) (sample_process, 0))) =
   kRollbackUnverified"
  using transaction_injected_faults [OF win_reliable.reliable_backend_axioms sample_applied(1)]
  by (simp add: sample_request_def sample_write_def)

end
