(* ===== verification/Build_Policy.thy ===== *)
theory Build_Policy
  imports Prelude
begin

text \<open>
  The table of known game builds (game_builds.h, game_builds.cpp, game_builds.generated.h) and the
  policy that decides from the identified build, the anti-cheat state and the session whether
  writes and research watches are allowed (build_policy.cpp). A null \<open>const Build*\<close> is \<open>None\<close>.
\<close>

datatype Support = kDiagnostic | kCertified

record BoardLayout =
  generic_record_wrapper_vtable_rva :: addr
  recruiting_controller_vtable_rva :: addr
  full_add_rva :: addr
  full_remove_rva :: addr
  recruit_table_id :: u32
  team_table_id :: u32
  controller_descriptor_table_id :: u32
  user_target_table_id :: u32
  active_pitch_table_id :: u32
  membership_table_id :: u32

record Build =
  build_label :: string
  executable_size :: nat
  executable_sha256 :: string
  support :: Support
  board :: "BoardLayout option"

definition kGeneratedBuilds :: "Build list" where
  "kGeneratedBuilds =
     [\<lparr>build_label = ''july-11-2026'', executable_size = 247845776,
       executable_sha256 = ''9E654AD49C4702D8F9FA4E38FD1110ABE657DD38926D4124B30C70E7D29ADFE8'',
       support = kCertified,
       board = Some \<lparr>generic_record_wrapper_vtable_rva = 0xB093F68,
         recruiting_controller_vtable_rva = 0xB0B5BA8, full_add_rva = 0x8109060,
         full_remove_rva = 0x8166090, recruit_table_id = 0x10AD, team_table_id = 0x18BE,
         controller_descriptor_table_id = 0x138B, user_target_table_id = 0x1048,
         active_pitch_table_id = 0x169E, membership_table_id = 0x16D7\<rparr>\<rparr>,
      \<lparr>build_label = ''patch-1-2026-07-16'', executable_size = 249801616,
       executable_sha256 = ''A048578530F7ED5967DF38803B63AD9B9F04FC71287F1E151C901A94AB240BFD'',
       support = kCertified,
       board = Some \<lparr>generic_record_wrapper_vtable_rva = 0xB098088,
         recruiting_controller_vtable_rva = 0xB0B9D18, full_add_rva = 0x810AC70,
         full_remove_rva = 0x8168AA0, recruit_table_id = 0x10B1, team_table_id = 0x18B1,
         controller_descriptor_table_id = 0x138D, user_target_table_id = 0x104B,
         active_pitch_table_id = 0x1691, membership_table_id = 0x16CA\<rparr>\<rparr>]"

definition FindBuild :: "nat \<Rightarrow> string \<Rightarrow> Build option" where
  "FindBuild n uppercase_sha256 =
     find (\<lambda>build. executable_size build = n \<and> executable_sha256 build = uppercase_sha256)
       kGeneratedBuilds"

definition IsCertified :: "Build option \<Rightarrow> bool" where
  "IsCertified build = (case build of None \<Rightarrow> False | Some b \<Rightarrow> support b = kCertified)"

definition IsDiagnosticOrCertified :: "Build option \<Rightarrow> bool" where
  "IsDiagnosticOrCertified build =
     (case build of None \<Rightarrow> False | Some b \<Rightarrow> support b = kDiagnostic \<or> support b = kCertified)"

definition ResearchWatchesAllowed :: "Build option \<Rightarrow> bool \<Rightarrow> bool" where
  "ResearchWatchesAllowed build real_anticheat_running \<longleftrightarrow>
     IsDiagnosticOrCertified build \<and> \<not> real_anticheat_running"

definition WritesAllowed :: "Build option \<Rightarrow> bool \<Rightarrow> bool \<Rightarrow> bool \<Rightarrow> bool" where
  "WritesAllowed build real_anticheat_running session_writes_disabled smoke_override \<longleftrightarrow>
     (IsCertified build \<or> smoke_override) \<and> \<not> real_anticheat_running \<and> \<not> session_writes_disabled"

text \<open>The table identifies a build by size and digest: no two rows agree in either.\<close>

lemma generated_builds_distinct:
  "distinct (map executable_size kGeneratedBuilds)" "distinct (map executable_sha256 kGeneratedBuilds)"
  by (simp_all add: kGeneratedBuilds_def)

text \<open>C11: the write gate. Writes need the anti-cheat absent and the session open; outside smoke
  runs they also need an executable whose size and digest are those of a certified row of the table,
  and such an identity always allows research watches too.\<close>

theorem write_gate:
  "WritesAllowed (FindBuild n sha) anticheat disabled smoke \<longleftrightarrow>
     \<not> anticheat \<and> \<not> disabled \<and>
     (smoke \<or> (n, sha) \<in> (\<lambda>b. (executable_size b, executable_sha256 b)) `
        {b \<in> set kGeneratedBuilds. support b = kCertified})"
proof -
  have all: "b \<in> set kGeneratedBuilds \<Longrightarrow> support b = kCertified" for b
    by (auto simp: kGeneratedBuilds_def)
  let ?P = "\<lambda>b. executable_size b = n \<and> executable_sha256 b = sha"
  have "IsCertified (FindBuild n sha) \<longleftrightarrow> (\<exists>b. b \<in> set kGeneratedBuilds \<and> ?P b)"
  proof (cases "find ?P kGeneratedBuilds")
    case None
    then show ?thesis using find_None [of ?P kGeneratedBuilds] by (simp add: FindBuild_def IsCertified_def)
  next
    case (Some b)
    then have "b \<in> set kGeneratedBuilds \<and> ?P b" by (rule find_Some_iff)
    moreover from this have "support b = kCertified" using all by blast
    ultimately show ?thesis using Some by (auto simp only: FindBuild_def IsCertified_def option.case)
  qed
  also have "\<dots> \<longleftrightarrow> (n, sha) \<in> (\<lambda>b. (executable_size b, executable_sha256 b)) `
        {b \<in> set kGeneratedBuilds. support b = kCertified}"
    using all by blast
  finally show ?thesis unfolding WritesAllowed_def by blast
qed

end
