(* ===== verification/Pattern_Matcher.thy ===== *)
theory Pattern_Matcher
  imports Prelude
begin

text \<open>
  The masked pattern matcher of the memory scanner (memory_reader.cpp, namespace \<open>detail\<close>). A
  pattern and a mask are compiled to a list of checks, one for each masked byte, with a fully masked
  byte moved to the front as the anchor; \<open>FindNext\<close> skips to the next anchor with \<open>memchr\<close> and runs
  the checks there, counting candidates and comparisons. The property is the equivalence with the
  specification: the first candidate at which every masked byte agrees.
\<close>

record Check =
  check_offset :: nat
  check_mask :: byte
  check_value :: byte

record MaskedPatternMatcher =
  pattern_size :: nat
  checks :: "Check list"

record MatchStatistics =
  candidates_checked :: nat
  selected_byte_comparisons :: nat

definition selected_byte_count :: "MaskedPatternMatcher \<Rightarrow> nat" where
  "selected_byte_count matcher = length (checks matcher)"

definition anchor_offset :: "MaskedPatternMatcher \<Rightarrow> nat" where
  "anchor_offset matcher = (case checks matcher of [] \<Rightarrow> 0 | c # _ \<Rightarrow> check_offset c)"

definition checks_of :: "byte list \<Rightarrow> byte list \<Rightarrow> Check list" where
  "checks_of pattern mask_bytes =
     map (\<lambda>i. \<lparr>check_offset = i, check_mask = mask_bytes ! i,
               check_value = pattern ! i AND mask_bytes ! i\<rparr>)
       (filter (\<lambda>i. mask_bytes ! i \<noteq> 0) [0..<length mask_bytes])"

text \<open>\<open>std::find_if\<close> and \<open>std::iter_swap\<close> with the front.\<close>

fun index_if :: "('a \<Rightarrow> bool) \<Rightarrow> 'a list \<Rightarrow> nat" where
  "index_if P [] = 0"
| "index_if P (x # xs) = (if P x then 0 else Suc (index_if P xs))"

definition swap_front :: "nat \<Rightarrow> 'a list \<Rightarrow> 'a list" where
  "swap_front i xs = xs[0 := xs ! i, i := xs ! 0]"

definition CompileMaskedPattern :: "byte list \<Rightarrow> byte list \<Rightarrow> MaskedPatternMatcher option" where
  "CompileMaskedPattern pattern mask_bytes =
     (if pattern = [] \<or> length pattern \<noteq> length mask_bytes then None
      else let cs = checks_of pattern mask_bytes;
               full_anchor = index_if (\<lambda>c. check_mask c = 0xFF) cs
           in Some \<lparr>pattern_size = length pattern,
                checks = (if full_anchor < length cs then swap_front full_anchor cs else cs)\<rparr>)"

text \<open>The inner loop: the checks in order until one fails. Returns the verdict and the number of
  comparisons.\<close>

fun run_checks :: "Check list \<Rightarrow> byte list \<Rightarrow> nat \<Rightarrow> bool \<times> nat" where
  "run_checks [] bytes candidate = (True, 0)"
| "run_checks (c # cs) bytes candidate =
     (if bytes ! (candidate + check_offset c) AND check_mask c \<noteq> check_value c then (False, 1)
      else let (matches, n) = run_checks cs bytes candidate in (matches, Suc n))"

text \<open>\<open>std::memchr\<close>: the position of the first \<open>v\<close> among the \<open>count\<close> bytes from \<open>start\<close>.\<close>

definition memchr :: "byte list \<Rightarrow> nat \<Rightarrow> byte \<Rightarrow> nat \<Rightarrow> nat option" where
  "memchr bytes start v count = find (\<lambda>i. bytes ! (start + i) = v) [0..<count]"

definition count_match :: "nat \<Rightarrow> MatchStatistics option \<Rightarrow> MatchStatistics option" where
  "count_match n = map_option (\<lambda>s. s\<lparr>candidates_checked := candidates_checked s + 1,
     selected_byte_comparisons := selected_byte_comparisons s + n\<rparr>)"

function find_loop ::
  "Check list \<Rightarrow> byte list \<Rightarrow> nat \<Rightarrow> nat \<Rightarrow> MatchStatistics option \<Rightarrow>
     nat option \<times> MatchStatistics option" where
  "find_loop cs bytes candidate candidate_end statistics =
     (if candidate < candidate_end then
        let anchor = hd cs;
            skip = (if check_mask anchor = 0xFF
                    then memchr bytes (candidate + check_offset anchor) (check_value anchor)
                           (candidate_end - candidate)
                    else Some 0)
        in (case skip of
              None \<Rightarrow> (None, statistics)
            | Some n \<Rightarrow>
                let candidate = candidate + n;
                    (matches, compared) = run_checks cs bytes candidate;
                    statistics = count_match compared statistics
                in if matches then (Some candidate, statistics)
                   else find_loop cs bytes (Suc candidate) candidate_end statistics)
      else (None, statistics))"
  by pat_completeness auto
termination
  by (relation "measure (\<lambda>(cs, bytes, candidate, candidate_end, st). candidate_end - candidate)") auto

declare find_loop.simps [simp del]

definition FindNext ::
  "MaskedPatternMatcher \<Rightarrow> byte list \<Rightarrow> nat \<Rightarrow> nat \<Rightarrow> MatchStatistics option \<Rightarrow>
     nat option \<times> MatchStatistics option" where
  "FindNext matcher bytes first_candidate candidate_end statistics =
     (if first_candidate \<ge> candidate_end \<or> pattern_size matcher > length bytes \<or>
         candidate_end > length bytes - pattern_size matcher + 1
      then (None, statistics)
      else if checks matcher = [] then (Some first_candidate, statistics)
      else find_loop (checks matcher) bytes first_candidate candidate_end statistics)"

section \<open>The specification\<close>

definition masked_match :: "byte list \<Rightarrow> byte list \<Rightarrow> byte list \<Rightarrow> nat \<Rightarrow> bool" where
  "masked_match pattern mask_bytes bytes k \<longleftrightarrow>
     list_all (\<lambda>i. bytes ! (k + i) AND mask_bytes ! i = pattern ! i AND mask_bytes ! i)
       [0..<length pattern]"

definition check_ok :: "byte list \<Rightarrow> nat \<Rightarrow> Check \<Rightarrow> bool" where
  "check_ok bytes k c \<longleftrightarrow> bytes ! (k + check_offset c) AND check_mask c = check_value c"

lemma run_checks_verdict: "fst (run_checks cs bytes k) \<longleftrightarrow> list_all (check_ok bytes k) cs"
  by (induction cs) (auto simp: check_ok_def split: prod.splits)

lemma run_checks_count: "snd (run_checks cs bytes k) \<le> length cs"
  by (induction cs) (auto split: prod.splits)

lemma list_all_checks_of:
  assumes "length pattern = length mask_bytes"
  shows "list_all (check_ok bytes k) (checks_of pattern mask_bytes) \<longleftrightarrow>
    masked_match pattern mask_bytes bytes k"
  using assms by (auto simp: list_all_iff checks_of_def check_ok_def masked_match_def)

lemma set_swap_front: "i < length xs \<Longrightarrow> set (swap_front i xs) = set xs"
  unfolding swap_front_def by (rule set_swap) auto

lemma length_swap_front [simp]: "length (swap_front i xs) = length xs"
  by (simp add: swap_front_def)

lemma find_upt_skip:
  "m \<le> n \<Longrightarrow> n \<le> e \<Longrightarrow> (\<And>i. m \<le> i \<Longrightarrow> i < n \<Longrightarrow> \<not> P i) \<Longrightarrow> find P [m..<e] = find P [n..<e]"
  by (induction "n - m" arbitrary: m) (auto simp: upt_conv_Cons)

lemma find_upt_Some:
  assumes "find P [m..<e] = Some n"
  shows "m \<le> n \<and> n < e \<and> P n \<and> (\<forall>i. m \<le> i \<and> i < n \<longrightarrow> \<not> P i)"
proof -
  from assms obtain j where j: "j < e - m" "P (m + j)" "n = m + j" "\<forall>i < j. \<not> P ([m..<e] ! i)"
    by (auto simp: List.find_Some_iff)
  have "\<not> P i" if "m \<le> i" "i < n" for i
    using j(4) [THEN spec, of "i - m"] j(1,3) that by auto
  with j show ?thesis by auto
qed

lemma find_upt_None: "find P [m..<e] = None \<longleftrightarrow> (\<forall>i. m \<le> i \<and> i < e \<longrightarrow> \<not> P i)"
  by (auto simp: find_None)

text \<open>The anchor must match wherever all checks do, so skipping to it loses no candidate.\<close>

lemma full_mask_check: "check_mask c = 0xFF \<Longrightarrow> check_ok bytes k c \<longleftrightarrow> bytes ! (k + check_offset c) = check_value c"
  using take_bit_word_eq_self [of 8 "bytes ! (k + check_offset c)"]
    and_mask_take_bit [of "bytes ! (k + check_offset c)" 8]
  by (simp add: check_ok_def mask_eq_exp_minus_1)

lemma find_loop_find:
  assumes "cs \<noteq> []"
  shows "fst (find_loop cs bytes k e st) = find (\<lambda>k. list_all (check_ok bytes k) cs) [k..<e]"
  using assms
proof (induction cs bytes k e st rule: find_loop.induct)
  case (1 cs bytes k e st)
  let ?P = "\<lambda>k. list_all (check_ok bytes k) cs"
  let ?skip = "if check_mask (hd cs) = 0xFF
      then memchr bytes (k + check_offset (hd cs)) (check_value (hd cs)) (e - k) else Some 0"
  show ?case
  proof (cases "k < e")
    case False
    then show ?thesis by (simp add: find_loop.simps [of cs bytes k e st])
  next
    case k: True
    have anchored: "bytes ! (j + check_offset (hd cs)) = check_value (hd cs)"
      if "?P j" "check_mask (hd cs) = 0xFF" for j
    proof -
      have "check_ok bytes j (hd cs)" using that(1) "1.prems" by (cases cs) simp_all
      with that(2) show ?thesis by (simp add: full_mask_check)
    qed
    show ?thesis
    proof (cases ?skip)
      case None
      then have full: "check_mask (hd cs) = 0xFF"
        and none: "memchr bytes (k + check_offset (hd cs)) (check_value (hd cs)) (e - k) = None"
        by (auto split: if_splits)
      have "\<not> ?P j" if "k \<le> j" "j < e" for j
      proof
        assume "?P j"
        moreover have "j + check_offset (hd cs) = k + check_offset (hd cs) + (j - k)" using that by simp
        ultimately have "bytes ! (k + check_offset (hd cs) + (j - k)) = check_value (hd cs)"
          using anchored [OF _ full, of j] by metis
        with that none show False
          unfolding memchr_def find_None by (auto dest!: spec [where x = "j - k"])
      qed
      then have "find ?P [k..<e] = None" by (simp add: find_upt_None)
      moreover have "fst (find_loop cs bytes k e st) = None"
        using k full none by (simp add: find_loop.simps [of cs bytes k e st] Let_def)
      ultimately show ?thesis by simp
    next
      case (Some n)
      have n: "k + n < e" and before: "\<And>j. k \<le> j \<Longrightarrow> j < k + n \<Longrightarrow> \<not> ?P j"
      proof -
        show "k + n < e"
          using Some k by (auto simp: memchr_def split: if_splits dest: find_upt_Some)
        fix j
        assume j: "k \<le> j" "j < k + n"
        then have full: "check_mask (hd cs) = 0xFF" using Some by (auto split: if_splits)
        with Some have "find (\<lambda>i. bytes ! (k + check_offset (hd cs) + i) = check_value (hd cs)) [0..<e - k] = Some n"
          by (simp add: memchr_def)
        moreover have "j - k < n" using j by simp
        ultimately have "bytes ! (k + check_offset (hd cs) + (j - k)) \<noteq> check_value (hd cs)"
          using find_upt_Some [of "\<lambda>i. bytes ! (k + check_offset (hd cs) + i) = check_value (hd cs)" 0 "e - k" n]
          by blast
        moreover have "k + check_offset (hd cs) + (j - k) = j + check_offset (hd cs)" using j by simp
        ultimately show "\<not> ?P j" using anchored [OF _ full, of j] by metis
      qed
      have skip: "find ?P [k..<e] = find ?P [k + n..<e]"
        using n before by (intro find_upt_skip) auto
      obtain ok compared where rc: "run_checks cs bytes (k + n) = (ok, compared)" by (metis surj_pair)
      then have ok: "ok \<longleftrightarrow> ?P (k + n)" using run_checks_verdict [of cs bytes "k + n"] by simp
      have step: "find ?P [k + n..<e] = (if ?P (k + n) then Some (k + n) else find ?P [Suc (k + n)..<e])"
        using n by (simp add: upt_conv_Cons)
      show ?thesis
      proof (cases ok)
        case True
        with k Some rc have "fst (find_loop cs bytes k e st) = Some (k + n)"
          by (simp add: find_loop.simps [of cs bytes k e st] Let_def)
        with skip step True ok show ?thesis by simp
      next
        case False
        have "fst (find_loop cs bytes (Suc (k + n)) e (count_match compared st)) = find ?P [Suc (k + n)..<e]"
          using "1.IH" [OF k refl refl Some refl rc [symmetric] refl refl] "1.prems" False by simp
        with k Some rc False skip step ok show ?thesis
          by (simp add: find_loop.simps [of cs bytes k e st] Let_def)
      qed
    qed
  qed
qed

lemma index_if_nth: "index_if P xs < length xs \<Longrightarrow> P (xs ! index_if P xs)"
  by (induction xs) auto

lemma Compile_checks:
  assumes "CompileMaskedPattern pattern mask_bytes = Some matcher"
  shows "pattern \<noteq> []" "length pattern = length mask_bytes" "pattern_size matcher = length pattern"
    "set (checks matcher) = set (checks_of pattern mask_bytes)"
    "length (checks matcher) = length (checks_of pattern mask_bytes)"
  using assms
  by (auto simp: CompileMaskedPattern_def Let_def set_swap_front split: if_splits)

lemma Compile_match:
  assumes "CompileMaskedPattern pattern mask_bytes = Some matcher"
  shows "list_all (check_ok bytes k) (checks matcher) \<longleftrightarrow> masked_match pattern mask_bytes bytes k"
  using Compile_checks [OF assms] list_all_checks_of [of pattern mask_bytes bytes k]
  by (simp add: list_all_iff)

lemma FindNext_find:
  assumes "CompileMaskedPattern pattern mask_bytes = Some matcher"
    and "length pattern \<le> length bytes" and "e \<le> length bytes - length pattern + 1"
  shows "fst (FindNext matcher bytes k e st) = find (masked_match pattern mask_bytes bytes) [k..<e]"
proof (cases "k < e")
  case False
  then show ?thesis by (simp add: FindNext_def)
next
  case k: True
  have eq: "(\<lambda>k. list_all (check_ok bytes k) (checks matcher)) = masked_match pattern mask_bytes bytes"
    using Compile_match [OF assms(1)] by auto
  show ?thesis
  proof (cases "checks matcher = []")
    case True
    then have "masked_match pattern mask_bytes bytes k" using fun_cong [OF eq, of k] by simp
    then have "find (masked_match pattern mask_bytes bytes) [k..<e] = Some k"
      using k by (simp add: upt_conv_Cons)
    with True k assms Compile_checks(3) [OF assms(1)] show ?thesis by (simp add: FindNext_def)
  next
    case False
    with k assms Compile_checks(3) [OF assms(1)] show ?thesis
      by (simp add: FindNext_def find_loop_find [OF False] eq)
  qed
qed

text \<open>The work counted for a search.\<close>

definition counted :: "MatchStatistics \<Rightarrow> MatchStatistics \<Rightarrow> nat \<Rightarrow> nat \<Rightarrow> bool" where
  "counted before after candidates n \<longleftrightarrow>
     (\<exists>c compared. candidates_checked after = candidates_checked before + c \<and> c \<le> candidates \<and>
        selected_byte_comparisons after = selected_byte_comparisons before + compared \<and>
        compared \<le> n * c)"

lemma countedI:
  "candidates_checked after = candidates_checked before + c \<Longrightarrow> c \<le> candidates \<Longrightarrow>
   selected_byte_comparisons after = selected_byte_comparisons before + compared \<Longrightarrow>
   compared \<le> n * c \<Longrightarrow> counted before after candidates n"
  by (auto simp: counted_def)

lemma find_loop_counted:
  "\<exists>after. snd (find_loop cs bytes k e (Some before)) = Some after \<and> counted before after (e - k) (length cs)"
proof (induction "e - k" arbitrary: k before rule: less_induct)
  case less
  let ?skip = "if check_mask (hd cs) = 0xFF
      then memchr bytes (k + check_offset (hd cs)) (check_value (hd cs)) (e - k) else Some 0"
  show ?case
  proof (cases "k < e \<and> ?skip \<noteq> None")
    case False
    have "counted before before (e - k) (length cs)" by (rule countedI [of _ _ 0 _ 0]) auto
    with False show ?thesis by (auto simp: find_loop.simps [of cs bytes k] Let_def)
  next
    case True
    then obtain n where k: "k < e" and n: "?skip = Some n" by blast
    obtain ok compared where rc: "run_checks cs bytes (k + n) = (ok, compared)" by (metis surj_pair)
    then have c: "compared \<le> length cs" using run_checks_count [of cs bytes "k + n"] by simp
    define mid where "mid = before\<lparr>candidates_checked := candidates_checked before + 1,
      selected_byte_comparisons := selected_byte_comparisons before + compared\<rparr>"
    have mid: "count_match compared (Some before) = Some mid" by (simp add: count_match_def mid_def)
    show ?thesis
    proof (cases ok)
      case True
      have "counted before mid (e - k) (length cs)"
        using k c by (intro countedI [of _ _ 1 _ compared]) (auto simp: mid_def)
      with k n rc mid True show ?thesis
        by (auto simp: find_loop.simps [of cs bytes k] Let_def)
    next
      case False
      have "e - Suc (k + n) < e - k" using k by simp
      from less [OF this, of mid] obtain after where
        a: "snd (find_loop cs bytes (Suc (k + n)) e (Some mid)) = Some after"
          "counted mid after (e - Suc (k + n)) (length cs)" by blast
      have "counted before after (e - k) (length cs)"
      proof -
        from a(2) obtain d m where d: "candidates_checked after = candidates_checked mid + d"
          "d \<le> e - Suc (k + n)" "selected_byte_comparisons after = selected_byte_comparisons mid + m"
          "m \<le> length cs * d" by (auto simp: counted_def)
        with c k show ?thesis
          by (intro countedI [of _ _ "Suc d" _ "compared + m"]) (auto simp: mid_def)
      qed
      with a(1) k n rc mid False show ?thesis
        by (auto simp: find_loop.simps [of cs bytes k] Let_def)
    qed
  qed
qed

lemma FindNext_counted:
  "\<exists>after. snd (FindNext matcher bytes k e (Some before)) = Some after \<and>
     counted before after (e - k) (selected_byte_count matcher)"
proof -
  have "counted before before n m" for n m by (rule countedI [of _ _ 0 _ 0]) auto
  then show ?thesis
    using find_loop_counted [of "checks matcher" bytes k e before]
    by (auto simp: FindNext_def selected_byte_count_def)
qed

text \<open>The matcher is the specification. For a compiled pattern and any candidates inside the
  bytes, \<open>FindNext\<close> returns the first candidate at which every masked byte of the pattern agrees, and
  nothing when there is none: the \<open>memchr\<close> skip and the moved anchor lose no match.\<close>

lemma FindNext_first_match:
  assumes "CompileMaskedPattern pattern mask_bytes = Some matcher"
    and "length pattern \<le> length bytes" and "candidate_end \<le> length bytes - length pattern + 1"
  shows "fst (FindNext matcher bytes first_candidate candidate_end statistics) =
    find (masked_match pattern mask_bytes bytes) [first_candidate..<candidate_end]"
  by (rule FindNext_find [OF assms])

lemma FindNext_first_match_witness:
  "fst (FindNext (the (CompileMaskedPattern [0x12, 0x34] [0x0F, 0xFF])) [0x34, 0x02, 0x99, 0x52, 0x34] 0 4 None) =
     Some 3"
proof -
  have "CompileMaskedPattern [0x12, 0x34] [0x0F, 0xFF] =
      Some (the (CompileMaskedPattern [0x12, 0x34] [0x0F, 0xFF]))"
    by (simp add: CompileMaskedPattern_def Let_def)
  from FindNext_first_match [OF this, of "[0x34, 0x02, 0x99, 0x52, 0x34]" 4 0 None]
  moreover have "find (masked_match [0x12, 0x34] [0x0F, 0xFF] [0x34, 0x02, 0x99, 0x52, 0x34]) [0..<4] = Some 3"
    by code_simp
  ultimately show ?thesis by simp
qed

text \<open>The cost of a search. A search checks at most one candidate per position and compares at
  most all selected bytes for each candidate it checks.\<close>

lemma FindNext_cost:
  "\<exists>after. snd (FindNext matcher bytes first_candidate candidate_end (Some before)) = Some after \<and>
     (\<exists>c compared. candidates_checked after = candidates_checked before + c \<and>
        c \<le> candidate_end - first_candidate \<and>
        selected_byte_comparisons after = selected_byte_comparisons before + compared \<and>
        compared \<le> selected_byte_count matcher * c)"
  using FindNext_counted [of matcher bytes first_candidate candidate_end before]
  by (simp add: counted_def)

end
