(* ===== verification/Memory_Reader.thy ===== *)
theory Memory_Reader
  imports Hex_Text Os_Calls Pattern_Matcher
begin

text \<open>
  Batch reads and the paged pattern scan of private memory (memory_reader.h, memory_reader.cpp).
  \<open>ReadMemoryBatch\<close> works on the operating-system calls of \<open>Os_Calls\<close>. \<open>ScanPrivateMemory\<close> sees one
  snapshot of the process: the record \<open>ScanEnv\<close> gives the region query, the bytes a read copies,
  the addresses the system maps buffers at, and the answers of the caller's \<open>should_cancel\<close> in the
  order it is called. A scan stops at 32 MiB with a cursor for the next page; a chunk is read with
  a lookahead of one pattern so that no match is lost at its end.
\<close>

definition kInvalidRequest :: string where "kInvalidRequest = ''INVALID_REQUEST''"
definition kMemoryAccessDenied :: string where "kMemoryAccessDenied = ''MEMORY_ACCESS_DENIED''"
definition kMinPatternBytes :: nat where "kMinPatternBytes = 8"
definition kMinFrtkPatternBytes :: nat where "kMinFrtkPatternBytes = 4"
definition kMaxMatches :: nat where "kMaxMatches = 64"
definition kMaxContextBytes :: nat where "kMaxContextBytes = 512"
definition kScanChunkBytes :: nat where "kScanChunkBytes = 4 * 1024 * 1024"
definition kMaxScanPageBytes :: nat where "kMaxScanPageBytes = 32 * 1024 * 1024"
definition kMaxReadRanges :: nat where "kMaxReadRanges = 64"
definition kMaxReadRangeBytes :: nat where "kMaxReadRangeBytes = 64 * 1024"
definition kMaxReadBytes :: nat where "kMaxReadBytes = 256 * 1024"
definition kMaxSafeDiagnosticCounter :: u64 where "kMaxSafeDiagnosticCounter = 9007199254740991"
definition kCancellationCandidateWindow :: nat where "kCancellationCandidateWindow = 4096"

definition SaturatingIncrement :: "u64 \<Rightarrow> u64" where
  "SaturatingIncrement v = (if v < kMaxSafeDiagnosticCounter then v + 1 else v)"

definition SaturatingAdd :: "u64 \<Rightarrow> u64 \<Rightarrow> u64" where
  "SaturatingAdd target v =
     (if v > kMaxSafeDiagnosticCounter - target then kMaxSafeDiagnosticCounter else target + v)"

section \<open>Batch reads\<close>

record ReadRange =
  rr_address :: string
  rr_length :: nat

record ReadResult =
  rd_address :: string
  rd_bytes :: "byte list"

record BatchReadResult =
  batch_ok :: bool
  batch_code :: string
  batch_ranges :: "ReadResult list"

record ValidatedRead =
  vr_address :: addr
  vr_length :: nat
  vr_formatted :: string

definition batch_failed :: "string \<Rightarrow> BatchReadResult" where
  "batch_failed c = \<lparr>batch_ok = False, batch_code = c, batch_ranges = []\<rparr>"

text \<open>The first loop. Sizes are \<open>std::size_t\<close>; the overflow guard is against its maximum.\<close>

fun validate_ranges :: "query \<Rightarrow> nat \<Rightarrow> ReadRange list \<Rightarrow> string + ValidatedRead list" where
  "validate_ranges VQ total_bytes [] = Inr []"
| "validate_ranges VQ total_bytes (rr # rest) =
     (case ParseAddress (rr_address rr) of
        None \<Rightarrow> Inl kInvalidRequest
      | Some a \<Rightarrow>
          if rr_length rr = 0 \<or> rr_length rr > kMaxReadRangeBytes \<or>
             rr_length rr > 2 ^ 64 - 1 - total_bytes \<or> total_bytes + rr_length rr > kMaxReadBytes
          then Inl kInvalidRequest
          else if AddOverflows a (word_of_nat (rr_length rr)) \<or>
                  \<not> IsWithinOneEligibleRegion VQ a (word_of_nat (rr_length rr))
          then Inl kMemoryAccessDenied
          else bindE (validate_ranges VQ (total_bytes + rr_length rr) rest) (\<lambda>vs.
            Inr (\<lparr>vr_address = a, vr_length = rr_length rr, vr_formatted = FormatAddress a\<rparr> # vs)))"

fun read_ranges :: "'s Os \<Rightarrow> ValidatedRead list \<Rightarrow> 's \<Rightarrow> ReadResult list option \<times> 's" where
  "read_ranges os [] s = (Some [], s)"
| "read_ranges os (rr # rest) s =
     (let ((ok, copied), s) = ReadProcessMemory os s (vr_address rr) (vr_length rr)
      in if \<not> ok \<or> length copied \<noteq> vr_length rr then (None, s)
         else (case read_ranges os rest s of
                 (None, s) \<Rightarrow> (None, s)
               | (Some reads, s) \<Rightarrow>
                   (Some (\<lparr>rd_address = vr_formatted rr, rd_bytes = copied\<rparr> # reads), s)))"

definition ReadMemoryBatch :: "'s Os \<Rightarrow> ReadRange list \<Rightarrow> 's \<Rightarrow> BatchReadResult \<times> 's" where
  "ReadMemoryBatch os ranges s =
     (if ranges = [] \<or> length ranges > kMaxReadRanges then (batch_failed kInvalidRequest, s)
      else case validate_ranges (VirtualQuery os s) 0 ranges of
        Inl c \<Rightarrow> (batch_failed c, s)
      | Inr validated \<Rightarrow>
          (case read_ranges os validated s of
             (None, s) \<Rightarrow> (batch_failed kMemoryAccessDenied, s)
           | (Some reads, s) \<Rightarrow>
               (\<lparr>batch_ok = True, batch_code = [], batch_ranges = reads\<rparr>, s)))"

section \<open>The scan\<close>

datatype ScanPageBoundary = kContinue | kIncomplete | kComplete

definition ClassifyScanPageBoundary :: "addr \<Rightarrow> addr \<Rightarrow> nat \<Rightarrow> ScanPageBoundary" where
  "ClassifyScanPageBoundary cursor maximum scanned_bytes =
     (if cursor > maximum then kComplete
      else if scanned_bytes = kMaxScanPageBytes then kIncomplete
      else kContinue)"

datatype ScanPurpose = kPublicRaw | kFrtkInternal

text \<open>A mapped buffer: the address of its view and its bytes.\<close>

record Mapped =
  view_address :: addr
  view_bytes :: "byte list"

record ScanRequest =
  scan_pattern :: Mapped
  scan_mask :: Mapped
  max_matches :: nat
  context_before :: nat
  context_after :: nat
  scan_cursor :: "string option"
  include_allocation_metadata :: bool
  scan_purpose :: ScanPurpose

record AllocationMetadata =
  alloc_base :: string
  alloc_size :: u64
  alloc_protection :: DWORD
  alloc_offset :: u64

record ScanMatch =
  match_address :: string
  match_region_base :: string
  match_region_size :: u64
  match_protection :: DWORD
  match_context_address :: string
  match_context :: Mapped
  match_allocation :: "AllocationMetadata option"

record ScanResult =
  scan_complete :: bool
  scan_code :: string
  scanned_bytes :: nat
  progress_scanned_bytes :: u64
  chunks_scanned :: u64
  candidate_windows :: u64
  next_cursor :: "string option"
  scan_matches :: "ScanMatch list"

text \<open>\<open>env_alloc k n\<close> is the address of the view of the \<open>k\<close>-th buffer, \<open>None\<close> when the mapping fails;
  \<open>env_cancel k\<close> is the answer of the \<open>k\<close>-th call of \<open>should_cancel\<close>, constantly \<open>False\<close> when the
  caller gave none.\<close>

record ScanEnv =
  min_app :: addr
  max_app :: addr
  env_query :: query
  env_read :: "addr \<Rightarrow> nat \<Rightarrow> bool \<times> byte list"
  env_alloc :: "nat \<Rightarrow> nat \<Rightarrow> addr option"
  env_cancel :: "nat \<Rightarrow> bool"

definition OverlapsMatchContext :: "addr \<Rightarrow> u64 \<Rightarrow> ScanMatch list \<Rightarrow> bool" where
  "OverlapsMatchContext candidate candidate_length ms =
     list_ex (\<lambda>m. OverlapsRange candidate candidate_length (view_address (match_context m))
                    (word_of_nat (length (view_bytes (match_context m))))) ms"

text \<open>\<open>ResolveAllocationMetadata\<close>: the walk over the regions of one allocation. The result is the size
  and protection of the allocation, and whether no region was seen.\<close>

function extent_walk ::
  "ScanEnv \<Rightarrow> addr \<Rightarrow> addr \<Rightarrow> u64 \<Rightarrow> DWORD \<Rightarrow> bool \<Rightarrow> nat \<Rightarrow> (u64 \<times> DWORD \<times> bool) option \<times> nat" where
  "extent_walk env allocation_base cursor allocation_size allocation_protection first k =
     (if cursor \<le> max_app env then
        if env_cancel env k then (None, Suc k)
        else (case env_query env cursor of
          None \<Rightarrow> (None, Suc k)
        | Some info \<Rightarrow>
            if AllocationBase info \<noteq> allocation_base
            then (Some (allocation_size, allocation_protection, first), Suc k)
            else if BaseAddress info \<noteq> cursor \<or> RegionSize info = 0 \<or>
                    AddOverflows (BaseAddress info) (RegionSize info) \<or>
                    SizeAddOverflows allocation_size (RegionSize info)
            then (None, Suc k)
            else let allocation_protection = (if first then AllocationProtect info else allocation_protection);
                     allocation_size = allocation_size + RegionSize info;
                     next = BaseAddress info + RegionSize info
                 in if next \<le> cursor then (None, Suc k)
                    else if next > max_app env
                    then (Some (max_app env - allocation_base + 1, allocation_protection, False), Suc k)
                    else extent_walk env allocation_base next allocation_size allocation_protection
                           False (Suc k))
      else (Some (allocation_size, allocation_protection, first), k))"
  by pat_completeness auto
termination
  by (relation "measure (\<lambda>(env, base, cursor, rest). 2 ^ 64 - unat cursor)")
    (auto simp: word_le_nat_alt not_le intro!: diff_less_mono2 unat_lt_2p64 [simplified])

declare extent_walk.simps [simp del]

type_synonym extents = "addr \<rightharpoonup> (u64 \<times> DWORD)"

definition ResolveAllocationMetadata ::
  "ScanEnv \<Rightarrow> addr \<Rightarrow> MEMORY_BASIC_INFORMATION \<Rightarrow> extents \<Rightarrow> nat \<Rightarrow>
     AllocationMetadata option \<times> extents \<times> nat" where
  "ResolveAllocationMetadata env address match_info extents k =
     (let allocation_base = AllocationBase match_info in
      if allocation_base = 0 \<or> address < allocation_base then (None, extents, k)
      else let (cached, k) = (case extents allocation_base of
                 Some e \<Rightarrow> (Some e, k)
               | None \<Rightarrow>
                   (case extent_walk env allocation_base allocation_base 0 0 True k of
                      (None, k) \<Rightarrow> (None, k)
                    | (Some (n, protection, first), k) \<Rightarrow>
                        (if first \<or> n = 0 then None else Some (n, protection), k)))
      in case cached of
           None \<Rightarrow> (None, extents, k)
         | Some (n, protection) \<Rightarrow>
             let extents = extents(allocation_base \<mapsto> (n, protection));
                 offset = address - allocation_base
             in if offset \<ge> n then (None, extents, k)
                else (Some \<lparr>alloc_base = FormatAddress allocation_base, alloc_size = n,
                            alloc_protection = protection, alloc_offset = offset\<rparr>, extents, k))"

text \<open>The state of a scan: the result so far, the cache of extents, the number of calls of
  \<open>should_cancel\<close> and the number of buffers mapped.\<close>

record ScanState =
  st_result :: ScanResult
  st_extents :: extents
  st_calls :: nat
  st_allocs :: nat

definition result_code :: "string \<Rightarrow> ScanState \<Rightarrow> ScanResult" where
  "result_code c st = (st_result st)\<lparr>scan_code := c\<rparr>"

definition timed_out :: "ScanState \<Rightarrow> ScanResult" where
  "timed_out st = (st_result st)\<lparr>scan_matches := [], scan_code := ''OPERATION_TIMEOUT''\<rparr>"

definition tick :: "ScanState \<Rightarrow> ScanState" where
  "tick st = st\<lparr>st_calls := Suc (st_calls st)\<rparr>"

definition count_window :: "ScanState \<Rightarrow> ScanState" where
  "count_window st = st\<lparr>st_result := (st_result st)
     \<lparr>candidate_windows := SaturatingIncrement (candidate_windows (st_result st))\<rparr>\<rparr>"

definition count_chunk :: "nat \<Rightarrow> ScanState \<Rightarrow> ScanState" where
  "count_chunk unique_bytes st = st\<lparr>st_result := (st_result st)
     \<lparr>chunks_scanned := SaturatingIncrement (chunks_scanned (st_result st)),
      progress_scanned_bytes := SaturatingAdd (progress_scanned_bytes (st_result st))
        (word_of_nat unique_bytes)\<rparr>\<rparr>"

definition add_scanned :: "nat \<Rightarrow> ScanState \<Rightarrow> ScanState" where
  "add_scanned unique_bytes st = st\<lparr>st_result := (st_result st)
     \<lparr>scanned_bytes := scanned_bytes (st_result st) + unique_bytes\<rparr>\<rparr>"

definition map_copy :: "ScanEnv \<Rightarrow> nat \<Rightarrow> byte list \<Rightarrow> Mapped option" where
  "map_copy env k bytes =
     (if bytes = [] then None
      else map_option (\<lambda>v. \<lparr>view_address = v, view_bytes = bytes\<rparr>) (env_alloc env k (length bytes)))"

text \<open>One match: its context is copied, its allocation resolved, and it is reported. \<open>Inl\<close> ends the
  scan.\<close>

definition report_match ::
  "ScanEnv \<Rightarrow> ScanRequest \<Rightarrow> MEMORY_BASIC_INFORMATION \<Rightarrow> addr \<Rightarrow> byte list \<Rightarrow> nat \<Rightarrow> ScanState \<Rightarrow>
     ScanResult + ScanState" where
  "report_match env request info cursor buffer offset st =
     (let read_bytes = length buffer;
          address = cursor + word_of_nat offset;
          context_start = (if offset > context_before request then offset - context_before request else 0);
          after_start = offset + length (view_bytes (scan_pattern request));
          context_end = (if context_after request > read_bytes - after_start then read_bytes
                         else after_start + context_after request)
      in case map_copy env (st_allocs st) (take (context_end - context_start) (drop context_start buffer)) of
           None \<Rightarrow> Inl (result_code kMemoryAccessDenied st)
         | Some context_bytes \<Rightarrow>
             let st = st\<lparr>st_allocs := Suc (st_allocs st)\<rparr>;
                 (allocation, extents, k) =
                   (if include_allocation_metadata request
                    then ResolveAllocationMetadata env address info (st_extents st) (st_calls st)
                    else (None, st_extents st, st_calls st));
                 st = st\<lparr>st_extents := extents, st_calls := k\<rparr>
             in if include_allocation_metadata request \<and> allocation = None
                then Inl ((st_result st)\<lparr>scan_matches := [],
                       scan_code := (if env_cancel env (st_calls st) then ''OPERATION_TIMEOUT''
                                     else kMemoryAccessDenied)\<rparr>)
                else let m = \<lparr>match_address = FormatAddress address,
                              match_region_base = FormatAddress (BaseAddress info),
                              match_region_size = RegionSize info, match_protection = Protect info,
                              match_context_address = FormatAddress (cursor + word_of_nat context_start),
                              match_context = context_bytes, match_allocation = allocation\<rparr>;
                         st = st\<lparr>st_result := (st_result st)\<lparr>scan_matches := scan_matches (st_result st) @ [m]\<rparr>\<rparr>
                     in if length (scan_matches (st_result st)) > max_matches request
                        then Inl (result_code ''TOO_MANY_MATCHES'' st)
                        else Inr st)"

text \<open>One round of the candidate loop. \<open>Inr (None, _)\<close> is the \<open>break\<close> past the unique bytes,
  \<open>Inr (Some offset, _)\<close> the next offset.\<close>

definition overlaps_excluded :: "ScanRequest \<Rightarrow> ScanMatch list \<Rightarrow> addr \<Rightarrow> bool" where
  "overlaps_excluded request ms address =
     (let n = word_of_nat (length (view_bytes (scan_pattern request))) in
      OverlapsRange address n (view_address (scan_pattern request)) n \<or>
      OverlapsRange address n (view_address (scan_mask request))
        (word_of_nat (length (view_bytes (scan_mask request)))) \<or>
      OverlapsMatchContext address n ms)"

definition window_step ::
  "ScanEnv \<Rightarrow> ScanRequest \<Rightarrow> MaskedPatternMatcher \<Rightarrow> MEMORY_BASIC_INFORMATION \<Rightarrow> addr \<Rightarrow> addr \<Rightarrow>
     byte list \<Rightarrow> nat \<Rightarrow> nat \<Rightarrow> ScanState \<Rightarrow> ScanResult + (nat option \<times> ScanState)" where
  "window_step env request matcher info cursor after_unique buffer last_offset offset st =
     (if env_cancel env (st_calls st) then Inl (timed_out st)
      else let candidate_end = min (last_offset + 1) (offset + kCancellationCandidateWindow);
               st = count_window (tick st)
           in case fst (FindNext matcher buffer offset candidate_end None) of
                None \<Rightarrow> Inr (Some candidate_end, st)
              | Some found \<Rightarrow>
                  let address = cursor + word_of_nat found in
                  if address \<ge> after_unique then Inr (None, st)
                  else if overlaps_excluded request (scan_matches (st_result st)) address
                  then Inr (Some (Suc found), st)
                  else bindE (report_match env request info cursor buffer found st)
                         (\<lambda>st. Inr (Some (Suc found), st)))"

lemma find_loop_bounds:
  "fst (find_loop cs bytes k e st) = Some n \<Longrightarrow> k \<le> n \<and> n < e"
proof (induction cs bytes k e st rule: find_loop.induct)
  case (1 cs bytes k e st)
  let ?skip = "if check_mask (hd cs) = 0xFF
      then memchr bytes (k + check_offset (hd cs)) (check_value (hd cs)) (e - k) else Some 0"
  from "1.prems" obtain m where k: "k < e" and m: "?skip = Some m"
    by (cases "k < e"; cases ?skip) (auto simp: find_loop.simps [of cs bytes k e st] Let_def split: if_splits)
  obtain ok compared where rc: "run_checks cs bytes (k + m) = (ok, compared)" by (metis surj_pair)
  have km: "k + m < e" using m k by (auto simp: memchr_def split: if_splits dest: find_upt_Some)
  show ?case
  proof (cases ok)
    case True
    with "1.prems" k m rc km show ?thesis
      by (auto simp: find_loop.simps [of cs bytes k e st] Let_def)
  next
    case False
    with "1.prems" k m rc have "fst (find_loop cs bytes (Suc (k + m)) e (count_match compared st)) = Some n"
      by (simp add: find_loop.simps [of cs bytes k e st] Let_def)
    with "1.IH" [OF k refl refl m refl rc [symmetric] refl refl] False show ?thesis by simp
  qed
qed

lemma FindNext_bounds: "fst (FindNext matcher bytes k e st) = Some n \<Longrightarrow> k \<le> n \<and> n < e"
  by (auto simp: FindNext_def split: if_splits dest: find_loop_bounds)

lemma window_step_advances:
  assumes "window_step env request matcher info cursor after_unique buffer last_offset offset st = Inr (Some n, st')"
    and "offset \<le> last_offset"
  shows "offset < n" "n \<le> Suc last_offset"
proof -
  let ?e = "min (last_offset + 1) (offset + kCancellationCandidateWindow)"
  have e: "offset < ?e" "?e \<le> Suc last_offset"
    using assms(2) by (auto simp: kCancellationCandidateWindow_def)
  have "offset < n \<and> n \<le> Suc last_offset"
  proof (cases "fst (FindNext matcher buffer offset ?e None)")
    case None
    with assms(1) have "n = ?e" by (auto simp: window_step_def Let_def split: if_splits)
    with e show ?thesis by simp
  next
    case (Some found)
    with assms(1) have "n = Suc found"
      by (auto simp: window_step_def Let_def bindE_Inr_iff split: if_splits)
    with FindNext_bounds [OF Some] e show ?thesis by simp
  qed
  then show "offset < n" "n \<le> Suc last_offset" by simp_all
qed

function window_loop ::
  "ScanEnv \<Rightarrow> ScanRequest \<Rightarrow> MaskedPatternMatcher \<Rightarrow> MEMORY_BASIC_INFORMATION \<Rightarrow> addr \<Rightarrow> addr \<Rightarrow>
     byte list \<Rightarrow> nat \<Rightarrow> nat \<Rightarrow> ScanState \<Rightarrow> ScanResult + ScanState" where
  "window_loop env request matcher info cursor after_unique buffer last_offset offset st =
     (if offset \<le> last_offset then
        (case window_step env request matcher info cursor after_unique buffer last_offset offset st of
           Inl r \<Rightarrow> Inl r
         | Inr (None, st) \<Rightarrow> Inr st
         | Inr (Some n, st) \<Rightarrow>
             window_loop env request matcher info cursor after_unique buffer last_offset n st)
      else Inr st)"
  by pat_completeness auto
termination
  by (relation "measure (\<lambda>(env, request, matcher, info, cursor, after_unique, buffer, last, offset, st).
      Suc last - offset)")
    (auto dest: window_step_advances)

declare window_loop.simps [simp del]

text \<open>One chunk: the bytes from the cursor, at most 4 MiB and at most what the page budget leaves, and
  the lookahead inside the region.\<close>

definition finish_chunk ::
  "ScanEnv \<Rightarrow> addr \<Rightarrow> addr \<Rightarrow> ScanState \<Rightarrow> ScanResult + (addr \<times> ScanState)" where
  "finish_chunk env after_unique region_end st =
     (case ClassifyScanPageBoundary after_unique (max_app env) (scanned_bytes (st_result st)) of
        kComplete \<Rightarrow> Inl ((st_result st)\<lparr>scan_complete := True\<rparr>)
      | kIncomplete \<Rightarrow> Inl ((st_result st)\<lparr>next_cursor := Some (FormatAddress after_unique)\<rparr>)
      | kContinue \<Rightarrow>
          if after_unique = region_end \<and> region_end > max_app env
          then Inl ((st_result st)\<lparr>scan_complete := True\<rparr>)
          else Inr (after_unique, st))"

definition scan_unique ::
  "ScanEnv \<Rightarrow> ScanRequest \<Rightarrow> MaskedPatternMatcher \<Rightarrow> MEMORY_BASIC_INFORMATION \<Rightarrow> addr \<Rightarrow> addr \<Rightarrow>
     nat \<Rightarrow> ScanState \<Rightarrow> ScanResult + ScanState" where
  "scan_unique env request matcher info region_end cursor unique_bytes st =
     (let n = length (view_bytes (scan_pattern request));
          after_unique = cursor + word_of_nat unique_bytes;
          lookahead = min (n - 1) (unat (region_end - after_unique));
          read_bytes = unique_bytes + lookahead
      in if env_cancel env (st_calls st) then Inl (timed_out st)
         else let (ok, buffer) = env_read env cursor read_bytes
              in if \<not> ok \<or> length buffer \<noteq> read_bytes
                 then Inl (result_code kMemoryAccessDenied (tick st))
                 else if read_bytes \<ge> n
                 then window_loop env request matcher info cursor after_unique buffer (read_bytes - n) 0
                        (count_chunk unique_bytes (tick st))
                 else Inr (count_chunk unique_bytes (tick st)))"

definition chunk_size :: "addr \<Rightarrow> addr \<Rightarrow> ScanState \<Rightarrow> nat" where
  "chunk_size region_end cursor st =
     min (unat (region_end - cursor))
       (min kScanChunkBytes (kMaxScanPageBytes - scanned_bytes (st_result st)))"

definition scan_chunk ::
  "ScanEnv \<Rightarrow> ScanRequest \<Rightarrow> MaskedPatternMatcher \<Rightarrow> MEMORY_BASIC_INFORMATION \<Rightarrow> addr \<Rightarrow> addr \<Rightarrow>
     ScanState \<Rightarrow> ScanResult + (addr \<times> ScanState)" where
  "scan_chunk env request matcher info region_end cursor st =
     (let remaining_budget = kMaxScanPageBytes - scanned_bytes (st_result st)
      in if remaining_budget = 0
         then Inl ((st_result st)\<lparr>next_cursor := Some (FormatAddress cursor)\<rparr>)
         else let unique_bytes = chunk_size region_end cursor st
              in bindE (scan_unique env request matcher info region_end cursor unique_bytes st)
                   (\<lambda>st. finish_chunk env (cursor + word_of_nat unique_bytes) region_end
                           (add_scanned unique_bytes st)))"

text \<open>One round of the outer loop: query the region at the cursor, skip it when it is not eligible or
  holds the scan buffer, scan a chunk of it otherwise.\<close>

definition scan_step ::
  "ScanEnv \<Rightarrow> ScanRequest \<Rightarrow> MaskedPatternMatcher \<Rightarrow> addr \<Rightarrow> addr \<Rightarrow> addr \<Rightarrow> ScanState \<Rightarrow>
     ScanResult + (addr \<times> ScanState)" where
  "scan_step env request matcher buffer_begin buffer_end cursor st =
     (if env_cancel env (st_calls st) then Inl (timed_out st)
      else let st = tick st in
        case env_query env cursor of
          None \<Rightarrow> Inl (result_code kMemoryAccessDenied st)
        | Some info \<Rightarrow>
            if AddOverflows (BaseAddress info) (RegionSize info) then Inl (result_code kInvalidRequest st)
            else let region_end = BaseAddress info + RegionSize info in
              if region_end \<le> cursor then Inl (result_code kInvalidRequest st)
              else let is_scan_buffer = (cursor < buffer_end \<and> buffer_begin < region_end) in
                if \<not> IsEligiblePrivateReadableRegion info \<or> is_scan_buffer
                then if region_end > max_app env then Inl ((st_result st)\<lparr>scan_complete := True\<rparr>)
                     else Inr (region_end, st)
                else scan_chunk env request matcher info region_end cursor st)"

lemma chunk_advances:
  fixes cursor region_end :: addr
  assumes "cursor < region_end" and "0 < n" and "n \<le> unat (region_end - cursor)"
  shows "unat (cursor + word_of_nat n) = unat cursor + n" and "cursor < cursor + word_of_nat n"
    and "unat (region_end - cursor) = unat region_end - unat cursor"
proof -
  show d: "unat (region_end - cursor) = unat region_end - unat cursor"
    using assms(1) by (intro unat_sub) (simp add: less_imp_le)
  have "unat cursor + n < 2 ^ 64"
    using assms d unat_lt_2p64 [of region_end] by (simp add: word_less_nat_alt)
  then show "unat (cursor + word_of_nat n) = unat cursor + n" by (rule unat_add_of_nat)
  with assms(2) show "cursor < cursor + word_of_nat n" by (simp add: word_less_nat_alt)
qed

lemma finish_chunk_Inr:
  assumes "finish_chunk env after_unique region_end st = Inr (c, st')"
  shows "c = after_unique" "c \<le> max_app env" "st' = st" "scanned_bytes (st_result st) \<noteq> kMaxScanPageBytes"
  using assms by (auto simp: finish_chunk_def ClassifyScanPageBoundary_def split: if_splits)

lemma scan_chunk_advances:
  assumes "scan_chunk env request matcher info region_end cursor st = Inr (c, st')"
    and "cursor < region_end"
  shows "cursor < c" "c \<le> max_app env"
proof -
  let ?u = "chunk_size region_end cursor st"
  from assms(1) have b: "kMaxScanPageBytes - scanned_bytes (st_result st) \<noteq> 0"
    by (auto simp: scan_chunk_def split: if_splits)
  with assms(1) obtain t where "finish_chunk env (cursor + word_of_nat ?u) region_end t = Inr (c, st')"
    by (auto simp: scan_chunk_def Let_def bindE_Inr_iff)
  then have c: "c = cursor + word_of_nat ?u" and m: "c \<le> max_app env"
    by (auto dest: finish_chunk_Inr)
  show "c \<le> max_app env" by (rule m)
  have "unat (region_end - cursor) = unat region_end - unat cursor"
    using assms(2) by (intro unat_sub) (simp add: less_imp_le)
  with assms(2) b have "0 < ?u" by (simp add: word_less_nat_alt kScanChunkBytes_def chunk_size_def)
  then show "cursor < c" using chunk_advances(2) [OF assms(2), of ?u] c by (simp add: chunk_size_def)
qed

lemma scan_step_advances:
  assumes "scan_step env request matcher buffer_begin buffer_end cursor st = Inr (c, st')"
  shows "cursor < c" "c \<le> max_app env"
proof -
  from assms obtain info where i: "env_query env cursor = Some info"
    and e: "\<not> BaseAddress info + RegionSize info \<le> cursor"
    by (auto simp: scan_step_def Let_def split: if_splits option.splits)
  have "cursor < c \<and> c \<le> max_app env"
  proof (cases "\<not> IsEligiblePrivateReadableRegion info \<or>
      (cursor < buffer_end \<and> buffer_begin < BaseAddress info + RegionSize info)")
    case True
    with assms i e show ?thesis by (auto simp: scan_step_def Let_def not_le not_less split: if_splits)
  next
    case False
    with assms i e have "scan_chunk env request matcher info (BaseAddress info + RegionSize info) cursor (tick st) = Inr (c, st')"
      by (auto simp: scan_step_def Let_def split: if_splits)
    with e show ?thesis using scan_chunk_advances by (auto simp: not_le)
  qed
  then show "cursor < c" "c \<le> max_app env" by simp_all
qed

function scan_loop ::
  "ScanEnv \<Rightarrow> ScanRequest \<Rightarrow> MaskedPatternMatcher \<Rightarrow> addr \<Rightarrow> addr \<Rightarrow> addr \<Rightarrow> ScanState \<Rightarrow> ScanResult" where
  "scan_loop env request matcher buffer_begin buffer_end cursor st =
     (if cursor \<le> max_app env then
        (case scan_step env request matcher buffer_begin buffer_end cursor st of
           Inl r \<Rightarrow> r
         | Inr (cursor, st) \<Rightarrow> scan_loop env request matcher buffer_begin buffer_end cursor st)
      else (st_result st)\<lparr>scan_complete := True\<rparr>)"
  by pat_completeness auto
termination
  by (relation "measure (\<lambda>(env, request, matcher, b, e, cursor, st). 2 ^ 64 - unat cursor)")
    (auto dest!: scan_step_advances(1) simp: word_less_nat_alt
      intro!: diff_less_mono2 unat_lt_2p64 [simplified])

declare scan_loop.simps [simp del]

definition empty_result :: ScanResult where
  "empty_result = \<lparr>scan_complete = False, scan_code = [], scanned_bytes = 0,
     progress_scanned_bytes = 0, chunks_scanned = 0, candidate_windows = 0, next_cursor = None,
     scan_matches = []\<rparr>"

definition scan_start :: "ScanEnv \<Rightarrow> ScanRequest \<Rightarrow> addr option" where
  "scan_start env request =
     (case scan_cursor request of
        None \<Rightarrow> Some (min_app env)
      | Some t \<Rightarrow>
          (case ParseAddress t of
             None \<Rightarrow> None
           | Some parsed \<Rightarrow>
               if FormatAddress parsed \<noteq> t \<or> parsed < min_app env \<or> parsed > max_app env then None
               else Some parsed))"

definition ScanPrivateMemory :: "ScanEnv \<Rightarrow> ScanRequest \<Rightarrow> ScanResult" where
  "ScanPrivateMemory env request =
     (let minimum_pattern_bytes = (if scan_purpose request = kFrtkInternal then kMinFrtkPatternBytes
                                   else kMinPatternBytes);
          pattern = view_bytes (scan_pattern request);
          mask_bytes = view_bytes (scan_mask request);
          invalid = empty_result\<lparr>scan_code := kInvalidRequest\<rparr>
      in if length pattern < minimum_pattern_bytes \<or> length pattern > kMaxPatternBytes \<or>
            length mask_bytes \<noteq> length pattern \<or> max_matches request = 0 \<or>
            max_matches request > kMaxMatches \<or>
            context_after request > 2 ^ 64 - 1 - context_before request \<or>
            context_before request + context_after request > kMaxContextBytes
         then invalid
         else (case CompileMaskedPattern pattern mask_bytes of
           None \<Rightarrow> invalid
         | Some matcher \<Rightarrow>
             (case scan_start env request of
                None \<Rightarrow> invalid
              | Some cursor \<Rightarrow>
                  let buffer_capacity = kScanChunkBytes + length pattern - 1 in
                  (case env_alloc env 0 buffer_capacity of
                     None \<Rightarrow> empty_result\<lparr>scan_code := kMemoryAccessDenied\<rparr>
                   | Some buffer_begin \<Rightarrow>
                       scan_loop env request matcher buffer_begin
                         (buffer_begin + word_of_nat buffer_capacity) cursor
                         \<lparr>st_result = empty_result, st_extents = Map.empty, st_calls = 0, st_allocs = 1\<rparr>))))"

section \<open>What a scan finds\<close>

text \<open>The specification: the addresses, in order, at which the whole pattern lies in an eligible
  region and matches.\<close>

definition region_limit :: "MEMORY_BASIC_INFORMATION \<Rightarrow> nat" where
  "region_limit i = unat (BaseAddress i) + unat (RegionSize i)"

definition eligible_at :: "query \<Rightarrow> addr \<Rightarrow> bool" where
  "eligible_at vq a = (case vq a of None \<Rightarrow> False | Some i \<Rightarrow> IsEligiblePrivateReadableRegion i)"

definition hit :: "query \<Rightarrow> memory \<Rightarrow> byte list \<Rightarrow> byte list \<Rightarrow> addr \<Rightarrow> bool" where
  "hit vq m pattern mask_bytes a \<longleftrightarrow>
     (case vq a of
        None \<Rightarrow> False
      | Some i \<Rightarrow> IsEligiblePrivateReadableRegion i \<and>
          unat a + length pattern \<le> region_limit i \<and>
          masked_match pattern mask_bytes (mem_read m a (length pattern)) 0)"

definition hits :: "query \<Rightarrow> memory \<Rightarrow> byte list \<Rightarrow> byte list \<Rightarrow> nat \<Rightarrow> nat \<Rightarrow> nat list" where
  "hits vq m pattern mask_bytes lo hi =
     filter (\<lambda>x. hit vq m pattern mask_bytes (word_of_nat x)) [lo..<hi]"

definition unscanned_view :: "query \<Rightarrow> addr \<Rightarrow> nat \<Rightarrow> bool" where
  "unscanned_view vq v n \<longleftrightarrow> unat v + n < 2 ^ 64 \<and>
     (\<forall>x :: addr. unat v \<le> unat x \<and> unat x < unat v + n \<longrightarrow> \<not> eligible_at vq x)"

definition request_views :: "query \<Rightarrow> ScanRequest \<Rightarrow> bool" where
  "request_views vq request \<longleftrightarrow>
     unscanned_view vq (view_address (scan_pattern request)) (length (view_bytes (scan_pattern request))) \<and>
     unscanned_view vq (view_address (scan_mask request)) (length (view_bytes (scan_mask request)))"

lemma hits_append: "lo \<le> mid \<Longrightarrow> mid \<le> hi \<Longrightarrow>
  hits vq m p q lo hi = hits vq m p q lo mid @ hits vq m p q mid hi"
  unfolding hits_def by (metis filter_append le_Suc_ex upt_add_eq_append)

lemma hits_none: "(\<And>x. lo \<le> x \<Longrightarrow> x < hi \<Longrightarrow> \<not> hit vq m p q (word_of_nat x)) \<Longrightarrow> hits vq m p q lo hi = []"
  by (auto simp: hits_def filter_empty_conv)

lemma hits_one: "hits vq m p q x (Suc x) = (if hit vq m p q (word_of_nat x) then [x] else [])"
  by (simp add: hits_def)

lemma mem_read_shift:
  "k + j \<le> n \<Longrightarrow> i < j \<Longrightarrow> mem_read m a n ! (k + i) = mem_read m (a + word_of_nat k) j ! i"
  by (simp add: mem_read_nth add.assoc)

lemma masked_match_shift:
  assumes "k + length pattern \<le> n"
  shows "masked_match pattern mask_bytes (mem_read m a n) k \<longleftrightarrow>
    masked_match pattern mask_bytes (mem_read m (a + word_of_nat k) (length pattern)) 0"
  using mem_read_shift [OF assms] by (simp add: masked_match_def list_all_iff)

lemma overlap_witness:
  assumes "OverlapsRange a n v k" and "n \<noteq> 0"
  shows "\<exists>x :: addr. unat a \<le> unat x \<and> unat x < unat a + unat n \<and>
    unat v \<le> unat x \<and> unat x < unat v + unat k"
proof -
  from assms(1) have o: "v \<noteq> 0" "k \<noteq> 0" "unat a + unat n < 2 ^ 64" "unat v + unat k < 2 ^ 64"
    "a < v + k" "v < a + n"
    by (auto simp: OverlapsRange_def overflow_simps split: if_splits)
  then have "unat a < unat v + unat k" "unat v < unat a + unat n"
    by (simp_all add: word_less_nat_alt unat_add_no_overflow)
  moreover have "0 < unat n" "0 < unat k" using assms(2) o(2) by (simp_all add: unat_gt_0)
  ultimately show ?thesis by (intro exI [of _ "max a v"]) (auto simp: max_def word_le_nat_alt)
qed

text \<open>A window starting in the unique bytes of a chunk lies in the region exactly when it lies in the
  bytes read.\<close>

lemma chunk_fits:
  fixes c lim :: nat
  assumes "c < lim" "0 < u" "u \<le> lim - c" "k < u" "0 < n" "rb = u + min (n - 1) (lim - c - u)"
  shows "c + k + n \<le> lim \<longleftrightarrow> k + n \<le> rb"
  using assms by (cases "n - 1 \<le> lim - c - u") auto

text \<open>
  What the scan relies on: \<open>VirtualQuery\<close> as before, its regions end where their attributes change; a
  complete read returns the bytes of the snapshot; mapped buffers are not private memory.
\<close>

locale scan_world = virtual_query "env_query env"
  for env :: ScanEnv +
  fixes m :: memory
  assumes same_end: "env_query env a = Some i \<Longrightarrow> in_region i b \<Longrightarrow> env_query env b = Some j \<Longrightarrow>
      region_limit j = region_limit i"
    and read_snapshot: "env_read env a n = (True, bytes) \<Longrightarrow> length bytes = n \<Longrightarrow> bytes = mem_read m a n"
    and views: "env_alloc env k n = Some v \<Longrightarrow> unscanned_view (env_query env) v n"
begin

lemma region_same:
  assumes "env_query env a = Some i" and "in_region i b"
  shows "\<exists>j. env_query env b = Some j \<and> region_limit j = region_limit i \<and> in_region j b \<and>
    IsEligiblePrivateReadableRegion j = IsEligiblePrivateReadableRegion i"
proof -
  from uniform [OF assms] obtain j where j: "env_query env b = Some j" "same_attributes i j" by blast
  have "in_region j b" by (rule covers [OF j(1)])
  moreover have "RegionSize i \<noteq> 0" "RegionSize j \<noteq> 0"
    using assms(2) \<open>in_region j b\<close> by (auto simp: in_region_def)
  ultimately show ?thesis
    using j same_end [OF assms(1,2) j(1)]
    by (auto simp: IsEligiblePrivateReadableRegion_def same_attributes_def)
qed

lemma region_end_limit:
  assumes "env_query env a = Some i"
  shows "unat (BaseAddress i + RegionSize i) = region_limit i" "unat a < region_limit i"
    "region_limit i < 2 ^ 64" "unat (BaseAddress i) \<le> unat a"
  using region_end(1) [OF assms] covers [OF assms] no_wrap [OF assms]
  by (auto simp: region_limit_def in_region_def)

text \<open>A window in an eligible region meets no view.\<close>

lemma hit_not_excluded:
  assumes "hit (env_query env) m p q a" and "unscanned_view (env_query env) v k"
    and "length p < 2 ^ 64" "p \<noteq> []"
  shows "\<not> OverlapsRange a (word_of_nat (length p)) v (word_of_nat k)"
proof
  assume "OverlapsRange a (word_of_nat (length p)) v (word_of_nat k)"
  then obtain x :: addr where x: "unat a \<le> unat x" "unat x < unat a + unat (word_of_nat (length p) :: u64)"
    "unat v \<le> unat x" "unat x < unat v + unat (word_of_nat k :: u64)"
    using overlap_witness assms(3,4) by (metis length_0_conv unat_0 unat_of_nat_u64)
  have k: "k < 2 ^ 64" using assms(2) by (simp add: unscanned_view_def)
  from assms(1) obtain i where i: "env_query env a = Some i" "IsEligiblePrivateReadableRegion i"
    "unat a + length p \<le> region_limit i" by (auto simp: hit_def split: option.splits)
  from x i(3) region_end_limit(4) [OF i(1)] assms(3) have "in_region i x"
    by (auto simp: in_region_def region_limit_def unat_of_nat_u64)
  from region_same [OF i(1) this] i(2) have "eligible_at (env_query env) x"
    by (auto simp: eligible_at_def)
  with assms(2) x k show False by (auto simp: unscanned_view_def unat_of_nat_u64)
qed

lemma hit_in_chunk:
  assumes i: "env_query env c = Some i" "IsEligiblePrivateReadableRegion i"
    and u: "0 < u" "u \<le> region_limit i - unat c"
    and p: "p \<noteq> []"
    and rb: "rb = u + min (length p - 1) (region_limit i - unat c - u)"
    and k: "k < u"
  shows "hit (env_query env) m p q (c + word_of_nat k) \<longleftrightarrow>
    k + length p \<le> rb \<and> masked_match p q (mem_read m c rb) k"
proof -
  note lim = region_end_limit [OF i(1)]
  have a: "unat (c + word_of_nat k) = unat c + k"
    using k u lim by (intro unat_add_of_nat) auto
  have "in_region i (c + word_of_nat k)"
    using a k u lim by (auto simp: in_region_def region_limit_def)
  from region_same [OF i(1) this] obtain j where
    j: "env_query env (c + word_of_nat k) = Some j" "region_limit j = region_limit i"
      "IsEligiblePrivateReadableRegion j" using i(2) by auto
  have fits: "unat c + k + length p \<le> region_limit i \<longleftrightarrow> k + length p \<le> rb"
    using chunk_fits [OF lim(2) u k _ rb] p by simp
  show ?thesis
    using j fits masked_match_shift [of k p rb q m c] by (auto simp: hit_def a add.assoc)
qed

end

text \<open>How the parts of the loop change the result.\<close>

lemma report_match_Inr:
  assumes "report_match env request info cursor buffer offset st = Inr st'"
  obtains match where "st_result st' = (st_result st)\<lparr>scan_matches := scan_matches (st_result st) @ [match]\<rparr>"
    "match_address match = FormatAddress (cursor + word_of_nat offset)"
    "\<exists>k. env_alloc env k (length (view_bytes (match_context match))) = Some (view_address (match_context match))"
    "length (scan_matches (st_result st')) \<le> max_matches request"
proof -
  define ctx where "ctx = take ((if context_after request > length buffer - (offset + length (view_bytes (scan_pattern request)))
        then length buffer else offset + length (view_bytes (scan_pattern request)) + context_after request) -
      (if context_before request < offset then offset - context_before request else 0))
      (drop (if context_before request < offset then offset - context_before request else 0) buffer)"
  from assms obtain copy where c: "map_copy env (st_allocs st) ctx = Some copy"
    unfolding report_match_def Let_def ctx_def [symmetric] by (auto split: option.splits)
  then have "view_bytes copy = ctx" "env_alloc env (st_allocs st) (length ctx) = Some (view_address copy)"
    by (auto simp: map_copy_def split: if_splits)
  moreover obtain allocation extents k where
    "(if include_allocation_metadata request
      then ResolveAllocationMetadata env (cursor + word_of_nat offset) info
        (st_extents (st\<lparr>st_allocs := Suc (st_allocs st)\<rparr>)) (st_calls (st\<lparr>st_allocs := Suc (st_allocs st)\<rparr>))
      else (None, st_extents (st\<lparr>st_allocs := Suc (st_allocs st)\<rparr>),
        st_calls (st\<lparr>st_allocs := Suc (st_allocs st)\<rparr>))) = (allocation, extents, k)"
    by (metis prod_cases3)
  ultimately show thesis
    using assms c that unfolding report_match_def Let_def ctx_def [symmetric]
    by (fastforce split: if_splits)
qed

lemma report_match_Inl:
  assumes "report_match env request info cursor buffer offset st = Inl r"
  shows "scan_code r \<noteq> []"
  using assms
  by (auto simp: report_match_def Let_def result_code_def kMemoryAccessDenied_def
      split: option.splits prod.splits if_splits)

definition found_upto ::
  "query \<Rightarrow> memory \<Rightarrow> ScanRequest \<Rightarrow> nat \<Rightarrow> nat \<Rightarrow> nat \<Rightarrow> ScanState \<Rightarrow> bool" where
  "found_upto vq m request lo hi scanned st \<longleftrightarrow>
     map match_address (scan_matches (st_result st)) =
       map (\<lambda>x. FormatAddress (word_of_nat x))
         (hits vq m (view_bytes (scan_pattern request)) (view_bytes (scan_mask request)) lo hi) \<and>
     list_all (\<lambda>match. unscanned_view vq (view_address (match_context match))
         (length (view_bytes (match_context match)))) (scan_matches (st_result st)) \<and>
     length (scan_matches (st_result st)) \<le> max_matches request \<and>
     scan_code (st_result st) = [] \<and> \<not> scan_complete (st_result st) \<and>
     next_cursor (st_result st) = None \<and> scanned_bytes (st_result st) = scanned"

lemma found_upto_simps [simp]:
  "found_upto vq m request lo hi scanned (tick st) = found_upto vq m request lo hi scanned st"
  "found_upto vq m request lo hi scanned (count_window st) = found_upto vq m request lo hi scanned st"
  "found_upto vq m request lo hi scanned (count_chunk u st) = found_upto vq m request lo hi scanned st"
  "found_upto vq m request lo hi scanned st \<Longrightarrow> found_upto vq m request lo hi (scanned + u) (add_scanned u st)"
  by (auto simp: found_upto_def tick_def count_window_def count_chunk_def add_scanned_def)

lemma found_upto_extend:
  assumes "found_upto vq m request lo mid scanned st" and "lo \<le> mid" "mid \<le> hi"
    and "\<And>x. mid \<le> x \<Longrightarrow> x < hi \<Longrightarrow>
      \<not> hit vq m (view_bytes (scan_pattern request)) (view_bytes (scan_mask request)) (word_of_nat x)"
  shows "found_upto vq m request lo hi scanned st"
  using assms(1) hits_append [OF assms(2,3)] hits_none [OF assms(4)]
  by (simp add: found_upto_def)

context scan_world
begin

lemma report_match_found:
  assumes "report_match env request info cursor buffer offset st = Inr st'"
    and "found_upto (env_query env) m request lo x scanned st" and "lo \<le> x"
    and "cursor + word_of_nat offset = word_of_nat x"
    and "hit (env_query env) m (view_bytes (scan_pattern request)) (view_bytes (scan_mask request)) (word_of_nat x)"
  shows "found_upto (env_query env) m request lo (Suc x) scanned st'"
proof -
  from assms(1) obtain match where r: "st_result st' = (st_result st)\<lparr>scan_matches := scan_matches (st_result st) @ [match]\<rparr>"
    "match_address match = FormatAddress (cursor + word_of_nat offset)"
    "\<exists>k. env_alloc env k (length (view_bytes (match_context match))) = Some (view_address (match_context match))"
    "length (scan_matches (st_result st')) \<le> max_matches request" by (rule report_match_Inr)
  moreover from r(3) have "unscanned_view (env_query env) (view_address (match_context match))
      (length (view_bytes (match_context match)))" using views by blast
  ultimately show ?thesis
    using assms(2,4,5) hits_append [OF assms(3), of "Suc x"]
    by (simp add: found_upto_def hits_one)
qed

lemma no_overlap:
  assumes "found_upto (env_query env) m request lo x scanned st"
    and "request_views (env_query env) request"
    and "view_bytes (scan_pattern request) \<noteq> []" "length (view_bytes (scan_pattern request)) < 2 ^ 64"
    and "hit (env_query env) m (view_bytes (scan_pattern request)) (view_bytes (scan_mask request)) a"
  shows "\<not> overlaps_excluded request (scan_matches (st_result st)) a"
  using assms(1,2) hit_not_excluded [OF assms(5) _ assms(4,3)]
  by (auto simp: overlaps_excluded_def OverlapsMatchContext_def Let_def request_views_def
      found_upto_def list_ex_iff list_all_iff)

text \<open>The candidate loop over the bytes of one chunk.\<close>

lemma window_loop_found:
  assumes request: "request_views (env_query env) request" "view_bytes (scan_pattern request) \<noteq> []"
      "length (view_bytes (scan_pattern request)) < 2 ^ 64"
    and matcher: "CompileMaskedPattern (view_bytes (scan_pattern request)) (view_bytes (scan_mask request)) = Some matcher"
    and chunk: "length (view_bytes (scan_pattern request)) \<le> rb" "rb = length buffer"
      "last_offset = rb - length (view_bytes (scan_pattern request))" "last_offset < u"
    and hit: "\<And>k. k < u \<Longrightarrow> hit (env_query env) m (view_bytes (scan_pattern request)) (view_bytes (scan_mask request))
        (cursor + word_of_nat k) \<longleftrightarrow>
        k + length (view_bytes (scan_pattern request)) \<le> rb \<and>
        masked_match (view_bytes (scan_pattern request)) (view_bytes (scan_mask request)) buffer k"
    and c: "\<And>k. k \<le> u \<Longrightarrow> cursor + word_of_nat k = word_of_nat (c + k)" "lo \<le> c"
      "unat (cursor + word_of_nat u) = c + u" "\<And>k. k < u \<Longrightarrow> unat (cursor + word_of_nat k) = c + k"
    and st: "found_upto (env_query env) m request lo (c + offset) scanned st" "offset \<le> Suc last_offset"
  shows "case window_loop env request matcher info cursor (cursor + word_of_nat u) buffer last_offset offset st of
      Inl r \<Rightarrow> scan_code r \<noteq> []
    | Inr st' \<Rightarrow> found_upto (env_query env) m request lo (c + u) scanned st'"
  using st
proof (induction "Suc last_offset - offset" arbitrary: offset st rule: less_induct)
  case less
  let ?p = "view_bytes (scan_pattern request)" and ?q = "view_bytes (scan_mask request)"
  let ?e = "min (last_offset + 1) (offset + kCancellationCandidateWindow)"
  let ?hit = "hit (env_query env) m ?p ?q"
  have nohit: "found_upto (env_query env) m request lo (c + j) scanned st"
    if "i \<le> j" "j \<le> u" "found_upto (env_query env) m request lo (c + i) scanned st"
      "\<And>k. i \<le> k \<Longrightarrow> k < j \<Longrightarrow> \<not> ?hit (cursor + word_of_nat k)" for i j st
  proof (rule found_upto_extend [OF that(3)])
    show "lo \<le> c + i" "c + i \<le> c + j" using c(2) that(1) by simp_all
    fix x
    assume "c + i \<le> x" and "x < c + j"
    then have "\<not> ?hit (cursor + word_of_nat (x - c))" by (intro that(4)) auto
    moreover have "cursor + word_of_nat (x - c) = word_of_nat (c + (x - c))"
      using \<open>x < c + j\<close> that(2) by (intro c(1)) auto
    moreover have "c + (x - c) = x" using \<open>c + i \<le> x\<close> by simp
    ultimately show "\<not> ?hit (word_of_nat x)" by metis
  qed
  show ?case
  proof (cases "offset \<le> last_offset")
    case False
    with less.prems(2) have o: "offset = Suc last_offset" by simp
    have "\<not> ?hit (cursor + word_of_nat k)" if "offset \<le> k" "k < u" for k
    proof -
      have "\<not> k + length ?p \<le> rb" using that(1) o chunk(1,3) by linarith
      with hit [OF that(2)] show ?thesis by simp
    qed
    with nohit [of offset u st] less.prems chunk(4) o
    have "found_upto (env_query env) m request lo (c + u) scanned st" by simp
    with False show ?thesis
      by (simp add: window_loop.simps [of env request matcher info cursor _ buffer last_offset offset st])
  next
    case True
    define st1 where "st1 = count_window (tick st)"
    have st1: "found_upto (env_query env) m request lo (c + offset) scanned st1"
      using less.prems(1) by (simp add: st1_def)
    have e: "offset < ?e" "?e \<le> Suc last_offset" using True by (auto simp: kCancellationCandidateWindow_def)
    have find: "fst (FindNext matcher buffer offset ?e None) = find (masked_match ?p ?q buffer) [offset..<?e]"
      using chunk e by (intro FindNext_find [OF matcher]) auto
    have hit_k: "?hit (cursor + word_of_nat k) \<longleftrightarrow> masked_match ?p ?q buffer k" if "k \<le> last_offset" for k
      using hit [of k] that chunk by auto
    note unfold = window_loop.simps [of env request matcher info cursor "cursor + word_of_nat u" buffer last_offset offset st]
    show ?thesis
    proof (cases "env_cancel env (st_calls st)")
      case cancelled: True
      then have "window_step env request matcher info cursor (cursor + word_of_nat u) buffer last_offset offset st = Inl (timed_out st)"
        by (simp add: window_step_def)
      then show ?thesis using True unfold by (simp add: timed_out_def)
    next
      case go: False
      show ?thesis
      proof (cases "find (masked_match ?p ?q buffer) [offset..<?e]")
        case None
        then have "window_step env request matcher info cursor (cursor + word_of_nat u) buffer last_offset offset st =
            Inr (Some ?e, st1)" using go find by (simp add: window_step_def Let_def st1_def)
        moreover have "found_upto (env_query env) m request lo (c + ?e) scanned st1"
        proof (rule nohit [OF _ _ st1])
          show "offset \<le> ?e" "?e \<le> u" using e chunk(4) by auto
          show "\<not> ?hit (cursor + word_of_nat k)" if "offset \<le> k" "k < ?e" for k
            using None that hit_k [of k] e by (auto simp: find_upt_None)
        qed
        ultimately show ?thesis
          using less.hyps [of ?e st1] e True unfold by (simp del: min_less_iff_conj)
      next
        case (Some n)
        from find_upt_Some [OF this] have n: "offset \<le> n" "n < ?e" "masked_match ?p ?q buffer n"
          "\<And>k. offset \<le> k \<Longrightarrow> k < n \<Longrightarrow> \<not> masked_match ?p ?q buffer k" by auto
        then have nu: "n < u" "n \<le> last_offset" using e chunk(4) by auto
        have here: "?hit (cursor + word_of_nat n)" using n(3) hit_k [OF nu(2)] by simp
        have addr: "cursor + word_of_nat n = word_of_nat (c + n)" using nu(1) by (intro c(1)) simp
        have st2: "found_upto (env_query env) m request lo (c + n) scanned st1"
          using n nu hit_k by (intro nohit [OF _ _ st1]) auto
        have below: "\<not> cursor + word_of_nat n \<ge> cursor + word_of_nat u"
          using c(3) c(4) [OF nu(1)] nu(1) by (simp add: word_le_nat_alt)
        have "\<not> overlaps_excluded request (scan_matches (st_result st1)) (cursor + word_of_nat n)"
          by (rule no_overlap [OF st2 request here])
        with go find Some below have step: "window_step env request matcher info cursor (cursor + word_of_nat u) buffer last_offset offset st =
            bindE (report_match env request info cursor buffer n st1) (\<lambda>st. Inr (Some (Suc n), st))"
          by (simp add: window_step_def Let_def st1_def)
        show ?thesis
        proof (cases "report_match env request info cursor buffer n st1")
          case (Inl r)
          with step True unfold report_match_Inl [OF Inl] show ?thesis by simp
        next
          case (Inr st3)
          have "found_upto (env_query env) m request lo (Suc (c + n)) scanned st3"
            using c(2) here addr by (intro report_match_found [OF Inr st2 _ addr]) auto
          with less.hyps [of "Suc n" st3] n(1) nu(2) step Inr True unfold show ?thesis by simp
        qed
      qed
    qed
  qed
qed

text \<open>A chunk, a round and the whole loop.\<close>

lemma scan_unique_found:
  assumes request: "request_views (env_query env) request" "view_bytes (scan_pattern request) \<noteq> []"
      "length (view_bytes (scan_pattern request)) < 2 ^ 64"
    and matcher: "CompileMaskedPattern (view_bytes (scan_pattern request)) (view_bytes (scan_mask request)) = Some matcher"
    and i: "env_query env cursor = Some i" "IsEligiblePrivateReadableRegion i"
    and u: "0 < u" "u \<le> region_limit i - unat cursor"
    and st: "found_upto (env_query env) m request lo (unat cursor) scanned st" "lo \<le> unat cursor"
  shows "case scan_unique env request matcher i (BaseAddress i + RegionSize i) cursor u st of
      Inl r \<Rightarrow> scan_code r \<noteq> []
    | Inr st' \<Rightarrow> found_upto (env_query env) m request lo (unat cursor + u) scanned st'"
proof -
  let ?p = "view_bytes (scan_pattern request)" and ?q = "view_bytes (scan_mask request)"
  let ?E = "BaseAddress i + RegionSize i" and ?A = "cursor + word_of_nat u"
  note lim = region_end_limit [OF i(1)]
  have a: "unat (cursor + word_of_nat k) = unat cursor + k" if "k \<le> u" for k
    using that u lim by (intro unat_add_of_nat) auto
  have "unat (?E - ?A) = unat ?E - unat ?A"
    using a [of u] u lim by (intro unat_sub) (simp add: word_le_nat_alt)
  then have look: "unat (?E - ?A) = region_limit i - unat cursor - u" using a [of u] lim by simp
  define rb where "rb = u + min (length ?p - 1) (region_limit i - unat cursor - u)"
  have hit: "hit (env_query env) m ?p ?q (cursor + word_of_nat k) \<longleftrightarrow>
      k + length ?p \<le> rb \<and> masked_match ?p ?q (mem_read m cursor rb) k" if "k < u" for k
    by (rule hit_in_chunk [OF i u request(2) rb_def that])
  have of_nat: "cursor + word_of_nat k = word_of_nat (unat cursor + k)" for k
    by simp
  have rb: "u + min (length ?p - 1) (unat (?E - ?A)) = rb" by (simp only: look rb_def)
  obtain ok buffer where rd: "env_read env cursor rb = (ok, buffer)" by (metis surj_pair)
  show ?thesis
  proof (cases "env_cancel env (st_calls st) \<or> \<not> ok \<or> length buffer \<noteq> rb")
    case True
    then show ?thesis using rd
      unfolding scan_unique_def Let_def rb
      by (auto simp: timed_out_def result_code_def kMemoryAccessDenied_def)
  next
    case False
    then have buf: "buffer = mem_read m cursor rb" using read_snapshot [of cursor rb buffer] rd by (cases ok) auto
    let ?st = "count_chunk u (tick st)"
    have unf: "scan_unique env request matcher i ?E cursor u st =
        (if rb \<ge> length ?p then window_loop env request matcher i cursor ?A buffer (rb - length ?p) 0 ?st
         else Inr ?st)"
      using False rd unfolding scan_unique_def Let_def rb by simp
    show ?thesis
    proof (cases "length ?p \<le> rb")
      case True
      have "rb - length ?p < u" using u(1) request(2) by (cases ?p) (auto simp: rb_def)
      moreover have "found_upto (env_query env) m request lo (unat cursor + 0) scanned ?st"
        using st(1) by simp
      ultimately show ?thesis
        unfolding unf using True False a st(2)
        by (simp only: if_True)
          (intro window_loop_found [OF request matcher True _ refl _ _ of_nat]; simp add: buf hit)
    next
      case False
      have "found_upto (env_query env) m request lo (unat cursor + u) scanned ?st"
      proof (rule found_upto_extend)
        show "found_upto (env_query env) m request lo (unat cursor) scanned ?st" using st(1) by simp
        show "lo \<le> unat cursor" by (rule st(2))
        fix x
        assume x: "unat cursor \<le> x" "x < unat cursor + u"
        then have "\<not> hit (env_query env) m ?p ?q (cursor + word_of_nat (x - unat cursor))"
          using False hit [of "x - unat cursor"] by auto
        moreover have "cursor + word_of_nat (x - unat cursor) = word_of_nat x"
          using x of_nat [of "x - unat cursor"] by simp
        ultimately show "\<not> hit (env_query env) m ?p ?q (word_of_nat x)" by metis
      qed simp
      then show ?thesis using unf False by simp
    qed
  qed
qed

end

definition page_found :: "query \<Rightarrow> memory \<Rightarrow> ScanRequest \<Rightarrow> nat \<Rightarrow> addr \<Rightarrow> ScanResult \<Rightarrow> bool" where
  "page_found vq m request lo maximum r \<longleftrightarrow>
     (\<exists>hi. map match_address (scan_matches r) =
         map (\<lambda>x. FormatAddress (word_of_nat x))
           (hits vq m (view_bytes (scan_pattern request)) (view_bytes (scan_mask request)) lo hi) \<and>
       length (scan_matches r) \<le> max_matches request \<and> scanned_bytes r \<le> kMaxScanPageBytes \<and>
       (if scan_complete r then next_cursor r = None \<and> unat maximum < hi
        else next_cursor r = Some (FormatAddress (word_of_nat hi)) \<and> lo \<le> hi \<and> hi \<le> unat maximum))"

lemma page_foundI:
  assumes "found_upto vq m request lo hi scanned st" and "scanned \<le> kMaxScanPageBytes"
  shows "unat maximum < hi \<Longrightarrow> page_found vq m request lo maximum ((st_result st)\<lparr>scan_complete := True\<rparr>)"
    and "lo \<le> hi \<Longrightarrow> hi \<le> unat maximum \<Longrightarrow> page_found vq m request lo maximum
      ((st_result st)\<lparr>next_cursor := Some (FormatAddress (word_of_nat hi))\<rparr>)"
  using assms by (auto simp: page_found_def found_upto_def intro!: exI [of _ hi])

context scan_world
begin

lemma finish_chunk_found:
  assumes "found_upto (env_query env) m request lo (unat c) scanned st" and "scanned \<le> kMaxScanPageBytes"
    and "lo \<le> unat c"
  shows "case finish_chunk env c region_end st of
      Inl r \<Rightarrow> page_found (env_query env) m request lo (max_app env) r
    | Inr (c', st') \<Rightarrow> c' = c \<and> st' = st"
  using page_foundI [OF assms(1,2), of "max_app env"] assms(3)
  by (auto simp: finish_chunk_def ClassifyScanPageBoundary_def word_less_nat_alt word_le_nat_alt not_less)

lemma scan_chunk_found:
  assumes request: "request_views (env_query env) request" "view_bytes (scan_pattern request) \<noteq> []"
      "length (view_bytes (scan_pattern request)) < 2 ^ 64"
    and matcher: "CompileMaskedPattern (view_bytes (scan_pattern request)) (view_bytes (scan_mask request)) = Some matcher"
    and i: "env_query env cursor = Some i" "IsEligiblePrivateReadableRegion i"
    and c: "lo \<le> unat cursor" "cursor \<le> max_app env"
    and st: "found_upto (env_query env) m request lo (unat cursor) scanned st" "scanned \<le> kMaxScanPageBytes"
  shows "case scan_chunk env request matcher i (BaseAddress i + RegionSize i) cursor st of
      Inl r \<Rightarrow> scan_code r \<noteq> [] \<or> page_found (env_query env) m request lo (max_app env) r
    | Inr (c', st') \<Rightarrow> \<exists>scanned' \<le> kMaxScanPageBytes. lo \<le> unat c' \<and>
        found_upto (env_query env) m request lo (unat c') scanned' st'"
proof -
  let ?E = "BaseAddress i + RegionSize i"
  note lim = region_end_limit [OF i(1)]
  have sc: "scanned_bytes (st_result st) = scanned" using st(1) by (simp add: found_upto_def)
  define u where "u = chunk_size ?E cursor st"
  have d: "unat (?E - cursor) = region_limit i - unat cursor"
    using lim by (subst unat_sub) (auto simp: word_le_nat_alt)
  show ?thesis
  proof (cases "kMaxScanPageBytes - scanned = 0")
    case True
    with page_foundI(2) [OF st c(1), of "max_app env"] c(2) show ?thesis
      by (simp add: scan_chunk_def sc word_le_nat_alt)
  next
    case False
    then have u: "0 < u" "u \<le> region_limit i - unat cursor" "scanned + u \<le> kMaxScanPageBytes"
      using lim(2) st(2) by (auto simp: u_def chunk_size_def d sc kScanChunkBytes_def)
    have a: "unat (cursor + word_of_nat u) = unat cursor + u"
      using u lim by (intro unat_add_of_nat) auto
    note found = scan_unique_found [OF request matcher i u(1,2) st(1) c(1)]
    show ?thesis
    proof (cases "scan_unique env request matcher i ?E cursor u st")
      case (Inl r)
      with found False show ?thesis by (simp add: scan_chunk_def sc u_def [symmetric])
    next
      case (Inr st')
      with found have "found_upto (env_query env) m request lo (unat (cursor + word_of_nat u)) (scanned + u) (add_scanned u st')"
        by (simp add: a)
      from finish_chunk_found [OF this u(3), of ?E] this u(3) c(1) Inr False show ?thesis
        by (auto simp: scan_chunk_def sc u_def [symmetric] a split: sum.splits)
    qed
  qed
qed

lemma scan_step_found:
  assumes request: "request_views (env_query env) request" "view_bytes (scan_pattern request) \<noteq> []"
      "length (view_bytes (scan_pattern request)) < 2 ^ 64"
    and matcher: "CompileMaskedPattern (view_bytes (scan_pattern request)) (view_bytes (scan_mask request)) = Some matcher"
    and buffer: "env_alloc env 0 capacity = Some buffer_begin" "0 < capacity"
    and c: "lo \<le> unat cursor" "cursor \<le> max_app env"
    and st: "found_upto (env_query env) m request lo (unat cursor) scanned st" "scanned \<le> kMaxScanPageBytes"
  shows "case scan_step env request matcher buffer_begin (buffer_begin + word_of_nat capacity) cursor st of
      Inl r \<Rightarrow> scan_code r \<noteq> [] \<or> page_found (env_query env) m request lo (max_app env) r
    | Inr (c', st') \<Rightarrow> \<exists>scanned' \<le> kMaxScanPageBytes. lo \<le> unat c' \<and>
        found_upto (env_query env) m request lo (unat c') scanned' st'"
proof (cases "env_cancel env (st_calls st)")
  case True
  then show ?thesis by (simp add: scan_step_def timed_out_def)
next
  case go: False
  show ?thesis
  proof (cases "env_query env cursor")
    case None
    with go show ?thesis by (simp add: scan_step_def result_code_def kMemoryAccessDenied_def Let_def)
  next
    case (Some i)
    let ?E = "BaseAddress i + RegionSize i"
    note lim = region_end_limit [OF Some]
    note basic = region_end(2,3) [OF Some]
    have st': "found_upto (env_query env) m request lo (unat cursor) scanned (tick st)" using st(1) by simp
    have no_buffer: "\<not> (cursor < buffer_begin + word_of_nat capacity \<and> buffer_begin < ?E)"
      if el: "IsEligiblePrivateReadableRegion i"
    proof
      assume o: "cursor < buffer_begin + word_of_nat capacity \<and> buffer_begin < ?E"
      have v: "unscanned_view (env_query env) buffer_begin capacity" by (rule views [OF buffer(1)])
      then have e: "unat (buffer_begin + word_of_nat capacity) = unat buffer_begin + capacity"
        by (intro unat_add_of_nat) (simp add: unscanned_view_def)
      define x where "x = max cursor buffer_begin"
      have x: "unat buffer_begin \<le> unat x" "unat x < unat buffer_begin + capacity" "in_region i x"
        using o lim e buffer(2)
        by (auto simp: x_def max_def word_le_nat_alt word_less_nat_alt in_region_def region_limit_def)
      from region_same [OF Some x(3)] el have "eligible_at (env_query env) x" by (auto simp: eligible_at_def)
      with v x show False by (auto simp: unscanned_view_def)
    qed
    show ?thesis
    proof (cases "IsEligiblePrivateReadableRegion i")
      case True
      have "scan_step env request matcher buffer_begin (buffer_begin + word_of_nat capacity) cursor st =
          scan_chunk env request matcher i ?E cursor (tick st)"
        using go Some basic no_buffer [OF True] True by (auto simp: scan_step_def Let_def AddOverflows_def)
      with scan_chunk_found [OF request matcher Some True c st' st(2)] show ?thesis by simp
    next
      case False
      have skip: "found_upto (env_query env) m request lo (unat ?E) scanned (tick st)"
      proof (rule found_upto_extend [OF st' c(1)])
        show "unat cursor \<le> unat ?E" using lim by simp
        fix x
        assume "unat cursor \<le> x" and "x < unat ?E"
        moreover from this lim have "unat (word_of_nat x :: addr) = x" by (intro unat_of_nat_u64) simp
        ultimately have "in_region i (word_of_nat x)" using lim by (auto simp: in_region_def region_limit_def)
        from region_same [OF Some this] False
        show "\<not> hit (env_query env) m (view_bytes (scan_pattern request)) (view_bytes (scan_mask request)) (word_of_nat x)"
          by (auto simp: hit_def)
      qed
      have step: "scan_step env request matcher buffer_begin (buffer_begin + word_of_nat capacity) cursor st =
          (if ?E > max_app env then Inl ((st_result (tick st))\<lparr>scan_complete := True\<rparr>) else Inr (?E, tick st))"
        using go Some basic False by (simp add: scan_step_def Let_def AddOverflows_def)
      show ?thesis
      proof (cases "?E > max_app env")
        case True
        then have "page_found (env_query env) m request lo (max_app env) ((st_result (tick st))\<lparr>scan_complete := True\<rparr>)"
          by (intro page_foundI(1) [OF skip st(2)]) (simp add: word_less_nat_alt)
        with True step show ?thesis by simp
      next
        case f: False
        have "lo \<le> unat ?E" using c(1) lim by simp
        with skip st(2) f step show ?thesis by auto
      qed
    qed
  qed
qed

lemma scan_loop_found:
  assumes request: "request_views (env_query env) request" "view_bytes (scan_pattern request) \<noteq> []"
      "length (view_bytes (scan_pattern request)) < 2 ^ 64"
    and matcher: "CompileMaskedPattern (view_bytes (scan_pattern request)) (view_bytes (scan_mask request)) = Some matcher"
    and buffer: "env_alloc env 0 capacity = Some buffer_begin" "0 < capacity"
    and st: "lo \<le> unat cursor" "found_upto (env_query env) m request lo (unat cursor) scanned st"
      "scanned \<le> kMaxScanPageBytes"
  defines "r \<equiv> scan_loop env request matcher buffer_begin (buffer_begin + word_of_nat capacity) cursor st"
  shows "scan_code r \<noteq> [] \<or> page_found (env_query env) m request lo (max_app env) r"
  unfolding r_def using st
proof (induction "2 ^ 64 - unat cursor" arbitrary: cursor st scanned rule: less_induct)
  case less
  let ?B = "buffer_begin + word_of_nat capacity"
  note unf = scan_loop.simps [of env request matcher buffer_begin ?B cursor st]
  show ?case
  proof (cases "cursor \<le> max_app env")
    case False
    then have "page_found (env_query env) m request lo (max_app env) ((st_result st)\<lparr>scan_complete := True\<rparr>)"
      by (intro page_foundI(1) [OF less.prems(2,3)]) (simp add: word_less_nat_alt word_le_nat_alt)
    with False unf show ?thesis by simp
  next
    case True
    note found = scan_step_found [OF request matcher buffer less.prems(1) True less.prems(2,3)]
    show ?thesis
    proof (cases "scan_step env request matcher buffer_begin ?B cursor st")
      case (Inl r)
      with found True unf show ?thesis by simp
    next
      case (Inr res)
      then obtain c st' where s: "scan_step env request matcher buffer_begin ?B cursor st = Inr (c, st')"
        by (cases res) auto
      from scan_step_advances(1) [OF s] have "2 ^ 64 - unat c < 2 ^ 64 - unat cursor"
        using unat_lt_2p64 [of c] by (simp add: word_less_nat_alt)
      with less.hyps [of c _ st'] found s True unf show ?thesis by auto
    qed
  qed
qed

lemma ScanPrivateMemory_found:
  assumes views: "request_views (env_query env) request"
    and start: "scan_start env request = Some start"
    and ok: "scan_code (ScanPrivateMemory env request) = []"
  shows "page_found (env_query env) m request (unat start) (max_app env) (ScanPrivateMemory env request)"
proof -
  let ?p = "view_bytes (scan_pattern request)" and ?q = "view_bytes (scan_mask request)"
  let ?cap = "kScanChunkBytes + length ?p - 1"
  let ?st = "\<lparr>st_result = empty_result, st_extents = Map.empty, st_calls = 0, st_allocs = 1\<rparr>"
  from ok have lens: "length ?p \<ge> (if scan_purpose request = kFrtkInternal then kMinFrtkPatternBytes else kMinPatternBytes)"
      "length ?p \<le> kMaxPatternBytes"
    by (auto simp: ScanPrivateMemory_def Let_def kInvalidRequest_def split: if_splits)
  then have p: "?p \<noteq> []" "length ?p < 2 ^ 64"
    by (auto simp: kMinFrtkPatternBytes_def kMinPatternBytes_def kMaxPatternBytes_def split: if_splits)
  from ok obtain matcher where mt: "CompileMaskedPattern ?p ?q = Some matcher"
    by (auto simp: ScanPrivateMemory_def Let_def kInvalidRequest_def split: if_splits option.splits)
  with ok start obtain buffer_begin where b: "env_alloc env 0 ?cap = Some buffer_begin"
    by (auto simp: ScanPrivateMemory_def Let_def kInvalidRequest_def kMemoryAccessDenied_def
        split: if_splits option.splits)
  from ok start mt b have r: "ScanPrivateMemory env request =
      scan_loop env request matcher buffer_begin (buffer_begin + word_of_nat ?cap) start ?st"
    by (simp add: ScanPrivateMemory_def Let_def kInvalidRequest_def split: if_splits)
  have "found_upto (env_query env) m request (unat start) (unat start) 0 ?st"
    by (simp add: found_upto_def empty_result_def hits_def)
  from scan_loop_found [OF views p mt b _ le_refl this] ok show ?thesis
    unfolding r by (auto simp: kScanChunkBytes_def)
qed

end

section \<open>The process as the scanned world\<close>

text \<open>The scan of a process. \<open>pick\<close> proposes where a buffer is mapped; like \<open>Allocate\<close> it is refused
  unless the view lies outside private memory.\<close>

definition process_env ::
  "process \<Rightarrow> addr \<Rightarrow> addr \<Rightarrow> (nat \<Rightarrow> nat \<Rightarrow> addr option) \<Rightarrow> (nat \<Rightarrow> bool) \<Rightarrow> ScanEnv" where
  "process_env s lo hi pick cancel =
     \<lparr>min_app = lo, max_app = hi, env_query = space_query (pages s),
      env_read = \<lambda>a n. fst (ReadProcessMemory windows s a n),
      env_alloc = \<lambda>k n.
        (case pick k n of
           None \<Rightarrow> None
         | Some v \<Rightarrow>
             if unat v + n < 2 ^ 64 \<and>
                list_all (\<lambda>i. \<not> eligible_at (space_query (pages s)) (v + word_of_nat i)) [0..<n]
             then Some v else None),
      env_cancel = cancel\<rparr>"

lemma space_query_Some:
  assumes "space_query sp a = Some i"
  shows "i \<in> set (regions_of sp)" "in_region i a"
  using find_Some_iff [OF assms [unfolded space_query_def]] by auto

lemma space_query_same:
  assumes "space_query sp a = Some i" and "in_region i b"
  shows "space_query sp b = Some i"
proof -
  have "wf_space (regions_of sp)" using regions_of [of sp] by simp
  with space_query_Some(1) [OF assms(1)] assms(2) show ?thesis
    by (auto simp: space_query_def wf_space_def intro: find_disjoint)
qed

interpretation process_scan: scan_world "process_env s lo hi pick cancel" "ram s"
  for s lo hi pick cancel
proof unfold_locales
  let ?env = "process_env s lo hi pick cancel"
  have q: "env_query ?env = space_query (pages s)" by (simp add: process_env_def)
  show "in_region i a" if "env_query ?env a = Some i" for a i
    using that space.covers unfolding q by blast
  show "unat (BaseAddress i) + unat (RegionSize i) < 2 ^ 64" if "env_query ?env a = Some i" for a i
    using that space.no_wrap unfolding q by blast
  show "\<exists>j. env_query ?env b = Some j \<and> same_attributes i j"
    if "env_query ?env a = Some i" "in_region i b" for a i b
    using that space.uniform unfolding q by blast
  show "region_limit j = region_limit i"
    if "env_query ?env a = Some i" "in_region i b" "env_query ?env b = Some j" for a i b j
    using that space_query_same [of "pages s" a i b] unfolding q by simp
  show "bytes = mem_read (ram s) a n" if "env_read ?env a n = (True, bytes)" "length bytes = n" for a n bytes
    using that by (auto simp: process_env_def windows_def split: if_splits)
  show "unscanned_view (env_query ?env) v n" if "env_alloc ?env k n = Some v" for k n v
  proof -
    from that have v: "unat v + n < 2 ^ 64"
      and out: "\<And>i. i < n \<Longrightarrow> \<not> eligible_at (space_query (pages s)) (v + word_of_nat i)"
      by (auto simp: process_env_def list_all_iff split: option.splits if_splits)
    have "\<not> eligible_at (space_query (pages s)) x"
      if "unat v \<le> unat x" "unat x < unat v + n" for x :: addr
    proof -
      have "v + word_of_nat (unat x - unat v) = x"
        using that v unat_lt_2p64 [of x] by (intro word_unat_eq_iff [THEN iffD2]) (simp add: unat_add_of_nat)
      with out [of "unat x - unat v"] that show ?thesis by simp
    qed
    with v show ?thesis unfolding q unscanned_view_def by blast
  qed
qed

text \<open>A world of one 32-byte region with one occurrence of the pattern.\<close>

definition tiny_region :: MEMORY_BASIC_INFORMATION where
  "tiny_region = (sample_region 0x10000 PAGE_READWRITE)\<lparr>RegionSize := 0x20\<rparr>"

definition tiny_process :: process where
  "tiny_process = \<lparr>pages = space_of [tiny_region], ram = \<lambda>a. if a = 0x10008 then 7 else 0\<rparr>"

definition tiny_env :: ScanEnv where
  "tiny_env = process_env tiny_process 0x10000 0x1001F (\<lambda>k n. Some 0x20000000) (\<lambda>_. False)"

definition tiny_request :: ScanRequest where
  "tiny_request = \<lparr>scan_pattern = \<lparr>view_address = 0x30000000, view_bytes = [7, 0, 0, 0, 0, 0, 0, 0]\<rparr>,
     scan_mask = \<lparr>view_address = 0x30010000, view_bytes = [255, 255, 255, 255, 255, 255, 255, 255]\<rparr>,
     max_matches = 4, context_before = 0, context_after = 0, scan_cursor = None,
     include_allocation_metadata = False, scan_purpose = kPublicRaw\<rparr>"

lemma tiny_regions: "regions_of (space_of [tiny_region]) = [tiny_region]"
  by (simp add: space_of_inverse wf_space_def tiny_region_def sample_region_def)

lemma tiny_in_region: "in_region tiny_region a \<longleftrightarrow> 0x10000 \<le> unat a \<and> unat a < 0x10020"
  by (simp add: in_region_def tiny_region_def sample_region_def)

lemma tiny_env_simps:
  "min_app tiny_env = 0x10000" "max_app tiny_env = 0x1001F" "env_cancel tiny_env = (\<lambda>_. False)"
  "env_query tiny_env a = (if 0x10000 \<le> unat a \<and> unat a < 0x10020 then Some tiny_region else None)"
  by (simp_all add: tiny_env_def process_env_def tiny_process_def space_query_def tiny_regions tiny_in_region)

lemma tiny_eligible: "eligible_at (env_query tiny_env) a \<Longrightarrow> unat a < 0x10020"
  by (auto simp: eligible_at_def tiny_env_simps split: if_splits)

lemma tiny_alloc:
  assumes "n < 2 ^ 32"
  shows "env_alloc tiny_env k n = Some 0x20000000"
proof -
  have "\<not> eligible_at (space_query (pages tiny_process)) (0x20000000 + word_of_nat i)" if "i < n" for i
  proof -
    have "unat ((0x20000000 :: addr) + word_of_nat i) = 0x20000000 + i"
      using that assms by (subst unat_add_of_nat) auto
    moreover have "env_query tiny_env = space_query (pages tiny_process)"
      by (simp add: tiny_env_def process_env_def)
    ultimately show ?thesis using tiny_eligible [of "0x20000000 + word_of_nat i"] by auto
  qed
  with assms show ?thesis by (simp add: tiny_env_def process_env_def list_all_iff)
qed

lemma tiny_read: "env_read tiny_env 0x10000 32 = (True, mem_read (ram tiny_process) 0x10000 32)"
proof -
  have "accessible tiny_process False 0x10000 32"
    by (auto simp: accessible_def list_all_iff usable_at_def tiny_process_def space_query_def tiny_regions
        tiny_in_region unat_add_of_nat)
      (auto simp: tiny_region_def sample_region_def IsReadableProtection_def win_constants)
  then show ?thesis by (simp add: tiny_env_def process_env_def windows_def)
qed

lemma tiny_views: "request_views (env_query tiny_env) tiny_request"
  using tiny_eligible by (force simp: request_views_def tiny_request_def unscanned_view_def)

lemma tiny_compiles: "CompileMaskedPattern (view_bytes (scan_pattern tiny_request)) (view_bytes (scan_mask tiny_request)) =
    Some (the (CompileMaskedPattern (view_bytes (scan_pattern tiny_request)) (view_bytes (scan_mask tiny_request))))"
  by (simp add: CompileMaskedPattern_def tiny_request_def Let_def)

lemma tiny_matches:
  "find (masked_match (view_bytes (scan_pattern tiny_request)) (view_bytes (scan_mask tiny_request))
     (mem_read (ram tiny_process) 0x10000 32)) [0..<25] = Some 8"
  "find (masked_match (view_bytes (scan_pattern tiny_request)) (view_bytes (scan_mask tiny_request))
     (mem_read (ram tiny_process) 0x10000 32)) [9..<25] = None"
proof -
  let ?m = "masked_match (view_bytes (scan_pattern tiny_request)) (view_bytes (scan_mask tiny_request))
     (mem_read (ram tiny_process) 0x10000 32)"
  have buf: "mem_read (ram tiny_process) 0x10000 32 ! i = (if i = 8 then 7 else 0)" if "i < 32" for i
  proof -
    have "(0x10000 :: addr) + word_of_nat i = 0x10008 \<longleftrightarrow> i = 8"
      using that by (simp add: word_unat_eq_iff unat_add_of_nat)
    then show ?thesis using that by (simp add: mem_read_nth tiny_process_def)
  qed
  have m: "?m k \<longleftrightarrow> k = 8" if "k < 25" for k
    using that by (auto simp: masked_match_def tiny_request_def buf upt_rec)
  then show "find ?m [0..<25] = Some 8" by (simp add: upt_rec)
  show "find ?m [9..<25] = None" unfolding find_upt_None using m by auto
qed

lemma tiny_scan:
  "scan_code (ScanPrivateMemory tiny_env tiny_request) = [] \<and> scan_complete (ScanPrivateMemory tiny_env tiny_request)"
proof -
  let ?p = "view_bytes (scan_pattern tiny_request)" and ?q = "view_bytes (scan_mask tiny_request)"
  define matcher where "matcher = the (CompileMaskedPattern ?p ?q)"
  have comp: "CompileMaskedPattern ?p ?q = Some matcher" unfolding matcher_def by (rule tiny_compiles)
  have len: "length ?p = 8" by (simp add: tiny_request_def)
  define buf where "buf = mem_read (ram tiny_process) 0x10000 32"
  have lbuf: "length buf = 32" by (simp add: buf_def)
  have find: "fst (FindNext matcher buf k 25 None) = find (masked_match ?p ?q buf) [k..<25]" for k
    by (rule FindNext_find [OF comp]) (simp_all add: len lbuf)
  have e: "min 25 (k + kCancellationCandidateWindow) = 25" "min 25 kCancellationCandidateWindow = 25" for k
    by (simp_all add: kCancellationCandidateWindow_def)
  have find8: "fst (FindNext matcher buf 0 25 None) = Some 8" "fst (FindNext matcher buf 9 25 None) = None"
    using find [of 0] find [of 9] tiny_matches by (simp_all add: buf_def)
  have report: "\<exists>st'. report_match tiny_env tiny_request tiny_region 0x10000 buf 8 st = Inr st' \<and>
      scan_code (st_result st') = scan_code (st_result st)"
    if "scan_matches (st_result st) = []" for st
    using that by (simp add: report_match_def Let_def lbuf len map_copy_def tiny_alloc)
      (simp add: tiny_request_def lbuf tiny_alloc flip: length_0_conv)
  have none: "\<not> overlaps_excluded tiny_request [] 0x10008"
    by (simp add: overlaps_excluded_def Let_def tiny_request_def OverlapsRange_def AddOverflows_def
        OverlapsMatchContext_def)
  let ?step = "window_step tiny_env tiny_request matcher tiny_region 0x10000 0x10020 buf 24"
  have step9: "?step 9 st = Inr (Some 25, count_window (tick st))" for st
    by (simp add: window_step_def Let_def tiny_env_simps e find8)
  have step0: "?step 0 st = bindE (report_match tiny_env tiny_request tiny_region 0x10000 buf 8 (count_window (tick st)))
      (\<lambda>st. Inr (Some 9, st))" if "scan_matches (st_result st) = []" for st
    using that none by (simp add: window_step_def Let_def tiny_env_simps e find8 count_window_def tick_def)
  have loop: "\<exists>st'. window_loop tiny_env tiny_request matcher tiny_region 0x10000 0x10020 buf 24 0 st = Inr st' \<and>
      scan_code (st_result st') = []"
    if "scan_matches (st_result st) = []" "scan_code (st_result st) = []" for st
  proof -
    have st: "scan_matches (st_result (count_window (tick st))) = []" "scan_code (st_result (count_window (tick st))) = []"
      using that by (simp_all add: count_window_def tick_def)
    from report [OF st(1)] obtain st' where r: "report_match tiny_env tiny_request tiny_region 0x10000 buf 8
        (count_window (tick st)) = Inr st'" "scan_code (st_result st') = []" using st(2) by auto
    have "window_loop tiny_env tiny_request matcher tiny_region 0x10000 0x10020 buf 24 0 st = Inr (count_window (tick st'))"
      using step0 [OF that(1)] step9 r
      by (simp add: window_loop.simps [of _ _ _ _ _ _ _ _ 0] window_loop.simps [of _ _ _ _ _ _ _ _ 9]
          window_loop.simps [of _ _ _ _ _ _ _ _ 25])
    with r(2) show ?thesis by (simp add: count_window_def tick_def)
  qed
  define st0 where "st0 = \<lparr>st_result = empty_result, st_extents = Map.empty, st_calls = 0, st_allocs = 1\<rparr>"
  define st1 where "st1 = count_chunk 32 (tick (tick st0))"
  obtain st2 where w: "window_loop tiny_env tiny_request matcher tiny_region 0x10000 0x10020 buf 24 0 st1 = Inr st2"
    "scan_code (st_result st2) = []"
    using loop [of st1] by (auto simp: st1_def st0_def count_chunk_def tick_def empty_result_def)
  have u: "scan_unique tiny_env tiny_request matcher tiny_region 0x10020 0x10000 32 (tick st0) = Inr st2"
    using w(1) tiny_read by (simp add: scan_unique_def Let_def len tiny_env_simps lbuf st1_def buf_def)
  have size: "chunk_size 0x10020 0x10000 (tick st0) = 32"
    by (simp add: chunk_size_def kScanChunkBytes_def kMaxScanPageBytes_def tick_def st0_def empty_result_def)
  have chunk: "scan_chunk tiny_env tiny_request matcher tiny_region 0x10020 0x10000 (tick st0) =
      Inl ((st_result (add_scanned 32 st2))\<lparr>scan_complete := True\<rparr>)"
  proof -
    have "kMaxScanPageBytes - scanned_bytes (st_result (tick st0)) \<noteq> 0"
      by (simp add: kMaxScanPageBytes_def tick_def st0_def empty_result_def)
    then show ?thesis
      by (simp add: scan_chunk_def size u Let_def finish_chunk_def ClassifyScanPageBoundary_def tiny_env_simps)
  qed
  have elig: "IsEligiblePrivateReadableRegion tiny_region"
    by (simp add: IsEligiblePrivateReadableRegion_def tiny_region_def sample_region_def
        IsReadableProtection_def win_constants)
  have region: "BaseAddress tiny_region = 0x10000" "RegionSize tiny_region = 0x20"
    by (simp_all add: tiny_region_def sample_region_def)
  have step: "scan_step tiny_env tiny_request matcher 0x20000000 be 0x10000 st0 =
      Inl ((st_result (add_scanned 32 st2))\<lparr>scan_complete := True\<rparr>)" for be
    using chunk by (simp add: scan_step_def Let_def tiny_env_simps region elig AddOverflows_def)
  have "ScanPrivateMemory tiny_env tiny_request = (st_result (add_scanned 32 st2))\<lparr>scan_complete := True\<rparr>"
    using comp step
    by (simp add: ScanPrivateMemory_def Let_def, simp add: tiny_request_def scan_start_def tiny_env_simps
        kMinPatternBytes_def kMaxPatternBytes_def kMaxMatches_def kMaxContextBytes_def tiny_alloc kScanChunkBytes_def
        scan_loop.simps [of tiny_env] st0_def)
  with w(2) show ?thesis by (simp add: add_scanned_def)
qed

section \<open>Properties\<close>

text \<open>C14: a scan page is exact. When a scan ends without an error code, the reported matches are, in
  order and without repetition, exactly the addresses from its start up to its end at which the
  whole pattern lies in committed, private, readable memory and every masked byte agrees; the end is
  beyond the last application address when the scan is complete and is the returned cursor
  otherwise. Chunk borders and page borders lose nothing, and the page stays within its limits.\<close>

theorem scan_page_exact:
  assumes "scan_world env m" and "request_views (env_query env) request"
    and "scan_start env request = Some start"
    and "scan_code (ScanPrivateMemory env request) = []"
  shows "\<exists>hi. map match_address (scan_matches (ScanPrivateMemory env request)) =
      map (\<lambda>x. FormatAddress (word_of_nat x))
        (hits (env_query env) m (view_bytes (scan_pattern request)) (view_bytes (scan_mask request)) (unat start) hi) \<and>
    length (scan_matches (ScanPrivateMemory env request)) \<le> max_matches request \<and>
    scanned_bytes (ScanPrivateMemory env request) \<le> kMaxScanPageBytes \<and>
    (if scan_complete (ScanPrivateMemory env request)
     then next_cursor (ScanPrivateMemory env request) = None \<and> unat (max_app env) < hi
     else next_cursor (ScanPrivateMemory env request) = Some (FormatAddress (word_of_nat hi)) \<and>
       unat start \<le> hi \<and> hi \<le> unat (max_app env))"
  using scan_world.ScanPrivateMemory_found [OF assms] unfolding page_found_def .

theorem scan_page_exact_witness:
  "FormatAddress 0x10008 \<in> set (map match_address (scan_matches (ScanPrivateMemory tiny_env tiny_request)))"
proof -
  let ?p = "view_bytes (scan_pattern tiny_request)" and ?q = "view_bytes (scan_mask tiny_request)"
  let ?h = "hits (env_query tiny_env) (ram tiny_process) ?p ?q (unat (0x10000 :: addr))"
  have w: "scan_world tiny_env (ram tiny_process)"
    unfolding tiny_env_def by (rule process_scan.scan_world_axioms)
  have "scan_start tiny_env tiny_request = Some 0x10000"
    by (simp add: scan_start_def tiny_request_def tiny_env_simps)
  from scan_page_exact [OF w tiny_views this] tiny_scan obtain hi where
    h: "map match_address (scan_matches (ScanPrivateMemory tiny_env tiny_request)) =
      map (\<lambda>x. FormatAddress (word_of_nat x)) (?h hi)" "unat (max_app tiny_env) < hi" by auto
  have "mem_read (ram tiny_process) 0x10008 8 = [7, 0, 0, 0, 0, 0, 0, 0]"
    by (simp add: mem_read_def tiny_process_def upt_rec)
  moreover have "masked_match ?p ?q [7, 0, 0, 0, 0, 0, 0, 0] 0" "length ?p = 8"
    by (simp_all add: tiny_request_def masked_match_def upt_rec)
  moreover have "IsEligiblePrivateReadableRegion tiny_region" "region_limit tiny_region = 0x10020"
    by (simp_all add: tiny_region_def sample_region_def region_limit_def
        IsEligiblePrivateReadableRegion_def IsReadableProtection_def win_constants)
  ultimately have "hit (env_query tiny_env) (ram tiny_process) ?p ?q (word_of_nat 0x10008)"
    by (simp add: hit_def tiny_env_simps)
  with h(2) have "0x10008 \<in> set (?h hi)" by (simp add: hits_def tiny_env_simps)
  with h(1) show ?thesis by force
qed

text \<open>The batch read.\<close>

lemma validate_ranges_Inr:
  "validate_ranges vq n0 ranges = Inr vs \<Longrightarrow> n0 \<le> kMaxReadBytes \<Longrightarrow>
   list_all2 (\<lambda>rr v. ParseAddress (rr_address rr) = Some (vr_address v) \<and> vr_length v = rr_length rr \<and>
     vr_formatted v = FormatAddress (vr_address v) \<and> 0 < rr_length rr \<and> rr_length rr \<le> kMaxReadRangeBytes \<and>
     IsWithinOneEligibleRegion vq (vr_address v) (word_of_nat (rr_length rr))) ranges vs \<and>
   n0 + sum_list (map rr_length ranges) \<le> kMaxReadBytes"
proof (induction vq n0 ranges arbitrary: vs rule: validate_ranges.induct)
  case (2 vq n0 rr rest)
  from "2.prems"(1) obtain a ws where a: "ParseAddress (rr_address rr) = Some a"
    and ok: "0 < rr_length rr" "rr_length rr \<le> kMaxReadRangeBytes" "n0 + rr_length rr \<le> kMaxReadBytes"
      "IsWithinOneEligibleRegion vq a (word_of_nat (rr_length rr))"
      "\<not> AddOverflows a (word_of_nat (rr_length rr))" "\<not> rr_length rr > 2 ^ 64 - 1 - n0"
    and ws: "validate_ranges vq (n0 + rr_length rr) rest = Inr ws"
      "vs = \<lparr>vr_address = a, vr_length = rr_length rr, vr_formatted = FormatAddress a\<rparr> # ws"
    by (auto simp: bindE_Inr_iff not_le split: option.splits if_splits)
  from "2.IH" [OF a _ _ ws(1)] ok a ws(2) show ?case by auto
qed simp

lemma validate_ranges_Inl: "validate_ranges vq n0 ranges = Inl c \<Longrightarrow> c \<noteq> []"
  by (induction vq n0 ranges arbitrary: c rule: validate_ranges.induct)
    (auto simp: kInvalidRequest_def kMemoryAccessDenied_def bindE_Inl_iff split: option.splits if_splits)

lemma read_ranges_bytes:
  assumes "os_process os mem"
  shows "read_ranges os vs s = (res, s') \<Longrightarrow> mem s' = mem s \<and>
    (\<forall>reads. res = Some reads \<longrightarrow> list_all2 (\<lambda>v r. rd_address r = vr_formatted v \<and>
       rd_bytes r = mem_read (mem s) (vr_address v) (vr_length v)) vs reads)"
proof (induction vs arbitrary: s res s')
  case (Cons v vs)
  obtain ok copied t where r: "ReadProcessMemory os s (vr_address v) (vr_length v) = ((ok, copied), t)"
    by (metis surj_pair)
  have t: "mem t = mem s" using os_process.rpm_mem [OF assms, of s "vr_address v" "vr_length v"] r by simp
  show ?case
  proof (cases "ok \<and> length copied = vr_length v")
    case False
    with Cons.prems r t show ?thesis by auto
  next
    case True
    then have "copied = mem_read (mem s) (vr_address v) (vr_length v)"
      using os_process.rpm_bytes [OF assms, of s "vr_address v" "vr_length v" copied t] r by simp
    moreover obtain res' u where u: "read_ranges os vs t = (res', u)" by (metis surj_pair)
    ultimately show ?thesis using Cons.IH [OF u] Cons.prems r True t
      by (auto split: option.splits)
  qed
qed simp

lemma ReadMemoryBatch_result:
  assumes "os_process os mem" and "ReadMemoryBatch os ranges s = (r, s')"
  shows "mem s' = mem s \<and>
    (if batch_ok r
     then ranges \<noteq> [] \<and> length ranges \<le> kMaxReadRanges \<and>
       sum_list (map rr_length ranges) \<le> kMaxReadBytes \<and>
       list_all2 (\<lambda>rr rd. \<exists>a. ParseAddress (rr_address rr) = Some a \<and> rd_address rd = FormatAddress a \<and>
           rd_bytes rd = mem_read (mem s) a (rr_length rr) \<and>
           IsWithinOneEligibleRegion (VirtualQuery os s) a (word_of_nat (rr_length rr)))
         ranges (batch_ranges r)
     else batch_ranges r = [] \<and> batch_code r \<noteq> [])"
proof (cases "ranges = [] \<or> length ranges > kMaxReadRanges")
  case True
  with assms(2) show ?thesis by (auto simp: ReadMemoryBatch_def batch_failed_def kInvalidRequest_def)
next
  case ok: False
  show ?thesis
  proof (cases "validate_ranges (VirtualQuery os s) 0 ranges")
    case (Inl c)
    have "c \<noteq> []" by (rule validate_ranges_Inl [OF Inl])
    with Inl ok assms(2) show ?thesis by (auto simp: ReadMemoryBatch_def batch_failed_def)
  next
    case (Inr vs)
    obtain res t where t: "read_ranges os vs s = (res, t)" by (metis surj_pair)
    note b = read_ranges_bytes [OF assms(1) t]
    show ?thesis
    proof (cases res)
      case None
      with Inr t ok assms(2) b show ?thesis
        by (auto simp: ReadMemoryBatch_def batch_failed_def kMemoryAccessDenied_def)
    next
      case (Some reads)
      with Inr t ok assms(2) have r: "r = \<lparr>batch_ok = True, batch_code = [], batch_ranges = reads\<rparr>" "s' = t"
        by (auto simp: ReadMemoryBatch_def)
      from validate_ranges_Inr [OF Inr] b Some have l: "list_all2 (\<lambda>rr rd. \<exists>a. ParseAddress (rr_address rr) = Some a \<and>
          rd_address rd = FormatAddress a \<and> rd_bytes rd = mem_read (mem s) a (rr_length rr) \<and>
          IsWithinOneEligibleRegion (VirtualQuery os s) a (word_of_nat (rr_length rr))) ranges reads"
        by (fastforce simp: list_all2_conv_all_nth)
      from validate_ranges_Inr [OF Inr] l r ok b show ?thesis by auto
    qed
  qed
qed

text \<open>C15: batch reads. A batch never changes memory. When it succeeds, every range lies in one eligible
  region, the ranges come back in order with their canonical address and the bytes of memory, and
  the whole batch stays within its limits; when it fails, no bytes are returned.\<close>

theorem ReadMemoryBatch_correct:
  assumes "os_process os mem" and "ReadMemoryBatch os ranges s = (r, s')"
  shows "mem s' = mem s \<and>
    (if batch_ok r
     then ranges \<noteq> [] \<and> length ranges \<le> kMaxReadRanges \<and>
       sum_list (map rr_length ranges) \<le> kMaxReadBytes \<and>
       list_all2 (\<lambda>rr rd. \<exists>a. ParseAddress (rr_address rr) = Some a \<and> rd_address rd = FormatAddress a \<and>
           rd_bytes rd = mem_read (mem s) a (rr_length rr) \<and>
           IsWithinOneEligibleRegion (VirtualQuery os s) a (word_of_nat (rr_length rr)))
         ranges (batch_ranges r)
     else batch_ranges r = [] \<and> batch_code r \<noteq> [])"
  by (rule ReadMemoryBatch_result [OF assms])

theorem ReadMemoryBatch_correct_witness:
  "let (r, s) = ReadMemoryBatch windows [\<lparr>rr_address = FormatAddress 0x10010, rr_length = 2\<rparr>]
     \<lparr>pages = sample_space, ram = \<lambda>a. ucast a\<rparr>
   in batch_ok r \<and> map rd_bytes (batch_ranges r) = [[0x10, 0x11]]"
proof -
  let ?s = "\<lparr>pages = sample_space, ram = \<lambda>a. ucast a\<rparr>"
  let ?ranges = "[\<lparr>rr_address = FormatAddress 0x10010, rr_length = 2\<rparr>]"
  obtain r s' where run: "ReadMemoryBatch windows ?ranges ?s = (r, s')" by (metis surj_pair)
  have "accessible ?s False 0x10010 2"
    by (auto simp: accessible_def list_all_iff usable_at_def sample_query sample_region_def unat_add_of_nat
        IsReadableProtection_def win_constants)
  moreover have "IsWithinOneEligibleRegion (space_query sample_space) 0x10010 2"
    by (simp add: IsWithinOneEligibleRegion_def sample_query sample_region_def AddOverflows_def
        IsEligiblePrivateReadableRegion_def IsReadableProtection_def win_constants)
  ultimately have v: "validate_ranges (VirtualQuery windows ?s) 0 ?ranges =
      Inr [\<lparr>vr_address = 0x10010, vr_length = 2, vr_formatted = FormatAddress 0x10010\<rparr>]"
    and rd: "read_ranges windows [\<lparr>vr_address = 0x10010, vr_length = 2, vr_formatted = FormatAddress 0x10010\<rparr>] ?s =
      (Some [\<lparr>rd_address = FormatAddress 0x10010, rd_bytes = mem_read (ram ?s) 0x10010 2\<rparr>], ?s)"
    by (simp_all add: windows_def kMaxReadRangeBytes_def kMaxReadBytes_def AddOverflows_def)
  have ok: "batch_ok r"
    using run by (auto simp: ReadMemoryBatch_def kMaxReadRanges_def v rd
        simp del: validate_ranges.simps read_ranges.simps)
  have one: "list_all2 P ?ranges xs \<Longrightarrow> \<exists>x. xs = [x] \<and> P \<lparr>rr_address = FormatAddress 0x10010, rr_length = 2\<rparr> x" for P and xs :: "ReadResult list"
    by (auto simp: list_all2_Cons1)
  from ReadMemoryBatch_correct [OF win.os_process_axioms run] ok have
    "list_all2 (\<lambda>rr rd. \<exists>a. ParseAddress (rr_address rr) = Some a \<and> rd_address rd = FormatAddress a \<and>
           rd_bytes rd = mem_read (ram ?s) a (rr_length rr) \<and>
           IsWithinOneEligibleRegion (VirtualQuery windows ?s) a (word_of_nat (rr_length rr)))
         ?ranges (batch_ranges r)" by (simp only: if_True simp_thms)
  from one [OF this] obtain x where "batch_ranges r = [x]" "rd_bytes x = mem_read (ram ?s) 0x10010 2" by auto
  moreover have "mem_read (ram ?s) 0x10010 2 = [0x10, 0x11]"
    by (simp add: mem_read_def upt_rec)
  ultimately have "map rd_bytes (batch_ranges r) = [[0x10, 0x11]]" by simp
  with ok show ?thesis unfolding run Let_def prod.case by (intro conjI)
qed

end
