(* ===== verification/Json.thy ===== *)
theory Json
  imports Prelude
begin

text \<open>
  JSON values as the host uses them through nlohmann::json: an object is an association list in key
  order, an integer literal is stored unsigned when it is not negative and signed otherwise, and a
  float is kept as its bit pattern because the host only tests for its kind. \<open>at\<close> throws on a missing
  key. Text (parsing and dumping) is the library's and is not modelled.
\<close>

datatype Json =
    JNull
  | JBool bool
  | JInteger "64 word"
  | JUnsigned u64
  | JFloat u64
  | JString string
  | JArray "Json list"
  | JObject "(string \<times> Json) list"

definition is_object :: "Json \<Rightarrow> bool" where
  "is_object j = (case j of JObject _ \<Rightarrow> True | _ \<Rightarrow> False)"

definition is_array :: "Json \<Rightarrow> bool" where
  "is_array j = (case j of JArray _ \<Rightarrow> True | _ \<Rightarrow> False)"

definition is_string :: "Json \<Rightarrow> bool" where
  "is_string j = (case j of JString _ \<Rightarrow> True | _ \<Rightarrow> False)"

definition is_null :: "Json \<Rightarrow> bool" where
  "is_null j = (case j of JNull \<Rightarrow> True | _ \<Rightarrow> False)"

definition is_boolean :: "Json \<Rightarrow> bool" where
  "is_boolean j = (case j of JBool _ \<Rightarrow> True | _ \<Rightarrow> False)"

definition is_number_unsigned :: "Json \<Rightarrow> bool" where
  "is_number_unsigned j = (case j of JUnsigned _ \<Rightarrow> True | _ \<Rightarrow> False)"

definition is_number_integer :: "Json \<Rightarrow> bool" where
  "is_number_integer j = (case j of JInteger _ \<Rightarrow> True | JUnsigned _ \<Rightarrow> True | _ \<Rightarrow> False)"

definition json_size :: "Json \<Rightarrow> nat" where
  "json_size j = (case j of JNull \<Rightarrow> 0 | JArray xs \<Rightarrow> length xs | JObject kvs \<Rightarrow> length kvs | _ \<Rightarrow> 1)"

definition json_contains :: "Json \<Rightarrow> string \<Rightarrow> bool" where
  "json_contains j key = (case j of JObject kvs \<Rightarrow> map_of kvs key \<noteq> None | _ \<Rightarrow> False)"

definition json_at :: "Json \<Rightarrow> string \<Rightarrow> string + Json" where
  "json_at j key =
     (case j of
        JObject kvs \<Rightarrow>
          (case map_of kvs key of
             None \<Rightarrow> Inl (''[json.exception.out_of_range.403] key '' @ key @ '' not found'')
           | Some v \<Rightarrow> Inr v)
      | _ \<Rightarrow> Inl ''[json.exception.type_error.304] cannot use at()'')"

definition json_items :: "Json \<Rightarrow> Json list" where
  "json_items j = (case j of JArray xs \<Rightarrow> xs | JObject kvs \<Rightarrow> map snd kvs | JNull \<Rightarrow> [] | _ \<Rightarrow> [j])"

text \<open>The integer a JSON number holds, and \<open>get<std::int64_t>\<close> of it, a cast for an unsigned one.\<close>

definition json_int :: "Json \<Rightarrow> int" where
  "json_int j = (case j of JInteger w \<Rightarrow> sint w | JUnsigned w \<Rightarrow> uint w | _ \<Rightarrow> 0)"

definition json_int64 :: "Json \<Rightarrow> int" where
  "json_int64 j = (case j of JInteger w \<Rightarrow> sint w | JUnsigned w \<Rightarrow> sint w | _ \<Rightarrow> 0)"

definition json_text :: "Json \<Rightarrow> string" where
  "json_text j = (case j of JString s \<Rightarrow> s | _ \<Rightarrow> [])"

text \<open>The object values a parser builds: every key once.\<close>

definition distinct_keys :: "Json \<Rightarrow> bool" where
  "distinct_keys j = (case j of JObject kvs \<Rightarrow> distinct (map fst kvs) | _ \<Rightarrow> True)"

text \<open>Exact keys: the value is an object with as many entries as expected keys, all present.\<close>

definition HasExactKeys :: "Json \<Rightarrow> string list \<Rightarrow> bool" where
  "HasExactKeys j expected \<longleftrightarrow>
     (if \<not> is_object j \<or> json_size j \<noteq> length expected then False
      else list_all (json_contains j) expected)"

lemma json_at_Inr: "json_at j key = Inr v \<longleftrightarrow> (\<exists>kvs. j = JObject kvs \<and> map_of kvs key = Some v)"
  by (auto simp: json_at_def split: Json.splits option.splits)

lemma HasExactKeysD:
  assumes "HasExactKeys j expected" and "key \<in> set expected"
  shows "\<exists>v. json_at j key = Inr v"
  using assms by (auto simp: HasExactKeys_def json_at_def json_contains_def list_all_iff
      is_object_def split: Json.splits if_splits option.splits)

text \<open>Exact keys. On the objects a parser builds, \<open>HasExactKeys\<close> with distinct expected keys holds
  exactly when the keys of the object are the expected ones, no more and no fewer.\<close>

lemma HasExactKeys_iff:
  assumes "distinct expected" and "distinct (map fst kvs)"
  shows "HasExactKeys (JObject kvs) expected \<longleftrightarrow> set (map fst kvs) = set expected"
proof -
  have sub: "list_all (json_contains (JObject kvs)) expected \<longleftrightarrow> set expected \<subseteq> set (map fst kvs)"
  proof -
    have "json_contains (JObject kvs) k \<longleftrightarrow> k \<in> set (map fst kvs)" for k
      by (simp add: json_contains_def map_of_eq_None_iff)
    then show ?thesis by (auto simp: list_all_iff)
  qed
  have "length kvs = card (set (map fst kvs))" "length expected = card (set expected)"
    using assms distinct_card [of "map fst kvs"] distinct_card [of expected] by simp_all
  moreover have "HasExactKeys (JObject kvs) expected \<longleftrightarrow>
      length kvs = length expected \<and> set expected \<subseteq> set (map fst kvs)"
    using sub by (simp add: HasExactKeys_def is_object_def json_size_def)
  moreover have "card A = card B \<and> B \<subseteq> A \<longleftrightarrow> A = B" if "finite A" for A B :: "string set"
    using card_subset_eq [OF that, of B] by auto
  then have "card (set (map fst kvs)) = card (set expected) \<and> set expected \<subseteq> set (map fst kvs) \<longleftrightarrow>
      set (map fst kvs) = set expected" by (simp only: finite_set)
  ultimately show ?thesis by simp
qed

lemma HasExactKeys_iff_witness:
  "HasExactKeys (JObject [(''a'', JNull), (''b'', JNull)]) [''b'', ''a''] \<and>
   \<not> HasExactKeys (JObject [(''a'', JNull), (''b'', JNull)]) [''c'', ''a'']"
proof -
  have "''c'' \<in> set [''c'', ''a'']" "''c'' \<notin> set (map fst [(''a'', JNull), (''b'', JNull)])" by simp_all
  then have "set (map fst [(''a'', JNull), (''b'', JNull)]) \<noteq> set [''c'', ''a'']" by blast
  moreover have "set (map fst [(''a'', JNull), (''b'', JNull)]) = set [''b'', ''a'']" by auto
  ultimately show ?thesis
    using HasExactKeys_iff [of "[''b'', ''a'']" "[(''a'', JNull), (''b'', JNull)]"]
      HasExactKeys_iff [of "[''c'', ''a'']" "[(''a'', JNull), (''b'', JNull)]"] by simp
qed

end
