(* ===== verification/Field_Schema.thy ===== *)
theory Field_Schema
  imports Json
begin

text \<open>
  The field layout of the game database (frtk_field_schema.h, frtk_field_schema.cpp): the codec that
  reads and writes a bit field of a record, the parser of a version-1 layout artifact, and the
  registry. \<open>std::uint32_t\<close> sizes and offsets are \<^typ>\<open>nat\<close> (the validation bounds them before they are
  computed with), \<open>std::int64_t\<close> bounds and values are \<^typ>\<open>int\<close> with the casts written as \<open>mod\<close>, and the
  storage of a field is a \<^typ>\<open>64 word\<close> with the shifts and masks of the source. A thrown exception is
  \<open>Inl\<close> its message.
\<close>

datatype AuthorityStatus = kDiscoveryOnly | kCommitAdapterRequired | kDirectVerified

record PackedReference =
  ref_table_id :: nat
  ref_row_index :: nat

record FieldDefinition =
  field_name :: string
  field_encoding :: string
  byte_offset :: nat
  storage_bytes :: nat
  bit_offset :: nat
  bit_width :: nat
  field_minimum :: int
  field_maximum :: int
  reference_table_id :: "nat option"

record TableSchema =
  logical_name :: string
  schema_table_id :: nat
  schema_unique_id :: nat
  schema_capacity :: nat
  record_size :: nat
  authority_status :: AuthorityStatus
  schema_fields :: "FieldDefinition list"

record SchemaRegistry =
  schema_identity :: string
  build_identity :: string
  schema_tables :: "TableSchema list"

datatype DecodedField = Numeric int | Reference PackedReference

definition kMaxTables :: nat where "kMaxTables = 256"
definition kMaxFieldsPerTable :: nat where "kMaxFieldsPerTable = 512"
definition kMaxFieldsTotal :: nat where "kMaxFieldsTotal = 32768"
definition kMaxNameBytes :: nat where "kMaxNameBytes = 128"

section \<open>Text\<close>

definition char_byte :: "char \<Rightarrow> nat" where "char_byte c = of_char c"

text \<open>\<open>continuation\<close> looks at a byte after the current one.\<close>

definition continuation :: "string \<Rightarrow> nat \<Rightarrow> bool" where
  "continuation rest offset \<longleftrightarrow>
     offset < length rest \<and> 0x80 \<le> char_byte (rest ! offset) \<and> char_byte (rest ! offset) < 0xC0"

function IsValidUtf8 :: "string \<Rightarrow> bool" where
  "IsValidUtf8 t =
     (case t of
        [] \<Rightarrow> True
      | c # _ \<Rightarrow>
          let byte = char_byte c;
              second = (if 1 < length t then char_byte (t ! 1) else 0)
          in if byte \<le> 0x7F then IsValidUtf8 (drop 1 t)
             else if byte \<ge> 0xC2 \<and> byte \<le> 0xDF \<and> continuation t 1 then IsValidUtf8 (drop 2 t)
             else if byte \<ge> 0xE0 \<and> byte \<le> 0xEF \<and> continuation t 1 \<and> continuation t 2 \<and>
                     (byte \<noteq> 0xE0 \<or> second \<ge> 0xA0) \<and> (byte \<noteq> 0xED \<or> second \<le> 0x9F)
             then IsValidUtf8 (drop 3 t)
             else if byte \<ge> 0xF0 \<and> byte \<le> 0xF4 \<and> continuation t 1 \<and> continuation t 2 \<and>
                     continuation t 3 \<and>
                     (byte \<noteq> 0xF0 \<or> second \<ge> 0x90) \<and> (byte \<noteq> 0xF4 \<or> second \<le> 0x8F)
             then IsValidUtf8 (drop 4 t)
             else False)"
  by pat_completeness auto
termination
  by (relation "measure length") (auto simp: continuation_def)

declare IsValidUtf8.simps [simp del]

definition LogicalName :: "Json \<Rightarrow> string \<Rightarrow> string + string" where
  "LogicalName v message =
     (if \<not> is_string v then Inl message
      else let result = json_text v in
        if \<not> IsValidUtf8 result then Inl ''Logical names must use valid UTF-8''
        else if result = [] \<or> length result > kMaxNameBytes
        then Inl ''Logical names must use 1..128 UTF-8 bytes''
        else Inr result)"

definition Identity :: "Json \<Rightarrow> string \<Rightarrow> string + string" where
  "Identity v message =
     (if \<not> is_string v then Inl message
      else let result = json_text v in
        if \<not> IsValidUtf8 result \<or> result = [] \<or> length result > 128 then Inl message
        else Inr result)"

definition IntegerBetween :: "Json \<Rightarrow> int \<Rightarrow> int \<Rightarrow> string \<Rightarrow> string + int" where
  "IntegerBetween v minimum maximum message =
     (if is_number_unsigned v then
        let number = json_int v in
        if minimum < 0 \<and> number \<le> maximum mod 2 ^ 64 then Inr (json_int64 v)
        else if minimum \<ge> 0 \<and> number \<ge> minimum mod 2 ^ 64 \<and> number \<le> maximum mod 2 ^ 64
        then Inr (json_int64 v)
        else Inl message
      else if \<not> is_number_integer v then Inl message
      else let number = json_int v in
        if number < minimum \<or> number > maximum then Inl message else Inr number)"

definition ParseAuthority :: "Json \<Rightarrow> string + AuthorityStatus" where
  "ParseAuthority v =
     (if \<not> is_string v then Inl ''Unknown authority status''
      else if json_text v = ''discovery_only'' then Inr kDiscoveryOnly
      else if json_text v = ''commit_adapter_required'' then Inr kCommitAdapterRequired
      else if json_text v = ''direct_verified'' then Inr kDirectVerified
      else Inl ''Unknown authority status'')"

section \<open>The field codec\<close>

definition supported_encodings :: "string list" where
  "supported_encodings = [''unsigned'', ''signed'', ''offset-binary'', ''bitfield'', ''packed-reference'']"

definition legal_minimum :: "FieldDefinition \<Rightarrow> int" where
  "legal_minimum d =
     (if field_encoding d = ''signed'' then - (2 ^ (bit_width d - 1))
      else if field_encoding d = ''offset-binary'' then - (2 ^ 63) else 0)"

definition legal_maximum :: "FieldDefinition \<Rightarrow> int" where
  "legal_maximum d =
     (if field_encoding d = ''signed'' then 2 ^ (bit_width d - 1) - 1
      else if field_encoding d = ''offset-binary'' then 2 ^ 63 - 1 else 2 ^ bit_width d - 1)"

definition ValidateDefinition :: "nat \<Rightarrow> FieldDefinition \<Rightarrow> string + unit" where
  "ValidateDefinition n d =
     (if bit_width d < 1 \<or> bit_width d > 32 then Inl ''bitWidth must be from 1 through 32''
      else if storage_bytes d < 1 \<or> storage_bytes d > 5 \<or> byte_offset d > n \<or>
              storage_bytes d > n - byte_offset d
      then Inl ''Field storage exceeds the record bounds''
      else if bit_offset d \<ge> storage_bytes d * 8 \<or> bit_width d > storage_bytes d * 8 - bit_offset d
      then Inl ''Field bit range exceeds its storage''
      else if field_encoding d \<notin> set supported_encodings
      then Inl (''Unsupported field encoding: '' @ field_encoding d)
      else if field_encoding d = ''packed-reference'' \<and>
              (storage_bytes d \<noteq> 4 \<or> bit_offset d \<noteq> 0 \<or> bit_width d \<noteq> 32)
      then Inl ''Packed-reference fields must occupy exactly 32 bits''
      else if field_minimum d < legal_minimum d \<or> field_maximum d > legal_maximum d \<or>
              field_minimum d > field_maximum d
      then Inl (if field_encoding d = ''signed'' then ''Definition declares an illegal signed range''
                else ''Definition declares an illegal unsigned range'')
      else if field_encoding d = ''offset-binary'' \<and>
              (field_maximum d mod 2 ^ 64 - field_minimum d mod 2 ^ 64) mod 2 ^ 64 \<ge> 2 ^ bit_width d
      then Inl ''Definition declares an illegal offset-binary range''
      else Inr ())"

definition ReadStorage :: "byte list \<Rightarrow> FieldDefinition \<Rightarrow> u64" where
  "ReadStorage rec d =
     foldl (\<lambda>result index. push_bit 8 result OR ucast (rec ! (byte_offset d + index)))
       0 [0..<storage_bytes d]"

definition DecodePackedReference :: "u64 \<Rightarrow> string + PackedReference" where
  "DecodePackedReference v =
     (if v > 0xFFFFFFFF then Inl ''Packed reference must be a 32-bit unsigned integer''
      else Inr \<lparr>ref_table_id = unat (drop_bit 17 v) mod 2 ^ 16, ref_row_index = unat (v AND 0x1FFFF)\<rparr>)"

definition EncodePackedReference :: "PackedReference \<Rightarrow> string + u32" where
  "EncodePackedReference r =
     (if ref_table_id r > 0x7FFF then Inl ''tableId must be a 15-bit unsigned integer''
      else if ref_row_index r > 0x1FFFF then Inl ''rowIndex must be a 17-bit unsigned integer''
      else Inr (push_bit 17 (word_of_nat (ref_table_id r)) OR word_of_nat (ref_row_index r)))"

definition width_mask :: "FieldDefinition \<Rightarrow> u64" where
  "width_mask d = push_bit (bit_width d) 1 - 1"

definition field_shift :: "FieldDefinition \<Rightarrow> nat" where
  "field_shift d = storage_bytes d * 8 - bit_offset d - bit_width d"

definition DecodeField :: "byte list \<Rightarrow> FieldDefinition \<Rightarrow> string + DecodedField" where
  "DecodeField rec d =
     bindE (ValidateDefinition (length rec) d) (\<lambda>_.
     let raw = drop_bit (field_shift d) (ReadStorage rec d) AND width_mask d in
     if field_encoding d = ''packed-reference''
     then bindE (DecodePackedReference raw) (\<lambda>r. Inr (Reference r))
     else if field_encoding d = ''offset-binary'' then Inr (Numeric (sint raw + field_minimum d))
     else if field_encoding d \<noteq> ''signed'' then Inr (Numeric (sint raw))
     else let sign = push_bit (bit_width d - 1) 1 in
       if raw AND sign = 0 then Inr (Numeric (sint raw))
       else Inr (Numeric (sint raw - 2 ^ bit_width d)))"

text \<open>The value to store, of a reference or a number.\<close>

definition numeric_value :: "FieldDefinition \<Rightarrow> DecodedField \<Rightarrow> string + int" where
  "numeric_value d v =
     (if field_encoding d = ''packed-reference'' then
        (case v of
           Reference r \<Rightarrow>
             if reference_table_id d \<noteq> Some (ref_table_id r)
             then Inl ''Packed reference does not match the declared target table''
             else bindE (EncodePackedReference r) (\<lambda>w. Inr (uint w))
         | Numeric _ \<Rightarrow> Inl ''Packed reference does not match the declared target table'')
      else (case v of
              Numeric i \<Rightarrow> Inr i
            | Reference _ \<Rightarrow> Inl ''Numeric field requires an integer''))"

text \<open>The loop that writes the storage back, last byte first.\<close>

fun write_storage :: "byte list \<Rightarrow> nat \<Rightarrow> nat \<Rightarrow> u64 \<Rightarrow> byte list" where
  "write_storage updated offset 0 remaining = updated"
| "write_storage updated offset (Suc index) remaining =
     write_storage (updated[offset + index := ucast (remaining AND 0xFF)]) offset index
       (drop_bit 8 remaining)"

definition EncodeField :: "byte list \<Rightarrow> FieldDefinition \<Rightarrow> DecodedField \<Rightarrow> string + byte list" where
  "EncodeField rec d v =
     bindE (ValidateDefinition (length rec) d) (\<lambda>_.
     bindE (numeric_value d v) (\<lambda>i.
     if i < field_minimum d \<or> i > field_maximum d
     then Inl ''Field value is outside its declared bounds''
     else let stored_value = (if field_encoding d = ''offset-binary'' then i - field_minimum d else i);
              raw = (if stored_value < 0 then push_bit (bit_width d) 1 + word_of_int stored_value
                     else word_of_int stored_value) :: u64;
              field_mask = push_bit (field_shift d) (width_mask d);
              updated_storage = (ReadStorage rec d AND NOT field_mask) OR
                (push_bit (field_shift d) raw AND field_mask)
          in Inr (write_storage rec (byte_offset d) (storage_bytes d) updated_storage)))"

section \<open>The layout artifact\<close>

definition int_at :: "Json \<Rightarrow> string \<Rightarrow> int \<Rightarrow> int \<Rightarrow> string \<Rightarrow> string + int" where
  "int_at j key minimum maximum message =
     bindE (json_at j key) (\<lambda>v. IntegerBetween v minimum maximum message)"

definition ParseField :: "Json \<Rightarrow> nat \<Rightarrow> string + FieldDefinition" where
  "ParseField field n =
     bindE (ensure (HasExactKeys field
         [''name'', ''encoding'', ''byteOffset'', ''storageBytes'', ''bitOffset'', ''bitWidth'',
          ''minimum'', ''maximum'', ''referenceTableId'']) ''Field definition is invalid'') (\<lambda>_.
     bindE (json_at field ''encoding'') (\<lambda>enc.
     bindE (ensure (is_string enc) ''Field definition is invalid'') (\<lambda>_.
     bindE (json_at field ''name'') (\<lambda>nm.
     bindE (LogicalName nm ''Field name is invalid'') (\<lambda>nm.
     bindE (int_at field ''byteOffset'' 0 (2 ^ 32 - 1) ''Invalid byteOffset'') (\<lambda>bo.
     bindE (int_at field ''storageBytes'' 1 5 ''Invalid storageBytes'') (\<lambda>sb.
     bindE (int_at field ''bitOffset'' 0 39 ''Invalid bitOffset'') (\<lambda>bi.
     bindE (int_at field ''bitWidth'' 1 32 ''Invalid bitWidth'') (\<lambda>bw.
     bindE (int_at field ''minimum'' (- (2 ^ 31)) 0xFFFFFFFF ''Invalid minimum'') (\<lambda>mi.
     bindE (int_at field ''maximum'' (- (2 ^ 31)) 0xFFFFFFFF ''Invalid maximum'') (\<lambda>ma.
     bindE (json_at field ''referenceTableId'') (\<lambda>rt.
     bindE (if is_null rt then Inr None
            else bindE (IntegerBetween rt 0 0x7FFF ''Invalid referenceTableId'')
                   (\<lambda>i. Inr (Some (nat i)))) (\<lambda>ref.
     let result = \<lparr>field_name = nm, field_encoding = json_text enc, byte_offset = nat bo,
           storage_bytes = nat sb, bit_offset = nat bi, bit_width = nat bw, field_minimum = mi,
           field_maximum = ma, reference_table_id = ref\<rparr> in
     bindE (ValidateDefinition n result) (\<lambda>_.
     if field_encoding result = ''packed-reference''
     then if ref = None then Inl ''Packed-reference field requires referenceTableId'' else Inr result
     else if ref \<noteq> None then Inl ''Non-reference field referenceTableId must be null''
     else Inr result))))))))))))))"

text \<open>\<open>std::string\<close> order: unsigned bytes, lexicographic. \<open>std::is_sorted\<close>: no element is less than the one
  before it.\<close>

fun string_less :: "string \<Rightarrow> string \<Rightarrow> bool" where
  "string_less _ [] = False"
| "string_less [] (_ # _) = True"
| "string_less (a # as) (b # bs) =
     (char_byte a < char_byte b \<or> (char_byte a = char_byte b \<and> string_less as bs))"

fun is_sorted_by :: "('a \<Rightarrow> 'a \<Rightarrow> bool) \<Rightarrow> 'a list \<Rightarrow> bool" where
  "is_sorted_by lt (x # y # xs) = (\<not> lt y x \<and> is_sorted_by lt (y # xs))"
| "is_sorted_by lt _ = True"

definition field_less :: "FieldDefinition \<Rightarrow> FieldDefinition \<Rightarrow> bool" where
  "field_less l r =
     (if byte_offset l \<noteq> byte_offset r then byte_offset l < byte_offset r
      else if bit_offset l \<noteq> bit_offset r then bit_offset l < bit_offset r
      else string_less (field_name l) (field_name r))"

fun parse_fields :: "nat \<Rightarrow> Json list \<Rightarrow> FieldDefinition list \<Rightarrow> string + FieldDefinition list" where
  "parse_fields n [] parsed = Inr parsed"
| "parse_fields n (j # js) parsed =
     bindE (ParseField j n) (\<lambda>f.
     if field_name f \<in> set (map field_name parsed) then Inl ''Duplicate field name''
     else parse_fields n js (parsed @ [f]))"

definition ParseTable :: "Json \<Rightarrow> string + TableSchema" where
  "ParseTable table =
     bindE (ensure (HasExactKeys table
         [''logicalName'', ''tableId'', ''uniqueId'', ''capacity'', ''recordSize'',
          ''authorityStatus'', ''fields'']) ''Table schema is invalid'') (\<lambda>_.
     bindE (json_at table ''fields'') (\<lambda>fs.
     bindE (ensure (is_array fs) ''Table schema is invalid'') (\<lambda>_.
     bindE (json_at table ''logicalName'') (\<lambda>nm.
     bindE (LogicalName nm ''Table name is invalid'') (\<lambda>nm.
     bindE (int_at table ''tableId'' 0 0x7FFF ''Invalid table ID'') (\<lambda>ti.
     bindE (int_at table ''uniqueId'' 0 0xFFFFFFFF ''Invalid unique ID'') (\<lambda>ui.
     bindE (int_at table ''capacity'' 1 0x1FFFF ''Invalid capacity'') (\<lambda>cap.
     bindE (int_at table ''recordSize'' 1 4096 ''Invalid recordSize'') (\<lambda>rs.
     bindE (json_at table ''authorityStatus'') (\<lambda>au.
     bindE (ParseAuthority au) (\<lambda>au.
     bindE (ensure (json_size fs \<le> kMaxFieldsPerTable) ''At most 512 fields are allowed per table'') (\<lambda>_.
     bindE (parse_fields (nat rs) (json_items fs) []) (\<lambda>fields.
     if \<not> is_sorted_by field_less fields then Inl ''Noncanonical field order''
     else Inr \<lparr>logical_name = nm, schema_table_id = nat ti, schema_unique_id = nat ui,
            schema_capacity = nat cap, record_size = nat rs, authority_status = au,
            schema_fields = fields\<rparr>)))))))))))))"

definition FindTable :: "SchemaRegistry \<Rightarrow> nat \<Rightarrow> TableSchema option" where
  "FindTable registry table_id = find (\<lambda>t. schema_table_id t = table_id) (schema_tables registry)"

definition FindField :: "SchemaRegistry \<Rightarrow> nat \<Rightarrow> string \<Rightarrow> FieldDefinition option" where
  "FindField registry table_id name =
     (case FindTable registry table_id of
        None \<Rightarrow> None
      | Some t \<Rightarrow> find (\<lambda>f. field_name f = name) (schema_fields t))"

text \<open>The loop over the tables, with the number of fields seen and the tables parsed so far.\<close>

fun parse_tables :: "bool \<Rightarrow> Json list \<Rightarrow> nat \<Rightarrow> TableSchema list \<Rightarrow> string + TableSchema list" where
  "parse_tables allow_promoted [] field_total parsed = Inr parsed"
| "parse_tables allow_promoted (j # js) field_total parsed =
     (let counted = (case json_at j ''fields'' of Inr fs \<Rightarrow> if is_array fs then json_size fs else 0 | Inl _ \<Rightarrow> 0);
          field_total = field_total + counted
      in if counted \<noteq> 0 \<and> field_total > kMaxFieldsTotal
         then Inl ''At most 32768 fields are allowed in total''
         else bindE (ParseTable j) (\<lambda>t.
           if \<not> allow_promoted \<and> authority_status t \<noteq> kDiscoveryOnly
           then Inl ''Version-1 file layouts must use discovery_only authority''
           else if schema_table_id t \<in> set (map schema_table_id parsed)
           then Inl ''Duplicate table ID in layout''
           else if schema_unique_id t \<in> set (map schema_unique_id parsed)
           then Inl ''Duplicate unique ID in layout''
           else parse_tables allow_promoted js field_total (parsed @ [t])))"

definition reference_known :: "SchemaRegistry \<Rightarrow> FieldDefinition \<Rightarrow> bool" where
  "reference_known registry f =
     (case reference_table_id f of None \<Rightarrow> True | Some t \<Rightarrow> FindTable registry t \<noteq> None)"

definition parse_layout :: "Json \<Rightarrow> bool \<Rightarrow> string + SchemaRegistry" where
  "parse_layout artifact allow_promoted =
     bindE (ensure (HasExactKeys artifact [''formatVersion'', ''schemaIdentity'', ''buildIdentity'', ''tables''])
       ''Invalid version-1 field layout'') (\<lambda>_.
     bindE (int_at artifact ''formatVersion'' 1 1 ''Unsupported layout version'') (\<lambda>v.
     bindE (json_at artifact ''tables'') (\<lambda>ts.
     bindE (ensure (v = 1 \<and> is_array ts \<and> json_size ts \<noteq> 0) ''Invalid version-1 field layout'') (\<lambda>_.
     bindE (ensure (json_size ts \<le> kMaxTables) ''Version-1 artifacts allow at most 256 tables'') (\<lambda>_.
     bindE (json_at artifact ''schemaIdentity'') (\<lambda>si.
     bindE (Identity si ''Invalid schema identity'') (\<lambda>si.
     bindE (json_at artifact ''buildIdentity'') (\<lambda>bi.
     bindE (Identity bi ''Invalid build identity'') (\<lambda>bi.
     bindE (parse_tables allow_promoted (json_items ts) 0 []) (\<lambda>tables.
     bindE (ensure (is_sorted_by (\<lambda>l r. schema_table_id l < schema_table_id r) tables)
       ''Noncanonical layout table order'') (\<lambda>_.
     let parsed = \<lparr>schema_identity = si, build_identity = bi, schema_tables = tables\<rparr> in
     bindE (ensure (list_all (\<lambda>t. list_all (reference_known parsed) (schema_fields t)) tables)
       ''Packed-reference field targets an unknown reference table'') (\<lambda>_.
     Inr parsed))))))))))))"

text \<open>\<open>LoadImpl\<close>: the verdict, the error text and the registry, which only a success replaces.\<close>

definition LoadImpl :: "SchemaRegistry \<Rightarrow> Json \<Rightarrow> bool \<Rightarrow> bool \<times> string \<times> SchemaRegistry" where
  "LoadImpl self artifact allow_promoted =
     (case parse_layout artifact allow_promoted of
        Inl what \<Rightarrow> (False, what, self)
      | Inr parsed \<Rightarrow> (True, [], parsed))"

definition Load :: "SchemaRegistry \<Rightarrow> Json \<Rightarrow> bool \<times> string \<times> SchemaRegistry" where
  "Load self artifact = LoadImpl self artifact False"

definition LoadTrustedForTesting :: "SchemaRegistry \<Rightarrow> Json \<Rightarrow> bool \<times> string \<times> SchemaRegistry" where
  "LoadTrustedForTesting self artifact = LoadImpl self artifact True"

section \<open>Bits of the storage\<close>

definition big_endian :: "(nat \<Rightarrow> byte) \<Rightarrow> nat \<Rightarrow> u64" where
  "big_endian f n = foldl (\<lambda>result i. push_bit 8 result OR ucast (f i)) 0 [0..<n]"

lemma big_endian_Suc: "big_endian f (Suc n) = push_bit 8 (big_endian f n) OR ucast (f n)"
  by (simp add: big_endian_def)

lemma bit_big_endian:
  "k < 64 \<Longrightarrow> bit (big_endian f n) k \<longleftrightarrow> k < 8 * n \<and> bit (f (n - 1 - k div 8)) (k mod 8)"
proof (induction n arbitrary: k)
  case 0
  then show ?case by (simp add: big_endian_def)
next
  case (Suc n)
  show ?case
  proof (cases "k < 8")
    case True
    then show ?thesis using Suc.prems
      by (auto simp: big_endian_Suc bit_or_iff bit_push_bit_iff bit_ucast_iff)
  next
    case False
    then have "(k - 8) div 8 = k div 8 - 1" "(k - 8) mod 8 = k mod 8" "0 < k div 8"
      by (simp_all add: le_div_geq le_mod_geq)
    moreover have "\<not> bit (f n) k" using False bit_imp_le_length [of "f n" k] by auto
    ultimately show ?thesis using Suc.IH [of "k - 8"] Suc.prems False
      by (auto simp: big_endian_Suc bit_or_iff bit_push_bit_iff bit_ucast_iff)
  qed
qed

lemma ReadStorage_big_endian: "ReadStorage rec d = big_endian (\<lambda>i. rec ! (byte_offset d + i)) (storage_bytes d)"
  by (simp add: ReadStorage_def big_endian_def)

lemma length_write_storage [simp]: "length (write_storage rec off n v) = length rec"
  by (induction rec off n v rule: write_storage.induct) auto

lemma write_storage_nth:
  "j < length rec \<Longrightarrow> off + n \<le> length rec \<Longrightarrow>
   write_storage rec off n v ! j =
     (if off \<le> j \<and> j < off + n then ucast (drop_bit (8 * (off + n - 1 - j)) v) else rec ! j)"
proof (induction n arbitrary: rec v)
  case (Suc n)
  have m: "(w :: u64) AND 0xFF = take_bit 8 w" for w
    using and_mask_take_bit [of w 8] by (simp add: mask_eq_exp_minus_1)
  have u: "(ucast (take_bit 8 w) :: byte) = ucast w" for w :: u64
    by (rule bit_word_eqI) (simp add: bit_ucast_iff bit_take_bit_iff)
  show ?case
  proof (cases "off \<le> j \<and> j < off + n")
    case True
    then have "off + Suc n - 1 - j = Suc (off + n - 1 - j)" by linarith
    then have "8 * (off + Suc n - 1 - j) = 8 + 8 * (off + n - 1 - j)" by simp
    with Suc True show ?thesis by (simp add: drop_bit_drop_bit add.commute)
  next
    case False
    with Suc show ?thesis by (cases "j = off + n") (auto simp: m u)
  qed
qed auto

lemma big_endian_write:
  assumes "off + n \<le> length rec" and "n \<le> 8"
  shows "big_endian (\<lambda>i. write_storage rec off n v ! (off + i)) n = take_bit (8 * n) v"
proof (rule bit_word_eqI)
  fix k
  assume k: "k < LENGTH(64)"
  show "bit (big_endian (\<lambda>i. write_storage rec off n v ! (off + i)) n) k = bit (take_bit (8 * n) v) k"
  proof (cases "k < 8 * n")
    case True
    then have i: "k div 8 < n" by auto
    define j where "j = off + (n - 1 - k div 8)"
    have j: "off \<le> j" "j < off + n" "j < length rec" "off + n - 1 - j = k div 8"
      using i assms(1) by (auto simp: j_def)
    then have "write_storage rec off n v ! j = ucast (drop_bit (8 * (k div 8)) v)"
      using write_storage_nth [of j rec off n v] assms(1) by simp
    moreover have "8 * (k div 8) + k mod 8 = k" by simp
    ultimately have "bit (write_storage rec off n v ! j) (k mod 8) = bit v k"
      by (simp add: bit_ucast_iff bit_drop_bit_eq)
    with k True show ?thesis by (simp add: bit_big_endian bit_take_bit_iff j_def)
  next
    case False
    with k show ?thesis by (simp add: bit_big_endian bit_take_bit_iff)
  qed
qed

section \<open>The raw value of a field\<close>

definition raw_field :: "byte list \<Rightarrow> FieldDefinition \<Rightarrow> u64" where
  "raw_field rec d = drop_bit (field_shift d) (ReadStorage rec d) AND width_mask d"

definition layout_ok :: "nat \<Rightarrow> FieldDefinition \<Rightarrow> bool" where
  "layout_ok n d \<longleftrightarrow> 1 \<le> bit_width d \<and> bit_width d \<le> 32 \<and> 1 \<le> storage_bytes d \<and> storage_bytes d \<le> 5 \<and>
     byte_offset d + storage_bytes d \<le> n \<and> bit_offset d + bit_width d \<le> storage_bytes d * 8"

text \<open>The bounds a valid definition declares, on the value that is stored.\<close>

definition stored_ok :: "FieldDefinition \<Rightarrow> bool" where
  "stored_ok d \<longleftrightarrow> field_encoding d \<in> set supported_encodings \<and>
     (field_encoding d = ''packed-reference'' \<longrightarrow> storage_bytes d = 4 \<and> bit_offset d = 0 \<and> bit_width d = 32) \<and>
     legal_minimum d \<le> field_minimum d \<and> field_minimum d \<le> field_maximum d \<and>
     field_maximum d \<le> legal_maximum d \<and>
     (field_encoding d = ''offset-binary'' \<longrightarrow> field_maximum d - field_minimum d < 2 ^ bit_width d)"

lemma uint64_difference:
  assumes "- (2 ^ 63) \<le> lo" "lo \<le> hi" "hi \<le> (2 ^ 63 - 1 :: int)"
  shows "(hi mod 2 ^ 64 - lo mod 2 ^ 64) mod 2 ^ 64 = hi - lo"
  using assms by (simp add: mod_diff_eq)

lemma ValidateDefinition_iff:
  "ValidateDefinition n d = Inr () \<longleftrightarrow> layout_ok n d \<and> stored_ok d"
proof -
  have off: "(field_maximum d mod 2 ^ 64 - field_minimum d mod 2 ^ 64) mod 2 ^ 64 = field_maximum d - field_minimum d"
    if "field_encoding d = ''offset-binary''" "legal_minimum d \<le> field_minimum d"
      "field_minimum d \<le> field_maximum d" "field_maximum d \<le> legal_maximum d"
    using that by (intro uint64_difference) (auto simp: legal_minimum_def legal_maximum_def)
  have guard: "(if c then Inl e else r) = Inr () \<longleftrightarrow> \<not> c \<and> r = Inr ()" for c and e :: string and r
    by simp
  have shape: "\<not> (bit_width d < 1 \<or> bit_width d > 32) \<and>
      \<not> (storage_bytes d < 1 \<or> storage_bytes d > 5 \<or> byte_offset d > n \<or> storage_bytes d > n - byte_offset d) \<and>
      \<not> (bit_offset d \<ge> storage_bytes d * 8 \<or> bit_width d > storage_bytes d * 8 - bit_offset d) \<longleftrightarrow>
      layout_ok n d"
    unfolding layout_ok_def by linarith
  have bounds: "\<not> (field_minimum d < legal_minimum d \<or> field_maximum d > legal_maximum d \<or>
        field_minimum d > field_maximum d) \<longleftrightarrow>
      legal_minimum d \<le> field_minimum d \<and> field_minimum d \<le> field_maximum d \<and> field_maximum d \<le> legal_maximum d"
    by linarith
  show ?thesis
    unfolding ValidateDefinition_def guard stored_ok_def bounds shape [symmetric]
    using off by (auto simp only: not_le de_Morgan_conj)
qed

lemma width_mask_mask: "width_mask d = mask (bit_width d)"
  by (simp add: width_mask_def mask_eq_exp_minus_1)

lemma raw_field_take_bit: "raw_field rec d = take_bit (bit_width d) (drop_bit (field_shift d) (ReadStorage rec d))"
  by (simp add: raw_field_def width_mask_mask take_bit_eq_mask)

lemma uint_raw_field: "uint (raw_field rec d) < 2 ^ bit_width d" "0 \<le> uint (raw_field rec d)"
  by (simp_all add: raw_field_take_bit unsigned_take_bit_eq)

lemma small_sint:
  assumes "uint (w :: u64) < 2 ^ 63"
  shows "sint w = uint w"
proof -
  have "- (2 ^ 63) \<le> uint w" by (rule order_trans [OF _ uint_ge_0]) simp
  then have "signed_take_bit 63 (uint w) = uint w"
    using assms by (intro signed_take_bit_int_eq_self) simp_all
  then show ?thesis by (simp add: sint_uint)
qed

definition raw_value :: "FieldDefinition \<Rightarrow> int \<Rightarrow> int" where
  "raw_value d r =
     (if field_encoding d = ''offset-binary'' then r + field_minimum d
      else if field_encoding d \<noteq> ''signed'' then r
      else if r < 2 ^ (bit_width d - 1) then r
      else r - 2 ^ bit_width d)"

definition raw_reference :: "int \<Rightarrow> PackedReference" where
  "raw_reference r = \<lparr>ref_table_id = nat (r div 2 ^ 17), ref_row_index = nat (r mod 2 ^ 17)\<rparr>"

lemma pow2_width: "bit_width d \<le> 32 \<Longrightarrow> (2 :: int) ^ bit_width d \<le> 2 ^ 32"
  by (rule power_increasing) auto

lemma raw_small: "bit_width d \<le> 32 \<Longrightarrow> uint (raw_field rec d) < 2 ^ 32"
  using uint_raw_field(1) [of rec d] pow2_width [of d] by linarith

lemma and_pow2:
  assumes "n < 64"
  shows "(w :: u64) AND 2 ^ n = 0 \<longleftrightarrow> \<not> bit w n"
proof -
  have "bit (w AND 2 ^ n) k \<longleftrightarrow> k = n \<and> bit w n" for k
    using assms by (auto simp: bit_and_iff bit_exp_iff)
  then show ?thesis by (metis bit_0_eq bot_apply bot_bool_def bit_word_eqI)
qed

lemma bit_top:
  assumes "0 \<le> (r :: int)" "r < 2 ^ Suc n"
  shows "bit r n \<longleftrightarrow> 2 ^ n \<le> r"
proof (cases "2 ^ n \<le> r")
  case True
  define s where "s = r - 2 ^ n"
  have "r = 2 ^ n + s" "0 \<le> s" "s < 2 ^ n" using True assms(2) by (simp_all add: s_def)
  then have "r div 2 ^ n = 1" by (simp add: div_add_self1)
  with True show ?thesis by (simp add: bit_iff_odd)
next
  case False
  with assms(1) have "r div 2 ^ n = 0" by simp
  with False show ?thesis by (simp add: bit_iff_odd)
qed

lemma DecodePackedReference_raw:
  assumes "uint v < 2 ^ 32"
  shows "DecodePackedReference v = Inr (raw_reference (uint v))"
proof -
  have n: "unat v = nat (uint v)" by simp
  have v: "unat v < 2 ^ 32" using assms unfolding n by (subst nat_less_iff) simp_all
  then have "\<not> v > 0xFFFFFFFF" by (simp add: word_less_nat_alt)
  moreover have "unat (drop_bit 17 v) mod 2 ^ 16 = nat (uint v div 2 ^ 17)"
  proof -
    have "unat v div 2 ^ 17 < 2 ^ 16" using v by (simp add: less_mult_imp_div_less)
    then have "unat (drop_bit 17 v) mod 2 ^ 16 = unat v div 2 ^ 17"
      by (simp add: unat_drop_bit)
    also have "\<dots> = nat (uint v div 2 ^ 17)" unfolding n by (subst nat_div_distrib) simp_all
    finally show ?thesis .
  qed
  moreover have "unat (v AND 0x1FFFF) = nat (uint v mod 2 ^ 17)"
  proof -
    have "unat (v AND 0x1FFFF) = unat v mod 2 ^ 17"
      using and_mask_take_bit [of v 17] by (simp add: mask_eq_exp_minus_1 unat_take_bit)
    also have "\<dots> = nat (uint v mod 2 ^ 17)" unfolding n by (subst nat_mod_distrib) simp_all
    finally show ?thesis .
  qed
  ultimately show ?thesis by (simp add: DecodePackedReference_def raw_reference_def)
qed

lemma DecodeField_eq:
  assumes "ValidateDefinition (length rec) d = Inr ()"
  shows "DecodeField rec d = Inr (if field_encoding d = ''packed-reference''
    then Reference (raw_reference (uint (raw_field rec d))) else Numeric (raw_value d (uint (raw_field rec d))))"
proof -
  from assms have w: "1 \<le> bit_width d" "bit_width d \<le> 32"
    by (simp_all add: ValidateDefinition_iff layout_ok_def)
  let ?r = "raw_field rec d"
  note small = raw_small [OF w(2), of rec]
  have sign: "?r AND 2 ^ (bit_width d - 1) = 0 \<longleftrightarrow> uint ?r < 2 ^ (bit_width d - 1)"
  proof -
    have "?r AND 2 ^ (bit_width d - 1) = 0 \<longleftrightarrow> \<not> bit (uint ?r) (bit_width d - 1)"
      using w by (subst and_pow2) (auto simp: bit_uint_iff)
    also have "\<dots> \<longleftrightarrow> uint ?r < 2 ^ (bit_width d - 1)"
      using w uint_raw_field [of rec d] by (subst bit_top) (simp_all add: not_le)
    finally show ?thesis .
  qed
  show ?thesis
    using assms
    by (simp add: DecodeField_def raw_field_def [symmetric] DecodePackedReference_raw [OF small]
        small_sint [OF order.strict_trans [OF small]] raw_value_def sign [simplified] Let_def)
qed

text \<open>What a write does to the field itself and to every other bit of the record.\<close>

definition encoded_raw :: "FieldDefinition \<Rightarrow> int \<Rightarrow> int" where
  "encoded_raw d i = (if field_encoding d = ''offset-binary'' then i - field_minimum d else i) mod 2 ^ bit_width d"

definition updated_word :: "byte list \<Rightarrow> FieldDefinition \<Rightarrow> u64 \<Rightarrow> u64" where
  "updated_word rec d raw =
     (ReadStorage rec d AND NOT (push_bit (field_shift d) (width_mask d))) OR
       (push_bit (field_shift d) raw AND push_bit (field_shift d) (width_mask d))"

lemma bit_updated_word:
  assumes "layout_ok n d" and "k < 64"
  shows "bit (updated_word rec d raw) k \<longleftrightarrow>
    (if field_shift d \<le> k \<and> k < field_shift d + bit_width d then bit raw (k - field_shift d)
     else bit (ReadStorage rec d) k)"
  using assms
  by (auto simp: updated_word_def width_mask_mask bit_or_iff bit_and_iff bit_not_iff bit_push_bit_iff
      bit_mask_iff)

lemma ReadStorage_written:
  assumes "layout_ok (length rec) d"
  shows "ReadStorage (write_storage rec (byte_offset d) (storage_bytes d) v) d = take_bit (8 * storage_bytes d) v"
  unfolding ReadStorage_big_endian
  using assms by (intro big_endian_write) (auto simp: layout_ok_def)

lemma raw_field_written:
  assumes "layout_ok (length rec) d"
  shows "raw_field (write_storage rec (byte_offset d) (storage_bytes d) (updated_word rec d raw)) d =
    take_bit (bit_width d) raw"
proof (rule bit_word_eqI)
  fix k
  assume k: "k < LENGTH(64)"
  have "field_shift d + bit_width d \<le> 8 * storage_bytes d" "8 * storage_bytes d \<le> 40"
    using assms by (auto simp: layout_ok_def field_shift_def)
  then show "bit (raw_field (write_storage rec (byte_offset d) (storage_bytes d) (updated_word rec d raw)) d) k =
      bit (take_bit (bit_width d) raw) k"
    using k
    by (auto simp: raw_field_take_bit bit_take_bit_iff bit_drop_bit_eq ReadStorage_written [OF assms]
        bit_updated_word [OF assms])
qed

section \<open>The codec\<close>

text \<open>Bit \<open>p\<close> of a record, most significant bit of byte 0 first, as the layout artifact counts them.\<close>

definition record_bit :: "byte list \<Rightarrow> nat \<Rightarrow> bool" where
  "record_bit rec p = bit (rec ! (p div 8)) (7 - p mod 8)"

definition in_field :: "FieldDefinition \<Rightarrow> nat \<Rightarrow> bool" where
  "in_field d p \<longleftrightarrow> 8 * byte_offset d + bit_offset d \<le> p \<and>
     p < 8 * byte_offset d + bit_offset d + bit_width d"

definition encodable :: "FieldDefinition \<Rightarrow> DecodedField \<Rightarrow> bool" where
  "encodable d v \<longleftrightarrow>
     (case v of
        Numeric i \<Rightarrow> field_encoding d \<noteq> ''packed-reference'' \<and> field_minimum d \<le> i \<and> i \<le> field_maximum d
      | Reference r \<Rightarrow> field_encoding d = ''packed-reference'' \<and> reference_table_id d = Some (ref_table_id r) \<and>
          ref_table_id r < 2 ^ 15 \<and> ref_row_index r < 2 ^ 17 \<and>
          field_minimum d \<le> int (ref_table_id r * 2 ^ 17 + ref_row_index r) \<and>
          int (ref_table_id r * 2 ^ 17 + ref_row_index r) \<le> field_maximum d)"

lemma EncodePackedReference_value:
  assumes "ref_table_id r < 2 ^ 15" "ref_row_index r < 2 ^ 17"
  shows "\<exists>w. EncodePackedReference r = Inr w \<and> uint w = int (ref_table_id r * 2 ^ 17 + ref_row_index r)"
proof -
  let ?t = "ref_table_id r" and ?i = "ref_row_index r"
  define x :: u32 where "x = word_of_nat (?t * 2 ^ 17 + ?i)"
  have small: "?t * 2 ^ 17 + ?i < 2 ^ 32" using assms by simp
  then have ux: "unat x = ?t * 2 ^ 17 + ?i"
    unfolding x_def unat_of_nat by (intro mod_less) simp
  have "drop_bit 17 x = word_of_nat ?t"
    by (rule word_unat_eq_iff [THEN iffD2])
      (use assms in \<open>simp add: unat_drop_bit ux unat_of_nat take_bit_nat_eq_self\<close>)
  moreover have "take_bit 17 x = word_of_nat ?i"
    by (rule word_unat_eq_iff [THEN iffD2])
      (use assms in \<open>simp add: unat_take_bit ux unat_of_nat take_bit_nat_eq_self\<close>)
  ultimately have "push_bit 17 (word_of_nat ?t) OR word_of_nat ?i = x"
    using join_bits [of 17 x] by simp
  moreover have "uint x = int (unat x)" by simp
  then have "uint x = int (?t * 2 ^ 17 + ?i)" unfolding ux .
  ultimately show ?thesis using assms by (simp add: EncodePackedReference_def)
qed

lemma EncodePackedReference_Inl:
  "\<not> (ref_table_id r < 2 ^ 15 \<and> ref_row_index r < 2 ^ 17) \<Longrightarrow> \<exists>e. EncodePackedReference r = Inl e"
  by (auto simp: EncodePackedReference_def)

lemma raw_reference_packed:
  assumes "ref_row_index r < 2 ^ 17"
  shows "raw_reference (int (ref_table_id r * 2 ^ 17 + ref_row_index r)) = r"
proof -
  have "nat (int (ref_table_id r * 2 ^ 17 + ref_row_index r) div 2 ^ 17) = (ref_table_id r * 2 ^ 17 + ref_row_index r) div 2 ^ 17"
    by (subst nat_div_distrib) (simp_all add: nat_add_distrib nat_mult_distrib)
  moreover have "nat (int (ref_table_id r * 2 ^ 17 + ref_row_index r) mod 2 ^ 17) = (ref_table_id r * 2 ^ 17 + ref_row_index r) mod 2 ^ 17"
    by (subst nat_mod_distrib) (simp_all add: nat_add_distrib nat_mult_distrib)
  ultimately show ?thesis using assms by (simp add: raw_reference_def)
qed

lemma encoded_word:
  assumes "w \<le> 64"
  shows "uint (take_bit w (if s < 0 then push_bit w 1 + word_of_int s else word_of_int s :: u64)) = s mod 2 ^ w"
proof -
  have low: "uint (take_bit w (word_of_int t :: u64)) = t mod 2 ^ w" for t
  proof -
    have "uint (take_bit w (word_of_int t :: u64)) = take_bit w (take_bit LENGTH(64) t)"
      by (simp only: unsigned_take_bit_eq uint_word_of_int_eq)
    also have "\<dots> = take_bit w t" using assms by (simp add: min_def)
    finally show ?thesis by (simp only: take_bit_eq_mod)
  qed
  have "(push_bit w 1 :: u64) + word_of_int s = word_of_int (2 ^ w + s)" by simp
  then show ?thesis by (simp only: low if_distrib [of uint] if_distrib [of "take_bit w"]) simp
qed

lemma raw_value_encoded:
  assumes "stored_ok d" "1 \<le> bit_width d" "field_minimum d \<le> i" "i \<le> field_maximum d"
  shows "raw_value d (encoded_raw d i) = i"
proof -
  obtain m where w: "bit_width d = Suc m" using assms(2) by (cases "bit_width d") auto
  show ?thesis
  proof (cases "field_encoding d = ''signed''")
    case True
    then have b: "- (2 ^ m) \<le> i" "i < 2 ^ m"
      using assms by (auto simp: stored_ok_def legal_minimum_def legal_maximum_def w)
    show ?thesis
    proof (cases "0 \<le> i")
      case True
      with b have "i mod (2 * 2 ^ m) = i" by (intro mod_pos_pos_trivial) auto
      with b \<open>field_encoding d = ''signed''\<close> show ?thesis by (simp add: raw_value_def encoded_raw_def w)
    next
      case False
      have "(i + 2 * 2 ^ m) mod (2 * 2 ^ m) = i + 2 * 2 ^ m" using b False by (intro mod_pos_pos_trivial) auto
      then have "i mod (2 * 2 ^ m) = i + 2 * 2 ^ m" by simp
      with b \<open>field_encoding d = ''signed''\<close> show ?thesis by (simp add: raw_value_def encoded_raw_def w)
    qed
  next
    case False
    then show ?thesis
      using assms by (auto simp: stored_ok_def legal_minimum_def legal_maximum_def raw_value_def
          encoded_raw_def)
  qed
qed

lemma numeric_value_Inr:
  "numeric_value d v = Inr i \<longleftrightarrow>
     (case v of
        Numeric j \<Rightarrow> field_encoding d \<noteq> ''packed-reference'' \<and> i = j
      | Reference r \<Rightarrow> field_encoding d = ''packed-reference'' \<and> reference_table_id d = Some (ref_table_id r) \<and>
          ref_table_id r < 2 ^ 15 \<and> ref_row_index r < 2 ^ 17 \<and>
          i = int (ref_table_id r * 2 ^ 17 + ref_row_index r))"
proof (cases v)
  case (Reference r)
  show ?thesis
  proof (cases "ref_table_id r < 2 ^ 15 \<and> ref_row_index r < 2 ^ 17")
    case True
    then obtain w where "EncodePackedReference r = Inr w" "uint w = int (ref_table_id r * 2 ^ 17 + ref_row_index r)"
      using EncodePackedReference_value by blast
    with Reference True show ?thesis by (auto simp: numeric_value_def)
  next
    case False
    then obtain e where "EncodePackedReference r = Inl e" using EncodePackedReference_Inl by blast
    with Reference False show ?thesis by (auto simp: numeric_value_def)
  qed
qed (auto simp: numeric_value_def)

lemma encodable_iff:
  "encodable d v \<longleftrightarrow> (\<exists>i. numeric_value d v = Inr i \<and> field_minimum d \<le> i \<and> i \<le> field_maximum d)"
  by (auto simp: encodable_def numeric_value_Inr split: DecodedField.splits)

definition stored_raw :: "FieldDefinition \<Rightarrow> int \<Rightarrow> u64" where
  "stored_raw d i =
     (let s = (if field_encoding d = ''offset-binary'' then i - field_minimum d else i)
      in if s < 0 then push_bit (bit_width d) 1 + word_of_int s else word_of_int s)"

lemma EncodeField_eq:
  assumes "ValidateDefinition (length rec) d = Inr ()"
  shows "EncodeField rec d v = bindE (numeric_value d v) (\<lambda>i.
     if i < field_minimum d \<or> i > field_maximum d then Inl ''Field value is outside its declared bounds''
     else Inr (write_storage rec (byte_offset d) (storage_bytes d) (updated_word rec d (stored_raw d i))))"
  by (simp only: EncodeField_def assms bindE_simps updated_word_def stored_raw_def Let_def)

lemma EncodeField_Inr:
  assumes "ValidateDefinition (length rec) d = Inr ()"
  shows "EncodeField rec d v = Inr rec' \<longleftrightarrow>
    (\<exists>i. numeric_value d v = Inr i \<and> field_minimum d \<le> i \<and> i \<le> field_maximum d \<and>
       rec' = write_storage rec (byte_offset d) (storage_bytes d) (updated_word rec d (stored_raw d i)))"
proof (cases "numeric_value d v")
  case (Inr i)
  then show ?thesis by (cases "i < field_minimum d \<or> i > field_maximum d") (auto simp: EncodeField_eq [OF assms])
qed (simp add: EncodeField_eq [OF assms])

lemma EncodeField_defined:
  "ValidateDefinition (length rec) d = Inr () \<Longrightarrow> (\<exists>rec'. EncodeField rec d v = Inr rec') \<longleftrightarrow> encodable d v"
  by (auto simp: EncodeField_Inr encodable_iff)

lemma raw_field_encoded:
  assumes "ValidateDefinition (length rec) d = Inr ()" and "EncodeField rec d v = Inr rec'"
    and "numeric_value d v = Inr i"
  shows "uint (raw_field rec' d) = encoded_raw d i"
  using assms encoded_word [of "bit_width d"]
  by (auto simp: EncodeField_Inr ValidateDefinition_iff raw_field_written layout_ok_def encoded_raw_def stored_raw_def Let_def)

lemma decode_encoded:
  assumes v: "ValidateDefinition (length rec) d = Inr ()" and e: "EncodeField rec d v = Inr rec'"
  shows "DecodeField rec' d = Inr v"
proof -
  from e v obtain i where i: "numeric_value d v = Inr i" "field_minimum d \<le> i" "i \<le> field_maximum d"
    and len: "length rec' = length rec" by (auto simp: EncodeField_Inr)
  have raw: "uint (raw_field rec' d) = encoded_raw d i" by (rule raw_field_encoded [OF v e i(1)])
  have ok: "stored_ok d" "1 \<le> bit_width d" using v by (simp_all add: ValidateDefinition_iff layout_ok_def)
  have same: "raw_value d (encoded_raw d i) = i" by (rule raw_value_encoded [OF ok i(2,3)])
  have packed: "encoded_raw d i = i" if "field_encoding d = ''packed-reference''"
    using that same by (simp add: raw_value_def)
  show ?thesis
    using i(1) v packed raw same
    by (cases v) (auto simp: DecodeField_eq len numeric_value_Inr raw_reference_packed [simplified])
qed

lemma record_bit_word:
  assumes "layout_ok (length rec) d" and "k < 8 * storage_bytes d"
  shows "bit (ReadStorage rec d) k = record_bit rec (8 * (byte_offset d + storage_bytes d) - 1 - k)"
proof -
  let ?n = "storage_bytes d"
  have q: "k div 8 < ?n" "k < 64" using assms by (auto simp: layout_ok_def)
  have k: "k = 8 * (k div 8) + k mod 8" "k mod 8 < 8" by simp_all
  have p: "8 * (byte_offset d + ?n) - 1 - k = 8 * (byte_offset d + (?n - 1 - k div 8)) + (7 - k mod 8)"
    using k q by (simp add: algebra_simps)
  have split: "(8 * a + c) div 8 = a \<and> (8 * a + c) mod 8 = c" if "c < 8" for a c :: nat
    using that by simp
  have "(8 * (byte_offset d + ?n) - 1 - k) div 8 = byte_offset d + (?n - 1 - k div 8)"
    "(8 * (byte_offset d + ?n) - 1 - k) mod 8 = 7 - k mod 8"
    unfolding p by (rule split [THEN conjunct1], simp) (rule split [THEN conjunct2], simp)
  moreover have "7 - (7 - k mod 8) = k mod 8" using k(2) by linarith
  ultimately show ?thesis
    using assms(2) q by (simp add: record_bit_def ReadStorage_big_endian bit_big_endian)
qed

lemma encode_frame:
  assumes v: "ValidateDefinition (length rec) d = Inr ()" and e: "EncodeField rec d v = Inr rec'"
    and p: "p < 8 * length rec" "\<not> in_field d p"
  shows "record_bit rec' p = record_bit rec p"
proof -
  from e v obtain raw where rec': "rec' = write_storage rec (byte_offset d) (storage_bytes d) (updated_word rec d raw)"
    by (auto simp: EncodeField_Inr)
  have l: "layout_ok (length rec) d" using v by (simp add: ValidateDefinition_iff)
  then have l': "layout_ok (length rec') d" by (simp add: rec')
  show ?thesis
  proof (cases "byte_offset d \<le> p div 8 \<and> p div 8 < byte_offset d + storage_bytes d")
    case False
    have "p div 8 < length rec" using p(1) by auto
    moreover have "byte_offset d + storage_bytes d \<le> length rec" using l by (simp add: layout_ok_def)
    ultimately have "rec' ! (p div 8) = rec ! (p div 8)" using False by (auto simp: rec' write_storage_nth)
    then show ?thesis by (simp add: record_bit_def)
  next
    case True
    define k where "k = 8 * (byte_offset d + storage_bytes d) - 1 - p"
    have "p < 8 * (byte_offset d + storage_bytes d)" using True by (auto simp: less_mult_imp_div_less)
    then have k: "k < 8 * storage_bytes d" "8 * (byte_offset d + storage_bytes d) - 1 - k = p"
      using True by (auto simp: k_def)
    have "\<not> (field_shift d \<le> k \<and> k < field_shift d + bit_width d)"
      using p(2) l k by (auto simp: in_field_def field_shift_def layout_ok_def k_def)
    moreover have "8 * storage_bytes d \<le> 64" using l by (simp add: layout_ok_def)
    ultimately have "bit (ReadStorage rec' d) k = bit (ReadStorage rec d) k"
      using k(1) by (auto simp: rec' ReadStorage_written [OF l] bit_take_bit_iff bit_updated_word [OF l])
    then show ?thesis using record_bit_word [OF l k(1)] record_bit_word [OF l' k(1)] k(2) by simp
  qed
qed

text \<open>C12: the bit-field codec. For a definition that validates against the record size, \<open>EncodeField\<close> succeeds
  exactly on the encodable values (in the declared bounds; a reference also to the declared table and with
  15-bit table and 17-bit row numbers). A successful write keeps the size of the record, is read back by
  \<open>DecodeField\<close> as the value written, and changes no bit of the record outside the field.\<close>

theorem EncodeField_correct:
  assumes "ValidateDefinition (length rec) d = Inr ()"
  shows "(encodable d v \<longleftrightarrow> (\<exists>rec'. EncodeField rec d v = Inr rec')) \<and>
    (\<forall>rec'. EncodeField rec d v = Inr rec' \<longrightarrow>
       length rec' = length rec \<and> DecodeField rec' d = Inr v \<and>
       (\<forall>p. p < 8 * length rec \<longrightarrow> \<not> in_field d p \<longrightarrow> record_bit rec' p = record_bit rec p))"
proof (intro conjI allI impI)
  show "encodable d v \<longleftrightarrow> (\<exists>rec'. EncodeField rec d v = Inr rec')"
    by (simp only: EncodeField_defined [OF assms])
next
  fix rec'
  assume e: "EncodeField rec d v = Inr rec'"
  then show "length rec' = length rec" by (auto simp: EncodeField_Inr [OF assms])
  show "DecodeField rec' d = Inr v" by (rule decode_encoded [OF assms e])
  fix p
  assume "p < 8 * length rec" "\<not> in_field d p"
  then show "record_bit rec' p = record_bit rec p" by (rule encode_frame [OF assms e])
qed

text \<open>A 7-bit signed field in the middle of a two-byte storage, at the value -3.\<close>

definition sample_field :: FieldDefinition where
  "sample_field = \<lparr>field_name = ''SpeedRating'', field_encoding = ''signed'', byte_offset = 1,
     storage_bytes = 2, bit_offset = 3, bit_width = 7, field_minimum = -64, field_maximum = 63,
     reference_table_id = None\<rparr>"

theorem EncodeField_correct_witness:
  "encodable sample_field (Numeric (-3)) \<and>
   (\<exists>rec'. EncodeField [0xAA, 0xFF, 0x00, 0x55] sample_field (Numeric (-3)) = Inr rec' \<and>
      DecodeField rec' sample_field = Inr (Numeric (-3)) \<and> record_bit rec' 10 = True) \<and>
   \<not> (\<exists>rec'. EncodeField [0xAA, 0xFF, 0x00, 0x55] sample_field (Numeric 64) = Inr rec')"
proof -
  let ?rec = "[0xAA, 0xFF, 0x00, 0x55] :: byte list"
  have v: "ValidateDefinition (length ?rec) sample_field = Inr ()"
    by (simp add: ValidateDefinition_def sample_field_def supported_encodings_def legal_minimum_def
        legal_maximum_def)
  have yes: "encodable sample_field (Numeric (-3))" and no: "\<not> encodable sample_field (Numeric 64)"
    by (simp_all add: encodable_def sample_field_def)
  from EncodeField_correct [OF v, of "Numeric (-3)"] yes
  obtain rec' where e: "EncodeField ?rec sample_field (Numeric (-3)) = Inr rec'" by blast
  have b: "10 < 8 * length ?rec" "\<not> in_field sample_field 10" "record_bit ?rec 10 = True"
    by (simp_all add: in_field_def sample_field_def record_bit_def)
  show ?thesis
    using EncodeField_correct [OF v, of "Numeric (-3)"] EncodeField_correct [OF v, of "Numeric 64"] yes no e b
    by blast
qed

section \<open>What a loaded registry promises\<close>

definition field_ok :: "nat \<Rightarrow> FieldDefinition \<Rightarrow> bool" where
  "field_ok n f \<longleftrightarrow> field_name f \<noteq> [] \<and> length (field_name f) \<le> 128 \<and> ValidateDefinition n f = Inr () \<and>
     (field_encoding f = ''packed-reference'' \<longleftrightarrow> reference_table_id f \<noteq> None)"

definition table_ok :: "TableSchema \<Rightarrow> bool" where
  "table_ok t \<longleftrightarrow> logical_name t \<noteq> [] \<and> length (logical_name t) \<le> 128 \<and>
     schema_table_id t \<le> 0x7FFF \<and> schema_unique_id t \<le> 0xFFFFFFFF \<and>
     1 \<le> schema_capacity t \<and> schema_capacity t \<le> 0x1FFFF \<and> 1 \<le> record_size t \<and> record_size t \<le> 4096 \<and>
     length (schema_fields t) \<le> kMaxFieldsPerTable \<and>
     (\<forall>f \<in> set (schema_fields t). field_ok (record_size t) f) \<and>
     distinct (map field_name (schema_fields t)) \<and> is_sorted_by field_less (schema_fields t)"

definition registry_ok :: "SchemaRegistry \<Rightarrow> bool" where
  "registry_ok r \<longleftrightarrow> schema_tables r \<noteq> [] \<and> length (schema_tables r) \<le> kMaxTables \<and>
     (\<forall>t \<in> set (schema_tables r). table_ok t) \<and>
     sorted_wrt (<) (map schema_table_id (schema_tables r)) \<and>
     distinct (map schema_unique_id (schema_tables r)) \<and>
     (\<forall>t \<in> set (schema_tables r). \<forall>f \<in> set (schema_fields t). \<forall>target.
        reference_table_id f = Some target \<longrightarrow> target \<in> schema_table_id ` set (schema_tables r))"

lemma IntegerBetween_Inr:
  assumes "IntegerBetween v lo hi msg = Inr i" "0 \<le> hi" "hi < 2 ^ 63" "lo < 2 ^ 63"
  shows "lo \<le> i \<and> i \<le> hi"
proof (cases "is_number_unsigned v")
  case False
  then show ?thesis using assms by (auto simp: IntegerBetween_def Let_def split: if_splits)
next
  case True
  then obtain w where v: "v = JUnsigned w" by (auto simp: is_number_unsigned_def split: Json.splits)
  have hi: "hi mod 2 ^ 64 = hi" using assms(2,3) by (intro mod_pos_pos_trivial) simp_all
  have lo: "lo mod 2 ^ 64 = lo" if "0 \<le> lo" using that assms(4) by (intro mod_pos_pos_trivial) simp_all
  have i: "uint w \<le> hi" "i = sint w" "0 \<le> lo \<Longrightarrow> lo \<le> uint w"
    using assms(1) hi lo
    by (auto simp: v IntegerBetween_def is_number_unsigned_def json_int_def json_int64_def Let_def split: if_splits)
  have "sint w = uint w" using i(1) assms(3) by (intro small_sint) simp
  moreover have "lo \<le> uint w"
  proof (cases "0 \<le> lo")
    case False
    then have "lo \<le> 0" by simp
    also have "0 \<le> uint w" by simp
    finally show ?thesis .
  qed (rule i(3))
  ultimately show ?thesis using i by simp
qed

lemma int_at_Inr: "int_at j k lo hi msg = Inr i \<Longrightarrow> 0 \<le> hi \<Longrightarrow> hi < 2 ^ 63 \<Longrightarrow> lo < 2 ^ 63 \<Longrightarrow> lo \<le> i \<and> i \<le> hi"
  unfolding int_at_def bindE_Inr_iff using IntegerBetween_Inr by blast

lemma LogicalName_Inr: "LogicalName v msg = Inr n \<Longrightarrow> n \<noteq> [] \<and> length n \<le> 128"
  by (auto simp: LogicalName_def kMaxNameBytes_def Let_def split: if_splits)

lemma ParseField_ok: "ParseField j n = Inr f \<Longrightarrow> field_ok n f"
  unfolding ParseField_def bindE_Inr_iff Let_def
  by (elim exE conjE) (auto simp: field_ok_def split: if_splits dest: LogicalName_Inr)

lemma parse_fields_ok:
  assumes "parse_fields n js parsed = Inr fs" "\<forall>f \<in> set parsed. field_ok n f" "distinct (map field_name parsed)"
  shows "(\<forall>f \<in> set fs. field_ok n f) \<and> distinct (map field_name fs) \<and> length fs = length parsed + length js"
  using assms
proof (induction js arbitrary: parsed)
  case (Cons j js)
  then obtain f where f: "ParseField j n = Inr f" "field_name f \<notin> set (map field_name parsed)"
      "parse_fields n js (parsed @ [f]) = Inr fs"
    by (auto simp: bindE_Inr_iff split: if_splits)
  moreover have "field_ok n f" using f(1) by (rule ParseField_ok)
  ultimately have "(\<forall>f \<in> set fs. field_ok n f) \<and> distinct (map field_name fs) \<and>
      length fs = length (parsed @ [f]) + length js"
    using Cons.prems(2,3) by (intro Cons.IH) simp_all
  then show ?case by simp
qed simp

lemma json_size_items: "is_array j \<Longrightarrow> json_size j = length (json_items j)"
  by (auto simp: is_array_def json_size_def json_items_def split: Json.splits)

lemma ParseTable_ok:
  assumes "ParseTable j = Inr t"
  shows "table_ok t"
proof -
  from assms obtain fs nm ti ui cap rs au fields where
    a: "is_array fs" "json_size fs \<le> kMaxFieldsPerTable" and n: "nm \<noteq> [] \<and> length nm \<le> 128"
    and i: "int_at j ''tableId'' 0 0x7FFF ''Invalid table ID'' = Inr ti"
      "int_at j ''uniqueId'' 0 0xFFFFFFFF ''Invalid unique ID'' = Inr ui"
      "int_at j ''capacity'' 1 0x1FFFF ''Invalid capacity'' = Inr cap"
      "int_at j ''recordSize'' 1 4096 ''Invalid recordSize'' = Inr rs"
    and fields: "parse_fields (nat rs) (json_items fs) [] = Inr fields" "is_sorted_by field_less fields"
    and t: "t = \<lparr>logical_name = nm, schema_table_id = nat ti, schema_unique_id = nat ui,
            schema_capacity = nat cap, record_size = nat rs, authority_status = au,
            schema_fields = fields\<rparr>"
    unfolding ParseTable_def bindE_Inr_iff
    by (elim exE conjE) (auto split: if_splits dest: LogicalName_Inr)
  have b: "0 \<le> ti \<and> ti \<le> 0x7FFF" "0 \<le> ui \<and> ui \<le> 0xFFFFFFFF" "1 \<le> cap \<and> cap \<le> 0x1FFFF" "1 \<le> rs \<and> rs \<le> 4096"
    using int_at_Inr [OF i(1)] int_at_Inr [OF i(2)] int_at_Inr [OF i(3)] int_at_Inr [OF i(4)] by simp_all
  show ?thesis
    using a n b fields(2) parse_fields_ok [OF fields(1)] json_size_items [OF a(1)]
    by (auto simp: table_ok_def t nat_le_iff le_nat_iff)
qed

lemma parse_tables_ok:
  assumes "parse_tables p js seen parsed = Inr ts" "\<forall>t \<in> set parsed. table_ok t"
    "distinct (map schema_table_id parsed)" "distinct (map schema_unique_id parsed)"
    "\<not> p \<longrightarrow> (\<forall>t \<in> set parsed. authority_status t = kDiscoveryOnly)"
  shows "(\<forall>t \<in> set ts. table_ok t) \<and> distinct (map schema_table_id ts) \<and> distinct (map schema_unique_id ts) \<and>
    length ts = length parsed + length js \<and>
    (\<not> p \<longrightarrow> (\<forall>t \<in> set ts. authority_status t = kDiscoveryOnly))"
  using assms
proof (induction js arbitrary: parsed seen)
  case (Cons j js)
  then obtain t seen2 where t: "ParseTable j = Inr t" "p \<or> authority_status t = kDiscoveryOnly"
      "schema_table_id t \<notin> set (map schema_table_id parsed)"
      "schema_unique_id t \<notin> set (map schema_unique_id parsed)"
      "parse_tables p js seen2 (parsed @ [t]) = Inr ts"
    unfolding parse_tables.simps Let_def
    by (auto simp only: bindE_Inr_iff if_False if_True sum.distinct simp_thms split: if_splits)
  have "table_ok t" using t(1) by (rule ParseTable_ok)
  then have "(\<forall>t \<in> set ts. table_ok t) \<and> distinct (map schema_table_id ts) \<and> distinct (map schema_unique_id ts) \<and>
      length ts = length (parsed @ [t]) + length js \<and>
      (\<not> p \<longrightarrow> (\<forall>t \<in> set ts. authority_status t = kDiscoveryOnly))"
    using t Cons.prems(2-5) by (intro Cons.IH [OF t(5)]) auto
  then show ?case by simp
qed simp

lemma sorted_distinct_strict:
  assumes "is_sorted_by (\<lambda>l r. k l < (k r :: nat)) xs" "distinct (map k xs)"
  shows "sorted_wrt (<) (map k xs)"
  using assms
proof (induction "\<lambda>l r. k l < k r" xs rule: is_sorted_by.induct)
  case (1 x y xs)
  then have s: "sorted_wrt (<) (map k (y # xs))" by simp
  have "k x < k y" using 1 by auto
  with s show ?case by auto
qed auto

lemma find_known: "FindTable r t \<noteq> None \<longleftrightarrow> t \<in> schema_table_id ` set (schema_tables r)"
  by (auto simp: FindTable_def find_None)

lemma parse_layout_ok:
  assumes "parse_layout artifact p = Inr r"
  shows "registry_ok r \<and> (\<not> p \<longrightarrow> (\<forall>t \<in> set (schema_tables r). authority_status t = kDiscoveryOnly))"
proof -
  from assms obtain ts tables si bi where
    a: "is_array ts" "json_size ts \<noteq> 0" "json_size ts \<le> kMaxTables"
    and tables: "parse_tables p (json_items ts) 0 [] = Inr tables"
      "is_sorted_by (\<lambda>l r. schema_table_id l < schema_table_id r) tables"
    and r: "r = \<lparr>schema_identity = si, build_identity = bi, schema_tables = tables\<rparr>"
      "list_all (\<lambda>t. list_all (reference_known r) (schema_fields t)) tables"
    unfolding parse_layout_def bindE_Inr_iff Let_def ensure_Inr_iff
    by (elim exE conjE) auto
  note ok = parse_tables_ok [OF tables(1)]
  have l: "length tables = json_size ts" using ok json_size_items [OF a(1)] by simp
  have "target \<in> schema_table_id ` set tables"
    if "t \<in> set tables" "f \<in> set (schema_fields t)" "reference_table_id f = Some target" for t f target
  proof -
    have "reference_known r f" using r(2) that(1,2) by (auto simp: list_all_iff)
    then have "FindTable r target \<noteq> None" using that(3) by (simp add: reference_known_def)
    then show ?thesis unfolding find_known r(1) by simp
  qed
  moreover have "tables \<noteq> []" using l a(2) by auto
  ultimately show ?thesis
    using ok a(3) l sorted_distinct_strict [OF tables(2)] by (auto simp: registry_ok_def r(1))
qed

text \<open>C13: the layout artifact. Whatever JSON \<open>Load\<close> is given, either it reports an error and the registry is
  the one it had, or it succeeds with no error and the new registry is well formed: bounded and ordered
  tables with distinct table and unique numbers, every field valid for the record size of its table and
  named once, a target table exactly on the packed references and known to the registry, and no table with
  more authority than discovery.\<close>

theorem Load_registry:
  "case Load self artifact of
     (False, err, r) \<Rightarrow> r = self
   | (True, err, r) \<Rightarrow> err = [] \<and> registry_ok r \<and>
       {t \<in> set (schema_tables r). authority_status t \<noteq> kDiscoveryOnly} = {}"
  using parse_layout_ok [of artifact False]
  by (auto simp: Load_def LoadImpl_def split: sum.splits)

text \<open>Reading by schema. After a successful load, a field found by table number and name decodes every
  record of the record size of its table, and writing back a value that was read never fails for a number
  within the declared bounds.\<close>

lemma loaded_fields_decode:
  assumes "Load self artifact = (True, err, r)" and "FindTable r table = Some t"
    and "FindField r table name = Some f" and "length rec = record_size t"
  shows "field_name f = name \<and> (\<exists>v. DecodeField rec f = Inr v \<and>
    (\<forall>i. v = Numeric i \<and> field_minimum f \<le> i \<and> i \<le> field_maximum f \<longrightarrow>
       (\<exists>rec'. EncodeField rec f v = Inr rec')))"
proof -
  have ok: "registry_ok r" using assms(1) parse_layout_ok [of artifact False]
    by (auto simp: Load_def LoadImpl_def split: sum.splits)
  have t: "t \<in> set (schema_tables r)" using assms(2) find_Some_iff by (fastforce simp: FindTable_def)
  from assms(2,3) have "find (\<lambda>f. field_name f = name) (schema_fields t) = Some f" by (simp add: FindField_def)
  then have f: "f \<in> set (schema_fields t)" "field_name f = name" using find_Some_iff by fastforce+
  have "ValidateDefinition (length rec) f = Inr ()"
    using ok t f(1) assms(4) by (auto simp: registry_ok_def table_ok_def field_ok_def)
  then show ?thesis using f(2)
    by (auto simp: DecodeField_eq EncodeField_defined encodable_def)
qed

definition sample_artifact :: Json where
  "sample_artifact = JObject [(''buildIdentity'', JString ''6ae83f2d''), (''formatVersion'', JUnsigned 1),
     (''schemaIdentity'', JString ''cfb27''), (''tables'', JArray [JObject
       [(''authorityStatus'', JString ''discovery_only''), (''capacity'', JUnsigned 100),
        (''fields'', JArray [JObject
          [(''bitOffset'', JUnsigned 3), (''bitWidth'', JUnsigned 7), (''byteOffset'', JUnsigned 1),
           (''encoding'', JString ''signed''), (''maximum'', JUnsigned 63), (''minimum'', JInteger (-64)),
           (''name'', JString ''SpeedRating''), (''referenceTableId'', JNull), (''storageBytes'', JUnsigned 2)]]),
        (''logicalName'', JString ''Player''), (''recordSize'', JUnsigned 4), (''tableId'', JUnsigned 4256),
        (''uniqueId'', JUnsigned 77)]])]"

definition empty_registry :: SchemaRegistry where
  "empty_registry = \<lparr>schema_identity = [], build_identity = [], schema_tables = []\<rparr>"

definition sample_registry :: SchemaRegistry where
  "sample_registry = \<lparr>schema_identity = ''cfb27'', build_identity = ''6ae83f2d'', schema_tables =
     [\<lparr>logical_name = ''Player'', schema_table_id = 4256, schema_unique_id = 77, schema_capacity = 100,
       record_size = 4, authority_status = kDiscoveryOnly, schema_fields = [sample_field]\<rparr>]\<rparr>"

lemma sample_load: "Load empty_registry sample_artifact = (True, [], sample_registry)"
  by code_simp

lemma loaded_fields_decode_witness:
  "\<exists>v. DecodeField [0xAA, 0xFF, 0x00, 0x55] sample_field = Inr v"
proof -
  have "FindTable sample_registry 4256 = Some (hd (schema_tables sample_registry))"
    "FindField sample_registry 4256 ''SpeedRating'' = Some sample_field"
    "length ([0xAA, 0xFF, 0x00, 0x55] :: byte list) = record_size (hd (schema_tables sample_registry))"
    by (simp_all add: FindTable_def FindField_def sample_registry_def sample_field_def)
  from loaded_fields_decode [OF sample_load this] show ?thesis by blast
qed

end
