(* ===== verification/Profile.thy ===== *)
theory Profile
  imports Hex_Text Field_Schema
begin

text \<open>
  The table profiles (frtk_profile.h, frtk_profile.cpp): fingerprints of known rows, relationships between
  tables, and the parser of a version-1 profile bundle. The text helpers this file repeats (UTF-8, names,
  identities, exact keys) are those of \<open>Field_Schema\<close>. The serializer of the JSON library and the hash of
  the Windows crypto provider are parameters: \<open>dump\<close> gives the text of a value, and \<open>digest\<close> the 32 bytes of
  SHA-256, or \<open>None\<close> when the provider fails.
\<close>

record RelationshipConstraint =
  source_row :: nat
  relationship_field :: string
  target_table_id :: nat
  target_row :: nat

record RowFingerprint =
  row_index :: nat
  row_pattern :: "byte list"
  row_mask :: "byte list"

record TableProfile =
  profile_name :: string
  profile_table_id :: nat
  profile_unique_id :: nat
  profile_capacity :: nat
  profile_record_size :: nat
  profile_rows :: "RowFingerprint list"
  profile_relationships :: "RelationshipConstraint list"

record ProfileBundle =
  profile_id :: string
  bundle_schema_identity :: string
  bundle_build_identity :: string
  bundle_tables :: "TableProfile list"
  bundle_schema :: SchemaRegistry

definition kMaxFingerprintsPerTable :: nat where "kMaxFingerprintsPerTable = 8"
definition kMaxFingerprintsTotal :: nat where "kMaxFingerprintsTotal = 1024"
definition kMaxRelationshipsPerTable :: nat where "kMaxRelationshipsPerTable = 64"
definition kMaxRelationshipsTotal :: nat where "kMaxRelationshipsTotal = 4096"

definition UnsignedBetween :: "Json \<Rightarrow> nat \<Rightarrow> nat \<Rightarrow> string \<Rightarrow> string + nat" where
  "UnsignedBetween v minimum maximum message =
     (let number = json_int v in
      if is_number_integer v \<and> number \<ge> 0 \<and> nat number \<ge> minimum \<and> nat number \<le> maximum
      then Inr (nat number) else Inl message)"

definition unsigned_at :: "Json \<Rightarrow> string \<Rightarrow> nat \<Rightarrow> nat \<Rightarrow> string \<Rightarrow> string + nat" where
  "unsigned_at j key minimum maximum message =
     bindE (json_at j key) (\<lambda>v. UnsignedBetween v minimum maximum message)"

text \<open>The values under a key that must have a kind.\<close>

definition kind_at :: "(Json \<Rightarrow> bool) \<Rightarrow> Json \<Rightarrow> string \<Rightarrow> string \<Rightarrow> string + Json" where
  "kind_at kind j key message = bindE (json_at j key) (\<lambda>v. if kind v then Inr v else Inl message)"

definition Sha256Upper :: "(string \<Rightarrow> byte list option) \<Rightarrow> string \<Rightarrow> string + string" where
  "Sha256Upper digest content =
     (case digest content of
        None \<Rightarrow> Inl ''Unable to compute SHA-256''
      | Some bytes \<Rightarrow> Inr (BytesToHex bytes))"

section \<open>Rows, relationships and tables\<close>

definition ParseRow :: "Json \<Rightarrow> nat \<Rightarrow> nat \<Rightarrow> string + RowFingerprint" where
  "ParseRow row cap n =
     (let invalid = ''Row fingerprint is invalid'' in
     bindE (ensure (HasExactKeys row [''rowIndex'', ''patternHex'', ''maskHex'']) invalid) (\<lambda>_.
     bindE (kind_at is_string row ''patternHex'' invalid) (\<lambda>p.
     bindE (kind_at is_string row ''maskHex'' invalid) (\<lambda>m.
     bindE (unsigned_at row ''rowIndex'' 0 (cap - 1) ''Row index exceeds capacity'') (\<lambda>i.
     bindE (DecodeHex (json_text p)) (\<lambda>pattern.
     bindE (DecodeHex (json_text m)) (\<lambda>mask.
     bindE (ensure (length pattern = n \<and> length mask = n)
       ''Pattern and mask lengths must match recordSize'') (\<lambda>_.
     bindE (ensure (list_all (\<lambda>(p, m). p AND NOT m = 0) (zip pattern mask))
       ''Pattern contains unselected bits'') (\<lambda>_.
     Inr \<lparr>row_index = i, row_pattern = pattern, row_mask = mask\<rparr>)))))))))"

definition ParseRelationship :: "Json \<Rightarrow> nat \<Rightarrow> string + RelationshipConstraint" where
  "ParseRelationship relationship cap =
     (let invalid = ''Relationship definition is invalid'' in
     bindE (ensure (HasExactKeys relationship [''sourceRow'', ''fieldName'', ''targetTableId'', ''targetRow''])
       invalid) (\<lambda>_.
     bindE (kind_at is_string relationship ''fieldName'' invalid) (\<lambda>f.
     bindE (unsigned_at relationship ''sourceRow'' 0 (cap - 1)
       ''Relationship source row exceeds capacity'') (\<lambda>source.
     bindE (LogicalName f ''Relationship field name is invalid'') (\<lambda>name.
     bindE (unsigned_at relationship ''targetTableId'' 0 0x7FFF
       ''Invalid relationship target table'') (\<lambda>table.
     bindE (unsigned_at relationship ''targetRow'' 0 0x1FFFF
       ''Invalid relationship target row'') (\<lambda>target.
     Inr \<lparr>source_row = source, relationship_field = name, target_table_id = table,
          target_row = target\<rparr>)))))))"

text \<open>The loops of \<open>ParseTable\<close>: an index or a source field that was seen before is an error.\<close>

fun parse_rows :: "nat \<Rightarrow> nat \<Rightarrow> Json list \<Rightarrow> RowFingerprint list \<Rightarrow> string + RowFingerprint list" where
  "parse_rows cap n [] parsed = Inr parsed"
| "parse_rows cap n (j # js) parsed =
     bindE (ParseRow j cap n) (\<lambda>row.
     if row_index row \<in> set (map row_index parsed) then Inl ''Duplicate row index''
     else parse_rows cap n js (parsed @ [row]))"

definition relationship_identity :: "RelationshipConstraint \<Rightarrow> nat \<times> string" where
  "relationship_identity r = (source_row r, relationship_field r)"

fun parse_relationships ::
  "nat \<Rightarrow> Json list \<Rightarrow> RelationshipConstraint list \<Rightarrow> string + RelationshipConstraint list" where
  "parse_relationships cap [] parsed = Inr parsed"
| "parse_relationships cap (j # js) parsed =
     bindE (ParseRelationship j cap) (\<lambda>r.
     if relationship_identity r \<in> set (map relationship_identity parsed)
     then Inl ''Duplicate relationship source field identity''
     else parse_relationships cap js (parsed @ [r]))"

definition popcount :: "byte \<Rightarrow> nat" where
  "popcount b = length (filter (bit b) [0..<8])"

definition selected_bits :: "RowFingerprint list \<Rightarrow> nat" where
  "selected_bits rows = sum_list (map (\<lambda>r. sum_list (map popcount (row_mask r))) rows)"

definition relationship_less :: "RelationshipConstraint \<Rightarrow> RelationshipConstraint \<Rightarrow> bool" where
  "relationship_less l r =
     (if source_row l \<noteq> source_row r then source_row l < source_row r
      else string_less (relationship_field l) (relationship_field r))"

definition ParseTableProfile :: "Json \<Rightarrow> string + TableProfile" where
  "ParseTableProfile table =
     (let invalid = ''Table profile is invalid'' in
     bindE (ensure (HasExactKeys table
         [''logicalName'', ''tableId'', ''uniqueId'', ''capacity'', ''recordSize'', ''rows'',
          ''relationships'']) invalid) (\<lambda>_.
     bindE (kind_at is_array table ''rows'' invalid) (\<lambda>rows.
     bindE (kind_at is_array table ''relationships'' invalid) (\<lambda>relationships.
     bindE (json_at table ''logicalName'') (\<lambda>nm.
     bindE (LogicalName nm ''Table name is invalid'') (\<lambda>nm.
     bindE (unsigned_at table ''tableId'' 0 0x7FFF ''Invalid table ID'') (\<lambda>ti.
     bindE (unsigned_at table ''uniqueId'' 0 0xFFFFFFFF ''Invalid unique ID'') (\<lambda>ui.
     bindE (unsigned_at table ''capacity'' 1 0x1FFFF ''Invalid capacity'') (\<lambda>cap.
     bindE (unsigned_at table ''recordSize'' 1 4096 ''Invalid recordSize'') (\<lambda>rs.
     bindE (ensure (json_size rows \<le> kMaxFingerprintsPerTable)
       ''At most 8 fingerprints are allowed per table'') (\<lambda>_.
     bindE (ensure (json_size relationships \<le> kMaxRelationshipsPerTable)
       ''At most 64 relationships are allowed per table'') (\<lambda>_.
     bindE (parse_rows cap rs (json_items rows) []) (\<lambda>rows.
     bindE (ensure (selected_bits rows \<ge> 64)
       ''Table masks require at least 64 selected bits'') (\<lambda>_.
     bindE (ensure (length rows \<ge> 3 \<and> length (remdups (map row_pattern rows)) \<ge> 3)
       ''Each table requires at least three distinct occupied rows'') (\<lambda>_.
     bindE (ensure (is_sorted_by (\<lambda>l r. row_index l < row_index r) rows) ''Noncanonical row order'') (\<lambda>_.
     bindE (parse_relationships cap (json_items relationships) []) (\<lambda>relationships.
     bindE (ensure (is_sorted_by relationship_less relationships) ''Noncanonical relationship order'') (\<lambda>_.
     Inr \<lparr>profile_name = nm, profile_table_id = ti, profile_unique_id = ui, profile_capacity = cap,
          profile_record_size = rs, profile_rows = rows,
          profile_relationships = relationships\<rparr>))))))))))))))))))"

section \<open>The bundle\<close>

definition ValidateTableIdentity :: "TableProfile \<Rightarrow> TableSchema \<Rightarrow> bool" where
  "ValidateTableIdentity p s \<longleftrightarrow>
     profile_name p = logical_name s \<and> profile_table_id p = schema_table_id s \<and>
     profile_unique_id p = schema_unique_id s \<and> profile_capacity p = schema_capacity s \<and>
     profile_record_size p = record_size s"

fun parse_profiles :: "Json list \<Rightarrow> nat \<Rightarrow> nat \<Rightarrow> TableProfile list \<Rightarrow> string + TableProfile list" where
  "parse_profiles [] fingerprint_total relationship_total parsed = Inr parsed"
| "parse_profiles (j # js) fingerprint_total relationship_total parsed =
     bindE (ParseTableProfile j) (\<lambda>p.
     let fingerprint_total = fingerprint_total + length (profile_rows p);
         relationship_total = relationship_total + length (profile_relationships p)
     in if fingerprint_total > kMaxFingerprintsTotal then Inl ''At most 1024 fingerprints are allowed in total''
        else if relationship_total > kMaxRelationshipsTotal
        then Inl ''At most 4096 relationships are allowed in total''
        else if profile_table_id p \<in> set (map profile_table_id parsed) then Inl ''Duplicate table ID in profile''
        else if profile_unique_id p \<in> set (map profile_unique_id parsed) then Inl ''Duplicate unique ID in profile''
        else parse_profiles js fingerprint_total relationship_total (parsed @ [p]))"

fun check_targets :: "TableProfile list \<Rightarrow> RelationshipConstraint list \<Rightarrow> string + unit" where
  "check_targets tables [] = Inr ()"
| "check_targets tables (r # rs) =
     (case find (\<lambda>t. profile_table_id t = target_table_id r) tables of
        None \<Rightarrow> Inl ''Unknown relationship target table''
      | Some t \<Rightarrow>
          if target_row r \<ge> profile_capacity t
          then Inl ''Relationship target row exceeds target table capacity''
          else check_targets tables rs)"

fun check_profiles :: "SchemaRegistry \<Rightarrow> TableProfile list \<Rightarrow> TableProfile list \<Rightarrow> string + unit" where
  "check_profiles schema tables [] = Inr ()"
| "check_profiles schema tables (p # ps) =
     (case FindTable schema (profile_table_id p) of
        None \<Rightarrow> Inl ''Profile/layout table identity mismatch''
      | Some s \<Rightarrow>
          bindE (ensure (ValidateTableIdentity p s) ''Profile/layout table identity mismatch'') (\<lambda>_.
          bindE (check_targets tables (profile_relationships p)) (\<lambda>_.
          check_profiles schema tables ps)))"

definition json_erase :: "Json \<Rightarrow> string \<Rightarrow> Json" where
  "json_erase j key = (case j of JObject kvs \<Rightarrow> JObject (filter (\<lambda>(k, _). k \<noteq> key) kvs) | _ \<Rightarrow> j)"

definition parse_bundle ::
  "(Json \<Rightarrow> string) \<Rightarrow> (string \<Rightarrow> byte list option) \<Rightarrow> Json \<Rightarrow> string + ProfileBundle" where
  "parse_bundle dump digest artifact =
     bindE (ensure (HasExactKeys artifact [''profile'', ''layout'']) ''Invalid profile bundle'') (\<lambda>_.
     bindE (kind_at is_object artifact ''profile'' ''Invalid profile bundle'') (\<lambda>profile.
     bindE (kind_at is_object artifact ''layout'' ''Invalid profile bundle'') (\<lambda>layout.
     let invalid = ''Invalid version-1 profile'' in
     bindE (ensure (HasExactKeys profile
         [''formatVersion'', ''profileId'', ''schemaIdentity'', ''buildIdentity'', ''tables'']) invalid) (\<lambda>_.
     bindE (unsigned_at profile ''formatVersion'' 1 1 ''Unsupported profile version'') (\<lambda>v.
     bindE (ensure (v = 1) invalid) (\<lambda>_.
     bindE (kind_at is_string profile ''profileId'' invalid) (\<lambda>pid.
     bindE (kind_at is_array profile ''tables'' invalid) (\<lambda>ts.
     bindE (ensure (json_size ts \<noteq> 0) invalid) (\<lambda>_.
     bindE (ensure (json_size ts \<le> kMaxTables) ''Version-1 artifacts allow at most 256 tables'') (\<lambda>_.
     bindE (ensure (length (json_text pid) = 64 \<and> IsUpperHex (json_text pid)) ''Invalid profile ID'') (\<lambda>_.
     bindE (json_at profile ''schemaIdentity'') (\<lambda>si.
     bindE (Identity si ''Invalid schema identity'') (\<lambda>si.
     bindE (json_at profile ''buildIdentity'') (\<lambda>bi.
     bindE (Identity bi ''Invalid build identity'') (\<lambda>bi.
     (case Load \<lparr>schema_identity = [], build_identity = [], schema_tables = []\<rparr> layout of
        (False, schema_error, _) \<Rightarrow> Inl schema_error
      | (True, _, schema) \<Rightarrow>
     bindE (ensure (si = schema_identity schema \<and> bi = build_identity schema)
       ''Profile/layout identity mismatch'') (\<lambda>_.
     bindE (ensure (list_all (\<lambda>t. authority_status t = kDiscoveryOnly) (schema_tables schema))
       ''Version-1 file artifacts must use discovery_only authority'') (\<lambda>_.
     bindE (parse_profiles (json_items ts) 0 0 []) (\<lambda>tables.
     bindE (ensure (is_sorted_by (\<lambda>l r. profile_table_id l < profile_table_id r) tables)
       ''Noncanonical profile table order'') (\<lambda>_.
     bindE (ensure (length tables = length (schema_tables schema))
       ''Profile/layout table identity mismatch'') (\<lambda>_.
     bindE (check_profiles schema tables tables) (\<lambda>_.
     bindE (Sha256Upper digest (dump (JObject [(''layout'', layout),
       (''profile'', json_erase profile ''profileId'')]))) (\<lambda>hash.
     bindE (ensure (hash = json_text pid) ''Profile ID does not match canonical content'') (\<lambda>_.
     Inr \<lparr>profile_id = json_text pid, bundle_schema_identity = si, bundle_build_identity = bi,
          bundle_tables = tables, bundle_schema = schema\<rparr>))))))))))))))))))))))))"

text \<open>\<open>ParseProfile\<close>: a bundle and no error, or no bundle and the text of the exception.\<close>

definition ParseProfile ::
  "(Json \<Rightarrow> string) \<Rightarrow> (string \<Rightarrow> byte list option) \<Rightarrow> Json \<Rightarrow> ProfileBundle option \<times> string" where
  "ParseProfile dump digest artifact =
     (case parse_bundle dump digest artifact of
        Inr bundle \<Rightarrow> (Some bundle, [])
      | Inl what \<Rightarrow> (None, what))"

section \<open>What a parsed bundle promises\<close>

definition fingerprint_ok :: "nat \<Rightarrow> nat \<Rightarrow> RowFingerprint \<Rightarrow> bool" where
  "fingerprint_ok cap n r \<longleftrightarrow> row_index r < cap \<and> length (row_pattern r) = n \<and> length (row_mask r) = n \<and>
     (\<forall>i < n. row_pattern r ! i AND NOT (row_mask r ! i) = 0)"

definition profile_ok :: "TableProfile \<Rightarrow> bool" where
  "profile_ok p \<longleftrightarrow> profile_table_id p \<le> 0x7FFF \<and> profile_unique_id p \<le> 0xFFFFFFFF \<and>
     1 \<le> profile_capacity p \<and> profile_capacity p \<le> 0x1FFFF \<and>
     1 \<le> profile_record_size p \<and> profile_record_size p \<le> 4096 \<and>
     3 \<le> length (profile_rows p) \<and> length (profile_rows p) \<le> 8 \<and>
     (\<forall>r \<in> set (profile_rows p). fingerprint_ok (profile_capacity p) (profile_record_size p) r) \<and>
     sorted_wrt (<) (map row_index (profile_rows p)) \<and>
     3 \<le> card (row_pattern ` set (profile_rows p)) \<and> 64 \<le> selected_bits (profile_rows p) \<and>
     length (profile_relationships p) \<le> 64 \<and>
     (\<forall>r \<in> set (profile_relationships p). source_row r < profile_capacity p) \<and>
     distinct (map relationship_identity (profile_relationships p))"

definition relationships_closed :: "TableProfile list \<Rightarrow> bool" where
  "relationships_closed tables \<longleftrightarrow> (\<forall>p \<in> set tables. \<forall>r \<in> set (profile_relationships p).
     \<exists>t \<in> set tables. profile_table_id t = target_table_id r \<and> target_row r < profile_capacity t)"

definition bundle_ok :: "ProfileBundle \<Rightarrow> bool" where
  "bundle_ok b \<longleftrightarrow> registry_ok (bundle_schema b) \<and>
     (\<forall>t \<in> set (schema_tables (bundle_schema b)). authority_status t = kDiscoveryOnly) \<and>
     bundle_schema_identity b = schema_identity (bundle_schema b) \<and>
     bundle_build_identity b = build_identity (bundle_schema b) \<and>
     (\<forall>p \<in> set (bundle_tables b). profile_ok p) \<and>
     sorted_wrt (<) (map profile_table_id (bundle_tables b)) \<and>
     distinct (map profile_unique_id (bundle_tables b)) \<and>
     list_all2 ValidateTableIdentity (bundle_tables b) (schema_tables (bundle_schema b)) \<and>
     relationships_closed (bundle_tables b)"

lemma unsigned_at_Inr: "unsigned_at j k lo hi msg = Inr n \<Longrightarrow> lo \<le> n \<and> n \<le> hi"
  by (auto simp: unsigned_at_def UnsignedBetween_def bindE_Inr_iff Let_def split: if_splits)

lemma kind_at_Inr: "kind_at kind j k msg = Inr v \<longleftrightarrow> json_at j k = Inr v \<and> kind v"
  by (auto simp: kind_at_def bindE_Inr_iff)

lemma ParseRow_ok:
  assumes "ParseRow j cap n = Inr r" "0 < cap"
  shows "fingerprint_ok cap n r"
  using assms(1) unfolding ParseRow_def bindE_Inr_iff Let_def ensure_Inr_iff
proof (elim exE conjE)
  fix i pattern mask
  assume a: "unsigned_at j ''rowIndex'' 0 (cap - 1) ''Row index exceeds capacity'' = Inr i"
    "length pattern = n" "length mask = n" "list_all (\<lambda>(p, m). p AND NOT m = 0) (zip pattern mask)"
    and r: "Inr \<lparr>row_index = i, row_pattern = pattern, row_mask = mask\<rparr> = (Inr r :: string + RowFingerprint)"
  have "i < cap" using unsigned_at_Inr [OF a(1)] assms(2) by auto
  moreover have "pattern ! k AND NOT (mask ! k) = 0" if "k < n" for k
    using a(2-4) that by (auto simp: list_all_length)
  ultimately show ?thesis using r a(2,3) by (auto simp: fingerprint_ok_def)
qed

lemma parse_rows_ok:
  assumes "parse_rows cap n js parsed = Inr rows" "0 < cap"
    "\<forall>r \<in> set parsed. fingerprint_ok cap n r" "distinct (map row_index parsed)"
  shows "(\<forall>r \<in> set rows. fingerprint_ok cap n r) \<and> distinct (map row_index rows) \<and>
    length rows = length parsed + length js"
  using assms
proof (induction js arbitrary: parsed)
  case (Cons j js)
  from Cons.prems(1) obtain r where r: "ParseRow j cap n = Inr r" "row_index r \<notin> set (map row_index parsed)"
      "parse_rows cap n js (parsed @ [r]) = Inr rows"
    unfolding parse_rows.simps bindE_Inr_iff by (auto simp only: simp_thms sum.distinct split: if_splits)
  have "fingerprint_ok cap n r" using ParseRow_ok [OF r(1) Cons.prems(2)] .
  then have "(\<forall>r \<in> set rows. fingerprint_ok cap n r) \<and> distinct (map row_index rows) \<and>
    length rows = length (parsed @ [r]) + length js"
    using r Cons.prems(2-4) by (intro Cons.IH [OF r(3)]) auto
  then show ?case by simp
qed simp

lemma parse_relationships_ok:
  assumes "parse_relationships cap js parsed = Inr rs" "0 < cap"
    "\<forall>r \<in> set parsed. source_row r < cap" "distinct (map relationship_identity parsed)"
  shows "(\<forall>r \<in> set rs. source_row r < cap) \<and> distinct (map relationship_identity rs) \<and>
    length rs = length parsed + length js"
  using assms
proof (induction js arbitrary: parsed)
  case (Cons j js)
  from Cons.prems(1) obtain r where r: "ParseRelationship j cap = Inr r"
      "relationship_identity r \<notin> set (map relationship_identity parsed)"
      "parse_relationships cap js (parsed @ [r]) = Inr rs"
    unfolding parse_relationships.simps bindE_Inr_iff
    by (auto simp only: simp_thms sum.distinct split: if_splits)
  have "source_row r < cap"
    using r(1) Cons.prems(2) unsigned_at_Inr
    unfolding ParseRelationship_def bindE_Inr_iff Let_def by fastforce
  then have "(\<forall>r \<in> set rs. source_row r < cap) \<and> distinct (map relationship_identity rs) \<and>
    length rs = length (parsed @ [r]) + length js"
    using r Cons.prems(2-4) by (intro Cons.IH [OF r(3)]) auto
  then show ?case by simp
qed simp

lemma ParseTableProfile_ok:
  assumes "ParseTableProfile j = Inr p"
  shows "profile_ok p"
  using assms unfolding ParseTableProfile_def bindE_Inr_iff Let_def ensure_Inr_iff kind_at_Inr
proof (elim exE conjE)
  fix rows rels nm ti ui cap rs rows' rels'
  assume a: "is_array rows" "is_array rels" "json_size rows \<le> kMaxFingerprintsPerTable"
      "json_size rels \<le> kMaxRelationshipsPerTable"
    and n: "unsigned_at j ''tableId'' 0 0x7FFF ''Invalid table ID'' = Inr ti"
      "unsigned_at j ''uniqueId'' 0 0xFFFFFFFF ''Invalid unique ID'' = Inr ui"
      "unsigned_at j ''capacity'' 1 0x1FFFF ''Invalid capacity'' = Inr cap"
      "unsigned_at j ''recordSize'' 1 4096 ''Invalid recordSize'' = Inr rs"
    and r: "parse_rows cap rs (json_items rows) [] = Inr rows'" "64 \<le> selected_bits rows'"
      "3 \<le> length rows'" "3 \<le> length (remdups (map row_pattern rows'))"
      "is_sorted_by (\<lambda>l r. row_index l < row_index r) rows'"
    and q: "parse_relationships cap (json_items rels) [] = Inr rels'"
    and p: "Inr \<lparr>profile_name = nm, profile_table_id = ti, profile_unique_id = ui, profile_capacity = cap,
          profile_record_size = rs, profile_rows = rows', profile_relationships = rels'\<rparr> =
          (Inr p :: string + TableProfile)"
  have b: "ti \<le> 0x7FFF" "ui \<le> 0xFFFFFFFF" "1 \<le> cap" "cap \<le> 0x1FFFF" "1 \<le> rs" "rs \<le> 4096"
    using unsigned_at_Inr [OF n(1)] unsigned_at_Inr [OF n(2)] unsigned_at_Inr [OF n(3)] unsigned_at_Inr [OF n(4)]
    by simp_all
  have rows: "(\<forall>r \<in> set rows'. fingerprint_ok cap rs r)" "distinct (map row_index rows')" "length rows' \<le> 8"
    using parse_rows_ok [OF r(1)] b(3) a(1,3) json_size_items [of rows]
    by (auto simp: kMaxFingerprintsPerTable_def)
  have rels: "(\<forall>r \<in> set rels'. source_row r < cap)" "distinct (map relationship_identity rels')" "length rels' \<le> 64"
    using parse_relationships_ok [OF q] b(3) a(2,4) json_size_items [of rels]
    by (auto simp: kMaxRelationshipsPerTable_def)
  have c: "3 \<le> card (row_pattern ` set rows')" using r(4) by (simp add: length_remdups_card_conv)
  have s: "sorted_wrt (<) (map row_index rows')" using r(5) rows(2) by (rule sorted_distinct_strict)
  have "p = \<lparr>profile_name = nm, profile_table_id = ti, profile_unique_id = ui, profile_capacity = cap,
          profile_record_size = rs, profile_rows = rows', profile_relationships = rels'\<rparr>" using p by simp
  with b rows rels c s r(2,3) show ?thesis
    unfolding profile_ok_def by (simp only: TableProfile.simps)
qed

lemma parse_profiles_ok:
  assumes "parse_profiles js f r parsed = Inr ps"
    "\<forall>p \<in> set parsed. profile_ok p" "distinct (map profile_table_id parsed)"
    "distinct (map profile_unique_id parsed)"
  shows "(\<forall>p \<in> set ps. profile_ok p) \<and> distinct (map profile_table_id ps) \<and> distinct (map profile_unique_id ps) \<and>
    length ps = length parsed + length js"
  using assms
proof (induction js arbitrary: parsed f r)
  case (Cons j js)
  from Cons.prems(1) obtain p f' r' where p: "ParseTableProfile j = Inr p"
      "profile_table_id p \<notin> set (map profile_table_id parsed)"
      "profile_unique_id p \<notin> set (map profile_unique_id parsed)"
      "parse_profiles js f' r' (parsed @ [p]) = Inr ps"
    unfolding parse_profiles.simps bindE_Inr_iff Let_def
    by (auto simp only: simp_thms sum.distinct split: if_splits)
  have "profile_ok p" using p(1) by (rule ParseTableProfile_ok)
  then have "(\<forall>p \<in> set ps. profile_ok p) \<and> distinct (map profile_table_id ps) \<and>
    distinct (map profile_unique_id ps) \<and> length ps = length (parsed @ [p]) + length js"
    using p Cons.prems(2-4) by (intro Cons.IH [OF p(4)]) auto
  then show ?case by simp
qed simp

lemma check_targets_ok:
  "check_targets tables rs = Inr () \<Longrightarrow> r \<in> set rs \<Longrightarrow>
   \<exists>t \<in> set tables. profile_table_id t = target_table_id r \<and> target_row r < profile_capacity t"
proof (induction rs)
  case (Cons q rs)
  then obtain t where t: "find (\<lambda>t. profile_table_id t = target_table_id q) tables = Some t"
      "target_row q < profile_capacity t" "check_targets tables rs = Inr ()"
    by (auto split: option.splits if_splits)
  have "t \<in> set tables \<and> profile_table_id t = target_table_id q" using find_Some_iff [OF t(1)] .
  with Cons t show ?case by auto
qed simp

lemma check_profiles_ok:
  "check_profiles schema tables ps = Inr () \<Longrightarrow> p \<in> set ps \<Longrightarrow>
   (\<exists>s. FindTable schema (profile_table_id p) = Some s \<and> ValidateTableIdentity p s) \<and>
   check_targets tables (profile_relationships p) = Inr ()"
proof (induction ps)
  case (Cons q ps)
  then obtain s where s: "FindTable schema (profile_table_id q) = Some s" "ValidateTableIdentity q s"
      "check_targets tables (profile_relationships q) = Inr ()" "check_profiles schema tables ps = Inr ()"
    by (auto simp: bindE_Inr_iff split: option.splits)
  with Cons show ?case by auto
qed simp

text \<open>Two strictly sorted lists of the same length, each profile found in the layout: they correspond.\<close>

lemma profiles_match_schemas:
  assumes known: "\<And>p. p \<in> set ps \<Longrightarrow> \<exists>s. FindTable schema (profile_table_id p) = Some s \<and> ValidateTableIdentity p s"
    and sorted: "sorted_wrt (<) (map profile_table_id ps)" "sorted_wrt (<) (map schema_table_id (schema_tables schema))"
    and len: "length ps = length (schema_tables schema)"
  shows "list_all2 ValidateTableIdentity ps (schema_tables schema)"
proof -
  let ?ss = "schema_tables schema"
  have found: "s \<in> set ?ss \<and> schema_table_id s = t" if "FindTable schema t = Some s" for s t
    using that find_Some_iff by (fastforce simp: FindTable_def)
  have d: "distinct (map profile_table_id ps)" "distinct (map schema_table_id ?ss)"
    using sorted strict_sorted_iff by blast+
  have "set (map profile_table_id ps) \<subseteq> set (map schema_table_id ?ss)"
  proof
    fix t
    assume "t \<in> set (map profile_table_id ps)"
    then obtain p where "p \<in> set ps" "t = profile_table_id p" by auto
    then obtain s where "FindTable schema t = Some s" using known by blast
    then show "t \<in> set (map schema_table_id ?ss)" using found by fastforce
  qed
  moreover have "card (set (map profile_table_id ps)) = card (set (map schema_table_id ?ss))"
    using distinct_card [OF d(1)] distinct_card [OF d(2)] len by (simp only: length_map)
  ultimately have "set (map profile_table_id ps) = set (map schema_table_id ?ss)"
    by (intro card_subset_eq) auto
  then have ids: "map profile_table_id ps = map schema_table_id ?ss"
    using sorted strict_sorted_equal by blast
  show ?thesis
  proof (rule list_all2_all_nthI [OF len])
    fix i
    assume i: "i < length ps"
    obtain s where s: "FindTable schema (profile_table_id (ps ! i)) = Some s" "ValidateTableIdentity (ps ! i) s"
      using known i nth_mem by blast
    have "schema_table_id s = schema_table_id (?ss ! i)"
      using found [OF s(1)] arg_cong [OF ids, of "\<lambda>xs. xs ! i"] i len by simp
    moreover have "s \<in> set ?ss" "?ss ! i \<in> set ?ss" using found [OF s(1)] i len by auto
    ultimately have "s = ?ss ! i" using d(2) by (auto simp: distinct_map dest: inj_onD)
    with s(2) show "ValidateTableIdentity (ps ! i) (?ss ! i)" by simp
  qed
qed

lemma Load_parse: "Load r0 layout = (True, e, schema) \<longleftrightarrow> e = [] \<and> parse_layout layout False = Inr schema"
  by (auto simp: Load_def LoadImpl_def split: sum.splits)

lemma parse_bundle_ok:
  assumes "parse_bundle dump digest artifact = Inr b"
  shows "bundle_ok b \<and> (\<exists>profile layout bytes. json_at artifact ''profile'' = Inr profile \<and>
    json_at artifact ''layout'' = Inr layout \<and>
    digest (dump (JObject [(''layout'', layout), (''profile'', json_erase profile ''profileId'')])) = Some bytes \<and>
    profile_id b = BytesToHex bytes)"
proof -
  from assms obtain profile layout ts pid si bi schema tables bytes where
    at: "json_at artifact ''profile'' = Inr profile" "json_at artifact ''layout'' = Inr layout"
    and schema: "parse_layout layout False = Inr schema" "si = schema_identity schema" "bi = build_identity schema"
    and tables: "parse_profiles (json_items ts) 0 0 [] = Inr tables"
      "is_sorted_by (\<lambda>l r. profile_table_id l < profile_table_id r) tables"
      "length tables = length (schema_tables schema)" "check_profiles schema tables tables = Inr ()"
    and hash: "digest (dump (JObject [(''layout'', layout), (''profile'', json_erase profile ''profileId'')])) = Some bytes"
      "json_text pid = BytesToHex bytes"
    and b: "b = \<lparr>profile_id = json_text pid, bundle_schema_identity = si, bundle_build_identity = bi,
          bundle_tables = tables, bundle_schema = schema\<rparr>"
    unfolding parse_bundle_def bindE_Inr_iff Let_def ensure_Inr_iff kind_at_Inr Sha256Upper_def
    by (elim exE conjE) (auto simp: Load_parse bindE_Inr_iff split: prod.splits bool.splits option.splits)
  note ok = parse_layout_ok [OF schema(1)]
  note ps = parse_profiles_ok [OF tables(1)]
  have s: "sorted_wrt (<) (map profile_table_id tables)"
    using ps by (intro sorted_distinct_strict [OF tables(2)]) simp
  have "list_all2 ValidateTableIdentity tables (schema_tables schema)"
    using check_profiles_ok [OF tables(4)] s ok tables(3)
    by (intro profiles_match_schemas) (auto simp: registry_ok_def)
  moreover have "relationships_closed tables"
    using check_profiles_ok [OF tables(4)] check_targets_ok by (fastforce simp: relationships_closed_def)
  ultimately have "bundle_ok b"
    using ok ps s schema(2,3) by (auto simp: bundle_ok_def b)
  then show ?thesis using at hash by (auto simp: b)
qed

text \<open>C24: profile bundles. \<open>ParseProfile\<close> either gives no bundle, or a bundle with no error whose layout is a
  well-formed discovery-only registry, whose table profiles correspond one to one and in order to the tables
  of that layout, each with 3 to 8 fingerprints of distinct rows that fit the record and stay inside their
  masks, whose relationships stay inside the rows of tables of the bundle, and whose identity is the digest of
  its own content without that identity.\<close>

theorem ParseProfile_bundle:
  "case ParseProfile dump digest artifact of
     (None, err) \<Rightarrow> True
   | (Some b, err) \<Rightarrow> err = [] \<and> bundle_ok b \<and>
       (\<exists>profile layout bytes. json_at artifact ''profile'' = Inr profile \<and>
          json_at artifact ''layout'' = Inr layout \<and>
          digest (dump (JObject [(''layout'', layout), (''profile'', json_erase profile ''profileId'')])) = Some bytes \<and>
          profile_id b = BytesToHex bytes)"
  using parse_bundle_ok [of dump digest artifact] by (auto simp: ParseProfile_def split: sum.splits)

end
