(* ===== verification/Discovery_Backend.thy ===== *)
theory Discovery_Backend
  imports Profile Win_Memory Os_Calls
begin

text \<open>
  What table discovery works with (frtk_discovery.h): scan observations, the abstract backend, the
  descriptors and evidence it finds, and the byte readers that frtk_discovery.cpp and frtk_catalog.cpp
  share. The backend is a record of state-passing functions; the locale \<open>table_reader\<close> states what a
  backend promises that reads a memory, and it is interpreted on a backend over the operating-system calls.
\<close>

record ScanObservation =
  observed_address :: addr
  observed_allocation_base :: addr
  observed_allocation_size :: u64

record DiscoveryCounters =
  pages_scanned :: nat
  discovery_chunks_scanned :: nat
  discovery_scanned_bytes :: nat
  discovery_candidate_windows :: nat
  capped_matches :: nat

record ScanObservationResult =
  observation_complete :: bool
  observation_code :: string
  observation_matches :: "ScanObservation list"
  observation_counters :: DiscoveryCounters

record ReadRequest =
  request_address :: addr
  request_length :: nat

text \<open>A deadline is part of the backend state: \<open>Expired\<close> asks the clock.\<close>

record 's DiscoveryBackend =
  ScanTableDescriptor ::
    "nat \<Rightarrow> nat \<Rightarrow> nat \<Rightarrow> (ScanObservation \<Rightarrow> 's \<Rightarrow> bool \<times> 's) \<Rightarrow> 's \<Rightarrow> ScanObservationResult \<times> 's"
  Scan :: "RowFingerprint \<Rightarrow> nat \<Rightarrow> 's \<Rightarrow> ScanObservationResult \<times> 's"
  ReadBatch :: "ReadRequest list \<Rightarrow> 's \<Rightarrow> (bool \<times> byte list list) \<times> 's"
  ExtentExists :: "addr \<Rightarrow> u64 \<Rightarrow> 's \<Rightarrow> bool \<times> 's"
  Expired :: "'s \<Rightarrow> bool \<times> 's"

datatype TableState =
  kResolved | kMissing | kAmbiguous | kUnstable | kRelationshipFailed | kAllocationInvalid

record DiscoveryEvidence =
  evidence_code :: string
  fingerprint_count :: nat

datatype TableStorage = kCanonicalRecords | kWordSwappedRecords | kIndexedReferenceArray

record TableDescriptor =
  td_unique_id :: nat
  td_base :: addr
  td_stride :: u64
  td_capacity :: nat
  td_allocation_base :: addr
  td_allocation_size :: u64
  td_storage :: TableStorage
  td_virtual_target :: "nat option"
  td_virtual_width :: nat
  direct_write_verified :: bool

record TableDiscovery =
  disc_unique_id :: nat
  disc_state :: TableState
  disc_descriptor :: "TableDescriptor option"
  disc_evidence :: "DiscoveryEvidence list"

datatype DiscoveryStage = kScan | kAllocation | kRelationship | kReread

record DiscoveryTimeoutDetails =
  timeout_stage :: DiscoveryStage
  timeout_table :: "nat option"
  timeout_ordinal :: "nat option"
  completed_fingerprint_count :: nat
  elapsed_milliseconds :: nat
  timeout_counters :: DiscoveryCounters

record DiscoveryResult =
  disc_valid :: bool
  disc_code :: string
  disc_tables :: "TableDiscovery list"
  disc_timeout :: "DiscoveryTimeoutDetails option"

definition FindTableByUniqueId :: "DiscoveryResult \<Rightarrow> nat \<Rightarrow> TableDiscovery option" where
  "FindTableByUniqueId result uid = find (\<lambda>t. disc_unique_id t = uid) (disc_tables result)"

section \<open>Byte readers\<close>

definition MultiplyOverflows :: "u64 \<Rightarrow> u64 \<Rightarrow> bool" where
  "MultiplyOverflows left right \<longleftrightarrow> left \<noteq> 0 \<and> right > max_u64 div left"

definition MaskedMatches :: "RowFingerprint \<Rightarrow> byte list \<Rightarrow> bool" where
  "MaskedMatches fingerprint bytes \<longleftrightarrow>
     (if length bytes \<noteq> length (row_pattern fingerprint) \<or>
         length (row_mask fingerprint) \<noteq> length (row_pattern fingerprint) then False
      else list_all (\<lambda>i. bytes ! i AND row_mask fingerprint ! i =
             row_pattern fingerprint ! i AND row_mask fingerprint ! i) [0..<length bytes])"

text \<open>Every group of four bytes reversed, a shorter last group too.\<close>

fun reverse_words :: "byte list \<Rightarrow> byte list" where
  "reverse_words (a # b # c # d # rest) = d # c # b # a # reverse_words rest"
| "reverse_words rest = rev rest"

definition LiveFingerprint :: "RowFingerprint \<Rightarrow> RowFingerprint" where
  "LiveFingerprint canonical =
     canonical\<lparr>row_pattern := reverse_words (row_pattern canonical),
       row_mask := reverse_words (row_mask canonical)\<rparr>"

definition ReadBigEndian :: "byte list \<Rightarrow> u32" where
  "ReadBigEndian bytes = foldl (\<lambda>v b. push_bit 8 v OR ucast b) 0 (take 4 bytes)"

fun little_endian :: "nat \<Rightarrow> byte list \<Rightarrow> 'a::len word" where
  "little_endian i [] = 0"
| "little_endian i (b # bs) = push_bit (i * 8) (ucast b) OR little_endian (Suc i) bs"

definition ReadLittleEndian :: "byte list \<Rightarrow> u32" where
  "ReadLittleEndian bytes = little_endian 0 (take 4 bytes)"

definition ReadLittleEndianPointer :: "byte list \<Rightarrow> addr option" where
  "ReadLittleEndianPointer bytes =
     (if length bytes \<noteq> 8 then None
      else let v = little_endian 0 bytes in if v = 0 then None else Some v)"

section \<open>Byte order\<close>

lemma length_reverse_words [simp]: "length (reverse_words bs) = length bs"
  by (induction bs rule: reverse_words.induct) auto

lemma reverse_words_twice [simp]: "reverse_words (reverse_words bs) = bs"
proof (induction bs rule: reverse_words.induct)
  case (1 a b c d rest)
  then show ?case by simp
qed simp_all

lemma set_reverse_words [simp]: "set (reverse_words bs) = set bs"
  by (induction bs rule: reverse_words.induct) auto

lemma reverse_words_inj: "reverse_words xs = reverse_words ys \<longleftrightarrow> xs = ys"
  by (metis reverse_words_twice)

lemma reverse_words_map2:
  "length xs = length ys \<Longrightarrow> reverse_words (map2 f xs ys) = map2 f (reverse_words xs) (reverse_words ys)"
proof (induction xs arbitrary: ys rule: reverse_words.induct)
  case (1 a b c d rest)
  then obtain a' b' c' d' rest' where "ys = a' # b' # c' # d' # rest'"
    by (auto simp: length_Suc_conv Suc_length_conv)
  with 1 show ?case by simp
next
  case "2_2"
  then show ?case by (cases ys rule: reverse_words.cases) auto
next
  case "2_3"
  then show ?case by (cases ys rule: reverse_words.cases) auto
next
  case "2_4"
  then show ?case by (cases ys rule: reverse_words.cases) auto
qed simp

lemma MaskedMatches_map2:
  "MaskedMatches f bytes \<longleftrightarrow> length bytes = length (row_pattern f) \<and> length (row_mask f) = length (row_pattern f) \<and>
     map2 (AND) bytes (row_mask f) = map2 (AND) (row_pattern f) (row_mask f)"
proof (cases "length bytes = length (row_pattern f) \<and> length (row_mask f) = length (row_pattern f)")
  case True
  then have "map2 (AND) bytes (row_mask f) = map2 (AND) (row_pattern f) (row_mask f) \<longleftrightarrow>
      (\<forall>i < length bytes. bytes ! i AND row_mask f ! i = row_pattern f ! i AND row_mask f ! i)"
    by (subst list_eq_iff_nth_eq) simp
  with True show ?thesis by (simp add: MaskedMatches_def list_all_iff Ball_def)
next
  case False
  then show ?thesis unfolding MaskedMatches_def by auto
qed

text \<open>Matching the live form of a fingerprint is matching the fingerprint after swapping the bytes back.\<close>

lemma MaskedMatches_live: "MaskedMatches (LiveFingerprint f) bytes \<longleftrightarrow> MaskedMatches f (reverse_words bytes)"
proof -
  have swap: "map2 (AND) bytes (reverse_words m) = map2 (AND) (reverse_words p) (reverse_words m) \<longleftrightarrow>
      map2 (AND) (reverse_words bytes) m = map2 (AND) p m"
    if l: "length bytes = length p" "length m = length p" for m p
  proof -
    have "reverse_words (map2 (AND) (reverse_words bytes) m) = map2 (AND) bytes (reverse_words m)"
      by (subst reverse_words_map2) (simp_all add: l)
    moreover have "reverse_words (map2 (AND) p m) = map2 (AND) (reverse_words p) (reverse_words m)"
      by (subst reverse_words_map2) (simp_all add: l)
    ultimately show ?thesis by (metis reverse_words_inj)
  qed
  show ?thesis
    unfolding MaskedMatches_map2 LiveFingerprint_def
    by (auto simp: swap)
qed

section \<open>A backend that reads a memory\<close>

text \<open>
  A batch that succeeds returns, request by request, the bytes of the memory at that moment and does not
  change the memory; an extent that exists is told from the state alone. Backends may fail at any time.
\<close>

locale table_reader =
  fixes backend :: "'s DiscoveryBackend" and mem :: "'s \<Rightarrow> memory"
  assumes batch_mem: "mem (snd (ReadBatch backend requests s)) = mem s"
    and batch_bytes: "ReadBatch backend requests s = ((True, out), s') \<Longrightarrow>
      out = map (\<lambda>r. mem_read (mem s) (request_address r) (request_length r)) requests"
    and extent_mem: "mem (snd (ExtentExists backend a n s)) = mem s"

text \<open>
  The byte map of the smoke tests (frtk_record_access_smoke.cpp, \<open>LinearBackend\<close>): a read succeeds when every
  byte of the range is in the map, and every extent exists. \<open>write_calls\<close> counts the writes.
\<close>

record linear_state =
  linear_bytes :: "addr \<Rightarrow> byte option"
  write_calls :: nat

definition linear_mem :: "linear_state \<Rightarrow> memory" where
  "linear_mem s a = (case linear_bytes s a of Some b \<Rightarrow> b | None \<Rightarrow> 0)"

definition linear_Validate :: "linear_state \<Rightarrow> addr \<Rightarrow> nat \<Rightarrow> bool" where
  "linear_Validate s a n \<longleftrightarrow>
     list_all (\<lambda>i. linear_bytes s (a + word_of_nat i) \<noteq> None) [0..<n] \<and> n \<noteq> 0"

definition linear_Read :: "linear_state \<Rightarrow> addr \<Rightarrow> nat \<Rightarrow> byte list option" where
  "linear_Read s a n =
     (if \<not> linear_Validate s a n then None
      else Some (map (\<lambda>i. the (linear_bytes s (a + word_of_nat i))) [0..<n]))"

fun linear_ReadBatch :: "ReadRequest list \<Rightarrow> linear_state \<Rightarrow> bool \<times> byte list list" where
  "linear_ReadBatch [] s = (True, [])"
| "linear_ReadBatch (r # rs) s =
     (case linear_Read s (request_address r) (request_length r) of
        None \<Rightarrow> (False, [])
      | Some bytes \<Rightarrow> (case linear_ReadBatch rs s of (ok, out) \<Rightarrow> (ok, bytes # out)))"

definition no_counters :: DiscoveryCounters where
  "no_counters = \<lparr>pages_scanned = 0, discovery_chunks_scanned = 0, discovery_scanned_bytes = 0,
     discovery_candidate_windows = 0, capped_matches = 0\<rparr>"

definition LinearBackend :: "linear_state DiscoveryBackend" where
  "LinearBackend =
     \<lparr>ScanTableDescriptor = \<lambda>_ _ _ _ s. (\<lparr>observation_complete = True,
        observation_code = ''DESCRIPTOR_SCAN_UNSUPPORTED'', observation_matches = [],
        observation_counters = no_counters\<rparr>, s),
      Scan = \<lambda>_ _ s. (\<lparr>observation_complete = False, observation_code = [], observation_matches = [],
        observation_counters = no_counters\<rparr>, s),
      ReadBatch = \<lambda>requests s. (linear_ReadBatch requests s, s),
      ExtentExists = \<lambda>_ _ s. (True, s),
      Expired = \<lambda>s. (False, s)\<rparr>"

lemma linear_Read_bytes: "linear_Read s a n = Some bytes \<Longrightarrow> bytes = mem_read (linear_mem s) a n"
  by (fastforce simp: linear_Read_def linear_Validate_def list_all_iff mem_read_def linear_mem_def
      split: if_splits option.splits)

lemma linear_ReadBatch_bytes:
  "linear_ReadBatch requests s = (True, out) \<Longrightarrow>
   out = map (\<lambda>r. mem_read (linear_mem s) (request_address r) (request_length r)) requests"
  by (induction requests arbitrary: out) (auto simp: linear_Read_bytes split: option.splits prod.splits)

interpretation linear: table_reader LinearBackend linear_mem
  by unfold_locales (auto simp: LinearBackend_def linear_ReadBatch_bytes)

end
