(* ===== verification/Catalog.thy ===== *)
theory Catalog
  imports Discovery_Backend
begin

text \<open>
  The session catalog (frtk_catalog.h, frtk_catalog.cpp): the tables that discovery resolved, the handles
  given out for them, and the revalidation that reads the evidence again before anything is read or written
  through a handle. The generation is a \<open>std::uint64_t\<close> that never becomes 0; products of two
  \<open>std::uint32_t\<close> are taken modulo \<open>2 ^ 32\<close> where the source multiplies before it widens.
\<close>

record TableHandle =
  handle_unique_id :: nat
  handle_generation :: u64

record CatalogDescriptor =
  cd_unique_id :: nat
  session_table_id :: nat
  base_address :: addr
  stride :: nat
  capacity :: nat
  allocation_base :: addr
  allocation_size :: u64
  storage :: TableStorage
  virtual_target_table_id :: "nat option"
  virtual_width :: nat
  cd_profile_id :: string
  lifecycle_generation :: u64
  cd_authority :: AuthorityStatus
  cd_evidence :: "DiscoveryEvidence list"

record CatalogSummary =
  sum_unique_id :: nat
  sum_capacity :: nat
  sum_authority :: AuthorityStatus
  sum_profile_id :: string
  sum_generation :: u64
  sum_evidence :: "DiscoveryEvidence list"

record CatalogEvidenceGuard =
  guard_address :: addr
  guard_expected :: "byte list"

record CatalogEvidenceSnapshot =
  snapshot_generation :: u64
  active_unique_ids :: "nat list"
  guards :: "CatalogEvidenceGuard list"

record Entry =
  entry_descriptor :: CatalogDescriptor
  entry_profile :: TableProfile

record SessionCatalog =
  generation :: u64
  game_ready :: bool
  catalog_schema :: SchemaRegistry
  catalog_entries :: "Entry list"

abbreviation entry_id :: "Entry \<Rightarrow> nat" where "entry_id e \<equiv> cd_unique_id (entry_descriptor e)"

section \<open>Generations and handles\<close>

definition next_generation :: "u64 \<Rightarrow> u64" where
  "next_generation g = (let g = g + 1 in if g = 0 then g + 1 else g)"

definition AdvanceGeneration :: "SessionCatalog \<Rightarrow> SessionCatalog" where
  "AdvanceGeneration c = c\<lparr>generation := next_generation (generation c)\<rparr>"

definition storage_valid :: "TableProfile \<Rightarrow> TableDescriptor \<Rightarrow> bool" where
  "storage_valid table d \<longleftrightarrow>
     (if td_storage d = kIndexedReferenceArray
      then td_stride d = 8 \<and> td_virtual_target d \<noteq> None \<and> td_virtual_width d \<noteq> 0 \<and>
           profile_record_size table = (td_virtual_width d * 4) mod 2 ^ 32
      else unat (td_stride d) = profile_record_size table)"

text \<open>One table of the profile: the entry it gets, if discovery resolved it as the layout describes it.\<close>

definition install_table :: "ProfileBundle \<Rightarrow> DiscoveryResult \<Rightarrow> u64 \<Rightarrow> TableProfile \<Rightarrow> Entry option" where
  "install_table profile discovery g table =
     (case FindTable (bundle_schema profile) (profile_table_id table) of
        None \<Rightarrow> None
      | Some schema \<Rightarrow>
          if schema_unique_id schema \<noteq> profile_unique_id table \<or>
             schema_capacity schema \<noteq> profile_capacity table \<or>
             record_size schema \<noteq> profile_record_size table
          then None
          else case FindTableByUniqueId discovery (profile_unique_id table) of
            None \<Rightarrow> None
          | Some found \<Rightarrow>
              if disc_state found \<noteq> kResolved then None
              else case disc_descriptor found of
                None \<Rightarrow> None
              | Some d \<Rightarrow>
                  if td_unique_id d \<noteq> profile_unique_id table \<or> unat (td_stride d) > 2 ^ 32 - 1 \<or>
                     td_capacity d \<noteq> profile_capacity table \<or> \<not> storage_valid table d
                  then None
                  else Some \<lparr>entry_descriptor =
                      \<lparr>cd_unique_id = profile_unique_id table, session_table_id = profile_table_id table,
                       base_address = td_base d, stride = unat (td_stride d), capacity = td_capacity d,
                       allocation_base = td_allocation_base d, allocation_size = td_allocation_size d,
                       storage = td_storage d, virtual_target_table_id = td_virtual_target d,
                       virtual_width = td_virtual_width d, cd_profile_id = profile_id profile,
                       lifecycle_generation = g,
                       cd_authority = (if direct_write_verified d then kDirectVerified
                                       else authority_status schema),
                       cd_evidence = disc_evidence found\<rparr>,
                    entry_profile = table\<rparr>)"

definition Install :: "ProfileBundle \<Rightarrow> DiscoveryResult \<Rightarrow> SessionCatalog \<Rightarrow> SessionCatalog" where
  "Install profile discovery c =
     (let c = (AdvanceGeneration c)\<lparr>catalog_entries := [], catalog_schema := bundle_schema profile,
                                    game_ready := True\<rparr>
      in if \<not> disc_valid discovery then c
         else c\<lparr>catalog_entries :=
           List.map_filter (install_table profile discovery (generation c)) (bundle_tables profile)\<rparr>)"

definition GetHandle :: "SessionCatalog \<Rightarrow> nat \<Rightarrow> TableHandle option" where
  "GetHandle c unique_id =
     (case find (\<lambda>e. entry_id e = unique_id) (catalog_entries c) of
        None \<Rightarrow> None
      | Some _ \<Rightarrow> Some \<lparr>handle_unique_id = unique_id, handle_generation = generation c\<rparr>)"

definition Resolve :: "SessionCatalog \<Rightarrow> TableHandle \<Rightarrow> CatalogDescriptor option" where
  "Resolve c h =
     (if handle_generation h \<noteq> generation c then None
      else map_option entry_descriptor
        (find (\<lambda>e. entry_id e = handle_unique_id h \<and>
                   lifecycle_generation (entry_descriptor e) = generation c) (catalog_entries c)))"

definition Invalidate :: "SessionCatalog \<Rightarrow> SessionCatalog" where
  "Invalidate c = (AdvanceGeneration c)\<lparr>catalog_entries := []\<rparr>"

definition AdvanceLifecycle :: "bool \<Rightarrow> SessionCatalog \<Rightarrow> SessionCatalog" where
  "AdvanceLifecycle ready c =
     (if \<not> ready \<and> game_ready c then (Invalidate c)\<lparr>game_ready := False\<rparr>
      else if ready then c\<lparr>game_ready := True\<rparr>
      else c)"

definition EvidenceIsActive :: "SessionCatalog \<Rightarrow> CatalogEvidenceSnapshot \<Rightarrow> bool" where
  "EvidenceIsActive c snapshot \<longleftrightarrow>
     (if snapshot_generation snapshot = 0 \<or> snapshot_generation snapshot \<noteq> generation c \<or>
         catalog_entries c = [] then False
      else if \<not> list_all (\<lambda>e. lifecycle_generation (entry_descriptor e) = generation c) (catalog_entries c)
      then False
      else sort (map entry_id (catalog_entries c)) = active_unique_ids snapshot)"

definition IsActiveReferenceTarget :: "SessionCatalog \<Rightarrow> nat \<Rightarrow> nat \<Rightarrow> u64 \<Rightarrow> bool" where
  "IsActiveReferenceTarget c table_id row g \<longleftrightarrow>
     (if g \<noteq> generation c then False
      else case find (\<lambda>e. session_table_id (entry_descriptor e) = table_id \<and>
                          lifecycle_generation (entry_descriptor e) = generation c) (catalog_entries c) of
             None \<Rightarrow> False
           | Some e \<Rightarrow> row < capacity (entry_descriptor e))"

definition ActiveUniqueId :: "SessionCatalog \<Rightarrow> nat \<Rightarrow> nat \<Rightarrow> u64 \<Rightarrow> nat option" where
  "ActiveUniqueId c table_id row g =
     (if g \<noteq> generation c then None
      else map_option entry_id (find (\<lambda>e. session_table_id (entry_descriptor e) = table_id \<and>
             lifecycle_generation (entry_descriptor e) = generation c \<and>
             row < capacity (entry_descriptor e)) (catalog_entries c)))"

definition ActiveTableId :: "SessionCatalog \<Rightarrow> nat \<Rightarrow> nat \<Rightarrow> u64 \<Rightarrow> nat option" where
  "ActiveTableId c unique_id row g =
     (if g \<noteq> generation c then None
      else map_option (\<lambda>e. session_table_id (entry_descriptor e)) (find (\<lambda>e. entry_id e = unique_id \<and>
             lifecycle_generation (entry_descriptor e) = generation c \<and>
             row < capacity (entry_descriptor e)) (catalog_entries c)))"

definition Summaries :: "SessionCatalog \<Rightarrow> CatalogSummary list" where
  "Summaries c = map (\<lambda>e. let d = entry_descriptor e in
     \<lparr>sum_unique_id = cd_unique_id d, sum_capacity = capacity d, sum_authority = cd_authority d,
      sum_profile_id = cd_profile_id d, sum_generation = lifecycle_generation d,
      sum_evidence = cd_evidence d\<rparr>) (catalog_entries c)"

section \<open>Bounded batches\<close>

definition kMaximumBatchRanges :: nat where "kMaximumBatchRanges = 64"
definition kMaximumBatchBytes :: nat where "kMaximumBatchBytes = 256 * 1024"

record BoundedReadResult =
  requests_valid :: bool
  bounded_bytes :: "byte list list"
  bounded_failed :: "bool list"

definition invalid_requests :: BoundedReadResult where
  "invalid_requests = \<lparr>requests_valid = False, bounded_bytes = [], bounded_failed = []\<rparr>"

definition request_invalid :: "ReadRequest \<Rightarrow> bool" where
  "request_invalid r \<longleftrightarrow> request_length r = 0 \<or> request_length r > kMaximumBatchBytes \<or>
     AddOverflows (request_address r) (word_of_nat (request_length r))"

text \<open>How many requests the next batch takes.\<close>

fun batch_count :: "nat \<Rightarrow> nat \<Rightarrow> ReadRequest list \<Rightarrow> nat" where
  "batch_count count total_bytes [] = count"
| "batch_count count total_bytes (r # rs) =
     (if count < kMaximumBatchRanges \<and> \<not> request_length r > kMaximumBatchBytes - total_bytes
      then batch_count (Suc count) (total_bytes + request_length r) rs else count)"

lemma batch_count_ge: "count \<le> batch_count count total_bytes rs"
  by (induction count total_bytes rs rule: batch_count.induct) (auto intro: Suc_leD)

lemma batch_count_first:
  "\<not> request_invalid r \<Longrightarrow> 1 \<le> batch_count 0 0 (r # rs)"
  using batch_count_ge [of 1] by (auto simp: request_invalid_def kMaximumBatchRanges_def)

text \<open>
  The batches, front to back; each yields for its requests the bytes and the failure flags. A batch takes
  at least one request because every request was checked to fit.
\<close>

function read_batches :: "'s DiscoveryBackend \<Rightarrow> ReadRequest list \<Rightarrow> 's \<Rightarrow> (byte list list \<times> bool list) \<times> 's" where
  "read_batches backend requests s =
     (let count = batch_count 0 0 requests in
      if requests = [] \<or> count = 0 then (([], []), s)
      else let bounded = take count requests;
               ((ok, chunk), s) = ReadBatch backend bounded s;
               valid = (ok \<and> length chunk = length bounded \<and>
                        list_all2 (\<lambda>bytes r. length bytes = request_length r) chunk bounded);
               ((bytes, failed), s) = read_batches backend (drop count requests) s
           in (((if valid then chunk else replicate (length bounded) []) @ bytes,
                replicate (length bounded) (\<not> valid) @ failed), s))"
  by pat_completeness auto
termination
  by (relation "measure (\<lambda>(b, requests, s). length requests)") auto

declare read_batches.simps [simp del]

definition ReadBoundedBatches ::
  "'s DiscoveryBackend \<Rightarrow> ReadRequest list \<Rightarrow> 's \<Rightarrow> BoundedReadResult \<times> 's" where
  "ReadBoundedBatches backend requests s =
     (if list_ex request_invalid requests
      then (\<lparr>requests_valid = False, bounded_bytes = replicate (length requests) [],
             bounded_failed = replicate (length requests) False\<rparr>, s)
      else let ((bytes, failed), s) = read_batches backend requests s
           in (\<lparr>requests_valid = True, bounded_bytes = bytes, bounded_failed = failed\<rparr>, s))"

section \<open>Revalidation\<close>

datatype CatalogCheck =
    Sentinel nat TableStorage RowFingerprint
  | Relationship nat TableStorage RelationshipConstraint

fun check_source :: "CatalogCheck \<Rightarrow> nat" where
  "check_source (Sentinel u _ _) = u"
| "check_source (Relationship u _ _) = u"

text \<open>A product of two \<open>std::uint32_t\<close>, and the widened product of \<open>std::size_t\<close>.\<close>

definition mult32 :: "nat \<Rightarrow> nat \<Rightarrow> nat" where "mult32 a b = (a * b) mod 2 ^ 32"

definition mult64 :: "nat \<Rightarrow> nat \<Rightarrow> u64" where "mult64 a b = word_of_nat a * word_of_nat b"

text \<open>The indexed arrays: each relationship is a fixed function of the row, and each fingerprint row has a slot.\<close>

definition virtual_relationship :: "SchemaRegistry \<Rightarrow> CatalogDescriptor \<Rightarrow> RelationshipConstraint \<Rightarrow> bool" where
  "virtual_relationship schema d r \<longleftrightarrow>
     (case FindField schema (session_table_id d) (relationship_field r) of
        None \<Rightarrow> False
      | Some f \<Rightarrow> byte_offset f mod 4 = 0 \<and> virtual_target_table_id d = Some (target_table_id r) \<and>
          target_row r = (mult32 (source_row r) (virtual_width d) + byte_offset f div 4) mod 2 ^ 32)"

fun slot_requests :: "CatalogDescriptor \<Rightarrow> RowFingerprint list \<Rightarrow> ReadRequest list option" where
  "slot_requests d [] = Some []"
| "slot_requests d (r # rs) =
     (let offset = word_of_nat (mult32 (row_index r) (stride d)) in
      if row_index r \<ge> capacity d \<or> AddOverflows (base_address d) offset then None
      else map_option (\<lambda>q. \<lparr>request_address = base_address d + offset, request_length = 8\<rparr> # q)
             (slot_requests d rs))"

text \<open>Reading twice, only when everything before held; the two reads must agree and none may fail.\<close>

definition read_twice ::
  "'s DiscoveryBackend \<Rightarrow> bool \<Rightarrow> ReadRequest list \<Rightarrow> 's \<Rightarrow> (BoundedReadResult \<times> BoundedReadResult) \<times> 's" where
  "read_twice backend valid requests s =
     (let (first, s) = (if valid then ReadBoundedBatches backend requests s else (invalid_requests, s));
          (second, s) = (if requests_valid first then ReadBoundedBatches backend requests s
                         else (invalid_requests, s))
      in ((first, second), s))"

definition reads_agree :: "BoundedReadResult \<times> BoundedReadResult \<Rightarrow> bool" where
  "reads_agree = (\<lambda>(first, second). requests_valid first \<and> requests_valid second \<and>
     bounded_bytes first = bounded_bytes second \<and> \<not> list_ex (\<lambda>f. f) (bounded_failed first) \<and>
     \<not> list_ex (\<lambda>f. f) (bounded_failed second))"

fun wrapper_requests :: "byte list list \<Rightarrow> ReadRequest list option" where
  "wrapper_requests [] = Some []"
| "wrapper_requests (slot # slots) =
     (case ReadLittleEndianPointer slot of
        None \<Rightarrow> None
      | Some wrapper \<Rightarrow>
          if AddOverflows wrapper 28 then None
          else map_option (\<lambda>q. \<lparr>request_address = wrapper, request_length = 28\<rparr> # q) (wrapper_requests slots))"

text \<open>Every wrapper starts with the same non-null type pointer and ends with the row it stands for.\<close>

fun wrappers_valid :: "byte list list \<Rightarrow> RowFingerprint list \<Rightarrow> addr option \<Rightarrow> bool" where
  "wrappers_valid (w # ws) (r # rs) wrapper_type =
     (if length w \<noteq> 28 then False
      else case ReadLittleEndianPointer (take 8 w) of
        None \<Rightarrow> False
      | Some type \<Rightarrow>
          if (wrapper_type \<noteq> None \<and> wrapper_type \<noteq> Some type) \<or>
             unat (ReadLittleEndian (drop 24 w)) \<noteq> row_index r then False
          else wrappers_valid ws rs (Some type))"
| "wrappers_valid _ _ _ = True"

definition guards_of :: "ReadRequest list \<Rightarrow> byte list list \<Rightarrow> CatalogEvidenceGuard list" where
  "guards_of requests bytes =
     map2 (\<lambda>r b. \<lparr>guard_address = request_address r, guard_expected = b\<rparr>) requests bytes"

text \<open>One indexed table: the guards of its slots and wrappers, or \<open>None\<close> when it is quarantined.\<close>

definition check_indexed ::
  "SchemaRegistry \<Rightarrow> 's DiscoveryBackend \<Rightarrow> Entry \<Rightarrow> 's \<Rightarrow> CatalogEvidenceGuard list option \<times> 's" where
  "check_indexed schema backend e s =
     (let d = entry_descriptor e;
          rows = profile_rows (entry_profile e);
          valid = (virtual_target_table_id d \<noteq> None \<and> virtual_width d \<noteq> 0 \<and>
                   list_all (virtual_relationship schema d) (profile_relationships (entry_profile e)));
          slots = slot_requests d rows;
          (slot_reads, s) = read_twice backend (valid \<and> slots \<noteq> None) (the slots) s;
          valid = (valid \<and> slots \<noteq> None \<and> reads_agree slot_reads);
          wrappers = (if valid then wrapper_requests (bounded_bytes (fst slot_reads)) else None);
          (wrapper_reads, s) = read_twice backend (wrappers \<noteq> None) (the wrappers) s
      in if wrappers \<noteq> None \<and> reads_agree wrapper_reads \<and>
            wrappers_valid (bounded_bytes (fst wrapper_reads)) rows None
         then (Some (guards_of (the slots) (bounded_bytes (fst slot_reads)) @
                     guards_of (the wrappers) (bounded_bytes (fst wrapper_reads))), s)
         else (None, s))"

text \<open>The requests of a table of records; an item that cannot be read quarantines the table.\<close>

definition sentinel_request :: "CatalogDescriptor \<Rightarrow> RowFingerprint \<Rightarrow> ReadRequest option" where
  "sentinel_request d r =
     (if row_index r \<ge> capacity d \<or> MultiplyOverflows (word_of_nat (row_index r)) (word_of_nat (stride d))
      then None
      else let offset = mult64 (row_index r) (stride d) in
        if AddOverflows (base_address d) offset then None
        else Some \<lparr>request_address = base_address d + offset, request_length = length (row_pattern r)\<rparr>)"

definition find_session_table :: "Entry list \<Rightarrow> nat \<Rightarrow> Entry option" where
  "find_session_table es table_id = find (\<lambda>e. session_table_id (entry_descriptor e) = table_id) es"

definition relationship_request ::
  "SchemaRegistry \<Rightarrow> Entry list \<Rightarrow> CatalogDescriptor \<Rightarrow> RelationshipConstraint \<Rightarrow> ReadRequest option" where
  "relationship_request schema es d r =
     (case FindField schema (session_table_id d) (relationship_field r) of
        None \<Rightarrow> None
      | Some f \<Rightarrow>
          (case find_session_table es (target_table_id r) of
             None \<Rightarrow> None
           | Some target \<Rightarrow>
               if field_encoding f \<noteq> ''packed-reference'' \<or> source_row r \<ge> capacity d \<or>
                  target_row r \<ge> capacity (entry_descriptor target) \<or>
                  MultiplyOverflows (word_of_nat (source_row r)) (word_of_nat (stride d))
               then None
               else let row_offset = mult64 (source_row r) (stride d) in
                 if AddOverflows (base_address d) row_offset \<or>
                    AddOverflows (base_address d + row_offset) (word_of_nat (byte_offset f))
                 then None
                 else Some \<lparr>request_address = base_address d + row_offset + word_of_nat (byte_offset f),
                            request_length = storage_bytes f\<rparr>))"

record Collected =
  quarantined :: "nat set"
  planned :: "(ReadRequest \<times> CatalogCheck) list"
  indexed_guards :: "CatalogEvidenceGuard list"

definition quarantine :: "nat \<Rightarrow> Collected \<Rightarrow> Collected" where
  "quarantine u k = k\<lparr>quarantined := insert u (quarantined k)\<rparr>"

definition plan :: "nat \<Rightarrow> CatalogCheck \<Rightarrow> ReadRequest option \<Rightarrow> Collected \<Rightarrow> Collected" where
  "plan u check request k =
     (case request of
        None \<Rightarrow> quarantine u k
      | Some r \<Rightarrow> k\<lparr>planned := planned k @ [(r, check)]\<rparr>)"

definition collect_entry ::
  "SchemaRegistry \<Rightarrow> Entry list \<Rightarrow> 's DiscoveryBackend \<Rightarrow> Entry \<Rightarrow> Collected \<times> 's \<Rightarrow> Collected \<times> 's" where
  "collect_entry schema es backend e = (\<lambda>(k, s).
     let d = entry_descriptor e; u = cd_unique_id d;
         (exists, s) = ExtentExists backend (allocation_base d) (allocation_size d) s
     in if \<not> exists then (quarantine u k, s)
        else if storage d = kIndexedReferenceArray
        then (case check_indexed schema backend e s of
                (None, s) \<Rightarrow> (quarantine u k, s)
              | (Some gs, s) \<Rightarrow> (k\<lparr>indexed_guards := indexed_guards k @ gs\<rparr>, s))
        else (fold (\<lambda>r. plan u (Relationship u (storage d) r) (relationship_request schema es d r))
                (profile_relationships (entry_profile e))
                (fold (\<lambda>r. plan u (Sentinel u (storage d) r) (sentinel_request d r))
                   (profile_rows (entry_profile e)) k), s))"

text \<open>One check against what was read. A packed reference of 32 bits always decodes.\<close>

definition check_matches :: "CatalogCheck \<Rightarrow> byte list \<Rightarrow> bool" where
  "check_matches check bytes \<longleftrightarrow>
     (case check of
        Sentinel _ st fingerprint \<Rightarrow>
          MaskedMatches (if st = kWordSwappedRecords then LiveFingerprint fingerprint else fingerprint) bytes
      | Relationship _ st r \<Rightarrow>
          if length bytes \<noteq> 4 then False
          else let encoded = (if st = kWordSwappedRecords then ReadLittleEndian bytes else ReadBigEndian bytes)
               in DecodePackedReference (ucast encoded) =
                  Inr \<lparr>ref_table_id = target_table_id r, ref_row_index = target_row r\<rparr>)"

definition failed_checks :: "CatalogCheck list \<Rightarrow> BoundedReadResult \<Rightarrow> BoundedReadResult \<Rightarrow> nat set" where
  "failed_checks checks first second =
     (if \<not> requests_valid first \<or> \<not> requests_valid second then set (map check_source checks)
      else set (List.map_filter (\<lambda>(i, check).
             if bounded_failed first ! i \<or> bounded_failed second ! i \<or>
                bounded_bytes first ! i \<noteq> bounded_bytes second ! i \<or>
                \<not> check_matches check (bounded_bytes first ! i)
             then Some (check_source check) else None) (enumerate 0 checks)))"

text \<open>The closure: a table whose relationship leads to no table or to a quarantined one is quarantined too.\<close>

definition target_lost :: "Entry list \<Rightarrow> nat set \<Rightarrow> RelationshipConstraint \<Rightarrow> bool" where
  "target_lost es q r \<longleftrightarrow>
     (case find_session_table es (target_table_id r) of
        None \<Rightarrow> True
      | Some target \<Rightarrow> entry_id target \<in> q)"

definition loses_target :: "Entry list \<Rightarrow> nat set \<Rightarrow> Entry \<Rightarrow> bool" where
  "loses_target es q e \<longleftrightarrow>
     entry_id e \<notin> q \<and> list_ex (target_lost es q) (profile_relationships (entry_profile e))"

fun closure_pass :: "Entry list \<Rightarrow> Entry list \<Rightarrow> nat set \<Rightarrow> nat set" where
  "closure_pass es [] q = q"
| "closure_pass es (e # rest) q =
     closure_pass es rest (if loses_target es q e then insert (entry_id e) q else q)"

lemma closure_pass_mono: "q \<subseteq> closure_pass es rest q"
  by (induction es rest q rule: closure_pass.induct) (auto split: if_splits)

lemma closure_pass_bound: "closure_pass es rest q \<subseteq> q \<union> entry_id ` set rest"
  by (induction es rest q rule: closure_pass.induct) (auto split: if_splits)

function closure :: "Entry list \<Rightarrow> nat set \<Rightarrow> nat set" where
  "closure es q =
     (let q' = closure_pass es es q in if q' = q then q else closure es q')"
  by pat_completeness auto
termination
proof (relation "measure (\<lambda>(es, q). card (entry_id ` set es - q))")
  fix es q q'
  assume q': "q' = closure_pass es es q" "q' \<noteq> q"
  have "entry_id ` set es - q' \<subset> entry_id ` set es - q"
    using q' closure_pass_mono [of q es es] closure_pass_bound [of es es q] by auto
  then have "card (entry_id ` set es - q') < card (entry_id ` set es - q)"
    by (intro psubset_card_mono) auto
  then show "((es, q'), es, q) \<in> measure (\<lambda>(es, q). card (entry_id ` set es - q))" by simp
qed simp

declare closure.simps [simp del]

definition empty_snapshot :: CatalogEvidenceSnapshot where
  "empty_snapshot = \<lparr>snapshot_generation = 0, active_unique_ids = [], guards = []\<rparr>"

definition drop_quarantined :: "nat set \<Rightarrow> SessionCatalog \<Rightarrow> SessionCatalog" where
  "drop_quarantined q c =
     (let c = AdvanceGeneration c
      in c\<lparr>catalog_entries := map (\<lambda>e. e\<lparr>entry_descriptor := (entry_descriptor e)\<lparr>lifecycle_generation := generation c\<rparr>\<rparr>)
             (filter (\<lambda>e. entry_id e \<notin> q) (catalog_entries c))\<rparr>)"

text \<open>Everything is collected, then read twice.\<close>

definition read_evidence ::
  "'s DiscoveryBackend \<Rightarrow> SessionCatalog \<Rightarrow> 's \<Rightarrow> (Collected \<times> BoundedReadResult \<times> BoundedReadResult) \<times> 's" where
  "read_evidence backend c s =
     (let (k, s) = fold (collect_entry (catalog_schema c) (catalog_entries c) backend) (catalog_entries c)
                     (\<lparr>quarantined = {}, planned = [], indexed_guards = []\<rparr>, s);
          ((first, second), s) = read_twice backend True (map fst (planned k)) s
      in ((k, first, second), s))"

definition direct_failures :: "Collected \<times> BoundedReadResult \<times> BoundedReadResult \<Rightarrow> nat set" where
  "direct_failures = (\<lambda>(k, first, second). quarantined k \<union> failed_checks (map snd (planned k)) first second)"

definition quarantined_tables :: "SessionCatalog \<Rightarrow> Collected \<times> BoundedReadResult \<times> BoundedReadResult \<Rightarrow> nat set" where
  "quarantined_tables c evidence = closure (catalog_entries c) (direct_failures evidence)"

definition snapshot_of ::
  "SessionCatalog \<Rightarrow> Collected \<times> BoundedReadResult \<times> BoundedReadResult \<Rightarrow> CatalogEvidenceSnapshot" where
  "snapshot_of c = (\<lambda>(k, first, second).
     \<lparr>snapshot_generation = generation c, active_unique_ids = sort (map entry_id (catalog_entries c)),
      guards = guards_of (map fst (planned k)) (bounded_bytes first) @ indexed_guards k\<rparr>)"

text \<open>The verdict, the snapshot (which a caller may not ask for) and the catalog afterwards.\<close>

definition Revalidate ::
  "'s DiscoveryBackend \<Rightarrow> SessionCatalog \<Rightarrow> 's \<Rightarrow> (bool \<times> CatalogEvidenceSnapshot \<times> SessionCatalog) \<times> 's" where
  "Revalidate backend c s =
     (if catalog_entries c = [] then ((False, empty_snapshot, c), s)
      else let (evidence, s) = read_evidence backend c s;
               q = quarantined_tables c evidence
           in if q = {} then ((True, snapshot_of c evidence, c), s)
              else ((False, empty_snapshot, drop_quarantined q c), s))"

section \<open>Generations\<close>

lemma next_generation_nonzero [simp]: "next_generation g \<noteq> 0"
  by (simp add: next_generation_def Let_def)

lemma unat_next_generation:
  "unat (next_generation g) = (if unat g = 2 ^ 64 - 1 then 1 else unat g + 1)"
proof (cases "g + 1 = 0")
  case True
  then have "next_generation g = 1" by (simp only: next_generation_def Let_def if_True add_0 simp_thms)
  moreover from True have "g = max_u64" by (simp only: eq_neg_iff_add_eq_0)
  ultimately show ?thesis using unat_max_u64 by simp
next
  case False
  then have "g \<noteq> max_u64" by auto
  then have "unat g \<noteq> 2 ^ 64 - 1" unfolding unat_max_u64 [symmetric] word_unat_eq_iff [symmetric] .
  moreover from this have "unat (g + 1) = unat g + 1"
    using unat_le_max [of g] by (subst unat_add_no_overflow) auto
  ultimately show ?thesis using False by (simp add: next_generation_def Let_def)
qed

text \<open>Generations run around the 2^64 - 1 non-zero numbers.\<close>

lemma generation_orbit:
  assumes "unat g = Suc m" "m < 2 ^ 64 - 1"
  shows "unat ((next_generation ^^ k) g) = Suc ((m + k) mod (2 ^ 64 - 1))"
proof (induction k)
  case 0
  then show ?case using assms by simp
next
  case (Suc k)
  then show ?case by (auto simp: unat_next_generation mod_Suc)
qed

lemma generation_fresh:
  assumes "(next_generation ^^ k) g = g" "k < 2 ^ 64 - 1"
  shows "k = 0"
proof (cases "unat g")
  case 0
  then have "g = 0" by (simp add: unat_eq_0)
  with assms show ?thesis by (cases k) auto
next
  case (Suc m)
  have m: "m < 2 ^ 64 - 1" using Suc unat_le_max [of g] by simp
  from generation_orbit [OF Suc m, of k] assms(1) Suc have "(m + k) mod (2 ^ 64 - 1) = m" by simp
  moreover have "(m + k) mod (2 ^ 64 - 1) = (if m + k < 2 ^ 64 - 1 then m + k else m + k - (2 ^ 64 - 1))"
    using m assms(2) by (simp add: mod_if)
  ultimately show ?thesis using m assms(2) by (simp split: if_splits)
qed

section \<open>The closure\<close>

lemma target_lost_mono: "q \<subseteq> q' \<Longrightarrow> target_lost es q r \<Longrightarrow> target_lost es q' r"
  by (auto simp: target_lost_def split: option.splits)

lemma closure_pass_fixed: "closure_pass es rest q = q \<Longrightarrow> e \<in> set rest \<Longrightarrow> \<not> loses_target es q e"
proof (induction rest)
  case (Cons x rest)
  have "\<not> loses_target es q x"
  proof
    assume l: "loses_target es q x"
    then have "insert (entry_id x) q \<subseteq> q"
      using Cons.prems(1) closure_pass_mono [of "insert (entry_id x) q" es rest] by simp
    with l show False by (simp add: loses_target_def)
  qed
  with Cons show ?case by auto
qed simp

lemma closure_mono: "q \<subseteq> closure es q"
proof (induction es q rule: closure.induct)
  case (1 es q)
  then show ?case
    using closure_pass_mono [of q es es] by (subst closure.simps) (auto simp: Let_def)
qed

lemma closure_closed: "e \<in> set es \<Longrightarrow> \<not> loses_target es (closure es q) e"
proof (induction es q rule: closure.induct)
  case (1 es q)
  then show ?case
    using closure_pass_fixed [of es es q] by (subst closure.simps) (auto simp: Let_def)
qed

lemma closure_pass_least:
  "q \<subseteq> Q \<Longrightarrow> \<forall>e \<in> set es. \<not> loses_target es Q e \<Longrightarrow> set rest \<subseteq> set es \<Longrightarrow> closure_pass es rest q \<subseteq> Q"
proof (induction rest arbitrary: q)
  case (Cons x rest)
  have "entry_id x \<in> Q" if "loses_target es q x"
  proof -
    have "list_ex (target_lost es Q) (profile_relationships (entry_profile x))"
      using that target_lost_mono [OF Cons.prems(1)] by (auto simp: loses_target_def list_ex_iff)
    then show ?thesis using Cons.prems(2,3) by (auto simp: loses_target_def)
  qed
  then show ?case using Cons by auto
qed simp

lemma closure_least:
  "q \<subseteq> Q \<Longrightarrow> \<forall>e \<in> set es. \<not> loses_target es Q e \<Longrightarrow> closure es q \<subseteq> Q"
proof (induction es q rule: closure.induct)
  case (1 es q)
  have "closure_pass es es q \<subseteq> Q" using 1(2,3) by (intro closure_pass_least) auto
  with 1 show ?case by (subst closure.simps) (auto simp: Let_def)
qed

text \<open>With no table quarantined, no table loses a target.\<close>

lemma closure_empty: "closure es q = {} \<Longrightarrow> q = {}"
  using closure_mono [of q es] by auto

section \<open>The life of a catalog\<close>

definition catalog_ok :: "SessionCatalog \<Rightarrow> bool" where
  "catalog_ok c \<longleftrightarrow> (catalog_entries c \<noteq> [] \<longrightarrow> generation c \<noteq> 0) \<and>
     (\<forall>e \<in> set (catalog_entries c). lifecycle_generation (entry_descriptor e) = generation c) \<and>
     distinct (map entry_id (catalog_entries c)) \<and>
     distinct (map (\<lambda>e. session_table_id (entry_descriptor e)) (catalog_entries c))"

text \<open>The operations that change a catalog. The host installs parsed bundles only.\<close>

inductive catalog_step :: "'s DiscoveryBackend \<Rightarrow> SessionCatalog \<Rightarrow> SessionCatalog \<Rightarrow> bool"
  for backend where
  install: "bundle_ok profile \<Longrightarrow> catalog_step backend c (Install profile discovery c)"
| invalidate: "catalog_step backend c (Invalidate c)"
| lifecycle: "catalog_step backend c (AdvanceLifecycle ready c)"
| revalidate: "Revalidate backend c s = ((ok, snapshot, c'), s') \<Longrightarrow> catalog_step backend c c'"

inductive catalog_run :: "'s DiscoveryBackend \<Rightarrow> SessionCatalog \<Rightarrow> nat \<Rightarrow> SessionCatalog \<Rightarrow> bool"
  for backend where
  start: "catalog_run backend c 0 c"
| step: "catalog_run backend c n c' \<Longrightarrow> catalog_step backend c' c'' \<Longrightarrow> catalog_run backend c (Suc n) c''"

inductive_cases catalog_stepE: "catalog_step backend c c'"

definition new_catalog :: SessionCatalog where
  "new_catalog = \<lparr>generation = 0, game_ready = True, catalog_schema = empty_registry, catalog_entries = []\<rparr>"

lemma catalog_ok_new [simp]: "catalog_ok new_catalog"
  by (simp add: catalog_ok_def new_catalog_def)

lemma install_table_ids:
  "install_table profile discovery g t = Some e \<Longrightarrow>
   entry_id e = profile_unique_id t \<and> session_table_id (entry_descriptor e) = profile_table_id t \<and>
   lifecycle_generation (entry_descriptor e) = g \<and> entry_profile e = t"
  by (auto simp: install_table_def split: option.splits if_splits)

lemma distinct_map_map_filter:
  "distinct (map k xs) \<Longrightarrow> (\<And>x y. f x = Some y \<Longrightarrow> k' y = k x) \<Longrightarrow> distinct (map k' (List.map_filter f xs))"
proof (induction xs)
  case (Cons x xs)
  have "k' y \<in> k ` set xs" if "y \<in> set (List.map_filter f xs)" for y
    using that Cons.prems(2) by (force simp: map_filter_def)
  with Cons show ?case by (cases "f x") (auto simp: map_filter_simps)
qed (simp add: map_filter_simps)

lemma catalog_ok_Install:
  assumes "bundle_ok profile"
  shows "catalog_ok (Install profile discovery c)"
proof -
  let ?es = "List.map_filter (install_table profile discovery (next_generation (generation c))) (bundle_tables profile)"
  have d: "distinct (map profile_unique_id (bundle_tables profile))"
    "distinct (map profile_table_id (bundle_tables profile))"
    using assms strict_sorted_iff by (auto simp: bundle_ok_def)
  have "distinct (map entry_id ?es)"
    using d(1) install_table_ids by (intro distinct_map_map_filter) blast+
  moreover have "distinct (map (\<lambda>e. session_table_id (entry_descriptor e)) ?es)"
    using d(2) install_table_ids by (intro distinct_map_map_filter) blast+
  moreover have "lifecycle_generation (entry_descriptor e) = next_generation (generation c)" if "e \<in> set ?es" for e
    using that install_table_ids by (fastforce simp: map_filter_def)
  ultimately show ?thesis
    by (auto simp: catalog_ok_def Install_def AdvanceGeneration_def Let_def)
qed

lemma catalog_ok_Invalidate [simp]: "catalog_ok (Invalidate c)"
  by (simp add: catalog_ok_def Invalidate_def AdvanceGeneration_def)

lemma catalog_ok_AdvanceLifecycle: "catalog_ok c \<Longrightarrow> catalog_ok (AdvanceLifecycle ready c)"
  using catalog_ok_Invalidate [of c] by (auto simp: AdvanceLifecycle_def catalog_ok_def)

lemma catalog_ok_drop: "catalog_ok c \<Longrightarrow> catalog_ok (drop_quarantined q c)"
  by (auto simp: catalog_ok_def drop_quarantined_def AdvanceGeneration_def Let_def comp_def distinct_map_filter)

lemma Revalidate_cases:
  assumes "Revalidate backend c s = ((ok, snapshot, c'), s')"
  obtains (empty) "\<not> ok" "snapshot = empty_snapshot" "c' = c" "catalog_entries c = []"
  | (valid) evidence where "ok" "c' = c" "catalog_entries c \<noteq> []" "read_evidence backend c s = (evidence, s')"
      "quarantined_tables c evidence = {}" "snapshot = snapshot_of c evidence"
  | (stale) evidence where "\<not> ok" "snapshot = empty_snapshot" "catalog_entries c \<noteq> []"
      "read_evidence backend c s = (evidence, s')"
      "quarantined_tables c evidence \<noteq> {}" "c' = drop_quarantined (quarantined_tables c evidence) c"
proof (cases "catalog_entries c = []")
  case True
  then show ?thesis using assms empty by (simp add: Revalidate_def)
next
  case False
  obtain evidence t where e: "read_evidence backend c s = (evidence, t)" by (metis surj_pair)
  show ?thesis
  proof (cases "quarantined_tables c evidence = {}")
    case True
    then show ?thesis using assms False e valid by (auto simp: Revalidate_def Let_def)
  next
    case q: False
    then show ?thesis using assms False e stale by (auto simp: Revalidate_def Let_def)
  qed
qed

text \<open>Every operation keeps the generation and the entries, or advances the generation.\<close>

lemma generation_drop [simp]: "generation (drop_quarantined q c) = next_generation (generation c)"
  by (simp add: drop_quarantined_def AdvanceGeneration_def Let_def)


lemma catalog_step_ok: "catalog_step backend c c' \<Longrightarrow> catalog_ok c \<Longrightarrow> catalog_ok c'"
proof (induction rule: catalog_step.induct)
  case (revalidate c s ok snapshot c' s')
  from revalidate.hyps revalidate.prems show ?case by (cases rule: Revalidate_cases) (auto intro: catalog_ok_drop)
qed (auto simp: catalog_ok_Install catalog_ok_AdvanceLifecycle)

lemma catalog_run_ok: "catalog_run backend c n c' \<Longrightarrow> catalog_ok c \<Longrightarrow> catalog_ok c'"
  by (induction rule: catalog_run.induct) (auto intro: catalog_step_ok)




section \<open>What the evidence shows\<close>

definition as_read :: "memory \<Rightarrow> ReadRequest list \<Rightarrow> byte list list \<Rightarrow> bool list \<Rightarrow> bool" where
  "as_read m requests bytes failed \<longleftrightarrow> length bytes = length requests \<and> length failed = length requests \<and>
     (\<forall>i < length requests. \<not> failed ! i \<longrightarrow>
        bytes ! i = mem_read m (request_address (requests ! i)) (request_length (requests ! i)))"

lemma as_read_append:
  "as_read m xs b f \<Longrightarrow> as_read m ys b' f' \<Longrightarrow> as_read m (xs @ ys) (b @ b') (f @ f')"
  by (auto simp: as_read_def nth_append)

context table_reader
begin

lemma read_batches_read:
  assumes "\<not> list_ex request_invalid requests" and "read_batches backend requests s = ((bytes, failed), s')"
  shows "mem s' = mem s \<and> as_read (mem s) requests bytes failed"
  using assms
proof (induction "length requests" arbitrary: requests s bytes failed rule: less_induct)
  case less
  show ?case
  proof (cases requests)
    case Nil
    then show ?thesis using less.prems by (simp add: read_batches.simps as_read_def)
  next
    case (Cons r rs)
    define count where "count = batch_count 0 0 requests"
    have "1 \<le> count" using batch_count_first less.prems(1) by (simp add: count_def Cons)
    then have pos: "count \<noteq> 0" by simp
    obtain ok chunk s1 where batch: "ReadBatch backend (take count requests) s = ((ok, chunk), s1)"
      by (metis surj_pair)
    define ok' where "ok' \<longleftrightarrow> ok \<and> length chunk = length (take count requests) \<and>
        list_all2 (\<lambda>bytes r. length bytes = request_length r) chunk (take count requests)"
    obtain b f t where rest': "read_batches backend (drop count requests) s1 = ((b, f), t)" by (metis surj_pair)
    have ne: "requests \<noteq> []" using Cons by simp
    have "read_batches backend requests s =
        (((if ok' then chunk else replicate (length (take count requests)) []) @ b,
          replicate (length (take count requests)) (\<not> ok') @ f), t)"
      by (subst read_batches.simps)
        (simp only: Let_def count_def [symmetric] ne pos batch prod.case rest' ok'_def [symmetric] simp_thms if_False)
    then have out: "bytes = (if ok' then chunk else replicate (length (take count requests)) []) @ b"
        "failed = replicate (length (take count requests)) (\<not> ok') @ f" "s' = t"
      using less.prems(2) by simp_all
    have rest: "read_batches backend (drop count requests) s1 = ((b, f), s')" using rest' out(3) by simp
    have m1: "mem s1 = mem s" using batch_mem [of "take count requests" s] batch by simp
    have "length (drop count requests) < length requests" using pos Cons by simp
    moreover have "\<not> list_ex request_invalid (drop count requests)"
      using less.prems(1) by (auto simp: list_ex_iff dest: in_set_dropD)
    ultimately have tail: "mem s' = mem s1" "as_read (mem s1) (drop count requests) b f"
      using less.hyps rest by blast+
    have "as_read (mem s) (take count requests) (if ok' then chunk else replicate (length (take count requests)) [])
        (replicate (length (take count requests)) (\<not> ok'))"
    proof (cases ok)
      case True
      then have "ReadBatch backend (take count requests) s = ((True, chunk), s1)" using batch by simp
      from batch_bytes [OF this] have "chunk = map (\<lambda>r. mem_read (mem s) (request_address r) (request_length r)) (take count requests)" .
      then show ?thesis by (auto simp: as_read_def)
    qed (simp add: as_read_def ok'_def)
    then show ?thesis
      using as_read_append [OF _ tail(2)] tail(1) m1 out(1,2) append_take_drop_id [of count requests] by metis
  qed
qed

lemma ReadBoundedBatches_read:
  assumes "ReadBoundedBatches backend requests s = (r, s')"
  shows "mem s' = mem s \<and> (requests_valid r \<longrightarrow> as_read (mem s) requests (bounded_bytes r) (bounded_failed r))"
proof (cases "list_ex request_invalid requests")
  case True
  then show ?thesis using assms by (auto simp: ReadBoundedBatches_def)
next
  case False
  obtain b f t where e: "read_batches backend requests s = ((b, f), t)" by (metis surj_pair)
  with False assms read_batches_read [OF False e] show ?thesis by (auto simp: ReadBoundedBatches_def)
qed

lemma read_twice_read:
  assumes "read_twice backend valid requests s = ((first, second), s')"
  shows "mem s' = mem s \<and> (requests_valid first \<longrightarrow> as_read (mem s) requests (bounded_bytes first) (bounded_failed first))"
proof -
  obtain s1 where f: "(if valid then ReadBoundedBatches backend requests s else (invalid_requests, s)) = (first, s1)"
    and g: "(if requests_valid first then ReadBoundedBatches backend requests s1 else (invalid_requests, s1)) = (second, s')"
    using assms by (auto simp: read_twice_def Let_def split: prod.splits if_splits)
  have one: "mem s1 = mem s \<and> (requests_valid first \<longrightarrow> as_read (mem s) requests (bounded_bytes first) (bounded_failed first))"
    using f ReadBoundedBatches_read by (auto simp: invalid_requests_def split: if_splits)
  moreover have "mem s' = mem s1" using g ReadBoundedBatches_read by (auto split: if_splits)
  ultimately show ?thesis by simp
qed

end

definition guard_holds :: "memory \<Rightarrow> CatalogEvidenceGuard \<Rightarrow> bool" where
  "guard_holds m g \<longleftrightarrow> mem_read m (guard_address g) (length (guard_expected g)) = guard_expected g"

lemma guards_of_hold:
  assumes "as_read m requests bytes failed" "\<And>i. i < length requests \<Longrightarrow> \<not> failed ! i" "g \<in> set (guards_of requests bytes)"
  shows "guard_holds m g"
proof -
  from assms(3) obtain i where i: "i < length requests" "i < length bytes"
      "g = \<lparr>guard_address = request_address (requests ! i), guard_expected = bytes ! i\<rparr>"
    by (auto simp: guards_of_def set_zip)
  with assms(1,2) have "bytes ! i = mem_read m (request_address (requests ! i)) (request_length (requests ! i))"
    by (auto simp: as_read_def)
  with i show ?thesis by (simp add: guard_holds_def)
qed

context table_reader
begin

lemma reads_agree_hold:
  assumes "read_twice backend valid requests s = (reads, s')" "reads_agree reads" "g \<in> set (guards_of requests (bounded_bytes (fst reads)))"
  shows "guard_holds (mem s) g"
proof -
  obtain first second where r: "reads = (first, second)" by (cases reads)
  with assms(1) read_twice_read have a: "requests_valid first \<longrightarrow> as_read (mem s) requests (bounded_bytes first) (bounded_failed first)"
    by blast
  have v: "requests_valid first" "\<not> list_ex (\<lambda>f. f) (bounded_failed first)"
    using assms(2) by (simp_all add: r reads_agree_def)
  with a have b: "as_read (mem s) requests (bounded_bytes first) (bounded_failed first)" by simp
  then have "\<not> bounded_failed first ! i" if "i < length requests" for i
    using that v(2) by (auto simp: as_read_def list_ex_iff in_set_conv_nth)
  with b guards_of_hold assms(3) show ?thesis by (auto simp: r)
qed

lemma check_indexed_read:
  assumes "check_indexed schema backend e s = (r, s')"
  shows "mem s' = mem s \<and> (\<forall>gs. r = Some gs \<longrightarrow> (\<forall>g \<in> set gs. guard_holds (mem s) g))"
proof -
  define d where "d = entry_descriptor e"
  define v where "v = (virtual_target_table_id d \<noteq> None \<and> virtual_width d \<noteq> 0 \<and>
      list_all (virtual_relationship schema d) (profile_relationships (entry_profile e)))"
  define slots where "slots = slot_requests d (profile_rows (entry_profile e))"
  obtain sr s1 where t1: "read_twice backend (v \<and> slots \<noteq> None) (the slots) s = (sr, s1)" by (metis surj_pair)
  define wr where "wr = (if v \<and> slots \<noteq> None \<and> reads_agree sr then wrapper_requests (bounded_bytes (fst sr)) else None)"
  obtain rr s2 where t2: "read_twice backend (wr \<noteq> None) (the wr) s1 = (rr, s2)" by (metis surj_pair)
  have m: "mem s1 = mem s" "mem s2 = mem s1"
    using read_twice_read t1 t2 by (metis surj_pair)+
  have run: "check_indexed schema backend e s =
      (if wr \<noteq> None \<and> reads_agree rr \<and> wrappers_valid (bounded_bytes (fst rr)) (profile_rows (entry_profile e)) None
       then (Some (guards_of (the slots) (bounded_bytes (fst sr)) @ guards_of (the wr) (bounded_bytes (fst rr))), s2)
       else (None, s2))"
    unfolding check_indexed_def Let_def
    by (simp only: d_def [symmetric] v_def [symmetric] slots_def [symmetric] t1 prod.case wr_def [symmetric] t2)
  have sr: "reads_agree sr" if "wr \<noteq> None" using that by (auto simp: wr_def split: if_splits)
  show ?thesis
    using assms run m sr reads_agree_hold [OF t1] reads_agree_hold [OF t2] by (auto split: if_splits)
qed

end

lemma fold_plan:
  assumes "quarantined (fold (\<lambda>r. plan u (check r) (request r)) rs k) = {}"
  shows "quarantined k = {} \<and> (\<forall>r \<in> set rs. request r \<noteq> None) \<and>
    planned (fold (\<lambda>r. plan u (check r) (request r)) rs k) = planned k @ map (\<lambda>r. (the (request r), check r)) rs \<and>
    indexed_guards (fold (\<lambda>r. plan u (check r) (request r)) rs k) = indexed_guards k"
  using assms
proof (induction rs arbitrary: k)
  case (Cons r rs)
  from Cons.IH [of "plan u (check r) (request r) k"] Cons.prems
  show ?case by (cases "request r") (auto simp: plan_def quarantine_def)
qed simp

text \<open>What a table needs to have been collected with no quarantine.\<close>

definition planned_for :: "SchemaRegistry \<Rightarrow> Entry list \<Rightarrow> Entry \<Rightarrow> (ReadRequest \<times> CatalogCheck) list \<Rightarrow> bool" where
  "planned_for schema es e ps \<longleftrightarrow>
     (let d = entry_descriptor e in storage d \<noteq> kIndexedReferenceArray \<longrightarrow>
       (\<forall>r \<in> set (profile_rows (entry_profile e)).
          \<exists>q. sentinel_request d r = Some q \<and> (q, Sentinel (cd_unique_id d) (storage d) r) \<in> set ps) \<and>
       (\<forall>r \<in> set (profile_relationships (entry_profile e)).
          \<exists>q. relationship_request schema es d r = Some q \<and> (q, Relationship (cd_unique_id d) (storage d) r) \<in> set ps))"

lemma planned_for_mono: "set ps \<subseteq> set ps' \<Longrightarrow> planned_for schema es e ps \<Longrightarrow> planned_for schema es e ps'"
  by (fastforce simp: planned_for_def Let_def)

context table_reader
begin

lemma collect_entry_read:
  assumes "collect_entry schema es backend e (k, s) = (k', s')" "quarantined k' = {}"
  shows "mem s' = mem s \<and> quarantined k = {} \<and> planned_for schema es e (planned k') \<and>
    set (planned k) \<subseteq> set (planned k') \<and>
    (\<forall>g \<in> set (indexed_guards k'). g \<in> set (indexed_guards k) \<or> guard_holds (mem s) g)"
proof -
  define d where "d = entry_descriptor e"
  obtain ex s1 where x: "ExtentExists backend (allocation_base d) (allocation_size d) s = (ex, s1)" by (metis surj_pair)
  have m1: "mem s1 = mem s" using extent_mem [of "allocation_base d" "allocation_size d" s] x by simp
  have ex: "ex" using assms x by (auto simp: collect_entry_def Let_def d_def [symmetric] quarantine_def split: if_splits)
  show ?thesis
  proof (cases "storage d = kIndexedReferenceArray")
    case True
    obtain r s2 where c: "check_indexed schema backend e s1 = (r, s2)" by (metis surj_pair)
    note i = check_indexed_read [OF c]
    have run: "collect_entry schema es backend e (k, s) = (case r of None \<Rightarrow> (quarantine (cd_unique_id d) k, s2)
        | Some gs \<Rightarrow> (k\<lparr>indexed_guards := indexed_guards k @ gs\<rparr>, s2))"
      using True x ex c by (simp add: collect_entry_def Let_def d_def [symmetric] split: option.split)
    with assms obtain gs where gs: "r = Some gs" by (cases r) (auto simp: quarantine_def)
    with run assms have "k' = k\<lparr>indexed_guards := indexed_guards k @ gs\<rparr>" "s' = s2" by auto
    with i gs m1 assms(2) True show ?thesis by (auto simp: planned_for_def d_def [symmetric])
  next
    case False
    let ?rows = "profile_rows (entry_profile e)" and ?rels = "profile_relationships (entry_profile e)"
    let ?u = "cd_unique_id d"
    define k1 where "k1 = fold (\<lambda>r. plan ?u (Sentinel ?u (storage d) r) (sentinel_request d r)) ?rows k"
    have run: "k' = fold (\<lambda>r. plan ?u (Relationship ?u (storage d) r) (relationship_request schema es d r)) ?rels k1"
      "s' = s1"
      using assms(1) False x ex by (auto simp: collect_entry_def Let_def d_def [symmetric] k1_def)
    note rel = fold_plan [OF assms(2) [unfolded run(1)]]
    have "quarantined k1 = {}" using rel by simp
    note sen = fold_plan [OF this [unfolded k1_def]]
    have p: "planned k' = planned k @ map (\<lambda>r. (the (sentinel_request d r), Sentinel ?u (storage d) r)) ?rows @
        map (\<lambda>r. (the (relationship_request schema es d r), Relationship ?u (storage d) r)) ?rels"
      using rel sen by (simp add: run(1) k1_def)
    have all: "\<forall>r \<in> set ?rows. sentinel_request d r \<noteq> None"
      "\<forall>r \<in> set ?rels. relationship_request schema es d r \<noteq> None"
      using conjunct1 [OF conjunct2 [OF sen]] conjunct1 [OF conjunct2 [OF rel]] .
    have row: "\<exists>q. sentinel_request d r = Some q \<and> (q, Sentinel ?u (storage d) r) \<in> set (planned k')"
      if "r \<in> set ?rows" for r
    proof -
      from bspec [OF all(1) that] obtain q where "sentinel_request d r = Some q" by auto
      moreover have "(the (sentinel_request d r), Sentinel ?u (storage d) r) \<in> set (planned k')"
        unfolding p set_append set_map by (intro UnI2 UnI1) (rule rev_image_eqI [OF that], rule refl)
      ultimately show ?thesis by simp
    qed
    have relation: "\<exists>q. relationship_request schema es d r = Some q \<and>
        (q, Relationship ?u (storage d) r) \<in> set (planned k')"
      if "r \<in> set ?rels" for r
    proof -
      from bspec [OF all(2) that] obtain q where "relationship_request schema es d r = Some q" by auto
      moreover have "(the (relationship_request schema es d r), Relationship ?u (storage d) r) \<in> set (planned k')"
        unfolding p set_append set_map by (intro UnI2) (rule rev_image_eqI [OF that], rule refl)
      ultimately show ?thesis by simp
    qed
    have "planned_for schema es e (planned k')"
      unfolding planned_for_def Let_def d_def [symmetric] using row relation by blast
    moreover have "indexed_guards k' = indexed_guards k" using rel sen by (simp add: run(1) k1_def)
    ultimately show ?thesis using sen m1 run(2) p by auto
  qed
qed

lemma collect_read:
  assumes "fold (collect_entry schema es backend) rest (k, s) = (k', s')" "quarantined k' = {}"
  shows "mem s' = mem s \<and> quarantined k = {} \<and> (\<forall>e \<in> set rest. planned_for schema es e (planned k')) \<and>
    set (planned k) \<subseteq> set (planned k') \<and>
    (\<forall>g \<in> set (indexed_guards k'). g \<in> set (indexed_guards k) \<or> guard_holds (mem s) g)"
  using assms(1)
proof (induction rest arbitrary: k s)
  case (Cons e rest)
  obtain k1 s1 where c: "collect_entry schema es backend e (k, s) = (k1, s1)" by (metis surj_pair)
  with Cons.prems have "fold (collect_entry schema es backend) rest (k1, s1) = (k', s')" by simp
  note ih = Cons.IH [OF this]
  then have "quarantined k1 = {}" by simp
  note one = collect_entry_read [OF c this]
  from ih one planned_for_mono [of "planned k1" "planned k'" schema es e] show ?case by auto
qed (use assms(2) in simp)

end

definition evidence_holds :: "memory \<Rightarrow> SessionCatalog \<Rightarrow> CatalogEvidenceGuard list \<Rightarrow> Entry \<Rightarrow> bool" where
  "evidence_holds m c gs e \<longleftrightarrow>
     (let d = entry_descriptor e;
          canonical = (\<lambda>bytes. if storage d = kWordSwappedRecords then reverse_words bytes else bytes)
      in (\<forall>r \<in> set (profile_rows (entry_profile e)). row_index r < capacity d \<and>
            (let a = base_address d + word_of_nat (row_index r * stride d);
                 bytes = mem_read m a (length (row_pattern r))
             in MaskedMatches r (canonical bytes) \<and> \<lparr>guard_address = a, guard_expected = bytes\<rparr> \<in> set gs)) \<and>
         (\<forall>r \<in> set (profile_relationships (entry_profile e)). \<exists>f target.
            FindField (catalog_schema c) (session_table_id d) (relationship_field r) = Some f \<and>
            find_session_table (catalog_entries c) (target_table_id r) = Some target \<and>
            source_row r < capacity d \<and> target_row r < capacity (entry_descriptor target) \<and>
            (let a = base_address d + word_of_nat (source_row r * stride d) + word_of_nat (byte_offset f);
                 bytes = mem_read m a 4
             in DecodePackedReference (ucast (ReadBigEndian (canonical bytes))) =
                  Inr \<lparr>ref_table_id = target_table_id r, ref_row_index = target_row r\<rparr> \<and>
                \<lparr>guard_address = a, guard_expected = bytes\<rparr> \<in> set gs)))"

text \<open>An indexed array: its relationships are the fixed function of the row, each fingerprint row has a slot with a
  wrapper of the one type of the array that names the row, and slot and wrapper are guarded. What the wrapped
  records hold is not compared.\<close>

definition slot_holds :: "memory \<Rightarrow> CatalogEvidenceGuard list \<Rightarrow> CatalogDescriptor \<Rightarrow> addr \<Rightarrow> RowFingerprint \<Rightarrow> bool" where
  "slot_holds m gs d type r \<longleftrightarrow> row_index r < capacity d \<and>
     (let a = base_address d + word_of_nat (mult32 (row_index r) (stride d)); slot = mem_read m a 8
      in \<exists>w. ReadLittleEndianPointer slot = Some w \<and> \<not> AddOverflows w 28 \<and>
           (let wrapper = mem_read m w 28
            in ReadLittleEndianPointer (take 8 wrapper) = Some type \<and> unat (ReadLittleEndian (drop 24 wrapper)) = row_index r \<and>
               \<lparr>guard_address = a, guard_expected = slot\<rparr> \<in> set gs \<and> \<lparr>guard_address = w, guard_expected = wrapper\<rparr> \<in> set gs))"

definition array_holds :: "memory \<Rightarrow> SessionCatalog \<Rightarrow> CatalogEvidenceGuard list \<Rightarrow> Entry \<Rightarrow> bool" where
  "array_holds m c gs e \<longleftrightarrow>
     (let d = entry_descriptor e
      in virtual_target_table_id d \<noteq> None \<and> virtual_width d \<noteq> 0 \<and>
         (\<forall>r \<in> set (profile_relationships (entry_profile e)). virtual_relationship (catalog_schema c) d r) \<and>
         (\<exists>type. \<forall>r \<in> set (profile_rows (entry_profile e)). slot_holds m gs d type r))"

definition table_holds :: "memory \<Rightarrow> SessionCatalog \<Rightarrow> CatalogEvidenceGuard list \<Rightarrow> Entry \<Rightarrow> bool" where
  "table_holds m c gs e \<longleftrightarrow>
     (if storage (entry_descriptor e) = kIndexedReferenceArray then array_holds m c gs e else evidence_holds m c gs e)"

lemma slot_holds_mono: "set gs \<subseteq> set gs' \<Longrightarrow> slot_holds m gs d type r \<Longrightarrow> slot_holds m gs' d type r"
  unfolding slot_holds_def Let_def by blast

lemma array_holds_mono: "set gs \<subseteq> set gs' \<Longrightarrow> array_holds m c gs e \<Longrightarrow> array_holds m c gs' e"
  unfolding array_holds_def Let_def using slot_holds_mono by blast

lemma slot_requests_nth:
  "slot_requests d rows = Some qs \<Longrightarrow> length qs = length rows \<and> (\<forall>i < length rows. row_index (rows ! i) < capacity d \<and>
     qs ! i = \<lparr>request_address = base_address d + word_of_nat (mult32 (row_index (rows ! i)) (stride d)), request_length = 8\<rparr>)"
proof (induction rows arbitrary: qs)
  case (Cons r rows)
  then show ?case by (auto simp: Let_def nth_Cons split: if_splits nat.splits)
qed simp

lemma wrapper_requests_nth:
  "wrapper_requests slots = Some qs \<Longrightarrow> length qs = length slots \<and> (\<forall>i < length slots. \<exists>w.
     ReadLittleEndianPointer (slots ! i) = Some w \<and> \<not> AddOverflows w 28 \<and> qs ! i = \<lparr>request_address = w, request_length = 28\<rparr>)"
proof (induction slots arbitrary: qs)
  case (Cons slot slots)
  then show ?case by (auto simp: nth_Cons split: if_splits nat.splits option.splits)
qed simp

lemma wrappers_valid_nth:
  "wrappers_valid ws rows wrapper_type \<Longrightarrow> \<exists>type. (wrapper_type \<noteq> None \<longrightarrow> wrapper_type = Some type) \<and>
     (\<forall>i. i < length ws \<longrightarrow> i < length rows \<longrightarrow> ReadLittleEndianPointer (take 8 (ws ! i)) = Some type \<and>
        unat (ReadLittleEndian (drop 24 (ws ! i))) = row_index (rows ! i))"
proof (induction ws rows wrapper_type rule: wrappers_valid.induct)
  case (1 w ws r rs wrapper_type)
  obtain type where type: "ReadLittleEndianPointer (take 8 w) = Some type" "wrapper_type \<noteq> None \<longrightarrow> wrapper_type = Some type"
    "unat (ReadLittleEndian (drop 24 w)) = row_index r" "wrappers_valid ws rs (Some type)" "length w = 28"
    using "1.prems" by (auto split: if_splits option.splits)
  have "\<not> ((wrapper_type \<noteq> None \<and> wrapper_type \<noteq> Some type) \<or> unat (ReadLittleEndian (drop 24 w)) \<noteq> row_index r)"
    using type by auto
  with "1.IH" [OF _ type(1) this type(4)] type(5)
  have "\<forall>i. i < length ws \<longrightarrow> i < length rs \<longrightarrow> ReadLittleEndianPointer (take 8 (ws ! i)) = Some type \<and>
      unat (ReadLittleEndian (drop 24 (ws ! i))) = row_index (rs ! i)" by auto
  then show ?case using type(1-3) by (intro exI [of _ type]) (auto simp: nth_Cons split: nat.splits)
qed (auto intro: exI [of _ "the wrapper_type" for wrapper_type])

lemma little_big_endian: "length bytes = 4 \<Longrightarrow> ReadLittleEndian bytes = ReadBigEndian (reverse_words bytes)"
proof -
  assume "length bytes = 4"
  then obtain a b c d where b: "bytes = [a, b, c, d]" by (auto simp: numeral_eq_Suc length_Suc_conv)
  show ?thesis
    by (rule bit_word_eqI)
      (auto simp: b ReadLittleEndian_def ReadBigEndian_def bit_or_iff bit_push_bit_iff bit_ucast_iff)
qed

lemma failed_checks_none:
  assumes "failed_checks checks first second = {}" "i < length checks"
  shows "requests_valid first \<and> \<not> bounded_failed first ! i \<and> check_matches (checks ! i) (bounded_bytes first ! i)"
proof -
  have v: "requests_valid first" "requests_valid second"
    using assms by (auto simp: failed_checks_def split: if_splits)
  have "(i, checks ! i) \<in> set (enumerate 0 checks)"
    using assms(2) by (auto simp: in_set_enumerate_eq)
  with assms(1) v show ?thesis
    unfolding failed_checks_def by (auto simp: List.map_filter_def split: if_splits) metis+
qed

lemma sentinel_request_Some:
  "sentinel_request d r = Some q \<Longrightarrow> row_index r < capacity d \<and>
     request_address q = base_address d + word_of_nat (row_index r * stride d) \<and> request_length q = length (row_pattern r)"
  by (auto simp: sentinel_request_def mult64_def Let_def split: if_splits)

lemma relationship_request_Some:
  "relationship_request schema es d r = Some q \<Longrightarrow> \<exists>f target.
     FindField schema (session_table_id d) (relationship_field r) = Some f \<and>
     find_session_table es (target_table_id r) = Some target \<and>
     source_row r < capacity d \<and> target_row r < capacity (entry_descriptor target) \<and>
     request_address q = base_address d + word_of_nat (source_row r * stride d) + word_of_nat (byte_offset f) \<and>
     request_length q = storage_bytes f"
  by (auto simp: relationship_request_def mult64_def Let_def split: if_splits option.splits)

lemma planned_evidence:
  assumes planned: "planned_for (catalog_schema c) (catalog_entries c) e ps"
    and "storage (entry_descriptor e) \<noteq> kIndexedReferenceArray"
    and read: "as_read m (map fst ps) (bounded_bytes first) (bounded_failed first)"
    and good: "failed_checks (map snd ps) first second = {}"
  shows "evidence_holds m c (guards_of (map fst ps) (bounded_bytes first)) e"
proof -
  let ?d = "entry_descriptor e" and ?gs = "guards_of (map fst ps) (bounded_bytes first)"
  have item: "check_matches ch (mem_read m (request_address q) (request_length q)) \<and>
      \<lparr>guard_address = request_address q, guard_expected = mem_read m (request_address q) (request_length q)\<rparr> \<in> set ?gs"
    if "(q, ch) \<in> set ps" for q ch
  proof -
    from that obtain i where i: "i < length ps" "ps ! i = (q, ch)" by (auto simp: in_set_conv_nth)
    with failed_checks_none [OF good, of i] have g: "\<not> bounded_failed first ! i"
        "check_matches ch (bounded_bytes first ! i)" by simp_all
    with read i have b: "bounded_bytes first ! i = mem_read m (request_address q) (request_length q)"
        "length (bounded_bytes first) = length ps" by (auto simp: as_read_def)
    have "?gs ! i = \<lparr>guard_address = request_address q, guard_expected = bounded_bytes first ! i\<rparr>" "i < length ?gs"
      using i b(2) by (simp_all add: guards_of_def)
    with g b(1) show ?thesis by (metis nth_mem)
  qed
  define canonical where "canonical bytes = (if storage ?d = kWordSwappedRecords then reverse_words bytes else bytes)" for bytes
  have rows: "row_index r < capacity ?d \<and>
      (let a = base_address ?d + word_of_nat (row_index r * stride ?d);
           bytes = mem_read m a (length (row_pattern r))
       in MaskedMatches r (canonical bytes) \<and> \<lparr>guard_address = a, guard_expected = bytes\<rparr> \<in> set ?gs)"
    if "r \<in> set (profile_rows (entry_profile e))" for r
  proof -
    from planned assms(2) that obtain q where q: "sentinel_request ?d r = Some q"
      "(q, Sentinel (cd_unique_id ?d) (storage ?d) r) \<in> set ps" unfolding planned_for_def Let_def by blast
    from item [OF q(2)] sentinel_request_Some [OF q(1)] show ?thesis
      by (auto simp: check_matches_def MaskedMatches_live canonical_def Let_def split: if_splits)
  qed
  have rels: "\<exists>f target. FindField (catalog_schema c) (session_table_id ?d) (relationship_field r) = Some f \<and>
      find_session_table (catalog_entries c) (target_table_id r) = Some target \<and>
      source_row r < capacity ?d \<and> target_row r < capacity (entry_descriptor target) \<and>
      (let a = base_address ?d + word_of_nat (source_row r * stride ?d) + word_of_nat (byte_offset f);
           bytes = mem_read m a 4
       in DecodePackedReference (ucast (ReadBigEndian (canonical bytes))) =
            Inr \<lparr>ref_table_id = target_table_id r, ref_row_index = target_row r\<rparr> \<and>
          \<lparr>guard_address = a, guard_expected = bytes\<rparr> \<in> set ?gs)"
    if "r \<in> set (profile_relationships (entry_profile e))" for r
  proof -
    from planned assms(2) that obtain q where q: "relationship_request (catalog_schema c) (catalog_entries c) ?d r = Some q"
      "(q, Relationship (cd_unique_id ?d) (storage ?d) r) \<in> set ps" unfolding planned_for_def Let_def by blast
    from relationship_request_Some [OF q(1)] obtain f target where f:
      "FindField (catalog_schema c) (session_table_id ?d) (relationship_field r) = Some f"
      "find_session_table (catalog_entries c) (target_table_id r) = Some target"
      "source_row r < capacity ?d" "target_row r < capacity (entry_descriptor target)"
      "request_address q = base_address ?d + word_of_nat (source_row r * stride ?d) + word_of_nat (byte_offset f)"
      by blast
    define bytes where "bytes = mem_read m (request_address q) (request_length q)"
    have i: "check_matches (Relationship (cd_unique_id ?d) (storage ?d) r) bytes"
      "\<lparr>guard_address = request_address q, guard_expected = bytes\<rparr> \<in> set ?gs"
      using item [OF q(2)] by (simp_all add: bytes_def)
    then have four: "length bytes = 4" by (simp add: check_matches_def split: if_splits)
    then have len: "request_length q = 4" by (simp add: bytes_def)
    have "DecodePackedReference (ucast (ReadBigEndian (canonical bytes))) =
        Inr \<lparr>ref_table_id = target_table_id r, ref_row_index = target_row r\<rparr>"
      using i(1) four by (auto simp: check_matches_def canonical_def little_big_endian split: if_splits)
    with f i(2) len show ?thesis unfolding bytes_def Let_def by fastforce
  qed
  show ?thesis
    unfolding evidence_holds_def Let_def canonical_def [symmetric] using rows rels unfolding Let_def by blast
qed

context table_reader
begin

lemma agreed_bytes:
  assumes "read_twice backend valid requests s = (reads, s')" "reads_agree reads" "i < length requests"
  shows "length (bounded_bytes (fst reads)) = length requests"
    and "bounded_bytes (fst reads) ! i = mem_read (mem s) (request_address (requests ! i)) (request_length (requests ! i))"
    and "\<lparr>guard_address = request_address (requests ! i), guard_expected = bounded_bytes (fst reads) ! i\<rparr>
      \<in> set (guards_of requests (bounded_bytes (fst reads)))"
proof -
  obtain first second where r: "reads = (first, second)" by (cases reads)
  have v: "requests_valid first" "\<not> list_ex (\<lambda>f. f) (bounded_failed first)"
    using assms(2) by (simp_all add: r reads_agree_def)
  then have read: "as_read (mem s) requests (bounded_bytes first) (bounded_failed first)"
    using read_twice_read [of valid requests s first second s'] assms(1) r by simp
  then have "\<not> bounded_failed first ! i" using assms(3) v(2) by (auto simp: as_read_def list_ex_iff in_set_conv_nth)
  with read assms(3) show len: "length (bounded_bytes (fst reads)) = length requests"
    and "bounded_bytes (fst reads) ! i = mem_read (mem s) (request_address (requests ! i)) (request_length (requests ! i))"
    by (auto simp: as_read_def r)
  have "guards_of requests (bounded_bytes (fst reads)) ! i =
      \<lparr>guard_address = request_address (requests ! i), guard_expected = bounded_bytes (fst reads) ! i\<rparr>"
    "i < length (guards_of requests (bounded_bytes (fst reads)))"
    using assms(3) len by (simp_all add: guards_of_def)
  then show "\<lparr>guard_address = request_address (requests ! i), guard_expected = bounded_bytes (fst reads) ! i\<rparr>
      \<in> set (guards_of requests (bounded_bytes (fst reads)))" by (metis nth_mem)
qed

lemma check_indexed_holds:
  assumes "check_indexed (catalog_schema c) backend e s = (Some gs, s')"
  shows "array_holds (mem s) c gs e"
proof -
  define d where "d = entry_descriptor e"
  let ?rows = "profile_rows (entry_profile e)"
  define v where "v = (virtual_target_table_id d \<noteq> None \<and> virtual_width d \<noteq> 0 \<and>
      list_all (virtual_relationship (catalog_schema c) d) (profile_relationships (entry_profile e)))"
  define slots where "slots = slot_requests d ?rows"
  obtain sr s1 where t1: "read_twice backend (v \<and> slots \<noteq> None) (the slots) s = (sr, s1)" by (metis surj_pair)
  define wr where "wr = (if v \<and> slots \<noteq> None \<and> reads_agree sr then wrapper_requests (bounded_bytes (fst sr)) else None)"
  obtain rr s2 where t2: "read_twice backend (wr \<noteq> None) (the wr) s1 = (rr, s2)" by (metis surj_pair)
  have m: "mem s1 = mem s" using read_twice_read t1 by (metis surj_pair)
  have run: "check_indexed (catalog_schema c) backend e s =
      (if wr \<noteq> None \<and> reads_agree rr \<and> wrappers_valid (bounded_bytes (fst rr)) ?rows None
       then (Some (guards_of (the slots) (bounded_bytes (fst sr)) @ guards_of (the wr) (bounded_bytes (fst rr))), s2)
       else (None, s2))"
    unfolding check_indexed_def Let_def
    by (simp only: d_def [symmetric] v_def [symmetric] slots_def [symmetric] t1 prod.case wr_def [symmetric] t2)
  then have good: "wr \<noteq> None" "reads_agree rr" "wrappers_valid (bounded_bytes (fst rr)) ?rows None"
    and gs: "gs = guards_of (the slots) (bounded_bytes (fst sr)) @ guards_of (the wr) (bounded_bytes (fst rr))"
    using assms by (auto split: if_splits)
  then obtain qs ws where q: "v" "slots = Some qs" "reads_agree sr" "wrapper_requests (bounded_bytes (fst sr)) = Some ws" "wr = Some ws"
    by (auto simp: wr_def split: if_splits)
  note slot = slot_requests_nth [OF q(2) [unfolded slots_def]] and wrapper = wrapper_requests_nth [OF q(4)]
  note first = agreed_bytes [OF t1 q(3)] and second = agreed_bytes [OF t2 good(2)]
  obtain type where type: "\<And>i. i < length (bounded_bytes (fst rr)) \<Longrightarrow> i < length ?rows \<Longrightarrow>
      ReadLittleEndianPointer (take 8 (bounded_bytes (fst rr) ! i)) = Some type \<and>
      unat (ReadLittleEndian (drop 24 (bounded_bytes (fst rr) ! i))) = row_index (?rows ! i)"
    using wrappers_valid_nth [OF good(3)] by blast
  have "slot_holds (mem s) gs d type (?rows ! i)" if i: "i < length ?rows" for i
  proof -
    have iq: "i < length (the slots)" using slot i q(2) by simp
    have iw: "i < length (the wr)" using first(1) [OF iq] wrapper iq q(5) by simp
    have ir: "i < length (bounded_bytes (fst rr))" using second(1) [OF iw] iw by simp
    have qi: "the slots ! i = \<lparr>request_address = base_address d + word_of_nat (mult32 (row_index (?rows ! i)) (stride d)), request_length = 8\<rparr>"
      "row_index (?rows ! i) < capacity d" using slot i q(2) by auto
    obtain w where w: "ReadLittleEndianPointer (bounded_bytes (fst sr) ! i) = Some w" "\<not> AddOverflows w 28"
      "the wr ! i = \<lparr>request_address = w, request_length = 28\<rparr>"
      using wrapper first(1) [OF iq] iq q(5) by auto
    show ?thesis
      using type [OF ir i] first(2,3) [OF iq] second(2,3) [OF iw] w qi m
      unfolding slot_holds_def Let_def gs set_append by auto
  qed
  then have "\<forall>r \<in> set ?rows. slot_holds (mem s) gs d type r" by (metis in_set_conv_nth)
  then show ?thesis using q(1) unfolding array_holds_def Let_def d_def [symmetric] v_def by (auto simp: list_all_iff)
qed

lemma collect_entry_guards:
  assumes "collect_entry schema es backend e (k, s) = (k', s')"
  shows "set (indexed_guards k) \<subseteq> set (indexed_guards k')"
proof -
  have kept: "indexed_guards (fold (\<lambda>r. plan u (check r) (request r)) rs x) = indexed_guards x" for u check request rs x
    by (induction rs arbitrary: x) (auto simp: plan_def quarantine_def split: option.splits)
  show ?thesis
    using assms by (auto simp: collect_entry_def Let_def quarantine_def kept split: prod.splits if_splits option.splits)
qed

lemma collected_arrays:
  assumes "fold (collect_entry (catalog_schema c) es backend) rest (k, s) = (k', s')" "quarantined k' = {}"
    and "e \<in> set rest" "storage (entry_descriptor e) = kIndexedReferenceArray"
  shows "array_holds (mem s) c (indexed_guards k') e"
  using assms(1,3)
proof (induction rest arbitrary: k s)
  case (Cons x rest)
  obtain k1 s1 where x: "collect_entry (catalog_schema c) es backend x (k, s) = (k1, s1)" by (metis surj_pair)
  with Cons.prems have later: "fold (collect_entry (catalog_schema c) es backend) rest (k1, s1) = (k', s')" by simp
  have none: "quarantined k1 = {}" using collect_read [OF later assms(2)] by blast
  have m1: "mem s1 = mem s" using collect_entry_read [OF x none] by blast
  have grows: "set (indexed_guards k1) \<subseteq> set (indexed_guards k')"
    using later
  proof (induction rest arbitrary: k1 s1)
    case (Cons y rest)
    obtain k2 s2 where y: "collect_entry (catalog_schema c) es backend y (k1, s1) = (k2, s2)" by (metis surj_pair)
    with Cons show ?case using collect_entry_guards [OF y] by (metis fold_simps(2) order_trans)
  qed simp
  show ?case
  proof (cases "e \<in> set rest")
    case True
    then show ?thesis using Cons.IH [OF later] m1 by simp
  next
    case False
    then have e: "x = e" using Cons.prems(2) by simp
    define d where "d = entry_descriptor e"
    obtain ex s2 where ex: "ExtentExists backend (allocation_base d) (allocation_size d) s = (ex, s2)" by (metis surj_pair)
    have m2: "mem s2 = mem s" using extent_mem [of "allocation_base d" "allocation_size d" s] ex by simp
    obtain r s3 where r: "check_indexed (catalog_schema c) backend e s2 = (r, s3)" by (metis surj_pair)
    have "ex" "r \<noteq> None" and k1: "r = Some gs \<Longrightarrow> k1 = k\<lparr>indexed_guards := indexed_guards k @ gs\<rparr>" for gs
      using x none assms(4) ex r
      by (auto simp: e collect_entry_def Let_def d_def [symmetric] quarantine_def split: if_splits option.splits)
    then obtain gs where gs: "r = Some gs" by blast
    have "array_holds (mem s) c gs e" using check_indexed_holds r gs m2 by metis
    then show ?thesis using array_holds_mono [of gs "indexed_guards k'"] grows k1 [OF gs] by auto
  qed
qed simp

lemma Revalidate_true:
  assumes "Revalidate backend c s = ((True, snapshot, c'), s')"
  shows "mem s' = mem s \<and> (\<forall>g \<in> set (guards snapshot). guard_holds (mem s) g) \<and>
    (\<forall>e \<in> set (catalog_entries c). table_holds (mem s) c (guards snapshot) e)"
  using assms
proof (cases rule: Revalidate_cases)
  case (valid evidence)
  obtain k first second where ev: "evidence = (k, first, second)" by (cases evidence)
  obtain s1 where f: "fold (collect_entry (catalog_schema c) (catalog_entries c) backend) (catalog_entries c)
      (\<lparr>quarantined = {}, planned = [], indexed_guards = []\<rparr>, s) = (k, s1)"
    and t: "read_twice backend True (map fst (planned k)) s1 = ((first, second), s')"
    using valid(4) by (auto simp: ev read_evidence_def Let_def split: prod.splits)
  have none: "quarantined k = {}" "failed_checks (map snd (planned k)) first second = {}"
    using closure_empty [OF valid(5) [unfolded quarantined_tables_def]] by (simp_all add: ev direct_failures_def)
  note collected = collect_read [OF f none(1)]
  note twice = read_twice_read [OF t]
  let ?gs = "guards_of (map fst (planned k)) (bounded_bytes first)"
  have gs: "guards snapshot = ?gs @ indexed_guards k" by (simp add: valid(6) ev snapshot_of_def)
  have planned: "planned k = [] \<or> as_read (mem s) (map fst (planned k)) (bounded_bytes first) (bounded_failed first)"
  proof (cases "planned k")
    case (Cons p ps)
    then have "requests_valid first" using failed_checks_none [OF none(2), of 0] by simp
    with twice collected show ?thesis by simp
  qed simp
  have "guard_holds (mem s) g" if "g \<in> set ?gs" for g
    using planned
  proof
    assume r: "as_read (mem s) (map fst (planned k)) (bounded_bytes first) (bounded_failed first)"
    have "\<not> bounded_failed first ! i" if "i < length (map fst (planned k))" for i
      using failed_checks_none [OF none(2), of i] that by simp
    with guards_of_hold [OF r] \<open>g \<in> set ?gs\<close> show ?thesis by blast
  qed (use \<open>g \<in> set ?gs\<close> in \<open>simp add: guards_of_def\<close>)
  moreover have "evidence_holds (mem s) c (guards snapshot) e"
    if e: "e \<in> set (catalog_entries c)" "storage (entry_descriptor e) \<noteq> kIndexedReferenceArray" for e
  proof -
    have p: "planned_for (catalog_schema c) (catalog_entries c) e (planned k)" using collected e(1) by blast
    have "evidence_holds (mem s) c ?gs e"
      using planned
    proof
      assume "as_read (mem s) (map fst (planned k)) (bounded_bytes first) (bounded_failed first)"
      then show ?thesis using planned_evidence [OF p e(2) _ none(2)] by blast
    next
      assume "planned k = []"
      with p e(2) have "profile_rows (entry_profile e) = []" "profile_relationships (entry_profile e) = []"
        by (auto simp: planned_for_def Let_def)
      then show ?thesis by (simp add: evidence_holds_def)
    qed
    then show ?thesis unfolding gs evidence_holds_def Let_def set_append by blast
  qed
  moreover have "array_holds (mem s) c (guards snapshot) e"
    if e: "e \<in> set (catalog_entries c)" "storage (entry_descriptor e) = kIndexedReferenceArray" for e
    using array_holds_mono [OF _ collected_arrays [OF f none(1) e]] gs by simp
  ultimately show ?thesis using collected twice by (auto simp: gs table_holds_def)
qed simp_all

end

section \<open>Properties\<close>

text \<open>C23: the catalog invariant. In every catalog that the operations can reach, whatever the backend
  answers, a catalog with entries has a non-zero generation, every entry carries it, table and unique
  numbers are not repeated, and a handle just given out resolves to the table it was asked for.\<close>

theorem catalog_invariant:
  assumes "catalog_run backend new_catalog n c"
  shows "catalog_ok c \<and> (case GetHandle c u of None \<Rightarrow> u \<notin> entry_id ` set (catalog_entries c)
     | Some h \<Rightarrow> \<exists>d. Resolve c h = Some d \<and> cd_unique_id d = u)"
proof -
  have ok: "catalog_ok c" by (rule catalog_run_ok [OF assms catalog_ok_new])
  show ?thesis
  proof (cases "find (\<lambda>e. entry_id e = u) (catalog_entries c)")
    case None
    then have "u \<notin> entry_id ` set (catalog_entries c)" by (auto simp: find_None)
    with ok show ?thesis by (simp only: GetHandle_def None option.case simp_thms)
  next
    case (Some e)
    have gen: "lifecycle_generation (entry_descriptor x) = generation c" if "x \<in> set (catalog_entries c)" for x
      using ok that by (simp add: catalog_ok_def)
    have "find (\<lambda>e. entry_id e = u \<and> lifecycle_generation (entry_descriptor e) = generation c) (catalog_entries c) = Some e"
      using Some gen by (metis (mono_tags, lifting) find_cong)
    with Some ok Prelude.find_Some_iff [OF Some] show ?thesis by (simp add: GetHandle_def Resolve_def)
  qed
qed


text \<open>C20: a successful revalidation. With a backend that reads a memory (and may fail at any time), a
  revalidation that succeeds leaves the catalog and the memory alone, and every guard of its snapshot is an
  address with the bytes stored there. For every table of records each fingerprint matches, after undoing the
  byte order of the table, and each relationship decodes to its target, on bytes that are in the guards. For
  every indexed array each slot of a fingerprint row points to a wrapper that names that row, all those
  wrappers have one type, slots and wrappers are in the guards, and each relationship is the fixed function of the
  row; the bytes of the wrapped records are not compared with the fingerprint, in the code as in the statement.\<close>

theorem Revalidate_success:
  assumes "table_reader backend mem" and "Revalidate backend c s = ((True, snapshot, c'), s')"
  shows "c' = c \<and> mem s' = mem s \<and> snapshot_generation snapshot = generation c \<and>
    (\<forall>g \<in> set (guards snapshot). guard_holds (mem s) g) \<and>
    (\<forall>e \<in> set (catalog_entries c). table_holds (mem s) c (guards snapshot) e)"
proof -
  have "c' = c \<and> snapshot_generation snapshot = generation c"
    using assms(2) by (cases rule: Revalidate_cases) (auto simp: snapshot_of_def split: prod.splits)
  with table_reader.Revalidate_true [OF assms] show ?thesis by blast
qed

text \<open>C21: a failed revalidation. Whatever the backend answers, a revalidation of a non-empty catalog that
  fails gives an empty snapshot and a new generation, under which no earlier handle resolves. The entries that stay
  are entries of the old catalog, in their order, under the new generation; none of them is a table whose own evidence
  failed; they are closed under relationships; and they contain every set of tables with these two
  properties.\<close>

theorem Revalidate_failure:
  assumes "Revalidate backend c s = ((False, snapshot, c'), s')" and "catalog_entries c \<noteq> []"
  shows "snapshot = empty_snapshot \<and> generation c' = next_generation (generation c) \<and>
    (\<forall>h. Resolve c h \<noteq> None \<longrightarrow> Resolve c' h = None) \<and>
    (\<forall>e \<in> set (catalog_entries c'). \<forall>r \<in> set (profile_relationships (entry_profile e)).
       find_session_table (catalog_entries c') (target_table_id r) \<noteq> None) \<and>
    (\<exists>evidence. read_evidence backend c s = (evidence, s') \<and>
       catalog_entries c' = map (\<lambda>e. e\<lparr>entry_descriptor := (entry_descriptor e)\<lparr>lifecycle_generation := generation c'\<rparr>\<rparr>)
         (filter (\<lambda>e. entry_id e \<in> entry_id ` set (catalog_entries c')) (catalog_entries c)) \<and>
       entry_id ` set (catalog_entries c') \<inter> direct_failures evidence = {} \<and>
       (\<forall>kept \<subseteq> entry_id ` set (catalog_entries c). kept \<inter> direct_failures evidence = {} \<longrightarrow>
          (\<forall>e \<in> set (catalog_entries c). entry_id e \<in> kept \<longrightarrow> (\<forall>r \<in> set (profile_relationships (entry_profile e)).
             \<exists>t. find_session_table (catalog_entries c) (target_table_id r) = Some t \<and> entry_id t \<in> kept)) \<longrightarrow>
          kept \<subseteq> entry_id ` set (catalog_entries c')))"
  using assms(1)
proof (cases rule: Revalidate_cases)
  case (stale evidence)
  let ?q = "quarantined_tables c evidence"
  have ids: "entry_id ` set (catalog_entries c') = entry_id ` set (catalog_entries c) - ?q"
    by (auto simp: stale(6) drop_quarantined_def AdvanceGeneration_def Let_def image_image)
  have new: "generation c' \<noteq> generation c"
    using generation_fresh [of 1 "generation c"] by (auto simp: stale(6))
  have "Resolve c' h = None" if "Resolve c h \<noteq> None" for h
    using that new by (auto simp: Resolve_def split: if_splits)
  moreover have "find_session_table (catalog_entries c') (target_table_id r) \<noteq> None"
    if e: "e \<in> set (catalog_entries c')" "r \<in> set (profile_relationships (entry_profile e))" for e r
  proof -
    from e(1) obtain e0 where e0: "e0 \<in> set (catalog_entries c)" "entry_id e0 \<notin> ?q" "entry_profile e0 = entry_profile e"
      by (auto simp: stale(6) drop_quarantined_def AdvanceGeneration_def Let_def)
    have "\<not> loses_target (catalog_entries c) ?q e0"
      unfolding quarantined_tables_def by (rule closure_closed [OF e0(1)])
    with e0 e(2) have "\<not> target_lost (catalog_entries c) ?q r" by (auto simp: loses_target_def list_ex_iff)
    then obtain t where t: "find_session_table (catalog_entries c) (target_table_id r) = Some t" "entry_id t \<notin> ?q"
      by (auto simp: target_lost_def split: option.splits)
    then have "t \<in> set (catalog_entries c)" "session_table_id (entry_descriptor t) = target_table_id r"
      using Prelude.find_Some_iff by (fastforce simp: find_session_table_def)+
    with t(2) show ?thesis
      by (auto simp: find_session_table_def find_None stale(6) drop_quarantined_def AdvanceGeneration_def Let_def)
  qed
  moreover have "kept \<subseteq> entry_id ` set (catalog_entries c')"
    if k: "kept \<subseteq> entry_id ` set (catalog_entries c)" "kept \<inter> direct_failures evidence = {}"
      "\<forall>e \<in> set (catalog_entries c). entry_id e \<in> kept \<longrightarrow> (\<forall>r \<in> set (profile_relationships (entry_profile e)).
         \<exists>t. find_session_table (catalog_entries c) (target_table_id r) = Some t \<and> entry_id t \<in> kept)" for kept
  proof -
    have "\<not> target_lost (catalog_entries c) (- kept) r"
      if "e \<in> set (catalog_entries c)" "entry_id e \<in> kept" "r \<in> set (profile_relationships (entry_profile e))" for e r
      using k(3) that by (fastforce simp: target_lost_def)
    then have "closure (catalog_entries c) (direct_failures evidence) \<subseteq> - kept"
      using k(2) by (intro closure_least) (auto simp: loses_target_def list_ex_iff)
    then show ?thesis using k(1) unfolding ids quarantined_tables_def by auto
  qed
  moreover have "entry_id ` set (catalog_entries c') \<inter> direct_failures evidence = {}"
    using closure_mono [of "direct_failures evidence" "catalog_entries c"] unfolding ids quarantined_tables_def by blast
  moreover have "catalog_entries c' = map (\<lambda>e. e\<lparr>entry_descriptor := (entry_descriptor e)\<lparr>lifecycle_generation := generation c'\<rparr>\<rparr>)
      (filter (\<lambda>e. entry_id e \<in> entry_id ` set (catalog_entries c')) (catalog_entries c))"
  proof -
    have "filter (\<lambda>e. entry_id e \<in> entry_id ` set (catalog_entries c')) (catalog_entries c) =
        filter (\<lambda>e. entry_id e \<notin> ?q) (catalog_entries c)"
      unfolding ids by (rule filter_cong) auto
    then show ?thesis by (simp add: stale(6) drop_quarantined_def AdvanceGeneration_def Let_def)
  qed
  ultimately show ?thesis using stale by (auto simp: stale(6))
qed (use assms(2) in simp_all)

section \<open>Witnesses\<close>

text \<open>One table of 100 four-byte records at 0x1000, with the fingerprints of rows 0, 1 and 5.\<close>

definition sample_rows :: "RowFingerprint list" where
  "sample_rows =
     [\<lparr>row_index = 0, row_pattern = [1, 2, 3, 4], row_mask = [255, 255, 255, 255]\<rparr>,
      \<lparr>row_index = 1, row_pattern = [5, 0, 7, 8], row_mask = [255, 0, 255, 255]\<rparr>,
      \<lparr>row_index = 5, row_pattern = [9, 10, 11, 12], row_mask = [255, 255, 255, 255]\<rparr>]"

definition sample_profile :: TableProfile where
  "sample_profile = \<lparr>profile_name = ''Player'', profile_table_id = 4256, profile_unique_id = 77,
     profile_capacity = 100, profile_record_size = 4, profile_rows = sample_rows, profile_relationships = []\<rparr>"

definition sample_bundle :: ProfileBundle where
  "sample_bundle = \<lparr>profile_id = ''sample'', bundle_schema_identity = ''cfb27'',
     bundle_build_identity = ''6ae83f2d'', bundle_tables = [sample_profile], bundle_schema = sample_registry\<rparr>"

definition sample_discovery :: DiscoveryResult where
  "sample_discovery = \<lparr>disc_valid = True, disc_code = [], disc_tables =
     [\<lparr>disc_unique_id = 77, disc_state = kResolved, disc_descriptor = Some
        \<lparr>td_unique_id = 77, td_base = 0x1000, td_stride = 4, td_capacity = 100, td_allocation_base = 0x1000,
         td_allocation_size = 400, td_storage = kCanonicalRecords, td_virtual_target = None,
         td_virtual_width = 0, direct_write_verified = True\<rparr>, disc_evidence = []\<rparr>],
     disc_timeout = None\<rparr>"

definition sample_catalog :: SessionCatalog where
  "sample_catalog = Install sample_bundle sample_discovery new_catalog"

definition sample_bytes :: "byte list" where
  "sample_bytes = [1, 2, 3, 4, 5, 6, 7, 8] @ replicate 12 0 @ [9, 10, 11, 12]"

definition sample_linear :: "byte list \<Rightarrow> linear_state" where
  "sample_linear bytes = \<lparr>linear_bytes = (\<lambda>a. if 0x1000 \<le> a \<and> unat (a - 0x1000) < length bytes
     then Some (bytes ! unat (a - 0x1000)) else None), write_calls = 0\<rparr>"

lemma all_less_4: "(\<forall>i < (4 :: nat). P i) \<longleftrightarrow> P 0 \<and> P 1 \<and> P 2 \<and> P 3"
  by (auto simp: numeral_eq_Suc less_Suc_eq)

lemma sample_selected: "selected_bits sample_rows = 88"
  by (simp add: selected_bits_def sample_rows_def popcount_def upt_rec bit_numeral_rec)

lemma sample_bundle_ok: "bundle_ok sample_bundle"
proof -
  have r: "registry_ok sample_registry" "\<forall>t \<in> set (schema_tables sample_registry). authority_status t = kDiscoveryOnly"
    using sample_load parse_layout_ok [of sample_artifact False]
    by (auto simp: Load_def LoadImpl_def split: sum.splits)
  have "profile_ok sample_profile"
    unfolding profile_ok_def using sample_selected
    by (simp add: sample_profile_def) (simp add: sample_rows_def fingerprint_ok_def all_less_4)
  then show ?thesis using r
    by (auto simp: bundle_ok_def sample_bundle_def sample_registry_def ValidateTableIdentity_def sample_profile_def
        relationships_closed_def)
qed

definition sample_entry :: Entry where
  "sample_entry = \<lparr>entry_descriptor =
     \<lparr>cd_unique_id = 77, session_table_id = 4256, base_address = 0x1000, stride = 4, capacity = 100,
      allocation_base = 0x1000, allocation_size = 400, storage = kCanonicalRecords,
      virtual_target_table_id = None, virtual_width = 0, cd_profile_id = ''sample'',
      lifecycle_generation = 1, cd_authority = kDirectVerified, cd_evidence = []\<rparr>,
    entry_profile = sample_profile\<rparr>"

lemma sample_catalog_eq: "sample_catalog = \<lparr>generation = 1, game_ready = True, catalog_schema = sample_registry,
    catalog_entries = [sample_entry]\<rparr>"
  by (simp add: sample_catalog_def Install_def AdvanceGeneration_def next_generation_def new_catalog_def
      sample_bundle_def sample_discovery_def install_table_def FindTable_def FindTableByUniqueId_def
      sample_registry_def sample_profile_def storage_valid_def sample_entry_def map_filter_simps Let_def)

definition sample_plan :: "(ReadRequest \<times> CatalogCheck) list" where
  "sample_plan = map2 (\<lambda>a r. (\<lparr>request_address = a, request_length = 4\<rparr>, Sentinel 77 kCanonicalRecords r))
     [0x1000, 0x1004, 0x1014] sample_rows"

lemma sample_collect:
  "collect_entry schema es LinearBackend sample_entry (\<lparr>quarantined = {}, planned = [], indexed_guards = []\<rparr>, s) =
     (\<lparr>quarantined = {}, planned = sample_plan, indexed_guards = []\<rparr>, s)"
  by (simp add: collect_entry_def LinearBackend_def sample_entry_def sample_profile_def sample_rows_def
      sentinel_request_def MultiplyOverflows_def mult64_def AddOverflows_def plan_def sample_plan_def Let_def)

lemma sample_reads:
  assumes "length bytes = 24"
  shows "ReadBoundedBatches LinearBackend (map fst sample_plan) (sample_linear bytes) =
    (\<lparr>requests_valid = True, bounded_bytes = [take 4 bytes, take 4 (drop 4 bytes), drop 20 bytes],
      bounded_failed = [False, False, False]\<rparr>, sample_linear bytes)"
proof -
  obtain a0 a1 a2 a3 a4 a5 a6 a7 a8 a9 a10 a11 a12 a13 a14 a15 a16 a17 a18 a19 a20 a21 a22 a23
    where b: "bytes = [a0, a1, a2, a3, a4, a5, a6, a7, a8, a9, a10, a11, a12, a13, a14, a15, a16, a17, a18, a19, a20, a21, a22, a23]"
    using assms by (auto simp: numeral_eq_Suc length_Suc_conv)
  show ?thesis
    by (simp add: ReadBoundedBatches_def sample_plan_def sample_rows_def request_invalid_def kMaximumBatchBytes_def
        AddOverflows_def read_batches.simps [of _ "_ # _"] read_batches.simps [of _ "[]"] kMaximumBatchRanges_def Let_def LinearBackend_def
        linear_Read_def linear_Validate_def sample_linear_def b upt_rec)
qed

lemma sample_evidence:
  assumes "length bytes = 24"
  shows "read_evidence LinearBackend sample_catalog (sample_linear bytes) =
    ((\<lparr>quarantined = {}, planned = sample_plan, indexed_guards = []\<rparr>,
      \<lparr>requests_valid = True, bounded_bytes = [take 4 bytes, take 4 (drop 4 bytes), drop 20 bytes],
       bounded_failed = [False, False, False]\<rparr>,
      \<lparr>requests_valid = True, bounded_bytes = [take 4 bytes, take 4 (drop 4 bytes), drop 20 bytes],
       bounded_failed = [False, False, False]\<rparr>), sample_linear bytes)"
  by (simp add: read_evidence_def read_twice_def sample_catalog_eq sample_collect sample_reads [OF assms])

lemma sample_failures:
  assumes "length bytes = 24"
  shows "direct_failures (fst (read_evidence LinearBackend sample_catalog (sample_linear bytes))) =
    (if MaskedMatches (sample_rows ! 0) (take 4 bytes) \<and> MaskedMatches (sample_rows ! 1) (take 4 (drop 4 bytes)) \<and>
        MaskedMatches (sample_rows ! 2) (drop 20 bytes) then {} else {77})"
  unfolding sample_evidence [OF assms]
  by (simp add: direct_failures_def failed_checks_def sample_plan_def sample_rows_def enumerate_eq_zip check_matches_def
      map_filter_simps upt_rec)

lemma sample_masks:
  "MaskedMatches (sample_rows ! 0) (take 4 sample_bytes)" "MaskedMatches (sample_rows ! 1) (take 4 (drop 4 sample_bytes))"
  "MaskedMatches (sample_rows ! 2) (drop 20 sample_bytes)"
  "\<not> MaskedMatches (sample_rows ! 0) (take 4 (sample_bytes[0 := 7]))"
  by (simp_all add: MaskedMatches_def sample_rows_def sample_bytes_def upt_rec)

lemma closure_single: "closure [sample_entry] q = q"
proof -
  have "\<not> loses_target [sample_entry] q sample_entry" by (simp add: loses_target_def sample_entry_def sample_profile_def)
  then show ?thesis by (subst closure.simps) (simp add: Let_def)
qed

lemma sample_revalidate:
  "Revalidate LinearBackend sample_catalog (sample_linear sample_bytes) =
     ((True, snapshot_of sample_catalog (fst (read_evidence LinearBackend sample_catalog (sample_linear sample_bytes))),
       sample_catalog), sample_linear sample_bytes)"
proof -
  have l: "length sample_bytes = 24" by (simp add: sample_bytes_def)
  have "quarantined_tables sample_catalog (fst (read_evidence LinearBackend sample_catalog (sample_linear sample_bytes))) = {}"
    unfolding quarantined_tables_def sample_failures [OF l] using sample_masks closure_single
    by (simp add: sample_catalog_eq)
  moreover have "snd (read_evidence LinearBackend sample_catalog (sample_linear sample_bytes)) = sample_linear sample_bytes"
    by (simp add: sample_evidence [OF l])
  moreover have "catalog_entries sample_catalog \<noteq> []" by (simp add: sample_catalog_eq)
  ultimately show ?thesis by (simp only: Revalidate_def Let_def case_prod_beta if_False simp_thms if_True)
qed

lemma sample_revalidate_fails:
  "\<exists>c' s'. Revalidate LinearBackend sample_catalog (sample_linear (sample_bytes[0 := 7])) = ((False, empty_snapshot, c'), s')"
proof -
  have l: "length (sample_bytes[0 := 7]) = 24" by (simp add: sample_bytes_def)
  have "quarantined_tables sample_catalog (fst (read_evidence LinearBackend sample_catalog (sample_linear (sample_bytes[0 := 7])))) = {77}"
    unfolding quarantined_tables_def sample_failures [OF l] using sample_masks closure_single
    by (simp add: sample_catalog_eq)
  then have "quarantined_tables sample_catalog (fst (read_evidence LinearBackend sample_catalog (sample_linear (sample_bytes[0 := 7])))) \<noteq> {}"
    by simp
  moreover have "catalog_entries sample_catalog \<noteq> []" by (simp add: sample_catalog_eq)
  ultimately show ?thesis by (simp only: Revalidate_def Let_def case_prod_beta if_False) blast
qed

lemma sample_run: "catalog_run LinearBackend new_catalog 1 sample_catalog"
  using catalog_run.step [OF catalog_run.start catalog_step.install [OF sample_bundle_ok]]
  by (simp add: sample_catalog_def)

lemma sample_handle:
  "GetHandle sample_catalog 77 = Some \<lparr>handle_unique_id = 77, handle_generation = 1\<rparr>"
  "Resolve sample_catalog \<lparr>handle_unique_id = 77, handle_generation = 1\<rparr> = Some (entry_descriptor sample_entry)"
  by (simp_all add: GetHandle_def Resolve_def sample_catalog_eq sample_entry_def)

theorem catalog_invariant_witness:
  "catalog_ok sample_catalog \<and> (\<exists>d. Resolve sample_catalog \<lparr>handle_unique_id = 77, handle_generation = 1\<rparr> = Some d)"
  using catalog_invariant [OF sample_run, of 77] by (auto simp: sample_handle)


theorem Revalidate_success_witness:
  "\<exists>snapshot. fst (Revalidate LinearBackend sample_catalog (sample_linear sample_bytes)) = (True, snapshot, sample_catalog) \<and>
     evidence_holds (linear_mem (sample_linear sample_bytes)) sample_catalog (guards snapshot) sample_entry"
proof -
  obtain snapshot s' where r: "Revalidate LinearBackend sample_catalog (sample_linear sample_bytes) = ((True, snapshot, sample_catalog), s')"
    using sample_revalidate by (metis prod.collapse)
  have e: "sample_entry \<in> set (catalog_entries sample_catalog)" "storage (entry_descriptor sample_entry) \<noteq> kIndexedReferenceArray"
    by (simp_all add: sample_catalog_eq) (simp add: sample_entry_def)
  have "table_holds (linear_mem (sample_linear sample_bytes)) sample_catalog (guards snapshot) sample_entry"
    using Revalidate_success [OF linear.table_reader_axioms r] e(1) by blast
  then show ?thesis using r e(2) by (auto simp: table_holds_def)
qed

theorem Revalidate_failure_witness:
  "\<exists>c' s'. Revalidate LinearBackend sample_catalog (sample_linear (sample_bytes[0 := 7])) = ((False, empty_snapshot, c'), s') \<and>
     Resolve c' \<lparr>handle_unique_id = 77, handle_generation = 1\<rparr> = None"
proof -
  obtain c' s' where r: "Revalidate LinearBackend sample_catalog (sample_linear (sample_bytes[0 := 7])) = ((False, empty_snapshot, c'), s')"
    using sample_revalidate_fails by blast
  have "catalog_entries sample_catalog \<noteq> []" by (simp add: sample_catalog_eq)
  from Revalidate_failure [OF r this] r sample_handle(2) show ?thesis by auto
qed

end
