(* ===== verification/Record_Access.thy ===== *)
theory Record_Access
  imports Catalog Transaction
begin

text \<open>
  Reading and planning writes of records through a catalog handle, and the assembly of one guarded memory
  transaction from several plans (frtk_record_access.h, frtk_record_access.cpp). The validation backend and
  the memory backend of an accessor are two interfaces over one state; the catalog is threaded because a
  failed revalidation changes it.
\<close>

record NamedFieldValue =
  nf_name :: string
  nf_value :: DecodedField

record FieldReadResult =
  frr_ok :: bool
  frr_code :: string
  frr_fields :: "NamedFieldValue list"

record FieldChange =
  change_name :: string
  change_value :: DecodedField

record FieldWritePlan =
  plan_ok :: bool
  plan_code :: string
  plan_evidence :: CatalogEvidenceSnapshot
  plan_operations :: "TransactionOperation list"

record GuardedFieldTransaction =
  guarded_ok :: bool
  guarded_code :: string
  guarded_request :: TransactionRequest

record 's RecordAccessor =
  accessor_schema :: SchemaRegistry
  validation_backend :: "'s DiscoveryBackend"
  accessor_memory :: "'s MemoryBackend"

definition kStale :: string where "kStale = ''CATALOG_STALE''"
definition kInvalid :: string where "kInvalid = ''FIELD_INVALID''"

definition read_failed :: "string \<Rightarrow> FieldReadResult" where
  "read_failed what = \<lparr>frr_ok = False, frr_code = what, frr_fields = []\<rparr>"

definition plan_failed :: "string \<Rightarrow> FieldWritePlan" where
  "plan_failed what = \<lparr>plan_ok = False, plan_code = what, plan_evidence = empty_snapshot, plan_operations = []\<rparr>"

section \<open>Records of a table\<close>

definition SchemaFor :: "SchemaRegistry \<Rightarrow> CatalogDescriptor \<Rightarrow> TableSchema option" where
  "SchemaFor schema d =
     (case FindTable schema (session_table_id d) of
        None \<Rightarrow> None
      | Some table \<Rightarrow>
          if schema_unique_id table \<noteq> cd_unique_id d \<or> schema_capacity table \<noteq> capacity d \<or>
             (if storage d = kIndexedReferenceArray then record_size table \<noteq> mult32 (virtual_width d) 4
              else record_size table \<noteq> stride d)
          then None else Some table)"

definition SwapWords :: "byte list \<Rightarrow> byte list" where
  "SwapWords bytes = reverse_words bytes"

definition RowAddress :: "CatalogDescriptor \<Rightarrow> nat \<Rightarrow> addr option" where
  "RowAddress d row =
     (if row \<ge> capacity d \<or>
         (row \<noteq> 0 \<and> (word_of_nat (stride d) :: u64) > max_u64 div word_of_nat row)
      then None
      else let offset = mult64 row (stride d) in
        if offset > max_u64 - base_address d then None else Some (base_address d + offset))"

definition ValidReference :: "SessionCatalog \<Rightarrow> u64 \<Rightarrow> FieldDefinition \<Rightarrow> DecodedField \<Rightarrow> bool" where
  "ValidReference c g field v \<longleftrightarrow>
     (if field_encoding field \<noteq> ''packed-reference'' then True
      else case v of
        Numeric _ \<Rightarrow> False
      | Reference r \<Rightarrow>
          if reference_table_id field \<noteq> Some (ref_table_id r) then False
          else IsActiveReferenceTarget c (ref_table_id r) (ref_row_index r) g)"

fun find_fields :: "SchemaRegistry \<Rightarrow> nat \<Rightarrow> string list \<Rightarrow> FieldDefinition list option" where
  "find_fields schema table_id [] = Some []"
| "find_fields schema table_id (name # names) =
     (case FindField schema table_id name of
        None \<Rightarrow> None
      | Some f \<Rightarrow> map_option ((#) f) (find_fields schema table_id names))"

text \<open>The bytes of a record as its fields see them, and as they lie in memory.\<close>

definition canonical_record :: "CatalogDescriptor \<Rightarrow> byte list \<Rightarrow> byte list" where
  "canonical_record d bytes = (if storage d = kWordSwappedRecords then SwapWords bytes else bytes)"

text \<open>A field of an indexed array: its value is a function of the row.\<close>

definition indexed_value ::
  "SessionCatalog \<Rightarrow> u64 \<Rightarrow> CatalogDescriptor \<Rightarrow> nat \<Rightarrow> FieldDefinition \<Rightarrow> DecodedField option" where
  "indexed_value c g d row field =
     (case virtual_target_table_id d of
        None \<Rightarrow> None
      | Some target \<Rightarrow>
          if field_encoding field \<noteq> ''packed-reference'' \<or> storage_bytes field \<noteq> 4 \<or>
             byte_offset field mod 4 \<noteq> 0 \<or> reference_table_id field \<noteq> Some target
          then None
          else let ordinal = byte_offset field div 4;
                   target_row = row * virtual_width d + ordinal;
                   v = Reference \<lparr>ref_table_id = target, ref_row_index = target_row\<rparr>
               in if ordinal \<ge> virtual_width d \<or> target_row > 2 ^ 32 - 1 then None
                  else if \<not> ValidReference c g field v then None else Some v)"

definition decoded_value :: "SessionCatalog \<Rightarrow> u64 \<Rightarrow> byte list \<Rightarrow> FieldDefinition \<Rightarrow> DecodedField option" where
  "decoded_value c g rec field =
     (case DecodeField rec field of
        Inl _ \<Rightarrow> None
      | Inr v \<Rightarrow> if ValidReference c g field v then Some v else None)"

text \<open>The values of all fields, or \<open>None\<close> at the first that is not valid.\<close>

fun field_values :: "(FieldDefinition \<Rightarrow> DecodedField option) \<Rightarrow> string list \<Rightarrow> FieldDefinition list \<Rightarrow>
  NamedFieldValue list option" where
  "field_values value_of (name # names) (f # fs) =
     (case value_of f of
        None \<Rightarrow> None
      | Some v \<Rightarrow> map_option ((#) \<lparr>nf_name = name, nf_value = v\<rparr>) (field_values value_of names fs))"
| "field_values value_of _ _ = Some []"

definition read_result :: "NamedFieldValue list option \<Rightarrow> FieldReadResult" where
  "read_result values =
     (case values of None \<Rightarrow> read_failed kInvalid
      | Some vs \<Rightarrow> \<lparr>frr_ok = True, frr_code = [], frr_fields = vs\<rparr>)"

text \<open>Reading the whole record at once.\<close>

definition read_record :: "'s MemoryBackend \<Rightarrow> addr \<Rightarrow> nat \<Rightarrow> 's \<Rightarrow> byte list option \<times> 's" where
  "read_record backend address n s =
     (let (ok, s) = Validate backend s address n False
      in if \<not> ok then (None, s) else Read backend s address n)"

definition ReadFields :: "'s RecordAccessor \<Rightarrow> TableHandle \<Rightarrow> nat \<Rightarrow> string list \<Rightarrow> SessionCatalog \<Rightarrow> 's \<Rightarrow>
  FieldReadResult \<times> SessionCatalog \<times> 's" where
  "ReadFields a h row names c s =
     (let ((ok, _, c), s) = Revalidate (validation_backend a) c s in
      if \<not> ok then (read_failed kStale, c, s)
      else case Resolve c h of
        None \<Rightarrow> (read_failed kStale, c, s)
      | Some d \<Rightarrow>
          (case (SchemaFor (accessor_schema a) d, RowAddress d row) of
             (Some table, Some address) \<Rightarrow>
               if names = [] then (read_failed kInvalid, c, s)
               else (case find_fields (accessor_schema a) (schema_table_id table) names of
                 None \<Rightarrow> (read_failed kInvalid, c, s)
               | Some definitions \<Rightarrow>
                   if storage d = kIndexedReferenceArray
                   then if virtual_target_table_id d = None \<or> virtual_width d = 0
                        then (read_failed kInvalid, c, s)
                        else (read_result (field_values (indexed_value c (handle_generation h) d row)
                                names definitions), c, s)
                   else (case read_record (accessor_memory a) address (record_size table) s of
                     (None, s) \<Rightarrow> (read_failed ''READ_FAILED'', c, s)
                   | (Some raw_record, s) \<Rightarrow>
                       (read_result (field_values
                          (decoded_value c (handle_generation h) (canonical_record d raw_record))
                          names definitions), c, s)))
           | _ \<Rightarrow> (read_failed kInvalid, c, s)))"

section \<open>Planning writes\<close>

text \<open>The definitions of the changes: each name once, in the table, with a value that may be referenced.\<close>

fun change_definitions ::
  "SchemaRegistry \<Rightarrow> nat \<Rightarrow> SessionCatalog \<Rightarrow> u64 \<Rightarrow> string set \<Rightarrow> FieldChange list \<Rightarrow> FieldDefinition list option" where
  "change_definitions schema table_id c g names [] = Some []"
| "change_definitions schema table_id c g names (change # changes) =
     (if change_name change \<in> names then None
      else case FindField schema table_id (change_name change) of
        None \<Rightarrow> None
      | Some field \<Rightarrow>
          if \<not> ValidReference c g field (change_value change) then None
          else map_option ((#) field)
            (change_definitions schema table_id c g (insert (change_name change) names) changes))"

fun encode_changes :: "byte list \<Rightarrow> FieldDefinition list \<Rightarrow> FieldChange list \<Rightarrow> string + byte list" where
  "encode_changes rec (f # fs) (change # changes) =
     bindE (EncodeField rec f (change_value change)) (\<lambda>rec. encode_changes rec fs changes)"
| "encode_changes rec _ _ = Inr rec"

text \<open>The maximal runs of bytes that differ, with the offset they begin at.\<close>

function difference_runs :: "nat \<Rightarrow> byte list \<Rightarrow> byte list \<Rightarrow> (nat \<times> byte list \<times> byte list) list" where
  "difference_runs index original replacement =
     (if original = [] \<or> replacement = [] then []
      else if hd original = hd replacement
      then difference_runs (Suc index) (tl original) (tl replacement)
      else let n = length (takeWhile (\<lambda>(o', r). o' \<noteq> r) (zip original replacement))
           in (index, take n original, take n replacement) #
              (if n = 0 then [] else difference_runs (index + n) (drop n original) (drop n replacement)))"
  by pat_completeness auto
termination
  by (relation "measure (\<lambda>(i, original, r). length original)") auto

declare difference_runs.simps [simp del]

definition run_operation :: "addr \<Rightarrow> nat \<times> byte list \<times> byte list \<Rightarrow> TransactionOperation" where
  "run_operation address = (\<lambda>(begin', expected, replacement).
     \<lparr>op_address = Address (address + word_of_nat begin'), op_expected = expected,
      op_replacement = replacement, op_kind = kWrite\<rparr>)"

definition PlanFieldWrites :: "'s RecordAccessor \<Rightarrow> TableHandle \<Rightarrow> nat \<Rightarrow> FieldChange list \<Rightarrow> SessionCatalog \<Rightarrow> 's \<Rightarrow>
  FieldWritePlan \<times> SessionCatalog \<times> 's" where
  "PlanFieldWrites a h row changes c s =
     (let ((ok, evidence, c), s) = Revalidate (validation_backend a) c s in
      if \<not> ok then (plan_failed kStale, c, s)
      else case Resolve c h of
        None \<Rightarrow> (plan_failed kStale, c, s)
      | Some d \<Rightarrow>
          (case SchemaFor (accessor_schema a) d of
             None \<Rightarrow> (plan_failed kInvalid, c, s)
           | Some table \<Rightarrow>
               if cd_authority d \<noteq> kDirectVerified then (plan_failed ''AUTHORITY_UNPROVEN'', c, s)
               else (case RowAddress d row of
                 None \<Rightarrow> (plan_failed kInvalid, c, s)
               | Some address \<Rightarrow>
                   if changes = [] then (plan_failed kInvalid, c, s)
                   else (case change_definitions (accessor_schema a) (schema_table_id table) c
                                (handle_generation h) {} changes of
                     None \<Rightarrow> (plan_failed kInvalid, c, s)
                   | Some definitions \<Rightarrow>
                       (case read_record (accessor_memory a) address (record_size table) s of
                          (None, s) \<Rightarrow> (plan_failed ''READ_FAILED'', c, s)
                        | (Some original_live, s) \<Rightarrow>
                            (case encode_changes (canonical_record d original_live) definitions changes of
                               Inl _ \<Rightarrow> (plan_failed kInvalid, c, s)
                             | Inr replacement \<Rightarrow>
                                 let operations = map (run_operation address)
                                       (difference_runs 0 original_live (canonical_record d replacement))
                                 in if length operations > kMaxTransactionOperations \<or> operations = []
                                    then (plan_failed kInvalid, c, s)
                                    else (\<lparr>plan_ok = True, plan_code = [], plan_evidence = evidence,
                                           plan_operations = operations\<rparr>, c, s)))))))"

section \<open>One guarded transaction\<close>

record ByteConstraint =
  bc_expected :: byte
  bc_replacement :: "byte option"

record ConstraintRange =
  cr_begin :: addr
  cr_end :: addr

type_synonym constraints = "addr \<Rightarrow> ByteConstraint option"

text \<open>One byte: the first operation to name an address fixes what is expected there.\<close>

definition constrain :: "constraints \<Rightarrow> addr \<Rightarrow> byte \<Rightarrow> byte option \<Rightarrow> constraints option" where
  "constrain m a expected replacement =
     (let found = (case m a of None \<Rightarrow> \<lparr>bc_expected = expected, bc_replacement = None\<rparr> | Some b \<Rightarrow> b)
      in if bc_expected found \<noteq> expected then None
         else case replacement of
           None \<Rightarrow> Some (m(a \<mapsto> found))
         | Some r \<Rightarrow>
             if bc_replacement found \<noteq> None \<and> bc_replacement found \<noteq> Some r then None
             else Some (m(a \<mapsto> found\<lparr>bc_replacement := Some r\<rparr>)))"

fun constrain_bytes :: "constraints \<Rightarrow> addr \<Rightarrow> (byte \<times> byte option) list \<Rightarrow> constraints option" where
  "constrain_bytes m a [] = Some m"
| "constrain_bytes m a ((e, r) # rest) =
     (case constrain m a e r of None \<Rightarrow> None | Some m \<Rightarrow> constrain_bytes m (a + 1) rest)"

definition operation_bytes :: "TransactionOperation \<Rightarrow> (byte \<times> byte option) list" where
  "operation_bytes operation =
     (if op_kind operation = kWrite then zip (op_expected operation) (map Some (op_replacement operation))
      else map (\<lambda>e. (e, None)) (op_expected operation))"

text \<open>The guard \<open>*address > max - size\<close> is written without the subtraction: the sum leaves 64 bits.\<close>

definition AddOperationConstraints ::
  "TransactionOperation \<Rightarrow> constraints \<times> ConstraintRange list \<Rightarrow> (constraints \<times> ConstraintRange list) option" where
  "AddOperationConstraints operation = (\<lambda>(m, ranges).
     (case InternalAddress (op_address operation) of
        None \<Rightarrow> None
      | Some a \<Rightarrow>
          let n = length (op_expected operation) in
          if op_expected operation = [] \<or>
             (op_kind operation = kWrite \<and> n \<noteq> length (op_replacement operation)) \<or>
             (op_kind operation = kVerifyOnly \<and> op_replacement operation \<noteq> []) \<or>
             unat a + n > 2 ^ 64 - 1
          then None
          else map_option (\<lambda>m. (m, ranges @ [\<lparr>cr_begin = a, cr_end = a + word_of_nat n\<rparr>]))
                 (constrain_bytes m a (operation_bytes operation))))"

fun add_all :: "TransactionOperation list \<Rightarrow> constraints \<times> ConstraintRange list \<Rightarrow>
  (constraints \<times> ConstraintRange list) option" where
  "add_all [] st = Some st"
| "add_all (operation # rest) st =
     (case AddOperationConstraints operation st of None \<Rightarrow> None | Some st \<Rightarrow> add_all rest st)"

definition guard_operation :: "CatalogEvidenceGuard \<Rightarrow> TransactionOperation" where
  "guard_operation g =
     \<lparr>op_address = Address (guard_address g), op_expected = guard_expected g, op_replacement = [],
      op_kind = kVerifyOnly\<rparr>"

definition plan_stale :: "SessionCatalog \<Rightarrow> u64 \<Rightarrow> nat list \<Rightarrow> FieldWritePlan \<Rightarrow> bool" where
  "plan_stale c g ids p \<longleftrightarrow>
     \<not> plan_ok p \<or> snapshot_generation (plan_evidence p) \<noteq> g \<or>
     active_unique_ids (plan_evidence p) \<noteq> ids \<or> guards (plan_evidence p) = [] \<or>
     \<not> EvidenceIsActive c (plan_evidence p)"

fun gather :: "SessionCatalog \<Rightarrow> u64 \<Rightarrow> nat list \<Rightarrow> FieldWritePlan list \<Rightarrow> constraints \<times> ConstraintRange list \<Rightarrow>
  string + (constraints \<times> ConstraintRange list)" where
  "gather c g ids [] st = Inr st"
| "gather c g ids (p # ps) st =
     (if plan_stale c g ids p then Inl ''CATALOG_EVIDENCE_STALE''
      else case add_all (map guard_operation (guards (plan_evidence p)) @ plan_operations p) st of
        None \<Rightarrow> Inl ''CATALOG_EVIDENCE_AMBIGUOUS''
      | Some st \<Rightarrow> gather c g ids ps st)"

text \<open>Sorted by begin, then end (a stable sort by begin after a sort by end); overlapping ranges are joined.\<close>

definition sort_ranges :: "ConstraintRange list \<Rightarrow> ConstraintRange list" where
  "sort_ranges ranges = sort_key cr_begin (sort_key cr_end ranges)"

fun join_ranges :: "ConstraintRange list \<Rightarrow> ConstraintRange list \<Rightarrow> ConstraintRange list" where
  "join_ranges components [] = components"
| "join_ranges components (r # rs) =
     (if components = [] \<or> cr_begin r \<ge> cr_end (last components) then join_ranges (components @ [r]) rs
      else join_ranges (butlast components @
             [(last components)\<lparr>cr_end := max (cr_end (last components)) (cr_end r)\<rparr>]) rs)"

text \<open>One component. The source walks the ordered constraints beside the bytes; each byte of the component has
  one, so the walk is by address.\<close>

definition component_operation :: "constraints \<Rightarrow> ConstraintRange \<Rightarrow> string + TransactionOperation" where
  "component_operation m r =
     (let n = unat (cr_end r - cr_begin r);
          bytes = map (\<lambda>i. m (cr_begin r + word_of_nat i)) [0..<n]
      in if n = 0 \<or> n > kMaxOperationBytes then Inl ''TRANSACTION_LIMIT_EXCEEDED''
         else if list_ex (\<lambda>b. b = None) bytes then Inl ''CATALOG_EVIDENCE_AMBIGUOUS''
         else let has_write = list_ex (\<lambda>b. bc_replacement (the b) \<noteq> None) bytes;
                  expected = map (\<lambda>b. bc_expected (the b)) bytes
              in Inr \<lparr>op_address = Address (cr_begin r), op_expected = expected,
                   op_replacement = (if has_write
                     then map (\<lambda>b. case bc_replacement (the b) of Some x \<Rightarrow> x | None \<Rightarrow> bc_expected (the b)) bytes
                     else []),
                   op_kind = (if has_write then kWrite else kVerifyOnly)\<rparr>)"

fun component_operations :: "constraints \<Rightarrow> ConstraintRange list \<Rightarrow> TransactionOperation list \<Rightarrow>
  string + TransactionOperation list" where
  "component_operations m [] operations = Inr operations"
| "component_operations m (r # rs) operations =
     bindE (component_operation m r) (\<lambda>operation.
     if Suc (length operations) > kMaxTransactionOperations then Inl ''TRANSACTION_LIMIT_EXCEEDED''
     else component_operations m rs (operations @ [operation]))"

fun within_limit :: "nat \<Rightarrow> TransactionOperation list \<Rightarrow> bool" where
  "within_limit aggregate [] = True"
| "within_limit aggregate (operation # rest) =
     (if aggregate > kMaxTransactionBytes - length (op_expected operation) then False
      else within_limit (aggregate + length (op_expected operation)) rest)"

definition finalize_operations :: "SessionCatalog \<Rightarrow> FieldWritePlan list \<Rightarrow> string + TransactionOperation list" where
  "finalize_operations c plans =
     (case plans of
        [] \<Rightarrow> Inl kInvalid
      | p # _ \<Rightarrow>
          bindE (gather c (snapshot_generation (plan_evidence p)) (active_unique_ids (plan_evidence p)) plans
                   (Map.empty, [])) (\<lambda>(m, ranges).
          bindE (component_operations m (join_ranges [] (sort_ranges ranges)) []) (\<lambda>operations.
          if \<not> within_limit 0 operations then Inl ''TRANSACTION_LIMIT_EXCEEDED'' else Inr operations)))"

text \<open>What a refused request holds: the operations of the components before the one that cannot be joined; nothing when
  the loop over the components was not reached, or when a limit on all of them was exceeded.\<close>

fun operations_left :: "constraints \<Rightarrow> ConstraintRange list \<Rightarrow> TransactionOperation list \<Rightarrow> TransactionOperation list" where
  "operations_left m [] operations = []"
| "operations_left m (r # rs) operations =
     (case component_operation m r of
        Inl what \<Rightarrow> operations
      | Inr operation \<Rightarrow>
          if Suc (length operations) > kMaxTransactionOperations then []
          else operations_left m rs (operations @ [operation]))"

definition refused_operations :: "SessionCatalog \<Rightarrow> FieldWritePlan list \<Rightarrow> TransactionOperation list" where
  "refused_operations c plans =
     (case plans of
        [] \<Rightarrow> []
      | p # _ \<Rightarrow>
          (case gather c (snapshot_generation (plan_evidence p)) (active_unique_ids (plan_evidence p)) plans (Map.empty, []) of
             Inl what \<Rightarrow> []
           | Inr (m, ranges) \<Rightarrow> operations_left m (join_ranges [] (sort_ranges ranges)) []))"

definition FinalizeFieldTransaction ::
  "SessionCatalog \<Rightarrow> string \<Rightarrow> FieldWritePlan list \<Rightarrow> GuardedFieldTransaction" where
  "FinalizeFieldTransaction c tid plans =
     (case finalize_operations c plans of
        Inl what \<Rightarrow> \<lparr>guarded_ok = False, guarded_code = what,
                     guarded_request = \<lparr>transaction_id = tid, tx_operations = refused_operations c plans\<rparr>\<rparr>
      | Inr operations \<Rightarrow> \<lparr>guarded_ok = True, guarded_code = [],
                     guarded_request = \<lparr>transaction_id = tid, tx_operations = operations\<rparr>\<rparr>)"

section \<open>The constraints\<close>

text \<open>What a constraint says is never weakened: the expected byte stays and a replacement stays.\<close>

definition keeps :: "constraints \<Rightarrow> constraints \<Rightarrow> bool" where
  "keeps m m' \<longleftrightarrow> (\<forall>x b. m x = Some b \<longrightarrow> (\<exists>b'. m' x = Some b' \<and> bc_expected b' = bc_expected b \<and>
     (\<forall>r. bc_replacement b = Some r \<longrightarrow> bc_replacement b' = Some r)))"

lemma keeps_refl [simp]: "keeps m m"
  by (simp add: keeps_def)

lemma keeps_trans: "keeps m m' \<Longrightarrow> keeps m' m'' \<Longrightarrow> keeps m m''"
  unfolding keeps_def by metis

definition says :: "constraints \<Rightarrow> addr \<Rightarrow> byte \<times> byte option \<Rightarrow> bool" where
  "says m x = (\<lambda>(e, r). \<exists>b. m x = Some b \<and> bc_expected b = e \<and> (\<forall>v. r = Some v \<longrightarrow> bc_replacement b = Some v))"

lemma says_keeps: "says m x er \<Longrightarrow> keeps m m' \<Longrightarrow> says m' x er"
  unfolding says_def keeps_def by (auto split: prod.splits) metis

definition replaces :: "constraints \<Rightarrow> addr \<Rightarrow> byte \<Rightarrow> bool" where
  "replaces m x r \<longleftrightarrow> (\<exists>b. m x = Some b \<and> bc_replacement b = Some r)"

lemma constrain_Some:
  assumes "constrain m a e r = Some m'"
  shows "keeps m m' \<and> says m' a (e, r) \<and> dom m' = insert a (dom m) \<and>
    (\<forall>x v. replaces m' x v \<longrightarrow> replaces m x v \<or> (x = a \<and> r = Some v))"
proof (cases "m a")
  case None
  with assms show ?thesis
    by (cases r) (auto simp: constrain_def keeps_def says_def replaces_def Let_def split: if_splits)
next
  case (Some b)
  with assms show ?thesis
    by (cases r) (auto simp: constrain_def keeps_def says_def replaces_def Let_def split: if_splits)
qed

lemma constrain_bytes_Some:
  assumes "constrain_bytes m a bytes = Some m'"
  shows "keeps m m' \<and> (\<forall>i < length bytes. says m' (a + word_of_nat i) (bytes ! i)) \<and>
    dom m' = mem_range a (length bytes) \<union> dom m \<and>
    (\<forall>x v. replaces m' x v \<longrightarrow> replaces m x v \<or>
       (\<exists>i < length bytes. x = a + word_of_nat i \<and> snd (bytes ! i) = Some v))"
  using assms
proof (induction m a bytes rule: constrain_bytes.induct)
  case (1 m a)
  then show ?case by simp
next
  case (2 m a e r rest)
  then obtain m1 where m1: "constrain m a e r = Some m1" "constrain_bytes m1 (a + 1) rest = Some m'"
    by (auto split: option.splits)
  note one = constrain_Some [OF m1(1)] and IH = "2.IH" [OF m1]
  have "says m' (a + word_of_nat i) (((e, r) # rest) ! i)" if "i < length ((e, r) # rest)" for i
  proof (cases i)
    case 0
    with one IH says_keeps show ?thesis by fastforce
  next
    case (Suc j)
    with IH that have "says m' (a + 1 + word_of_nat j) (rest ! j)" by simp
    with Suc show ?thesis by (simp add: add.assoc)
  qed
  moreover have "replaces m x v \<or> (\<exists>i < length ((e, r) # rest). x = a + word_of_nat i \<and> snd (((e, r) # rest) ! i) = Some v)"
    if "replaces m' x v" for x v
  proof -
    from IH that consider "replaces m1 x v" | j where "j < length rest" "x = a + 1 + word_of_nat j" "snd (rest ! j) = Some v"
      by blast
    then show ?thesis
    proof cases
      case 1
      with one consider "replaces m x v" | "x = a" "r = Some v" by blast
      then show ?thesis
      proof cases
        case 2
        then show ?thesis by (intro disjI2 exI [of _ 0]) simp
      qed simp
    next
      case 2
      then show ?thesis by (intro disjI2 exI [of _ "Suc j"]) (simp add: add.assoc)
    qed
  qed
  moreover have "keeps m m'" using one IH keeps_trans by blast
  moreover have "dom m' = mem_range a (length ((e, r) # rest)) \<union> dom m"
    using one IH by (auto simp: mem_range_Suc)
  ultimately show ?case by blast
qed

text \<open>An input operation: a guard or a planned write.\<close>

definition input_address :: "TransactionOperation \<Rightarrow> addr" where
  "input_address q = (case InternalAddress (op_address q) of Some a \<Rightarrow> a | None \<Rightarrow> 0)"

definition input_range :: "TransactionOperation \<Rightarrow> addr set" where
  "input_range q = mem_range (input_address q) (length (op_expected q))"

definition input_ok :: "TransactionOperation \<Rightarrow> bool" where
  "input_ok q \<longleftrightarrow> op_expected q \<noteq> [] \<and>
     length (op_replacement q) = (if op_kind q = kWrite then length (op_expected q) else 0) \<and>
     unat (input_address q) + length (op_expected q) < 2 ^ 64"

definition cr_of :: "TransactionOperation \<Rightarrow> ConstraintRange" where
  "cr_of q = \<lparr>cr_begin = input_address q, cr_end = input_address q + word_of_nat (length (op_expected q))\<rparr>"

text \<open>The constraints that a list of input operations builds.\<close>

definition built :: "TransactionOperation list \<Rightarrow> constraints \<times> ConstraintRange list \<Rightarrow> bool" where
  "built qs = (\<lambda>(m, ranges). list_all input_ok qs \<and> ranges = map cr_of qs \<and> dom m = \<Union> (input_range ` set qs) \<and>
     (\<forall>q \<in> set qs. \<forall>i < length (op_expected q). says m (input_address q + word_of_nat i) (operation_bytes q ! i)) \<and>
     (\<forall>x v. replaces m x v \<longrightarrow> (\<exists>q \<in> set qs. \<exists>i < length (op_expected q).
        x = input_address q + word_of_nat i \<and> snd (operation_bytes q ! i) = Some v)))"

lemma built_Nil [simp]: "built [] (Map.empty, [])"
  by (simp add: built_def replaces_def)

lemma AddOperationConstraints_Some:
  assumes "AddOperationConstraints q (m, ranges) = Some st'" and "built qs (m, ranges)"
  shows "built (qs @ [q]) st'"
proof -
  let ?n = "length (op_expected q)"
  from assms(1) obtain a m' where a: "InternalAddress (op_address q) = Some a"
    and ok: "op_expected q \<noteq> []" "op_kind q = kWrite \<Longrightarrow> ?n = length (op_replacement q)"
      "op_kind q = kVerifyOnly \<Longrightarrow> op_replacement q = []" "unat a + ?n < 2 ^ 64"
    and m': "constrain_bytes m a (operation_bytes q) = Some m'"
      "st' = (m', ranges @ [\<lparr>cr_begin = a, cr_end = a + word_of_nat ?n\<rparr>])"
    by (auto simp: AddOperationConstraints_def Let_def split: option.splits if_splits)
  have ia: "input_address q = a" by (simp add: input_address_def a)
  have iok: "input_ok q"
    using ok by (cases "op_kind q") (auto simp: input_ok_def ia)
  have len: "length (operation_bytes q) = ?n" using iok by (auto simp: operation_bytes_def input_ok_def)
  note b = constrain_bytes_Some [OF m'(1), unfolded len]
  have old: "says m' (input_address p + word_of_nat i) (operation_bytes p ! i)"
    if "p \<in> set qs" "i < length (op_expected p)" for p i
  proof -
    have "says m (input_address p + word_of_nat i) (operation_bytes p ! i)"
      using assms(2) that by (simp add: built_def)
    then show ?thesis by (rule says_keeps [OF _ conjunct1 [OF b]])
  qed
  have "\<exists>p \<in> set (qs @ [q]). \<exists>i < length (op_expected p). x = input_address p + word_of_nat i \<and>
      snd (operation_bytes p ! i) = Some v" if "replaces m' x v" for x v
  proof -
    from b that consider "replaces m x v"
      | i where "i < ?n" "x = a + word_of_nat i" "snd (operation_bytes q ! i) = Some v" by blast
    then show ?thesis
    proof cases
      case 1
      then have "\<exists>p \<in> set qs. \<exists>i < length (op_expected p). x = input_address p + word_of_nat i \<and>
          snd (operation_bytes p ! i) = Some v" using assms(2) by (simp add: built_def)
      then show ?thesis by auto
    next
      case 2
      then show ?thesis using ia by auto
    qed
  qed
  then show ?thesis
    using b old assms(2) iok ia unfolding built_def
    by (auto simp: m'(2) cr_of_def input_range_def)
qed

lemma add_all_Some:
  "add_all ops st = Some st' \<Longrightarrow> built qs st \<Longrightarrow> built (qs @ ops) st'"
proof (induction ops arbitrary: st qs)
  case (Cons q ops)
  then obtain st1 where "AddOperationConstraints q st = Some st1" "add_all ops st1 = Some st'"
    by (auto split: option.splits)
  moreover have "built (qs @ [q]) st1"
    using calculation(1) Cons.prems by (cases st) (auto intro: AddOperationConstraints_Some)
  ultimately show ?case using Cons.IH [of st1 "qs @ [q]"] by simp
qed simp

definition inputs_of :: "FieldWritePlan \<Rightarrow> TransactionOperation list" where
  "inputs_of p = map guard_operation (guards (plan_evidence p)) @ plan_operations p"

lemma gather_Inr:
  "gather c g ids ps st = Inr st' \<Longrightarrow> built qs st \<Longrightarrow>
   built (qs @ concat (map inputs_of ps)) st' \<and> (\<forall>p \<in> set ps. \<not> plan_stale c g ids p)"
proof (induction ps arbitrary: st qs)
  case (Cons p ps)
  then obtain st1 where st1: "\<not> plan_stale c g ids p" "add_all (inputs_of p) st = Some st1"
      "gather c g ids ps st1 = Inr st'"
    by (auto simp: inputs_of_def split: option.splits if_splits)
  have "built (qs @ inputs_of p) st1" using Cons.prems by (intro add_all_Some [OF st1(2)]) auto
  from Cons.IH [OF st1(3) this] st1(1) show ?case by simp
qed simp

section \<open>Joining the ranges\<close>

definition interval :: "ConstraintRange \<Rightarrow> nat set" where
  "interval r = {unat (cr_begin r)..<unat (cr_end r)}"

definition before :: "ConstraintRange \<Rightarrow> ConstraintRange \<Rightarrow> bool" where
  "before r q \<longleftrightarrow> unat (cr_end r) \<le> unat (cr_begin q)"

definition range_ok :: "ConstraintRange \<Rightarrow> bool" where
  "range_ok r \<longleftrightarrow> unat (cr_begin r) < unat (cr_end r)"

lemma sort_ranges_sorted: "sorted (map cr_begin (sort_ranges rs))" "set (sort_ranges rs) = set rs"
  by (simp_all add: sort_ranges_def)

lemma join_ranges_ok:
  assumes "sorted (map cr_begin rs)" "list_all range_ok rs"
    and "list_all range_ok cs" "sorted_wrt before cs"
    and "cs \<noteq> [] \<Longrightarrow> \<forall>r \<in> set rs. cr_begin (last cs) \<le> cr_begin r"
  shows "list_all range_ok (join_ranges cs rs) \<and> sorted_wrt before (join_ranges cs rs) \<and>
    \<Union> (interval ` set (join_ranges cs rs)) = \<Union> (interval ` set cs) \<union> \<Union> (interval ` set rs)"
  using assms
proof (induction cs rs rule: join_ranges.induct)
  case (2 cs r rs)
  show ?case
  proof (cases "cs = [] \<or> cr_begin r \<ge> cr_end (last cs)")
    case True
    have "before c r" if "c \<in> set cs" for c
    proof (cases "c = last cs")
      case True
      with \<open>cs = [] \<or> cr_begin r \<ge> cr_end (last cs)\<close> that show ?thesis by (auto simp: before_def word_le_nat_alt)
    next
      case False
      have ne: "cs \<noteq> []" using that by auto
      then have "cs = butlast cs @ [last cs]" by simp
      then have "before c (last cs)" using that False "2.prems"(4) by (metis Un_iff empty_iff insert_iff list.set(1,2) set_append sorted_wrt_append)
      moreover have "cr_begin (last cs) \<le> cr_begin r" using "2.prems"(5) ne by simp
      ultimately show ?thesis by (auto simp: before_def word_le_nat_alt)
    qed
    then have "sorted_wrt before (cs @ [r])" using "2.prems"(4) by (simp add: sorted_wrt_append)
    with 2 True show ?thesis by (auto simp: Un_assoc)
  next
    case False
    define l where "l = last cs"
    define l' where "l' = l\<lparr>cr_end := max (cr_end l) (cr_end r)\<rparr>"
    have split: "cs = butlast cs @ [l]" using False by (simp add: l_def)
    have lr: "cr_begin l \<le> cr_begin r" "cr_begin r < cr_end l" "range_ok l" "range_ok r"
      using False "2.prems" by (auto simp: l_def list_all_iff)
    have u: "interval l' = interval l \<union> interval r"
      using lr by (auto simp: l'_def interval_def max_def word_le_nat_alt word_less_nat_alt range_ok_def)
    have s: "sorted_wrt before (butlast cs)" "\<forall>c \<in> set (butlast cs). before c l"
      using "2.prems"(4) by (subst (asm) split, simp add: sorted_wrt_append)+
    have ok: "list_all range_ok (butlast cs @ [l'])"
      using "2.prems"(3) lr by (auto simp: list_all_iff l'_def range_ok_def max_def word_le_nat_alt dest: in_set_butlastD)
    moreover have "sorted_wrt before (butlast cs @ [l'])"
      using s by (auto simp: sorted_wrt_append before_def l'_def)
    moreover have "cr_begin l' \<le> cr_begin q" if "q \<in> set rs" for q
      using that "2.prems"(1) lr(1) by (auto simp: l'_def)
    moreover have "\<Union> (interval ` set cs) = \<Union> (interval ` set (butlast cs)) \<union> interval l"
      by (subst split) (simp add: Un_commute)
    ultimately show ?thesis
      using 2 False u by (auto simp: l_def [symmetric] l'_def [symmetric])
  qed
qed simp

lemma component_operation_Inr:
  assumes "component_operation m r = Inr p" and "range_ok r"
  shows "wf_operation p \<and> address_of p = cr_begin r \<and> length (op_expected p) = unat (cr_end r) - unat (cr_begin r) \<and>
    (\<forall>i < length (op_expected p). \<exists>b. m (cr_begin r + word_of_nat i) = Some b \<and> op_expected p ! i = bc_expected b \<and>
       (if op_kind p = kWrite then op_replacement p ! i =
            (case bc_replacement b of Some x \<Rightarrow> x | None \<Rightarrow> bc_expected b)
        else bc_replacement b = None))"
proof -
  let ?n = "unat (cr_end r - cr_begin r)"
  define bytes where "bytes = map (\<lambda>i. m (cr_begin r + word_of_nat i)) [0..<?n]"
  define has_write where "has_write \<longleftrightarrow> list_ex (\<lambda>b. bc_replacement (the b) \<noteq> None) bytes"
  have p: "?n \<noteq> 0" "?n \<le> kMaxOperationBytes" "\<not> list_ex (\<lambda>b. b = None) bytes"
    "p = \<lparr>op_address = Address (cr_begin r), op_expected = map (\<lambda>b. bc_expected (the b)) bytes,
       op_replacement = (if has_write
         then map (\<lambda>b. case bc_replacement (the b) of Some x \<Rightarrow> x | None \<Rightarrow> bc_expected (the b)) bytes else []),
       op_kind = (if has_write then kWrite else kVerifyOnly)\<rparr>"
    using assms(1) unfolding component_operation_def Let_def bytes_def [symmetric] has_write_def [symmetric]
    by (auto split: if_splits)
  have n: "?n = unat (cr_end r) - unat (cr_begin r)"
    using assms(2) by (simp add: range_ok_def unat_sub word_le_nat_alt)
  have len: "length bytes = ?n" by (simp add: bytes_def)
  have "unat (cr_begin r) + ?n < 2 ^ 64"
    using n assms(2) unat_lt_2p64 [of "cr_end r"] by (simp add: range_ok_def)
  then have wf: "wf_operation p" "address_of p = cr_begin r"
    using p len by (auto simp: wf_operation_def address_of_def Address_eq ParseAddress_tx_FormatAddress)
  have "\<exists>b. m (cr_begin r + word_of_nat i) = Some b \<and> op_expected p ! i = bc_expected b \<and>
       (if op_kind p = kWrite then op_replacement p ! i =
            (case bc_replacement b of Some x \<Rightarrow> x | None \<Rightarrow> bc_expected b)
        else bc_replacement b = None)" if "i < ?n" for i
  proof -
    have bi: "bytes ! i = m (cr_begin r + word_of_nat i)" using that by (simp add: bytes_def)
    have mem: "bytes ! i \<in> set bytes" using that len by simp
    have "bytes ! i \<noteq> None"
    proof
      assume "bytes ! i = None"
      with mem have "None \<in> set bytes" by simp
      with p(3) show False by (auto simp: list_ex_iff)
    qed
    then obtain b where b: "bytes ! i = Some b" by auto
    have "bc_replacement b = None" if "\<not> has_write"
      using that mem b by (auto simp: has_write_def list_ex_iff)
    then show ?thesis using b bi that len p(4) by (cases "bc_replacement b") auto
  qed
  with wf n len p(4) show ?thesis by auto
qed

lemma component_operations_Inr:
  assumes "component_operations m rs acc = Inr ops"
  shows "length acc \<le> kMaxTransactionOperations \<longrightarrow> length ops \<le> kMaxTransactionOperations \<and>
    (\<exists>new. ops = acc @ new \<and> list_all2 (\<lambda>r p. component_operation m r = Inr p) rs new)"
  using assms
proof (induction rs arbitrary: acc)
  case (Cons r rs)
  then obtain p where p: "component_operation m r = Inr p" "\<not> Suc (length acc) > kMaxTransactionOperations"
      "component_operations m rs (acc @ [p]) = Inr ops"
    by (auto simp: bindE_Inr_iff split: if_splits)
  from Cons.IH [OF p(3)] p(1,2) show ?case by auto
qed simp

lemma within_limit_iff:
  "aggregate \<le> kMaxTransactionBytes \<Longrightarrow> list_all wf_operation ops \<Longrightarrow>
   within_limit aggregate ops \<longleftrightarrow> aggregate + total_bytes ops \<le> kMaxTransactionBytes"
proof (induction aggregate ops rule: within_limit.induct)
  case (2 aggregate operation rest)
  have "length (op_expected operation) \<le> kMaxTransactionBytes"
    using 2 by (auto simp: wf_operation_def kMaxOperationBytes_def kMaxTransactionBytes_def)
  then have guard: "aggregate > kMaxTransactionBytes - length (op_expected operation) \<longleftrightarrow>
      \<not> aggregate + length (op_expected operation) \<le> kMaxTransactionBytes" by linarith
  show ?case
  proof (cases "aggregate + length (op_expected operation) \<le> kMaxTransactionBytes")
    case True
    with 2 guard show ?thesis by (simp add: total_bytes_def add.assoc)
  next
    case False
    with guard show ?thesis by (simp add: total_bytes_def)
  qed
qed (simp add: total_bytes_def)

text \<open>The byte an operation expects at an address, and the byte a write puts there.\<close>

definition expected_at :: "TransactionOperation \<Rightarrow> addr \<Rightarrow> byte" where
  "expected_at p x = op_expected p ! unat (x - address_of p)"

definition replacement_at :: "TransactionOperation \<Rightarrow> addr \<Rightarrow> byte" where
  "replacement_at p x = op_replacement p ! unat (x - address_of p)"

definition input_expected_at :: "TransactionOperation \<Rightarrow> addr \<Rightarrow> byte" where
  "input_expected_at q x = op_expected q ! unat (x - input_address q)"

definition input_replacement_at :: "TransactionOperation \<Rightarrow> addr \<Rightarrow> byte" where
  "input_replacement_at q x = op_replacement q ! unat (x - input_address q)"

text \<open>One request stands for a list of input operations.\<close>

definition stands_for :: "TransactionOperation list \<Rightarrow> TransactionOperation list \<Rightarrow> bool" where
  "stands_for ops qs \<longleftrightarrow>
     \<Union> (range_set ` set ops) = \<Union> (input_range ` set qs) \<and>
     (\<forall>p \<in> set ops. \<forall>q \<in> set qs. \<forall>x \<in> range_set p \<inter> input_range q.
        expected_at p x = input_expected_at q x \<and>
        (op_kind q = kWrite \<longrightarrow> op_kind p = kWrite \<and> replacement_at p x = input_replacement_at q x)) \<and>
     (\<forall>p \<in> set ops. op_kind p = kWrite \<longrightarrow> (\<forall>x \<in> range_set p.
        replacement_at p x = expected_at p x \<or>
        (\<exists>q \<in> set qs. op_kind q = kWrite \<and> x \<in> input_range q \<and> input_replacement_at q x = replacement_at p x)))"

lemma mem_range_index:
  assumes "x \<in> mem_range a n" "n < 2 ^ 64"
  shows "unat (x - a) < n \<and> x = a + word_of_nat (unat (x - a))"
proof -
  from assms(1) obtain i where "i < n" "x = a + word_of_nat i" by (auto simp: mem_range_def)
  then show ?thesis using assms(2) by (simp add: unat_of_nat_u64)
qed

lemma input_range_interval:
  assumes "input_ok q"
  shows "x \<in> input_range q \<longleftrightarrow> unat x \<in> interval (cr_of q)" and "range_ok (cr_of q)"
proof -
  have "unat (input_address q + word_of_nat (length (op_expected q))) = unat (input_address q) + length (op_expected q)"
    using assms by (intro unat_add_of_nat) (simp add: input_ok_def)
  then show "x \<in> input_range q \<longleftrightarrow> unat x \<in> interval (cr_of q)" and "range_ok (cr_of q)"
    using assms by (auto simp: input_range_def mem_range_iff input_ok_def interval_def cr_of_def range_ok_def)
qed

lemma component_range:
  assumes "component_operation m r = Inr p" "range_ok r"
  shows "x \<in> range_set p \<longleftrightarrow> unat x \<in> interval r"
  using component_operation_Inr [OF assms] assms(2) range_set_iff [of p x]
  by (auto simp: interval_def range_ok_def)

lemma component_byte:
  assumes "component_operation m r = Inr p" "range_ok r" "x \<in> range_set p"
  shows "\<exists>b. m x = Some b \<and> expected_at p x = bc_expected b \<and>
    (if op_kind p = kWrite then replacement_at p x = (case bc_replacement b of Some v \<Rightarrow> v | None \<Rightarrow> bc_expected b)
     else bc_replacement b = None)"
proof -
  note c = component_operation_Inr [OF assms(1,2)]
  then have "length (op_expected p) < 2 ^ 64" using wf_operationD(4) by blast
  with assms(3) have i: "unat (x - address_of p) < length (op_expected p)"
    "x = address_of p + word_of_nat (unat (x - address_of p))"
    using mem_range_index [of x "address_of p" "length (op_expected p)"] by (simp_all add: range_set_def)
  from c i obtain b where "m (cr_begin r + word_of_nat (unat (x - address_of p))) = Some b"
      "op_expected p ! unat (x - address_of p) = bc_expected b"
      "if op_kind p = kWrite then op_replacement p ! unat (x - address_of p) =
            (case bc_replacement b of Some v \<Rightarrow> v | None \<Rightarrow> bc_expected b) else bc_replacement b = None"
    by blast
  with c i(2) show ?thesis by (auto simp: expected_at_def replacement_at_def)
qed

lemma input_byte:
  assumes "built qs (m, ranges)" "q \<in> set qs" "x \<in> input_range q"
  shows "\<exists>b. m x = Some b \<and> bc_expected b = input_expected_at q x \<and>
    (op_kind q = kWrite \<longrightarrow> bc_replacement b = Some (input_replacement_at q x))"
proof -
  have ok: "input_ok q" using assms(1,2) by (auto simp: built_def list_all_iff)
  let ?i = "unat (x - input_address q)"
  have i: "?i < length (op_expected q)" "x = input_address q + word_of_nat ?i"
    using mem_range_index [of x "input_address q" "length (op_expected q)"] ok assms(3)
    by (simp_all add: input_range_def input_ok_def)
  have all: "\<forall>i < length (op_expected q). says m (input_address q + word_of_nat i) (operation_bytes q ! i)"
    using assms(1,2) unfolding built_def by blast
  have "says m x (operation_bytes q ! ?i)"
    by (subst i(2)) (rule all [rule_format, OF i(1)])
  moreover have "operation_bytes q ! ?i = (input_expected_at q x,
      if op_kind q = kWrite then Some (input_replacement_at q x) else None)"
    using ok i(1) by (simp add: operation_bytes_def input_ok_def input_expected_at_def input_replacement_at_def)
  ultimately show ?thesis by (auto simp: says_def)
qed

lemma replaced_input:
  assumes "built qs (m, ranges)" "replaces m x v"
  shows "\<exists>q \<in> set qs. op_kind q = kWrite \<and> x \<in> input_range q \<and> input_replacement_at q x = v"
proof -
  have "\<exists>q \<in> set qs. \<exists>i < length (op_expected q). x = input_address q + word_of_nat i \<and>
      snd (operation_bytes q ! i) = Some v" using assms by (simp add: built_def)
  then obtain q i where q: "q \<in> set qs" "i < length (op_expected q)" "x = input_address q + word_of_nat i"
      "snd (operation_bytes q ! i) = Some v" by blast
  have ok: "input_ok q" using assms(1) q(1) by (auto simp: built_def list_all_iff)
  then have "unat (x - input_address q) = i" using q(2,3) by (simp add: unat_of_nat_u64 input_ok_def)
  moreover have "op_kind q = kWrite \<and> op_replacement q ! i = v"
    using q(2,4) ok by (cases "op_kind q") (auto simp: operation_bytes_def input_ok_def)
  ultimately show ?thesis using q by (auto simp: input_replacement_at_def input_range_def mem_range_def)
qed

lemma bex_nth: "(\<exists>y \<in> set ys. P y) \<longleftrightarrow> (\<exists>i < length ys. P (ys ! i))"
  by (metis in_set_conv_nth)

lemma finalize_operations_Inr:
  assumes "finalize_operations c plans = Inr ops"
  shows "plans \<noteq> [] \<and> list_all wf_operation ops \<and> sorted_wrt (\<lambda>p q. range_set p \<inter> range_set q = {}) ops \<and>
    length ops \<le> kMaxTransactionOperations \<and> total_bytes ops \<le> kMaxTransactionBytes \<and>
    stands_for ops (concat (map inputs_of plans)) \<and>
    (\<forall>p \<in> set plans. plan_ok p \<and> EvidenceIsActive c (plan_evidence p) \<and> guards (plan_evidence p) \<noteq> [])"
proof -
  from assms obtain p0 ps m ranges where plans: "plans = p0 # ps"
    and g: "gather c (snapshot_generation (plan_evidence p0)) (active_unique_ids (plan_evidence p0)) plans (Map.empty, []) =
        Inr (m, ranges)"
    and co: "component_operations m (join_ranges [] (sort_ranges ranges)) [] = Inr ops" and wl: "within_limit 0 ops"
    by (auto simp: finalize_operations_def bindE_Inr_iff split: list.splits if_splits)
  define qs where "qs = concat (map inputs_of plans)"
  note gi = gather_Inr [OF g built_Nil]
  then have b: "built qs (m, ranges)" by (simp add: qs_def)
  define rs where "rs = join_ranges [] (sort_ranges ranges)"
  have in_ok: "input_ok q" if "q \<in> set qs" for q using b that by (auto simp: built_def list_all_iff)
  have "list_all range_ok (sort_ranges ranges)"
    using b in_ok input_range_interval(2) by (auto simp: built_def list_all_iff sort_ranges_sorted)
  then have join: "list_all range_ok rs" "sorted_wrt before rs" "\<Union> (interval ` set rs) = \<Union> (interval ` set ranges)"
    using join_ranges_ok [of "sort_ranges ranges" "[]"] by (simp_all add: sort_ranges_sorted rs_def)
  from component_operations_Inr [OF co] have l2: "list_all2 (\<lambda>r p. component_operation m r = Inr p) rs ops"
    and len: "length ops \<le> kMaxTransactionOperations" by (auto simp: rs_def)
  have ok: "range_ok (rs ! i)" "component_operation m (rs ! i) = Inr (ops ! i)" if "i < length ops" for i
    using l2 join(1) that by (auto simp: list_all2_conv_all_nth list_all_iff)
  have lrs: "length rs = length ops" using l2 by (rule list_all2_lengthD)
  have op: "\<exists>r \<in> set rs. range_ok r \<and> component_operation m r = Inr p" if "p \<in> set ops" for p
    using that ok lrs by (metis in_set_conv_nth)
  have wf: "list_all wf_operation ops"
    using op component_operation_Inr by (fastforce simp: list_all_iff)
  have "sorted_wrt (\<lambda>p q. range_set p \<inter> range_set q = {}) ops"
    unfolding sorted_wrt_iff_nth_less
  proof (intro allI impI)
    fix i j
    assume ij: "i < j" "j < length ops"
    then have "before (rs ! i) (rs ! j)" using join(2) lrs by (simp add: sorted_wrt_iff_nth_less)
    then show "range_set (ops ! i) \<inter> range_set (ops ! j) = {}"
      using component_range [OF ok(2,1)] ij by (auto simp: interval_def before_def)
  qed
  moreover have "stands_for ops qs"
  proof -
    have "x \<in> \<Union> (range_set ` set ops) \<longleftrightarrow> unat x \<in> \<Union> (interval ` set rs)" for x
      unfolding UN_iff bex_nth lrs using component_range [OF ok(2,1)] by blast
    moreover have "unat x \<in> \<Union> (interval ` set ranges) \<longleftrightarrow> x \<in> \<Union> (input_range ` set qs)" for x
    proof -
      have "ranges = map cr_of qs" using b by (simp add: built_def)
      then show ?thesis using input_range_interval(1) [OF in_ok, of _ x] by simp
    qed
    ultimately have cover: "\<Union> (range_set ` set ops) = \<Union> (input_range ` set qs)"
      by (intro set_eqI) (simp only: join(3))
    have agree: "expected_at p x = input_expected_at q x \<and>
        (op_kind q = kWrite \<longrightarrow> op_kind p = kWrite \<and> replacement_at p x = input_replacement_at q x)"
      if "p \<in> set ops" "q \<in> set qs" "x \<in> range_set p" "x \<in> input_range q" for p q x
    proof -
      from op [OF that(1)] obtain r where r: "range_ok r" "component_operation m r = Inr p" by blast
      from component_byte [OF r(2,1) that(3)] input_byte [OF b that(2,4)] show ?thesis
        by (auto split: if_splits)
    qed
    have source: "replacement_at p x = expected_at p x \<or>
        (\<exists>q \<in> set qs. op_kind q = kWrite \<and> x \<in> input_range q \<and> input_replacement_at q x = replacement_at p x)"
      if "p \<in> set ops" "op_kind p = kWrite" "x \<in> range_set p" for p x
    proof -
      from op [OF that(1)] obtain r where r: "range_ok r" "component_operation m r = Inr p" by blast
      from component_byte [OF r(2,1) that(3)] that(2) obtain v where v: "m x = Some v" "expected_at p x = bc_expected v"
        "replacement_at p x = (case bc_replacement v of Some u \<Rightarrow> u | None \<Rightarrow> bc_expected v)" by auto
      show ?thesis
      proof (cases "bc_replacement v")
        case (Some u)
        then have "replaces m x u" using v(1) by (simp add: replaces_def)
        from replaced_input [OF b this] Some v(3) show ?thesis by auto
      qed (use v in simp)
    qed
    show ?thesis unfolding stands_for_def using cover agree source by blast
  qed
  moreover have "total_bytes ops \<le> kMaxTransactionBytes" using wl within_limit_iff [of 0 ops] wf by simp
  moreover have "\<forall>p \<in> set plans. plan_ok p \<and> EvidenceIsActive c (plan_evidence p) \<and> guards (plan_evidence p) \<noteq> []"
    using gi by (auto simp: plan_stale_def)
  ultimately show ?thesis using plans wf len by (simp add: qs_def)
qed

text \<open>Why plans are refused, and what is left in the request then. The bytes of a joined range all have a constraint, so
  inside the loop over the components only a limit can be exceeded.\<close>

lemma gather_Inl:
  "gather c g ids ps st = Inl what \<Longrightarrow> what = ''CATALOG_EVIDENCE_STALE'' \<and> (\<exists>p \<in> set ps. plan_stale c g ids p) \<or>
   what = ''CATALOG_EVIDENCE_AMBIGUOUS''"
  by (induction c g ids ps st rule: gather.induct) (auto split: if_splits option.splits)

lemma gathered_components:
  assumes "gather c g ids plans (Map.empty, []) = Inr (m, ranges)" and "r \<in> set (join_ranges [] (sort_ranges ranges))"
  shows "range_ok r \<and> (\<forall>x. unat x \<in> interval r \<longrightarrow> m x \<noteq> None)"
proof -
  have b: "built (concat (map inputs_of plans)) (m, ranges)" using gather_Inr [OF assms(1) built_Nil] by simp
  have in_ok: "input_ok q" if "q \<in> set (concat (map inputs_of plans))" for q
    using b that unfolding built_def list_all_iff by blast
  have ranges: "set ranges = cr_of ` set (concat (map inputs_of plans))" using b by (simp add: built_def)
  then have "list_all range_ok (sort_ranges ranges)"
    using in_ok input_range_interval(2) by (auto simp: list_all_iff sort_ranges_sorted)
  then have join: "list_all range_ok (join_ranges [] (sort_ranges ranges))"
    "\<Union> (interval ` set (join_ranges [] (sort_ranges ranges))) = \<Union> (interval ` set ranges)"
    using join_ranges_ok [of "sort_ranges ranges" "[]"] by (simp_all add: sort_ranges_sorted)
  have "m x \<noteq> None" if "unat x \<in> interval r" for x
  proof -
    have "unat x \<in> \<Union> (interval ` set ranges)" using join(2) assms(2) that by blast
    then obtain q where q: "q \<in> set (concat (map inputs_of plans))" "unat x \<in> interval (cr_of q)" unfolding ranges by blast
    then have "x \<in> input_range q" using input_range_interval(1) [OF in_ok [OF q(1)]] by blast
    with input_byte [OF b q(1)] show ?thesis by auto
  qed
  with join(1) assms(2) show ?thesis by (simp add: list_all_iff)
qed

lemma component_operation_Inl:
  assumes "component_operation m r = Inl what" and "range_ok r" and "\<forall>x. unat x \<in> interval r \<longrightarrow> m x \<noteq> None"
  shows "what = ''TRANSACTION_LIMIT_EXCEEDED''"
proof -
  have "m (cr_begin r + word_of_nat i) \<noteq> None" if "i < unat (cr_end r - cr_begin r)" for i
  proof -
    have n: "unat (cr_end r - cr_begin r) = unat (cr_end r) - unat (cr_begin r)"
      using assms(2) by (simp add: range_ok_def unat_sub word_le_nat_alt)
    have "unat (cr_end r) < 2 ^ 64" by (rule unat_lt_2p64)
    then have "unat (cr_begin r) + i < 2 ^ 64" using that n by linarith
    then have "unat (cr_begin r + word_of_nat i) = unat (cr_begin r) + i" by (rule unat_add_of_nat)
    then show ?thesis using assms(3) that n by (simp add: interval_def)
  qed
  then have "\<not> list_ex (\<lambda>b. b = None) (map (\<lambda>i. m (cr_begin r + word_of_nat i)) [0..<unat (cr_end r - cr_begin r)])"
    by (force simp: list_ex_iff)
  with assms(1) show ?thesis by (auto simp: component_operation_def Let_def split: if_splits)
qed

lemma component_operations_Inl:
  "component_operations m rs acc = Inl what \<Longrightarrow>
   \<forall>r \<in> set rs. range_ok r \<and> (\<forall>x. unat x \<in> interval r \<longrightarrow> m x \<noteq> None) \<Longrightarrow> what = ''TRANSACTION_LIMIT_EXCEEDED''"
proof (induction rs arbitrary: acc)
  case (Cons r rs)
  show ?case
  proof (cases "component_operation m r")
    case (Inl e)
    then show ?thesis using Cons.prems component_operation_Inl [OF Inl] by (auto simp: bindE_def)
  next
    case (Inr p)
    then show ?thesis using Cons by (auto simp: bindE_def split: if_splits)
  qed
qed simp

lemma operations_left_wf:
  "list_all wf_operation acc \<Longrightarrow> \<forall>r \<in> set rs. range_ok r \<Longrightarrow> list_all wf_operation (operations_left m rs acc)"
proof (induction rs arbitrary: acc)
  case (Cons r rs)
  then show ?case using component_operation_Inr [of m r] by (auto split: sum.splits)
qed simp

lemma finalize_refused:
  assumes "finalize_operations c plans = Inl what"
  shows "plans = [] \<and> what = kInvalid \<or>
      what = ''CATALOG_EVIDENCE_STALE'' \<and> (\<exists>p \<in> set plans. plan_stale c (snapshot_generation (plan_evidence (hd plans)))
        (active_unique_ids (plan_evidence (hd plans))) p) \<or>
      what = ''CATALOG_EVIDENCE_AMBIGUOUS'' \<or> what = ''TRANSACTION_LIMIT_EXCEEDED''"
    and "what \<noteq> ''TRANSACTION_LIMIT_EXCEEDED'' \<longrightarrow> refused_operations c plans = []"
    and "list_all wf_operation (refused_operations c plans)"
proof -
  have "(plans = [] \<and> what = kInvalid \<or>
      what = ''CATALOG_EVIDENCE_STALE'' \<and> (\<exists>p \<in> set plans. plan_stale c (snapshot_generation (plan_evidence (hd plans)))
        (active_unique_ids (plan_evidence (hd plans))) p) \<or>
      what = ''CATALOG_EVIDENCE_AMBIGUOUS'' \<or> what = ''TRANSACTION_LIMIT_EXCEEDED'') \<and>
    (what \<noteq> ''TRANSACTION_LIMIT_EXCEEDED'' \<longrightarrow> refused_operations c plans = []) \<and>
    list_all wf_operation (refused_operations c plans)"
  proof (cases plans)
    case Nil
    then show ?thesis using assms by (simp add: finalize_operations_def refused_operations_def)
  next
    case (Cons p ps)
    let ?gather = "gather c (snapshot_generation (plan_evidence p)) (active_unique_ids (plan_evidence p)) plans (Map.empty, [])"
    show ?thesis
    proof (cases ?gather)
      case (Inl e)
      then have "what = e" "refused_operations c plans = []"
        using assms Cons by (simp_all add: finalize_operations_def refused_operations_def bindE_def del: gather.simps)
      then show ?thesis using gather_Inl [OF Inl] Cons by auto
    next
      case (Inr st)
      obtain m ranges where st: "st = (m, ranges)" by (metis surj_pair)
      note components = gathered_components [OF Inr [unfolded st]]
      have "what = ''TRANSACTION_LIMIT_EXCEEDED''"
      proof (cases "component_operations m (join_ranges [] (sort_ranges ranges)) []")
        case (Inl e)
        then have "what = e" using assms Cons Inr st by (simp add: finalize_operations_def bindE_def del: gather.simps)
        then show ?thesis using component_operations_Inl [OF Inl] components by blast
      next
        case (Inr ops)
        then show ?thesis using assms Cons \<open>?gather = Inr st\<close> st
          by (auto simp: finalize_operations_def bindE_def simp del: gather.simps split: if_splits)
      qed
      moreover have "refused_operations c plans = operations_left m (join_ranges [] (sort_ranges ranges)) []"
        using Cons Inr st by (simp add: refused_operations_def del: gather.simps)
      ultimately show ?thesis using operations_left_wf [of "[]" "join_ranges [] (sort_ranges ranges)" m] components by auto
    qed
  qed
  then show "plans = [] \<and> what = kInvalid \<or>
      what = ''CATALOG_EVIDENCE_STALE'' \<and> (\<exists>p \<in> set plans. plan_stale c (snapshot_generation (plan_evidence (hd plans)))
        (active_unique_ids (plan_evidence (hd plans))) p) \<or>
      what = ''CATALOG_EVIDENCE_AMBIGUOUS'' \<or> what = ''TRANSACTION_LIMIT_EXCEEDED''"
    and "what \<noteq> ''TRANSACTION_LIMIT_EXCEEDED'' \<longrightarrow> refused_operations c plans = []"
    and "list_all wf_operation (refused_operations c plans)" by blast+
qed

text \<open>The write ranges of the inputs.\<close>

definition input_writes :: "FieldWritePlan list \<Rightarrow> addr set" where
  "input_writes plans = \<Union> (input_range ` {q \<in> set (concat (map inputs_of plans)). op_kind q = kWrite})"

lemma finalize_request:
  assumes "guarded_ok (FinalizeFieldTransaction c tid plans)"
  shows "finalize_operations c plans = Inr (tx_operations (guarded_request (FinalizeFieldTransaction c tid plans)))"
    and "transaction_id (guarded_request (FinalizeFieldTransaction c tid plans)) = tid"
  using assms by (auto simp: FinalizeFieldTransaction_def split: sum.splits)

lemma finalize_input_ok:
  assumes "finalize_operations c plans = Inr ops" and "q \<in> set (concat (map inputs_of plans))"
  shows "input_ok q"
proof -
  from assms(1) obtain g ids m ranges where "gather c g ids plans (Map.empty, []) = Inr (m, ranges)"
    by (auto simp: finalize_operations_def bindE_Inr_iff simp del: gather.simps split: list.splits if_splits)
  from gather_Inr [OF this built_Nil] have "built (concat (map inputs_of plans)) (m, ranges)" by simp
  then have "list_all input_ok (concat (map inputs_of plans))" by (simp only: built_def prod.case)
  with assms(2) show ?thesis by (simp only: list_all_iff)
qed

lemma finalize_nonempty:
  assumes "finalize_operations c plans = Inr ops"
  shows "ops \<noteq> []"
proof
  assume "ops = []"
  note f = finalize_operations_Inr [OF assms]
  then have empty: "\<Union> (input_range ` set (concat (map inputs_of plans))) = {}"
    using \<open>ops = []\<close> unfolding stands_for_def by simp
  from f obtain p where p: "p \<in> set plans" "guards (plan_evidence p) \<noteq> []" by (cases plans) auto
  then obtain g where "g \<in> set (guards (plan_evidence p))" by (cases "guards (plan_evidence p)") auto
  then have g: "guard_operation g \<in> set (concat (map inputs_of plans))" using p(1) by (auto simp: inputs_of_def)
  have "input_ok (guard_operation g)" by (rule finalize_input_ok [OF assms g])
  then have "input_address (guard_operation g) \<in> input_range (guard_operation g)"
    by (auto simp: input_range_def mem_range_iff input_ok_def)
  with empty g show False by blast
qed

lemma finalize_valid_request:
  assumes "guarded_ok (FinalizeFieldTransaction c tid plans)" and "IsValidTransactionId tid"
  shows "valid_request (guarded_request (FinalizeFieldTransaction c tid plans))"
  unfolding valid_request_def finalize_request(2) [OF assms(1)]
  using assms(2) finalize_operations_Inr [OF finalize_request(1) [OF assms(1)]]
    finalize_nonempty [OF finalize_request(1) [OF assms(1)]] by blast

lemma stands_for_write_set:
  assumes "stands_for ops (concat (map inputs_of plans))" and "x \<in> range_set p" "p \<in> set ops" "op_kind p = kWrite"
    and "x \<notin> input_writes plans"
  shows "replacement_at p x = expected_at p x"
  using assms unfolding stands_for_def input_writes_def by blast

lemma read_expected:
  assumes "length bs < 2 ^ 64"
  shows "mem_read m a (length bs) = bs \<longleftrightarrow> (\<forall>x \<in> mem_range a (length bs). m x = bs ! unat (x - a))"
proof
  assume h: "\<forall>x \<in> mem_range a (length bs). m x = bs ! unat (x - a)"
  show "mem_read m a (length bs) = bs"
  proof (rule nth_equalityI)
    fix i
    assume "i < length (mem_read m a (length bs))"
    then have i: "i < length bs" by simp
    then have "a + word_of_nat i \<in> mem_range a (length bs)" by (auto simp: mem_range_def)
    with h have "m (a + word_of_nat i) = bs ! unat (a + word_of_nat i - a)" by blast
    then show "mem_read m a (length bs) ! i = bs ! i" using i assms by (simp add: mem_read_nth unat_of_nat_u64)
  qed simp
next
  assume h: "mem_read m a (length bs) = bs"
  show "\<forall>x \<in> mem_range a (length bs). m x = bs ! unat (x - a)"
  proof
    fix x
    assume x: "x \<in> mem_range a (length bs)"
    from mem_range_index [OF x assms] have i: "unat (x - a) < length bs"
      and e: "x = a + word_of_nat (unat (x - a))" by blast+
    have "mem_read m a (length bs) ! unat (x - a) = m x" by (subst mem_read_nth [OF i]) (simp only: e [symmetric])
    with h show "m x = bs ! unat (x - a)" by simp
  qed
qed

lemma op_byte_read:
  assumes "mem_read m a (length bs) = bs" and "x \<in> mem_range a (length bs)" and "length bs < 2 ^ 64"
  shows "m x = bs ! unat (x - a)"
  using assms by (simp add: read_expected)

context memory_backend
begin

text \<open>What a run of an assembled request does to one input byte.\<close>

lemma assembled_byte:
  assumes f: "finalize_operations c plans = Inr ops"
    and run: "RunTransaction request backend s = (r, s')" "tr_status r = kAppliedVerified" "tx_operations request = ops"
    and q: "q \<in> set (concat (map inputs_of plans))" "x \<in> input_range q"
  shows "mem s x = input_expected_at q x \<and> (op_kind q = kWrite \<longrightarrow> mem s' x = input_replacement_at q x)"
proof -
  have sf: "stands_for ops (concat (map inputs_of plans))" and wf: "list_all wf_operation ops"
    using finalize_operations_Inr [OF f] by blast+
  have "x \<in> \<Union> (range_set ` set ops)" using sf q unfolding stands_for_def by blast
  then obtain p where p: "p \<in> set ops" "x \<in> range_set p" by blast
  have "wf_operation p" using wf p(1) by (simp add: list_all_iff)
  then have l: "length (op_expected p) < 2 ^ 64" "op_kind p = kWrite \<Longrightarrow> length (op_replacement p) = length (op_expected p)"
    using wf_operationD(4) by (auto simp: wf_operation_def)
  note applied = run_applied(2) [OF run(1,2), of p, unfolded run(3), OF p(1)]
  have e: "mem s x = expected_at p x" unfolding expected_at_def
    using applied p(2) l(1) by (intro op_byte_read) (auto simp: range_set_def)
  have "mem s' x = replacement_at p x" if "op_kind p = kWrite" unfolding replacement_at_def
    using applied p(2) l that by (intro op_byte_read) (auto simp: range_set_def)
  moreover have "expected_at p x = input_expected_at q x \<and>
      (op_kind q = kWrite \<longrightarrow> op_kind p = kWrite \<and> replacement_at p x = input_replacement_at q x)"
    using sf p q unfolding stands_for_def by blast
  ultimately show ?thesis using e by auto
qed

lemma assembled_frame:
  assumes f: "finalize_operations c plans = Inr ops"
    and run: "RunTransaction request backend s = (r, s')" "tr_status r = kAppliedVerified" "tx_operations request = ops"
    and x: "x \<notin> input_writes plans"
  shows "mem s' x = mem s x"
proof (cases "x \<in> write_set ops")
  case False
  then show ?thesis using run_frame(2) [OF run(1)] run(3) by simp
next
  case True
  then obtain p where p: "p \<in> set ops" "op_kind p = kWrite" "x \<in> range_set p"
    by (auto simp: write_set_def range_set_def)
  have sf: "stands_for ops (concat (map inputs_of plans))" and "wf_operation p"
    using finalize_operations_Inr [OF f] p(1) by (auto simp: list_all_iff)
  then have l: "length (op_expected p) < 2 ^ 64" "length (op_replacement p) = length (op_expected p)"
    using wf_operationD(4) p(2) by (auto simp: wf_operation_def)
  note applied = run_applied(2) [OF run(1,2), of p, unfolded run(3), OF p(1)]
  have "mem s x = expected_at p x" unfolding expected_at_def
    using applied p(3) l(1) by (intro op_byte_read) (auto simp: range_set_def)
  moreover have "mem s' x = replacement_at p x" unfolding replacement_at_def
    using applied p(2,3) l by (intro op_byte_read) (auto simp: range_set_def)
  ultimately show ?thesis using stands_for_write_set [OF sf p(3,1,2) x] by simp
qed

end

section \<open>The runs of a change\<close>

lemma difference_runs_sound:
  assumes "length original = length replacement"
    and "(i, e, r) \<in> set (difference_runs k original replacement)"
  shows "k \<le> i \<and> length r = length e \<and> i - k + length e \<le> length original \<and>
    (\<forall>t < length e. e ! t = original ! (i - k + t) \<and> r ! t = replacement ! (i - k + t) \<and> e ! t \<noteq> r ! t)"
  using assms
proof (induction k original replacement rule: difference_runs.induct)
  case (1 k original replacement)
  show ?case
  proof (cases "original = [] \<or> replacement = []")
    case True
    with "1.prems" show ?thesis by (subst (asm) difference_runs.simps) simp
  next
    case False
    then obtain a os b rs where l: "original = a # os" "replacement = b # rs" by (cases original; cases replacement) auto
    show ?thesis
    proof (cases "a = b")
      case True
      with "1.prems" l have pre: "hd original = hd replacement" "length (tl original) = length (tl replacement)"
        "(i, e, r) \<in> set (difference_runs (Suc k) (tl original) (tl replacement))"
        by (simp_all, subst (asm) difference_runs.simps, simp)
      note IH = "1.IH"(1) [OF False pre]
      then obtain j where "i = Suc k + j" using le_Suc_ex by blast
      with IH l show ?thesis by auto
    next
      case False
      define n where "n = length (takeWhile (\<lambda>(o', r). o' \<noteq> r) (zip original replacement))"
      have n0: "n \<noteq> 0" using False l by (simp add: n_def)
      have nl: "n \<le> length original" using length_takeWhile_le [of _ "zip original replacement"] "1.prems"(1)
        by (simp add: n_def)
      have ne: "original ! t \<noteq> replacement ! t" if "t < n" for t
        using nth_mem [of t "takeWhile (\<lambda>(o', r). o' \<noteq> r) (zip original replacement)"] that nl "1.prems"(1)
          takeWhile_nth [of t "\<lambda>(o', r). o' \<noteq> r" "zip original replacement"]
        by (auto simp: n_def dest!: set_takeWhileD)
      have "(i, e, r) = (k, take n original, take n replacement) \<or>
        (i, e, r) \<in> set (difference_runs (k + n) (drop n original) (drop n replacement))"
        using "1.prems"(2) False l n0
        by (subst (asm) difference_runs.simps) (auto simp: n_def Let_def)
      then consider "i = k" "e = take n original" "r = take n replacement"
        | "(i, e, r) \<in> set (difference_runs (k + n) (drop n original) (drop n replacement))" by auto
      then show ?thesis
      proof cases
        case 1
        with ne nl "1.prems"(1) show ?thesis by simp
      next
        case 2
        have pre: "hd original \<noteq> hd replacement" "length (drop n original) = length (drop n replacement)"
          using \<open>a \<noteq> b\<close> l "1.prems"(1) by simp_all
        note IH = "1.IH"(2) [OF \<open>\<not> (original = [] \<or> replacement = [])\<close> pre(1) n_def n0 pre(2) 2]
        then obtain j where "i = k + n + j" using le_Suc_ex by blast
        with IH nl "1.prems"(1) show ?thesis by (auto simp: algebra_simps)
      qed
    qed
  qed
qed

lemma difference_runs_complete:
  assumes "length original = length replacement" and "t < length original" and "original ! t \<noteq> replacement ! t"
  shows "\<exists>(i, e, r) \<in> set (difference_runs k original replacement). i \<le> k + t \<and> k + t < i + length e"
  using assms
proof (induction k original replacement arbitrary: t rule: difference_runs.induct)
  case (1 k original replacement)
  then have False1: "\<not> (original = [] \<or> replacement = [])" by auto
  then obtain a os b rs where l: "original = a # os" "replacement = b # rs" by (cases original; cases replacement) auto
  show ?case
  proof (cases "a = b")
    case True
    with l "1.prems" obtain u where u: "t = Suc u" by (cases t) auto
    with True l "1.prems" "1.IH"(1) [of u]
    have "\<exists>(i, e, r) \<in> set (difference_runs (Suc k) os rs). i \<le> Suc k + u \<and> Suc k + u < i + length e" by simp
    with True l u show ?thesis by (subst difference_runs.simps) simp
  next
    case False
    define n where "n = length (takeWhile (\<lambda>(o', r). o' \<noteq> r) (zip original replacement))"
    have n0: "n \<noteq> 0" using False l by (simp add: n_def)
    have nl: "n \<le> length original" using length_takeWhile_le [of _ "zip original replacement"] "1.prems"(1)
      by (simp add: n_def)
    have step: "difference_runs k original replacement = (k, take n original, take n replacement) #
        difference_runs (k + n) (drop n original) (drop n replacement)"
      using False l n0 by (subst difference_runs.simps) (auto simp: n_def Let_def)
    show ?thesis
    proof (cases "t < n")
      case True
      with nl show ?thesis unfolding step by simp
    next
      case False2: False
      from "1.IH"(2) [OF False1 _ n_def n0, of "t - n"] False l False2 "1.prems" nl
      have "\<exists>(i, e, r) \<in> set (difference_runs (k + n) (drop n original) (drop n replacement)).
          i \<le> k + n + (t - n) \<and> k + n + (t - n) < i + length e" by simp
      with False2 show ?thesis unfolding step by auto
    qed
  qed
qed

section \<open>Several fields\<close>

lemma raw_field_cong:
  assumes l: "layout_ok (length rec) d" "length rec' = length rec"
    and same: "\<And>p. in_field d p \<Longrightarrow> record_bit rec' p = record_bit rec p"
  shows "raw_field rec' d = raw_field rec d"
proof (rule bit_word_eqI)
  fix k
  assume "k < LENGTH(64)"
  show "bit (raw_field rec' d) k = bit (raw_field rec d) k"
  proof (cases "k < bit_width d")
    case True
    let ?p = "8 * (byte_offset d + storage_bytes d) - 1 - (field_shift d + k)"
    have k: "field_shift d + k < 8 * storage_bytes d" using l(1) True unfolding field_shift_def layout_ok_def by arith
    have "in_field d ?p" using l(1) True by (auto simp: in_field_def field_shift_def layout_ok_def)
    then have "record_bit rec' ?p = record_bit rec ?p" by (rule same)
    with record_bit_word [OF l(1) k] record_bit_word [of rec' d, OF _ k] l show ?thesis
      by (simp add: raw_field_take_bit bit_take_bit_iff bit_drop_bit_eq)
  qed (simp add: raw_field_take_bit bit_take_bit_iff)
qed

lemma DecodeField_cong:
  assumes "ValidateDefinition (length rec) d = Inr ()" "length rec' = length rec"
    and "\<And>p. in_field d p \<Longrightarrow> record_bit rec' p = record_bit rec p"
  shows "DecodeField rec' d = DecodeField rec d"
proof -
  have "raw_field rec' d = raw_field rec d"
    using assms(1) by (intro raw_field_cong assms(2,3)) (simp add: ValidateDefinition_iff)
  then show ?thesis using DecodeField_eq [of rec d] DecodeField_eq [of rec' d] assms(1,2) by simp
qed

lemma in_field_bound: "ValidateDefinition n d = Inr () \<Longrightarrow> in_field d p \<Longrightarrow> p < 8 * n"
  by (auto simp: ValidateDefinition_iff layout_ok_def in_field_def)

definition fields_apart :: "FieldDefinition \<Rightarrow> FieldDefinition \<Rightarrow> bool" where
  "fields_apart f g \<longleftrightarrow> bit_offset f + 8 * byte_offset f + bit_width f \<le> 8 * byte_offset g + bit_offset g \<or>
     8 * byte_offset g + bit_offset g + bit_width g \<le> 8 * byte_offset f + bit_offset f"

lemma fields_apart_bits: "fields_apart f g \<Longrightarrow> in_field f p \<Longrightarrow> \<not> in_field g p"
  by (auto simp: fields_apart_def in_field_def)

lemma encode_changes_Inr:
  assumes "encode_changes rec fs changes = Inr rec'" and "length fs = length changes"
    and "\<forall>f \<in> set fs. ValidateDefinition (length rec) f = Inr ()"
  shows "length rec' = length rec \<and>
    (\<forall>p < 8 * length rec. list_all (\<lambda>f. \<not> in_field f p) fs \<longrightarrow> record_bit rec' p = record_bit rec p) \<and>
    (sorted_wrt fields_apart fs \<longrightarrow> list_all2 (\<lambda>f change. DecodeField rec' f = Inr (change_value change)) fs changes)"
  using assms(2,1,3)
proof (induction fs changes arbitrary: rec rule: list_induct2)
  case (Cons f fs change changes)
  then obtain rec1 where e: "EncodeField rec f (change_value change) = Inr rec1" and rest: "encode_changes rec1 fs changes = Inr rec'"
    by (auto simp: bindE_Inr_iff)
  have v: "ValidateDefinition (length rec) f = Inr ()" using Cons.prems by simp
  have len: "length rec1 = length rec" using e by (auto simp: EncodeField_Inr [OF v])
  have IH: "length rec' = length rec1"
    "\<forall>p < 8 * length rec1. list_all (\<lambda>f. \<not> in_field f p) fs \<longrightarrow> record_bit rec' p = record_bit rec1 p"
    "sorted_wrt fields_apart fs \<longrightarrow> list_all2 (\<lambda>f change. DecodeField rec' f = Inr (change_value change)) fs changes"
    using Cons.IH [OF rest] Cons.prems(2) len by simp_all
  have "record_bit rec' p = record_bit rec p" if "p < 8 * length rec" "list_all (\<lambda>f. \<not> in_field f p) (f # fs)" for p
    using IH(2) encode_frame [OF v e] that len by simp
  moreover have "DecodeField rec' f = Inr (change_value change)" if "sorted_wrt fields_apart (f # fs)"
  proof -
    have "DecodeField rec' f = DecodeField rec1 f"
    proof (rule DecodeField_cong)
      fix p
      assume p: "in_field f p"
      then have "list_all (\<lambda>f. \<not> in_field f p) fs"
        using that fields_apart_bits by (auto simp: list_all_iff)
      then show "record_bit rec' p = record_bit rec1 p" using IH(2) in_field_bound [OF v p] len by simp
    qed (use v len IH(1) in simp_all)
    then show ?thesis using decode_encoded [OF v e] by simp
  qed
  ultimately show ?case using IH(1,3) len by simp
qed simp

section \<open>Reads and plans\<close>

lemma find_fields_Some:
  "find_fields schema t names = Some fs \<Longrightarrow> list_all2 (\<lambda>name f. FindField schema t name = Some f) names fs"
  by (induction names arbitrary: fs) (auto split: option.splits)

lemma field_values_Some:
  "field_values value_of names fs = Some vs \<Longrightarrow> length names = length fs \<Longrightarrow>
   map nf_name vs = names \<and> list_all2 (\<lambda>f v. value_of f = Some (nf_value v)) fs vs"
proof (induction names arbitrary: fs vs)
  case (Cons name names)
  then obtain f fs' where "fs = f # fs'" by (cases fs) auto
  with Cons show ?case by (auto split: option.splits)
qed simp

lemma field_values_found:
  assumes "find_fields schema t names = Some fs" and "field_values value_of names fs = Some vs"
  shows "map nf_name vs = names \<and>
    (\<forall>v \<in> set vs. \<exists>f. FindField schema t (nf_name v) = Some f \<and> value_of f = Some (nf_value v))"
proof -
  note found = find_fields_Some [OF assms(1)]
  then have len: "length names = length fs" by (rule list_all2_lengthD)
  note vals = field_values_Some [OF assms(2) len]
  have "\<exists>f. FindField schema t (nf_name v) = Some f \<and> value_of f = Some (nf_value v)" if "v \<in> set vs" for v
  proof -
    from that obtain i where i: "i < length vs" "v = vs ! i" by (auto simp: in_set_conv_nth)
    from vals i have l: "i < length fs" "i < length names" "names ! i = nf_name v" "value_of (fs ! i) = Some (nf_value v)"
      using len by (auto simp: list_all2_conv_all_nth)
    from found l have "FindField schema t (nf_name v) = Some (fs ! i)" by (auto simp: list_all2_conv_all_nth)
    with l show ?thesis by blast
  qed
  with vals show ?thesis by blast
qed

lemma read_result_ok: "frr_ok (read_result vs) \<Longrightarrow> vs = Some (frr_fields (read_result vs))"
  by (auto simp: read_result_def read_failed_def split: option.splits)

context memory_backend
begin

lemma read_record_bytes:
  assumes "read_record backend address n s = (Some bytes, s')"
  shows "bytes = mem_read (mem s') address n \<and> mem s' = mem s"
proof -
  obtain ok t where t: "Validate backend s address n False = (ok, t)" by (metis surj_pair)
  with assms have r: "Read backend t address n = (Some bytes, s')" by (auto simp: read_record_def split: if_splits)
  show ?thesis
    using validate_mem [of s address n False] read_bytes [of t address n bytes] read_mem [of t address n] t r by simp
qed

lemma ReadFields_ok:
  assumes run: "ReadFields a h row names c s = (r, c', s')" and ok: "frr_ok r" and a: "accessor_memory a = backend"
  shows "\<exists>d table address. Resolve c' h = Some d \<and> SchemaFor (accessor_schema a) d = Some table \<and>
    RowAddress d row = Some address \<and> map nf_name (frr_fields r) = names \<and>
    (\<forall>v \<in> set (frr_fields r). \<exists>f. FindField (accessor_schema a) (schema_table_id table) (nf_name v) = Some f \<and>
       (if storage d = kIndexedReferenceArray then indexed_value c' (handle_generation h) d row f
        else decoded_value c' (handle_generation h) (canonical_record d (mem_read (mem s') address (record_size table))) f)
         = Some (nf_value v))"
proof -
  obtain ok1 ev c1 s1 where rv: "Revalidate (validation_backend a) c s = ((ok1, ev, c1), s1)" by (metis surj_pair)
  have ok1: "ok1" using run ok rv by (cases ok1) (auto simp: ReadFields_def read_failed_def)
  obtain d where d: "Resolve c1 h = Some d"
    using run ok rv ok1 by (auto simp: ReadFields_def read_failed_def split: option.splits)
  obtain table where table: "SchemaFor (accessor_schema a) d = Some table"
    using run ok rv ok1 d by (auto simp: ReadFields_def read_failed_def split: option.splits)
  obtain address where address: "RowAddress d row = Some address"
    using run ok rv ok1 d table by (auto simp: ReadFields_def read_failed_def split: option.splits)
  obtain fs where fs: "find_fields (accessor_schema a) (schema_table_id table) names = Some fs"
    using run ok rv ok1 d table address
    by (cases "find_fields (accessor_schema a) (schema_table_id table) names")
      (auto simp: ReadFields_def read_failed_def split: if_splits)
  have names: "names \<noteq> []"
    using run ok rv ok1 d table address by (cases "names = []") (auto simp: ReadFields_def read_failed_def)
  have "\<exists>value_of. field_values value_of names fs = Some (frr_fields r) \<and> c' = c1 \<and>
      value_of = (if storage d = kIndexedReferenceArray then indexed_value c' (handle_generation h) d row
        else decoded_value c' (handle_generation h) (canonical_record d (mem_read (mem s') address (record_size table))))"
  proof (cases "storage d = kIndexedReferenceArray")
    case True
    then show ?thesis using run ok rv ok1 d table address fs names
      by (auto simp: ReadFields_def read_failed_def read_result_def split: if_splits option.splits)
  next
    case False
    obtain bytes t where bytes: "read_record backend address (record_size table) s1 = (bytes, t)" by (metis surj_pair)
    show ?thesis
    proof (cases bytes)
      case None
      then show ?thesis using run ok rv ok1 d table address fs names False bytes a
        by (auto simp: ReadFields_def read_failed_def)
    next
      case (Some raw)
      then have "r = read_result (field_values (decoded_value c1 (handle_generation h) (canonical_record d raw)) names fs)"
          "c' = c1" "s' = t"
        using run rv ok1 d table address fs names False bytes a by (auto simp: ReadFields_def)
      moreover have "raw = mem_read (mem t) address (record_size table)"
        using read_record_bytes bytes Some by blast
      ultimately show ?thesis using read_result_ok ok False by auto
    qed
  qed
  then obtain value_of where v: "field_values value_of names fs = Some (frr_fields r)" "c' = c1"
      "value_of = (if storage d = kIndexedReferenceArray then indexed_value c' (handle_generation h) d row
        else decoded_value c' (handle_generation h) (canonical_record d (mem_read (mem s') address (record_size table))))"
    by blast
  note found = field_values_found [OF fs v(1)]
  have "(if storage d = kIndexedReferenceArray then indexed_value c' (handle_generation h) d row f
        else decoded_value c' (handle_generation h) (canonical_record d (mem_read (mem s') address (record_size table))) f)
      = value_of f" for f by (simp add: v(3))
  with found d table address v(2) show ?thesis by auto
qed

end

lemma change_definitions_Some:
  "change_definitions schema t c g names changes = Some fs \<Longrightarrow>
   list_all2 (\<lambda>f change. FindField schema t (change_name change) = Some f \<and> ValidReference c g f (change_value change))
     fs changes \<and> distinct (map change_name changes) \<and> names \<inter> change_name ` set changes = {}"
proof (induction changes arbitrary: names fs)
  case (Cons change changes)
  then obtain f fs' where f: "change_name change \<notin> names" "FindField schema t (change_name change) = Some f"
      "ValidReference c g f (change_value change)" "fs = f # fs'"
      "change_definitions schema t c g (insert (change_name change) names) changes = Some fs'"
    by (auto split: if_splits option.splits)
  from Cons.IH [OF f(5)] f(1-4) show ?case by auto
qed simp

lemma PlanFieldWrites_ok:
  assumes run: "PlanFieldWrites a h row changes c s = (p, c', s')" and ok: "plan_ok p"
  obtains d table address fs original replacement s1 where
    "Resolve c' h = Some d" "SchemaFor (accessor_schema a) d = Some table" "RowAddress d row = Some address"
    "cd_authority d = kDirectVerified" "changes \<noteq> []"
    "change_definitions (accessor_schema a) (schema_table_id table) c' (handle_generation h) {} changes = Some fs"
    "read_record (accessor_memory a) address (record_size table) s1 = (Some original, s')"
    "encode_changes (canonical_record d original) fs changes = Inr replacement"
    "plan_operations p = map (run_operation address) (difference_runs 0 original (canonical_record d replacement))"
    "Revalidate (validation_backend a) c s = ((True, plan_evidence p, c'), s1)"
proof -
  obtain ok1 ev c1 s1 where rv: "Revalidate (validation_backend a) c s = ((ok1, ev, c1), s1)" by (metis surj_pair)
  note simps = PlanFieldWrites_def plan_failed_def Let_def
  have ok1: "ok1" using run ok rv by (cases ok1) (auto simp: simps)
  obtain d where d: "Resolve c1 h = Some d"
    using run ok rv ok1 by (cases "Resolve c1 h") (auto simp: simps)
  obtain table where table: "SchemaFor (accessor_schema a) d = Some table"
    using run ok rv ok1 d by (cases "SchemaFor (accessor_schema a) d") (auto simp: simps)
  have auth: "cd_authority d = kDirectVerified"
    using run ok rv ok1 d table by (cases "cd_authority d = kDirectVerified") (auto simp: simps)
  obtain address where address: "RowAddress d row = Some address"
    using run ok rv ok1 d table auth by (cases "RowAddress d row") (auto simp: simps)
  have ne: "changes \<noteq> []"
    using run ok rv ok1 d table auth address by (cases "changes = []") (auto simp: simps)
  let ?defs = "change_definitions (accessor_schema a) (schema_table_id table) c1 (handle_generation h) {} changes"
  obtain fs where fs: "?defs = Some fs"
    using run ok rv ok1 d table auth address ne by (cases ?defs) (auto simp: simps)
  obtain bytes t where bytes: "read_record (accessor_memory a) address (record_size table) s1 = (bytes, t)" by (metis surj_pair)
  obtain original where original: "bytes = Some original"
    using run ok rv ok1 d table auth address ne fs bytes by (cases bytes) (auto simp: simps)
  obtain replacement where replacement: "encode_changes (canonical_record d original) fs changes = Inr replacement"
    using run ok rv ok1 d table auth address ne fs bytes original
    by (cases "encode_changes (canonical_record d original) fs changes") (auto simp: simps)
  have "c' = c1 \<and> s' = t \<and> plan_evidence p = ev \<and>
      plan_operations p = map (run_operation address) (difference_runs 0 original (canonical_record d replacement))"
    using run ok rv ok1 d table auth address ne fs bytes original replacement by (auto simp: simps split: if_splits)
  then have eqs: "c' = c1" "s' = t" "plan_evidence p = ev"
      "plan_operations p = map (run_operation address) (difference_runs 0 original (canonical_record d replacement))"
    by blast+
  show thesis
    using d table address auth ne fs bytes original replacement rv ok1
    by (intro that [of d table address fs s1 original replacement]; simp add: eqs)
qed

section \<open>A planned write, assembled and run\<close>

lemma canonical_record_length [simp]: "length (canonical_record d bytes) = length bytes"
  by (simp add: canonical_record_def SwapWords_def)

lemma canonical_record_twice [simp]: "canonical_record d (canonical_record d bytes) = bytes"
  by (simp add: canonical_record_def SwapWords_def)

lemma run_operation_simps [simp]:
  "op_kind (run_operation address run) = kWrite"
  "input_address (run_operation address (i, e, r)) = address + word_of_nat i"
  "op_expected (run_operation address (i, e, r)) = e"
  "op_replacement (run_operation address (i, e, r)) = r"
  by (simp_all add: run_operation_def input_address_def split: prod.splits)

lemma guard_operation_kind [simp]: "op_kind (guard_operation g) = kVerifyOnly"
  by (simp add: guard_operation_def)

text \<open>The bytes a plan writes are the bytes that differ.\<close>

lemma planned_writes:
  assumes "plan_operations p = map (run_operation address) (difference_runs 0 original live)"
    and len: "length original = length live"
  shows "x \<in> input_writes [p] \<longleftrightarrow> (\<exists>j < length original. x = address + word_of_nat j \<and> original ! j \<noteq> live ! j)"
proof
  assume "x \<in> input_writes [p]"
  then obtain q where q: "q \<in> set (inputs_of p)" "op_kind q = kWrite" "x \<in> input_range q"
    by (auto simp: input_writes_def)
  then have "q \<in> set (plan_operations p)" by (auto simp: inputs_of_def)
  then obtain i e r where run: "(i, e, r) \<in> set (difference_runs 0 original live)" "q = run_operation address (i, e, r)"
    using assms(1) by auto
  from q(3) run(2) obtain t where t: "t < length e" "x = address + word_of_nat i + word_of_nat t"
    by (auto simp: input_range_def mem_range_def)
  note sound = difference_runs_sound [OF len run(1)]
  from sound t(1) have "original ! (i + t) \<noteq> live ! (i + t)" by auto
  moreover have "i + t < length original" using sound t(1) by linarith
  ultimately show "\<exists>j < length original. x = address + word_of_nat j \<and> original ! j \<noteq> live ! j"
    using t(2) by (intro exI [of _ "i + t"]) (simp add: add.assoc)
next
  assume "\<exists>j < length original. x = address + word_of_nat j \<and> original ! j \<noteq> live ! j"
  then obtain j where j: "j < length original" "x = address + word_of_nat j" "original ! j \<noteq> live ! j" by blast
  from difference_runs_complete [OF len j(1,3), of 0] obtain i e r where
    run: "(i, e, r) \<in> set (difference_runs 0 original live)" "i \<le> j" "j < i + length e" by auto
  let ?q = "run_operation address (i, e, r)"
  have "?q \<in> set (inputs_of p)" using run(1) assms(1) by (force simp: inputs_of_def)
  moreover have "x \<in> input_range ?q"
  proof -
    have "x = address + word_of_nat i + word_of_nat (j - i)" using j(2) run(2) by (simp add: of_nat_diff)
    moreover have "j - i < length e" using run(2,3) by linarith
    ultimately show ?thesis by (auto simp: input_range_def mem_range_def)
  qed
  ultimately show "x \<in> input_writes [p]" by (auto simp: input_writes_def intro!: bexI [of _ ?q])
qed

context memory_backend
begin

lemma planned_bytes:
  assumes ops: "plan_operations p = map (run_operation address) (difference_runs 0 original live)"
    and len: "length original = length live" "length original < 2 ^ 64"
    and f: "finalize_operations c [p] = Inr ops"
    and run: "RunTransaction request backend t = (r, t')" "tr_status r = kAppliedVerified" "tx_operations request = ops"
    and before: "mem_read (mem t) address (length original) = original"
  shows "mem_read (mem t') address (length original) = live"
proof (rule nth_equalityI)
  fix j
  assume "j < length (mem_read (mem t') address (length original))"
  then have j: "j < length original" by simp
  let ?x = "address + word_of_nat j"
  have orig: "mem t ?x = original ! j" using mem_read_nth [OF j, of "mem t" address] before by simp
  have uniq: "i = j" if "i < length original" "?x = address + word_of_nat i" for i
  proof -
    have "unat (word_of_nat j :: addr) = j" "unat (word_of_nat i :: addr) = i"
      using j that(1) len(2) by (simp_all add: unat_of_nat_u64)
    moreover have "(word_of_nat j :: addr) = word_of_nat i" using that(2) by (rule add_left_imp_eq)
    ultimately show ?thesis by metis
  qed
  have "mem t' ?x = live ! j"
  proof (cases "original ! j = live ! j")
    case True
    then have "?x \<notin> input_writes [p]" using planned_writes [OF ops len(1), of ?x] uniq by blast
    with assembled_frame [OF f run, of ?x] orig True show ?thesis by simp
  next
    case False
    from difference_runs_complete [OF len(1) j False, of 0] obtain i e rp where
      d: "(i, e, rp) \<in> set (difference_runs 0 original live)" "i \<le> j" "j < i + length e" by auto
    let ?q = "run_operation address (i, e, rp)"
    have x: "?x = address + word_of_nat i + word_of_nat (j - i)" using d(2) by (simp add: of_nat_diff)
    have ji: "j - i < length e" using d(2,3) by linarith
    have q: "?q \<in> set (concat (map inputs_of [p]))" using d(1) ops by (force simp: inputs_of_def)
    have "?x \<in> input_range ?q" using x ji by (auto simp: input_range_def mem_range_def)
    from assembled_byte [OF f run q this] have "mem t' ?x = input_replacement_at ?q ?x" by simp
    moreover have "length e < 2 ^ 64" using difference_runs_sound [OF len(1) d(1)] len(2) by linarith
    then have "unat (?x - (address + word_of_nat i)) = j - i" using ji unfolding x by (simp add: unat_of_nat_u64)
    ultimately have "mem t' ?x = rp ! (j - i)" by (simp add: input_replacement_at_def)
    with difference_runs_sound [OF len(1) d(1)] ji d(2) show ?thesis by auto
  qed
  then show "mem_read (mem t') address (length original) ! j = live ! j" using mem_read_nth [OF j] by simp
qed (simp add: len)

end

section \<open>The smoke backend as a memory\<close>

fun linear_store :: "(addr \<Rightarrow> byte option) \<Rightarrow> addr \<Rightarrow> byte list \<Rightarrow> addr \<Rightarrow> byte option" where
  "linear_store m a [] = m"
| "linear_store m a (b # bs) = linear_store (m(a \<mapsto> b)) (a + 1) bs"

definition linear_Write :: "linear_state \<Rightarrow> addr \<Rightarrow> byte list \<Rightarrow> bool \<times> linear_state" where
  "linear_Write s a input =
     (let s = s\<lparr>linear_state.write_calls := Suc (linear_state.write_calls s)\<rparr>
      in if \<not> linear_Validate s a (length input) then (False, s)
         else (True, s\<lparr>linear_bytes := linear_store (linear_bytes s) a input\<rparr>))"

definition linear_memory_backend :: "linear_state MemoryBackend" where
  "linear_memory_backend =
     \<lparr>Validate = \<lambda>s a n _. (linear_Validate s a n, s), Read = \<lambda>s a n. (linear_Read s a n, s), Write = linear_Write\<rparr>"

lemma linear_store_mem:
  "(\<lambda>x. case linear_store m a bs x of Some b \<Rightarrow> b | None \<Rightarrow> 0) = mem_write (\<lambda>x. case m x of Some b \<Rightarrow> b | None \<Rightarrow> 0) a bs"
proof (induction bs arbitrary: m a)
  case (Cons b bs)
  have "(\<lambda>x. case (m(a \<mapsto> b)) x of Some b \<Rightarrow> b | None \<Rightarrow> 0) = (\<lambda>x. case m x of Some b \<Rightarrow> b | None \<Rightarrow> 0)(a := b)"
    by auto
  then show ?case by (simp only: linear_store.simps Cons.IH mem_write.simps)
qed simp

lemma linear_Write_mem:
  "linear_mem (snd (linear_Write s a bytes)) =
     (if linear_Validate s a (length bytes) then mem_write (linear_mem s) a bytes else linear_mem s)"
proof -
  have "linear_mem s = (\<lambda>x. case linear_bytes s x of Some b \<Rightarrow> b | None \<Rightarrow> 0)" for s
    by (rule ext) (simp add: linear_mem_def)
  then show ?thesis
    using linear_store_mem [of "linear_bytes s" a bytes] by (simp add: linear_Write_def linear_Validate_def Let_def)
qed

lemma linear_Write_ok: "fst (linear_Write s a bytes) = linear_Validate s a (length bytes)"
  by (simp add: linear_Write_def linear_Validate_def Let_def)

interpretation linear_memory: memory_backend linear_memory_backend linear_mem
  by unfold_locales
    (auto simp: linear_memory_backend_def linear_Write_mem linear_Write_ok linear_Read_bytes mem_write_outside)

lemma linear_store_dom: "linear_store m a bs x \<noteq> None \<longleftrightarrow> m x \<noteq> None \<or> x \<in> mem_range a (length bs)"
  by (induction bs arbitrary: m a) (auto simp: mem_range_Suc)

lemma linear_Write_Validate: "linear_Validate (snd (linear_Write s a bytes)) = linear_Validate s"
proof -
  have "linear_bytes (snd (linear_Write s a bytes)) x \<noteq> None \<longleftrightarrow> linear_bytes s x \<noteq> None" for x
    unfolding linear_Write_def Let_def using linear_store_dom [of "linear_bytes s" a bytes x]
    by (auto simp: linear_Validate_def mem_range_def list_all_iff)
  then show ?thesis by (auto simp: linear_Validate_def fun_eq_iff)
qed

interpretation linear_reliable: reliable_backend linear_memory_backend linear_mem "\<lambda>s a n w. linear_Validate s a n"
  by unfold_locales
    (auto simp: linear_memory_backend_def linear_Read_def linear_Write_ok linear_Write_Validate)

section \<open>An assembled request on a reliable backend\<close>

lemma assembled_expected:
  assumes f: "finalize_operations c plans = Inr ops"
  shows "(\<forall>p \<in> set ops. mem_read m (address_of p) (length (op_expected p)) = op_expected p) \<longleftrightarrow>
    (\<forall>q \<in> set (concat (map inputs_of plans)). mem_read m (input_address q) (length (op_expected q)) = op_expected q)"
    (is "?ops \<longleftrightarrow> ?inputs")
proof -
  let ?qs = "concat (map inputs_of plans)"
  have sf: "stands_for ops ?qs" and wf: "\<And>p. p \<in> set ops \<Longrightarrow> wf_operation p"
    using finalize_operations_Inr [OF f] by (auto simp: list_all_iff)
  have at_p: "mem_read m (address_of p) (length (op_expected p)) = op_expected p \<longleftrightarrow> (\<forall>x \<in> range_set p. m x = expected_at p x)"
    if "p \<in> set ops" for p
    using read_expected [of "op_expected p" m "address_of p"] wf_operationD(4) [OF wf [OF that]]
    by (simp add: range_set_def expected_at_def)
  have at_q: "mem_read m (input_address q) (length (op_expected q)) = op_expected q \<longleftrightarrow>
      (\<forall>x \<in> input_range q. m x = input_expected_at q x)" if "q \<in> set ?qs" for q
  proof -
    have "length (op_expected q) < 2 ^ 64" using finalize_input_ok [OF f that] by (simp add: input_ok_def)
    then show ?thesis using read_expected [of "op_expected q" m "input_address q"]
      by (simp add: input_range_def input_expected_at_def)
  qed
  have cover: "\<Union> (range_set ` set ops) = \<Union> (input_range ` set ?qs)"
    and agree: "\<And>p q x. p \<in> set ops \<Longrightarrow> q \<in> set ?qs \<Longrightarrow> x \<in> range_set p \<Longrightarrow> x \<in> input_range q \<Longrightarrow>
      expected_at p x = input_expected_at q x"
    using sf unfolding stands_for_def by blast+
  have "?ops \<longleftrightarrow> (\<forall>p \<in> set ops. \<forall>x \<in> range_set p. m x = expected_at p x)" using at_p by blast
  also have "\<dots> \<longleftrightarrow> (\<forall>q \<in> set ?qs. \<forall>x \<in> input_range q. m x = input_expected_at q x)"
  proof (intro iffI ballI)
    fix q x
    assume h: "\<forall>p \<in> set ops. \<forall>x \<in> range_set p. m x = expected_at p x" and q: "q \<in> set ?qs" "x \<in> input_range q"
    from cover q obtain p where "p \<in> set ops" "x \<in> range_set p" by blast
    with h agree [OF _ q(1) _ q(2)] show "m x = input_expected_at q x" by metis
  next
    fix p x
    assume h: "\<forall>q \<in> set ?qs. \<forall>x \<in> input_range q. m x = input_expected_at q x" and p: "p \<in> set ops" "x \<in> range_set p"
    from cover p obtain q where "q \<in> set ?qs" "x \<in> input_range q" by blast
    with h agree [OF p(1) _ p(2)] show "m x = expected_at p x" by metis
  qed
  also have "\<dots> \<longleftrightarrow> ?inputs" using at_q by blast
  finally show ?thesis .
qed

section \<open>Where a row is\<close>

lemma RowAddress_iff:
  assumes "row < 2 ^ 64" "stride d < 2 ^ 64"
  shows "RowAddress d row =
    (if row < capacity d \<and> unat (base_address d) + row * stride d < 2 ^ 64
     then Some (base_address d + word_of_nat (row * stride d)) else None)"
proof -
  have m: "mult64 row (stride d) = word_of_nat (row * stride d)" by (simp add: mult64_def)
  have u: "unat (word_of_nat row :: u64) = row" "unat (word_of_nat (stride d) :: u64) = stride d"
    using assms by (simp_all add: unat_of_nat_u64)
  have guard: "row \<noteq> 0 \<and> (word_of_nat (stride d) :: u64) > max_u64 div word_of_nat row \<longleftrightarrow> 2 ^ 64 \<le> row * stride d"
  proof (cases "row = 0")
    case False
    have "unat (max_u64 div word_of_nat row) = (2 ^ 64 - 1) div row"
      by (simp only: unat_div unat_max_u64 u)
    then have "(word_of_nat (stride d) :: u64) > max_u64 div word_of_nat row \<longleftrightarrow> (2 ^ 64 - 1) div row < stride d"
      by (simp only: word_less_nat_alt u)
    also have "\<dots> \<longleftrightarrow> 2 ^ 64 - 1 < stride d * row" using False by (simp only: div_less_iff_less_mult)
    also have "\<dots> \<longleftrightarrow> 2 ^ 64 \<le> row * stride d" by (simp add: mult.commute [of "stride d"] less_eq_Suc_le)
    finally show ?thesis using False by simp
  qed simp
  show ?thesis
  proof (cases "row < capacity d \<and> row * stride d < 2 ^ 64")
    case True
    then have "unat (word_of_nat (row * stride d) :: u64) = row * stride d" by (intro unat_of_nat_u64) simp
    then have "(word_of_nat (row * stride d) :: u64) > max_u64 - base_address d \<longleftrightarrow>
        2 ^ 64 \<le> unat (base_address d) + row * stride d" by (simp only: add_guard)
    with True guard show ?thesis unfolding RowAddress_def m Let_def by auto
  next
    case False
    with guard show ?thesis unfolding RowAddress_def by auto
  qed
qed

section \<open>Properties\<close>

text \<open>A write of 5 into the speed of the third player of the sample table.\<close>

definition sample_accessor :: "linear_state RecordAccessor" where
  "sample_accessor = \<lparr>accessor_schema = sample_registry, validation_backend = LinearBackend,
     accessor_memory = linear_memory_backend\<rparr>"

definition sample_guards :: "CatalogEvidenceGuard list" where
  "sample_guards = [\<lparr>guard_address = 0x1000, guard_expected = [1, 2, 3, 4]\<rparr>,
     \<lparr>guard_address = 0x1004, guard_expected = [5, 6, 7, 8]\<rparr>, \<lparr>guard_address = 0x1014, guard_expected = [9, 10, 11, 12]\<rparr>]"

definition sample_write_plan :: FieldWritePlan where
  "sample_write_plan = \<lparr>plan_ok = True, plan_code = [], plan_evidence =
     \<lparr>snapshot_generation = 1, active_unique_ids = [77], guards = sample_guards\<rparr>,
     plan_operations = [run_operation 0x1008 (1, [0, 0], [1, 0x40])]\<rparr>"

definition sample_changes :: "FieldChange list" where
  "sample_changes = [\<lparr>change_name = ''SpeedRating'', change_value = Numeric 5\<rparr>]"

abbreviation sample_table_handle :: TableHandle where
  "sample_table_handle \<equiv> \<lparr>handle_unique_id = 77, handle_generation = 1\<rparr>"

lemma sample_snapshot:
  "snapshot_of sample_catalog (fst (read_evidence LinearBackend sample_catalog (sample_linear sample_bytes))) =
     plan_evidence sample_write_plan"
proof -
  have l: "length sample_bytes = 24" by (simp add: sample_bytes_def)
  show ?thesis unfolding sample_evidence [OF l]
    by (simp add: snapshot_of_def sample_write_plan_def sample_catalog_eq sample_entry_def guards_of_def sample_plan_def
       sample_rows_def sample_guards_def sample_bytes_def)
qed

lemma sample_finalized:
  "finalize_operations sample_catalog [sample_write_plan] = Inr
     (map guard_operation (take 2 sample_guards) @ plan_operations sample_write_plan @ [guard_operation (sample_guards ! 2)])"
proof -
  have active: "EvidenceIsActive sample_catalog (plan_evidence sample_write_plan)"
    by (simp add: EvidenceIsActive_def sample_catalog_eq sample_write_plan_def sample_entry_def)
  show ?thesis
    using active
    by (simp add: finalize_operations_def plan_stale_def sample_write_plan_def sample_guards_def guard_operation_def
        run_operation_def AddOperationConstraints_def operation_bytes_def constrain_def sort_ranges_def
        component_operation_def kMaxOperationBytes_def kMaxTransactionOperations_def kMaxTransactionBytes_def upt_rec Let_def)
qed

lemma sample_codec:
  "DecodeField [0, 1, 0x40, 0] sample_field = Inr (Numeric 5)"
  "DecodeField [0, 0, 0, 0] sample_field = Inr (Numeric 0)"
  "EncodeField [0, 0, 0, 0] sample_field (Numeric 5) = Inr [0, 1, 0x40, 0]"
  by code_simp+

lemma sample_bytes_eq:
  "sample_bytes = [1, 2, 3, 4, 5, 6, 7, 8, 0, 0, 0, 0, 0, 0, 0, 0, 0, 0, 0, 0, 9, 10, 11, 12]"
  by code_simp

lemma sample_read:
  "read_record linear_memory_backend 0x1008 4 (sample_linear sample_bytes) =
     (Some [0, 0, 0, 0], sample_linear sample_bytes)"
  by (simp add: read_record_def linear_memory_backend_def linear_Read_def linear_Validate_def sample_linear_def
      sample_bytes_eq upt_rec)

lemma sample_lookup:
  "SchemaFor sample_registry (entry_descriptor sample_entry) = Some (hd (schema_tables sample_registry))"
  "RowAddress (entry_descriptor sample_entry) 2 = Some 0x1008"
  "FindField sample_registry 4256 ''SpeedRating'' = Some sample_field"
  "ValidReference c g sample_field v"
  by (simp_all add: SchemaFor_def FindTable_def FindField_def sample_registry_def sample_entry_def RowAddress_def
      mult64_def Let_def sample_field_def ValidReference_def)

lemma sample_entry_kind: "cd_authority (entry_descriptor sample_entry) = kDirectVerified"
  "storage (entry_descriptor sample_entry) = kCanonicalRecords"
  by (simp_all add: sample_entry_def)

lemma sample_table_facts: "schema_table_id (hd (schema_tables sample_registry)) = 4256"
  "record_size (hd (schema_tables sample_registry)) = 4"
  by (simp_all add: sample_registry_def)

lemma sample_planned:
  "PlanFieldWrites sample_accessor sample_table_handle 2 sample_changes sample_catalog (sample_linear sample_bytes) =
     (sample_write_plan, sample_catalog, sample_linear sample_bytes)"
  by (simp add: PlanFieldWrites_def sample_accessor_def sample_revalidate sample_handle sample_lookup sample_entry_kind
      sample_table_facts sample_changes_def sample_read canonical_record_def sample_codec difference_runs.simps
      sample_snapshot kMaxTransactionOperations_def Let_def)
    (simp add: sample_write_plan_def)

lemma sample_fields_read:
  "ReadFields sample_accessor sample_table_handle 2 [''SpeedRating''] sample_catalog (sample_linear sample_bytes) =
     (\<lparr>frr_ok = True, frr_code = [], frr_fields = [\<lparr>nf_name = ''SpeedRating'', nf_value = Numeric 0\<rparr>]\<rparr>,
      sample_catalog, sample_linear sample_bytes)"
  by (simp add: ReadFields_def sample_accessor_def sample_revalidate sample_handle sample_lookup sample_entry_kind
      sample_table_facts sample_read canonical_record_def sample_codec read_result_def decoded_value_def Let_def)

abbreviation sample_assembled :: GuardedFieldTransaction where
  "sample_assembled \<equiv> FinalizeFieldTransaction sample_catalog ''smoke.valid-1'' [sample_write_plan]"

lemma sample_assembled_ok: "guarded_ok sample_assembled"
  by (simp add: FinalizeFieldTransaction_def sample_finalized)

lemma sample_id: "IsValidTransactionId ''smoke.valid-1''"
  by (simp add: IsValidTransactionId_def is_id_char_def)

lemma assembled_addresses:
  "address_of (guard_operation g) = guard_address g"
  "address_of (run_operation address (i, e, r)) = address + word_of_nat i"
  "op_expected (guard_operation g) = guard_expected g"
  by (simp_all add: address_of_def guard_operation_def run_operation_def Address_eq ParseAddress_tx_FormatAddress)

definition sample_holds :: "addr \<Rightarrow> byte list \<Rightarrow> bool" where
  "sample_holds a bs \<longleftrightarrow> linear_Validate (sample_linear sample_bytes) a (length bs) \<and>
     mem_read (linear_mem (sample_linear sample_bytes)) a (length bs) = bs"

lemma sample_reads_hold:
  "sample_holds 0x1000 [1, 2, 3, 4]" "sample_holds 0x1004 [5, 6, 7, 8]" "sample_holds 0x1009 [0, 0]"
  "sample_holds 0x1014 [9, 10, 11, 12]"
  by (simp_all add: sample_holds_def linear_Validate_def sample_linear_def sample_bytes_eq mem_read_def linear_mem_def upt_rec)

lemma sample_assembled_usable:
  assumes "p \<in> set (tx_operations (guarded_request sample_assembled))"
  shows "sample_holds (address_of p) (op_expected p)"
proof -
  have "tx_operations (guarded_request sample_assembled) = [guard_operation (sample_guards ! 0),
      guard_operation (sample_guards ! 1), run_operation 0x1008 (1, [0, 0], [1, 0x40]), guard_operation (sample_guards ! 2)]"
    by (simp add: FinalizeFieldTransaction_def sample_finalized) (simp add: sample_guards_def sample_write_plan_def)
  with assms have "p \<in> {guard_operation (sample_guards ! 0), guard_operation (sample_guards ! 1),
      run_operation 0x1008 (1, [0, 0], [1, 0x40]), guard_operation (sample_guards ! 2)}" by simp
  then show ?thesis using sample_reads_hold by (auto simp: assembled_addresses sample_guards_def)
qed

lemma sample_assembled_applied:
  "tr_status (fst (RunTransaction (guarded_request sample_assembled) linear_memory_backend (sample_linear sample_bytes))) =
     kAppliedVerified"
  using linear_reliable.RunTransaction_outcome [of "guarded_request sample_assembled" "sample_linear sample_bytes"]
    finalize_valid_request [OF sample_assembled_ok sample_id] sample_assembled_usable
  by (simp add: sample_holds_def)

text \<open>C17: one atomic write for several plans. When \<open>FinalizeFieldTransaction\<close> accepts a list of plans, its
  request is one that \<open>RunTransaction\<close> accepts, every plan's evidence is active, and on a reliable backend the
  run is applied exactly when every range of the request is usable and every guard and every planned write of
  every plan still finds its expected bytes; otherwise it is rejected. When it refuses the plans the code says
  why, it is \<open>CATALOG_EVIDENCE_STALE\<close> only if the evidence of some plan is not active or not that of the first, and
  only a request that exceeds a limit is left with some operations in it, all of them well formed; its callers
  never run it.\<close>

theorem assembled_outcome:
  assumes "reliable_backend backend mem usable" and "IsValidTransactionId tid"
    and "t = FinalizeFieldTransaction c tid plans"
  shows "if guarded_ok t
    then (\<forall>p \<in> set plans. plan_ok p \<and> EvidenceIsActive c (plan_evidence p)) \<and>
      valid_request (guarded_request t) \<and>
      tr_status (fst (RunTransaction (guarded_request t) backend s)) =
        (if (\<forall>p \<in> set (tx_operations (guarded_request t)).
               usable s (address_of p) (length (op_expected p)) (op_kind p = kWrite)) \<and>
            (\<forall>q \<in> set (concat (map inputs_of plans)).
               mem_read (mem s) (input_address q) (length (op_expected q)) = op_expected q)
         then kAppliedVerified else kRejected)
    else (plans = [] \<and> guarded_code t = kInvalid \<or>
        guarded_code t = ''CATALOG_EVIDENCE_STALE'' \<and> (\<exists>p \<in> set plans. plan_stale c
          (snapshot_generation (plan_evidence (hd plans))) (active_unique_ids (plan_evidence (hd plans))) p) \<or>
        guarded_code t = ''CATALOG_EVIDENCE_AMBIGUOUS'' \<or> guarded_code t = ''TRANSACTION_LIMIT_EXCEEDED'') \<and>
      (tx_operations (guarded_request t) = [] \<or> guarded_code t = ''TRANSACTION_LIMIT_EXCEEDED'') \<and>
      list_all wf_operation (tx_operations (guarded_request t))"
proof (cases "guarded_ok t")
  case True
  then have f: "finalize_operations c plans = Inr (tx_operations (guarded_request t))"
    and v: "valid_request (guarded_request t)"
    using finalize_request(1) finalize_valid_request assms(2,3) by blast+
  note e = assembled_expected [OF f, of "mem s"]
  have "\<forall>p \<in> set plans. plan_ok p \<and> EvidenceIsActive c (plan_evidence p)" using finalize_operations_Inr [OF f] by blast
  then show ?thesis using True v e reliable_backend.RunTransaction_outcome [OF assms(1), of "guarded_request t" s]
    by auto
next
  case False
  then obtain what where f: "finalize_operations c plans = Inl what" and t: "guarded_code t = what"
      "tx_operations (guarded_request t) = refused_operations c plans"
    using assms(3) by (auto simp: FinalizeFieldTransaction_def split: sum.splits)
  show ?thesis using False finalize_refused [OF f] by (simp only: t if_False) blast
qed

theorem assembled_outcome_witness:
  "tr_status (fst (RunTransaction (guarded_request sample_assembled) linear_memory_backend (sample_linear sample_bytes))) =
     kAppliedVerified"
  using assembled_outcome [OF linear_reliable.reliable_backend_axioms sample_id refl, of sample_catalog "[sample_write_plan]"
      "sample_linear sample_bytes"] sample_assembled_ok sample_assembled_applied by presburger

text \<open>C18: what an applied request did. On any memory backend, when the request assembled from a list of plans
  is applied, every guard and every planned write found its expected bytes, every planned replacement is in
  memory afterwards (also where plans overlap), and no byte changed outside the planned writes, although
  joined operations write more bytes than were planned.\<close>

theorem assembled_writes:
  assumes "memory_backend backend mem" and "guarded_ok (FinalizeFieldTransaction c tid plans)"
    and "RunTransaction (guarded_request (FinalizeFieldTransaction c tid plans)) backend s = (r, s')"
    and "tr_status r = kAppliedVerified"
  shows "(\<forall>q \<in> set (concat (map inputs_of plans)). \<forall>x \<in> input_range q.
      mem s x = input_expected_at q x \<and> (op_kind q = kWrite \<longrightarrow> mem s' x = input_replacement_at q x)) \<and>
    (\<forall>x. x \<notin> input_writes plans \<longrightarrow> mem s' x = mem s x)"
proof -
  note f = finalize_request(1) [OF assms(2)]
  from memory_backend.assembled_byte [OF assms(1) f assms(3,4) refl]
    memory_backend.assembled_frame [OF assms(1) f assms(3,4) refl]
  show ?thesis by blast
qed

lemma sample_run_pair:
  obtains r s' where "RunTransaction (guarded_request sample_assembled) linear_memory_backend (sample_linear sample_bytes) = (r, s')"
    "tr_status r = kAppliedVerified"
  using sample_assembled_applied
  by (cases "RunTransaction (guarded_request sample_assembled) linear_memory_backend (sample_linear sample_bytes)") simp

theorem assembled_writes_witness:
  "\<exists>s'. snd (RunTransaction (guarded_request sample_assembled) linear_memory_backend (sample_linear sample_bytes)) = s' \<and>
     linear_mem s' 0x1009 = 1 \<and> linear_mem s' 0x100A = 0x40"
proof -
  obtain r s' where run:
      "RunTransaction (guarded_request sample_assembled) linear_memory_backend (sample_linear sample_bytes) = (r, s')"
      "tr_status r = kAppliedVerified" by (rule sample_run_pair)
  let ?q = "run_operation 0x1008 (1, [0, 0], [1, 0x40])"
  have q: "?q \<in> set (concat (map inputs_of [sample_write_plan]))" by (simp add: inputs_of_def sample_write_plan_def)
  have x: "0x1009 \<in> input_range ?q" "0x100A \<in> input_range ?q"
    by (auto simp: input_range_def mem_range_iff)
  have "input_replacement_at ?q 0x1009 = 1" "input_replacement_at ?q 0x100A = 0x40"
    by (simp_all add: input_replacement_at_def)
  with assembled_writes [OF linear_memory.memory_backend_axioms sample_assembled_ok run] q x run(1)
  show ?thesis by (metis run_operation_simps(1) snd_conv)
qed

text \<open>C19: reading by handle. On any memory backend, a read that succeeds resolved the handle after the
  revalidation, answers exactly the names asked for in their order, and gives for each the value its field has
  in the record: decoded from the bytes of the row in memory (with the words swapped back where the table
  stores them swapped), or, for an indexed array, the reference to the slot that the row and the field name.
  Every reference it gives is to a row of an active table.\<close>

theorem ReadFields_decodes:
  assumes "memory_backend (accessor_memory a) mem" and "ReadFields a h row names c s = (r, c', s')" and "frr_ok r"
  shows "\<exists>d table address. Resolve c' h = Some d \<and> SchemaFor (accessor_schema a) d = Some table \<and>
    RowAddress d row = Some address \<and> map nf_name (frr_fields r) = names \<and>
    (\<forall>v \<in> set (frr_fields r). \<exists>f. FindField (accessor_schema a) (schema_table_id table) (nf_name v) = Some f \<and>
       ValidReference c' (handle_generation h) f (nf_value v) \<and>
       (if storage d = kIndexedReferenceArray
        then \<exists>target. virtual_target_table_id d = Some target \<and> reference_table_id f = Some target \<and>
          nf_value v = Reference \<lparr>ref_table_id = target, ref_row_index = row * virtual_width d + byte_offset f div 4\<rparr>
        else DecodeField (canonical_record d (mem_read (mem s') address (record_size table))) f = Inr (nf_value v)))"
proof -
  have indexed: "\<exists>target. virtual_target_table_id d = Some target \<and> reference_table_id f = Some target \<and>
      v = Reference \<lparr>ref_table_id = target, ref_row_index = row * virtual_width d + byte_offset f div 4\<rparr> \<and>
      ValidReference c' g f v" if "indexed_value c' g d row f = Some v" for d g f v
    using that by (auto simp: indexed_value_def Let_def split: option.splits if_splits)
  have decoded: "DecodeField b f = Inr v \<and> ValidReference c' g f v" if "decoded_value c' g b f = Some v" for b g f v
    using that by (auto simp: decoded_value_def split: sum.splits if_splits)
  from memory_backend.ReadFields_ok [OF assms refl] obtain d table address where
    h: "Resolve c' h = Some d" "SchemaFor (accessor_schema a) d = Some table" "RowAddress d row = Some address"
      "map nf_name (frr_fields r) = names" and
    v: "\<And>v. v \<in> set (frr_fields r) \<Longrightarrow> \<exists>f. FindField (accessor_schema a) (schema_table_id table) (nf_name v) = Some f \<and>
       (if storage d = kIndexedReferenceArray then indexed_value c' (handle_generation h) d row f
        else decoded_value c' (handle_generation h) (canonical_record d (mem_read (mem s') address (record_size table))) f)
         = Some (nf_value v)" by blast
  have "\<exists>f. FindField (accessor_schema a) (schema_table_id table) (nf_name v) = Some f \<and>
       ValidReference c' (handle_generation h) f (nf_value v) \<and>
       (if storage d = kIndexedReferenceArray
        then \<exists>target. virtual_target_table_id d = Some target \<and> reference_table_id f = Some target \<and>
          nf_value v = Reference \<lparr>ref_table_id = target, ref_row_index = row * virtual_width d + byte_offset f div 4\<rparr>
        else DecodeField (canonical_record d (mem_read (mem s') address (record_size table))) f = Inr (nf_value v))"
    if "v \<in> set (frr_fields r)" for v
    using v [OF that] indexed decoded by (cases "storage d = kIndexedReferenceArray") (simp_all, blast+)
  with h show ?thesis by blast
qed

theorem ReadFields_decodes_witness:
  "frr_fields (fst (ReadFields sample_accessor sample_table_handle 2 [''SpeedRating''] sample_catalog (sample_linear sample_bytes))) =
     [\<lparr>nf_name = ''SpeedRating'', nf_value = Numeric 0\<rparr>] \<and>
   (\<exists>f address. DecodeField (mem_read (linear_mem (sample_linear sample_bytes)) address 4) f = Inr (Numeric 0))"
proof -
  have m: "memory_backend (accessor_memory sample_accessor) linear_mem"
    using linear_memory.memory_backend_axioms by (simp add: sample_accessor_def)
  have s: "accessor_schema sample_accessor = sample_registry" by (simp add: sample_accessor_def)
  from ReadFields_decodes [OF m sample_fields_read] show ?thesis
    unfolding sample_fields_read s sample_handle
    by (auto simp: sample_lookup sample_entry_kind sample_table_facts canonical_record_def)
qed

text \<open>C16: planned writes end to end. With a well-formed schema, let a plan of field changes be accepted,
  assembled alone and applied at any later time. Then the handle resolved, the changes were encoded one after
  another into the record read when planning, and the run changed nothing outside the record. If the record was
  still as planned, it now is the encoded record, and every change reads back as its value when no two of the
  fields overlap.\<close>

theorem planned_write_lands:
  assumes "memory_backend (accessor_memory a) mem" and "registry_ok (accessor_schema a)"
    and "PlanFieldWrites a h row changes c s = (p, c', s1)" and "plan_ok p"
    and "guarded_ok (FinalizeFieldTransaction c' tid [p])"
    and "RunTransaction (guarded_request (FinalizeFieldTransaction c' tid [p])) (accessor_memory a) t = (r, t')"
    and "tr_status r = kAppliedVerified"
  shows "\<exists>d table address fs rec'. Resolve c' h = Some d \<and> SchemaFor (accessor_schema a) d = Some table \<and>
    RowAddress d row = Some address \<and>
    list_all2 (\<lambda>f change. FindField (accessor_schema a) (schema_table_id table) (change_name change) = Some f \<and>
      ValidReference c' (handle_generation h) f (change_value change)) fs changes \<and>
    encode_changes (canonical_record d (mem_read (mem s1) address (record_size table))) fs changes = Inr rec' \<and>
    (\<forall>x. x \<notin> mem_range address (record_size table) \<longrightarrow> mem t' x = mem t x) \<and>
    (mem_read (mem t) address (record_size table) = mem_read (mem s1) address (record_size table) \<longrightarrow>
       canonical_record d (mem_read (mem t') address (record_size table)) = rec' \<and>
       (sorted_wrt fields_apart fs \<longrightarrow>
          list_all2 (\<lambda>f change. DecodeField (canonical_record d (mem_read (mem t') address (record_size table))) f =
            Inr (change_value change)) fs changes))"
proof -
  from PlanFieldWrites_ok [OF assms(3,4)] obtain d table address fs original replacement s2 where
    d: "Resolve c' h = Some d" "SchemaFor (accessor_schema a) d = Some table" "RowAddress d row = Some address"
    and defs: "change_definitions (accessor_schema a) (schema_table_id table) c' (handle_generation h) {} changes = Some fs"
    and read: "read_record (accessor_memory a) address (record_size table) s2 = (Some original, s1)"
    and enc: "encode_changes (canonical_record d original) fs changes = Inr replacement"
    and ops: "plan_operations p = map (run_operation address) (difference_runs 0 original (canonical_record d replacement))"
    by metis
  note changes = change_definitions_Some [OF defs]
  then have lf: "length fs = length changes" by (auto dest: list_all2_lengthD)
  have orig: "original = mem_read (mem s1) address (record_size table)"
    using memory_backend.read_record_bytes [OF assms(1) read] by blast
  have t: "table \<in> set (schema_tables (accessor_schema a))" "FindTable (accessor_schema a) (schema_table_id table) = Some table"
    using d(2) Prelude.find_Some_iff by (fastforce simp: SchemaFor_def FindTable_def split: option.splits if_splits)+
  then have ok: "table_ok table" using assms(2) by (auto simp: registry_ok_def)
  have "ValidateDefinition (record_size table) f = Inr ()" if "f \<in> set fs" for f
  proof -
    from that obtain i where i: "i < length fs" "f = fs ! i" by (auto simp: in_set_conv_nth)
    have "FindField (accessor_schema a) (schema_table_id table) (change_name (changes ! i)) = Some f"
      using list_all2_nthD [OF conjunct1 [OF changes] i(1)] i(2) by simp
    then have "f \<in> set (schema_fields table)" using t(2) by (auto simp: FindField_def dest: Prelude.find_Some_iff)
    with ok show ?thesis by (simp add: table_ok_def field_ok_def)
  qed
  then have valid: "\<forall>f \<in> set fs. ValidateDefinition (length (canonical_record d original)) f = Inr ()"
    by (simp add: orig)
  note encoded = encode_changes_Inr [OF enc lf valid]
  let ?live = "canonical_record d replacement"
  have len: "length original = length ?live" "length original = record_size table" "length original < 2 ^ 64"
    using encoded ok by (simp_all add: orig table_ok_def)
  note f = finalize_request(1) [OF assms(5)]
  have frame: "mem t' x = mem t x" if x: "x \<notin> mem_range address (record_size table)" for x
  proof (rule memory_backend.assembled_frame [OF assms(1) f assms(6,7) refl])
    show "x \<notin> input_writes [p]" using x len(2) planned_writes [OF ops len(1), of x] by (auto simp: mem_range_def)
  qed
  have lands: "canonical_record d (mem_read (mem t') address (record_size table)) = replacement"
    if "mem_read (mem t) address (record_size table) = mem_read (mem s1) address (record_size table)"
    using memory_backend.planned_bytes [OF assms(1) ops len(1,3) f assms(6,7) refl] that orig len(2) by simp
  show ?thesis
    using d changes enc[unfolded orig] frame lands encoded
    by (intro exI [of _ d] exI [of _ table] exI [of _ address] exI [of _ fs] exI [of _ replacement]) simp
qed

theorem planned_write_lands_witness:
  "\<exists>s'. snd (RunTransaction (guarded_request sample_assembled) linear_memory_backend (sample_linear sample_bytes)) = s' \<and>
     DecodeField (mem_read (linear_mem s') 0x1008 4) sample_field = Inr (Numeric 5)"
proof -
  obtain r s' where run:
      "RunTransaction (guarded_request sample_assembled) linear_memory_backend (sample_linear sample_bytes) = (r, s')"
      "tr_status r = kAppliedVerified" by (rule sample_run_pair)
  have m: "memory_backend (accessor_memory sample_accessor) linear_mem"
      "RunTransaction (guarded_request sample_assembled) (accessor_memory sample_accessor) (sample_linear sample_bytes) = (r, s')"
    using linear_memory.memory_backend_axioms run(1) by (simp_all add: sample_accessor_def)
  have s: "accessor_schema sample_accessor = sample_registry" by (simp add: sample_accessor_def)
  have "registry_ok (accessor_schema sample_accessor)"
    using sample_bundle_ok by (simp add: bundle_ok_def sample_bundle_def s)
  from planned_write_lands [OF m(1) this sample_planned _ sample_assembled_ok m(2) run(2)] show ?thesis
    unfolding s sample_handle run(1)
    by (auto simp: sample_write_plan_def sample_changes_def list_all2_Cons2 sample_lookup sample_entry_kind sample_table_facts
        canonical_record_def)
qed

end
