(* ===== verification/Discovery.thy ===== *)
theory Discovery
  imports Catalog
begin

text \<open>
  Table discovery (frtk_discovery.cpp): where the tables of a profile lie in the process. A table is looked
  for through its live descriptor when the backend can scan for descriptors, and by three rows that stand in
  line otherwise; what is found is read again before it counts, and relationships are checked when all tables
  are done. Operations of the backend thread its state; a deadline that passes ends the discovery with a
  timeout report and no tables. Capacities, row numbers and record sizes are 32-bit in the code: products of
  two of them wrap at 32 bits where the code multiplies them so. A \<open>std::map\<close> by address is a list in
  address order.
\<close>

definition kMaxFingerprintMatches :: nat where "kMaxFingerprintMatches = 8"
definition kMaximumDescriptorBlobBytes :: nat where "kMaximumDescriptorBlobBytes = 64 * 1024 * 1024"
definition kMaximumReadRangeBytes :: nat where "kMaximumReadRangeBytes = 64 * 1024"
definition kMaximumBatchBytes :: nat where "kMaximumBatchBytes = 256 * 1024"
definition kPlayerUniqueId :: nat where "kPlayerUniqueId = 1612938518"
definition kMaxSafeDiagnosticCounter :: nat where "kMaxSafeDiagnosticCounter = 9007199254740991"

record DirectWriteEvidence =
  dw_table_id :: nat
  dw_unique_id :: nat
  dw_record_size :: nat

definition kDirectWriteEvidence :: "DirectWriteEvidence list" where
  "kDirectWriteEvidence =
     [\<lparr>dw_table_id = 4269, dw_unique_id = 1873209313, dw_record_size = 24\<rparr>,
      \<lparr>dw_table_id = 5840, dw_unique_id = 3789266353, dw_record_size = 4\<rparr>,
      \<lparr>dw_table_id = 4168, dw_unique_id = 3987156317, dw_record_size = 36\<rparr>,
      \<lparr>dw_table_id = 4176, dw_unique_id = 3093586546, dw_record_size = 4\<rparr>,
      \<lparr>dw_table_id = 4190, dw_unique_id = 1559900276, dw_record_size = 4\<rparr>,
      \<lparr>dw_table_id = 4251, dw_unique_id = 220276943, dw_record_size = 12\<rparr>]"

definition HasDirectWriteEvidence :: "TableProfile \<Rightarrow> bool" where
  "HasDirectWriteEvidence table \<longleftrightarrow>
     list_ex (\<lambda>e. profile_table_id table = dw_table_id e \<and> profile_unique_id table = dw_unique_id e \<and>
       profile_record_size table = dw_record_size e) kDirectWriteEvidence"

record IndexedArrayLayout =
  layout_target_table_id :: nat
  layout_width :: nat

section \<open>Small pieces\<close>

definition PairStride :: "RowFingerprint \<Rightarrow> ScanObservation \<Rightarrow> RowFingerprint \<Rightarrow> ScanObservation \<Rightarrow> u64 option" where
  "PairStride first first_match second second_match =
     (if row_index second \<le> row_index first \<or> observed_address second_match \<le> observed_address first_match
      then None
      else let row_delta = word_of_nat (row_index second - row_index first);
               address_delta = observed_address second_match - observed_address first_match
           in if address_delta mod row_delta \<noteq> 0 then None
              else let step = address_delta div row_delta in if step = 0 then None else Some step)"

definition Reject :: "TableState \<Rightarrow> string \<Rightarrow> TableDiscovery \<Rightarrow> TableDiscovery" where
  "Reject state what table =
     table\<lparr>disc_state := state, disc_descriptor := None,
       disc_evidence := disc_evidence table @ [\<lparr>evidence_code = what, fingerprint_count = 0\<rparr>]\<rparr>"

definition new_discovery :: "nat \<Rightarrow> TableDiscovery" where
  "new_discovery uid = \<lparr>disc_unique_id = uid, disc_state = kMissing, disc_descriptor = None, disc_evidence = []\<rparr>"

text \<open>Counters never pass the cap, so that \<open>cap - target\<close> does not wrap.\<close>

definition SaturatingAdd :: "nat \<Rightarrow> nat \<Rightarrow> nat" where
  "SaturatingAdd target v =
     (if v > kMaxSafeDiagnosticCounter - target then kMaxSafeDiagnosticCounter else target + v)"

definition AddCounters :: "DiscoveryCounters \<Rightarrow> DiscoveryCounters \<Rightarrow> DiscoveryCounters" where
  "AddCounters target v =
     \<lparr>pages_scanned = SaturatingAdd (pages_scanned target) (pages_scanned v),
      discovery_chunks_scanned = SaturatingAdd (discovery_chunks_scanned target) (discovery_chunks_scanned v),
      discovery_scanned_bytes = SaturatingAdd (discovery_scanned_bytes target) (discovery_scanned_bytes v),
      discovery_candidate_windows = SaturatingAdd (discovery_candidate_windows target) (discovery_candidate_windows v),
      capped_matches =
        (if capped_matches target \<ge> kMaxFingerprintMatches \<or>
            capped_matches v \<ge> kMaxFingerprintMatches - capped_matches target
         then kMaxFingerprintMatches else capped_matches target + capped_matches v)\<rparr>"

text \<open>\<open>std::map::emplace\<close>: the first value for a key stays.\<close>

fun emplace :: "addr \<Rightarrow> 'v \<Rightarrow> (addr \<times> 'v) list \<Rightarrow> (addr \<times> 'v) list" where
  "emplace k v [] = [(k, v)]"
| "emplace k v ((k', v') # rest) =
     (if k < k' then (k, v) # (k', v') # rest
      else if k = k' then (k', v') # rest
      else (k', v') # emplace k v rest)"

section \<open>Reading a long range\<close>

text \<open>The requests of one batch, from \<open>batch_bytes\<close> on, and the bytes of the batch.\<close>

function contiguous_requests :: "addr \<Rightarrow> nat \<Rightarrow> nat \<Rightarrow> nat \<Rightarrow> ReadRequest list \<times> nat" where
  "contiguous_requests address completed n batch_bytes =
     (if completed + batch_bytes < n \<and> batch_bytes < kMaximumBatchBytes
      then let request_n = min kMaximumReadRangeBytes (n - completed - batch_bytes);
               (requests, batch) = contiguous_requests address completed n (batch_bytes + request_n)
           in (\<lparr>request_address = address + word_of_nat (completed + batch_bytes), request_length = request_n\<rparr> # requests,
               batch)
      else ([], batch_bytes))"
  by pat_completeness auto
termination
  by (relation "measure (\<lambda>(address, completed, n, batch). n - completed - batch)")
    (auto simp: kMaximumReadRangeBytes_def)

declare contiguous_requests.simps [simp del]

lemma contiguous_batch_ge: "batch_bytes \<le> snd (contiguous_requests address completed n batch_bytes)"
  by (induction address completed n batch_bytes rule: contiguous_requests.induct)
    (subst contiguous_requests.simps, auto simp: Let_def split: prod.splits intro: order.trans [OF le_add1])

lemma contiguous_batch_pos:
  assumes "completed < n"
  shows "0 < snd (contiguous_requests address completed n 0)"
proof -
  let ?r = "min kMaximumReadRangeBytes (n - completed)"
  have "0 < ?r" using assms by (simp add: kMaximumReadRangeBytes_def)
  moreover have "?r \<le> snd (contiguous_requests address completed n ?r)" by (rule contiguous_batch_ge)
  ultimately show ?thesis using assms
    by (subst contiguous_requests.simps) (auto simp: Let_def kMaximumBatchBytes_def split: prod.splits)
qed

function read_contiguous :: "'s DiscoveryBackend \<Rightarrow> addr \<Rightarrow> nat \<Rightarrow> nat \<Rightarrow> byte list \<Rightarrow> 's \<Rightarrow> byte list option \<times> 's" where
  "read_contiguous backend address n completed acc s =
     (if completed < n
      then let (expired, s) = Expired backend s in
        if expired then (None, s)
        else let (requests, batch_bytes) = contiguous_requests address completed n 0;
                 ((ok, bytes), s) = ReadBatch backend requests s
             in if \<not> ok \<or> map length bytes \<noteq> map request_length requests then (None, s)
                else read_contiguous backend address n (completed + batch_bytes) (acc @ concat bytes) s
      else (if length acc = n then Some acc else None, s))"
  by pat_completeness auto
termination
proof (relation "measure (\<lambda>(backend, address, n, completed, acc, s). n - completed)", goal_cases)
  case (2 backend address n completed acc s)
  then show ?case using contiguous_batch_pos [of completed n address]
    by (cases "contiguous_requests address completed n 0") auto
qed simp

declare read_contiguous.simps [simp del]

definition ReadContiguous :: "'s DiscoveryBackend \<Rightarrow> addr \<Rightarrow> nat \<Rightarrow> 's \<Rightarrow> byte list option \<times> 's" where
  "ReadContiguous backend address n s = read_contiguous backend address n 0 [] s"

definition masked_at :: "byte list \<Rightarrow> RowFingerprint \<Rightarrow> nat \<Rightarrow> bool" where
  "masked_at bytes fingerprint offset \<longleftrightarrow>
     list_all (\<lambda>i. bytes ! (offset + i) AND row_mask fingerprint ! i =
       row_pattern fingerprint ! i AND row_mask fingerprint ! i) [0..<length (row_pattern fingerprint)]"

text \<open>The loop over the offsets, with the offsets found so far.\<close>

fun masked_offsets :: "byte list \<Rightarrow> RowFingerprint \<Rightarrow> nat list \<Rightarrow> nat list \<Rightarrow> nat list" where
  "masked_offsets bytes fingerprint found [] = found"
| "masked_offsets bytes fingerprint found (offset # offsets) =
     (let found = (if masked_at bytes fingerprint offset then found @ [offset] else found)
      in if length found = kMaxFingerprintMatches then found
         else masked_offsets bytes fingerprint found offsets)"

definition FindMaskedOffsets :: "byte list \<Rightarrow> RowFingerprint \<Rightarrow> nat list" where
  "FindMaskedOffsets bytes fingerprint =
     (let n = length (row_pattern fingerprint) in
      if n = 0 \<or> n \<noteq> length (row_mask fingerprint) \<or> n > length bytes then []
      else masked_offsets bytes fingerprint [] [0..<length bytes - n + 1])"

section \<open>The descriptor of a table\<close>

text \<open>Two 8-byte pointers read at once.\<close>

definition pointer_requests :: "addr \<Rightarrow> addr \<Rightarrow> ReadRequest list" where
  "pointer_requests a b = [\<lparr>request_address = a, request_length = 8\<rparr>, \<lparr>request_address = b, request_length = 8\<rparr>]"

definition read_pointers :: "'s DiscoveryBackend \<Rightarrow> addr \<Rightarrow> addr \<Rightarrow> 's \<Rightarrow> (addr option \<times> addr option) option \<times> 's" where
  "read_pointers backend a b s =
     (let ((ok, bytes), s) = ReadBatch backend (pointer_requests a b) s
      in if \<not> ok \<or> length bytes \<noteq> 2 then (None, s)
         else (Some (ReadLittleEndianPointer (bytes ! 0), ReadLittleEndianPointer (bytes ! 1)), s))"

text \<open>The product of two 32-bit numbers, at 32 bits, compared with a 64-bit size.\<close>

definition product32 :: "nat \<Rightarrow> nat \<Rightarrow> u64" where
  "product32 a b = word_of_nat (mult32 a b)"

definition end_pointer_offset :: "TableProfile \<Rightarrow> u64" where
  "end_pointer_offset table = (if profile_unique_id table = kPlayerUniqueId then 28 else 36)"

definition DescriptorCandidateHasValidExtent ::
  "TableProfile \<Rightarrow> IndexedArrayLayout option \<Rightarrow> 's DiscoveryBackend \<Rightarrow> ScanObservation \<Rightarrow> 's \<Rightarrow> bool \<times> 's" where
  "DescriptorCandidateHasValidExtent table indexed backend observation s =
     (let start_offset = (if indexed \<noteq> None then 20 else 12);
          end_offset = (if indexed \<noteq> None then 28 else end_pointer_offset table);
          a = observed_address observation
      in if AddOverflows a (end_offset + 8) then (False, s)
         else (case read_pointers backend (a + start_offset) (a + end_offset) s of
             (None, s) \<Rightarrow> (False, s)
           | (Some (Some begin', Some end'), s) \<Rightarrow>
               if end' \<le> begin' then (False, s)
               else let extent = end' - begin';
                        bad = (if indexed \<noteq> None
                          then MultiplyOverflows (word_of_nat (profile_capacity table)) 8 \<or>
                               extent \<noteq> word_of_nat (profile_capacity table) * 8
                          else MultiplyOverflows (word_of_nat (profile_capacity table)) (word_of_nat (profile_record_size table)) \<or>
                               extent > word_of_nat kMaximumDescriptorBlobBytes \<or>
                               product32 (profile_capacity table) (profile_record_size table) > extent)
                    in if bad then (False, s) else ExtentExists backend begin' extent s
           | (Some _, s) \<Rightarrow> (False, s)))"

text \<open>What a search over the matches has found.\<close>

record Search =
  search_found :: "(addr \<times> TableDescriptor) list"
  search_unstable :: bool
  search_invalid :: bool

definition new_search :: Search where
  "new_search = \<lparr>search_found = [], search_unstable = False, search_invalid = False\<rparr>"

text \<open>A batch that answers every request and passes a test.\<close>

definition reread :: "'s DiscoveryBackend \<Rightarrow> ReadRequest list \<Rightarrow> RowFingerprint list \<Rightarrow> 's \<Rightarrow> bool \<times> 's" where
  "reread backend requests rows s =
     (let ((ok, bytes), s) = ReadBatch backend requests s
      in (ok \<and> length bytes = length rows \<and> list_all2 MaskedMatches rows bytes, s))"

definition row_requests :: "addr \<Rightarrow> u64 \<Rightarrow> RowFingerprint list \<Rightarrow> ReadRequest list" where
  "row_requests base step rows =
     map (\<lambda>row. \<lparr>request_address = base + word_of_nat (row_index row) * step, request_length = length (row_pattern row)\<rparr>) rows"

definition word_swapped_descriptor :: "TableProfile \<Rightarrow> addr \<Rightarrow> addr \<Rightarrow> u64 \<Rightarrow> TableDescriptor" where
  "word_swapped_descriptor table base blob_start blob_size =
     \<lparr>td_unique_id = profile_unique_id table, td_base = base, td_stride = word_of_nat (profile_record_size table),
      td_capacity = profile_capacity table, td_allocation_base = blob_start, td_allocation_size = blob_size,
      td_storage = kWordSwappedRecords, td_virtual_target = None, td_virtual_width = 0,
      direct_write_verified = HasDirectWriteEvidence table\<rparr>"

text \<open>The rows in a blob when its first row begins at \<open>first_offset\<close>. A record that would end outside the blob,
  which the parser of profiles rules out, does not match.\<close>

definition blob_consistent :: "TableProfile \<Rightarrow> RowFingerprint list \<Rightarrow> byte list \<Rightarrow> nat \<Rightarrow> bool" where
  "blob_consistent table live_rows blob base_offset \<longleftrightarrow>
     list_all2 (\<lambda>row live. MaskedMatches live (take (length (row_pattern live))
        (drop (base_offset + row_index row * profile_record_size table) blob))) (profile_rows table) live_rows"

definition blob_offset :: "'s DiscoveryBackend \<Rightarrow> TableProfile \<Rightarrow> RowFingerprint list \<Rightarrow> addr \<Rightarrow> u64 \<Rightarrow> byte list \<Rightarrow> nat \<Rightarrow>
  Search \<times> 's \<Rightarrow> Search \<times> 's" where
  "blob_offset backend table live_rows blob_start blob_size blob first_offset = (\<lambda>(search, s).
     (let first_row_offset = row_index (hd (profile_rows table)) * profile_record_size table;
          base_offset = first_offset - first_row_offset;
          extent = profile_capacity table * profile_record_size table
      in if first_offset < first_row_offset \<or> base_offset > length blob \<or> extent > length blob - base_offset \<or>
            \<not> blob_consistent table live_rows blob base_offset
         then (search, s)
         else let base = blob_start + word_of_nat base_offset;
                  (stable, s) = reread backend (row_requests base (word_of_nat (profile_record_size table)) (profile_rows table))
                    live_rows s
              in if \<not> stable then (search\<lparr>search_unstable := True\<rparr>, s)
                 else (search\<lparr>search_found := emplace base (word_swapped_descriptor table base blob_start blob_size)
                         (search_found search)\<rparr>, s)))"

definition word_swapped_match :: "'s DiscoveryBackend \<Rightarrow> TableProfile \<Rightarrow> addr \<Rightarrow> Search \<Rightarrow> 's \<Rightarrow> Search \<times> 's" where
  "word_swapped_match backend table a search s =
     (case read_pointers backend (a + 12) (a + end_pointer_offset table) s of
        (None, s) \<Rightarrow> (search\<lparr>search_unstable := True\<rparr>, s)
      | (Some (Some blob_start, Some blob_end), s) \<Rightarrow>
          let blob_size = blob_end - blob_start in
          if blob_end \<le> blob_start \<or> blob_size > word_of_nat kMaximumDescriptorBlobBytes \<or>
             MultiplyOverflows (word_of_nat (profile_capacity table)) (word_of_nat (profile_record_size table)) \<or>
             product32 (profile_capacity table) (profile_record_size table) > blob_size
          then (search\<lparr>search_invalid := True\<rparr>, s)
          else let (there, s) = ExtentExists backend blob_start blob_size s in
            if \<not> there then (search\<lparr>search_invalid := True\<rparr>, s)
            else (case ReadContiguous backend blob_start (unat blob_size) s of
                (None, s) \<Rightarrow> (search\<lparr>search_unstable := True\<rparr>, s)
              | (Some blob, s) \<Rightarrow>
                  let live_rows = map LiveFingerprint (profile_rows table)
                  in fold (blob_offset backend table live_rows blob_start blob_size blob)
                       (FindMaskedOffsets blob (hd live_rows)) (search, s))
      | (Some _, s) \<Rightarrow> (search\<lparr>search_invalid := True\<rparr>, s))"

fun search_matches :: "'s DiscoveryBackend \<Rightarrow> u64 \<Rightarrow> (addr \<Rightarrow> Search \<Rightarrow> 's \<Rightarrow> Search \<times> 's) \<Rightarrow>
  ScanObservation list \<Rightarrow> Search \<Rightarrow> 's \<Rightarrow> Search \<times> 's" where
  "search_matches backend reach visit [] search s = (search, s)"
| "search_matches backend reach visit (match # matches) search s =
     (let (expired, s) = Expired backend s in
      if expired \<or> AddOverflows (observed_address match) reach then (search, s)
      else let (search, s) = visit (observed_address match) search s
           in search_matches backend reach visit matches search s)"

text \<open>One candidate resolves the table; the codes are for several, for one that changed, for an extent that is
  not there, and for none.\<close>

definition conclude :: "TableProfile \<Rightarrow> TableDescriptor list \<Rightarrow> bool \<Rightarrow> bool \<Rightarrow> string \<Rightarrow> string \<times> string \<times> string \<times> string \<Rightarrow>
  TableDiscovery \<Rightarrow> TableDiscovery" where
  "conclude table candidates unstable allocation_invalid ok = (\<lambda>(several, changed, outside, missing) discovered.
     (if length candidates = 1
      then discovered\<lparr>disc_state := kResolved, disc_descriptor := Some (hd candidates),
             disc_evidence := disc_evidence discovered @
               [\<lparr>evidence_code = ok, fingerprint_count = length (profile_rows table)\<rparr>]\<rparr>
      else if length candidates > 1 then Reject kAmbiguous several discovered
      else if unstable then Reject kUnstable changed discovered
      else if allocation_invalid then Reject kAllocationInvalid outside discovered
      else Reject kMissing missing discovered))"

definition DiscoverWordSwappedDescriptor ::
  "'s DiscoveryBackend \<Rightarrow> TableProfile \<Rightarrow> ScanObservationResult \<Rightarrow> 's \<Rightarrow> TableDiscovery \<times> 's" where
  "DiscoverWordSwappedDescriptor backend table scan s =
     (let result = new_discovery (profile_unique_id table) in
      if \<not> observation_complete scan then (Reject kMissing ''DESCRIPTOR_SCAN_INCOMPLETE'' result, s)
      else let (search, s) = search_matches backend (end_pointer_offset table + 8) (word_swapped_match backend table)
                 (observation_matches scan) new_search s
           in (conclude table (map snd (search_found search)) (search_unstable search) (search_invalid search)
                 ''LIVE_DESCRIPTOR_LAYOUT_STABLE'' (''MULTIPLE_LIVE_DESCRIPTORS'', ''LIVE_DESCRIPTOR_REREAD_CHANGED'',
                   ''LIVE_DESCRIPTOR_EXTENT_INVALID'', ''LIVE_DESCRIPTOR_NOT_FOUND'') result, s))"

section \<open>Indexed arrays\<close>

text \<open>A table that is an array of references: every field is a slot of its own, all to one table.\<close>

fun indexed_fields :: "nat \<Rightarrow> FieldDefinition list \<Rightarrow> nat option \<Rightarrow> nat set \<Rightarrow> nat option option" where
  "indexed_fields n [] target ordinals = Some target"
| "indexed_fields n (field # fs) target ordinals =
     (if field_encoding field \<noteq> ''packed-reference'' \<or> storage_bytes field \<noteq> 4 \<or> bit_offset field \<noteq> 0 \<or>
         bit_width field \<noteq> 32 \<or> reference_table_id field = None \<or> byte_offset field mod 4 \<noteq> 0
      then None
      else let ordinal = byte_offset field div 4 in
        if ordinal \<ge> n \<or> ordinal \<in> ordinals then None
        else let target = (if target = None then reference_table_id field else target) in
          if target \<noteq> reference_table_id field then None
          else indexed_fields n fs target (insert ordinal ordinals))"

definition DetectIndexedArray :: "ProfileBundle \<Rightarrow> TableProfile \<Rightarrow> IndexedArrayLayout option" where
  "DetectIndexedArray profile table =
     (case FindTable (bundle_schema profile) (profile_table_id table) of
        None \<Rightarrow> None
      | Some schema \<Rightarrow>
          let n = length (schema_fields schema) in
          if n = 0 \<or> record_size schema \<noteq> n * 4 then None
          else case indexed_fields n (schema_fields schema) None {} of
            Some (Some target) \<Rightarrow>
              if list_all (\<lambda>r. case FindField (bundle_schema profile) (profile_table_id table) (relationship_field r) of
                     None \<Rightarrow> False
                   | Some field \<Rightarrow> target_table_id r = target \<and>
                       target_row r = source_row r * n + byte_offset field div 4) (profile_relationships table)
              then Some \<lparr>layout_target_table_id = target, layout_width = n\<rparr> else None
          | _ \<Rightarrow> None)"

text \<open>The same batch twice, with the same answer, one entry for each row.\<close>

definition read_stable :: "'s DiscoveryBackend \<Rightarrow> ReadRequest list \<Rightarrow> nat \<Rightarrow> 's \<Rightarrow> byte list list option \<times> 's" where
  "read_stable backend requests n s =
     (if length requests \<noteq> n then (None, s)
      else let ((ok, first), s) = ReadBatch backend requests s in
        if \<not> ok then (None, s)
        else let ((ok, second), s) = ReadBatch backend requests s in
          if \<not> ok \<or> first \<noteq> second \<or> length first \<noteq> n then (None, s) else (Some first, s))"

definition array_slot_requests :: "TableProfile \<Rightarrow> addr \<Rightarrow> ReadRequest list" where
  "array_slot_requests table slots_start =
     (if list_ex (\<lambda>row. row_index row \<ge> profile_capacity table) (profile_rows table) then []
      else map (\<lambda>row. \<lparr>request_address = slots_start + word_of_nat (row_index row) * 8, request_length = 8\<rparr>) (profile_rows table))"

definition array_wrapper_requests :: "byte list list \<Rightarrow> ReadRequest list" where
  "array_wrapper_requests slots =
     (if list_ex (\<lambda>slot. case ReadLittleEndianPointer slot of None \<Rightarrow> True | Some w \<Rightarrow> AddOverflows w 28) slots then []
      else map (\<lambda>slot. \<lparr>request_address = the (ReadLittleEndianPointer slot), request_length = 28\<rparr>) slots)"

fun array_wrappers_valid :: "addr option \<Rightarrow> byte list list \<Rightarrow> RowFingerprint list \<Rightarrow> bool" where
  "array_wrappers_valid type (w # ws) (row # rows) =
     (if length w \<noteq> 28 then False
      else case ReadLittleEndianPointer (take 8 w) of
        None \<Rightarrow> False
      | Some t \<Rightarrow>
          if (type \<noteq> None \<and> type \<noteq> Some t) \<or>
             ReadLittleEndian (take 4 (drop 24 w)) \<noteq> word_of_nat (row_index row) then False
          else array_wrappers_valid (Some t) ws rows)"
| "array_wrappers_valid type _ _ = True"

definition indexed_descriptor :: "TableProfile \<Rightarrow> IndexedArrayLayout \<Rightarrow> addr \<Rightarrow> u64 \<Rightarrow> TableDescriptor" where
  "indexed_descriptor table layout slots_start size' =
     \<lparr>td_unique_id = profile_unique_id table, td_base = slots_start, td_stride = 8, td_capacity = profile_capacity table,
      td_allocation_base = slots_start, td_allocation_size = size', td_storage = kIndexedReferenceArray,
      td_virtual_target = Some (layout_target_table_id layout), td_virtual_width = layout_width layout,
      direct_write_verified = False\<rparr>"

definition indexed_match ::
  "'s DiscoveryBackend \<Rightarrow> TableProfile \<Rightarrow> IndexedArrayLayout \<Rightarrow> addr \<Rightarrow> Search \<Rightarrow> 's \<Rightarrow> Search \<times> 's" where
  "indexed_match backend table layout a search s =
     (case read_pointers backend (a + 20) (a + 28) s of
        (None, s) \<Rightarrow> (search\<lparr>search_unstable := True\<rparr>, s)
      | (Some (Some slots_start, Some slots_end), s) \<Rightarrow>
          let n = length (profile_rows table) in
          if slots_end \<le> slots_start \<or> MultiplyOverflows (word_of_nat (profile_capacity table)) 8 \<or>
             slots_end - slots_start \<noteq> word_of_nat (profile_capacity table) * 8
          then (search\<lparr>search_invalid := True\<rparr>, s)
          else let (there, s) = ExtentExists backend slots_start (slots_end - slots_start) s in
            if \<not> there then (search\<lparr>search_invalid := True\<rparr>, s)
            else (case read_stable backend (array_slot_requests table slots_start) n s of
                (None, s) \<Rightarrow> (search\<lparr>search_unstable := True\<rparr>, s)
              | (Some slots, s) \<Rightarrow>
                  (case read_stable backend (array_wrapper_requests slots) n s of
                     (None, s) \<Rightarrow> (search\<lparr>search_unstable := True\<rparr>, s)
                   | (Some wrappers, s) \<Rightarrow>
                       if \<not> array_wrappers_valid None wrappers (profile_rows table)
                       then (search\<lparr>search_unstable := True\<rparr>, s)
                       else (search\<lparr>search_found := emplace slots_start
                               (indexed_descriptor table layout slots_start (slots_end - slots_start)) (search_found search)\<rparr>, s)))
      | (Some _, s) \<Rightarrow> (search\<lparr>search_invalid := True\<rparr>, s))"

definition DiscoverIndexedDescriptor ::
  "'s DiscoveryBackend \<Rightarrow> TableProfile \<Rightarrow> IndexedArrayLayout \<Rightarrow> ScanObservationResult \<Rightarrow> 's \<Rightarrow> TableDiscovery \<times> 's" where
  "DiscoverIndexedDescriptor backend table layout scan s =
     (let result = new_discovery (profile_unique_id table) in
      if \<not> observation_complete scan then (Reject kMissing ''DESCRIPTOR_SCAN_INCOMPLETE'' result, s)
      else let (search, s) = search_matches backend 36 (indexed_match backend table layout)
                 (observation_matches scan) new_search s
           in (conclude table (map snd (search_found search)) (search_unstable search) (search_invalid search)
                 ''LIVE_INDEXED_ARRAY_STABLE'' (''MULTIPLE_LIVE_DESCRIPTORS'', ''LIVE_ARRAY_REREAD_CHANGED'',
                   ''LIVE_ARRAY_EXTENT_INVALID'', ''LIVE_DESCRIPTOR_NOT_FOUND'') result, s))"

section \<open>Three rows in line\<close>

record Progress =
  progress_counters :: DiscoveryCounters
  progress_completed :: nat

type_synonym scan_cache = "byte list \<times> byte list \<Rightarrow> ScanObservationResult option"

text \<open>A timeout report; \<open>clock\<close> tells the milliseconds since the discovery started.\<close>

definition timed_out ::
  "('s \<Rightarrow> int) \<Rightarrow> Progress \<Rightarrow> DiscoveryStage \<Rightarrow> nat option \<Rightarrow> nat option \<Rightarrow> 's \<Rightarrow> DiscoveryTimeoutDetails" where
  "timed_out clock progress stage table ordinal s =
     \<lparr>timeout_stage = stage, timeout_table = table, timeout_ordinal = ordinal,
      completed_fingerprint_count = progress_completed progress,
      elapsed_milliseconds = min (nat (max (clock s) 0)) kMaxSafeDiagnosticCounter,
      timeout_counters = progress_counters progress\<rparr>"

text \<open>The scans of the rows of one table, each fingerprint scanned once in a discovery.\<close>

fun scan_rows ::
  "'s DiscoveryBackend \<Rightarrow> ('s \<Rightarrow> int) \<Rightarrow> nat \<Rightarrow> nat \<Rightarrow> RowFingerprint list \<Rightarrow> scan_cache \<Rightarrow> Progress \<Rightarrow>
   ScanObservationResult list \<Rightarrow> 's \<Rightarrow>
   (DiscoveryTimeoutDetails + ScanObservationResult list \<times> scan_cache \<times> Progress) \<times> 's" where
  "scan_rows backend clock uid index [] cache progress scans s = (Inr (scans, cache, progress), s)"
| "scan_rows backend clock uid index (fingerprint # rows) cache progress scans s =
     (let stop = (\<lambda>progress s. (Inl (timed_out clock progress kScan (Some uid) (Some index) s), s));
          (expired, s) = Expired backend s
      in if expired then stop progress s
         else let key = (row_pattern fingerprint, row_mask fingerprint);
                  (scan, progress, s) = (case cache key of
                      Some scan \<Rightarrow> (scan, progress, s)
                    | None \<Rightarrow>
                        let (scan, s) = Scan backend fingerprint kMaxFingerprintMatches s
                        in (scan, progress\<lparr>progress_counters :=
                              AddCounters (progress_counters progress) (observation_counters scan)\<rparr>, s));
                  cache = cache(key \<mapsto> scan)
              in if observation_code scan = ''OPERATION_TIMEOUT'' then stop progress s
                 else let (expired, s) = Expired backend s in
                   if expired then stop progress s
                   else scan_rows backend clock uid (Suc index) rows cache
                          (progress\<lparr>progress_completed := SaturatingAdd (progress_completed progress) 1\<rparr>)
                          (scans @ [scan]) s)"

text \<open>The combinations of three rows and their matches in the order of the loops, with the deadline checks
  between them.\<close>

datatype work =
  Deadline
  | Combination "RowFingerprint \<times> ScanObservation" "RowFingerprint \<times> ScanObservation" "RowFingerprint \<times> ScanObservation"

definition index_triples :: "nat \<Rightarrow> (nat \<times> nat \<times> nat) list" where
  "index_triples n =
     concat (map (\<lambda>a. concat (map (\<lambda>b. map (\<lambda>c. (a, b, c)) [b + 1..<n]) [a + 1..<n - 1])) [0..<n - 2])"

definition combinations :: "RowFingerprint list \<Rightarrow> ScanObservationResult list \<Rightarrow> work list" where
  "combinations rows scans =
     concat (map (\<lambda>(a, b, c).
       concat (map (\<lambda>ma.
         Deadline # concat (map (\<lambda>mb.
           map (\<lambda>mc. Combination (rows ! a, ma) (rows ! b, mb) (rows ! c, mc))
             (observation_matches (scans ! c)))
           (observation_matches (scans ! b))))
         (observation_matches (scans ! a))))
       (index_triples (length rows)))"

datatype verdict = Unrelated | Outside | Extent addr u64 bool TableDescriptor

definition structural_descriptor :: "TableProfile \<Rightarrow> addr \<Rightarrow> u64 \<Rightarrow> ScanObservation \<Rightarrow> TableDescriptor" where
  "structural_descriptor table base step ma =
     \<lparr>td_unique_id = profile_unique_id table, td_base = base, td_stride = step, td_capacity = profile_capacity table,
      td_allocation_base = observed_allocation_base ma, td_allocation_size = observed_allocation_size ma,
      td_storage = kCanonicalRecords, td_virtual_target = None, td_virtual_width = 0, direct_write_verified = False\<rparr>"

definition structural_verdict ::
  "TableProfile \<Rightarrow> RowFingerprint \<times> ScanObservation \<Rightarrow> RowFingerprint \<times> ScanObservation \<Rightarrow>
   RowFingerprint \<times> ScanObservation \<Rightarrow> verdict" where
  "structural_verdict table = (\<lambda>(ra, ma) (rb, mb) (rc, mc).
     (case (PairStride ra ma rb mb, PairStride ra ma rc mc, PairStride rb mb rc mc) of
        (Some ab, Some ac, Some bc) \<Rightarrow>
          if ab \<noteq> ac \<or> ab \<noteq> bc \<or> ab \<noteq> word_of_nat (profile_record_size table) then Unrelated
          else if observed_allocation_base ma \<noteq> observed_allocation_base mb \<or>
                  observed_allocation_base ma \<noteq> observed_allocation_base mc \<or>
                  observed_allocation_size ma \<noteq> observed_allocation_size mb \<or>
                  observed_allocation_size ma \<noteq> observed_allocation_size mc then Unrelated
          else if MultiplyOverflows (word_of_nat (row_index ra)) ab then Outside
          else let first_offset = word_of_nat (row_index ra) * ab in
            if observed_address ma < first_offset then Outside
            else let base = observed_address ma - first_offset in
              if MultiplyOverflows (word_of_nat (profile_capacity table)) ab then Outside
              else let extent = word_of_nat (profile_capacity table) * ab
                   in Extent base extent
                        (\<not> AddOverflows base extent \<and> base \<ge> observed_allocation_base ma \<and>
                         observed_allocation_size ma \<le> max_u64 - observed_allocation_base ma \<and>
                         base + extent \<le> observed_allocation_base ma + observed_allocation_size ma)
                        (structural_descriptor table base ab ma)
      | _ \<Rightarrow> Unrelated))"

text \<open>The loop over the combinations: the candidates by base address, or a timeout.\<close>

fun structural_loop ::
  "'s DiscoveryBackend \<Rightarrow> TableProfile \<Rightarrow> work list \<Rightarrow> (addr \<times> TableDescriptor) list \<Rightarrow> bool \<Rightarrow> 's \<Rightarrow>
   ((addr \<times> TableDescriptor) list \<times> bool) option \<times> 's" where
  "structural_loop backend table [] candidates invalid s = (Some (candidates, invalid), s)"
| "structural_loop backend table (Deadline # rest) candidates invalid s =
     (let (expired, s) = Expired backend s
      in if expired then (None, s) else structural_loop backend table rest candidates invalid s)"
| "structural_loop backend table (Combination a b c # rest) candidates invalid s =
     (case structural_verdict table a b c of
        Unrelated \<Rightarrow> structural_loop backend table rest candidates invalid s
      | Outside \<Rightarrow> structural_loop backend table rest candidates True s
      | Extent base extent valid d \<Rightarrow>
          let (there, s) = (if valid then ExtentExists backend base extent s else (False, s));
              (expired, s) = Expired backend s
          in if expired then (None, s)
             else if there then structural_loop backend table rest (emplace base d candidates) invalid s
             else structural_loop backend table rest candidates True s)"

definition reread_requests :: "TableProfile \<Rightarrow> addr \<Rightarrow> u64 \<Rightarrow> ReadRequest list" where
  "reread_requests table base step =
     (if list_ex (\<lambda>row. MultiplyOverflows (word_of_nat (row_index row)) step \<or>
           AddOverflows base (word_of_nat (row_index row) * step)) (profile_rows table)
      then [] else row_requests base step (profile_rows table))"

text \<open>Every candidate is read again: the stable ones and whether one was not stable.\<close>

fun stable_loop ::
  "'s DiscoveryBackend \<Rightarrow> TableProfile \<Rightarrow> (addr \<times> TableDescriptor) list \<Rightarrow> TableDescriptor list \<Rightarrow> bool \<Rightarrow> 's \<Rightarrow>
   (TableDescriptor list \<times> bool) option \<times> 's" where
  "stable_loop backend table [] steady unstable s = (Some (steady, unstable), s)"
| "stable_loop backend table ((base, d) # rest) steady unstable s =
     (let (expired, s) = Expired backend s in
      if expired then (None, s)
      else let requests = reread_requests table base (td_stride d) in
        if length requests \<noteq> length (profile_rows table) then stable_loop backend table rest steady True s
        else let (same, s) = reread backend requests (profile_rows table) s
             in if same then stable_loop backend table rest (steady @ [d]) unstable s
                else stable_loop backend table rest steady True s)"

definition three_row_table ::
  "'s DiscoveryBackend \<Rightarrow> ('s \<Rightarrow> int) \<Rightarrow> TableProfile \<Rightarrow> ScanObservationResult list \<Rightarrow> Progress \<Rightarrow> 's \<Rightarrow>
   (DiscoveryTimeoutDetails + TableDiscovery) \<times> 's" where
  "three_row_table backend clock table scans progress s =
     (let discovered = new_discovery (profile_unique_id table); uid = profile_unique_id table in
      if list_ex (\<lambda>scan. \<not> observation_complete scan) scans
      then (Inr (Reject kMissing ''SCAN_INCOMPLETE'' discovered), s)
      else (case structural_loop backend table (combinations (profile_rows table) scans) [] False s of
          (None, s) \<Rightarrow> (Inl (timed_out clock progress kAllocation (Some uid) None s), s)
        | (Some (candidates, invalid), s) \<Rightarrow>
            (case stable_loop backend table candidates [] False s of
               (None, s) \<Rightarrow> (Inl (timed_out clock progress kReread (Some uid) None s), s)
             | (Some (steady, unstable), s) \<Rightarrow>
                 (Inr (conclude table steady unstable invalid ''THREE_ROW_LAYOUT_STABLE''
                    (''MULTIPLE_STABLE_LAYOUTS'', ''FINGERPRINT_REREAD_CHANGED'', ''TABLE_EXTENT_OUTSIDE_ALLOCATION'',
                     ''NO_CONSISTENT_LAYOUT'') discovered), s))))"

section \<open>One table\<close>

definition discover_table ::
  "'s DiscoveryBackend \<Rightarrow> ('s \<Rightarrow> int) \<Rightarrow> ProfileBundle \<Rightarrow> TableProfile \<Rightarrow> scan_cache \<Rightarrow> Progress \<Rightarrow> 's \<Rightarrow>
   (DiscoveryTimeoutDetails + TableDiscovery \<times> scan_cache \<times> Progress) \<times> 's" where
  "discover_table backend clock profile table cache progress s =
     (let uid = profile_unique_id table;
          stop = (\<lambda>progress stage ordinal s. (Inl (timed_out clock progress stage (Some uid) ordinal s), s));
          (expired, s) = Expired backend s
      in if expired then stop progress kScan (if profile_rows table = [] then None else Some 0) s
         else if length (profile_rows table) < 3 \<or> profile_record_size table = 0
         then (Inr (Reject kMissing ''INSUFFICIENT_FINGERPRINTS'' (new_discovery uid), cache, progress), s)
         else let indexed = DetectIndexedArray profile table;
                  (scan, s) = ScanTableDescriptor backend (profile_table_id table) uid kMaxFingerprintMatches
                    (DescriptorCandidateHasValidExtent table indexed backend) s
              in if observation_code scan \<noteq> ''DESCRIPTOR_SCAN_UNSUPPORTED''
                 then let progress = progress\<lparr>progress_counters :=
                            AddCounters (progress_counters progress) (observation_counters scan)\<rparr>
                      in if observation_code scan = ''OPERATION_TIMEOUT'' then stop progress kScan None s
                         else let (expired, s) = Expired backend s in
                           if expired then stop progress kScan None s
                           else let (discovered, s) = (case indexed of
                                        Some layout \<Rightarrow> DiscoverIndexedDescriptor backend table layout scan s
                                      | None \<Rightarrow> DiscoverWordSwappedDescriptor backend table scan s);
                                    (expired, s) = Expired backend s
                                in if expired then stop progress kReread None s
                                   else (Inr (discovered, cache, progress), s)
                 else (case scan_rows backend clock uid 0 (profile_rows table) cache progress [] s of
                     (Inl timeout, s) \<Rightarrow> (Inl timeout, s)
                   | (Inr (scans, cache, progress), s) \<Rightarrow>
                       (case three_row_table backend clock table scans progress s of
                          (Inl timeout, s) \<Rightarrow> (Inl timeout, s)
                        | (Inr discovered, s) \<Rightarrow> (Inr (discovered, cache, progress), s))))"

fun discover_all ::
  "'s DiscoveryBackend \<Rightarrow> ('s \<Rightarrow> int) \<Rightarrow> ProfileBundle \<Rightarrow> TableProfile list \<Rightarrow> scan_cache \<Rightarrow> Progress \<Rightarrow>
   TableDiscovery list \<Rightarrow> 's \<Rightarrow> (DiscoveryTimeoutDetails + TableDiscovery list \<times> Progress) \<times> 's" where
  "discover_all backend clock profile [] cache progress tables s = (Inr (tables, progress), s)"
| "discover_all backend clock profile (table # rest) cache progress tables s =
     (case discover_table backend clock profile table cache progress s of
        (Inl timeout, s) \<Rightarrow> (Inl timeout, s)
      | (Inr (discovered, cache, progress), s) \<Rightarrow>
          discover_all backend clock profile rest cache progress (tables @ [discovered]) s)"

section \<open>Relationships\<close>

text \<open>What a relationship can be told to be without memory: the code that rejects it, or the field.\<close>

definition relationship_field_of ::
  "ProfileBundle \<Rightarrow> TableProfile \<Rightarrow> (nat \<Rightarrow> bool) \<Rightarrow> RelationshipConstraint \<Rightarrow> string + FieldDefinition" where
  "relationship_field_of profile source independently_resolved r =
     (case find (\<lambda>i. profile_table_id (bundle_tables profile ! i) = target_table_id r) [0..<length (bundle_tables profile)] of
        None \<Rightarrow> Inl ''RELATIONSHIP_BUILD_TABLE_ID_UNKNOWN''
      | Some target_index \<Rightarrow>
          if \<not> independently_resolved target_index then Inl ''RELATIONSHIP_TARGET_UNRESOLVED''
          else case FindField (bundle_schema profile) (profile_table_id source) (relationship_field r) of
            None \<Rightarrow> Inl ''RELATIONSHIP_FIELD_MISSING''
          | Some field \<Rightarrow>
              if field_encoding field \<noteq> ''packed-reference'' \<or> storage_bytes field \<noteq> 4 \<or> bit_offset field \<noteq> 0 \<or>
                 bit_width field \<noteq> 32 then Inl ''RELATIONSHIP_FIELD_NOT_PACKED_REFERENCE''
              else if reference_table_id field \<noteq> Some (target_table_id r)
              then Inl ''RELATIONSHIP_FIELD_TARGET_MISMATCH''
              else if byte_offset field > profile_record_size source \<or>
                 storage_bytes field > profile_record_size source - byte_offset field \<or>
                 source_row r \<ge> profile_capacity source then Inl ''RELATIONSHIP_FIELD_INVALID''
              else Inr field)"

definition virtual_mapped :: "TableDescriptor \<Rightarrow> FieldDefinition \<Rightarrow> RelationshipConstraint \<Rightarrow> bool" where
  "virtual_mapped d field r \<longleftrightarrow>
     (let ordinal = byte_offset field div 4 in
      td_virtual_target d = Some (target_table_id r) \<and> ordinal < td_virtual_width d \<and>
      target_row r = (source_row r * td_virtual_width d + ordinal) mod 2 ^ 32)"

definition relationship_address :: "TableDescriptor \<Rightarrow> FieldDefinition \<Rightarrow> RelationshipConstraint \<Rightarrow> addr" where
  "relationship_address d field r =
     td_base d + word_of_nat (source_row r) * td_stride d + word_of_nat (byte_offset field)"

definition reference_matches :: "TableStorage \<Rightarrow> byte list \<Rightarrow> RelationshipConstraint \<Rightarrow> bool" where
  "reference_matches how bytes r \<longleftrightarrow>
     (let encoded = (if how = kWordSwappedRecords then ReadLittleEndian bytes else ReadBigEndian bytes)
      in DecodePackedReference (ucast encoded) =
           Inr \<lparr>ref_table_id = target_table_id r, ref_row_index = target_row r\<rparr>)"

text \<open>The verdict on one relationship: \<open>None\<close> when it holds. The code also compares the unique number of the
  target's result with that of its profile; a result carries the number of its profile from the start.\<close>

definition check_relationship ::
  "'s DiscoveryBackend \<Rightarrow> ProfileBundle \<Rightarrow> TableProfile \<Rightarrow> (nat \<Rightarrow> bool) \<Rightarrow> TableDescriptor \<Rightarrow>
   RelationshipConstraint \<Rightarrow> 's \<Rightarrow> string option \<times> 's" where
  "check_relationship backend profile source independently_resolved d r s =
     (case relationship_field_of profile source independently_resolved r of
        Inl what \<Rightarrow> (Some what, s)
      | Inr field \<Rightarrow>
          if td_storage d = kIndexedReferenceArray
          then (if virtual_mapped d field r then None else Some ''RELATIONSHIP_REFERENCE_MISMATCH'', s)
          else let ((ok, bytes), s) = ReadBatch backend
                     [\<lparr>request_address = relationship_address d field r, request_length = storage_bytes field\<rparr>] s
               in if \<not> ok \<or> map length bytes \<noteq> [storage_bytes field] then (Some ''RELATIONSHIP_READ_FAILED'', s)
                  else (if reference_matches (td_storage d) (hd bytes) r then None
                        else Some ''RELATIONSHIP_REFERENCE_MISMATCH'', s))"

fun check_relationships ::
  "'s DiscoveryBackend \<Rightarrow> ProfileBundle \<Rightarrow> TableProfile \<Rightarrow> (nat \<Rightarrow> bool) \<Rightarrow> TableDescriptor \<Rightarrow>
   RelationshipConstraint list \<Rightarrow> TableDiscovery \<Rightarrow> 's \<Rightarrow> TableDiscovery \<times> 's" where
  "check_relationships backend profile source resolved d [] discovered s = (discovered, s)"
| "check_relationships backend profile source resolved d (r # rs) discovered s =
     (case check_relationship backend profile source resolved d r s of
        (Some what, s) \<Rightarrow> (Reject kRelationshipFailed what discovered, s)
      | (None, s) \<Rightarrow> check_relationships backend profile source resolved d rs
          (discovered\<lparr>disc_evidence := disc_evidence discovered @
             [\<lparr>evidence_code = ''RELATIONSHIP_VALIDATED'', fingerprint_count = 0\<rparr>]\<rparr>) s)"

text \<open>The second phase, in the order of the tables. A resolved table has a descriptor.\<close>

fun relate_all ::
  "'s DiscoveryBackend \<Rightarrow> ('s \<Rightarrow> int) \<Rightarrow> ProfileBundle \<Rightarrow> (nat \<Rightarrow> bool) \<Rightarrow> Progress \<Rightarrow>
   (TableProfile \<times> TableDiscovery) list \<Rightarrow> TableDiscovery list \<Rightarrow> 's \<Rightarrow>
   (DiscoveryTimeoutDetails + TableDiscovery list) \<times> 's" where
  "relate_all backend clock profile resolved progress [] tables s = (Inr tables, s)"
| "relate_all backend clock profile resolved progress ((source, discovered) # rest) tables s =
     (let (expired, s) = Expired backend s in
      if expired then (Inl (timed_out clock progress kRelationship (Some (profile_unique_id source)) None s), s)
      else let (discovered, s) = (case disc_descriptor discovered of
                 Some d \<Rightarrow> if disc_state discovered = kResolved
                   then check_relationships backend profile source resolved d (profile_relationships source) discovered s
                   else (discovered, s)
               | None \<Rightarrow> (discovered, s))
           in relate_all backend clock profile resolved progress rest (tables @ [discovered]) s)"

section \<open>The discovery\<close>

definition failed_discovery :: "string \<Rightarrow> DiscoveryTimeoutDetails option \<Rightarrow> DiscoveryResult" where
  "failed_discovery what timeout = \<lparr>disc_valid = False, disc_code = what, disc_tables = [], disc_timeout = timeout\<rparr>"

fun duplicate_ids :: "TableProfile list \<Rightarrow> nat set \<Rightarrow> nat set \<Rightarrow> string option" where
  "duplicate_ids [] unique_ids table_ids = None"
| "duplicate_ids (table # rest) unique_ids table_ids =
     (if profile_unique_id table \<in> unique_ids then Some ''DUPLICATE_UNIQUE_ID''
      else if profile_table_id table \<in> table_ids then Some ''DUPLICATE_BUILD_TABLE_ID''
      else duplicate_ids rest (insert (profile_unique_id table) unique_ids) (insert (profile_table_id table) table_ids))"

definition DiscoverTables ::
  "'s DiscoveryBackend \<Rightarrow> ('s \<Rightarrow> int) \<Rightarrow> ProfileBundle \<Rightarrow> 's \<Rightarrow> DiscoveryResult \<times> 's" where
  "DiscoverTables backend clock profile s =
     (case duplicate_ids (bundle_tables profile) {} {} of
        Some what \<Rightarrow> (failed_discovery what None, s)
      | None \<Rightarrow>
          (case discover_all backend clock profile (bundle_tables profile) Map.empty
                  \<lparr>progress_counters = \<lparr>pages_scanned = 0, discovery_chunks_scanned = 0, discovery_scanned_bytes = 0,
                     discovery_candidate_windows = 0, capped_matches = 0\<rparr>, progress_completed = 0\<rparr> [] s of
             (Inl timeout, s) \<Rightarrow> (failed_discovery ''OPERATION_TIMEOUT'' (Some timeout), s)
           | (Inr (tables, progress), s) \<Rightarrow>
               (case relate_all backend clock profile (\<lambda>i. disc_state (tables ! i) = kResolved) progress
                       (zip (bundle_tables profile) tables) [] s of
                  (Inl timeout, s) \<Rightarrow> (failed_discovery ''OPERATION_TIMEOUT'' (Some timeout), s)
                | (Inr tables, s) \<Rightarrow>
                    (\<lparr>disc_valid = True, disc_code = [], disc_tables = tables, disc_timeout = None\<rparr>, s))))"

section \<open>A backend that scans\<close>

text \<open>Scans and the clock leave the memory of a reader alone; a descriptor scan calls back the filter of the
  discovery, which reads.\<close>

locale table_scanner = table_reader backend mem
  for backend :: "'s DiscoveryBackend" and mem :: "'s \<Rightarrow> memory" +
  assumes expired_mem: "mem (snd (Expired backend s)) = mem s"
    and scan_mem: "mem (snd (Scan backend fingerprint n s)) = mem s"
    and descriptor_mem: "(\<And>observation s. mem (snd (accept observation s)) = mem s) \<Longrightarrow>
      mem (snd (ScanTableDescriptor backend table_id uid n accept s)) = mem s"

text \<open>What it means that the rows of a profile are where a descriptor says.\<close>

definition rows_hold :: "memory \<Rightarrow> TableProfile \<Rightarrow> TableDescriptor \<Rightarrow> bool" where
  "rows_hold m table d \<longleftrightarrow>
     (if td_storage d = kIndexedReferenceArray
      then \<exists>type. \<forall>row \<in> set (profile_rows table). row_index row < td_capacity d \<and> (\<exists>wrapper.
         ReadLittleEndianPointer (mem_read m (td_base d + word_of_nat (row_index row) * 8) 8) = Some wrapper \<and>
         ReadLittleEndianPointer (mem_read m wrapper 8) = Some type \<and>
         ReadLittleEndian (mem_read m (wrapper + 24) 4) = word_of_nat (row_index row))
      else \<forall>row \<in> set (profile_rows table).
         MaskedMatches (if td_storage d = kWordSwappedRecords then LiveFingerprint row else row)
           (mem_read m (td_base d + word_of_nat (row_index row) * td_stride d) (length (row_pattern row))))"

definition shaped :: "TableProfile \<Rightarrow> TableDescriptor \<Rightarrow> bool" where
  "shaped table d \<longleftrightarrow> td_unique_id d = profile_unique_id table \<and> td_capacity d = profile_capacity table \<and>
     td_stride d = (if td_storage d = kIndexedReferenceArray then 8 else word_of_nat (profile_record_size table))"

definition proven :: "memory \<Rightarrow> TableProfile \<Rightarrow> TableDescriptor \<Rightarrow> bool" where
  "proven m table d \<longleftrightarrow> shaped table d \<and> rows_hold m table d"

lemma set_emplace: "set (emplace k v xs) \<subseteq> insert (k, v) (set xs)"
  by (induction k v xs rule: emplace.induct) auto

lemma mem_read_split: "mem_read m a (n + k) = mem_read m a n @ mem_read m (a + word_of_nat n) k"
proof (induction n arbitrary: a)
  case (Suc n)
  have "mem_read m a (Suc n + k) = m a # mem_read m (a + 1) (n + k)" by (simp add: mem_read_Suc)
  also have "\<dots> = (m a # mem_read m (a + 1) n) @ mem_read m (a + 1 + word_of_nat n) k" by (simp add: Suc.IH)
  also have "m a # mem_read m (a + 1) n = mem_read m a (Suc n)" by (rule mem_read_Suc [symmetric])
  also have "a + 1 + word_of_nat n = a + word_of_nat (Suc n)" by (simp add: add.assoc)
  finally show ?case .
qed simp

lemma take_mem_read: "n \<le> k \<Longrightarrow> take n (mem_read m a k) = mem_read m a n"
  using mem_read_split [of m a n "k - n"] by simp

lemma drop_mem_read: "n \<le> k \<Longrightarrow> drop n (mem_read m a k) = mem_read m (a + word_of_nat n) (k - n)"
  using mem_read_split [of m a n "k - n"] by simp

context table_reader
begin

lemmas backend_mem [simp] = batch_mem extent_mem

lemma batch_read:
  assumes "ReadBatch backend requests s = ((ok, out), s')" "ok"
  shows "out = map (\<lambda>r. mem_read (mem s) (request_address r) (request_length r)) requests" and "mem s' = mem s"
  using batch_bytes [of requests s out s'] batch_mem [of requests s] assms by simp_all

lemma read_pointers_mem [simp]: "mem (snd (read_pointers backend a b s)) = mem s"
  by (simp add: read_pointers_def Let_def case_prod_beta)

lemma read_pointers_read:
  assumes "read_pointers backend a b s = (Some (p, q), s')"
  shows "p = ReadLittleEndianPointer (mem_read (mem s) a 8)" "q = ReadLittleEndianPointer (mem_read (mem s) b 8)"
    "mem s' = mem s"
proof -
  obtain ok out t where r: "ReadBatch backend (pointer_requests a b) s = ((ok, out), t)" by (metis surj_pair)
  with assms have ok: "ok" by (cases ok) (auto simp: read_pointers_def)
  from assms r ok have eqs: "p = ReadLittleEndianPointer (out ! 0)" "q = ReadLittleEndianPointer (out ! 1)" "s' = t"
    by (auto simp: read_pointers_def split: if_splits)
  from batch_read [OF r ok] eqs show "p = ReadLittleEndianPointer (mem_read (mem s) a 8)"
    "q = ReadLittleEndianPointer (mem_read (mem s) b 8)" "mem s' = mem s"
    by (simp_all add: pointer_requests_def)
qed

lemma reread_mem [simp]: "mem (snd (reread backend requests rows s)) = mem s"
  by (simp add: reread_def Let_def case_prod_beta)

lemma reread_read:
  assumes "reread backend requests rows s = (True, s')"
  shows "list_all2 (\<lambda>row r. MaskedMatches row (mem_read (mem s) (request_address r) (request_length r))) rows requests"
proof -
  obtain ok out t where r: "ReadBatch backend requests s = ((ok, out), t)" by (metis surj_pair)
  with assms have ok: "ok" and m: "list_all2 MaskedMatches rows out" by (auto simp: reread_def)
  show ?thesis using m unfolding batch_read(1) [OF r ok] by (simp add: list_all2_map2)
qed

lemma reread_rows:
  assumes "reread backend (row_requests base step rows) (map f rows) s = (True, s')" and "row \<in> set rows"
  shows "MaskedMatches (f row) (mem_read (mem s) (base + word_of_nat (row_index row) * step) (length (row_pattern row)))"
proof -
  from assms(2) obtain i where i: "i < length rows" "row = rows ! i" by (auto simp: in_set_conv_nth)
  from list_all2_nthD [OF reread_read [OF assms(1)], of i] i show ?thesis by (simp add: row_requests_def)
qed

lemma read_stable_mem [simp]: "mem (snd (read_stable backend requests n s)) = mem s"
  by (simp add: read_stable_def Let_def case_prod_beta)

lemma read_stable_read:
  assumes "read_stable backend requests n s = (Some out, s')"
  shows "out = map (\<lambda>r. mem_read (mem s) (request_address r) (request_length r)) requests" "length requests = n" "mem s' = mem s"
proof -
  obtain ok out1 t where r: "ReadBatch backend requests s = ((ok, out1), t)" by (metis surj_pair)
  obtain ok' out2 u where r': "ReadBatch backend requests t = ((ok', out2), u)" by (metis surj_pair)
  from assms r r' have "ok" "out = out1" "length requests = n" "s' = u"
    by (auto simp: read_stable_def split: if_splits)
  with batch_read [OF r] batch_mem [of requests t] r' show "out = map (\<lambda>r. mem_read (mem s) (request_address r) (request_length r)) requests"
    "length requests = n" "mem s' = mem s" by simp_all
qed

lemma array_wrappers_read:
  assumes "array_wrappers_valid type wrappers rows" "length wrappers = length rows"
  shows "\<exists>t. (\<forall>u. type = Some u \<longrightarrow> rows \<noteq> [] \<longrightarrow> t = u) \<and>
    list_all2 (\<lambda>w row. length w = 28 \<and> ReadLittleEndianPointer (take 8 w) = Some t \<and>
      ReadLittleEndian (take 4 (drop 24 w)) = word_of_nat (row_index row)) wrappers rows"
  using assms(2,1)
proof (induction wrappers rows arbitrary: type rule: list_induct2)
  case (Cons w ws row rows)
  then obtain t where t: "length w = 28" "ReadLittleEndianPointer (take 8 w) = Some t" "type = None \<or> type = Some t"
      "ReadLittleEndian (take 4 (drop 24 w)) = word_of_nat (row_index row)" "array_wrappers_valid (Some t) ws rows"
    by (auto split: if_splits option.splits)
  from Cons.IH [OF t(5)] obtain t' where t': "rows \<noteq> [] \<longrightarrow> t' = t"
    "list_all2 (\<lambda>w row. length w = 28 \<and> ReadLittleEndianPointer (take 8 w) = Some t' \<and>
      ReadLittleEndian (take 4 (drop 24 w)) = word_of_nat (row_index row)) ws rows" by auto
  have "list_all2 (\<lambda>w row. length w = 28 \<and> ReadLittleEndianPointer (take 8 w) = Some t \<and>
      ReadLittleEndian (take 4 (drop 24 w)) = word_of_nat (row_index row)) ws rows"
    using t' by (cases rows) auto
  with t show ?case by auto
qed simp

end

section \<open>Long reads\<close>

lemma contiguous_requests_step:
  assumes "completed + batch < n \<and> batch < kMaximumBatchBytes" and "k = min kMaximumReadRangeBytes (n - completed - batch)"
    and "contiguous_requests address completed n (batch + k) = (rest, b)"
  shows "contiguous_requests address completed n batch =
    (\<lparr>request_address = address + word_of_nat (completed + batch), request_length = k\<rparr> # rest, b)"
  by (subst contiguous_requests.simps) (simp only: assms(1) simp_thms if_True Let_def assms(2) [symmetric] assms(3) prod.case)

lemma contiguous_requests_done:
  "\<not> (completed + batch < n \<and> batch < kMaximumBatchBytes) \<Longrightarrow>
   contiguous_requests address completed n batch = ([], batch)"
  by (subst contiguous_requests.simps) (simp only: if_False)

lemma contiguous_requests_read:
  assumes "contiguous_requests address completed n batch = (requests, batch')" and "completed + batch \<le> n"
  shows "concat (map (\<lambda>r. mem_read m (request_address r) (request_length r)) requests) =
      mem_read m (address + word_of_nat (completed + batch)) (batch' - batch) \<and>
    batch \<le> batch' \<and> completed + batch' \<le> n"
  using assms
proof (induction address completed n batch arbitrary: requests rule: contiguous_requests.induct)
  case (1 address completed n batch)
  show ?case
  proof (cases "completed + batch < n \<and> batch < kMaximumBatchBytes")
    case False
    with "1.prems" contiguous_requests_done [OF False, of address] show ?thesis by simp
  next
    case True
    define k where "k = min kMaximumReadRangeBytes (n - completed - batch)"
    obtain rest b where rest: "contiguous_requests address completed n (batch + k) = (rest, b)" by (metis surj_pair)
    have bound: "completed + (batch + k) \<le> n" using True unfolding k_def by linarith
    have req: "requests = \<lparr>request_address = address + word_of_nat (completed + batch), request_length = k\<rparr> # rest" "b = batch'"
      using "1.prems"(1) contiguous_requests_step [OF True k_def rest] by simp_all
    note IH = "1.IH" [OF True k_def rest [unfolded req(2)] bound]
    have "mem_read m (address + word_of_nat (completed + batch)) (k + (batch' - (batch + k))) =
        mem_read m (address + word_of_nat (completed + batch)) k @
        mem_read m (address + word_of_nat (completed + (batch + k))) (batch' - (batch + k))"
      by (simp add: mem_read_split add.assoc)
    with IH show ?thesis by (simp add: req(1))
  qed
qed

lemma contiguous_requests_limits:
  "contiguous_requests address completed n batch = (requests, batch') \<Longrightarrow> batch \<le> kMaximumBatchBytes \<Longrightarrow>
   kMaximumReadRangeBytes dvd batch \<or> n \<le> completed + batch \<Longrightarrow>
   batch' \<le> kMaximumBatchBytes \<and> batch' = batch + sum_list (map request_length requests) \<and>
   (\<forall>r \<in> set requests. 0 < request_length r \<and> request_length r \<le> kMaximumReadRangeBytes)"
proof (induction address completed n batch arbitrary: requests rule: contiguous_requests.induct)
  case (1 address completed n batch)
  show ?case
  proof (cases "completed + batch < n \<and> batch < kMaximumBatchBytes")
    case False
    with "1.prems" contiguous_requests_done [OF False, of address] show ?thesis by simp
  next
    case True
    define k where "k = min kMaximumReadRangeBytes (n - completed - batch)"
    obtain rest b where rest: "contiguous_requests address completed n (batch + k) = (rest, b)" by (metis surj_pair)
    have req: "requests = \<lparr>request_address = address + word_of_nat (completed + batch), request_length = k\<rparr> # rest" "b = batch'"
      using "1.prems"(1) contiguous_requests_step [OF True k_def rest] by simp_all
    have dvd: "kMaximumReadRangeBytes dvd batch" using "1.prems"(3) True by auto
    then obtain q where q: "batch = kMaximumReadRangeBytes * q" by (elim dvdE)
    have four: "kMaximumBatchBytes = kMaximumReadRangeBytes * 4"
      by (simp add: kMaximumReadRangeBytes_def kMaximumBatchBytes_def)
    have "q < 4" using True q unfolding four by simp
    then have "kMaximumReadRangeBytes * Suc q \<le> kMaximumBatchBytes" unfolding four by (intro mult_le_mono2) simp
    moreover have "k \<le> kMaximumReadRangeBytes" by (simp add: k_def)
    ultimately have le: "batch + k \<le> kMaximumBatchBytes" unfolding q by simp
    have next': "kMaximumReadRangeBytes dvd batch + k \<or> n \<le> completed + (batch + k)"
      using dvd by (auto simp: k_def min_def)
    have pos: "0 < k" using True by (simp add: k_def kMaximumReadRangeBytes_def)
    from "1.IH" [OF True k_def rest [unfolded req(2)] le next'] pos show ?thesis by (auto simp: req(1) k_def)
  qed
qed

context table_scanner
begin

lemmas scanner_mem [simp] = expired_mem scan_mem

lemma read_contiguous_step:
  assumes "completed < n"
  obtains expired t ok bytes u where "Expired backend s = (expired, t)" "mem t = mem s"
    "ReadBatch backend (fst (contiguous_requests a completed n 0)) t = ((ok, bytes), u)" "mem u = mem s"
    "read_contiguous backend a n completed acc s =
      (if expired then (None, t)
       else if \<not> ok \<or> map length bytes \<noteq> map request_length (fst (contiguous_requests a completed n 0)) then (None, u)
       else read_contiguous backend a n (completed + snd (contiguous_requests a completed n 0)) (acc @ concat bytes) u)"
proof -
  let ?rs = "fst (contiguous_requests a completed n 0)"
  obtain expired t where t: "Expired backend s = (expired, t)" by (metis surj_pair)
  obtain ok bytes u where u: "ReadBatch backend ?rs t = ((ok, bytes), u)" by (metis surj_pair)
  have "mem t = mem s" "mem u = mem t" using expired_mem [of s] batch_mem [of ?rs t] t u by simp_all
  moreover have "read_contiguous backend a n completed acc s =
      (if expired then (None, t)
       else if \<not> ok \<or> map length bytes \<noteq> map request_length ?rs then (None, u)
       else read_contiguous backend a n (completed + snd (contiguous_requests a completed n 0)) (acc @ concat bytes) u)"
    using assms t u by (subst read_contiguous.simps) (simp add: case_prod_beta)
  ultimately show thesis using that t u by metis
qed

lemma read_contiguous_read:
  "completed \<le> n \<Longrightarrow> acc = mem_read (mem s) a completed \<Longrightarrow>
   mem (snd (read_contiguous backend a n completed acc s)) = mem s \<and>
   (\<forall>out. fst (read_contiguous backend a n completed acc s) = Some out \<longrightarrow> out = mem_read (mem s) a n)"
proof (induction "n - completed" arbitrary: completed acc s rule: less_induct)
  case less
  show ?case
  proof (cases "completed < n")
    case False
    with less.prems have "completed = n" by simp
    with less.prems(2) show ?thesis by (simp add: read_contiguous.simps)
  next
    case True
    obtain requests batch where rs: "contiguous_requests a completed n 0 = (requests, batch)" by (metis surj_pair)
    have pos: "0 < batch" using contiguous_batch_pos [OF True, of a] rs by simp
    have c: "concat (map (\<lambda>r. mem_read (mem s) (request_address r) (request_length r)) requests) =
        mem_read (mem s) (a + word_of_nat completed) batch" and le: "completed + batch \<le> n"
      using contiguous_requests_read [OF rs, of "mem s"] less.prems(1) by simp_all
    obtain expired t ok bytes u where st: "Expired backend s = (expired, t)" "mem t = mem s"
      "ReadBatch backend requests t = ((ok, bytes), u)" "mem u = mem s"
      "read_contiguous backend a n completed acc s =
        (if expired then (None, t)
         else if \<not> ok \<or> map length bytes \<noteq> map request_length requests then (None, u)
         else read_contiguous backend a n (completed + batch) (acc @ concat bytes) u)"
      by (rule read_contiguous_step [OF True, of s a acc]) (simp add: rs)
    show ?thesis
    proof (cases "expired \<or> \<not> ok \<or> map length bytes \<noteq> map request_length requests")
      case True
      then show ?thesis using st by auto
    next
      case False
      then have "acc @ concat bytes = mem_read (mem u) a (completed + batch)"
        using batch_read(1) [OF st(3)] st(2,4) c less.prems(2) by (simp add: mem_read_split)
      moreover have "n - (completed + batch) < n - completed" using pos True by simp
      ultimately have IH: "mem (snd (read_contiguous backend a n (completed + batch) (acc @ concat bytes) u)) = mem u \<and>
          (\<forall>out. fst (read_contiguous backend a n (completed + batch) (acc @ concat bytes) u) = Some out \<longrightarrow>
             out = mem_read (mem u) a n)" by (intro less.hyps [OF _ le])
      have "read_contiguous backend a n completed acc s =
          read_contiguous backend a n (completed + batch) (acc @ concat bytes) u"
        unfolding st(5) using False by auto
      with IH st(4) show ?thesis by simp
    qed
  qed
qed

lemma ReadContiguous_mem [simp]: "mem (snd (ReadContiguous backend a n s)) = mem s"
  using read_contiguous_read [of 0 n "[]" s a] by (simp add: ReadContiguous_def)

lemma ReadContiguous_read:
  "ReadContiguous backend a n s = (Some out, s') \<Longrightarrow> out = mem_read (mem s) a n"
  using read_contiguous_read [of 0 n "[]" s a] by (simp add: ReadContiguous_def)

end

section \<open>Searches\<close>

definition search_ok :: "memory \<Rightarrow> TableProfile \<Rightarrow> Search \<Rightarrow> bool" where
  "search_ok m table search \<longleftrightarrow> (\<forall>(k, d) \<in> set (search_found search). proven m table d)"

lemma search_ok_flags [simp]:
  "search_ok m table (search\<lparr>search_unstable := u\<rparr>) = search_ok m table search"
  "search_ok m table (search\<lparr>search_invalid := u\<rparr>) = search_ok m table search"
  "search_ok m table new_search"
  by (simp_all add: search_ok_def new_search_def)

lemma search_ok_found:
  "search_ok m table search \<Longrightarrow> proven m table d \<Longrightarrow>
   search_ok m table (search\<lparr>search_found := emplace k d (search_found search)\<rparr>)"
  using set_emplace [of k d "search_found search"] by (auto simp: search_ok_def)

context table_scanner
begin

lemma blob_offset_ok:
  assumes "blob_offset backend table (map LiveFingerprint (profile_rows table)) blob_start blob_size blob offset (search, s) = (search', s')"
    and "search_ok (mem s) table search"
  shows "mem s' = mem s \<and> search_ok (mem s) table search'"
proof -
  let ?step = "word_of_nat (profile_record_size table)"
  let ?base = "blob_start + word_of_nat (offset - row_index (hd (profile_rows table)) * profile_record_size table)"
  let ?requests = "row_requests ?base ?step (profile_rows table)" and ?live = "map LiveFingerprint (profile_rows table)"
  obtain same t where t: "reread backend ?requests ?live s = (same, t)" by (metis surj_pair)
  then have m: "mem t = mem s" using reread_mem [of ?requests ?live s] by simp
  show ?thesis
  proof (cases "search' = search \<and> s' = s")
    case False
    then have st: "s' = t" "search' = (if same then search\<lparr>search_found := emplace ?base
        (word_swapped_descriptor table ?base blob_start blob_size) (search_found search)\<rparr> else search\<lparr>search_unstable := True\<rparr>)"
      using assms(1) t unfolding blob_offset_def by (auto simp: Let_def split: if_splits)
    show ?thesis
    proof (cases same)
      case True
      with t have t': "reread backend ?requests ?live s = (True, t)" by simp
      have "proven (mem s) table (word_swapped_descriptor table ?base blob_start blob_size)"
        using reread_rows [OF t']
        by (auto simp: proven_def shaped_def rows_hold_def word_swapped_descriptor_def LiveFingerprint_def [symmetric])
      then show ?thesis using st True m search_ok_found [OF assms(2)] by simp
    qed (use st m assms(2) in simp)
  qed (use assms(2) in simp)
qed

end

context table_scanner
begin

lemma fold_keeps:
  assumes "\<And>x search s search' s'. f x (search, s) = (search', s') \<Longrightarrow> search_ok (mem s) table search \<Longrightarrow>
      mem s' = mem s \<and> search_ok (mem s) table search'"
  shows "fold f xs (search, s) = (search', s') \<Longrightarrow> search_ok (mem s) table search \<Longrightarrow>
      mem s' = mem s \<and> search_ok (mem s) table search'"
proof (induction xs arbitrary: search s)
  case (Cons x xs)
  obtain search1 s1 where one: "f x (search, s) = (search1, s1)" by (metis surj_pair)
  with assms [OF one Cons.prems(2)] Cons.IH [of search1 s1] Cons.prems(1) show ?case by simp
qed simp

lemma word_swapped_match_ok:
  assumes "word_swapped_match backend table a search s = (search', s')" and "search_ok (mem s) table search"
  shows "mem s' = mem s \<and> search_ok (mem s) table search'"
proof -
  obtain ps t where t: "read_pointers backend (a + 12) (a + end_pointer_offset table) s = (ps, t)" by (metis surj_pair)
  then have mt: "mem t = mem s" using read_pointers_mem [of "a + 12" "a + end_pointer_offset table" s] by simp
  show ?thesis
  proof (cases "\<exists>p q. ps = Some (Some p, Some q)")
    case False
    with assms t mt show ?thesis
      by (auto simp: word_swapped_match_def split: option.splits)
  next
    case True
    then obtain p q where ps: "ps = Some (Some p, Some q)" by blast
    obtain there u where u: "ExtentExists backend p (q - p) t = (there, u)" by (metis surj_pair)
    then have mu: "mem u = mem s" using extent_mem [of p "q - p" t] mt by simp
    obtain blob v where v: "ReadContiguous backend p (unat (q - p)) u = (blob, v)" by (metis surj_pair)
    then have mv: "mem v = mem s" using ReadContiguous_mem [of p "unat (q - p)" u] mu by simp
    have run: "word_swapped_match backend table a search s =
      (if q \<le> p \<or> q - p > word_of_nat kMaximumDescriptorBlobBytes \<or>
             MultiplyOverflows (word_of_nat (profile_capacity table)) (word_of_nat (profile_record_size table)) \<or>
             product32 (profile_capacity table) (profile_record_size table) > q - p
       then (search\<lparr>search_invalid := True\<rparr>, t)
       else if \<not> there then (search\<lparr>search_invalid := True\<rparr>, u)
       else case blob of None \<Rightarrow> (search\<lparr>search_unstable := True\<rparr>, v)
         | Some blob \<Rightarrow> fold (blob_offset backend table (map LiveFingerprint (profile_rows table)) p (q - p) blob)
             (FindMaskedOffsets blob (hd (map LiveFingerprint (profile_rows table)))) (search, v))"
      unfolding word_swapped_match_def t ps by (simp add: u v Let_def split: option.split)
    show ?thesis
    proof (cases "search_found search' = search_found search \<and> mem s' = mem s")
      case True
      with assms(2) show ?thesis by (simp add: search_ok_def)
    next
      case False
      then obtain b where b: "fold (blob_offset backend table (map LiveFingerprint (profile_rows table)) p (q - p) b)
             (FindMaskedOffsets b (hd (map LiveFingerprint (profile_rows table)))) (search, v) = (search', s')"
        using assms(1) mt mu mv unfolding run by (auto split: if_splits option.splits)
      have "search_ok (mem v) table search" using assms(2) mv by simp
      from fold_keeps [OF blob_offset_ok b this] mv show ?thesis by simp
    qed
  qed
qed

lemma slots_read:
  assumes "read_stable backend (array_slot_requests table p) (length (profile_rows table)) s = (Some slots, s')"
    and "read_stable backend (array_wrapper_requests slots) (length (profile_rows table)) t = (Some wrappers, t')"
    and "mem t = mem s" and "array_wrappers_valid None wrappers (profile_rows table)"
  shows "proven (mem s) table (indexed_descriptor table layout p size')"
proof (cases "profile_rows table = []")
  case True
  then show ?thesis by (simp add: proven_def shaped_def rows_hold_def indexed_descriptor_def)
next
  case ne: False
  let ?rows = "profile_rows table"
  note first = read_stable_read [OF assms(1)] and second = read_stable_read [OF assms(2)]
  have bound: "\<not> list_ex (\<lambda>row. row_index row \<ge> profile_capacity table) ?rows"
    using first(2) ne by (auto simp: array_slot_requests_def split: if_splits)
  have slots: "slots = map (\<lambda>row. mem_read (mem s) (p + word_of_nat (row_index row) * 8) 8) ?rows"
    using first(1) bound by (simp add: array_slot_requests_def)
  have ptr: "\<not> list_ex (\<lambda>slot. case ReadLittleEndianPointer slot of None \<Rightarrow> True | Some w \<Rightarrow> AddOverflows w 28) slots"
    using second(2) ne by (auto simp: array_wrapper_requests_def split: if_splits)
  have wrappers: "wrappers = map (\<lambda>slot. mem_read (mem s) (the (ReadLittleEndianPointer slot)) 28) slots"
    using second(1) ptr assms(3) by (simp add: array_wrapper_requests_def)
  have len: "length wrappers = length ?rows" by (simp add: wrappers slots)
  from array_wrappers_read [OF assms(4) len] obtain type where all:
    "list_all2 (\<lambda>w row. length w = 28 \<and> ReadLittleEndianPointer (take 8 w) = Some type \<and>
      ReadLittleEndian (take 4 (drop 24 w)) = word_of_nat (row_index row)) wrappers ?rows" by blast
  have "row_index row < profile_capacity table \<and> (\<exists>wrapper.
         ReadLittleEndianPointer (mem_read (mem s) (p + word_of_nat (row_index row) * 8) 8) = Some wrapper \<and>
         ReadLittleEndianPointer (mem_read (mem s) wrapper 8) = Some type \<and>
         ReadLittleEndian (mem_read (mem s) (wrapper + 24) 4) = word_of_nat (row_index row))" if "row \<in> set ?rows" for row
  proof -
    from that obtain i where i: "i < length ?rows" "row = ?rows ! i" by (auto simp: in_set_conv_nth)
    let ?slot = "mem_read (mem s) (p + word_of_nat (row_index row) * 8) 8"
    have slot: "slots ! i = ?slot" "?slot \<in> set slots" using i by (auto simp: slots)
    with ptr obtain w where w: "ReadLittleEndianPointer ?slot = Some w"
      by (fastforce simp: list_ex_iff split: option.splits)
    have "wrappers ! i = mem_read (mem s) w 28" using i slot w by (simp add: wrappers) (simp add: slots)
    with list_all2_nthD [OF all, of i] i len have
      "ReadLittleEndianPointer (take 8 (mem_read (mem s) w 28)) = Some type"
      "ReadLittleEndian (take 4 (drop 24 (mem_read (mem s) w 28))) = word_of_nat (row_index row)" by auto
    with w bound that show ?thesis by (auto simp: take_mem_read drop_mem_read list_ex_iff not_le)
  qed
  then show ?thesis by (auto simp: proven_def shaped_def rows_hold_def indexed_descriptor_def)
qed

lemma indexed_match_ok:
  assumes "indexed_match backend table layout a search s = (search', s')" and "search_ok (mem s) table search"
  shows "mem s' = mem s \<and> search_ok (mem s) table search'"
proof -
  obtain ps t where t: "read_pointers backend (a + 20) (a + 28) s = (ps, t)" by (metis surj_pair)
  then have mt: "mem t = mem s" using read_pointers_mem [of "a + 20" "a + 28" s] by simp
  show ?thesis
  proof (cases "\<exists>p q. ps = Some (Some p, Some q)")
    case False
    with assms t mt show ?thesis by (auto simp: indexed_match_def split: option.splits)
  next
    case True
    then obtain p q where ps: "ps = Some (Some p, Some q)" by blast
    let ?n = "length (profile_rows table)"
    obtain there u where u: "ExtentExists backend p (q - p) t = (there, u)" by (metis surj_pair)
    then have mu: "mem u = mem s" using extent_mem [of p "q - p" t] mt by simp
    obtain slots v where v: "read_stable backend (array_slot_requests table p) ?n u = (slots, v)" by (metis surj_pair)
    then have mv: "mem v = mem s" using read_stable_mem [of "array_slot_requests table p" ?n u] mu by simp
    obtain wrappers w where w: "read_stable backend (array_wrapper_requests (the slots)) ?n v = (wrappers, w)" by (metis surj_pair)
    then have mw: "mem w = mem s" using read_stable_mem [of "array_wrapper_requests (the slots)" ?n v] mv by simp
    have run: "indexed_match backend table layout a search s =
      (if q \<le> p \<or> MultiplyOverflows (word_of_nat (profile_capacity table)) 8 \<or>
          q - p \<noteq> word_of_nat (profile_capacity table) * 8
       then (search\<lparr>search_invalid := True\<rparr>, t)
       else if \<not> there then (search\<lparr>search_invalid := True\<rparr>, u)
       else if slots = None then (search\<lparr>search_unstable := True\<rparr>, v)
       else if wrappers = None \<or> \<not> array_wrappers_valid None (the wrappers) (profile_rows table)
       then (search\<lparr>search_unstable := True\<rparr>, w)
       else (search\<lparr>search_found := emplace p (indexed_descriptor table layout p (q - p)) (search_found search)\<rparr>, w))"
      unfolding indexed_match_def t ps prod.case option.case Let_def u v using w
      by (cases slots; cases wrappers) simp_all
    show ?thesis
    proof (cases "search_found search' = search_found search \<and> mem s' = mem s")
      case True
      with assms(2) show ?thesis by (simp add: search_ok_def)
    next
      case False
      then have end': "s' = w" "slots \<noteq> None" "wrappers \<noteq> None" "array_wrappers_valid None (the wrappers) (profile_rows table)"
          "search' = search\<lparr>search_found := emplace p (indexed_descriptor table layout p (q - p)) (search_found search)\<rparr>"
        using assms(1) mt mu mv mw unfolding run by (auto split: if_splits)
      then obtain sl wr where sw: "slots = Some sl" "wrappers = Some wr" by auto
      have "proven (mem u) table (indexed_descriptor table layout p (q - p))"
        using slots_read [OF v [unfolded sw] w [unfolded sw option.sel]] end'(4) mu mv sw by simp
      then show ?thesis using search_ok_found [OF assms(2)] mu mw end' by simp
    qed
  qed
qed

lemma search_matches_ok:
  assumes "\<And>a search s search' s'. visit a search s = (search', s') \<Longrightarrow> search_ok (mem s) table search \<Longrightarrow>
      mem s' = mem s \<and> search_ok (mem s) table search'"
  shows "search_matches backend reach visit matches search s = (search', s') \<Longrightarrow> search_ok (mem s) table search \<Longrightarrow>
      mem s' = mem s \<and> search_ok (mem s) table search'"
proof (induction matches arbitrary: search s)
  case (Cons match matches)
  obtain expired t where t: "Expired backend s = (expired, t)" by (metis surj_pair)
  then have mt: "mem t = mem s" using expired_mem [of s] by simp
  obtain search1 u where u: "visit (observed_address match) search t = (search1, u)" by (metis surj_pair)
  have one: "mem u = mem t" "search_ok (mem t) table search1"
    using assms [OF u] Cons.prems(2) mt by simp_all
  show ?case
  proof (cases "expired \<or> AddOverflows (observed_address match) reach")
    case True
    with Cons.prems t mt show ?thesis by auto
  next
    case False
    then have "search_matches backend reach visit matches search1 u = (search', s')"
      using Cons.prems(1) t u by auto
    with Cons.IH [OF this] one mt show ?thesis by simp
  qed
qed simp

end

section \<open>One table\<close>

definition discovery_ok :: "memory \<Rightarrow> TableProfile \<Rightarrow> TableDiscovery \<Rightarrow> bool" where
  "discovery_ok m table t \<longleftrightarrow> disc_unique_id t = profile_unique_id table \<and>
     (disc_state t = kResolved \<longleftrightarrow> disc_descriptor t \<noteq> None) \<and>
     (\<forall>d. disc_descriptor t = Some d \<longrightarrow> proven m table d)"

lemma Reject_ok: "state \<noteq> kResolved \<Longrightarrow> discovery_ok m table (Reject state what t) \<longleftrightarrow> disc_unique_id t = profile_unique_id table"
  by (simp add: discovery_ok_def Reject_def)

lemma new_discovery_simps [simp]:
  "disc_unique_id (new_discovery uid) = uid" "disc_descriptor (new_discovery uid) = None"
  by (simp_all add: new_discovery_def)

lemma conclude_ok:
  assumes "\<And>d. d \<in> set candidates \<Longrightarrow> proven m table d"
  shows "discovery_ok m table (conclude table candidates unstable invalid ok codes (new_discovery (profile_unique_id table)))"
proof -
  obtain several changed outside missing where c: "codes = (several, changed, outside, missing)" by (metis surj_pair)
  show ?thesis
  proof (cases "length candidates = 1")
    case True
    then obtain d where "candidates = [d]" by (auto simp: length_Suc_conv)
    with assms show ?thesis by (simp add: conclude_def c discovery_ok_def)
  next
    case False
    then show ?thesis by (auto simp: conclude_def c Reject_ok)
  qed
qed

lemma structural_verdict_Extent:
  assumes "structural_verdict table a b c = Extent base extent valid d"
  shows "shaped table d \<and> td_storage d = kCanonicalRecords \<and> td_base d = base"
proof -
  obtain ra ma rb mb rc mc where abc: "a = (ra, ma)" "b = (rb, mb)" "c = (rc, mc)" by (metis surj_pair)
  show ?thesis
    using assms unfolding structural_verdict_def abc
    by (auto simp: Let_def structural_descriptor_def shaped_def split: option.splits if_splits)
qed

definition structural_ok :: "TableProfile \<Rightarrow> (addr \<times> TableDescriptor) list \<Rightarrow> bool" where
  "structural_ok table cs \<longleftrightarrow> (\<forall>(k, d) \<in> set cs. shaped table d \<and> td_storage d = kCanonicalRecords \<and> td_base d = k)"

lemma structural_ok_emplace:
  "structural_ok table cs \<Longrightarrow> structural_verdict table a b c = Extent k extent valid d \<Longrightarrow> structural_ok table (emplace k d cs)"
  using structural_verdict_Extent [of table a b c k extent valid d] set_emplace [of k d cs]
  by (auto simp: structural_ok_def)

context table_scanner
begin

lemma DiscoverWordSwappedDescriptor_ok:
  assumes "DiscoverWordSwappedDescriptor backend table scan s = (t, s')"
  shows "mem s' = mem s \<and> discovery_ok (mem s) table t"
proof (cases "observation_complete scan")
  case True
  obtain search u where u: "search_matches backend (end_pointer_offset table + 8) (word_swapped_match backend table)
      (observation_matches scan) new_search s = (search, u)" by (metis surj_pair)
  have "mem u = mem s \<and> search_ok (mem s) table search"
    by (rule search_matches_ok [OF word_swapped_match_ok u]) (simp_all add: search_ok_def new_search_def)
  then have m: "mem u = mem s" and cands: "\<And>d. d \<in> set (map snd (search_found search)) \<Longrightarrow> proven (mem s) table d"
    by (fastforce simp: search_ok_def)+
  have "discovery_ok (mem s) table (conclude table (map snd (search_found search)) unstable invalid ok codes
      (new_discovery (profile_unique_id table)))" for unstable invalid ok codes
    by (rule conclude_ok) (rule cands)
  with assms True u m show ?thesis by (auto simp: DiscoverWordSwappedDescriptor_def Let_def)
qed (use assms in \<open>auto simp: DiscoverWordSwappedDescriptor_def Reject_ok\<close>)

lemma DiscoverIndexedDescriptor_ok:
  assumes "DiscoverIndexedDescriptor backend table layout scan s = (t, s')"
  shows "mem s' = mem s \<and> discovery_ok (mem s) table t"
proof (cases "observation_complete scan")
  case True
  obtain search u where u: "search_matches backend 36 (indexed_match backend table layout)
      (observation_matches scan) new_search s = (search, u)" by (metis surj_pair)
  have "mem u = mem s \<and> search_ok (mem s) table search"
    by (rule search_matches_ok [OF indexed_match_ok u]) (simp_all add: search_ok_def new_search_def)
  then have m: "mem u = mem s" and cands: "\<And>d. d \<in> set (map snd (search_found search)) \<Longrightarrow> proven (mem s) table d"
    by (fastforce simp: search_ok_def)+
  have "discovery_ok (mem s) table (conclude table (map snd (search_found search)) unstable invalid ok codes
      (new_discovery (profile_unique_id table)))" for unstable invalid ok codes
    by (rule conclude_ok) (rule cands)
  with assms True u m show ?thesis by (auto simp: DiscoverIndexedDescriptor_def Let_def)
qed (use assms in \<open>auto simp: DiscoverIndexedDescriptor_def Reject_ok\<close>)

lemma structural_loop_ok:
  "structural_loop backend table work cs invalid s = (r, s') \<Longrightarrow> structural_ok table cs \<Longrightarrow>
   mem s' = mem s \<and> (\<forall>cs' inv. r = Some (cs', inv) \<longrightarrow> structural_ok table cs')"
proof (induction work arbitrary: cs invalid s)
  case (Cons w work)
  show ?case
  proof (cases w)
    case Deadline
    obtain expired t where t: "Expired backend s = (expired, t)" by (metis surj_pair)
    then have "mem t = mem s" using expired_mem [of s] by simp
    with Cons.prems t Deadline Cons.IH [of cs invalid t] show ?thesis by (auto split: if_splits)
  next
    case (Combination a b c)
    show ?thesis
    proof (cases "structural_verdict table a b c")
      case Unrelated
      with Cons.prems Combination Cons.IH [of cs invalid s] show ?thesis by simp
    next
      case Outside
      with Cons.prems Combination Cons.IH [of cs True s] show ?thesis by simp
    next
      case (Extent base extent valid d)
      obtain there t where t: "(if valid then ExtentExists backend base extent s else (False, s)) = (there, t)" by (metis surj_pair)
      have mt: "mem t = mem s" using t extent_mem [of base extent s] by (cases valid) auto
      obtain expired u where u: "Expired backend t = (expired, u)" by (metis surj_pair)
      then have mu: "mem u = mem s" using expired_mem [of t] mt by simp
      have run: "structural_loop backend table (w # work) cs invalid s =
        (if expired then (None, u)
         else if there then structural_loop backend table work (emplace base d cs) invalid u
         else structural_loop backend table work cs True u)"
        using t u Extent Combination by simp
      show ?thesis
        using Cons.prems mu Cons.IH [of "emplace base d cs" invalid u] Cons.IH [of cs True u]
          structural_ok_emplace [OF Cons.prems(2) Extent]
        unfolding run by (auto split: if_splits)
    qed
  qed
qed auto

lemma stable_loop_ok:
  "stable_loop backend table cs steady unstable s = (r, s') \<Longrightarrow> structural_ok table cs \<Longrightarrow>
   (\<And>d. d \<in> set steady \<Longrightarrow> proven (mem s) table d) \<Longrightarrow>
   mem s' = mem s \<and> (\<forall>ds u. r = Some (ds, u) \<longrightarrow> (\<forall>d \<in> set ds. proven (mem s) table d))"
proof (induction cs arbitrary: steady unstable s)
  case (Cons c cs)
  obtain base d where c: "c = (base, d)" by (metis surj_pair)
  have d: "shaped table d" "td_storage d = kCanonicalRecords" "td_base d = base" "structural_ok table cs"
    using Cons.prems(2) by (auto simp: c structural_ok_def)
  let ?requests = "reread_requests table base (td_stride d)" and ?rows = "profile_rows table"
  obtain expired t where t: "Expired backend s = (expired, t)" by (metis surj_pair)
  then have mt: "mem t = mem s" using expired_mem [of s] by simp
  obtain same u where u: "reread backend ?requests ?rows t = (same, u)" by (metis surj_pair)
  then have mu: "mem u = mem s" using reread_mem [of ?requests ?rows t] mt by simp
  have run: "stable_loop backend table (c # cs) steady unstable s =
      (if expired then (None, t)
       else if length ?requests \<noteq> length ?rows then stable_loop backend table cs steady True t
       else if same then stable_loop backend table cs (steady @ [d]) unstable u
       else stable_loop backend table cs steady True u)"
    using t u by (simp add: c Let_def)
  have proven: "proven (mem s) table d" if "length ?requests = length ?rows" "same"
  proof (cases "?rows = []")
    case True
    with d show ?thesis by (simp add: proven_def rows_hold_def)
  next
    case False
    with that(1) have "?requests = row_requests base (td_stride d) ?rows"
      by (auto simp: reread_requests_def split: if_splits)
    with u that(2) have "reread backend (row_requests (td_base d) (td_stride d) ?rows) (map (\<lambda>x. x) ?rows) t = (True, u)"
      by (simp add: d(3))
    from reread_rows [OF this] d mt show ?thesis by (simp add: proven_def rows_hold_def)
  qed
  show ?case
    using Cons.prems mt mu Cons.IH [of steady True t] Cons.IH [of "steady @ [d]" unstable u] Cons.IH [of steady True u] d(4) proven
    unfolding run by (auto split: if_splits)
qed auto

lemma three_row_table_ok:
  assumes "three_row_table backend clock table scans progress s = (r, s')"
  shows "mem s' = mem s \<and> (\<forall>t. r = Inr t \<longrightarrow> discovery_ok (mem s) table t)"
proof (cases "list_ex (\<lambda>scan. \<not> observation_complete scan) scans")
  case True
  with assms show ?thesis by (auto simp: three_row_table_def Reject_ok)
next
  case False
  obtain r1 t where t: "structural_loop backend table (combinations (profile_rows table) scans) [] False s = (r1, t)"
    by (metis surj_pair)
  note one = structural_loop_ok [OF t]
  show ?thesis
  proof (cases r1)
    case None
    with assms False t one show ?thesis by (auto simp: three_row_table_def Let_def structural_ok_def)
  next
    case (Some p)
    then obtain cs invalid where p: "r1 = Some (cs, invalid)" by (metis surj_pair)
    obtain r2 u where u: "stable_loop backend table cs [] False t = (r2, u)" by (metis surj_pair)
    have ok: "mem t = mem s" "structural_ok table cs" using one p by (simp_all add: structural_ok_def)
    from stable_loop_ok [OF u ok(2)] ok(1)
    have two: "mem u = mem s" "\<forall>ds b. r2 = Some (ds, b) \<longrightarrow> (\<forall>d \<in> set ds. proven (mem s) table d)" by simp_all
    have "(r, s') = (case r2 of
          None \<Rightarrow> (Inl (timed_out clock progress kReread (Some (profile_unique_id table)) None u), u)
        | Some (steady, unstable) \<Rightarrow> (Inr (conclude table steady unstable invalid ''THREE_ROW_LAYOUT_STABLE''
                    (''MULTIPLE_STABLE_LAYOUTS'', ''FINGERPRINT_REREAD_CHANGED'', ''TABLE_EXTENT_OUTSIDE_ALLOCATION'',
                     ''NO_CONSISTENT_LAYOUT'') (new_discovery (profile_unique_id table))), u))"
      using assms False by (simp add: three_row_table_def Let_def t p u split: option.split prod.split)
    with two show ?thesis by (cases r2) (auto intro!: conclude_ok)
  qed
qed

end

context table_scanner
begin

lemma DescriptorCandidate_mem [simp]:
  "mem (snd (DescriptorCandidateHasValidExtent table indexed backend observation s)) = mem s"
proof -
  have rp: "mem (snd (read_pointers backend a b s)) = mem s" for a b by simp
  show ?thesis
    unfolding DescriptorCandidateHasValidExtent_def Let_def
    by (auto split: option.split prod.split dest!: arg_cong [where f = "\<lambda>r. mem (snd r)"] simp: rp)
qed

lemma scan_rows_mem:
  "mem (snd (scan_rows backend clock uid index rows cache progress scans s)) = mem s"
proof (induction rows arbitrary: index cache progress scans s)
  case (Cons row rows)
  obtain expired t where t: "Expired backend s = (expired, t)" by (metis surj_pair)
  then have mt: "mem t = mem s" using expired_mem [of s] by simp
  obtain scan u where u: "Scan backend row kMaxFingerprintMatches t = (scan, u)" by (metis surj_pair)
  then have mu: "mem u = mem s" using scan_mem [of row kMaxFingerprintMatches t] mt by simp
  obtain late v where v: "Expired backend t = (late, v)" by (metis surj_pair)
  then have mv: "mem v = mem s" using expired_mem [of t] mt by simp
  obtain late' w where w: "Expired backend u = (late', w)" by (metis surj_pair)
  then have mw: "mem w = mem s" using expired_mem [of u] mu by simp
  show ?case
    using Cons.IH mt mu mv mw
    by (cases "cache (row_pattern row, row_mask row)") (auto simp: t u v w Let_def)
qed simp

lemma discover_table_ok:
  assumes "discover_table backend clock profile table cache progress s = (r, s')"
  shows "mem s' = mem s \<and> (\<forall>t c p. r = Inr (t, c, p) \<longrightarrow> discovery_ok (mem s) table t)"
proof -
  let ?uid = "profile_unique_id table" and ?indexed = "DetectIndexedArray profile table"
  obtain expired t where t: "Expired backend s = (expired, t)" by (metis surj_pair)
  then have mt: "mem t = mem s" using expired_mem [of s] by simp
  obtain scan u where u: "ScanTableDescriptor backend (profile_table_id table) ?uid kMaxFingerprintMatches
      (DescriptorCandidateHasValidExtent table ?indexed backend) t = (scan, u)" by (metis surj_pair)
  have "mem (snd (ScanTableDescriptor backend (profile_table_id table) ?uid kMaxFingerprintMatches
      (DescriptorCandidateHasValidExtent table ?indexed backend) t)) = mem t"
    by (rule descriptor_mem) (rule DescriptorCandidate_mem)
  then have mu: "mem u = mem s" using u mt by simp
  consider (late) "expired" | (few) "\<not> expired" "length (profile_rows table) < 3 \<or> profile_record_size table = 0"
    | (descriptor) "\<not> expired" "\<not> (length (profile_rows table) < 3 \<or> profile_record_size table = 0)"
        "observation_code scan \<noteq> ''DESCRIPTOR_SCAN_UNSUPPORTED''"
    | (rows) "\<not> expired" "\<not> (length (profile_rows table) < 3 \<or> profile_record_size table = 0)"
        "observation_code scan = ''DESCRIPTOR_SCAN_UNSUPPORTED''" by metis
  then show ?thesis
  proof cases
    case late
    with assms t mt show ?thesis by (auto simp: discover_table_def Let_def)
  next
    case few
    with assms t mt show ?thesis by (auto simp: discover_table_def Let_def Reject_ok)
  next
    case descriptor
    obtain late v where v: "Expired backend u = (late, v)" by (metis surj_pair)
    then have mv: "mem v = mem s" using expired_mem [of u] mu by simp
    obtain found w where w: "(case ?indexed of Some layout \<Rightarrow> DiscoverIndexedDescriptor backend table layout scan v
        | None \<Rightarrow> DiscoverWordSwappedDescriptor backend table scan v) = (found, w)" by (metis surj_pair)
    have found: "mem w = mem s \<and> discovery_ok (mem s) table found"
    proof (cases ?indexed)
      case None
      then show ?thesis using DiscoverWordSwappedDescriptor_ok [of table scan v found w] w mv by simp
    next
      case (Some layout)
      then show ?thesis using DiscoverIndexedDescriptor_ok [of table layout scan v found w] w mv by simp
    qed
    obtain late' x where x: "Expired backend w = (late', x)" by (metis surj_pair)
    then have mx: "mem x = mem s" using expired_mem [of w] found by simp
    show ?thesis
      using assms descriptor mu mv mx found
      by (auto simp: discover_table_def Let_def t u v w x split: if_splits)
  next
    case rows
    obtain r1 v where v: "scan_rows backend clock ?uid 0 (profile_rows table) cache progress [] u = (r1, v)" by (metis surj_pair)
    then have mv: "mem v = mem s" using scan_rows_mem [of clock ?uid 0 "profile_rows table" cache progress "[]" u] mu by simp
    show ?thesis
    proof (cases r1)
      case (Inl timeout)
      with assms rows mv show ?thesis by (auto simp: discover_table_def Let_def t u v)
    next
      case (Inr p)
      then obtain scans cache' progress' where p: "r1 = Inr (scans, cache', progress')" by (metis surj_pair)
      obtain r2 w where w: "three_row_table backend clock table scans progress' v = (r2, w)" by (metis surj_pair)
      from three_row_table_ok [OF w] mv have two: "mem w = mem s" "\<forall>t. r2 = Inr t \<longrightarrow> discovery_ok (mem s) table t" by simp_all
      have "(r, s') = (case r2 of Inl timeout \<Rightarrow> (Inl timeout, w) | Inr found \<Rightarrow> (Inr (found, cache', progress'), w))"
        using assms rows by (simp add: discover_table_def Let_def t u v p w split: sum.split)
      with two show ?thesis by (cases r2) auto
    qed
  qed
qed

lemma discover_all_ok:
  "discover_all backend clock profile rest cache progress tables s = (r, s') \<Longrightarrow>
   list_all2 (discovery_ok (mem s)) before tables \<Longrightarrow>
   mem s' = mem s \<and> (\<forall>ts p. r = Inr (ts, p) \<longrightarrow> list_all2 (discovery_ok (mem s)) (before @ rest) ts)"
proof (induction rest arbitrary: cache progress tables before s)
  case (Cons table rest)
  obtain r1 t where t: "discover_table backend clock profile table cache progress s = (r1, t)" by (metis surj_pair)
  note one = discover_table_ok [OF t]
  show ?case
  proof (cases r1)
    case (Inl timeout)
    with Cons.prems one t show ?thesis by auto
  next
    case (Inr p)
    then obtain found cache' progress' where p: "r1 = Inr (found, cache', progress')" by (metis surj_pair)
    have found: "mem t = mem s" "discovery_ok (mem s) table found" using one p by auto
    have "discover_all backend clock profile rest cache' progress' (tables @ [found]) t = (r, s')"
      using Cons.prems(1) t p by simp
    from Cons.IH [OF this, of "before @ [table]"] found Cons.prems(2) show ?thesis
      by (simp add: list_all2_appendI)
  qed
qed auto

end

section \<open>Relationships and the whole discovery\<close>

text \<open>What a relationship of a resolved table amounts to in memory.\<close>

definition relationship_holds ::
  "memory \<Rightarrow> ProfileBundle \<Rightarrow> TableProfile \<Rightarrow> TableDescriptor \<Rightarrow> RelationshipConstraint \<Rightarrow> bool" where
  "relationship_holds m profile table d r \<longleftrightarrow>
     (\<exists>field target. FindField (bundle_schema profile) (profile_table_id table) (relationship_field r) = Some field \<and>
        reference_table_id field = Some (target_table_id r) \<and>
        target \<in> set (bundle_tables profile) \<and> profile_table_id target = target_table_id r \<and>
        source_row r < profile_capacity table \<and>
        (if td_storage d = kIndexedReferenceArray then virtual_mapped d field r
         else reference_matches (td_storage d) (mem_read m (relationship_address d field r) 4) r))"

definition related_ok :: "memory \<Rightarrow> ProfileBundle \<Rightarrow> TableProfile \<Rightarrow> TableDiscovery \<Rightarrow> bool" where
  "related_ok m profile table t \<longleftrightarrow> discovery_ok m table t \<and>
     (\<forall>d. disc_descriptor t = Some d \<longrightarrow>
        (\<forall>r \<in> set (profile_relationships table). relationship_holds m profile table d r))"

lemma relationship_field_of_Inr:
  assumes "relationship_field_of profile source resolved r = Inr field"
  shows "FindField (bundle_schema profile) (profile_table_id source) (relationship_field r) = Some field \<and>
    reference_table_id field = Some (target_table_id r) \<and> storage_bytes field = 4 \<and>
    source_row r < profile_capacity source \<and>
    (\<exists>target \<in> set (bundle_tables profile). profile_table_id target = target_table_id r)"
proof -
  from assms obtain i where
    i: "find (\<lambda>i. profile_table_id (bundle_tables profile ! i) = target_table_id r) [0..<length (bundle_tables profile)] = Some i"
    by (auto simp: relationship_field_of_def split: option.splits)
  then have "i < length (bundle_tables profile)" "profile_table_id (bundle_tables profile ! i) = target_table_id r"
    by (auto dest: Prelude.find_Some_iff)
  then have "\<exists>target \<in> set (bundle_tables profile). profile_table_id target = target_table_id r"
    using nth_mem by blast
  with assms i show ?thesis by (auto simp: relationship_field_of_def split: option.splits if_splits)
qed

lemma related_Reject: "disc_unique_id t = profile_unique_id table \<Longrightarrow>
  related_ok m profile table (Reject kRelationshipFailed what t)"
  by (simp add: related_ok_def Reject_ok) (simp add: Reject_def)

context table_scanner
begin

lemma check_relationship_ok:
  assumes "check_relationship backend profile source resolved d r s = (verdict, s')"
  shows "mem s' = mem s \<and> (verdict = None \<longrightarrow> relationship_holds (mem s) profile source d r)"
proof (cases "relationship_field_of profile source resolved r")
  case (Inl what)
  with assms show ?thesis by (auto simp: check_relationship_def)
next
  case (Inr field)
  note f = relationship_field_of_Inr [OF Inr]
  show ?thesis
  proof (cases "td_storage d = kIndexedReferenceArray")
    case True
    with assms Inr f show ?thesis by (auto simp: check_relationship_def relationship_holds_def split: if_splits)
  next
    case False
    let ?requests = "[\<lparr>request_address = relationship_address d field r, request_length = storage_bytes field\<rparr>]"
    obtain ok bytes t where t: "ReadBatch backend ?requests s = ((ok, bytes), t)" by (metis surj_pair)
    then have mt: "mem t = mem s" using batch_mem [of ?requests s] by simp
    have run: "(verdict, s') = (if \<not> ok \<or> map length bytes \<noteq> [storage_bytes field] then (Some ''RELATIONSHIP_READ_FAILED'', t)
        else (if reference_matches (td_storage d) (hd bytes) r then None else Some ''RELATIONSHIP_REFERENCE_MISMATCH'', t))"
      using assms False by (simp add: check_relationship_def Inr t)
    have "bytes = [mem_read (mem s) (relationship_address d field r) 4]" if ok
      using batch_read(1) [OF t that] f by simp
    with run mt False f show ?thesis by (auto simp: relationship_holds_def split: if_splits)
  qed
qed

lemma check_relationships_ok:
  "check_relationships backend profile source resolved d rs t s = (t', s') \<Longrightarrow> discovery_ok (mem s) source t \<Longrightarrow>
   disc_descriptor t = Some d \<Longrightarrow>
   mem s' = mem s \<and> discovery_ok (mem s) source t' \<and>
   (\<forall>d'. disc_descriptor t' = Some d' \<longrightarrow> d' = d \<and> (\<forall>r \<in> set rs. relationship_holds (mem s) profile source d r))"
proof (induction rs arbitrary: t s)
  case (Cons r rs)
  obtain verdict u where u: "check_relationship backend profile source resolved d r s = (verdict, u)" by (metis surj_pair)
  note one = check_relationship_ok [OF u]
  show ?case
  proof (cases verdict)
    case (Some what)
    with Cons.prems u one show ?thesis by (auto simp: Reject_ok) (simp_all add: discovery_ok_def Reject_def)
  next
    case None
    let ?t = "t\<lparr>disc_evidence := disc_evidence t @ [\<lparr>evidence_code = ''RELATIONSHIP_VALIDATED'', fingerprint_count = 0\<rparr>]\<rparr>"
    have "check_relationships backend profile source resolved d rs ?t u = (t', s')" using Cons.prems(1) u None by simp
    from Cons.IH [OF this] Cons.prems(2,3) one None show ?thesis by (auto simp: discovery_ok_def)
  qed
qed simp

lemma relate_all_ok:
  "relate_all backend clock profile resolved progress pairs tables s = (r, s') \<Longrightarrow>
   list_all (\<lambda>(table, t). discovery_ok (mem s) table t) pairs \<Longrightarrow>
   list_all2 (related_ok (mem s) profile) before tables \<Longrightarrow>
   mem s' = mem s \<and> (\<forall>ts. r = Inr ts \<longrightarrow> list_all2 (related_ok (mem s) profile) (before @ map fst pairs) ts)"
proof (induction pairs arbitrary: tables before s)
  case (Cons pair pairs)
  obtain source t where pair: "pair = (source, t)" by (metis surj_pair)
  obtain expired u where u: "Expired backend s = (expired, u)" by (metis surj_pair)
  then have mu: "mem u = mem s" using expired_mem [of s] by simp
  have ok: "discovery_ok (mem s) source t" using Cons.prems(2) pair by simp
  obtain t' v where v: "(case disc_descriptor t of
                 Some d \<Rightarrow> if disc_state t = kResolved
                   then check_relationships backend profile source resolved d (profile_relationships source) t u
                   else (t, u)
               | None \<Rightarrow> (t, u)) = (t', v)" by (metis surj_pair)
  have one: "mem v = mem s \<and> related_ok (mem s) profile source t'"
  proof (cases "disc_descriptor t")
    case None
    with v ok mu show ?thesis by (auto simp: related_ok_def)
  next
    case (Some d)
    then have "disc_state t = kResolved" using ok by (simp add: discovery_ok_def)
    then have run: "check_relationships backend profile source resolved d (profile_relationships source) t u = (t', v)"
      using v Some by simp
    from check_relationships_ok [OF run _ Some] ok mu show ?thesis by (auto simp: related_ok_def)
  qed
  show ?case
  proof (cases expired)
    case True
    with Cons.prems(1) u mu pair show ?thesis by auto
  next
    case False
    then have "relate_all backend clock profile resolved progress pairs (tables @ [t']) v = (r, s')"
      using Cons.prems(1) u v pair by (simp add: Let_def)
    from Cons.IH [OF this, of "before @ [source]"] one Cons.prems(2,3) pair show ?thesis
      by (simp add: list_all2_appendI)
  qed
qed auto

lemma DiscoverTables_ok:
  assumes "DiscoverTables backend clock profile s = (r, s')"
  shows "mem s' = mem s \<and> (disc_valid r \<longrightarrow> list_all2 (related_ok (mem s) profile) (bundle_tables profile) (disc_tables r))"
proof (cases "duplicate_ids (bundle_tables profile) {} {}")
  case (Some what)
  with assms show ?thesis by (auto simp: DiscoverTables_def failed_discovery_def)
next
  case None
  let ?start = "\<lparr>progress_counters = \<lparr>pages_scanned = 0, discovery_chunks_scanned = 0, discovery_scanned_bytes = 0,
                     discovery_candidate_windows = 0, capped_matches = 0\<rparr>, progress_completed = 0\<rparr>"
  obtain r1 t where t: "discover_all backend clock profile (bundle_tables profile) Map.empty ?start [] s = (r1, t)"
    by (metis surj_pair)
  note one = discover_all_ok [OF t, of "[]"]
  show ?thesis
  proof (cases r1)
    case (Inl timeout)
    with assms None t one show ?thesis by (auto simp: DiscoverTables_def failed_discovery_def)
  next
    case (Inr p)
    then obtain tables progress where p: "r1 = Inr (tables, progress)" by (metis surj_pair)
    have found: "mem t = mem s" "list_all2 (discovery_ok (mem s)) (bundle_tables profile) tables" using one p by auto
    let ?resolved = "\<lambda>i. disc_state (tables ! i) = kResolved"
    obtain r2 u where u: "relate_all backend clock profile ?resolved progress (zip (bundle_tables profile) tables) [] t = (r2, u)"
      by (metis surj_pair)
    have "list_all (\<lambda>(table, d). discovery_ok (mem t) table d) (zip (bundle_tables profile) tables)"
      using found by (auto simp: list_all2_iff list_all_iff)
    from relate_all_ok [OF u this, of "[]"] found
    have two: "mem u = mem s" "\<forall>ts. r2 = Inr ts \<longrightarrow> list_all2 (related_ok (mem s) profile) (bundle_tables profile) ts"
      by (simp_all add: list_all2_lengthD)
    have "(r, s') = (case r2 of Inl timeout \<Rightarrow> (failed_discovery ''OPERATION_TIMEOUT'' (Some timeout), u)
        | Inr ts \<Rightarrow> (\<lparr>disc_valid = True, disc_code = [], disc_tables = ts, disc_timeout = None\<rparr>, u))"
      using assms by (simp add: DiscoverTables_def None t p u split: sum.split)
    with two show ?thesis by (cases r2) (auto simp: failed_discovery_def)
  qed
qed

end

section \<open>Limits of the reports\<close>

definition counters_ok :: "DiscoveryCounters \<Rightarrow> bool" where
  "counters_ok c \<longleftrightarrow> pages_scanned c \<le> kMaxSafeDiagnosticCounter \<and>
     discovery_chunks_scanned c \<le> kMaxSafeDiagnosticCounter \<and> discovery_scanned_bytes c \<le> kMaxSafeDiagnosticCounter \<and>
     discovery_candidate_windows c \<le> kMaxSafeDiagnosticCounter \<and> capped_matches c \<le> kMaxFingerprintMatches"

definition progress_ok :: "Progress \<Rightarrow> bool" where
  "progress_ok p \<longleftrightarrow> counters_ok (progress_counters p) \<and> progress_completed p \<le> kMaxSafeDiagnosticCounter"

definition timeout_ok :: "nat set \<Rightarrow> DiscoveryTimeoutDetails \<Rightarrow> bool" where
  "timeout_ok uids t \<longleftrightarrow> timeout_table t \<in> Some ` uids \<and> completed_fingerprint_count t \<le> kMaxSafeDiagnosticCounter \<and>
     elapsed_milliseconds t \<le> kMaxSafeDiagnosticCounter \<and> counters_ok (timeout_counters t)"

lemma SaturatingAdd_cap: "a \<le> kMaxSafeDiagnosticCounter \<Longrightarrow> SaturatingAdd a b \<le> kMaxSafeDiagnosticCounter"
  by (auto simp: SaturatingAdd_def)

lemma progress_ok_add [simp]:
  "progress_ok p \<Longrightarrow> progress_ok (p\<lparr>progress_counters := AddCounters (progress_counters p) c\<rparr>)"
  "progress_ok p \<Longrightarrow> progress_ok (p\<lparr>progress_completed := SaturatingAdd (progress_completed p) k\<rparr>)"
  "progress_ok p \<Longrightarrow> progress_ok (p\<lparr>progress_counters := AddCounters (progress_counters p) c,
     progress_completed := SaturatingAdd (progress_completed p) k\<rparr>)"
  by (auto simp: progress_ok_def counters_ok_def AddCounters_def SaturatingAdd_cap)

lemma timed_out_ok [simp]:
  "progress_ok p \<Longrightarrow> uid \<in> uids \<Longrightarrow> timeout_ok uids (timed_out clock p stage (Some uid) ordinal s)"
  by (auto simp: timed_out_def timeout_ok_def progress_ok_def)

text \<open>A step of the discovery that keeps to the limits.\<close>

definition limited :: "nat set \<Rightarrow> (DiscoveryTimeoutDetails + 'a) \<Rightarrow> ('a \<Rightarrow> bool) \<Rightarrow> bool" where
  "limited uids r good \<longleftrightarrow> (case r of Inl timeout \<Rightarrow> timeout_ok uids timeout | Inr v \<Rightarrow> good v)"

lemma limited_simps [simp]:
  "limited uids (Inl timeout) good \<longleftrightarrow> timeout_ok uids timeout" "limited uids (Inr v) good \<longleftrightarrow> good v"
  by (simp_all add: limited_def)

lemma scan_rows_limited:
  assumes "uid \<in> uids"
  shows "progress_ok progress \<Longrightarrow>
    limited uids (fst (scan_rows backend clock uid index rows cache progress scans s)) (\<lambda>(scans, cache, p). progress_ok p)"
proof (induction rows arbitrary: index cache progress scans s)
  case (Cons row rows)
  show ?case
    using Cons.IH Cons.prems assms
    by (cases "cache (row_pattern row, row_mask row)") (auto simp: Let_def case_prod_beta)
qed simp

lemma three_row_table_limited:
  "progress_ok progress \<Longrightarrow> profile_unique_id table \<in> uids \<Longrightarrow>
   limited uids (fst (three_row_table backend clock table scans progress s)) (\<lambda>_. True)"
  by (auto simp: three_row_table_def Let_def split: prod.split option.split)

lemma discover_table_limited:
  assumes "progress_ok progress" and "profile_unique_id table \<in> uids"
  shows "limited uids (fst (discover_table backend clock profile table cache progress s)) (\<lambda>(t, cache, p). progress_ok p)"
proof -
  let ?uid = "profile_unique_id table"
  have rows: "limited uids (fst (case scan_rows backend clock ?uid 0 (profile_rows table) cache progress [] u of
                     (Inl timeout, s) \<Rightarrow> (Inl timeout, s)
                   | (Inr (scans, cache, progress), s) \<Rightarrow>
                       (case three_row_table backend clock table scans progress s of
                          (Inl timeout, s) \<Rightarrow> (Inl timeout, s)
                        | (Inr discovered, s) \<Rightarrow> (Inr (discovered, cache, progress), s)))) (\<lambda>(t, cache, p). progress_ok p)" for u
  proof -
    obtain r v where v: "scan_rows backend clock ?uid 0 (profile_rows table) cache progress [] u = (r, v)" by (metis surj_pair)
    have ok: "limited uids r (\<lambda>(scans, cache, p). progress_ok p)"
      using scan_rows_limited [OF assms(2,1), of backend clock 0 "profile_rows table" cache "[]" u] v by simp
    show ?thesis
    proof (cases r)
      case (Inr p)
      then obtain scans cache' progress' where p: "r = Inr (scans, cache', progress')" by (metis surj_pair)
      obtain r2 w where w: "three_row_table backend clock table scans progress' v = (r2, w)" by (metis surj_pair)
      have "limited uids r2 (\<lambda>_. True)"
        using three_row_table_limited [of progress' table uids backend clock scans v] ok assms(2) p w by simp
      then show ?thesis using ok p by (cases r2) (simp_all add: v w)
    qed (use ok v in simp)
  qed
  show ?thesis
    using assms unfolding discover_table_def Let_def
    by (auto simp: rows split: prod.split)
qed

lemma discover_all_limited:
  "progress_ok progress \<Longrightarrow> profile_unique_id ` set rest \<subseteq> uids \<Longrightarrow>
   limited uids (fst (discover_all backend clock profile rest cache progress tables s)) (\<lambda>(ts, p). progress_ok p)"
proof (induction rest arbitrary: cache progress tables s)
  case (Cons table rest)
  obtain r t where t: "discover_table backend clock profile table cache progress s = (r, t)" by (metis surj_pair)
  have ok: "limited uids r (\<lambda>(t, cache, p). progress_ok p)"
    using discover_table_limited [OF Cons.prems(1), of table uids backend clock profile cache s] Cons.prems(2) t by simp
  show ?case
  proof (cases r)
    case (Inr p)
    then obtain found cache' progress' where p: "r = Inr (found, cache', progress')" by (metis surj_pair)
    then show ?thesis using ok t Cons.IH [of progress' cache' "tables @ [found]" t] Cons.prems(2) by simp
  qed (use ok t in simp)
qed simp

lemma relate_all_limited:
  "progress_ok progress \<Longrightarrow> (profile_unique_id \<circ> fst) ` set pairs \<subseteq> uids \<Longrightarrow>
   limited uids (fst (relate_all backend clock profile resolved progress pairs tables s)) (\<lambda>_. True)"
proof (induction pairs arbitrary: tables s)
  case (Cons pair pairs)
  obtain source t where pair: "pair = (source, t)" by (metis surj_pair)
  show ?case
    using Cons.IH Cons.prems by (auto simp: pair Let_def case_prod_beta)
qed simp

lemma duplicate_ids_None:
  "duplicate_ids ts us is = None \<longleftrightarrow> distinct (map profile_unique_id ts) \<and> distinct (map profile_table_id ts) \<and>
     us \<inter> profile_unique_id ` set ts = {} \<and> is \<inter> profile_table_id ` set ts = {}"
  by (induction ts arbitrary: us "is") auto

section \<open>Properties\<close>

text \<open>The linear memory of the smoke tests with scans answered from a script.\<close>

interpretation linear_scanner: table_scanner LinearBackend linear_mem
  by unfold_locales (simp_all add: LinearBackend_def)

definition scripted_backend :: "(RowFingerprint \<Rightarrow> ScanObservation list) \<Rightarrow> linear_state DiscoveryBackend" where
  "scripted_backend script = LinearBackend\<lparr>Scan := \<lambda>fingerprint n s.
     (\<lparr>observation_complete = True, observation_code = [], observation_matches = take n (script fingerprint),
       observation_counters = no_counters\<rparr>, s)\<rparr>"

lemma scripted_simps [simp]:
  "ReadBatch (scripted_backend script) = ReadBatch LinearBackend"
  "ExtentExists (scripted_backend script) a n s = (True, s)" "Expired (scripted_backend script) s = (False, s)"
  "ScanTableDescriptor (scripted_backend script) = ScanTableDescriptor LinearBackend"
  by (simp_all add: scripted_backend_def LinearBackend_def)


definition sample_script :: "RowFingerprint \<Rightarrow> ScanObservation list" where
  "sample_script fingerprint =
     (let at = (\<lambda>a. \<lparr>observed_address = a, observed_allocation_base = 0x1000, observed_allocation_size = 400\<rparr>)
      in if row_index fingerprint = 0 then [at 0x1000]
         else if row_index fingerprint = 1 then [at 0x1004] else [at 0x0FF0, at 0x1014])"



lemma sample_world_bytes:
  "sample_bytes = [1, 2, 3, 4, 5, 6, 7, 8, 0, 0, 0, 0, 0, 0, 0, 0, 0, 0, 0, 0, 9, 10, 11, 12]"
  by code_simp



lemma scripted_scan [simp]:
  "Scan (scripted_backend script) f n s = (\<lparr>observation_complete = True, observation_code = [],
     observation_matches = take n (script f), observation_counters = no_counters\<rparr>, s)"
  by (simp add: scripted_backend_def)





lemma duplicate_ids_Some: "duplicate_ids ts us is = Some what \<Longrightarrow> what \<in> {''DUPLICATE_UNIQUE_ID'', ''DUPLICATE_BUILD_TABLE_ID''}"
  by (induction ts arbitrary: us "is") (auto split: if_splits)


text \<open>When a discovery is cut short. It then reports no table at all; the code names a duplicate number
  of the profile, and no memory was touched, or it is \<open>OPERATION_TIMEOUT\<close> with a report that names a table of the
  profile and keeps every counter, the fingerprint count and the elapsed milliseconds within the diagnostic
  limits.\<close>

lemma DiscoverTables_invalid:
  assumes "DiscoverTables backend clock profile s = (r, s')" and "\<not> disc_valid r"
  shows "disc_tables r = [] \<and>
    (case disc_timeout r of
       None \<Rightarrow> disc_code r \<in> {''DUPLICATE_UNIQUE_ID'', ''DUPLICATE_BUILD_TABLE_ID''} \<and> s' = s \<and>
         \<not> (distinct (map profile_unique_id (bundle_tables profile)) \<and> distinct (map profile_table_id (bundle_tables profile)))
     | Some timeout \<Rightarrow> disc_code r = ''OPERATION_TIMEOUT'' \<and>
         distinct (map profile_unique_id (bundle_tables profile)) \<and> distinct (map profile_table_id (bundle_tables profile)) \<and>
         timeout_ok (profile_unique_id ` set (bundle_tables profile)) timeout)"
proof (cases "duplicate_ids (bundle_tables profile) {} {}")
  case (Some what)
  then have "\<not> (distinct (map profile_unique_id (bundle_tables profile)) \<and> distinct (map profile_table_id (bundle_tables profile)))"
    using duplicate_ids_None [of "bundle_tables profile" "{}" "{}"] by auto
  then show ?thesis
    using assms(1) Some duplicate_ids_Some [OF Some] by (auto simp: DiscoverTables_def failed_discovery_def)
next
  case None
  let ?uids = "profile_unique_id ` set (bundle_tables profile)"
  let ?start = "\<lparr>progress_counters = \<lparr>pages_scanned = 0, discovery_chunks_scanned = 0, discovery_scanned_bytes = 0,
                     discovery_candidate_windows = 0, capped_matches = 0\<rparr>, progress_completed = 0\<rparr>"
  have ids: "distinct (map profile_unique_id (bundle_tables profile)) \<and> distinct (map profile_table_id (bundle_tables profile))"
    using None duplicate_ids_None [of "bundle_tables profile" "{}" "{}"] by auto
  obtain r1 t where t: "discover_all backend clock profile (bundle_tables profile) Map.empty ?start [] s = (r1, t)"
    by (metis surj_pair)
  have start: "progress_ok ?start" by (simp add: progress_ok_def counters_ok_def)
  have one: "limited ?uids r1 (\<lambda>(ts, p). progress_ok p)"
    using discover_all_limited [OF start, of "bundle_tables profile" ?uids backend clock profile Map.empty "[]" s] t by simp
  show ?thesis
  proof (cases r1)
    case (Inl timeout)
    with assms None t one ids show ?thesis by (auto simp: DiscoverTables_def failed_discovery_def)
  next
    case (Inr p)
    then obtain tables progress where p: "r1 = Inr (tables, progress)" by (metis surj_pair)
    let ?resolved = "\<lambda>i. disc_state (tables ! i) = kResolved"
    obtain r2 u where u: "relate_all backend clock profile ?resolved progress (zip (bundle_tables profile) tables) [] t = (r2, u)"
      by (metis surj_pair)
    have "(profile_unique_id \<circ> fst) ` set (zip (bundle_tables profile) tables) \<subseteq> ?uids"
      by (auto dest: set_zip_leftD)
    then have two: "limited ?uids r2 (\<lambda>_. True)"
      using relate_all_limited [of progress "zip (bundle_tables profile) tables" ?uids backend clock profile ?resolved "[]" t] one p u
      by simp
    show ?thesis
      using assms two ids by (cases r2) (auto simp: DiscoverTables_def None t p u failed_discovery_def)
  qed
qed

lemma DiscoverTables_invalid_witness:
  "disc_code (fst (DiscoverTables (scripted_backend sample_script) (\<lambda>_. 0)
      (sample_bundle\<lparr>bundle_tables := [sample_profile, sample_profile]\<rparr>) (sample_linear sample_bytes)))
    \<in> {''DUPLICATE_UNIQUE_ID'', ''DUPLICATE_BUILD_TABLE_ID''}"
proof -
  let ?twice = "sample_bundle\<lparr>bundle_tables := [sample_profile, sample_profile]\<rparr>"
  have run: "DiscoverTables (scripted_backend sample_script) (\<lambda>_. 0) ?twice (sample_linear sample_bytes) =
      (failed_discovery ''DUPLICATE_UNIQUE_ID'' None, sample_linear sample_bytes)"
    by (simp add: DiscoverTables_def)
  show ?thesis using DiscoverTables_invalid [OF run] by (simp add: run failed_discovery_def)
qed

text \<open>The long read of a discovery, in batches of ranges. It leaves the memory alone and it either
  fails or returns exactly the bytes of the range asked for.\<close>

lemma ReadContiguous_correct:
  assumes "table_scanner backend mem"
  shows "mem (snd (ReadContiguous backend address n s)) = mem s \<and>
    fst (ReadContiguous backend address n s) \<in> {None, Some (mem_read (mem s) address n)}"
  using table_scanner.ReadContiguous_mem [OF assms] table_scanner.ReadContiguous_read [OF assms]
  by (cases "fst (ReadContiguous backend address n s)") (auto, metis prod.collapse)

lemma sample_first_bytes: "mem_read (linear_mem (sample_linear sample_bytes)) 0x1000 4 = [1, 2, 3, 4]"
  by (simp add: sample_linear_def sample_world_bytes mem_read_def linear_mem_def upt_rec)

lemma ReadContiguous_correct_witness:
  "fst (ReadContiguous LinearBackend 0x1000 4 (sample_linear sample_bytes)) \<in> {None, Some [1, 2, 3, 4]}"
  using ReadContiguous_correct [OF linear_scanner.table_scanner_axioms, where address = "0x1000" and n = 4 and s = "sample_linear sample_bytes"]
  unfolding sample_first_bytes by simp

text \<open>One batch of a long read. As long as bytes are missing, a batch asks for at least one, never for
  more than 256 kilobytes or past the end, and every range of it is between one byte and the limit of a range.\<close>

lemma contiguous_batch_limits:
  assumes "contiguous_requests address completed n 0 = (requests, batch)" and "completed < n"
  shows "0 < batch \<and> batch \<le> kMaximumBatchBytes \<and> completed + batch \<le> n \<and>
    batch = sum_list (map request_length requests) \<and>
    (\<forall>r \<in> set requests. 0 < request_length r \<and> request_length r \<le> kMaximumReadRangeBytes)"
  using contiguous_requests_limits [OF assms(1)] contiguous_requests_read [OF assms(1)] assms(2)
    contiguous_batch_pos [OF assms(2), of address]
  by (auto simp: assms(1))

lemma contiguous_batch_limits_witness:
  "0 < (5::nat) \<and> (5::nat) \<le> kMaximumBatchBytes"
proof -
  have "contiguous_requests 0x1000 0 5 0 = ([\<lparr>request_address = 0x1000, request_length = 5\<rparr>], 5)"
    using contiguous_requests_step [of 0 0 5 5 "0x1000" "[]" 5] contiguous_requests_done [of 0 5 5 "0x1000"]
    by (simp add: kMaximumReadRangeBytes_def kMaximumBatchBytes_def)
  from contiguous_batch_limits [OF this] show ?thesis by simp
qed
end
