(* ===== verification/Research_Watch.thy ===== *)
theory Research_Watch
  imports Win_Memory
begin

text \<open>
  The hardware watchpoints of research_watch.cpp: four slots programmed into the debug registers of every
  thread of the process, the exception handler that records hits into a fixed buffer while other threads do the
  same, and the calls \<open>Arm\<close>, \<open>Collect\<close> and \<open>Disarm\<close>. The calls of Windows that list, suspend and
  reprogram threads are a record of functions over a state of the system with the laws of the locale
  \<open>thread_registers\<close>. The handler is a sequence of atomic actions, run alone (\<open>HandleException\<close>) or
  interleaved with other handlers and with the steps of a collection and of a clear (\<open>watch_step\<close>).
\<close>

section \<open>Slots and hits\<close>

definition kMaxSlots :: nat where "kMaxSlots = 4"
definition kMaxHits :: nat where "kMaxHits = 128"
definition kStackWords :: nat where "kStackWords = 256"
definition kPointerWords :: nat where "kPointerWords = 8"

datatype Kind = kWrite | kExecute

datatype ArmStatus = kOk | kInvalidAddress | kNoSlot | kNoThreads | kHandlerFailed

record ArmResult =
  arm_status :: ArmStatus
  arm_slot :: nat
  thread_count :: nat

record PointerSnapshot =
  words :: "u64 list"
  word_count :: nat

record Hit =
  hit_slot :: nat
  hit_thread_id :: u32
  hit_rip :: u64
  hit_rsp :: u64
  hit_rax :: u64
  hit_rbx :: u64
  hit_rbp :: u64
  hit_rsi :: u64
  hit_rdi :: u64
  hit_rcx :: u64
  hit_rdx :: u64
  hit_r8 :: u64
  hit_r9 :: u64
  hit_r10 :: u64
  hit_r11 :: u64
  rbx_memory :: PointerSnapshot
  rsi_memory :: PointerSnapshot
  rdi_memory :: PointerSnapshot
  rcx_memory :: PointerSnapshot
  rdx_memory :: PointerSnapshot
  r8_memory :: PointerSnapshot
  r9_memory :: PointerSnapshot
  hit_stack :: "u64 list"
  stack_count :: nat

record Snapshot =
  snapshot_hits :: "Hit list"
  snapshot_dropped :: nat

record SlotState =
  slot_address :: addr
  slot_kind :: Kind
  slot_length :: nat

record BufferedHit =
  buffered_hit :: Hit
  ready :: bool

record SavedThread =
  thread_id :: u32
  dr0 :: u64
  dr1 :: u64
  dr2 :: u64
  dr3 :: u64
  dr6 :: u64
  dr7 :: u64

definition no_words :: PointerSnapshot where
  "no_words = \<lparr>words = replicate kPointerWords 0, word_count = 0\<rparr>"

definition no_hit :: Hit where
  "no_hit = \<lparr>hit_slot = 0, hit_thread_id = 0, hit_rip = 0, hit_rsp = 0, hit_rax = 0, hit_rbx = 0, hit_rbp = 0,
     hit_rsi = 0, hit_rdi = 0, hit_rcx = 0, hit_rdx = 0, hit_r8 = 0, hit_r9 = 0, hit_r10 = 0, hit_r11 = 0,
     rbx_memory = no_words, rsi_memory = no_words, rdi_memory = no_words, rcx_memory = no_words,
     rdx_memory = no_words, r8_memory = no_words, r9_memory = no_words,
     hit_stack = replicate kStackWords 0, stack_count = 0\<rparr>"

definition free_slot :: SlotState where
  "free_slot = \<lparr>slot_address = 0, slot_kind = kWrite, slot_length = 1\<rparr>"

text \<open>The buffer of the handler: the counters \<open>g_hit_count\<close> and \<open>g_dropped\<close> and the array
  \<open>g_hits\<close>. The counters count hits, so they stay far below their 64 bits.\<close>

record HitBuffer =
  hit_count :: nat
  dropped :: nat
  hits :: "BufferedHit list"

definition ClearHits :: "HitBuffer \<Rightarrow> HitBuffer" where
  "ClearHits b = b\<lparr>hit_count := 0, dropped := 0, hits := map (\<lambda>buffered. buffered\<lparr>ready := False\<rparr>) (hits b)\<rparr>"

definition AnySlotActive :: "SlotState list \<Rightarrow> bool" where
  "AnySlotActive slots = list_ex (\<lambda>slot. slot_address slot \<noteq> 0) slots"

section \<open>Debug registers\<close>

text \<open>The part of a \<open>CONTEXT\<close> that \<open>CONTEXT_DEBUG_REGISTERS\<close> selects.\<close>

record CONTEXT =
  Dr0 :: u64
  Dr1 :: u64
  Dr2 :: u64
  Dr3 :: u64
  Dr6 :: u64
  Dr7 :: u64

definition LengthEncoding :: "nat \<Rightarrow> u64" where
  "LengthEncoding n = (if n = 1 then 0 else if n = 2 then 1 else if n = 4 then 3 else if n = 8 then 2 else 0)"

definition SetDebugAddress :: "CONTEXT \<Rightarrow> nat \<Rightarrow> u64 \<Rightarrow> CONTEXT" where
  "SetDebugAddress context slot address =
     (if slot = 0 then context\<lparr>Dr0 := address\<rparr> else if slot = 1 then context\<lparr>Dr1 := address\<rparr>
      else if slot = 2 then context\<lparr>Dr2 := address\<rparr> else if slot = 3 then context\<lparr>Dr3 := address\<rparr>
      else context)"

definition apply_slot :: "SlotState list \<Rightarrow> nat \<Rightarrow> CONTEXT \<Rightarrow> CONTEXT" where
  "apply_slot slots slot context =
     (let enable_shift = slot * 2; control_shift = 16 + slot * 4;
          context = context\<lparr>Dr7 := Dr7 context AND NOT (push_bit enable_shift 3)\<rparr>;
          context = context\<lparr>Dr7 := Dr7 context AND NOT (push_bit control_shift 0xF)\<rparr>;
          state = slots ! slot; address = slot_address state
      in if address = 0 then context
         else let context = SetDebugAddress context slot address;
                  context = context\<lparr>Dr7 := Dr7 context OR push_bit enable_shift 1\<rparr>
              in if slot_kind state = kWrite then
                   let control = 1 OR push_bit 2 (LengthEncoding (slot_length state))
                   in context\<lparr>Dr7 := Dr7 context OR push_bit control_shift control\<rparr>
                 else context)"

definition ApplySlots :: "SlotState list \<Rightarrow> CONTEXT \<Rightarrow> SavedThread \<Rightarrow> CONTEXT" where
  "ApplySlots slots context original =
     fold (apply_slot slots) [0..<kMaxSlots]
       (context\<lparr>Dr0 := dr0 original, Dr1 := dr1 original, Dr2 := dr2 original, Dr3 := dr3 original,
          Dr6 := 0, Dr7 := dr7 original\<rparr>)"

section \<open>Threads\<close>

text \<open>
  The calls of Windows on threads, over a state of the system. \<open>ThreadSnapshot\<close> stands for
  \<open>CreateToolhelp32Snapshot\<close> and the walk with \<open>Thread32First\<close> and \<open>Thread32Next\<close>: nothing when
  there is no snapshot, else the pairs of owner process and thread in the order of the walk. A handle is named by
  the thread it opens. The calling thread and process do not change during a call.
\<close>

record 's ThreadApi =
  GetCurrentThreadId :: "'s \<Rightarrow> u32"
  GetCurrentProcessId :: "'s \<Rightarrow> u32"
  ThreadSnapshot :: "'s \<Rightarrow> (u32 \<times> u32) list option \<times> 's"
  OpenThread :: "u32 \<Rightarrow> 's \<Rightarrow> bool \<times> 's"
  SuspendThread :: "u32 \<Rightarrow> 's \<Rightarrow> bool \<times> 's"
  GetThreadContext :: "u32 \<Rightarrow> 's \<Rightarrow> CONTEXT option \<times> 's"
  SetThreadContext :: "u32 \<Rightarrow> CONTEXT \<Rightarrow> 's \<Rightarrow> bool \<times> 's"
  ResumeThread :: "u32 \<Rightarrow> 's \<Rightarrow> 's"
  CloseHandle :: "u32 \<Rightarrow> 's \<Rightarrow> 's"
  AddVectoredExceptionHandler :: "'s \<Rightarrow> bool \<times> 's"
  RemoveVectoredExceptionHandler :: "'s \<Rightarrow> 's"

definition FindSavedThread :: "SavedThread list \<Rightarrow> u32 \<Rightarrow> SavedThread option" where
  "FindSavedThread saved_threads tid = find (\<lambda>saved. thread_id saved = tid) saved_threads"

definition save_thread :: "u32 \<Rightarrow> CONTEXT \<Rightarrow> SavedThread" where
  "save_thread tid context =
     \<lparr>thread_id = tid, dr0 = Dr0 context, dr1 = Dr1 context, dr2 = Dr2 context, dr3 = Dr3 context,
      dr6 = Dr6 context, dr7 = Dr7 context\<rparr>"

definition ConfigureThread ::
  "'s ThreadApi \<Rightarrow> SlotState list \<Rightarrow> u32 \<Rightarrow> SavedThread list \<Rightarrow> 's \<Rightarrow> bool \<times> SavedThread list \<times> 's" where
  "ConfigureThread api slots tid saved_threads s =
     (if tid = GetCurrentThreadId api s then (False, saved_threads, s)
      else let (thread, s) = OpenThread api tid s
        in if \<not> thread then (False, saved_threads, s)
           else let (suspended, s) = SuspendThread api tid s
             in if \<not> suspended then (False, saved_threads, CloseHandle api tid s)
                else let (context, s) = GetThreadContext api tid s;
                         (configured, saved_threads, s) =
                           (case context of
                              None \<Rightarrow> (False, saved_threads, s)
                            | Some context \<Rightarrow>
                                let saved = FindSavedThread saved_threads tid;
                                    (saved, saved_threads) =
                                      (if saved = None \<and> Dr7 context AND 0xFF = 0
                                       then (Some (save_thread tid context), saved_threads @ [save_thread tid context])
                                       else (saved, saved_threads))
                                in (case saved of
                                      None \<Rightarrow> (False, saved_threads, s)
                                    | Some saved \<Rightarrow>
                                        let (configured, s) = SetThreadContext api tid (ApplySlots slots context saved) s
                                        in (configured, saved_threads, s)))
                  in (configured, saved_threads, CloseHandle api tid (ResumeThread api tid s)))"

fun configure_threads ::
  "'s ThreadApi \<Rightarrow> SlotState list \<Rightarrow> (u32 \<times> u32) list \<Rightarrow> nat \<Rightarrow> SavedThread list \<Rightarrow> 's \<Rightarrow>
   nat \<times> SavedThread list \<times> 's" where
  "configure_threads api slots [] configured saved_threads s = (configured, saved_threads, s)"
| "configure_threads api slots ((owner, tid) # entries) configured saved_threads s =
     (if owner = GetCurrentProcessId api s then
        let (ok, saved_threads, s) = ConfigureThread api slots tid saved_threads s
        in configure_threads api slots entries (if ok then Suc configured else configured) saved_threads s
      else configure_threads api slots entries configured saved_threads s)"

definition ConfigureAllThreads ::
  "'s ThreadApi \<Rightarrow> SlotState list \<Rightarrow> SavedThread list \<Rightarrow> 's \<Rightarrow> nat \<times> SavedThread list \<times> 's" where
  "ConfigureAllThreads api slots saved_threads s =
     (let (snapshot, s) = ThreadSnapshot api s
      in case snapshot of
           None \<Rightarrow> (0, saved_threads, s)
         | Some entries \<Rightarrow> configure_threads api slots entries 0 saved_threads s)"

definition saved_context :: "SavedThread \<Rightarrow> CONTEXT" where
  "saved_context saved =
     \<lparr>Dr0 = dr0 saved, Dr1 = dr1 saved, Dr2 = dr2 saved, Dr3 = dr3 saved, Dr6 = dr6 saved, Dr7 = dr7 saved\<rparr>"

definition RestoreThread :: "'s ThreadApi \<Rightarrow> SavedThread \<Rightarrow> 's \<Rightarrow> bool \<times> 's" where
  "RestoreThread api saved s =
     (let tid = thread_id saved
      in if tid = GetCurrentThreadId api s then (False, s)
         else let (thread, s) = OpenThread api tid s
           in if \<not> thread then (False, s)
              else let (suspended, s) = SuspendThread api tid s
                in if \<not> suspended then (False, CloseHandle api tid s)
                   else let (context, s) = GetThreadContext api tid s;
                            (restored, s) =
                              (case context of
                                 None \<Rightarrow> (False, s)
                               | Some context \<Rightarrow> SetThreadContext api tid (saved_context saved) s)
                     in (restored, CloseHandle api tid (ResumeThread api tid s)))"

section \<open>The exception handler\<close>

text \<open>The registers the handler is given, beside the debug registers.\<close>

record CPU_CONTEXT = CONTEXT +
  EFlags :: u32
  Rip :: u64
  Rsp :: u64
  Rax :: u64
  Rbx :: u64
  Rbp :: u64
  Rsi :: u64
  Rdi :: u64
  Rcx :: u64
  Rdx :: u64
  R8 :: u64
  R9 :: u64
  R10 :: u64
  R11 :: u64

definition EXCEPTION_SINGLE_STEP :: u32 where "EXCEPTION_SINGLE_STEP = 0x80000004"

datatype disposition = EXCEPTION_CONTINUE_SEARCH | EXCEPTION_CONTINUE_EXECUTION

text \<open>A read of a word at an address: nothing when it faults, which the handler catches.\<close>

type_synonym reader = "u64 \<Rightarrow> u64 option"

text \<open>The guarded loop that copies words until the first fault.\<close>

function capture_words :: "reader \<Rightarrow> u64 \<Rightarrow> nat \<Rightarrow> nat \<Rightarrow> u64 list \<times> nat \<Rightarrow> u64 list \<times> nat" where
  "capture_words read address limit index (ws, n) =
     (if index < limit then
        (case read (address + 8 * word_of_nat index) of
           None \<Rightarrow> (ws, n)
         | Some word \<Rightarrow> capture_words read address limit (Suc index) (ws[index := word], index + 1))
      else (ws, n))"
  by pat_completeness auto
termination by (relation "measure (\<lambda>(_, _, limit, index, _). limit - index)") auto

declare capture_words.simps [simp del]

definition CapturePointer :: "reader \<Rightarrow> u64 \<Rightarrow> PointerSnapshot \<Rightarrow> PointerSnapshot" where
  "CapturePointer read address snapshot =
     (if address = 0 then snapshot
      else let (ws, n) = capture_words read address kPointerWords 0 (words snapshot, word_count snapshot)
           in \<lparr>words = ws, word_count = n\<rparr>)"

definition capture_hit :: "reader \<Rightarrow> u32 \<Rightarrow> CPU_CONTEXT \<Rightarrow> nat \<Rightarrow> Hit" where
  "capture_hit read tid context slot =
     (let (stack, n) = capture_words read (Rsp context) kStackWords 0 (hit_stack no_hit, stack_count no_hit)
      in \<lparr>hit_slot = slot, hit_thread_id = tid, hit_rip = Rip context, hit_rsp = Rsp context,
          hit_rax = Rax context, hit_rbx = Rbx context, hit_rbp = Rbp context, hit_rsi = Rsi context,
          hit_rdi = Rdi context, hit_rcx = Rcx context, hit_rdx = Rdx context, hit_r8 = R8 context,
          hit_r9 = R9 context, hit_r10 = R10 context, hit_r11 = R11 context,
          rbx_memory = CapturePointer read (Rbx context) no_words,
          rsi_memory = CapturePointer read (Rsi context) no_words,
          rdi_memory = CapturePointer read (Rdi context) no_words,
          rcx_memory = CapturePointer read (Rcx context) no_words,
          rdx_memory = CapturePointer read (Rdx context) no_words,
          r8_memory = CapturePointer read (R8 context) no_words,
          r9_memory = CapturePointer read (R9 context) no_words,
          hit_stack = stack, stack_count = n\<rparr>)"

text \<open>
  Where a handler stands: before a slot (and whether a slot was its own so far), after it took an ordinal at or
  beyond the end of the buffer, after it took one inside and cleared its entry, or after the last slot.
\<close>

datatype HandlerState = AtSlot nat bool | Dropping nat | Capturing nat nat | Finished bool

definition kHandlerStart :: HandlerState where "kHandlerStart = AtSlot 0 False"

text \<open>One atomic action of a handler on the buffer.\<close>

fun handler_step ::
  "SlotState list \<Rightarrow> reader \<Rightarrow> u32 \<Rightarrow> CPU_CONTEXT \<Rightarrow> HandlerState \<Rightarrow> HitBuffer \<Rightarrow> HandlerState \<times> HitBuffer" where
  "handler_step slots read tid context (AtSlot slot ours) b =
     (if slot < kMaxSlots then
        let fired = Dr6 context AND 0xF
        in if fired AND push_bit slot 1 = 0 \<or> slot_address (slots ! slot) = 0 then (AtSlot (Suc slot) ours, b)
           else let ordinal = hit_count b; b = b\<lparr>hit_count := hit_count b + 1\<rparr>
                in if kMaxHits \<le> ordinal then (Dropping slot, b)
                   else (Capturing slot ordinal,
                     b\<lparr>hits := (hits b)[ordinal := (hits b ! ordinal)\<lparr>buffered_hit := no_hit\<rparr>]\<rparr>)
      else (Finished ours, b))"
| "handler_step slots read tid context (Dropping slot) b = (AtSlot (Suc slot) True, b\<lparr>dropped := dropped b + 1\<rparr>)"
| "handler_step slots read tid context (Capturing slot ordinal) b =
     (AtSlot (Suc slot) True,
      b\<lparr>hits := (hits b)[ordinal := \<lparr>buffered_hit = capture_hit read tid context slot, ready = True\<rparr>]\<rparr>)"
| "handler_step slots read tid context (Finished ours) b = (Finished ours, b)"

fun actions_left :: "HandlerState \<Rightarrow> nat" where
  "actions_left (AtSlot slot ours) = 1 + 2 * (kMaxSlots - slot)"
| "actions_left (Dropping slot) = 2 + 2 * (kMaxSlots - Suc slot)"
| "actions_left (Capturing slot ordinal) = 2 + 2 * (kMaxSlots - Suc slot)"
| "actions_left (Finished ours) = 0"

lemma actions_left_step:
  "(\<forall>ours. h \<noteq> Finished ours) \<Longrightarrow> actions_left (fst (handler_step slots read tid context h b)) < actions_left h"
  by (cases h) (auto simp: Let_def kMaxSlots_def split: if_splits)

function run_handler ::
  "SlotState list \<Rightarrow> reader \<Rightarrow> u32 \<Rightarrow> CPU_CONTEXT \<Rightarrow> HandlerState \<Rightarrow> HitBuffer \<Rightarrow> bool \<times> HitBuffer" where
  "run_handler slots read tid context h b =
     (case h of
        Finished ours \<Rightarrow> (ours, b)
      | _ \<Rightarrow> run_handler slots read tid context (fst (handler_step slots read tid context h b))
               (snd (handler_step slots read tid context h b)))"
  by pat_completeness auto
termination
  by (relation "measure (\<lambda>(_, _, _, _, h, _). actions_left h)")
    (simp_all del: handler_step.simps actions_left.simps add: actions_left_step case_prod_beta)

declare run_handler.simps [simp del]

text \<open>The whole handler, run alone, on the code and the registers of the exception; a null pointer is \<open>None\<close>.\<close>

record EXCEPTION_POINTERS =
  ExceptionCode :: "u32 option"
  ContextRecord :: "CPU_CONTEXT option"

definition HandleException ::
  "SlotState list \<Rightarrow> reader \<Rightarrow> u32 \<Rightarrow> EXCEPTION_POINTERS option \<Rightarrow> HitBuffer \<Rightarrow>
   disposition \<times> EXCEPTION_POINTERS option \<times> HitBuffer" where
  "HandleException slots read tid pointers b =
     (case pointers of
        None \<Rightarrow> (EXCEPTION_CONTINUE_SEARCH, pointers, b)
      | Some exception \<Rightarrow>
          (case (ExceptionCode exception, ContextRecord exception) of
             (Some exception_code, Some context) \<Rightarrow>
               if exception_code \<noteq> EXCEPTION_SINGLE_STEP then (EXCEPTION_CONTINUE_SEARCH, pointers, b)
               else let (ours, b) = run_handler slots read tid context kHandlerStart b
                    in if \<not> ours then (EXCEPTION_CONTINUE_SEARCH, pointers, b)
                       else (EXCEPTION_CONTINUE_EXECUTION,
                         Some (exception\<lparr>ContextRecord := Some (context\<lparr>Dr6 := 0, EFlags := EFlags context OR push_bit 16 1\<rparr>)\<rparr>), b)
           | _ \<Rightarrow> (EXCEPTION_CONTINUE_SEARCH, pointers, b)))"

section \<open>The calls\<close>

record Watch =
  watch_slots :: "SlotState list"
  watch_buffer :: HitBuffer
  watch_saved :: "SavedThread list"
  handler_installed :: bool

definition new_watch :: Watch where
  "new_watch = \<lparr>watch_slots = replicate kMaxSlots free_slot,
     watch_buffer = \<lparr>hit_count = 0, dropped = 0, hits = replicate kMaxHits \<lparr>buffered_hit = no_hit, ready = False\<rparr>\<rparr>,
     watch_saved = [], handler_installed = False\<rparr>"

definition arm_failed :: "ArmStatus \<Rightarrow> ArmResult" where
  "arm_failed status = \<lparr>arm_status = status, arm_slot = 0, thread_count = 0\<rparr>"

definition free_slot_index :: "SlotState list \<Rightarrow> nat" where
  "free_slot_index ss =
     (case find (\<lambda>i. slot_address (ss ! i) = 0) [0..<kMaxSlots] of None \<Rightarrow> kMaxSlots | Some i \<Rightarrow> i)"

definition arm_invalid :: "query \<Rightarrow> Kind \<Rightarrow> addr \<Rightarrow> nat \<Rightarrow> bool" where
  "arm_invalid VirtualQuery kind address n \<longleftrightarrow>
     (kind = kExecute \<and> \<not> IsExecutable VirtualQuery address) \<or>
     (kind = kWrite \<and> ((n \<noteq> 1 \<and> n \<noteq> 2 \<and> n \<noteq> 4 \<and> n \<noteq> 8) \<or> unat address mod n \<noteq> 0 \<or>
        \<not> IsWritable VirtualQuery address (word_of_nat n)))"

text \<open>The handler is added when there is none yet, and the buffer starts empty with it.\<close>

definition install_handler :: "'s ThreadApi \<Rightarrow> Watch \<Rightarrow> 's \<Rightarrow> bool \<times> Watch \<times> 's" where
  "install_handler api w s =
     (if handler_installed w then (True, w, s)
      else let (added, s) = AddVectoredExceptionHandler api s
           in (added, if added then w\<lparr>handler_installed := True, watch_buffer := ClearHits (watch_buffer w)\<rparr> else w, s))"

text \<open>The slot is filled and every thread reprogrammed; without any thread the slot is freed again.\<close>

definition place_watch :: "'s ThreadApi \<Rightarrow> nat \<Rightarrow> SlotState \<Rightarrow> Watch \<Rightarrow> 's \<Rightarrow> ArmResult \<times> Watch \<times> 's" where
  "place_watch api slot state w s =
     (let w = w\<lparr>watch_slots := (watch_slots w)[slot := state]\<rparr>;
          (count, saved, s) = ConfigureAllThreads api (watch_slots w) (watch_saved w) s;
          w = w\<lparr>watch_saved := saved\<rparr>
      in if count = 0 then
           let w = w\<lparr>watch_slots := (watch_slots w)[slot := state\<lparr>slot_address := 0\<rparr>]\<rparr>
           in if \<not> AnySlotActive (watch_slots w) then
                (arm_failed kNoThreads, w\<lparr>handler_installed := False, watch_saved := []\<rparr>,
                 RemoveVectoredExceptionHandler api s)
              else (arm_failed kNoThreads, w, s)
         else (\<lparr>arm_status = kOk, arm_slot = slot, thread_count = count\<rparr>, w, s))"

definition watch_state :: "Kind \<Rightarrow> addr \<Rightarrow> nat \<Rightarrow> SlotState" where
  "watch_state kind address n =
     \<lparr>slot_address = address, slot_kind = kind, slot_length = (if kind = kExecute then 1 else n)\<rparr>"

definition Arm ::
  "'s ThreadApi \<Rightarrow> query \<Rightarrow> Kind \<Rightarrow> addr \<Rightarrow> nat \<Rightarrow> Watch \<Rightarrow> 's \<Rightarrow> ArmResult \<times> Watch \<times> 's" where
  "Arm api VirtualQuery kind address n w s =
     (if arm_invalid VirtualQuery kind address n then (arm_failed kInvalidAddress, w, s)
      else let slot = free_slot_index (watch_slots w)
        in if slot = kMaxSlots then (arm_failed kNoSlot, w, s)
           else let (added, w, s) = install_handler api w s
             in if \<not> added then (arm_failed kHandlerFailed, w, s)
                else place_watch api slot (watch_state kind address n) w s)"

definition Collect :: "bool \<Rightarrow> HitBuffer \<Rightarrow> Snapshot \<times> HitBuffer" where
  "Collect clear b =
     (let count = min (hit_count b) kMaxHits;
          snapshot = \<lparr>snapshot_hits = map buffered_hit (filter ready (map (\<lambda>i. hits b ! i) [0..<count])),
                      snapshot_dropped = dropped b\<rparr>
      in (snapshot, if clear then ClearHits b else b))"

fun restore_threads :: "'s ThreadApi \<Rightarrow> SavedThread list \<Rightarrow> nat \<Rightarrow> 's \<Rightarrow> nat \<times> 's" where
  "restore_threads api [] restored s = (restored, s)"
| "restore_threads api (saved # rest) restored s =
     (let (ok, s) = RestoreThread api saved s
      in restore_threads api rest (if ok then Suc restored else restored) s)"

definition Disarm :: "'s ThreadApi \<Rightarrow> Watch \<Rightarrow> 's \<Rightarrow> nat \<times> Watch \<times> 's" where
  "Disarm api w s =
     (if \<not> handler_installed w \<and> \<not> AnySlotActive (watch_slots w) then (0, w, s)
      else let (restored, s) = restore_threads api (watch_saved w) 0 s;
               w = w\<lparr>watch_slots := map (\<lambda>slot. slot\<lparr>slot_address := 0\<rparr>) (watch_slots w)\<rparr>;
               s = (if handler_installed w then RemoveVectoredExceptionHandler api s else s)
           in (restored, w\<lparr>handler_installed := False, watch_saved := []\<rparr>, s))"

fun ArmStatusCode :: "ArmStatus \<Rightarrow> string" where
  "ArmStatusCode kOk = ''ok''"
| "ArmStatusCode kInvalidAddress = ''invalid_address''"
| "ArmStatusCode kNoSlot = ''no_slot''"
| "ArmStatusCode kNoThreads = ''no_threads''"
| "ArmStatusCode kHandlerFailed = ''handler_failed''"

section \<open>What the debug registers say\<close>

definition slot_control :: "SlotState \<Rightarrow> u64" where
  "slot_control state = 1 OR push_bit 2 (LengthEncoding (slot_length state))"

lemma bit_three: "bit (3 :: u64) k \<longleftrightarrow> k < 2"
  using bit_mask_iff [of 2 k, where 'a = "64 word"] bit_imp_le_length [of "3 :: u64" k] by (auto simp: mask_eq_exp_minus_1)

lemma bit_fifteen: "bit (0xF :: u64) k \<longleftrightarrow> k < 4"
  using bit_mask_iff [of 4 k, where 'a = "64 word"] bit_imp_le_length [of "0xF :: u64" k] by (auto simp: mask_eq_exp_minus_1)

lemma LengthEncoding_bits: "bit (LengthEncoding n) k \<Longrightarrow> k < 2"
proof -
  assume "bit (LengthEncoding n) k"
  moreover have "take_bit 2 (LengthEncoding n) = LengthEncoding n" by (simp add: LengthEncoding_def)
  ultimately show ?thesis by (metis bit_take_bit_iff)
qed

lemma slot_control_bits: "bit (slot_control state) k \<Longrightarrow> k < 4"
  using LengthEncoding_bits [of "slot_length state" "k - 2"] by (auto simp: slot_control_def bit_simps)

lemma Dr7_SetDebugAddress [simp]: "Dr7 (SetDebugAddress context slot address) = Dr7 context"
  by (simp add: SetDebugAddress_def)

lemma apply_slot_bit:
  assumes "slot < 4" and "n < 64"
  shows "bit (Dr7 (apply_slot slots slot context)) n \<longleftrightarrow>
    (if n div 2 = slot then even n \<and> slot_address (slots ! slot) \<noteq> 0
     else if 16 \<le> n \<and> n < 32 \<and> (n - 16) div 4 = slot then
       slot_address (slots ! slot) \<noteq> 0 \<and> slot_kind (slots ! slot) = kWrite \<and>
       bit (slot_control (slots ! slot)) ((n - 16) mod 4)
     else bit (Dr7 context) n)"
proof -
  let ?state = "slots ! slot"
  have Dr7: "Dr7 (apply_slot slots slot context) =
      (let kept = Dr7 context AND NOT (push_bit (slot * 2) 3) AND NOT (push_bit (16 + slot * 4) 0xF)
       in if slot_address ?state = 0 then kept
          else if slot_kind ?state = kWrite
          then kept OR push_bit (slot * 2) 1 OR push_bit (16 + slot * 4) (slot_control ?state)
          else kept OR push_bit (slot * 2) 1)"
    by (simp add: apply_slot_def Let_def slot_control_def and.assoc or.assoc)
  have enable_mask: "bit (push_bit (slot * 2) (3 :: u64)) n \<longleftrightarrow> n div 2 = slot"
    using assms by (simp only: bit_push_bit_iff bit_three) auto
  have control_mask: "bit (push_bit (16 + slot * 4) (0xF :: u64)) n \<longleftrightarrow> 16 \<le> n \<and> n < 32 \<and> (n - 16) div 4 = slot"
    using assms by (simp only: bit_push_bit_iff bit_fifteen) auto
  have kept: "bit (Dr7 context AND NOT (push_bit (slot * 2) 3) AND NOT (push_bit (16 + slot * 4) 0xF)) n \<longleftrightarrow>
      bit (Dr7 context) n \<and> n div 2 \<noteq> slot \<and> \<not> (16 \<le> n \<and> n < 32 \<and> (n - 16) div 4 = slot)"
    using assms by (auto simp only: bit_and_iff bit_not_iff enable_mask control_mask) simp_all
  have enabled: "bit (push_bit (slot * 2) (1 :: u64)) n \<longleftrightarrow> n = 2 * slot"
    using assms by (auto simp: bit_simps)
  have control: "bit (push_bit (16 + slot * 4) (slot_control ?state)) n \<longleftrightarrow>
      16 \<le> n \<and> n < 32 \<and> (n - 16) div 4 = slot \<and> bit (slot_control ?state) ((n - 16) mod 4)"
  proof (cases "16 \<le> n \<and> n < 32 \<and> (n - 16) div 4 = slot")
    case True
    then have "n - (16 + slot * 4) = (n - 16) mod 4" "16 + slot * 4 \<le> n" by (auto simp: modulo_nat_def)
    with True assms show ?thesis by (simp add: bit_push_bit_iff)
  next
    case False
    then have "\<not> (16 + slot * 4 \<le> n \<and> n - (16 + slot * 4) < 4)" using assms by auto
    with False show ?thesis using slot_control_bits [of ?state] by (auto simp: bit_push_bit_iff)
  qed
  have apart: "n div 2 = slot \<Longrightarrow> \<not> (16 \<le> n \<and> n < 32 \<and> (n - 16) div 4 = slot)"
    "n = 2 * slot \<longleftrightarrow> n div 2 = slot \<and> even n" using assms(1) by auto
  show ?thesis
    using apart unfolding Dr7 Let_def by (simp add: bit_or_iff kept enabled control del: push_bit_of_1) auto
qed

lemma fold_slots_bit:
  assumes "n < 64"
  shows "k \<le> 4 \<Longrightarrow> bit (Dr7 (fold (apply_slot slots) [0..<k] context)) n \<longleftrightarrow>
    (if n div 2 < k then even n \<and> slot_address (slots ! (n div 2)) \<noteq> 0
     else if 16 \<le> n \<and> n < 32 \<and> (n - 16) div 4 < k then
       slot_address (slots ! ((n - 16) div 4)) \<noteq> 0 \<and> slot_kind (slots ! ((n - 16) div 4)) = kWrite \<and>
       bit (slot_control (slots ! ((n - 16) div 4))) ((n - 16) mod 4)
     else bit (Dr7 context) n)"
proof (induction k)
  case (Suc k)
  have step: "fold (apply_slot slots) [0..<Suc k] context = apply_slot slots k (fold (apply_slot slots) [0..<k] context)"
    by simp
  have apart: "n div 2 = k \<Longrightarrow> \<not> 16 \<le> n" using Suc.prems by auto
  show ?case
    using Suc.IH Suc.prems apart unfolding step by (auto simp: apply_slot_bit [OF _ assms] less_Suc_eq)
qed simp

lemma ApplySlots_Dr7:
  assumes "n < 64"
  shows "bit (Dr7 (ApplySlots slots context original)) n \<longleftrightarrow>
    (if n < 8 then even n \<and> slot_address (slots ! (n div 2)) \<noteq> 0
     else if 16 \<le> n \<and> n < 32 then
       slot_address (slots ! ((n - 16) div 4)) \<noteq> 0 \<and> slot_kind (slots ! ((n - 16) div 4)) = kWrite \<and>
       bit (slot_control (slots ! ((n - 16) div 4))) ((n - 16) mod 4)
     else bit (dr7 original) n)"
proof -
  have "n div 2 < 4 \<longleftrightarrow> n < 8" "16 \<le> n \<and> n < 32 \<and> (n - 16) div 4 < 4 \<longleftrightarrow> 16 \<le> n \<and> n < 32" by auto
  then show ?thesis
    by (simp add: ApplySlots_def kMaxSlots_def fold_slots_bit [OF assms])
qed

lemma apply_slot_registers:
  "Dr0 (apply_slot slots slot context) =
     (if slot = 0 \<and> slot_address (slots ! slot) \<noteq> 0 then slot_address (slots ! slot) else Dr0 context)"
  "Dr1 (apply_slot slots slot context) =
     (if slot = 1 \<and> slot_address (slots ! slot) \<noteq> 0 then slot_address (slots ! slot) else Dr1 context)"
  "Dr2 (apply_slot slots slot context) =
     (if slot = 2 \<and> slot_address (slots ! slot) \<noteq> 0 then slot_address (slots ! slot) else Dr2 context)"
  "Dr3 (apply_slot slots slot context) =
     (if slot = 3 \<and> slot_address (slots ! slot) \<noteq> 0 then slot_address (slots ! slot) else Dr3 context)"
  "Dr6 (apply_slot slots slot context) = Dr6 context"
  by (auto simp: apply_slot_def Let_def SetDebugAddress_def)

text \<open>What is programmed into the debug registers of a thread. The enable bit of a slot is set exactly when
  the slot is active and its second bit is clear; the four control bits of a slot say "write" and its length
  exactly for an active write slot and are clear otherwise; every other bit of \<open>Dr7\<close> is the original one.
  An address register holds the address of its slot when that is active, its original value otherwise, and the
  status register is clear.\<close>

lemma ApplySlots_programs:
  "(\<forall>n. bit (Dr7 (ApplySlots slots context original)) n = (n < 64 \<and>
      (if n < 8 then even n \<and> slot_address (slots ! (n div 2)) \<noteq> 0
       else if 16 \<le> n \<and> n < 32 then
         slot_address (slots ! ((n - 16) div 4)) \<noteq> 0 \<and> slot_kind (slots ! ((n - 16) div 4)) = kWrite \<and>
         bit (slot_control (slots ! ((n - 16) div 4))) ((n - 16) mod 4)
       else bit (dr7 original) n))) \<and>
    map (\<lambda>r. r (ApplySlots slots context original)) [Dr0, Dr1, Dr2, Dr3, Dr6] =
      map2 (\<lambda>slot old. if slot_address (slots ! slot) \<noteq> 0 then slot_address (slots ! slot) else old)
        [0, 1, 2, 3] [dr0 original, dr1 original, dr2 original, dr3 original] @ [0]"
proof (rule conjI, rule allI)
  fix n
  show "bit (Dr7 (ApplySlots slots context original)) n = (n < 64 \<and>
      (if n < 8 then even n \<and> slot_address (slots ! (n div 2)) \<noteq> 0
       else if 16 \<le> n \<and> n < 32 then
         slot_address (slots ! ((n - 16) div 4)) \<noteq> 0 \<and> slot_kind (slots ! ((n - 16) div 4)) = kWrite \<and>
         bit (slot_control (slots ! ((n - 16) div 4))) ((n - 16) mod 4)
       else bit (dr7 original) n))"
  proof (cases "n < 64")
    case True
    then show ?thesis by (simp only: ApplySlots_Dr7 simp_thms)
  next
    case False
    then show ?thesis using bit_imp_le_length [of "Dr7 (ApplySlots slots context original)" n] by auto
  qed
next
  have "[0..<kMaxSlots] = [0, 1, 2, 3]" by (simp add: kMaxSlots_def upt_rec eval_nat_numeral)
  then show "map (\<lambda>r. r (ApplySlots slots context original)) [Dr0, Dr1, Dr2, Dr3, Dr6] =
      map2 (\<lambda>slot old. if slot_address (slots ! slot) \<noteq> 0 then slot_address (slots ! slot) else old)
        [0, 1, 2, 3] [dr0 original, dr1 original, dr2 original, dr3 original] @ [0]"
    by (simp add: ApplySlots_def apply_slot_registers)
qed

section \<open>The registers of the threads\<close>

text \<open>What the calls of Windows promise of the debug registers: only a successful \<open>SetThreadContext\<close> changes
  them, to the context it is given, and \<open>GetThreadContext\<close> reads them.\<close>

locale thread_registers =
  fixes api :: "'s ThreadApi" and regs :: "'s \<Rightarrow> u32 \<Rightarrow> CONTEXT"
  assumes snapshot_regs: "regs (snd (ThreadSnapshot api s)) = regs s"
    and open_regs: "regs (snd (OpenThread api tid s)) = regs s"
    and suspend_regs: "regs (snd (SuspendThread api tid s)) = regs s"
    and get_regs: "regs (snd (GetThreadContext api tid s)) = regs s"
    and get_value: "fst (GetThreadContext api tid s) = Some c \<Longrightarrow> c = regs s tid"
    and set_regs: "regs (snd (SetThreadContext api tid c s)) =
      (if fst (SetThreadContext api tid c s) then (regs s)(tid := c) else regs s)"
    and resume_regs: "regs (ResumeThread api tid s) = regs s"
    and close_regs: "regs (CloseHandle api tid s) = regs s"
    and add_regs: "regs (snd (AddVectoredExceptionHandler api s)) = regs s"
    and remove_regs: "regs (RemoveVectoredExceptionHandler api s) = regs s"

text \<open>
  What is known of the registers while threads are watched, for every thread that is not lost: a saved
  thread has its original registers on record, any other thread still has them.
\<close>

definition kept :: "(u32 \<Rightarrow> CONTEXT) \<Rightarrow> u32 set \<Rightarrow> SavedThread list \<Rightarrow> (u32 \<Rightarrow> CONTEXT) \<Rightarrow> bool" where
  "kept original lost saved r \<longleftrightarrow> distinct (map thread_id saved) \<and>
     (\<forall>sv \<in> set saved. thread_id sv \<notin> lost \<longrightarrow> saved_context sv = original (thread_id sv)) \<and>
     (\<forall>t. t \<notin> lost \<longrightarrow> t \<notin> thread_id ` set saved \<longrightarrow> r t = original t)"

lemma FindSavedThread_None: "FindSavedThread saved tid = None \<longleftrightarrow> tid \<notin> thread_id ` set saved"
  by (auto simp: FindSavedThread_def find_None)

lemma FindSavedThread_Some: "FindSavedThread saved tid = Some sv \<Longrightarrow> sv \<in> set saved \<and> thread_id sv = tid"
  by (auto simp: FindSavedThread_def dest: Prelude.find_Some_iff)

lemma save_thread_simps [simp]: "thread_id (save_thread tid c) = tid" "saved_context (save_thread tid c) = c"
  by (simp_all add: save_thread_def saved_context_def)

context thread_registers
begin

lemmas api_regs [simp] = snapshot_regs open_regs suspend_regs get_regs resume_regs close_regs add_regs remove_regs

lemma ConfigureThread_kept:
  assumes "ConfigureThread api slots tid saved s = (ok, saved', s')" and "kept original lost saved (regs s)"
  shows "kept original lost saved' (regs s')"
proof -
  have keep: "\<And>t. t \<notin> lost \<Longrightarrow> \<forall>x \<in> set saved. t \<noteq> thread_id x \<Longrightarrow> regs s t = original t"
    and old: "\<And>sv. sv \<in> set saved \<Longrightarrow> thread_id sv \<notin> lost \<Longrightarrow> saved_context sv = original (thread_id sv)"
    and ids: "distinct (map thread_id saved)" using assms(2) by (auto simp: kept_def)
  show ?thesis
    using assms(1) ids keep old
    by (auto simp: ConfigureThread_def Let_def case_prod_beta kept_def set_regs FindSavedThread_None image_iff
          split: if_splits option.splits dest!: FindSavedThread_Some get_value)
qed

lemma configure_threads_kept:
  "configure_threads api slots entries n saved s = (n', saved', s') \<Longrightarrow> kept original lost saved (regs s) \<Longrightarrow>
   kept original lost saved' (regs s')"
proof (induction entries arbitrary: n saved s)
  case (Cons entry entries)
  obtain owner tid where entry: "entry = (owner, tid)" by (metis surj_pair)
  obtain ok saved1 s1 where one: "ConfigureThread api slots tid saved s = (ok, saved1, s1)" by (metis surj_pair)
  show ?case
    using Cons.IH Cons.prems ConfigureThread_kept [OF one Cons.prems(2)] by (simp add: entry one split: if_splits)
qed simp

lemma ConfigureAllThreads_kept:
  "ConfigureAllThreads api slots saved s = (n, saved', s') \<Longrightarrow> kept original lost saved (regs s) \<Longrightarrow>
   kept original lost saved' (regs s')"
  by (auto simp: ConfigureAllThreads_def case_prod_beta split: option.splits dest: configure_threads_kept)

lemma RestoreThread_regs:
  "RestoreThread api saved s = (ok, s') \<Longrightarrow>
   regs s' = (if ok then (regs s)(thread_id saved := saved_context saved) else regs s)"
  by (auto simp: RestoreThread_def Let_def case_prod_beta set_regs split: if_splits option.splits)

text \<open>After a restoration some of the saved threads, as many as are counted, have their registers back.\<close>

lemma restore_threads_regs:
  "restore_threads api saved n s = (n', s') \<Longrightarrow> distinct (map thread_id saved) \<Longrightarrow>
   \<exists>given. set given \<subseteq> set saved \<and> distinct (map thread_id given) \<and> n' = n + length given \<and>
     length given \<le> length saved \<and> (length given = length saved \<longrightarrow> set given = set saved) \<and>
     (\<forall>sv \<in> set given. regs s' (thread_id sv) = saved_context sv) \<and>
     (\<forall>t. t \<notin> thread_id ` set given \<longrightarrow> regs s' t = regs s t)"
proof (induction saved arbitrary: n s)
  case Nil
  then show ?case by (intro exI [of _ "[]"]) simp
next
  case (Cons sv saved)
  obtain ok s1 where one: "RestoreThread api sv s = (ok, s1)" by (metis surj_pair)
  have rest: "restore_threads api saved (if ok then Suc n else n) s1 = (n', s')" using Cons.prems(1) one by simp
  obtain given where given: "set given \<subseteq> set saved" "distinct (map thread_id given)"
    "n' = (if ok then Suc n else n) + length given" "length given \<le> length saved"
    "length given = length saved \<longrightarrow> set given = set saved"
    "\<forall>sv \<in> set given. regs s' (thread_id sv) = saved_context sv"
    "\<forall>t. t \<notin> thread_id ` set given \<longrightarrow> regs s' t = regs s1 t"
    using Cons.IH [OF rest] Cons.prems(2) by auto
  have new: "thread_id sv \<notin> thread_id ` set given" using given(1) Cons.prems(2) by auto
  note regs1 = RestoreThread_regs [OF one]
  show ?case
  proof (cases ok)
    case True
    with given new regs1 show ?thesis by (intro exI [of _ "sv # given"]) auto
  next
    case False
    with given new regs1 show ?thesis by (intro exI [of _ given]) auto
  qed
qed

end

section \<open>Runs of the calls\<close>

text \<open>
  A run of the calls from the start of the program: what may happen beside them is a hit, which fills the buffer and
  touches the registers of saved threads only. A thread is lost when a \<open>Disarm\<close> that did not restore every
  saved thread forgot it.
\<close>

inductive watch_run :: "'s ThreadApi \<Rightarrow> ('s \<Rightarrow> u32 \<Rightarrow> CONTEXT) \<Rightarrow> 's \<Rightarrow> Watch \<Rightarrow> 's \<Rightarrow> u32 set \<Rightarrow> bool"
  for api regs s0 where
  started: "watch_run api regs s0 new_watch s0 {}"
| armed: "watch_run api regs s0 w s lost \<Longrightarrow> Arm api query kind address n w s = (r, w', s') \<Longrightarrow>
    watch_run api regs s0 w' s' lost"
| disarmed: "watch_run api regs s0 w s lost \<Longrightarrow> Disarm api w s = (restored, w', s') \<Longrightarrow>
    watch_run api regs s0 w' s'
      (if restored = length (watch_saved w) then lost else lost \<union> thread_id ` set (watch_saved w))"
| hit: "watch_run api regs s0 w s lost \<Longrightarrow>
    (\<And>t. t \<notin> thread_id ` set (watch_saved w) \<Longrightarrow> regs s' t = regs s t) \<Longrightarrow> length b = kMaxHits \<Longrightarrow>
    watch_run api regs s0 (w\<lparr>watch_buffer := (watch_buffer w)\<lparr>hit_count := c, dropped := d, hits := b\<rparr>\<rparr>) s' lost"

definition slot_ok :: "SlotState \<Rightarrow> bool" where
  "slot_ok slot \<longleftrightarrow> slot_address slot \<noteq> 0 \<longrightarrow>
     (slot_kind slot = kExecute \<and> slot_length slot = 1) \<or>
     (slot_kind slot = kWrite \<and> slot_length slot \<in> {1, 2, 4, 8} \<and> slot_length slot dvd unat (slot_address slot))"

definition watch_ok :: "Watch \<Rightarrow> bool" where
  "watch_ok w \<longleftrightarrow> length (watch_slots w) = kMaxSlots \<and> length (hits (watch_buffer w)) = kMaxHits \<and>
     list_all slot_ok (watch_slots w) \<and>
     (handler_installed w \<longleftrightarrow> AnySlotActive (watch_slots w)) \<and>
     (\<not> handler_installed w \<longrightarrow> watch_saved w = [])"

lemma watch_ok_new: "watch_ok new_watch"
  by (simp add: watch_ok_def new_watch_def list_all_iff slot_ok_def free_slot_def AnySlotActive_def list_ex_iff)

lemma free_slot_index_free:
  "free_slot_index ss \<noteq> kMaxSlots \<Longrightarrow> free_slot_index ss < kMaxSlots \<and> slot_address (ss ! free_slot_index ss) = 0"
  by (auto simp: free_slot_index_def split: option.splits dest!: Prelude.find_Some_iff)

lemma arm_valid_slot:
  "\<not> arm_invalid query kind address n \<Longrightarrow>
   slot_ok (watch_state kind address n) \<and> slot_address (watch_state kind address n) \<noteq> 0"
  by (cases kind) (auto simp: arm_invalid_def slot_ok_def watch_state_def IsExecutable_def IsWritable_def)

lemma install_handler_ok:
  assumes "install_handler api w s = (added, w', s')" and "watch_ok w"
  shows "watch_slots w' = watch_slots w \<and> watch_saved w' = watch_saved w \<and>
    length (hits (watch_buffer w')) = kMaxHits \<and> (added \<longrightarrow> handler_installed w') \<and> (\<not> added \<longrightarrow> w' = w)"
  using assms by (auto simp: install_handler_def case_prod_beta watch_ok_def ClearHits_def split: if_splits)

lemma AnySlotActive_placed: "slot < length ss \<Longrightarrow> slot_address state \<noteq> 0 \<Longrightarrow> AnySlotActive (ss[slot := state])"
  by (auto simp: AnySlotActive_def list_ex_iff intro: set_update_memI)

text \<open>A placed watch keeps its slot, or it is taken back; the handler and the saved threads go with the last one.\<close>

lemma place_watch_cases:
  assumes "place_watch api slot state w s = (r, w', s')"
    and "ConfigureAllThreads api ((watch_slots w)[slot := state]) (watch_saved w) s = (count, saved, s1)"
  obtains (placed) "count \<noteq> 0" "w' = w\<lparr>watch_slots := (watch_slots w)[slot := state], watch_saved := saved\<rparr>" "s' = s1"
  | (kept_others) "count = 0" "AnySlotActive (watch_slots w')" "s' = s1"
      "w' = w\<lparr>watch_slots := (watch_slots w)[slot := state\<lparr>slot_address := 0\<rparr>], watch_saved := saved\<rparr>"
  | (removed) "count = 0" "\<not> AnySlotActive (watch_slots w')" "s' = RemoveVectoredExceptionHandler api s1"
      "w' = w\<lparr>watch_slots := (watch_slots w)[slot := state\<lparr>slot_address := 0\<rparr>], watch_saved := [], handler_installed := False\<rparr>"
  using assms by (auto simp: place_watch_def Let_def split: if_splits)

lemma place_watch_ok:
  assumes "place_watch api slot state w s = (r, w', s')" and "slot < kMaxSlots" and "slot_ok state"
    and "slot_address state \<noteq> 0" and "length (watch_slots w) = kMaxSlots" and "list_all slot_ok (watch_slots w)"
    and "length (hits (watch_buffer w)) = kMaxHits" and "handler_installed w"
  shows "watch_ok w'"
proof -
  let ?free = "state\<lparr>slot_address := 0\<rparr>"
  have "slot_ok ?free" by (simp add: slot_ok_def)
  then have slots: "list_all slot_ok ((watch_slots w)[slot := state])" "list_all slot_ok ((watch_slots w)[slot := ?free])"
    using assms(3,6) set_update_subset_insert [of "watch_slots w" slot] by (auto simp: list_all_iff)
  have active: "AnySlotActive ((watch_slots w)[slot := state])" using AnySlotActive_placed assms by simp
  obtain count saved s1 where all:
    "ConfigureAllThreads api ((watch_slots w)[slot := state]) (watch_saved w) s = (count, saved, s1)" by (metis surj_pair)
  show ?thesis
    using assms(1) all by (cases rule: place_watch_cases) (use slots active assms in \<open>simp_all add: watch_ok_def\<close>)
qed

lemma place_watch_slots:
  assumes "place_watch api slot state w s = (r, w', s')"
  shows "\<exists>state'. watch_slots w' = (watch_slots w)[slot := state']"
proof -
  obtain count saved s1 where
    "ConfigureAllThreads api ((watch_slots w)[slot := state]) (watch_saved w) s = (count, saved, s1)" by (metis surj_pair)
  with assms show ?thesis by (cases rule: place_watch_cases) auto
qed

lemma Arm_cases:
  assumes "Arm api query kind address n w s = (r, w', s')" and "install_handler api w s = (added, w1, s1)"
  obtains (rejected) "w' = w" "s' = s"
  | (no_handler) "\<not> added" "w' = w1" "s' = s1"
  | (placing) "\<not> arm_invalid query kind address n" "free_slot_index (watch_slots w) \<noteq> kMaxSlots" "added"
      "place_watch api (free_slot_index (watch_slots w)) (watch_state kind address n) w1 s1 = (r, w', s')"
  using assms by (auto simp: Arm_def Let_def split: if_splits)

lemma Arm_ok:
  assumes "Arm api query kind address n w s = (r, w', s')" and "watch_ok w"
  shows "watch_ok w'"
proof -
  obtain added w1 s1 where one: "install_handler api w s = (added, w1, s1)" by (metis surj_pair)
  note w1 = install_handler_ok [OF one assms(2)]
  show ?thesis
    using assms(1) one
  proof (cases rule: Arm_cases)
    case placing
    then show ?thesis
      using assms(2) w1 arm_valid_slot [of query kind address n] free_slot_index_free [of "watch_slots w"]
      by (intro place_watch_ok [OF placing(4)]) (auto simp: watch_ok_def)
  qed (use assms(2) w1 in auto)
qed

lemma AnySlotActive_freed: "\<not> AnySlotActive (map (\<lambda>slot. slot\<lparr>slot_address := 0\<rparr>) ss)"
  by (auto simp: AnySlotActive_def list_ex_iff)

lemma Disarm_ok:
  assumes "Disarm api w s = (restored, w', s')" and "watch_ok w"
  shows "watch_ok w' \<and> \<not> handler_installed w' \<and> \<not> AnySlotActive (watch_slots w') \<and> watch_saved w' = []"
  using assms AnySlotActive_freed [of "watch_slots w"]
  by (auto simp: Disarm_def Let_def case_prod_beta watch_ok_def list_all_iff slot_ok_def split: if_splits)

context thread_registers
begin

text \<open>When no thread was configured, no register has changed.\<close>

lemma ConfigureThread_failed:
  "ConfigureThread api slots tid saved s = (False, saved', s') \<Longrightarrow> regs s' = regs s"
  by (auto simp: ConfigureThread_def Let_def case_prod_beta set_regs split: if_splits option.splits)

lemma configure_threads_failed:
  "configure_threads api slots entries n saved s = (n', saved', s') \<Longrightarrow> n \<le> n' \<and> (n' = n \<longrightarrow> regs s' = regs s)"
proof (induction entries arbitrary: n saved s)
  case (Cons entry entries)
  obtain owner tid where entry: "entry = (owner, tid)" by (metis surj_pair)
  obtain ok saved1 s1 where one: "ConfigureThread api slots tid saved s = (ok, saved1, s1)" by (metis surj_pair)
  show ?case
    using Cons.IH [of "if ok then Suc n else n" saved1 s1] Cons.IH [of n saved s] Cons.prems
      ConfigureThread_failed [of slots tid saved s saved1 s1] one
    by (cases ok) (auto simp: entry split: if_splits)
qed simp

lemma ConfigureAllThreads_failed:
  "ConfigureAllThreads api slots saved s = (0, saved', s') \<Longrightarrow> regs s' = regs s"
  by (auto simp: ConfigureAllThreads_def case_prod_beta split: option.splits dest: configure_threads_failed)

lemma place_watch_kept:
  assumes "place_watch api slot state w s = (r, w', s')" and "kept original lost (watch_saved w) (regs s)"
    and "\<not> AnySlotActive (watch_slots w') \<Longrightarrow> watch_saved w = []"
  shows "kept original lost (watch_saved w') (regs s')"
proof -
  obtain count saved s1 where all:
    "ConfigureAllThreads api ((watch_slots w)[slot := state]) (watch_saved w) s = (count, saved, s1)" by (metis surj_pair)
  note more = ConfigureAllThreads_kept [OF all assms(2)]
  show ?thesis
    using assms(1) all
  proof (cases rule: place_watch_cases)
    case removed
    then show ?thesis using ConfigureAllThreads_failed all assms(2,3) by simp
  qed (use more in simp_all)
qed

lemma install_handler_regs: "install_handler api w s = (added, w', s') \<Longrightarrow> regs s' = regs s"
  by (auto simp: install_handler_def case_prod_beta split: if_splits)

lemma AnySlotActive_free_first:
  assumes "\<not> AnySlotActive (ss[slot := state])" and "slot_address (ss ! slot) = 0"
  shows "\<not> AnySlotActive ss"
proof
  assume "AnySlotActive ss"
  then obtain i where i: "i < length ss" "slot_address (ss ! i) \<noteq> 0" by (auto simp: AnySlotActive_def list_ex_iff in_set_conv_nth)
  then have "ss[slot := state] ! i = ss ! i" using assms(2) by (metis nth_list_update_neq)
  then have "ss ! i \<in> set (ss[slot := state])" using nth_mem [of i "ss[slot := state]"] i(1) by simp
  then show False using assms(1) i(2) unfolding AnySlotActive_def list_ex_iff by blast
qed

lemma Arm_kept:
  assumes "Arm api query kind address n w s = (r, w', s')" and "watch_ok w"
    and "kept original lost (watch_saved w) (regs s)"
  shows "kept original lost (watch_saved w') (regs s')"
proof -
  let ?slot = "free_slot_index (watch_slots w)" and ?state = "watch_state kind address n"
  obtain added w1 s1 where one: "install_handler api w s = (added, w1, s1)" by (metis surj_pair)
  note w1 = install_handler_ok [OF one assms(2)] install_handler_regs [OF one]
  show ?thesis
    using assms(1) one
  proof (cases rule: Arm_cases)
    case placing
    have "watch_saved w1 = []" if "\<not> AnySlotActive (watch_slots w')"
    proof -
      obtain state where "watch_slots w' = (watch_slots w1)[?slot := state]"
        using place_watch_slots [OF placing(4)] by blast
      then have "\<not> AnySlotActive (watch_slots w)"
        using that placing(2) w1 free_slot_index_free [of "watch_slots w"]
          AnySlotActive_free_first [of "watch_slots w" ?slot state] by simp
      then show ?thesis using assms(2) w1 by (simp add: watch_ok_def)
    qed
    from place_watch_kept [OF placing(4) _ this] show ?thesis using assms(3) w1 by simp
  qed (use assms w1 in auto)
qed

lemma Disarm_kept:
  assumes "Disarm api w s = (restored, w', s')" and "watch_ok w" and "kept original lost (watch_saved w) (regs s)"
  shows "kept original
    (if restored = length (watch_saved w) then lost else lost \<union> thread_id ` set (watch_saved w)) (watch_saved w') (regs s')"
proof (cases "\<not> handler_installed w \<and> \<not> AnySlotActive (watch_slots w)")
  case True
  then have "w' = w \<and> s' = s" "watch_saved w = []" using assms by (auto simp: Disarm_def watch_ok_def)
  then show ?thesis using assms(3) by simp
next
  case False
  obtain n s1 where restore: "restore_threads api (watch_saved w) 0 s = (n, s1)" by (metis surj_pair)
  have s': "restored = n" "watch_saved w' = []" "regs s' = regs s1"
    using assms(1) False by (auto simp: Disarm_def Let_def restore)
  have kept: "distinct (map thread_id (watch_saved w))"
    "\<forall>sv \<in> set (watch_saved w). thread_id sv \<notin> lost \<longrightarrow> saved_context sv = original (thread_id sv)"
    "\<forall>t. t \<notin> lost \<longrightarrow> t \<notin> thread_id ` set (watch_saved w) \<longrightarrow> regs s t = original t"
    using assms(3) by (auto simp: kept_def)
  obtain given where given: "set given \<subseteq> set (watch_saved w)" "n = length given"
    "length given = length (watch_saved w) \<longrightarrow> set given = set (watch_saved w)"
    "\<forall>sv \<in> set given. regs s1 (thread_id sv) = saved_context sv"
    "\<forall>t. t \<notin> thread_id ` set given \<longrightarrow> regs s1 t = regs s t"
    using restore_threads_regs [OF restore kept(1)] by auto
  show ?thesis
  proof (cases "n = length (watch_saved w)")
    case True
    then have "regs s1 t = original t" if "t \<notin> lost" for t
      using kept given that by (cases "t \<in> thread_id ` set given") auto
    then show ?thesis using True by (simp add: s' kept_def)
  next
    case False
    have "t \<notin> thread_id ` set given" if "t \<notin> thread_id ` set (watch_saved w)" for t using given(1) that by auto
    then show ?thesis using False kept(3) given(5) by (simp add: s' kept_def)
  qed
qed

lemma watch_run_kept:
  "watch_run api regs s0 w s lost \<Longrightarrow> watch_ok w \<and> kept (regs s0) lost (watch_saved w) (regs s)"
proof (induction rule: watch_run.induct)
  case started
  then show ?case using watch_ok_new by (simp add: kept_def new_watch_def)
next
  case (hit w s lost s' b c d)
  then show ?case by (auto simp: watch_ok_def kept_def)
next
  case (armed w s lost query kind address n r w' s')
  then show ?case using Arm_ok [OF armed(2)] Arm_kept [OF armed(2)] by simp
next
  case (disarmed w s lost restored w' s')
  then show ?case using Disarm_ok [OF disarmed(2)] Disarm_kept [OF disarmed(2)] by simp
qed

end

section \<open>A handler alone\<close>

text \<open>What a handler amounts to when nothing happens beside it: the hits of its fired slots are recorded in order.\<close>

definition slot_fired :: "SlotState list \<Rightarrow> CPU_CONTEXT \<Rightarrow> nat \<Rightarrow> bool" where
  "slot_fired ss context slot \<longleftrightarrow> Dr6 context AND 0xF AND push_bit slot 1 \<noteq> 0 \<and> slot_address (ss ! slot) \<noteq> 0"

definition record_hit :: "Hit \<Rightarrow> HitBuffer \<Rightarrow> HitBuffer" where
  "record_hit hit b =
     (if hit_count b < kMaxHits
      then b\<lparr>hit_count := hit_count b + 1, hits := (hits b)[hit_count b := \<lparr>buffered_hit = hit, ready = True\<rparr>]\<rparr>
      else b\<lparr>hit_count := hit_count b + 1, dropped := dropped b + 1\<rparr>)"

lemma run_handler_simps:
  "run_handler ss read tid context (Finished ours) b = (ours, b)"
  "\<not> kMaxSlots > slot \<Longrightarrow> run_handler ss read tid context (AtSlot slot ours) b = (ours, b)"
  "slot < kMaxSlots \<Longrightarrow> \<not> slot_fired ss context slot \<Longrightarrow>
   run_handler ss read tid context (AtSlot slot ours) b = run_handler ss read tid context (AtSlot (Suc slot) ours) b"
  "slot < kMaxSlots \<Longrightarrow> slot_fired ss context slot \<Longrightarrow>
   run_handler ss read tid context (AtSlot slot ours) b =
     run_handler ss read tid context (AtSlot (Suc slot) True) (record_hit (capture_hit read tid context slot) b)"
proof -
  show finished: "run_handler ss read tid context (Finished ours) b = (ours, b)" for ours b
    by (simp add: run_handler.simps)
  show "\<not> kMaxSlots > slot \<Longrightarrow> run_handler ss read tid context (AtSlot slot ours) b = (ours, b)"
    by (subst run_handler.simps) (simp add: finished)
  show "slot < kMaxSlots \<Longrightarrow> \<not> slot_fired ss context slot \<Longrightarrow>
   run_handler ss read tid context (AtSlot slot ours) b = run_handler ss read tid context (AtSlot (Suc slot) ours) b"
    by (subst run_handler.simps) (auto simp: slot_fired_def and.assoc)
  have dropping: "run_handler ss read tid context (Dropping slot) b =
      run_handler ss read tid context (AtSlot (Suc slot) True) (b\<lparr>dropped := dropped b + 1\<rparr>)" for b
    by (subst run_handler.simps) simp
  have capturing: "run_handler ss read tid context (Capturing slot ordinal) b =
      run_handler ss read tid context (AtSlot (Suc slot) True)
        (b\<lparr>hits := (hits b)[ordinal := \<lparr>buffered_hit = capture_hit read tid context slot, ready = True\<rparr>]\<rparr>)" for ordinal b
    by (subst run_handler.simps) simp
  show "slot < kMaxSlots \<Longrightarrow> slot_fired ss context slot \<Longrightarrow>
   run_handler ss read tid context (AtSlot slot ours) b =
     run_handler ss read tid context (AtSlot (Suc slot) True) (record_hit (capture_hit read tid context slot) b)"
    by (subst run_handler.simps)
      (auto simp: slot_fired_def and.assoc Let_def record_hit_def dropping capturing)
qed

lemma run_handler_records:
  "slot \<le> kMaxSlots \<Longrightarrow> run_handler ss read tid context (AtSlot slot ours) b =
     (ours \<or> filter (slot_fired ss context) [slot..<kMaxSlots] \<noteq> [],
      fold record_hit (map (capture_hit read tid context) (filter (slot_fired ss context) [slot..<kMaxSlots])) b)"
proof (induction "kMaxSlots - slot" arbitrary: slot ours b)
  case 0
  then show ?case by (simp add: run_handler_simps)
next
  case (Suc n)
  then have "slot < kMaxSlots" "[slot..<kMaxSlots] = slot # [Suc slot..<kMaxSlots]" "n = kMaxSlots - Suc slot"
    by (auto simp: upt_conv_Cons)
  then show ?case
    using Suc(1) [of "Suc slot"] by (cases "slot_fired ss context slot") (simp_all add: run_handler_simps)
qed

text \<open>C28: the exception handler run alone. A single step for which some active slot fired is handled: the status
  register is cleared, the resume flag set and nothing else of the registers changed, and the hits of the fired
  slots are recorded in slot order, each into the next entry or, past the end of the buffer, as a dropped one.
  Any other exception, and one without a record or registers, is passed on and nothing is recorded.\<close>

theorem HandleException_records:
  "HandleException ss read tid (Some \<lparr>ExceptionCode = Some exception_code, ContextRecord = Some context\<rparr>) b =
     (let fired = filter (slot_fired ss context) [0..<kMaxSlots]
      in if exception_code = EXCEPTION_SINGLE_STEP \<and> fired \<noteq> [] then
           (EXCEPTION_CONTINUE_EXECUTION, Some \<lparr>ExceptionCode = Some exception_code,
              ContextRecord = Some (context\<lparr>Dr6 := 0, EFlags := EFlags context OR push_bit 16 1\<rparr>)\<rparr>,
            fold record_hit (map (capture_hit read tid context) fired) b)
         else (EXCEPTION_CONTINUE_SEARCH, Some \<lparr>ExceptionCode = Some exception_code, ContextRecord = Some context\<rparr>, b)) \<and>
   HandleException ss read tid None b = (EXCEPTION_CONTINUE_SEARCH, None, b) \<and>
   HandleException ss read tid (Some \<lparr>ExceptionCode = None, ContextRecord = registers\<rparr>) b =
     (EXCEPTION_CONTINUE_SEARCH, Some \<lparr>ExceptionCode = None, ContextRecord = registers\<rparr>, b) \<and>
   HandleException ss read tid (Some \<lparr>ExceptionCode = the_code, ContextRecord = None\<rparr>) b =
     (EXCEPTION_CONTINUE_SEARCH, Some \<lparr>ExceptionCode = the_code, ContextRecord = None\<rparr>, b)"
  by (auto simp: HandleException_def kHandlerStart_def run_handler_records Let_def split: option.splits)

section \<open>Handlers side by side\<close>

text \<open>
  Handlers of several threads on one buffer, beside one collection: \<open>Collect\<close> and \<open>Arm\<close> are only called by
  Lua scripts, which the host runs one at a time. A collection reads the count, then entry by entry, then the
  number of dropped hits, and may then clear the buffer, store by store as \<open>ClearHits\<close> does; \<open>Arm\<close> clears it
  when it adds the handler. Between any two of these steps handlers start and act, and the slots may change.

  The other fields are for the proofs. \<open>taken\<close> remembers which thread and slot took each ordinal since the last clear
  began, \<open>begun\<close> how many ordinals were taken when the last collection began and \<open>whole\<close> whether then no handler
  was in the middle of a hit. \<open>raced\<close> says that the last clear met a handler: one in the middle of a hit when it began,
  or one that changed the buffer before it ended.
\<close>

datatype Collector = NoCollection | Reading nat nat "Hit list" | Reported Snapshot | Clearing nat

record System =
  sys_slots :: "SlotState list"
  sys_buffer :: HitBuffer
  sys_handlers :: "(u32 \<times> CPU_CONTEXT \<times> HandlerState) list"
  collector :: Collector
  taken :: "(u32 \<times> CPU_CONTEXT \<times> nat) list"
  begun :: nat
  whole :: bool
  raced :: bool

fun handler_slot :: "HandlerState \<Rightarrow> nat" where
  "handler_slot (AtSlot slot ours) = slot"
| "handler_slot (Dropping slot) = slot"
| "handler_slot (Capturing slot ordinal) = slot"
| "handler_slot (Finished ours) = kMaxSlots"

fun is_dropping :: "u32 \<times> CPU_CONTEXT \<times> HandlerState \<Rightarrow> bool" where
  "is_dropping (tid, context, Dropping slot) = True"
| "is_dropping (tid, context, h) = False"

fun is_capturing :: "u32 \<times> CPU_CONTEXT \<times> HandlerState \<Rightarrow> bool" where
  "is_capturing (tid, context, Capturing slot ordinal) = True"
| "is_capturing (tid, context, h) = False"

fun is_clearing :: "Collector \<Rightarrow> bool" where
  "is_clearing (Clearing k) = True"
| "is_clearing c = False"

definition mid_hit :: "(u32 \<times> CPU_CONTEXT \<times> HandlerState) list \<Rightarrow> bool" where
  "mid_hit hs \<longleftrightarrow> list_ex (\<lambda>h. is_dropping h \<or> is_capturing h) hs"

definition started_system :: System where
  "started_system = \<lparr>sys_slots = watch_slots new_watch, sys_buffer = watch_buffer new_watch, sys_handlers = [],
     collector = NoCollection, taken = [], begun = 0, whole = True, raced = False\<rparr>"

inductive watch_step :: "System \<Rightarrow> System \<Rightarrow> bool" where
  exception_raised: "watch_step S (S\<lparr>sys_handlers := sys_handlers S @ [(tid, context, kHandlerStart)]\<rparr>)"
| handler_acts: "i < length (sys_handlers S) \<Longrightarrow> sys_handlers S ! i = (tid, context, h) \<Longrightarrow>
    handler_step (sys_slots S) read tid context h (sys_buffer S) = (h', b) \<Longrightarrow>
    watch_step S (S\<lparr>sys_handlers := (sys_handlers S)[i := (tid, context, h')], sys_buffer := b,
      taken := (if hit_count b = hit_count (sys_buffer S) then taken S else taken S @ [(tid, context, handler_slot h)]),
      raced := raced S \<or> is_clearing (collector S) \<and> b \<noteq> sys_buffer S\<rparr>)"
| slots_change: "watch_step S (S\<lparr>sys_slots := ss\<rparr>)"
| collection_begins: "collector S = NoCollection \<Longrightarrow>
    watch_step S (S\<lparr>collector := Reading (min (hit_count (sys_buffer S)) kMaxHits) 0 [],
      begun := length (taken S), whole := \<not> mid_hit (sys_handlers S)\<rparr>)"
| entry_read: "collector S = Reading n k found \<Longrightarrow> k < n \<Longrightarrow>
    watch_step S (S\<lparr>collector := Reading n (Suc k)
      (if ready (hits (sys_buffer S) ! k) then found @ [buffered_hit (hits (sys_buffer S) ! k)] else found)\<rparr>)"
| dropped_read: "collector S = Reading n n found \<Longrightarrow>
    watch_step S (S\<lparr>collector := Reported \<lparr>snapshot_hits = found, snapshot_dropped = dropped (sys_buffer S)\<rparr>\<rparr>)"
| collection_ends: "collector S = Reported snapshot \<Longrightarrow> watch_step S (S\<lparr>collector := NoCollection\<rparr>)"
| clear_begins: "collector S = NoCollection \<or> collector S = Reported snapshot \<Longrightarrow>
    watch_step S (S\<lparr>sys_buffer := (sys_buffer S)\<lparr>hit_count := 0\<rparr>, collector := Clearing 0, taken := [],
      raced := mid_hit (sys_handlers S)\<rparr>)"
| dropped_cleared: "collector S = Clearing 0 \<Longrightarrow>
    watch_step S (S\<lparr>sys_buffer := (sys_buffer S)\<lparr>dropped := 0\<rparr>, collector := Clearing 1\<rparr>)"
| entry_cleared: "collector S = Clearing (Suc i) \<Longrightarrow> i < kMaxHits \<Longrightarrow>
    watch_step S (S\<lparr>sys_buffer := (sys_buffer S)\<lparr>hits := (hits (sys_buffer S))[i := (hits (sys_buffer S) ! i)\<lparr>ready := False\<rparr>]\<rparr>,
      collector := Clearing (Suc (Suc i))\<rparr>)"
| clear_ends: "collector S = Clearing (Suc kMaxHits) \<Longrightarrow> watch_step S (S\<lparr>collector := NoCollection\<rparr>)"

inductive reachable_system :: "System \<Rightarrow> bool" where
  at_start: "reachable_system started_system"
| after_step: "reachable_system S \<Longrightarrow> watch_step S S' \<Longrightarrow> reachable_system S'"

text \<open>The steps are those of the calls: a collection that nothing comes between reports what \<open>Collect\<close> returns, and
  the stores of a clear leave the buffer as \<open>ClearHits\<close> does.\<close>

lemma reading_steps:
  "k \<le> n \<Longrightarrow> collector S = Reading n k found \<Longrightarrow> watch_step\<^sup>*\<^sup>* S (S\<lparr>collector := Reading n n
     (found @ map buffered_hit (filter ready (map (\<lambda>i. hits (sys_buffer S) ! i) [k..<n])))\<rparr>)"
proof (induction "n - k" arbitrary: k found S)
  case 0
  then have "S = S\<lparr>collector := Reading n n found\<rparr>" and "[k..<n] = []" by (cases S, simp_all)
  then show ?case by (metis append_Nil2 filter.simps(1) list.map_disc_iff rtranclp.rtrancl_refl)
next
  case (Suc m)
  let ?e = "hits (sys_buffer S) ! k"
  let ?found = "if ready ?e then found @ [buffered_hit ?e] else found"
  let ?S = "S\<lparr>collector := Reading n (Suc k) ?found\<rparr>"
  have k: "k < n" "m = n - Suc k" "[k..<n] = k # [Suc k..<n]" using Suc(2) by (auto simp: upt_conv_Cons)
  have "watch_step S ?S" using entry_read [OF Suc(4) k(1)] .
  moreover have "watch_step\<^sup>*\<^sup>* ?S (?S\<lparr>collector := Reading n n
      (?found @ map buffered_hit (filter ready (map (\<lambda>i. hits (sys_buffer ?S) ! i) [Suc k..<n])))\<rparr>)"
    using Suc(1) [OF k(2), of ?S ?found] k(1) by simp
  ultimately show ?case by (auto simp: k(3) intro: converse_rtranclp_into_rtranclp)
qed

lemma Collect_steps:
  assumes "collector S = NoCollection"
  shows "watch_step\<^sup>*\<^sup>* S (S\<lparr>collector := Reported (fst (Collect clear (sys_buffer S))), begun := length (taken S),
    whole := \<not> mid_hit (sys_handlers S)\<rparr>)"
proof -
  let ?n = "min (hit_count (sys_buffer S)) kMaxHits"
  let ?S = "S\<lparr>collector := Reading ?n 0 [], begun := length (taken S), whole := \<not> mid_hit (sys_handlers S)\<rparr>"
  let ?T = "?S\<lparr>collector := Reading ?n ?n
     ([] @ map buffered_hit (filter ready (map (\<lambda>i. hits (sys_buffer ?S) ! i) [0..<?n])))\<rparr>"
  let ?U = "?T\<lparr>collector := Reported \<lparr>snapshot_hits =
      map buffered_hit (filter ready (map (\<lambda>i. hits (sys_buffer ?S) ! i) [0..<?n])), snapshot_dropped = dropped (sys_buffer ?T)\<rparr>\<rparr>"
  have "watch_step S ?S" by (rule collection_begins [OF assms])
  moreover have "watch_step\<^sup>*\<^sup>* ?S ?T" by (rule reading_steps) simp_all
  moreover have "watch_step ?T ?U" by (rule dropped_read) simp
  ultimately have "watch_step\<^sup>*\<^sup>* S ?U"
    by (rule converse_rtranclp_into_rtranclp [OF _ rtranclp.rtrancl_into_rtrancl])
  then show ?thesis by (cases S) (simp add: Collect_def Let_def)
qed

lemma clearing_steps:
  "i \<le> kMaxHits \<Longrightarrow> length (hits (sys_buffer S)) = kMaxHits \<Longrightarrow> collector S = Clearing (Suc i) \<Longrightarrow>
   watch_step\<^sup>*\<^sup>* S (S\<lparr>sys_buffer := (sys_buffer S)\<lparr>hits := take i (hits (sys_buffer S)) @
       map (\<lambda>buffered. buffered\<lparr>ready := False\<rparr>) (drop i (hits (sys_buffer S)))\<rparr>, collector := Clearing (Suc kMaxHits)\<rparr>)"
proof (induction "kMaxHits - i" arbitrary: i S)
  case 0
  then show ?case by (cases S, cases "sys_buffer S") simp
next
  case (Suc m)
  let ?hits = "hits (sys_buffer S)" and ?f = "\<lambda>buffered :: BufferedHit. buffered\<lparr>ready := False\<rparr>"
  let ?S = "S\<lparr>sys_buffer := (sys_buffer S)\<lparr>hits := ?hits[i := ?f (?hits ! i)]\<rparr>, collector := Clearing (Suc (Suc i))\<rparr>"
  have i: "i < kMaxHits" "m = kMaxHits - Suc i" using Suc(2) by auto
  have hits: "take (Suc i) (?hits[i := ?f (?hits ! i)]) = take i ?hits @ [?f (?hits ! i)]"
    "drop (Suc i) (?hits[i := ?f (?hits ! i)]) = drop (Suc i) ?hits" "drop i ?hits = ?hits ! i # drop (Suc i) ?hits"
    using i(1) Suc(4) by (simp_all add: take_Suc_conv_app_nth Cons_nth_drop_Suc)
  have "watch_step S ?S" using entry_cleared [OF Suc(5) i(1)] .
  moreover have "watch_step\<^sup>*\<^sup>* ?S (?S\<lparr>sys_buffer := (sys_buffer ?S)\<lparr>hits := take (Suc i) (hits (sys_buffer ?S)) @
       map ?f (drop (Suc i) (hits (sys_buffer ?S)))\<rparr>, collector := Clearing (Suc kMaxHits)\<rparr>)"
    using Suc(1) [OF i(2), of ?S] i(1) Suc(4) by simp
  ultimately show ?case by (simp add: hits converse_rtranclp_into_rtranclp)
qed

lemma ClearHits_steps:
  assumes "collector S = NoCollection \<or> collector S = Reported snapshot" and "length (hits (sys_buffer S)) = kMaxHits"
  shows "watch_step\<^sup>*\<^sup>* S (S\<lparr>sys_buffer := ClearHits (sys_buffer S), collector := NoCollection, taken := [],
    raced := mid_hit (sys_handlers S)\<rparr>)"
proof -
  let ?S1 = "S\<lparr>sys_buffer := (sys_buffer S)\<lparr>hit_count := 0\<rparr>, collector := Clearing 0, taken := [],
      raced := mid_hit (sys_handlers S)\<rparr>"
  let ?S2 = "?S1\<lparr>sys_buffer := (sys_buffer ?S1)\<lparr>dropped := 0\<rparr>, collector := Clearing 1\<rparr>"
  let ?S3 = "?S2\<lparr>sys_buffer := (sys_buffer ?S2)\<lparr>hits := take 0 (hits (sys_buffer ?S2)) @
       map (\<lambda>buffered. buffered\<lparr>ready := False\<rparr>) (drop 0 (hits (sys_buffer ?S2)))\<rparr>, collector := Clearing (Suc kMaxHits)\<rparr>"
  have "watch_step S ?S1" by (rule clear_begins [OF assms(1)])
  moreover have "watch_step ?S1 ?S2" by (rule dropped_cleared) simp
  moreover have "watch_step\<^sup>*\<^sup>* ?S2 ?S3" using assms(2) by (intro clearing_steps) simp_all
  moreover have "watch_step ?S3 (?S3\<lparr>collector := NoCollection\<rparr>)" by (rule clear_ends) simp
  ultimately have "watch_step\<^sup>*\<^sup>* S (?S3\<lparr>collector := NoCollection\<rparr>)"
    by (rule converse_rtranclp_into_rtranclp [OF _ converse_rtranclp_into_rtranclp [OF _ rtranclp.rtrancl_into_rtrancl]])
  then show ?thesis by (cases S) (simp add: ClearHits_def)
qed

text \<open>An entry of the buffer holds the whole hit of the one who took its ordinal.\<close>

definition entry_of :: "u32 \<times> CPU_CONTEXT \<times> nat \<Rightarrow> Hit \<Rightarrow> bool" where
  "entry_of owner hit \<longleftrightarrow> (case owner of (tid, context, slot) \<Rightarrow> \<exists>read. hit = capture_hit read tid context slot)"

definition captures :: "(u32 \<times> CPU_CONTEXT \<times> HandlerState) list \<Rightarrow> nat \<Rightarrow> nat \<Rightarrow> u32 \<times> CPU_CONTEXT \<times> nat \<Rightarrow> bool" where
  "captures hs i ordinal owner \<longleftrightarrow> i < length hs \<and>
     (case owner of (tid, context, slot) \<Rightarrow> hs ! i = (tid, context, Capturing slot ordinal))"

text \<open>
  The entries below the count are each in the hands of one handler or finished; the counters add up.
\<close>

definition buffer_ok ::
  "(u32 \<times> CPU_CONTEXT \<times> HandlerState) list \<Rightarrow> HitBuffer \<Rightarrow> (u32 \<times> CPU_CONTEXT \<times> nat) list \<Rightarrow> bool" where
  "buffer_ok hs b owners \<longleftrightarrow>
     length (hits b) = kMaxHits \<and> length owners = hit_count b \<and>
     (\<forall>i ordinal owner. captures hs i ordinal owner \<longrightarrow> ordinal < hit_count b \<and> ordinal < kMaxHits \<and>
        \<not> ready (hits b ! ordinal) \<and> owners ! ordinal = owner) \<and>
     (\<forall>i j ordinal owner owner'. captures hs i ordinal owner \<longrightarrow> captures hs j ordinal owner' \<longrightarrow> i = j) \<and>
     (\<forall>ordinal < kMaxHits. ready (hits b ! ordinal) \<longrightarrow>
        ordinal < hit_count b \<and> entry_of (owners ! ordinal) (buffered_hit (hits b ! ordinal))) \<and>
     (\<forall>ordinal < kMaxHits. ordinal < hit_count b \<longrightarrow>
        ready (hits b ! ordinal) \<or> (\<exists>i owner. captures hs i ordinal owner)) \<and>
     dropped b + length (filter is_dropping hs) = hit_count b - kMaxHits"

lemma buffer_okD:
  assumes "buffer_ok hs b owners"
  shows "length (hits b) = kMaxHits" "length owners = hit_count b"
    "captures hs i ordinal owner \<Longrightarrow> ordinal < hit_count b \<and> ordinal < kMaxHits \<and>
        \<not> ready (hits b ! ordinal) \<and> owners ! ordinal = owner"
    "captures hs i ordinal owner \<Longrightarrow> captures hs j ordinal owner' \<Longrightarrow> i = j"
    "ordinal < kMaxHits \<Longrightarrow> ready (hits b ! ordinal) \<Longrightarrow>
        ordinal < hit_count b \<and> entry_of (owners ! ordinal) (buffered_hit (hits b ! ordinal))"
    "ordinal < kMaxHits \<Longrightarrow> ordinal < hit_count b \<Longrightarrow>
        ready (hits b ! ordinal) \<or> (\<exists>i owner. captures hs i ordinal owner)"
    "dropped b + length (filter is_dropping hs) = hit_count b - kMaxHits"
  using assms unfolding buffer_ok_def by blast+

lemma buffer_okI:
  assumes "length (hits b) = kMaxHits" and "length owners = hit_count b"
    and "\<And>i ordinal owner. captures hs i ordinal owner \<Longrightarrow> ordinal < hit_count b \<and> ordinal < kMaxHits \<and>
        \<not> ready (hits b ! ordinal) \<and> owners ! ordinal = owner"
    and "\<And>i j ordinal owner owner'. captures hs i ordinal owner \<Longrightarrow> captures hs j ordinal owner' \<Longrightarrow> i = j"
    and "\<And>ordinal. ordinal < kMaxHits \<Longrightarrow> ready (hits b ! ordinal) \<Longrightarrow>
        ordinal < hit_count b \<and> entry_of (owners ! ordinal) (buffered_hit (hits b ! ordinal))"
    and "\<And>ordinal. ordinal < kMaxHits \<Longrightarrow> ordinal < hit_count b \<Longrightarrow>
        ready (hits b ! ordinal) \<or> (\<exists>i owner. captures hs i ordinal owner)"
    and "dropped b + length (filter is_dropping hs) = hit_count b - kMaxHits"
  shows "buffer_ok hs b owners"
  using assms unfolding buffer_ok_def by blast

lemma filter_update:
  "i < length xs \<Longrightarrow> length (filter P (xs[i := y])) + of_bool (P (xs ! i)) = length (filter P xs) + of_bool (P y)"
proof (induction xs arbitrary: i)
  case (Cons x xs)
  then show ?case by (cases i) auto
qed simp

lemma captures_update:
  "i < length hs \<Longrightarrow> captures (hs[i := (tid, context, h)]) j ordinal owner \<longleftrightarrow>
   (if j = i then \<exists>slot. h = Capturing slot ordinal \<and> owner = (tid, context, slot) else captures hs j ordinal owner)"
  by (cases owner) (auto simp: captures_def nth_list_update)

lemma captures_own:
  "i < length hs \<Longrightarrow> hs ! i = (tid, context, h) \<Longrightarrow>
   captures hs i ordinal owner \<longleftrightarrow> (\<exists>slot. h = Capturing slot ordinal \<and> owner = (tid, context, slot))"
  by (cases owner) (auto simp: captures_def)

text \<open>What one action of a handler is, by what it does to the buffer.\<close>

lemma handler_step_cases:
  assumes "handler_step ss read tid context h b = (h', b')"
  obtains (quiet) "b' = b" "\<not> is_capturing (tid, context, h)" "\<not> is_dropping (tid, context, h)"
      "\<not> is_capturing (tid, context, h')" "\<not> is_dropping (tid, context, h')"
  | (overflow) slot ours where "h = AtSlot slot ours" "h' = Dropping slot" "kMaxHits \<le> hit_count b"
      "b' = b\<lparr>hit_count := hit_count b + 1\<rparr>"
  | (take) slot ours where "h = AtSlot slot ours" "h' = Capturing slot (hit_count b)" "hit_count b < kMaxHits"
      "b' = b\<lparr>hit_count := hit_count b + 1,
         hits := (hits b)[hit_count b := (hits b ! hit_count b)\<lparr>buffered_hit := no_hit\<rparr>]\<rparr>"
  | (drop) slot where "h = Dropping slot" "h' = AtSlot (Suc slot) True" "b' = b\<lparr>dropped := dropped b + 1\<rparr>"
  | (publish) slot ordinal where "h = Capturing slot ordinal" "h' = AtSlot (Suc slot) True"
      "b' = b\<lparr>hits := (hits b)[ordinal := \<lparr>buffered_hit = capture_hit read tid context slot, ready = True\<rparr>]\<rparr>"
proof (cases h)
  case (AtSlot slot ours)
  show ?thesis
  proof (cases "slot < kMaxSlots \<and> \<not> (Dr6 context AND 0xF AND push_bit slot 1 = 0 \<or> slot_address (ss ! slot) = 0)")
    case False
    then have "b' = b \<and> (h' = AtSlot (Suc slot) ours \<or> h' = Finished ours)"
      using assms AtSlot by (auto simp: and.assoc Let_def split: if_splits)
    then show ?thesis using quiet AtSlot by auto
  next
    case True
    then have step: "(h', b') = (let ordinal = hit_count b; b = b\<lparr>hit_count := hit_count b + 1\<rparr>
                in if kMaxHits \<le> ordinal then (Dropping slot, b)
                   else (Capturing slot ordinal,
                     b\<lparr>hits := (hits b)[ordinal := (hits b ! ordinal)\<lparr>buffered_hit := no_hit\<rparr>]\<rparr>))"
      using assms AtSlot by (simp add: and.assoc)
    show ?thesis
    proof (cases "kMaxHits \<le> hit_count b")
      case True
      with step show ?thesis by (intro overflow [OF AtSlot]) (simp_all add: Let_def)
    next
      case False
      with step show ?thesis by (intro take [OF AtSlot]) (simp_all add: Let_def)
    qed
  qed
next
  case (Dropping slot)
  then show ?thesis using assms by (intro drop) auto
next
  case (Capturing slot ordinal)
  then show ?thesis using assms by (intro publish) auto
next
  case (Finished ours)
  then show ?thesis using assms by (intro quiet) auto
qed

lemma handler_acts_ok:
  assumes ok: "buffer_ok hs b owners" and i: "i < length hs" and h: "hs ! i = (tid, context, h)"
    and step: "handler_step ss read tid context h b = (h', b')"
  shows "buffer_ok (hs[i := (tid, context, h')]) b'
      (if hit_count b' = hit_count b then owners else owners @ [(tid, context, handler_slot h)])"
proof -
  define hs' where "hs' = hs[i := (tid, context, h')]"
  note okD = buffer_okD [OF ok] and own = captures_own [OF i h]
  have upd: "captures hs' j ordinal owner \<longleftrightarrow>
      (if j = i then \<exists>slot. h' = Capturing slot ordinal \<and> owner = (tid, context, slot) else captures hs j ordinal owner)"
    for j ordinal owner unfolding hs'_def by (rule captures_update [OF i])
  have dropping: "length (filter is_dropping hs') + of_bool (is_dropping (tid, context, h)) =
      length (filter is_dropping hs) + of_bool (is_dropping (tid, context, h'))"
    using filter_update [OF i, of is_dropping "(tid, context, h')"] h by (simp add: hs'_def)
  have "buffer_ok hs' b' (if hit_count b' = hit_count b then owners else owners @ [(tid, context, handler_slot h)])"
    using step
  proof (cases rule: handler_step_cases)
    case quiet
    have "captures hs' j ordinal owner \<longleftrightarrow> captures hs j ordinal owner" for j ordinal owner
      using own quiet by (cases h; cases h') (auto simp: upd)
    moreover have "is_dropping (tid, context, h) = False" "is_dropping (tid, context, h') = False" using quiet by auto
    ultimately show ?thesis using ok dropping quiet(1) by (simp add: buffer_ok_def)
  next
    case (overflow slot ours)
    have same: "captures hs' j ordinal owner \<longleftrightarrow> captures hs j ordinal owner" for j ordinal owner
      using own overflow by (auto simp: upd)
    have count: "length (filter is_dropping hs') = Suc (length (filter is_dropping hs))" using dropping overflow by simp
    show ?thesis
      unfolding overflow(4)
      by (rule buffer_okI) (use okD count overflow(3) in \<open>fastforce simp: same nth_append\<close>)+
  next
    case (take slot ours)
    let ?n = "hit_count b"
    have same: "captures hs' j ordinal owner \<longleftrightarrow>
        (if j = i then ordinal = ?n \<and> owner = (tid, context, slot) else captures hs j ordinal owner)" for j ordinal owner
      using take(2) by (auto simp: upd)
    have free: "\<not> captures hs j ?n owner" "\<not> captures hs i ordinal owner" for j ordinal owner
      using okD(3) [of j ?n owner] own take(1) by auto
    have unready: "\<not> ready (hits b ! ?n)" using okD(5) [OF take(3)] by blast
    have count: "length (filter is_dropping hs') = length (filter is_dropping hs)" using dropping take by simp
    have entry: "ready (hits b' ! ordinal) \<longleftrightarrow> ready (hits b ! ordinal)"
      "ready (hits b ! ordinal) \<Longrightarrow> hits b' ! ordinal = hits b ! ordinal" if "ordinal < kMaxHits" for ordinal
      using unready okD(1) that take(3) by (cases "ordinal = ?n"; simp add: take(4))+
    have b': "hit_count b' = Suc ?n" "dropped b' = dropped b" "length (hits b') = kMaxHits"
      using okD(1) by (simp_all add: take(4))
    have owners: "(if hit_count b' = ?n then owners else owners @ [(tid, context, handler_slot h)]) = owners @ [(tid, context, slot)]"
      by (simp add: b' take(1))
    show ?thesis
      unfolding owners
    proof (rule buffer_okI)
      show "ordinal < hit_count b' \<and> ordinal < kMaxHits \<and> \<not> ready (hits b' ! ordinal) \<and>
          (owners @ [(tid, context, slot)]) ! ordinal = owner" if "captures hs' j ordinal owner" for j ordinal owner
      proof (cases "j = i")
        case True
        then have "ordinal = ?n" "owner = (tid, context, slot)" using that by (simp_all add: same)
        then show ?thesis using entry(1) [OF take(3)] unready take(3) okD(2) by (simp add: b' nth_append)
      next
        case False
        then have "captures hs j ordinal owner" using that by (simp add: same)
        from okD(3) [OF this] show ?thesis using entry(1) okD(2) by (simp add: b' nth_append)
      qed
      show "j = k" if "captures hs' j ordinal owner" "captures hs' k ordinal owner'" for j k ordinal owner owner'
        using that free okD(4) by (simp add: same split: if_splits)
      show "ordinal < hit_count b' \<and> entry_of ((owners @ [(tid, context, slot)]) ! ordinal) (buffered_hit (hits b' ! ordinal))"
        if "ordinal < kMaxHits" "ready (hits b' ! ordinal)" for ordinal
        using okD(5) [OF that(1)] entry [OF that(1)] that(2) okD(2) by (simp add: b' nth_append)
      show "ready (hits b' ! ordinal) \<or> (\<exists>j owner. captures hs' j ordinal owner)"
        if small: "ordinal < kMaxHits" and below: "ordinal < hit_count b'" for ordinal
      proof (cases "ordinal = ?n")
        case True
        then have "captures hs' i ordinal (tid, context, slot)" by (simp add: same)
        then show ?thesis by blast
      next
        case False
        then have "ordinal < ?n" using below b'(1) by simp
        then consider "ready (hits b ! ordinal)" | j owner where "captures hs j ordinal owner" using okD(6) [OF small] by blast
        then show ?thesis
        proof cases
          case 1
          then show ?thesis using entry(1) [OF small] by blast
        next
          case 2
          then have "captures hs' j ordinal owner" using free(2) by (simp add: same) blast
          then show ?thesis by blast
        qed
      qed
    qed (use okD(1,2,7) count b' take(3) in \<open>simp_all\<close>)
  next
    case (drop slot)
    have same: "captures hs' j ordinal owner \<longleftrightarrow> captures hs j ordinal owner" for j ordinal owner
      using own drop by (auto simp: upd)
    have count: "Suc (length (filter is_dropping hs')) = length (filter is_dropping hs)" using dropping drop by simp
    show ?thesis
      unfolding drop(3)
      by (rule buffer_okI) (use okD count in \<open>fastforce simp: same\<close>)+
  next
    case (publish slot mine)
    have same: "captures hs' j ordinal owner \<longleftrightarrow> j \<noteq> i \<and> captures hs j ordinal owner" for j ordinal owner
      using publish(2) by (auto simp: upd)
    have held: "captures hs i mine (tid, context, slot)" using own publish(1) by simp
    note mine = okD(3) [OF held]
    have count: "length (filter is_dropping hs') = length (filter is_dropping hs)" using dropping publish by simp
    have b': "hit_count b' = hit_count b" "dropped b' = dropped b" "length (hits b') = kMaxHits"
      using okD(1) by (simp_all add: publish(3))
    have entry: "hits b' ! ordinal = (if ordinal = mine
        then \<lparr>buffered_hit = capture_hit read tid context slot, ready = True\<rparr> else hits b ! ordinal)"
      if "ordinal < kMaxHits" for ordinal
      using okD(1) that by (simp add: publish(3) nth_list_update)
    have owner: "entry_of (owners ! mine) (capture_hit read tid context slot)" using mine by (auto simp: entry_of_def)
    show ?thesis
      unfolding b'(1) if_True simp_thms
    proof (rule buffer_okI)
      show "ordinal < hit_count b' \<and> ordinal < kMaxHits \<and> \<not> ready (hits b' ! ordinal) \<and> owners ! ordinal = owner'"
        if "captures hs' j ordinal owner'" for j ordinal owner'
      proof -
        have j: "j \<noteq> i" "captures hs j ordinal owner'" using that by (simp_all add: same)
        then have "ordinal \<noteq> mine" using okD(4) held by blast
        then show ?thesis using okD(3) [OF j(2)] entry by (simp add: b')
      qed
      show "j = k" if "captures hs' j ordinal owner" "captures hs' k ordinal owner'" for j k ordinal owner owner'
        using that okD(4) unfolding same by blast
      show "ordinal < hit_count b' \<and> entry_of (owners ! ordinal) (buffered_hit (hits b' ! ordinal))"
        if "ordinal < kMaxHits" "ready (hits b' ! ordinal)" for ordinal
        using okD(5) [OF that(1)] entry [OF that(1)] that(2) mine owner by (simp add: b' split: if_splits)
      show "ready (hits b' ! ordinal) \<or> (\<exists>j owner. captures hs' j ordinal owner)"
        if small: "ordinal < kMaxHits" and below: "ordinal < hit_count b'" for ordinal
      proof (cases "ordinal = mine")
        case False
        then consider "ready (hits b ! ordinal)" | j owner where "captures hs j ordinal owner"
          using okD(6) [OF small] below b'(1) by auto
        then show ?thesis
        proof cases
          case 2
          have "j \<noteq> i" using 2 own [of ordinal owner] publish(1) False by auto
          then have "captures hs' j ordinal owner" using 2 same by blast
          then show ?thesis by blast
        qed (use entry [OF small] in simp)
      qed (use entry [OF small] in simp)
    qed (use okD(1,2,7) count b' in \<open>simp_all\<close>)
  qed
  then show ?thesis by (simp add: hs'_def)
qed

lemma captures_raised: "captures (hs @ [(tid, context, kHandlerStart)]) i ordinal owner \<longleftrightarrow> captures hs i ordinal owner"
  by (cases owner) (auto simp: captures_def nth_append kHandlerStart_def less_Suc_eq)

lemma captures_mid_hit:
  assumes "captures hs i ordinal owner"
  shows "mid_hit hs"
proof -
  obtain tid c slot where "i < length hs" "hs ! i = (tid, c, Capturing slot ordinal)"
    using assms by (cases owner) (auto simp: captures_def)
  then have "hs ! i \<in> set hs" and "is_capturing (hs ! i)" using nth_mem [of i hs] by auto
  then show ?thesis unfolding mid_hit_def list_ex_iff by blast
qed

lemma not_mid_hitD:
  assumes "\<not> mid_hit hs"
  shows "\<not> captures hs i ordinal owner" and "filter is_dropping hs = []"
  using assms captures_mid_hit [of hs i ordinal owner] by (auto simp: mid_hit_def list_ex_iff filter_empty_conv)

lemma buffer_ok_raised:
  "buffer_ok hs b owners \<Longrightarrow> buffer_ok (hs @ [(tid, context, kHandlerStart)]) b owners"
  by (simp add: buffer_ok_def captures_raised) (simp add: kHandlerStart_def)

lemma buffer_ok_cleared:
  assumes "\<not> mid_hit hs" and "length (hits b) = kMaxHits" and "hit_count b = 0" and "dropped b = 0"
    and "\<forall>i < kMaxHits. \<not> ready (hits b ! i)"
  shows "buffer_ok hs b []"
  using assms not_mid_hitD [OF assms(1)] by (simp add: buffer_ok_def)

text \<open>What a handler does to the entries that a collection has read or has still to read.\<close>

lemma ready_list_update: "(ready (hs ! j) \<Longrightarrow> ready x) \<Longrightarrow> ready (hs ! i) \<Longrightarrow> ready (hs[j := x] ! i)"
  by (cases "j < length hs") (auto simp: nth_list_update not_less list_update_beyond)

lemma handler_step_keeps:
  assumes "handler_step ss read tid context h b = (h', b')"
  shows "length (hits b') = length (hits b)" and "dropped b \<le> dropped b'" and "ready (hits b ! i) \<Longrightarrow> ready (hits b' ! i)"
proof -
  have "length (hits b') = length (hits b) \<and> dropped b \<le> dropped b' \<and> (ready (hits b ! i) \<longrightarrow> ready (hits b' ! i))"
    using assms by (cases rule: handler_step_cases) (simp_all add: ready_list_update)
  then show "length (hits b') = length (hits b)" and "dropped b \<le> dropped b'" and "ready (hits b ! i) \<Longrightarrow> ready (hits b' ! i)"
    by simp_all
qed

text \<open>The ordinals of the hits a collection has found among its first entries.\<close>

definition found_hits :: "(u32 \<times> CPU_CONTEXT \<times> nat) list \<Rightarrow> nat \<Rightarrow> nat list \<Rightarrow> Hit list \<Rightarrow> bool" where
  "found_hits owners k reported found \<longleftrightarrow> sorted_wrt (<) reported \<and> set reported \<subseteq> {..<k} \<and>
     list_all2 (\<lambda>ordinal hit. entry_of (owners ! ordinal) hit) reported found"

lemma found_hits_grow:
  assumes "found_hits owners k reported found" and "k \<le> length owners"
  shows "found_hits (owners @ later) k reported found"
proof -
  have "reported ! i < length owners" if "i < length reported" for i
    using assms nth_mem [OF that] by (auto simp: found_hits_def)
  then show ?thesis using assms(1) by (simp add: found_hits_def list_all2_conv_all_nth nth_append)
qed

lemma mid_hit_quiet:
  assumes "\<not> mid_hit hs" and "i < length hs" and "hs ! i = (tid, context, h)"
    and "handler_step ss read tid context h b = (h', b)"
  shows "\<not> mid_hit (hs[i := (tid, context, h')])"
proof -
  have none: "\<not> is_dropping x \<and> \<not> is_capturing x" if "x \<in> set hs" for x
    using assms(1) that by (auto simp: mid_hit_def list_ex_iff)
  have h: "\<not> is_dropping (tid, context, h)" "\<not> is_capturing (tid, context, h)"
    using none [OF nth_mem [OF assms(2)]] assms(3) by auto
  have count: "b \<noteq> b\<lparr>hit_count := hit_count b + 1\<rparr>" "b \<noteq> b\<lparr>hit_count := hit_count b + 1, hits := hs'\<rparr>" for hs'
    by (metis HitBuffer.select_convs(1) HitBuffer.surjective HitBuffer.update_convs(1,3) n_not_Suc_n Suc_eq_plus1)+
  have "\<not> is_dropping (tid, context, h') \<and> \<not> is_capturing (tid, context, h')"
    using assms(4) by (cases rule: handler_step_cases) (use h count in auto)
  then show ?thesis
    using none by (auto simp: mid_hit_def list_ex_iff dest!: set_update_subset_insert [THEN subsetD])
qed

text \<open>The invariant, for a buffer whose last clear met no handler.\<close>

definition buffer_clearing :: "nat \<Rightarrow> (u32 \<times> CPU_CONTEXT \<times> HandlerState) list \<Rightarrow> HitBuffer \<Rightarrow> bool" where
  "buffer_clearing k hs b \<longleftrightarrow> \<not> mid_hit hs \<and> hit_count b = 0 \<and> (0 < k \<longrightarrow> dropped b = 0) \<and> (\<forall>i < k - 1. \<not> ready (hits b ! i))"

fun collection_ok ::
  "Collector \<Rightarrow> (u32 \<times> CPU_CONTEXT \<times> HandlerState) list \<Rightarrow> HitBuffer \<Rightarrow> (u32 \<times> CPU_CONTEXT \<times> nat) list \<Rightarrow> nat \<Rightarrow> bool \<Rightarrow> bool" where
  "collection_ok NoCollection hs b owners m all \<longleftrightarrow> True"
| "collection_ok (Reading n k found) hs b owners m all \<longleftrightarrow> n = min m kMaxHits \<and> k \<le> n \<and> m \<le> length owners \<and>
     (\<exists>reported. found_hits owners k reported found \<and> (all \<longrightarrow> reported = [0..<k])) \<and>
     (all \<longrightarrow> (\<forall>i < n. ready (hits b ! i)) \<and> m - kMaxHits \<le> dropped b)"
| "collection_ok (Reported snapshot) hs b owners m all \<longleftrightarrow> m \<le> length owners \<and>
     (\<exists>reported. found_hits owners (min m kMaxHits) reported (snapshot_hits snapshot) \<and>
        (all \<longrightarrow> reported = [0..<min m kMaxHits])) \<and>
     snapshot_dropped snapshot \<le> length owners - kMaxHits \<and> (all \<longrightarrow> m - kMaxHits \<le> snapshot_dropped snapshot)"
| "collection_ok (Clearing k) hs b owners m all \<longleftrightarrow> owners = [] \<and> buffer_clearing k hs b"

definition system_ok :: "System \<Rightarrow> bool" where
  "system_ok S \<longleftrightarrow> length (hits (sys_buffer S)) = kMaxHits \<and>
     (\<not> raced S \<longrightarrow>
        collection_ok (collector S) (sys_handlers S) (sys_buffer S) (taken S) (begun S) (whole S) \<and>
        (\<not> is_clearing (collector S) \<longrightarrow> buffer_ok (sys_handlers S) (sys_buffer S) (taken S)))"

lemma collection_ok_acts:
  assumes ok: "collection_ok c hs b owners m all" and i: "i < length hs" "hs ! i = (tid, context, h)"
    and step: "handler_step ss read tid context h b = (h', b')" and c: "is_clearing c \<longrightarrow> b' = b"
    and owners: "owners' = (if hit_count b' = hit_count b then owners else owners @ later)"
  shows "collection_ok c (hs[i := (tid, context, h')]) b' owners' m all"
proof (cases c)
  case (Reading n k found)
  with ok obtain reported where r: "found_hits owners k reported found" "all \<longrightarrow> reported = [0..<k]"
    and n: "n = min m kMaxHits" "k \<le> n" "m \<le> length owners"
      "all \<longrightarrow> (\<forall>i < n. ready (hits b ! i)) \<and> m - kMaxHits \<le> dropped b" by auto
  have "found_hits owners' k reported found"
    using found_hits_grow [OF r(1), of later] r(1) n by (simp add: owners)
  moreover have "m \<le> length owners'" using n(3) by (simp add: owners)
  moreover have "all \<longrightarrow> (\<forall>i < n. ready (hits b' ! i)) \<and> m - kMaxHits \<le> dropped b'"
    using n(4) handler_step_keeps(2,3) [OF step] by (meson le_trans)
  ultimately show ?thesis using Reading r(2) n(1,2) by auto
next
  case (Reported snapshot)
  with ok obtain reported where r: "found_hits owners (min m kMaxHits) reported (snapshot_hits snapshot)"
      "all \<longrightarrow> reported = [0..<min m kMaxHits]"
    and n: "m \<le> length owners" "snapshot_dropped snapshot \<le> length owners - kMaxHits"
      "all \<longrightarrow> m - kMaxHits \<le> snapshot_dropped snapshot" by auto
  have "found_hits owners' (min m kMaxHits) reported (snapshot_hits snapshot)"
    using found_hits_grow [OF r(1), of later] r(1) n by (simp add: owners)
  moreover have "length owners \<le> length owners'" by (simp add: owners)
  then have "m \<le> length owners'" "snapshot_dropped snapshot \<le> length owners' - kMaxHits" using n(1,2) by linarith+
  ultimately show ?thesis using Reported r(2) n(3) by auto
next
  case (Clearing k)
  with ok c have b: "owners = []" "buffer_clearing k hs b" "b' = b" by simp_all
  then have "\<not> mid_hit (hs[i := (tid, context, h')])"
    using mid_hit_quiet [OF _ i] step by (metis buffer_clearing_def)
  then show ?thesis using Clearing b by (simp add: buffer_clearing_def owners)
qed simp

lemma collection_ok_begins:
  assumes "buffer_ok hs b owners"
  shows "collection_ok (Reading (min (hit_count b) kMaxHits) 0 []) hs b owners (length owners) (\<not> mid_hit hs)"
proof -
  note okD = buffer_okD [OF assms]
  have "ready (hits b ! i)" if "\<not> mid_hit hs" "i < min (hit_count b) kMaxHits" for i
    using okD(6) [of i] that not_mid_hitD [OF that(1)] by simp
  moreover have "dropped b = hit_count b - kMaxHits" if "\<not> mid_hit hs"
    using okD(7) not_mid_hitD(2) [OF that] by simp
  ultimately show ?thesis using okD(2) by (simp add: found_hits_def)
qed

lemma collection_ok_read:
  assumes "collection_ok (Reading n k found) hs b owners m all" and "buffer_ok hs b owners" and "k < n"
  shows "collection_ok (Reading n (Suc k) (if ready (hits b ! k) then found @ [buffered_hit (hits b ! k)] else found)) hs b owners m all"
proof -
  let ?e = "hits b ! k"
  from assms(1) obtain reported where r: "found_hits owners k reported found" "all \<longrightarrow> reported = [0..<k]"
    and n: "n = min m kMaxHits" "m \<le> length owners" "all \<longrightarrow> (\<forall>i < n. ready (hits b ! i)) \<and> m - kMaxHits \<le> dropped b" by auto
  have "entry_of (owners ! k) (buffered_hit ?e)" if "ready ?e"
    using buffer_okD(5) [OF assms(2), of k] that assms(3) n(1) by simp
  then have "found_hits owners (Suc k) (if ready ?e then reported @ [k] else reported)
      (if ready ?e then found @ [buffered_hit ?e] else found)"
    using r(1) by (auto simp: found_hits_def sorted_wrt_append intro: list_all2_appendI)
  moreover have "all \<longrightarrow> (if ready ?e then reported @ [k] else reported) = [0..<Suc k]"
    using r(2) n(3) assms(3) by simp
  moreover have "Suc k \<le> n" using assms(3) by simp
  ultimately show ?thesis
    unfolding collection_ok.simps using n by (intro conjI exI [of _ "if ready ?e then reported @ [k] else reported"])
qed

lemma watch_step_ok:
  assumes "watch_step S S'" and ok: "system_ok S"
  shows "system_ok S'"
  using assms(1)
proof (cases rule: watch_step.cases)
  case (exception_raised tid c)
  have quiet: "mid_hit (sys_handlers S @ [(tid, c, kHandlerStart)]) \<longleftrightarrow> mid_hit (sys_handlers S)"
    by (simp add: mid_hit_def kHandlerStart_def)
  have "collection_ok (collector S) (sys_handlers S @ [(tid, c, kHandlerStart)]) (sys_buffer S) (taken S) (begun S) (whole S) \<longleftrightarrow>
      collection_ok (collector S) (sys_handlers S) (sys_buffer S) (taken S) (begun S) (whole S)"
    by (cases "collector S") (simp_all add: buffer_clearing_def quiet)
  then show ?thesis using ok by (simp add: exception_raised system_ok_def buffer_ok_raised)
next
  case (handler_acts i tid c h read h' b)
  note keeps = handler_step_keeps(1) [OF handler_acts(4)]
  show ?thesis
  proof (cases "raced S \<or> is_clearing (collector S) \<and> b \<noteq> sys_buffer S")
    case True
    then show ?thesis using ok keeps by (auto simp: handler_acts(1) system_ok_def)
  next
    case False
    with ok have "collection_ok (collector S) (sys_handlers S) (sys_buffer S) (taken S) (begun S) (whole S)"
      "is_clearing (collector S) \<longrightarrow> b = sys_buffer S" by (simp_all add: system_ok_def)
    from collection_ok_acts [OF this(1) handler_acts(2-4) this(2) refl]
    have "collection_ok (collector S') (sys_handlers S') (sys_buffer S') (taken S') (begun S') (whole S')"
      by (simp add: handler_acts(1))
    moreover have "buffer_ok (sys_handlers S') (sys_buffer S') (taken S')" if "\<not> is_clearing (collector S)"
      using ok False that handler_acts_ok [OF _ handler_acts(2-4), of "taken S"] by (simp add: handler_acts(1) system_ok_def)
    ultimately show ?thesis using ok keeps by (simp add: system_ok_def) (simp add: handler_acts(1))
  qed
next
  case collection_begins
  then show ?thesis
    using ok collection_ok_begins [of "sys_handlers S" "sys_buffer S" "taken S"] by (simp add: system_ok_def del: collection_ok.simps(2))
next
  case (entry_read n k found)
  then show ?thesis
    using ok collection_ok_read [of n k found "sys_handlers S" "sys_buffer S" "taken S"]
    by (simp add: system_ok_def del: collection_ok.simps(2))
next
  case (dropped_read n found)
  then show ?thesis
    using ok buffer_okD(2,7) [of "sys_handlers S" "sys_buffer S" "taken S"] by (auto simp: system_ok_def)
next
  case (entry_cleared i)
  then show ?thesis using ok by (auto simp: system_ok_def buffer_clearing_def nth_list_update less_Suc_eq)
next
  case clear_ends
  then show ?thesis
    using ok buffer_ok_cleared [of "sys_handlers S" "sys_buffer S"] by (simp add: system_ok_def buffer_clearing_def)
qed (use ok in \<open>simp_all add: system_ok_def buffer_clearing_def\<close>)

lemma reachable_system_ok: "reachable_system S \<Longrightarrow> system_ok S"
proof (induction rule: reachable_system.induct)
  case at_start
  show ?case by (simp add: system_ok_def buffer_ok_def started_system_def new_watch_def captures_def)
qed (rule watch_step_ok)

lemma reachable_steps: "watch_step\<^sup>*\<^sup>* S S' \<Longrightarrow> reachable_system S \<Longrightarrow> reachable_system S'"
  by (induction rule: rtranclp_induct) (auto intro: after_step)

text \<open>C26: what a collection reports while handlers start, act and end between its steps. If no handler was in the
  middle of a hit while the buffer was last cleared, then every reported hit is the whole record of one fired slot of one
  thread, the hits are in the order in which they took their ordinals and none is there twice, and no more are
  counted as dropped than were beyond the 128 entries. If moreover no handler was in the middle of a hit when the
  collection began, then exactly the hits taken until then are reported, up to 128, and at least all the others are counted
  as dropped. The condition on the clear cannot be left out (\<open>clear_during_hit\<close> below).\<close>

theorem collected_hits:
  assumes "reachable_system S" and "collector S = Reported snapshot" and "\<not> raced S"
  shows "\<exists>reported. sorted_wrt (<) reported \<and> set reported \<subseteq> {..<min (begun S) kMaxHits} \<and>
    list_all2 (\<lambda>ordinal hit. entry_of (taken S ! ordinal) hit) reported (snapshot_hits snapshot) \<and>
    begun S \<le> length (taken S) \<and> snapshot_dropped snapshot \<le> length (taken S) - kMaxHits \<and>
    (whole S \<longrightarrow> reported = [0..<min (begun S) kMaxHits] \<and> begun S - kMaxHits \<le> snapshot_dropped snapshot)"
proof -
  have "collection_ok (Reported snapshot) (sys_handlers S) (sys_buffer S) (taken S) (begun S) (whole S)"
    using reachable_system_ok [OF assms(1)] assms(2,3) by (simp add: system_ok_def)
  then show ?thesis unfolding collection_ok.simps found_hits_def by blast
qed

text \<open>A clear between the two halves of a hit, which the code does not exclude: the handler then marks an entry that
  the next one has just emptied, and a collection reports the blank record as a hit.\<close>

lemma clear_during_hit:
  assumes "0 < kMaxHits" and "length (hits b) = kMaxHits" and "hit_count b = 0"
    and "slot_fired ss first 0" and "slot_fired ss second 0"
  shows "\<exists>h h' b1 b2 b3. handler_step ss read tid first kHandlerStart b = (h, b1) \<and>
    handler_step ss read tid first h (snd (Collect True b1)) = (h', b2) \<and>
    handler_step ss read tid' second kHandlerStart b2 = (Capturing 0 0, b3) \<and>
    snapshot_hits (fst (Collect False b3)) = [no_hit]"
  using assms by (auto simp: kHandlerStart_def slot_fired_def and.assoc Let_def Collect_def ClearHits_def kMaxSlots_def)

section \<open>The registers come back\<close>

text \<open>A process of threads that are all open to the caller, but for the calling thread itself.\<close>

record machine =
  machine_thread :: u32
  machine_threads :: "u32 list"
  machine_regs :: "u32 \<Rightarrow> CONTEXT"

definition machine_api :: "machine ThreadApi" where
  "machine_api =
     \<lparr>GetCurrentThreadId = machine_thread, GetCurrentProcessId = \<lambda>s. 1,
      ThreadSnapshot = \<lambda>s. (Some (map (\<lambda>tid. (1, tid)) (machine_threads s)), s),
      OpenThread = \<lambda>tid s. (List.member (machine_threads s) tid, s),
      SuspendThread = \<lambda>tid s. (True, s),
      GetThreadContext = \<lambda>tid s. (Some (machine_regs s tid), s),
      SetThreadContext = \<lambda>tid c s. (True, s\<lparr>machine_regs := (machine_regs s)(tid := c)\<rparr>),
      ResumeThread = \<lambda>tid s. s, CloseHandle = \<lambda>tid s. s,
      AddVectoredExceptionHandler = \<lambda>s. (True, s), RemoveVectoredExceptionHandler = \<lambda>s. s\<rparr>"

interpretation machine: thread_registers machine_api machine_regs
  by unfold_locales (simp_all add: machine_api_def)

lemma Disarm_own_thread:
  assumes "handler_installed w" and "watch_saved w = [saved]" and "GetCurrentThreadId api s = thread_id saved"
    and "thread_registers api regs"
  shows "\<exists>w' s'. Disarm api w s = (0, w', s') \<and> watch_saved w' = [] \<and> regs s' = regs s"
proof -
  have "regs (RemoveVectoredExceptionHandler api s) = regs s" using assms(4) by (rule thread_registers.remove_regs)
  then show ?thesis using assms by (simp add: Disarm_def Let_def RestoreThread_def)
qed

text \<open>C27: the watch takes nothing from the program. In every run of the calls a thread that was never lost has its
  original debug registers on record or still in place, and when a \<open>Disarm\<close> reports every saved thread as restored, all
  such threads have them back; no slot, handler or saved thread is left.\<close>

theorem Disarm_restores:
  assumes "thread_registers api regs" and "watch_run api regs s0 w s lost"
    and "Disarm api w s = (length (watch_saved w), w', s')"
  shows "(\<forall>t. t \<notin> lost \<longrightarrow> regs s' t = regs s0 t) \<and> \<not> handler_installed w' \<and>
    \<not> AnySlotActive (watch_slots w') \<and> watch_saved w' = []"
proof -
  have run: "watch_run api regs s0 w' s' lost" using watch_run.disarmed [OF assms(2,3)] by simp
  have w: "watch_ok w" using thread_registers.watch_run_kept [OF assms(1,2)] by simp
  note w' = Disarm_ok [OF assms(3) w]
  from thread_registers.watch_run_kept [OF assms(1) run] w' show ?thesis by (simp add: kept_def)
qed

text \<open>What every reachable state of the watch keeps: four slots and 128 entries; an active slot watches an execution
  or an aligned write of 1, 2, 4 or 8 bytes; the handler is installed exactly while some slot is active; threads are saved at
  most once and only while it is.\<close>

lemma watch_invariant:
  assumes "thread_registers api regs" and "watch_run api regs s0 w s lost"
  shows "length (watch_slots w) = kMaxSlots \<and> length (hits (watch_buffer w)) = kMaxHits \<and>
    (\<forall>slot \<in> set (watch_slots w). slot_ok slot) \<and> (handler_installed w \<longleftrightarrow> AnySlotActive (watch_slots w)) \<and>
    distinct (map thread_id (watch_saved w)) \<and> (watch_saved w \<noteq> [] \<longrightarrow> handler_installed w)"
  using thread_registers.watch_run_kept [OF assms] by (auto simp: watch_ok_def kept_def list_all_iff)

definition sample_machine :: machine where
  "sample_machine = \<lparr>machine_thread = 1, machine_threads = [1, 2],
     machine_regs = \<lambda>tid. \<lparr>Dr0 = 7, Dr1 = 0, Dr2 = 0, Dr3 = 0, Dr6 = 0, Dr7 = 0x400\<rparr>\<rparr>"

definition sample_memory :: query where
  "sample_memory address = Some \<lparr>BaseAddress = 0x1000, AllocationBase = 0x1000, AllocationProtect = PAGE_READWRITE,
     RegionSize = 0x1000, State = MEM_COMMIT, Protect = PAGE_READWRITE, MemType = 0x20000\<rparr>"

definition sample_watch :: Watch where
  "sample_watch = new_watch\<lparr>watch_slots := (watch_slots new_watch)[0 := watch_state kWrite 0x1000 4],
     watch_saved := [save_thread 2 (machine_regs sample_machine 2)], handler_installed := True\<rparr>"

lemma slot_indices: "[0..<kMaxSlots] = [0, 1, 2, 3]"
  by (simp add: kMaxSlots_def upt_rec eval_nat_numeral)

lemma ClearHits_new: "ClearHits (watch_buffer new_watch) = watch_buffer new_watch"
  by (simp add: ClearHits_def new_watch_def)

lemma sample_arm:
  "Arm machine_api sample_memory kWrite 0x1000 4 new_watch sample_machine =
     (\<lparr>arm_status = kOk, arm_slot = 0, thread_count = 1\<rparr>, sample_watch,
      sample_machine\<lparr>machine_regs := (machine_regs sample_machine)(2 :=
        ApplySlots (watch_slots sample_watch) (machine_regs sample_machine 2) (save_thread 2 (machine_regs sample_machine 2)))\<rparr>)"
proof -
  have "\<not> arm_invalid sample_memory kWrite 0x1000 4"
    by (simp add: arm_invalid_def IsWritable_def sample_memory_def PAGE_READWRITE_def PAGE_GUARD_def PAGE_NOACCESS_def)
  moreover have "free_slot_index (watch_slots new_watch) = 0"
    by (simp add: free_slot_index_def new_watch_def kMaxSlots_def free_slot_def upt_rec)
  moreover have "install_handler machine_api new_watch sample_machine =
      (True, new_watch\<lparr>handler_installed := True\<rparr>, sample_machine)"
    by (simp add: install_handler_def machine_api_def ClearHits_new)
  moreover have "place_watch machine_api 0 (watch_state kWrite 0x1000 4) (new_watch\<lparr>handler_installed := True\<rparr>) sample_machine =
     (\<lparr>arm_status = kOk, arm_slot = 0, thread_count = 1\<rparr>, sample_watch,
      sample_machine\<lparr>machine_regs := (machine_regs sample_machine)(2 :=
        ApplySlots (watch_slots sample_watch) (machine_regs sample_machine 2) (save_thread 2 (machine_regs sample_machine 2)))\<rparr>)"
    by (simp add: place_watch_def ConfigureAllThreads_def machine_api_def ConfigureThread_def sample_machine_def
      FindSavedThread_def sample_watch_def new_watch_def)
  ultimately show ?thesis by (simp add: Arm_def Let_def kMaxSlots_def)
qed

lemma sample_watch_run:
  "\<exists>s. watch_run machine_api machine_regs sample_machine sample_watch s {}"
  using watch_run.armed [OF watch_run.started sample_arm, of machine_regs] by blast

lemma watch_invariant_witness: "AnySlotActive (watch_slots sample_watch) \<and> distinct (map thread_id (watch_saved sample_watch))"
proof -
  obtain s where run: "watch_run machine_api machine_regs sample_machine sample_watch s {}" using sample_watch_run by blast
  show ?thesis using watch_invariant [OF machine.thread_registers_axioms run] by (simp add: sample_watch_def)
qed

theorem Disarm_restores_witness:
  "\<exists>s w s'. watch_run machine_api machine_regs sample_machine sample_watch s {} \<and>
     Disarm machine_api sample_watch s = (1, w, s') \<and> machine_regs s' = machine_regs sample_machine \<and>
     machine_regs s 2 \<noteq> machine_regs sample_machine 2"
proof -
  let ?c = "ApplySlots (watch_slots sample_watch) (machine_regs sample_machine 2) (save_thread 2 (machine_regs sample_machine 2))"
  let ?s = "sample_machine\<lparr>machine_regs := (machine_regs sample_machine)(2 := ?c)\<rparr>"
  have run: "watch_run machine_api machine_regs sample_machine sample_watch ?s {}"
    by (rule watch_run.armed [OF watch_run.started sample_arm])
  have armed: "sample_watch = sample_watch\<lparr>handler_installed := True\<rparr>" "length (watch_saved sample_watch) = 1"
    by (simp_all add: sample_watch_def)
  obtain w s' where stop: "Disarm machine_api sample_watch ?s = (1, w, s')"
    by (simp add: Disarm_def machine_api_def RestoreThread_def sample_watch_def sample_machine_def)
  have "machine_regs s' t = machine_regs sample_machine t" for t
    using Disarm_restores [OF machine.thread_registers_axioms run, of w s'] stop armed(2) by simp
  moreover have "Dr0 ?c = 0x1000"
    by (simp add: ApplySlots_def apply_slot_registers slot_indices)
      (simp add: sample_watch_def new_watch_def watch_state_def kMaxSlots_def)
  then have "machine_regs ?s 2 \<noteq> machine_regs sample_machine 2" by (auto simp: sample_machine_def)
  ultimately show ?thesis using run stop by blast
qed


text \<open>One hit of one thread, from the exception to the report.\<close>

definition sample_context :: CPU_CONTEXT where
  "sample_context = \<lparr>Dr0 = 0x1000, Dr1 = 0, Dr2 = 0, Dr3 = 0, Dr6 = 1, Dr7 = 1, EFlags = 0, Rip = 0x400000, Rsp = 0x8000,
     Rax = 0, Rbx = 0, Rbp = 0, Rsi = 0, Rdi = 0, Rcx = 0, Rdx = 0, R8 = 0, R9 = 0, R10 = 0, R11 = 0\<rparr>"

lemma sample_fired: "slot_fired (watch_slots sample_watch) sample_context 0"
  by (simp add: slot_fired_def sample_watch_def new_watch_def sample_context_def watch_state_def kMaxSlots_def)

lemma sample_hit_run:
  "\<exists>S. reachable_system S \<and> taken S = [(2, sample_context, 0)] \<and> \<not> mid_hit (sys_handlers S) \<and>
     collector S = NoCollection \<and> \<not> raced S"
proof -
  let ?ss = "watch_slots sample_watch" and ?b = "watch_buffer new_watch"
  let ?S0 = "started_system\<lparr>sys_slots := ?ss\<rparr>"
  have S0: "reachable_system ?S0" using after_step [OF at_start slots_change] .
  let ?S1 = "?S0\<lparr>sys_handlers := [(2, sample_context, kHandlerStart)]\<rparr>"
  have S1: "reachable_system ?S1"
    using after_step [OF S0 exception_raised [of ?S0 2 sample_context]] by (simp add: started_system_def)
  obtain b2 where b2: "handler_step ?ss (\<lambda>_. None) 2 sample_context kHandlerStart ?b = (Capturing 0 0, b2)" "hit_count b2 = 1"
    using sample_fired by (auto simp: kHandlerStart_def slot_fired_def and.assoc Let_def new_watch_def kMaxHits_def kMaxSlots_def)
  let ?S2 = "?S1\<lparr>sys_handlers := [(2, sample_context, Capturing 0 0)], sys_buffer := b2, taken := [(2, sample_context, 0)]\<rparr>"
  have "watch_step ?S1 ?S2"
    using handler_acts [of 0 ?S1 2 sample_context kHandlerStart "\<lambda>_. None" "Capturing 0 0" b2] b2
    by (simp add: started_system_def new_watch_def kHandlerStart_def)
  then have S2: "reachable_system ?S2" by (rule after_step [OF S1])
  obtain b3 where b3: "handler_step ?ss (\<lambda>_. None) 2 sample_context (Capturing 0 0) b2 = (AtSlot 1 True, b3)" "hit_count b3 = 1"
    using b2(2) by simp
  let ?S3 = "?S2\<lparr>sys_handlers := [(2, sample_context, AtSlot 1 True)], sys_buffer := b3, taken := [(2, sample_context, 0)]\<rparr>"
  have "watch_step ?S2 ?S3"
    using handler_acts [of 0 ?S2 2 sample_context "Capturing 0 0" "\<lambda>_. None" "AtSlot 1 True" b3] b2 b3
    by (simp add: started_system_def)
  then have "reachable_system ?S3" by (rule after_step [OF S2])
  moreover have "taken ?S3 = [(2, sample_context, 0)] \<and> \<not> mid_hit (sys_handlers ?S3) \<and> collector ?S3 = NoCollection \<and> \<not> raced ?S3"
    by (simp add: mid_hit_def started_system_def)
  ultimately show ?thesis by blast
qed

theorem collected_hits_witness:
  "\<exists>S hit. reachable_system S \<and> snapshot_hits (fst (Collect True (sys_buffer S))) = [hit] \<and> entry_of (2, sample_context, 0) hit"
proof -
  obtain S where S: "reachable_system S" "taken S = [(2, sample_context, 0)]" "\<not> mid_hit (sys_handlers S)"
    "collector S = NoCollection" "\<not> raced S" using sample_hit_run by blast
  let ?S = "S\<lparr>collector := Reported (fst (Collect True (sys_buffer S))), begun := length (taken S),
    whole := \<not> mid_hit (sys_handlers S)\<rparr>"
  have run: "reachable_system ?S" by (rule reachable_steps [OF Collect_steps [OF S(4)] S(1)])
  have one: "[0..<min (begun ?S) kMaxHits] = [0]" by (simp add: S(2) kMaxHits_def)
  show ?thesis
    using collected_hits [OF run] S unfolding one by (auto simp: list_all2_Cons1)
qed

end
