(* ===== verification/Native_Call.thy ===== *)
theory Native_Call
  imports Win_Memory
begin

text \<open>
  Guarded calls of native functions (native_call.cpp). What a native function does is not in the repository: it is
  a parameter, a function of its address, the words it is passed and the state of the process, that returns a word
  or faults with a code of the structured exception. The functions of the smoke test are its instance here.
\<close>

definition kMaxArguments :: nat where "kMaxArguments = 8"

datatype CallStatus = kCallOk | kInvalidTarget | kTooManyArguments | kException

record CallResult =
  call_status :: CallStatus
  call_result :: u64
  call_fault :: u32

text \<open>The code at an address: a fault (\<open>Inl\<close> its code) or a value, and the state afterwards.\<close>

type_synonym 's native_code = "addr \<Rightarrow> u64 list \<Rightarrow> 's \<Rightarrow> (u32 + u64) \<times> 's"

definition Dispatch :: "'s native_code \<Rightarrow> addr \<Rightarrow> u64 list \<Rightarrow> 's \<Rightarrow> (u32 + u64) \<times> 's" where
  "Dispatch code address arguments s =
     (if length arguments \<le> 8 then code address arguments s else (Inr 0, s))"

definition InvokeGuarded :: "'s native_code \<Rightarrow> addr \<Rightarrow> u64 list \<Rightarrow> 's \<Rightarrow> CallResult \<times> 's" where
  "InvokeGuarded code address arguments s =
     (case Dispatch code address arguments s of
        (Inr result, s) \<Rightarrow> (\<lparr>call_status = kCallOk, call_result = result, call_fault = 0\<rparr>, s)
      | (Inl fault, s) \<Rightarrow> (\<lparr>call_status = kException, call_result = 0, call_fault = fault\<rparr>, s))"

definition Invoke :: "('s \<Rightarrow> query) \<Rightarrow> 's native_code \<Rightarrow> addr \<Rightarrow> u64 list \<Rightarrow> 's \<Rightarrow> CallResult \<times> 's" where
  "Invoke query code address arguments s =
     (if kMaxArguments < length arguments
      then (\<lparr>call_status = kTooManyArguments, call_result = 0, call_fault = 0\<rparr>, s)
      else if \<not> IsExecutableAddress (query s) address
      then (\<lparr>call_status = kInvalidTarget, call_result = 0, call_fault = 0\<rparr>, s)
      else InvokeGuarded code address arguments s)"

text \<open>The functions of native_call_smoke.cpp, at addresses of their own.\<close>

definition SumEight :: "u64 list \<Rightarrow> u64" where
  "SumEight arguments = sum_list arguments"

definition smoke_code :: "addr \<Rightarrow> u64 list \<Rightarrow> 's \<Rightarrow> (u32 + u64) \<times> 's" where
  "smoke_code address arguments s =
     (if address = 0x1000 then (Inr (SumEight arguments), s) else (Inl 0xE0424242, s))"

text \<open>What a call comes to: the code runs exactly once on the arguments, or it is refused and nothing runs.\<close>

lemma Invoke_cases:
  assumes "Invoke query code address arguments s = (r, s')"
  obtains (refused) "call_status r \<in> {kTooManyArguments, kInvalidTarget}" "s' = s"
      "kMaxArguments < length arguments \<or> \<not> IsExecutableAddress (query s) address"
  | (returned) word where "code address arguments s = (Inr word, s')" "IsExecutableAddress (query s) address"
      "r = \<lparr>call_status = kCallOk, call_result = word, call_fault = 0\<rparr>" "length arguments \<le> kMaxArguments"
  | (faulted) fault where "code address arguments s = (Inl fault, s')" "IsExecutableAddress (query s) address"
      "r = \<lparr>call_status = kException, call_result = 0, call_fault = fault\<rparr>" "length arguments \<le> kMaxArguments"
  using assms
  by (cases "code address arguments s"; cases "fst (code address arguments s)")
    (auto simp: Invoke_def InvokeGuarded_def Dispatch_def kMaxArguments_def split: if_splits)

end
