(* ===== verification/Board_Mutation.thy ===== *)
theory Board_Mutation
  imports Native_Call Build_Policy Discovery_Backend
begin

text \<open>
  Adding a recruit to the board of a team and removing one (board_mutation.cpp): the controller, the wrappers and the
  three tables of the game are found by scanning private memory, the board is read, the native function of the game is
  called, and its effect is read back and compared with what it has to be. Memory, the region map, the module handle and
  the native code are the record \<open>Game\<close> of functions over a state of the process. Reads do not change that
  state: the game is taken not to write between the reads of one call.
\<close>

section \<open>Constants and data\<close>

definition kUserTargetTableRole :: u32 where "kUserTargetTableRole = 4168"
definition kActivePitchTableRole :: u32 where "kActivePitchTableRole = 5790"
definition kMembershipTableRole :: u32 where "kMembershipTableRole = 5847"
definition kMembershipCapacity :: nat where "kMembershipCapacity = 138"
definition kBoardSlots :: nat where "kBoardSlots = 35"
definition kReferenceRowMask :: u32 where "kReferenceRowMask = 0x1FFFF"
definition kChunkSize :: nat where "kChunkSize = 256 * 1024"

datatype Operation = kAdd | kRemove

datatype Status = kApplied | kUnchanged | kInvalidArgument | kRecruitingNotLoaded | kRuntimeAmbiguous |
  kTableDiscoveryFailed | kBoardStateInvalid | kBoardFull | kNativeCallFailed | kPostconditionFailed

record Result =
  status :: Status
  operation :: Operation
  result_recruit_row :: u32
  result_team_row :: u32
  result_membership_row :: u32
  result_board_slot :: u32
  result_target_row :: u32
  result_active_pitch_row :: u32
  call_value :: u64
  fault_code :: u32

record Region =
  region_begin :: addr
  region_size :: u64

record TableSpec =
  spec_id :: u32
  table1_length :: u32
  spec_words :: nat
  spec_capacity :: nat
  spec_stride :: nat
  data_offset :: u64

record TableView =
  view_spec :: "TableSpec option"
  view_header :: addr
  view_data :: addr
  view_head :: u32
  view_score :: nat

record RuntimeCache =
  cache_module :: addr
  cache_recruit_row :: u32
  cache_team_row :: u32
  cache_controller :: addr
  cache_recruit_wrapper :: addr
  cache_team_wrapper :: addr
  cache_targets :: TableView
  cache_pitches :: TableView
  cache_membership :: TableView

record BoardItem =
  item_slot :: nat
  item_target_row :: u32
  item_recruit_row :: u32
  item_active_pitch_row :: u32

record BoardSnapshot =
  board_valid :: bool
  board_compact :: bool
  board_membership_row :: u32
  board_items :: "BoardItem list"

definition kUserTarget :: TableSpec where
  "kUserTarget = \<lparr>spec_id = 4168, table1_length = 40444, spec_words = 9, spec_capacity = 1120, spec_stride = 36,
     data_offset = 120\<rparr>"

definition kActivePitch :: TableSpec where
  "kActivePitch = \<lparr>spec_id = 5790, table1_length = 77312, spec_words = 3, spec_capacity = 4830, spec_stride = 12,
     data_offset = 19348\<rparr>"

definition kMembership :: TableSpec where
  "kMembership = \<lparr>spec_id = 5847, table1_length = 19904, spec_words = 35, spec_capacity = 138, spec_stride = 140,
     data_offset = 580\<rparr>"

definition no_view :: TableView where
  "no_view = \<lparr>view_spec = None, view_header = 0, view_data = 0, view_head = 0, view_score = 0\<rparr>"

text \<open>
  The process the functions run in: region map, guarded copy of a few bytes (nothing on a fault),
  \<open>ReadProcessMemory\<close> (success and the bytes copied), the handle of the main module, the application addresses,
  a local word that native code is passed a pointer to, and the native code.
\<close>

record 's Game =
  RegionQuery :: "'s \<Rightarrow> query"
  GuardedCopy :: "'s \<Rightarrow> addr \<Rightarrow> nat \<Rightarrow> byte list option"
  ReadOwnMemory :: "'s \<Rightarrow> addr \<Rightarrow> nat \<Rightarrow> bool \<times> byte list"
  ModuleHandle :: "'s \<Rightarrow> addr"
  ApplicationAddresses :: "addr \<times> addr"
  LocalWord :: "u64 \<Rightarrow> 's \<Rightarrow> addr \<times> 's"
  NativeCode :: "'s native_code"

definition ReadBytes :: "'s Game \<Rightarrow> 's \<Rightarrow> addr \<Rightarrow> nat \<Rightarrow> byte list option" where
  "ReadBytes game s address n =
     (if \<not> ReadableRange (RegionQuery game s) address (word_of_nat n) then None else GuardedCopy game s address n)"

definition ReadU32 :: "'s Game \<Rightarrow> 's \<Rightarrow> addr \<Rightarrow> u32 option" where
  "ReadU32 game s address = map_option (little_endian 0) (ReadBytes game s address 4)"

definition ReadU64 :: "'s Game \<Rightarrow> 's \<Rightarrow> addr \<Rightarrow> u64 option" where
  "ReadU64 game s address = map_option (little_endian 0) (ReadBytes game s address 8)"

section \<open>Regions and patterns\<close>

function private_regions :: "query \<Rightarrow> addr \<Rightarrow> addr \<Rightarrow> Region list" where
  "private_regions query maximum cursor =
     (if cursor < maximum then
        (case query cursor of
           None \<Rightarrow> []
         | Some info \<Rightarrow>
             let base = BaseAddress info;
                 found = (if State info = MEM_COMMIT \<and> MemType info = MEM_PRIVATE \<and>
                             WritableProtection (Protect info) \<and> RegionSize info \<ge> 32
                          then [\<lparr>region_begin = base, region_size = RegionSize info\<rparr>] else []);
                 after = base + RegionSize info
             in if after \<le> cursor then found else found @ private_regions query maximum after)
      else [])"
  by pat_completeness auto
termination
  by (relation "measure (\<lambda>(query, maximum, cursor). 2 ^ 64 - unat cursor)")
    (auto simp: word_le_nat_alt word_less_nat_alt unat_lt_2p64 [simplified] intro!: diff_less_mono2)

declare private_regions.simps [simp del]

definition PrivateReadableRegions :: "'s Game \<Rightarrow> 's \<Rightarrow> Region list" where
  "PrivateReadableRegions game s =
     private_regions (RegionQuery game s) (snd (ApplicationAddresses game)) (fst (ApplicationAddresses game))"

text \<open>\<open>std::search\<close> from a position of the buffer: the next position at or after it where the needle stands.\<close>

definition search_from :: "byte list \<Rightarrow> byte list \<Rightarrow> nat \<Rightarrow> nat option" where
  "search_from buffer needle start =
     find (\<lambda>i. take (length needle) (drop i buffer) = needle) [start..<Suc (length buffer) - length needle]"

text \<open>The matches of one needle in one buffer of the scan, in order; an address equal to the last one
  reported is passed over. \<open>origin\<close> is the address of the first byte of the buffer.\<close>

function search_buffer :: "byte list \<Rightarrow> byte list \<Rightarrow> addr \<Rightarrow> nat \<Rightarrow> addr \<Rightarrow> addr list \<times> addr" where
  "search_buffer buffer needle origin start last_reported =
     (if start + length needle \<le> length buffer then
        (case search_from buffer needle start of
           None \<Rightarrow> ([], last_reported)
         | Some found \<Rightarrow>
             let address = origin + word_of_nat found;
                 (rest, last) = search_buffer buffer needle origin (Suc found) address
             in if address \<noteq> last_reported then (address # rest, last) else (rest, last))
      else ([], last_reported))"
  by pat_completeness auto
termination
proof (relation "measure (\<lambda>(buffer, needle, origin, start, last). Suc (length buffer) - start)", goal_cases)
  case (2 buffer needle origin start last found)
  then have "start \<le> found" by (auto simp: search_from_def dest!: Prelude.find_Some_iff)
  with 2 show ?case by auto
qed simp

declare search_buffer.simps [simp del]

text \<open>The scan of one region for several needles: chunks, each behind the last bytes of the one before, so
  that a match across their border is seen; a chunk that cannot be read is left out and starts afresh.\<close>

fun search_needles ::
  "byte list \<Rightarrow> byte list list \<Rightarrow> addr \<Rightarrow> nat \<Rightarrow> addr list \<Rightarrow> (nat \<times> addr) list \<times> addr list" where
  "search_needles buffer [] origin pattern reported = ([], [])"
| "search_needles buffer (needle # needles) origin pattern reported =
     (let (found, last) = search_buffer buffer needle origin 0 (hd reported);
          (rest, lasts) = search_needles buffer needles origin (Suc pattern) (tl reported)
      in (map (Pair pattern) found @ rest, last # lasts))"

definition maximum_needle :: "byte list list \<Rightarrow> nat" where
  "maximum_needle needles = fold (\<lambda>needle n. max n (length needle)) needles 0"

function pattern_scan ::
  "'s Game \<Rightarrow> 's \<Rightarrow> byte list list \<Rightarrow> addr \<Rightarrow> addr \<Rightarrow> byte list \<Rightarrow> addr list \<Rightarrow> (nat \<times> addr) list" where
  "pattern_scan game s needles limit cursor carried reported =
     (if cursor < limit then
        let requested = min kChunkSize (unat (limit - cursor));
            (ok, bytes) = ReadOwnMemory game s cursor requested
        in if \<not> ok \<or> length bytes \<noteq> requested
           then pattern_scan game s needles limit (cursor + word_of_nat requested) [] reported
           else let buffer = carried @ bytes;
                    (found, reported) = search_needles buffer needles (cursor - word_of_nat (length carried)) 0 reported;
                    carry = min (maximum_needle needles - 1) (length buffer)
                in found @ pattern_scan game s needles limit (cursor + word_of_nat requested)
                     (drop (length buffer - carry) buffer) reported
      else [])"
  by pat_completeness auto
termination
proof -
  have advances: "unat limit - unat (cursor + word_of_nat (min kChunkSize (unat (limit - cursor)))) < unat limit - unat cursor"
    if "cursor < limit" for cursor limit :: addr
  proof -
    let ?k = "min kChunkSize (unat (limit - cursor))"
    have "unat (limit - cursor) = unat limit - unat cursor" "unat cursor < unat limit"
      using that by (simp_all add: unat_sub word_less_nat_alt less_imp_le)
    moreover from this have "unat (cursor + word_of_nat ?k) = unat cursor + ?k"
      using unat_lt_2p64 [of limit] by (intro unat_add_of_nat) simp
    moreover have "0 < kChunkSize" by (simp add: kChunkSize_def)
    ultimately show ?thesis by simp
  qed
  show ?thesis
    by (relation "measure (\<lambda>(game, s, needles, limit, cursor, carried, reported). unat limit - unat cursor)")
      (auto intro: advances)
qed

declare pattern_scan.simps [simp del]

definition FindPatterns :: "'s Game \<Rightarrow> 's \<Rightarrow> Region \<Rightarrow> byte list list \<Rightarrow> (nat \<times> addr) list" where
  "FindPatterns game s region needles =
     (if maximum_needle needles = 0 then []
      else pattern_scan game s needles (region_begin region + region_size region) (region_begin region) []
             (replicate (length needles) 0))"

text \<open>The scan for a single needle is the same loop with one \<open>last_reported\<close>.\<close>

definition FindBytes :: "'s Game \<Rightarrow> 's \<Rightarrow> Region \<Rightarrow> byte list \<Rightarrow> addr list" where
  "FindBytes game s region needle =
     map snd (pattern_scan game s [needle] (region_begin region + region_size region) (region_begin region) [] [0])"

text \<open>The bytes of a word as \<open>memcpy\<close> copies them.\<close>

definition word_bytes :: "nat \<Rightarrow> 'a::len word \<Rightarrow> byte list" where
  "word_bytes n w = map (\<lambda>i. ucast (drop_bit (8 * i) w)) [0..<n]"

definition QwordBytes :: "u64 \<Rightarrow> byte list" where
  "QwordBytes value = word_bytes 8 value"

definition TableSignature :: "TableSpec \<Rightarrow> byte list" where
  "TableSignature spec = concat (map (word_bytes 4)
     [table1_length spec, table1_length spec, word_of_nat (spec_words spec), word_of_nat (spec_capacity spec)])"

definition ReferenceTable :: "u32 \<Rightarrow> u32" where "ReferenceTable v = drop_bit 17 v"
definition ReferenceRow :: "u32 \<Rightarrow> u32" where "ReferenceRow v = v AND kReferenceRowMask"

section \<open>Tables\<close>

text \<open>The address of a row, and of a word in it.\<close>

definition row_address :: "addr \<Rightarrow> TableSpec \<Rightarrow> nat \<Rightarrow> addr" where
  "row_address data spec row = data + word_of_nat row * word_of_nat (spec_stride spec)"

definition word_at :: "addr \<Rightarrow> nat \<Rightarrow> addr" where
  "word_at address slot = address + word_of_nat (slot * 4)"

definition table_readable :: "'s Game \<Rightarrow> 's \<Rightarrow> addr \<Rightarrow> TableSpec \<Rightarrow> bool" where
  "table_readable game s data spec \<longleftrightarrow>
     ReadableRange (RegionQuery game s) data (word_of_nat (spec_capacity spec * spec_stride spec))"

text \<open>The slots of one row of the membership table: whether it looks like a board and how many references it
  holds; nothing when a word cannot be read.\<close>

fun score_membership ::
  "'s Game \<Rightarrow> 's \<Rightarrow> addr \<Rightarrow> nat list \<Rightarrow> bool \<Rightarrow> nat \<Rightarrow> (bool \<times> nat) option" where
  "score_membership game s record [] saw_zero content = Some (True, content)"
| "score_membership game s record (slot # slots) saw_zero content =
     (case ReadU32 game s (word_at record slot) of
        None \<Rightarrow> None
      | Some reference \<Rightarrow>
          if reference = 0 then score_membership game s record slots True content
          else if saw_zero \<or> ReferenceTable reference = 0 then Some (False, content)
          else score_membership game s record slots saw_zero (content + 1))"

fun rest_zero :: "'s Game \<Rightarrow> 's \<Rightarrow> addr \<Rightarrow> nat list \<Rightarrow> bool \<Rightarrow> bool option" where
  "rest_zero game s record [] zero = Some zero"
| "rest_zero game s record (offset # offsets) zero =
     (case ReadU32 game s (record + word_of_nat offset) of
        None \<Rightarrow> None
      | Some word \<Rightarrow> rest_zero game s record offsets (zero \<and> word = 0))"

text \<open>The free and the content rows of one row, or nothing.\<close>

definition score_row ::
  "'s Game \<Rightarrow> 's \<Rightarrow> TableSpec \<Rightarrow> addr \<Rightarrow> BoardLayout \<Rightarrow> nat \<Rightarrow> (nat \<times> nat) option" where
  "score_row game s spec data layout row =
     (let record = row_address data spec row
      in case ReadU32 game s record of
           None \<Rightarrow> None
         | Some first \<Rightarrow>
             if spec_id spec = kMembershipTableRole then
               (case score_membership game s record [0..<spec_words spec] False 0 of
                  None \<Rightarrow> None
                | Some (structural, content) \<Rightarrow> Some (of_bool structural, content))
             else (case rest_zero game s record (map (\<lambda>i. 4 * i) [1..<(spec_stride spec + 3) div 4]) True of
                     None \<Rightarrow> None
                   | Some zero \<Rightarrow>
                       let free = of_bool (first = word_of_nat (row + 1) \<and> zero)
                       in if spec_id spec = kUserTargetTableRole then
                            (case ReadU32 game s (record + 12) of
                               None \<Rightarrow> None
                             | Some recruit \<Rightarrow> Some (free, of_bool (ReferenceTable recruit = recruit_table_id layout)))
                          else if spec_id spec = kActivePitchTableRole
                          then Some (free, of_bool (ReferenceTable first = 4190))
                          else Some (free, 0)))"

fun score_rows ::
  "'s Game \<Rightarrow> 's \<Rightarrow> TableSpec \<Rightarrow> addr \<Rightarrow> BoardLayout \<Rightarrow> nat list \<Rightarrow> nat \<Rightarrow> nat \<Rightarrow> nat" where
  "score_rows game s spec data layout [] free content = free + content * 8"
| "score_rows game s spec data layout (row # rows) free content =
     (case score_row game s spec data layout row of
        None \<Rightarrow> 0
      | Some (f, c) \<Rightarrow> score_rows game s spec data layout rows (free + f) (content + c))"

definition ScoreTable :: "'s Game \<Rightarrow> 's \<Rightarrow> TableSpec \<Rightarrow> addr \<Rightarrow> BoardLayout \<Rightarrow> nat" where
  "ScoreTable game s spec data layout =
     (if \<not> table_readable game s data spec then 0
      else score_rows game s spec data layout [0..<min (spec_capacity spec) 512] 0 0)"

definition AddTableCandidate ::
  "'s Game \<Rightarrow> 's \<Rightarrow> TableSpec \<Rightarrow> BoardLayout \<Rightarrow> addr \<Rightarrow> TableView list \<Rightarrow> TableView list" where
  "AddTableCandidate game s spec layout header candidates =
     (let data = header + data_offset spec; score = ScoreTable game s spec data layout
      in case ReadU32 game s (header + 24) of
           Some head \<Rightarrow>
             if score \<noteq> 0 then candidates @ [\<lparr>view_spec = Some spec, view_header = header, view_data = data,
               view_head = head, view_score = score\<rparr>] else candidates
         | None \<Rightarrow> candidates)"

text \<open>Sorting by falling score; only the first two matter, so the order of equals does not.\<close>

definition SelectTable :: "TableView list \<Rightarrow> TableView option" where
  "SelectTable candidates =
     (case rev (sort_key view_score candidates) of
        [] \<Rightarrow> None
      | [best] \<Rightarrow> Some best
      | best # second # rest \<Rightarrow> if view_score best = view_score second then None else Some best)"

definition LocateTable ::
  "'s Game \<Rightarrow> 's \<Rightarrow> Region list \<Rightarrow> TableSpec \<Rightarrow> BoardLayout \<Rightarrow> TableView option" where
  "LocateTable game s regions spec layout =
     SelectTable (fold (\<lambda>region candidates.
       fold (AddTableCandidate game s spec layout) (FindBytes game s region (TableSignature spec)) candidates) regions [])"

section \<open>Controllers and wrappers\<close>

definition DescriptorTableId :: "'s Game \<Rightarrow> 's \<Rightarrow> addr \<Rightarrow> u32" where
  "DescriptorTableId game s descriptor =
     (case ReadU64 game s (descriptor + 40) of None \<Rightarrow> 0 | Some encoded \<Rightarrow> ucast (drop_bit 32 encoded))"

text \<open>The fields of a controller behind its vtable.\<close>

definition controller_fields :: "'s Game \<Rightarrow> 's \<Rightarrow> BoardLayout \<Rightarrow> addr \<Rightarrow> bool" where
  "controller_fields game s layout address \<longleftrightarrow>
     (case ReadU64 game s (address + 8) of
        None \<Rightarrow> False
      | Some membership_row \<Rightarrow> unat membership_row < kMembershipCapacity \<and>
          (case ReadU64 game s (address + 16) of
             None \<Rightarrow> False
           | Some descriptor \<Rightarrow>
               DescriptorTableId game s descriptor = controller_descriptor_table_id layout \<and>
               (case ReadU64 game s (address + 0x138) of
                  None \<Rightarrow> False
                | Some board_store \<Rightarrow> ReadableRange (RegionQuery game s) board_store 8)))"

definition ValidateController :: "'s Game \<Rightarrow> 's \<Rightarrow> BoardLayout \<Rightarrow> addr \<Rightarrow> addr \<Rightarrow> bool" where
  "ValidateController game s layout module_base address \<longleftrightarrow>
     (case ReadU64 game s address of
        None \<Rightarrow> False
      | Some vtable \<Rightarrow> vtable = module_base + recruiting_controller_vtable_rva layout \<and>
          controller_fields game s layout address)"

text \<open>The table and row a wrapper stands for.\<close>

definition wrapper_target :: "'s Game \<Rightarrow> 's \<Rightarrow> addr \<Rightarrow> (u32 \<times> u64) option" where
  "wrapper_target game s address =
     (case ReadU64 game s (address + 16) of
        None \<Rightarrow> None
      | Some descriptor \<Rightarrow>
          (case ReadU64 game s (address + 24) of
             None \<Rightarrow> None
           | Some row \<Rightarrow> Some (DescriptorTableId game s descriptor, row)))"

definition ValidateWrapper :: "'s Game \<Rightarrow> 's \<Rightarrow> BoardLayout \<Rightarrow> addr \<Rightarrow> addr \<Rightarrow> u32 \<Rightarrow> u32 \<Rightarrow> bool" where
  "ValidateWrapper game s layout module_base address table_id row \<longleftrightarrow>
     (case ReadU64 game s address of
        None \<Rightarrow> False
      | Some vtable \<Rightarrow> vtable = module_base + generic_record_wrapper_vtable_rva layout \<and>
          wrapper_target game s address = Some (table_id, ucast row))"

definition RefreshTable :: "'s Game \<Rightarrow> 's \<Rightarrow> TableView \<Rightarrow> TableView option" where
  "RefreshTable game s view =
     (case view_spec view of
        None \<Rightarrow> None
      | Some spec \<Rightarrow>
          if \<not> ReadableRange (RegionQuery game s) (view_header view) 32 then None
          else if ReadBytes game s (view_header view) 16 \<noteq> Some (TableSignature spec) then None
          else (case ReadU32 game s (view_header view + 24) of
                  None \<Rightarrow> None
                | Some head \<Rightarrow>
                    if table_readable game s (view_data view) spec then Some (view\<lparr>view_head := head\<rparr>) else None))"

text \<open>What a scan has found: controllers, wrappers of the recruit and of the team, candidates for the three tables.\<close>

record Runtime =
  controllers :: "addr list"
  recruit_wrappers :: "addr list"
  team_wrappers :: "addr list"
  target_candidates :: "TableView list"
  pitch_candidates :: "TableView list"
  membership_candidates :: "TableView list"

definition no_runtime :: Runtime where
  "no_runtime = \<lparr>controllers = [], recruit_wrappers = [], team_wrappers = [], target_candidates = [],
     pitch_candidates = [], membership_candidates = []\<rparr>"

definition add_wrapper :: "'s Game \<Rightarrow> 's \<Rightarrow> BoardLayout \<Rightarrow> u32 \<Rightarrow> u32 \<Rightarrow> addr \<Rightarrow> Runtime \<Rightarrow> Runtime" where
  "add_wrapper game s layout recruit_row team_row address found =
     (if address AND 7 \<noteq> 0 \<or> \<not> ReadableRange (RegionQuery game s) address 32 then found
      else case wrapper_target game s address of
             None \<Rightarrow> found
           | Some (table_id, row) \<Rightarrow>
               let found = (if row = ucast recruit_row \<and> table_id = recruit_table_id layout
                            then found\<lparr>recruit_wrappers := recruit_wrappers found @ [address]\<rparr> else found)
               in if row = ucast team_row \<and> table_id = team_table_id layout
                  then found\<lparr>team_wrappers := team_wrappers found @ [address]\<rparr> else found)"

definition runtime_match ::
  "'s Game \<Rightarrow> 's \<Rightarrow> BoardLayout \<Rightarrow> addr \<Rightarrow> u32 \<Rightarrow> u32 \<Rightarrow> nat \<times> addr \<Rightarrow> Runtime \<Rightarrow> Runtime" where
  "runtime_match game s layout module_base recruit_row team_row = (\<lambda>(pattern, address) found.
     if pattern = 0 then
       (if address AND 7 \<noteq> 0 \<or> \<not> ValidateController game s layout module_base address then found
        else found\<lparr>controllers := controllers found @ [address]\<rparr>)
     else if pattern = 1 then add_wrapper game s layout recruit_row team_row address found
     else if pattern = 2 then
       found\<lparr>target_candidates := AddTableCandidate game s kUserTarget layout address (target_candidates found)\<rparr>
     else if pattern = 3 then
       found\<lparr>pitch_candidates := AddTableCandidate game s kActivePitch layout address (pitch_candidates found)\<rparr>
     else found\<lparr>membership_candidates := AddTableCandidate game s kMembership layout address (membership_candidates found)\<rparr>)"

definition runtime_patterns :: "BoardLayout \<Rightarrow> addr \<Rightarrow> byte list list" where
  "runtime_patterns layout module_base =
     [QwordBytes (module_base + recruiting_controller_vtable_rva layout),
      QwordBytes (module_base + generic_record_wrapper_vtable_rva layout),
      TableSignature kUserTarget, TableSignature kActivePitch, TableSignature kMembership]"

text \<open>The objects found and, when each table has one best candidate, the views of the three tables.\<close>

definition DiscoverRuntime ::
  "'s Game \<Rightarrow> 's \<Rightarrow> BoardLayout \<Rightarrow> Region list \<Rightarrow> addr \<Rightarrow> u32 \<Rightarrow> u32 \<Rightarrow> Runtime \<times> (TableView \<times> TableView \<times> TableView) option" where
  "DiscoverRuntime game s layout regions module_base recruit_row team_row =
     (let found = fold (\<lambda>region found.
            fold (runtime_match game s layout module_base recruit_row team_row)
              (FindPatterns game s region (runtime_patterns layout module_base)) found) regions no_runtime
      in (found,
          case SelectTable (target_candidates found) of
            None \<Rightarrow> None
          | Some targets \<Rightarrow>
              (case SelectTable (pitch_candidates found) of
                 None \<Rightarrow> None
               | Some pitches \<Rightarrow>
                   (case SelectTable (membership_candidates found) of
                      None \<Rightarrow> None
                    | Some membership \<Rightarrow> Some (targets, pitches, membership)))))"

text \<open>The older scan for the objects alone, one pattern at a time.\<close>

definition FindRuntimeObjects ::
  "'s Game \<Rightarrow> 's \<Rightarrow> BoardLayout \<Rightarrow> Region list \<Rightarrow> addr \<Rightarrow> u32 \<Rightarrow> u32 \<Rightarrow> Runtime" where
  "FindRuntimeObjects game s layout regions module_base recruit_row team_row =
     fold (\<lambda>region found.
       let found = fold (\<lambda>address found.
                     if address AND 7 \<noteq> 0 \<or> \<not> controller_fields game s layout address then found
                     else found\<lparr>controllers := controllers found @ [address]\<rparr>)
                   (FindBytes game s region (QwordBytes (module_base + recruiting_controller_vtable_rva layout))) found
       in fold (add_wrapper game s layout recruit_row team_row)
            (FindBytes game s region (QwordBytes (module_base + generic_record_wrapper_vtable_rva layout))) found)
     regions no_runtime"

section \<open>The board\<close>

text \<open>One reference of a board: the item it stands for, or nothing when it is not sound.\<close>

definition board_item ::
  "'s Game \<Rightarrow> 's \<Rightarrow> TableView \<Rightarrow> TableView \<Rightarrow> BoardLayout \<Rightarrow> nat \<Rightarrow> u32 \<Rightarrow> BoardItem option" where
  "board_item game s targets pitches layout slot reference =
     (let target_row = ReferenceRow reference;
          target_address = row_address (view_data targets) (the (view_spec targets)) (unat target_row)
      in if ReferenceTable reference \<noteq> user_target_table_id layout \<or>
            unat target_row \<ge> spec_capacity (the (view_spec targets)) then None
         else case (ReadU32 game s (target_address + 12), ReadU32 game s (target_address + 16)) of
                (Some recruit_reference, Some pitch_reference) \<Rightarrow>
                  if ReferenceTable recruit_reference \<noteq> recruit_table_id layout then None
                  else if pitch_reference \<noteq> 0 \<and>
                     (ReferenceTable pitch_reference \<noteq> active_pitch_table_id layout \<or>
                      unat (ReferenceRow pitch_reference) \<ge> spec_capacity (the (view_spec pitches))) then None
                  else Some \<lparr>item_slot = slot, item_target_row = target_row,
                         item_recruit_row = ReferenceRow recruit_reference,
                         item_active_pitch_row = (if pitch_reference = 0 then - 1 else ReferenceRow pitch_reference)\<rparr>
              | _ \<Rightarrow> None)"

text \<open>The slots of the row of a board in order; an unsound or unreadable one ends the reading early.\<close>

fun read_slots ::
  "'s Game \<Rightarrow> 's \<Rightarrow> TableView \<Rightarrow> TableView \<Rightarrow> BoardLayout \<Rightarrow> addr \<Rightarrow> nat list \<Rightarrow> bool \<Rightarrow> BoardSnapshot \<Rightarrow> BoardSnapshot" where
  "read_slots game s targets pitches layout address [] saw_zero snapshot =
     snapshot\<lparr>board_valid := board_compact snapshot\<rparr>"
| "read_slots game s targets pitches layout address (slot # slots) saw_zero snapshot =
     (case ReadU32 game s (word_at address slot) of
        None \<Rightarrow> snapshot
      | Some reference \<Rightarrow>
          if reference = 0 then read_slots game s targets pitches layout address slots True snapshot
          else let snapshot = (if saw_zero then snapshot\<lparr>board_compact := False\<rparr> else snapshot)
               in case board_item game s targets pitches layout slot reference of
                    None \<Rightarrow> snapshot
                  | Some item \<Rightarrow> read_slots game s targets pitches layout address slots saw_zero
                      (snapshot\<lparr>board_items := board_items snapshot @ [item]\<rparr>))"

definition ReadBoard ::
  "'s Game \<Rightarrow> 's \<Rightarrow> TableView \<Rightarrow> TableView \<Rightarrow> TableView \<Rightarrow> BoardLayout \<Rightarrow> u32 \<Rightarrow> BoardSnapshot" where
  "ReadBoard game s targets pitches membership layout membership_row =
     (let result = \<lparr>board_valid = False, board_compact = False, board_membership_row = membership_row, board_items = []\<rparr>;
          spec = the (view_spec membership)
      in if unat membership_row \<ge> spec_capacity spec then result
         else read_slots game s targets pitches layout (row_address (view_data membership) spec (unat membership_row))
                [0..<kBoardSlots] False (result\<lparr>board_compact := True\<rparr>))"

definition Matching :: "BoardSnapshot \<Rightarrow> u32 \<Rightarrow> BoardItem list" where
  "Matching snapshot recruit_row = filter (\<lambda>item. item_recruit_row item = recruit_row) (board_items snapshot)"

definition BaseResult :: "Operation \<Rightarrow> u32 \<Rightarrow> u32 \<Rightarrow> Result" where
  "BaseResult oper recruit_row team_row =
     \<lparr>status = kInvalidArgument, operation = oper, result_recruit_row = recruit_row, result_team_row = team_row,
      result_membership_row = 0, result_board_slot = - 1, result_target_row = - 1, result_active_pitch_row = - 1,
      call_value = 0, fault_code = 0\<rparr>"

section \<open>The mutation\<close>

text \<open>The objects of the last call, when they are still what they were; the heads of the free lists are read anew.\<close>

definition cached_runtime ::
  "'s Game \<Rightarrow> 's \<Rightarrow> BoardLayout \<Rightarrow> addr \<Rightarrow> u32 \<Rightarrow> u32 \<Rightarrow> RuntimeCache option \<Rightarrow> RuntimeCache option" where
  "cached_runtime game s layout module_base recruit_row team_row cache =
     (case cache of
        None \<Rightarrow> None
      | Some c \<Rightarrow>
          if cache_module c = module_base \<and> cache_recruit_row c = recruit_row \<and> cache_team_row c = team_row \<and>
             ValidateController game s layout module_base (cache_controller c) \<and>
             ValidateWrapper game s layout module_base (cache_recruit_wrapper c) (recruit_table_id layout) recruit_row \<and>
             ValidateWrapper game s layout module_base (cache_team_wrapper c) (team_table_id layout) team_row
          then (case (RefreshTable game s (cache_targets c), RefreshTable game s (cache_pitches c),
                      RefreshTable game s (cache_membership c)) of
                  (Some targets, Some pitches, Some membership) \<Rightarrow>
                    Some (c\<lparr>cache_targets := targets, cache_pitches := pitches, cache_membership := membership\<rparr>)
                | _ \<Rightarrow> None)
          else None)"

definition fresh_runtime ::
  "'s Game \<Rightarrow> 's \<Rightarrow> BoardLayout \<Rightarrow> addr \<Rightarrow> u32 \<Rightarrow> u32 \<Rightarrow> Status + RuntimeCache" where
  "fresh_runtime game s layout module_base recruit_row team_row =
     (let (found, tables) = DiscoverRuntime game s layout (PrivateReadableRegions game s) module_base recruit_row team_row
      in if controllers found = [] \<or> recruit_wrappers found = [] \<or> team_wrappers found = [] then Inl kRecruitingNotLoaded
         else if length (controllers found) \<noteq> 1 \<or> length (recruit_wrappers found) \<noteq> 1 \<or> length (team_wrappers found) \<noteq> 1
         then Inl kRuntimeAmbiguous
         else case tables of
                None \<Rightarrow> Inl kTableDiscoveryFailed
              | Some (targets, pitches, membership) \<Rightarrow>
                  Inr \<lparr>cache_module = module_base, cache_recruit_row = recruit_row, cache_team_row = team_row,
                       cache_controller = hd (controllers found), cache_recruit_wrapper = hd (recruit_wrappers found),
                       cache_team_wrapper = hd (team_wrappers found), cache_targets = targets, cache_pitches = pitches,
                       cache_membership = membership\<rparr>)"

definition runtime_of ::
  "'s Game \<Rightarrow> 's \<Rightarrow> BoardLayout \<Rightarrow> addr \<Rightarrow> u32 \<Rightarrow> u32 \<Rightarrow> RuntimeCache option \<Rightarrow> Status + RuntimeCache" where
  "runtime_of game s layout module_base recruit_row team_row cache =
     (case cached_runtime game s layout module_base recruit_row team_row cache of
        Some c \<Rightarrow> Inr c
      | None \<Rightarrow> fresh_runtime game s layout module_base recruit_row team_row)"

text \<open>What is known before the native call: the board, the heads of the free lists and what follows them, and the
  item to be removed.\<close>

record Plan =
  plan_result :: Result
  plan_before :: BoardSnapshot
  plan_next_target :: u32
  plan_next_pitch :: u32
  plan_removed :: BoardItem

definition no_item :: BoardItem where
  "no_item = \<lparr>item_slot = 0, item_target_row = 0, item_recruit_row = 0, item_active_pitch_row = - 1\<rparr>"

definition next_head :: "'s Game \<Rightarrow> 's \<Rightarrow> TableView \<Rightarrow> u32 option" where
  "next_head game s view =
     (if unat (view_head view) \<ge> spec_capacity (the (view_spec view)) then None
      else ReadU32 game s (row_address (view_data view) (the (view_spec view)) (unat (view_head view))))"

definition with_item :: "BoardItem \<Rightarrow> Result \<Rightarrow> Result" where
  "with_item item result = result\<lparr>result_board_slot := word_of_nat (item_slot item),
     result_target_row := item_target_row item, result_active_pitch_row := item_active_pitch_row item\<rparr>"

definition prepare :: "'s Game \<Rightarrow> 's \<Rightarrow> BoardLayout \<Rightarrow> RuntimeCache \<Rightarrow> Result \<Rightarrow> Result + Plan" where
  "prepare game s layout c result =
     (let ended = (\<lambda>st result. Inl (result\<lparr>status := st\<rparr>)); oper = operation result
      in case ReadU64 game s (cache_controller c + 8) of
           None \<Rightarrow> ended kBoardStateInvalid result
         | Some membership_row64 \<Rightarrow>
             if unat membership_row64 \<ge> kMembershipCapacity then ended kBoardStateInvalid result
             else let result = result\<lparr>result_membership_row := ucast membership_row64\<rparr>;
                      before = ReadBoard game s (cache_targets c) (cache_pitches c) (cache_membership c) layout
                                 (ucast membership_row64);
                      matches = Matching before (result_recruit_row result)
               in if \<not> board_valid before then ended kBoardStateInvalid result
                  else if 1 < length matches then ended kBoardStateInvalid result
                  else if oper = kAdd \<and> matches \<noteq> [] then ended kUnchanged (with_item (hd matches) result)
                  else if oper = kRemove \<and> matches = [] then ended kUnchanged result
                  else if oper = kAdd \<and> kBoardSlots \<le> length (board_items before) then ended kBoardFull result
                  else (case (oper, next_head game s (cache_targets c), next_head game s (cache_pitches c)) of
                          (kAdd, Some next_target, Some next_pitch) \<Rightarrow>
                            Inr \<lparr>plan_result = result, plan_before = before, plan_next_target = next_target,
                                 plan_next_pitch = next_pitch, plan_removed = no_item\<rparr>
                        | (kAdd, _, _) \<Rightarrow> ended kBoardStateInvalid result
                        | (kRemove, _, _) \<Rightarrow>
                            Inr \<lparr>plan_result = result, plan_before = before, plan_next_target = 0,
                                 plan_next_pitch = 0, plan_removed = hd matches\<rparr>))"

text \<open>The call of the game: the controller and pointers to the two wrappers.\<close>

definition call_game ::
  "'s Game \<Rightarrow> BoardLayout \<Rightarrow> addr \<Rightarrow> Operation \<Rightarrow> RuntimeCache \<Rightarrow> 's \<Rightarrow> CallResult \<times> 's" where
  "call_game game layout module_base oper c s =
     (let (team_cell, s) = LocalWord game (cache_team_wrapper c) s;
          (recruit_cell, s) = LocalWord game (cache_recruit_wrapper c) s;
          target = module_base + (if oper = kAdd then full_add_rva layout else full_remove_rva layout)
      in Native_Call.Invoke (RegionQuery game) (NativeCode game) target
           [cache_controller c, team_cell, recruit_cell] s)"

text \<open>The state after the call against the plan: the item that was added or removed, or nothing.\<close>

definition added_item ::
  "RuntimeCache \<Rightarrow> Plan \<Rightarrow> BoardSnapshot \<Rightarrow> u32 \<Rightarrow> u32 \<Rightarrow> BoardItem option" where
  "added_item c plan after new_target_head new_pitch_head =
     (let before = plan_before plan; matches = Matching after (result_recruit_row (plan_result plan))
      in if length (board_items after) \<noteq> length (board_items before) + 1 \<or> length matches \<noteq> 1 \<or>
            item_slot (hd matches) \<noteq> length (board_items before) \<or>
            item_target_row (hd matches) \<noteq> view_head (cache_targets c) \<or>
            item_active_pitch_row (hd matches) \<noteq> view_head (cache_pitches c) \<or>
            new_target_head \<noteq> plan_next_target plan \<or> new_pitch_head \<noteq> plan_next_pitch plan
         then None else Some (hd matches))"

definition removed_item ::
  "'s Game \<Rightarrow> 's \<Rightarrow> RuntimeCache \<Rightarrow> Plan \<Rightarrow> BoardSnapshot \<Rightarrow> u32 \<Rightarrow> u32 \<Rightarrow> BoardItem option" where
  "removed_item game s c plan after new_target_head new_pitch_head =
     (let before = plan_before plan; matches = Matching after (result_recruit_row (plan_result plan));
          removed = plan_removed plan; targets = cache_targets c;
          freed_target = row_address (view_data targets) (the (view_spec targets)) (unat (item_target_row removed))
      in if length (board_items after) + 1 \<noteq> length (board_items before) \<or> matches \<noteq> [] \<or>
            new_target_head \<noteq> item_target_row removed \<or> item_active_pitch_row removed = - 1 \<or>
            new_pitch_head \<noteq> item_active_pitch_row removed \<or>
            ReadU32 game s (freed_target + 12) \<noteq> Some 0 \<or> ReadU32 game s (freed_target + 16) \<noteq> Some 0
         then None else Some removed)"

definition check_after ::
  "'s Game \<Rightarrow> 's \<Rightarrow> BoardLayout \<Rightarrow> RuntimeCache \<Rightarrow> Plan \<Rightarrow> BoardItem option" where
  "check_after game s layout c plan =
     (case (ReadU32 game s (view_header (cache_targets c) + 24), ReadU32 game s (view_header (cache_pitches c) + 24)) of
        (Some new_target_head, Some new_pitch_head) \<Rightarrow>
          let after = ReadBoard game s (cache_targets c) (cache_pitches c) (cache_membership c) layout
                        (result_membership_row (plan_result plan))
          in if \<not> board_valid after then None
             else if operation (plan_result plan) = kAdd then added_item c plan after new_target_head new_pitch_head
             else removed_item game s c plan after new_target_head new_pitch_head
      | _ \<Rightarrow> None)"

definition Invoke ::
  "'s Game \<Rightarrow> BoardLayout \<Rightarrow> Operation \<Rightarrow> u32 \<Rightarrow> u32 \<Rightarrow> RuntimeCache option \<Rightarrow> 's \<Rightarrow>
   Result \<times> RuntimeCache option \<times> 's" where
  "Invoke game layout oper recruit_row team_row cache s =
     (let result = BaseResult oper recruit_row team_row; module_base = ModuleHandle game s
      in if recruit_row > kReferenceRowMask \<or> team_row > kReferenceRowMask
         then (result\<lparr>status := kInvalidArgument\<rparr>, cache, s)
         else if module_base = 0 then (result\<lparr>status := kRecruitingNotLoaded\<rparr>, cache, s)
         else case runtime_of game s layout module_base recruit_row team_row cache of
                Inl st \<Rightarrow> (result\<lparr>status := st\<rparr>, None, s)
              | Inr c \<Rightarrow>
                  (case prepare game s layout c result of
                     Inl result \<Rightarrow> (result, Some c, s)
                   | Inr plan \<Rightarrow>
                       let (call, s) = call_game game layout module_base oper c s;
                           result = (plan_result plan)\<lparr>call_value := call_result call, fault_code := call_fault call\<rparr>
                       in if call_status call \<noteq> kCallOk then (result\<lparr>status := kNativeCallFailed\<rparr>, Some c, s)
                          else (case check_after game s layout c plan of
                                  None \<Rightarrow> (result\<lparr>status := kPostconditionFailed\<rparr>, Some c, s)
                                | Some item \<Rightarrow> ((with_item item result)\<lparr>status := kApplied\<rparr>, Some c, s))))"

fun StatusCode :: "Status \<Rightarrow> string" where
  "StatusCode kApplied = ''APPLIED''"
| "StatusCode kUnchanged = ''UNCHANGED''"
| "StatusCode kInvalidArgument = ''INVALID_ARGUMENT''"
| "StatusCode kRecruitingNotLoaded = ''RECRUITING_NOT_LOADED''"
| "StatusCode kRuntimeAmbiguous = ''RUNTIME_DISCOVERY_AMBIGUOUS''"
| "StatusCode kTableDiscoveryFailed = ''BOARD_TABLE_DISCOVERY_FAILED''"
| "StatusCode kBoardStateInvalid = ''BOARD_STATE_INVALID''"
| "StatusCode kBoardFull = ''BOARD_FULL''"
| "StatusCode kNativeCallFailed = ''BOARD_NATIVE_CALL_FAILED''"
| "StatusCode kPostconditionFailed = ''BOARD_POSTCONDITION_FAILED''"

section \<open>What a board reading says\<close>

text \<open>One slot of a board that holds the items: the first slots hold their items, the others nothing.\<close>

definition slot_holds ::
  "'s Game \<Rightarrow> 's \<Rightarrow> TableView \<Rightarrow> TableView \<Rightarrow> BoardLayout \<Rightarrow> addr \<Rightarrow> BoardItem list \<Rightarrow> nat \<Rightarrow> bool" where
  "slot_holds game s targets pitches layout address items i \<longleftrightarrow>
     (case ReadU32 game s (word_at address i) of
        None \<Rightarrow> False
      | Some reference \<Rightarrow>
          if i < length items then reference \<noteq> 0 \<and> board_item game s targets pitches layout i reference = Some (items ! i)
          else reference = 0)"

lemma read_slots_scattered:
  "\<not> board_compact snapshot \<Longrightarrow> \<not> board_valid snapshot \<Longrightarrow>
   \<not> board_valid (read_slots game s targets pitches layout address slots saw_zero snapshot)"
  by (induction slots arbitrary: saw_zero snapshot) (auto simp: Let_def split: option.splits)

lemma read_slots_zeros:
  assumes "length items \<le> k" and "k \<le> n" and "board_compact snapshot" and "\<not> board_valid snapshot"
    and "board_items snapshot = items"
  shows "board_valid (read_slots game s targets pitches layout address [k..<n] True snapshot) \<and>
      board_items (read_slots game s targets pitches layout address [k..<n] True snapshot) = its \<longleftrightarrow>
    its = items \<and> (\<forall>i. k \<le> i \<longrightarrow> i < n \<longrightarrow> slot_holds game s targets pitches layout address its i)"
  using assms
proof (induction "n - k" arbitrary: k)
  case 0
  then show ?case by auto
next
  case (Suc m)
  then have k: "k < n" "[k..<n] = k # [Suc k..<n]" "m = n - Suc k" by (auto simp: upt_conv_Cons)
  have split: "(\<forall>i. k \<le> i \<longrightarrow> i < n \<longrightarrow> P i) \<longleftrightarrow> P k \<and> (\<forall>i. Suc k \<le> i \<longrightarrow> i < n \<longrightarrow> P i)" for P
    using k(1) by (metis Suc_leD Suc_leI le_antisym not_less_eq_eq)
  note IH = Suc(1) [OF k(3)]
  show ?case
  proof (cases "ReadU32 game s (word_at address k)")
    case None
    then show ?thesis using Suc.prems k by (auto simp: slot_holds_def)
  next
    case (Some reference)
    show ?thesis
    proof (cases "reference = 0")
      case True
      have here: "slot_holds game s targets pitches layout address items k" using Some True Suc.prems by (simp add: slot_holds_def)
      show ?thesis
        unfolding split using IH Suc.prems k here by (auto simp: Some True)
    next
      case False
      then have "\<not> slot_holds game s targets pitches layout address items k" using Some Suc.prems by (simp add: slot_holds_def)
      moreover have "\<not> board_valid (read_slots game s targets pitches layout address [k..<n] True snapshot)"
        using False Suc.prems
        by (auto simp: k(2) Some Let_def read_slots_scattered split: option.split)
      ultimately show ?thesis using k(1) by auto
    qed
  qed
qed

lemma read_slots_holds:
  assumes "length (board_items snapshot) = k" and "k \<le> n" and "board_compact snapshot" and "\<not> board_valid snapshot"
  shows "board_valid (read_slots game s targets pitches layout address [k..<n] False snapshot) \<and>
      board_items (read_slots game s targets pitches layout address [k..<n] False snapshot) = its \<longleftrightarrow>
    take k its = board_items snapshot \<and> length its \<le> n \<and>
      (\<forall>i. k \<le> i \<longrightarrow> i < n \<longrightarrow> slot_holds game s targets pitches layout address its i)"
  using assms
proof (induction "n - k" arbitrary: k snapshot)
  case 0
  then have "k = n" by simp
  with 0 show ?case by auto
next
  case (Suc m)
  then have k: "k < n" "[k..<n] = k # [Suc k..<n]" "m = n - Suc k" by (auto simp: upt_conv_Cons)
  have split: "(\<forall>i. k \<le> i \<longrightarrow> i < n \<longrightarrow> P i) \<longleftrightarrow> P k \<and> (\<forall>i. Suc k \<le> i \<longrightarrow> i < n \<longrightarrow> P i)" for P
    using k(1) by (metis Suc_leD Suc_leI le_antisym not_less_eq_eq)
  show ?case
  proof (cases "ReadU32 game s (word_at address k)")
    case None
    then show ?thesis using Suc.prems k by (auto simp: slot_holds_def)
  next
    case (Some reference)
    show ?thesis
    proof (cases "reference = 0")
      case True
      have step: "read_slots game s targets pitches layout address [k..<n] False snapshot =
          read_slots game s targets pitches layout address [Suc k..<n] True snapshot" by (simp add: k(2) Some True)
      have here: "slot_holds game s targets pitches layout address its k \<longleftrightarrow> length its \<le> k"
        by (auto simp: slot_holds_def Some True)
      have "take k its = board_items snapshot \<and> length its \<le> k \<longleftrightarrow> its = board_items snapshot"
        using Suc.prems(1) by auto
      moreover have "board_valid (read_slots game s targets pitches layout address [Suc k..<n] True snapshot) \<and>
          board_items (read_slots game s targets pitches layout address [Suc k..<n] True snapshot) = its \<longleftrightarrow>
        its = board_items snapshot \<and> (\<forall>i. Suc k \<le> i \<longrightarrow> i < n \<longrightarrow> slot_holds game s targets pitches layout address its i)"
        by (rule read_slots_zeros) (use Suc.prems k in auto)
      moreover have "length its \<le> k \<Longrightarrow> length its \<le> n" using k(1) by simp
      ultimately show ?thesis unfolding split step here by blast
    next
      case False
      show ?thesis
      proof (cases "board_item game s targets pitches layout k reference")
        case None
        then show ?thesis using Suc.prems k False Some by (auto simp: slot_holds_def Let_def)
      next
        case item: (Some item)
        let ?snapshot = "snapshot\<lparr>board_items := board_items snapshot @ [item]\<rparr>"
        have step: "read_slots game s targets pitches layout address [k..<n] False snapshot =
            read_slots game s targets pitches layout address [Suc k..<n] False ?snapshot"
          using False by (simp add: k(2) Some item)
        have here: "slot_holds game s targets pitches layout address its k \<longleftrightarrow> k < length its \<and> its ! k = item"
          using False by (auto simp: slot_holds_def Some item)
        have "take (Suc k) its = board_items snapshot @ [item] \<longleftrightarrow>
            take k its = board_items snapshot \<and> k < length its \<and> its ! k = item"
          using Suc.prems(1) by (cases "k < length its") (auto simp: take_Suc_conv_app_nth)
        then show ?thesis
          unfolding split step here using Suc(1) [OF k(3), of ?snapshot] Suc.prems k by auto
      qed
    qed
  qed
qed

text \<open>The row of a board holds the items.\<close>

definition board_holds ::
  "'s Game \<Rightarrow> 's \<Rightarrow> RuntimeCache \<Rightarrow> BoardLayout \<Rightarrow> u32 \<Rightarrow> BoardItem list \<Rightarrow> bool" where
  "board_holds game s c layout row items \<longleftrightarrow>
     unat row < spec_capacity (the (view_spec (cache_membership c))) \<and> length items \<le> kBoardSlots \<and>
     (\<forall>i < kBoardSlots. slot_holds game s (cache_targets c) (cache_pitches c) layout
        (row_address (view_data (cache_membership c)) (the (view_spec (cache_membership c))) (unat row)) items i)"

lemma ReadBoard_holds:
  "board_valid (ReadBoard game s (cache_targets c) (cache_pitches c) (cache_membership c) layout row) \<and>
   board_items (ReadBoard game s (cache_targets c) (cache_pitches c) (cache_membership c) layout row) = items \<longleftrightarrow>
   board_holds game s c layout row items"
  using read_slots_holds [of "\<lparr>board_valid = False, board_compact = True, board_membership_row = row, board_items = []\<rparr>"
      0 kBoardSlots game s "cache_targets c" "cache_pitches c" layout
      "row_address (view_data (cache_membership c)) (the (view_spec (cache_membership c))) (unat row)" items]
  by (auto simp: ReadBoard_def board_holds_def Let_def)

lemma Matching_in: "item \<in> set (Matching snapshot row) \<longleftrightarrow> item \<in> set (board_items snapshot) \<and> item_recruit_row item = row"
  by (auto simp: Matching_def)

lemma board_item_ok:
  assumes "board_item game s targets pitches layout slot reference = Some item"
  shows "item_slot item = slot \<and> unat (item_target_row item) < spec_capacity (the (view_spec targets)) \<and>
    item_recruit_row item \<le> kReferenceRowMask \<and>
    (item_active_pitch_row item = - 1 \<or> unat (item_active_pitch_row item) < spec_capacity (the (view_spec pitches)))"
  using assms by (auto simp: board_item_def Let_def ReferenceRow_def word_and_le1 split: option.splits if_splits)

lemma board_holds_slot: "board_holds game s c layout row items \<Longrightarrow> i < length items \<Longrightarrow> item_slot (items ! i) = i"
  by (auto simp: board_holds_def slot_holds_def dest!: spec [of _ i] board_item_ok split: option.splits)

lemma read_slots_items:
  assumes "list_all P (board_items snapshot)" and "sorted_wrt (<) (map item_slot (board_items snapshot) @ slots)"
    and "\<forall>slot \<in> set slots. \<forall>reference item. board_item game s targets pitches layout slot reference = Some item \<longrightarrow> P item"
  shows "list_all P (board_items (read_slots game s targets pitches layout address slots saw_zero snapshot)) \<and>
    sorted_wrt (<) (map item_slot (board_items (read_slots game s targets pitches layout address slots saw_zero snapshot)))"
  using assms
proof (induction slots arbitrary: saw_zero snapshot)
  case (Cons slot slots)
  have rest: "sorted_wrt (<) (map item_slot (board_items snapshot) @ slots)" "sorted_wrt (<) (map item_slot (board_items snapshot))"
    using Cons.prems(2) by (auto simp: sorted_wrt_append)
  note sound = Cons.prems(3)
  show ?case
  proof (cases "ReadU32 game s (word_at address slot)")
    case None
    then show ?thesis using Cons.prems(1) rest(2) by simp
  next
    case (Some reference)
    show ?thesis
    proof (cases "reference = 0")
      case True
      then show ?thesis using Cons.IH [OF Cons.prems(1) rest(1)] sound Some by simp
    next
      case False
      let ?snapshot = "if saw_zero then snapshot\<lparr>board_compact := False\<rparr> else snapshot"
      show ?thesis
      proof (cases "board_item game s targets pitches layout slot reference")
        case None
        then show ?thesis using Cons.prems(1) rest(2) Some False by (simp add: Let_def)
      next
        case item: (Some item)
        have "list_all P (board_items (?snapshot\<lparr>board_items := board_items ?snapshot @ [item]\<rparr>))"
          using Cons.prems(1) sound item by simp
        moreover have "sorted_wrt (<) (map item_slot (board_items (?snapshot\<lparr>board_items := board_items ?snapshot @ [item]\<rparr>)) @ slots)"
          using Cons.prems(2) board_item_ok [OF item] by simp
        ultimately show ?thesis using Cons.IH sound Some False item by (simp add: Let_def)
      qed
    qed
  qed
qed simp

section \<open>What an applied mutation has done\<close>

text \<open>
  The contract of the two operations on the board, the recruit and the free lists of the two tables:
  \<open>before\<close> and \<open>after\<close> are the items of the board in the states around the native call.
\<close>

definition free_head :: "'s Game \<Rightarrow> 's \<Rightarrow> TableView \<Rightarrow> u32 option" where
  "free_head game s view = ReadU32 game s (view_header view + 24)"

definition has_recruit :: "u32 \<Rightarrow> BoardItem \<Rightarrow> bool" where
  "has_recruit recruit_row item \<longleftrightarrow> item_recruit_row item = recruit_row"

definition recruit_added ::
  "'s Game \<Rightarrow> 's \<Rightarrow> 's \<Rightarrow> RuntimeCache \<Rightarrow> u32 \<Rightarrow> BoardItem list \<Rightarrow> BoardItem list \<Rightarrow> BoardItem \<Rightarrow> bool" where
  "recruit_added game s s' c recruit_row before after item \<longleftrightarrow>
     \<not> list_ex (has_recruit recruit_row) before \<and> length after = length before + 1 \<and>
     last after = item \<and> filter (has_recruit recruit_row) after = [item] \<and>
     item_target_row item = view_head (cache_targets c) \<and> item_active_pitch_row item = view_head (cache_pitches c) \<and>
     next_head game s (cache_targets c) \<noteq> None \<and> free_head game s' (cache_targets c) = next_head game s (cache_targets c) \<and>
     next_head game s (cache_pitches c) \<noteq> None \<and> free_head game s' (cache_pitches c) = next_head game s (cache_pitches c)"

definition recruit_removed ::
  "'s Game \<Rightarrow> 's \<Rightarrow> 's \<Rightarrow> RuntimeCache \<Rightarrow> u32 \<Rightarrow> BoardItem list \<Rightarrow> BoardItem list \<Rightarrow> BoardItem \<Rightarrow> bool" where
  "recruit_removed game s s' c recruit_row before after item \<longleftrightarrow>
     filter (has_recruit recruit_row) before = [item] \<and> length before = length after + 1 \<and>
     \<not> list_ex (has_recruit recruit_row) after \<and> item_active_pitch_row item \<noteq> - 1 \<and>
     free_head game s' (cache_targets c) = Some (item_target_row item) \<and>
     free_head game s' (cache_pitches c) = Some (item_active_pitch_row item) \<and>
     (let freed = row_address (view_data (cache_targets c)) (the (view_spec (cache_targets c))) (unat (item_target_row item))
      in ReadU32 game s' (freed + 12) = Some 0 \<and> ReadU32 game s' (freed + 16) = Some 0)"

lemma Matching_filter: "Matching snapshot recruit_row = filter (has_recruit recruit_row) (board_items snapshot)"
  by (simp add: Matching_def has_recruit_def [abs_def])

lemma prepare_Inr:
  assumes "prepare game s layout c result = Inr plan"
  shows "\<exists>row. plan_result plan = result\<lparr>result_membership_row := row\<rparr> \<and>
    plan_before plan = ReadBoard game s (cache_targets c) (cache_pitches c) (cache_membership c) layout row \<and>
    board_valid (plan_before plan) \<and>
    (operation result = kAdd \<longrightarrow> Matching (plan_before plan) (result_recruit_row result) = [] \<and>
       next_head game s (cache_targets c) = Some (plan_next_target plan) \<and>
       next_head game s (cache_pitches c) = Some (plan_next_pitch plan)) \<and>
    (operation result = kRemove \<longrightarrow> Matching (plan_before plan) (result_recruit_row result) = [plan_removed plan])"
proof -
  have one: "xs = [hd xs]" if "xs \<noteq> []" "\<not> Suc 0 < length xs" for xs :: "BoardItem list"
    using that by (cases xs) auto
  show ?thesis
    using assms
    by (intro exI [of _ "ucast (the (ReadU64 game s (cache_controller c + 8)))"])
      (auto simp: prepare_def Let_def split: option.splits if_splits Operation.splits intro: one)
qed

lemma prepare_Inl:
  assumes "prepare game s layout c result = Inl r"
  shows "status r \<in> {kBoardStateInvalid, kUnchanged, kBoardFull} \<and> operation r = operation result \<and>
    result_recruit_row r = result_recruit_row result \<and> result_team_row r = result_team_row result \<and>
    call_value r = call_value result \<and> fault_code r = fault_code result"
  using assms by (auto simp: prepare_def Let_def with_item_def split: option.splits if_splits Operation.splits)

lemma fresh_runtime_Inl:
  "fresh_runtime game s layout m recruit_row team_row = Inl st \<Longrightarrow>
   st \<in> {kRecruitingNotLoaded, kRuntimeAmbiguous, kTableDiscoveryFailed}"
  by (auto simp: fresh_runtime_def Let_def split: prod.splits if_splits option.splits)

lemma added_item_facts:
  assumes "added_item c plan after th ph = Some item" and "result_recruit_row (plan_result plan) = row"
  shows "length (board_items after) = length (board_items (plan_before plan)) + 1 \<and>
    filter (has_recruit row) (board_items after) = [item] \<and> item_slot item = length (board_items (plan_before plan)) \<and>
    item_target_row item = view_head (cache_targets c) \<and> item_active_pitch_row item = view_head (cache_pitches c) \<and>
    th = plan_next_target plan \<and> ph = plan_next_pitch plan"
proof -
  have one: "xs = [hd xs]" if "length xs = Suc 0" for xs :: "BoardItem list" using that by (cases xs) auto
  show ?thesis
    using assms one [of "filter (has_recruit row) (board_items after)"]
    by (simp add: added_item_def Let_def Matching_filter split: if_splits)
qed

lemma check_after_Some:
  assumes "check_after game s' layout c plan = Some item"
  obtains th ph after where "free_head game s' (cache_targets c) = Some th" "free_head game s' (cache_pitches c) = Some ph"
    "board_holds game s' c layout (result_membership_row (plan_result plan)) (board_items after)"
    "(if operation (plan_result plan) = kAdd then added_item c plan after th ph
      else removed_item game s' c plan after th ph) = Some item"
  using assms ReadBoard_holds
  by (fastforce simp: check_after_def free_head_def Let_def split: option.splits if_split_asm)

lemma check_added:
  assumes "check_after game s' layout c plan = Some item" and "operation (plan_result plan) = kAdd"
    and "board_items (plan_before plan) = before" and "filter (has_recruit row) before = []"
    and "result_recruit_row (plan_result plan) = row"
    and "next_head game s (cache_targets c) = Some (plan_next_target plan)"
    and "next_head game s (cache_pitches c) = Some (plan_next_pitch plan)"
  shows "\<exists>after. board_holds game s' c layout (result_membership_row (plan_result plan)) after \<and>
    recruit_added game s s' c row before after item"
proof -
  obtain th ph after where heads: "free_head game s' (cache_targets c) = Some th" "free_head game s' (cache_pitches c) = Some ph"
    and holds: "board_holds game s' c layout (result_membership_row (plan_result plan)) (board_items after)"
    and added: "added_item c plan after th ph = Some item"
    using check_after_Some [OF assms(1)] assms(2) by (metis (full_types))
  note facts = added_item_facts [OF added assms(5), unfolded assms(3)]
  have "item \<in> set (filter (has_recruit row) (board_items after))" using facts by simp
  then obtain i where i: "i < length (board_items after)" "board_items after ! i = item" by (auto simp: in_set_conv_nth)
  then have "i = length before" using board_holds_slot [OF holds i(1)] facts by simp
  then have "last (board_items after) = item" using i facts by (subst last_conv_nth) auto
  moreover have "\<not> list_ex (has_recruit row) before" using assms(4) by (simp add: list_ex_iff filter_empty_conv)
  ultimately have "recruit_added game s s' c row before (board_items after) item"
    unfolding recruit_added_def using facts heads assms(6,7) by simp
  with holds show ?thesis by blast
qed

lemma check_removed:
  assumes "check_after game s' layout c plan = Some item" and "operation (plan_result plan) = kRemove"
    and "board_items (plan_before plan) = before" and "filter (has_recruit row) before = [plan_removed plan]"
    and "result_recruit_row (plan_result plan) = row"
  shows "\<exists>after. board_holds game s' c layout (result_membership_row (plan_result plan)) after \<and>
    recruit_removed game s s' c row before after item"
proof -
  obtain th ph after where heads: "free_head game s' (cache_targets c) = Some th" "free_head game s' (cache_pitches c) = Some ph"
    and holds: "board_holds game s' c layout (result_membership_row (plan_result plan)) (board_items after)"
    and removed: "removed_item game s' c plan after th ph = Some item"
    using check_after_Some [OF assms(1)] assms(2) by (metis (full_types) Operation.distinct(1))
  have "recruit_removed game s s' c row before (board_items after) item"
    unfolding recruit_removed_def
    using removed heads assms(3,4,5)
    by (simp add: removed_item_def Let_def Matching_filter list_ex_iff filter_empty_conv split: if_split_asm)
  with holds show ?thesis by blast
qed

text \<open>The outcomes of a call.\<close>

lemma mutation_cases:
  assumes "Invoke game layout oper recruit_row team_row cache s = (r, cache', s')"
  obtains (rejected) "s' = s" "status r \<notin> {kApplied, kNativeCallFailed, kPostconditionFailed}" "operation r = oper"
      "result_recruit_row r = recruit_row" "result_team_row r = team_row" "call_value r = 0" "fault_code r = 0"
  | (called) c plan call where
      "prepare game s layout c (BaseResult oper recruit_row team_row) = Inr plan" "cache' = Some c"
      "call_game game layout (ModuleHandle game s) oper c s = (call, s')"
      "call_status call \<noteq> kCallOk \<and> r = (plan_result plan)\<lparr>call_value := call_result call, fault_code := call_fault call,
          status := kNativeCallFailed\<rparr> \<or>
       call_status call = kCallOk \<and> check_after game s' layout c plan = None \<and>
         r = (plan_result plan)\<lparr>call_value := call_result call, fault_code := call_fault call, status := kPostconditionFailed\<rparr> \<or>
       call_status call = kCallOk \<and> (\<exists>item. check_after game s' layout c plan = Some item \<and>
         r = (with_item item ((plan_result plan)\<lparr>call_value := call_result call, fault_code := call_fault call\<rparr>))\<lparr>status := kApplied\<rparr>)"
proof -
  let ?base = "BaseResult oper recruit_row team_row" and ?m = "ModuleHandle game s"
  have base: "operation ?base = oper" "result_recruit_row ?base = recruit_row" "result_team_row ?base = team_row"
    "call_value ?base = 0" "fault_code ?base = 0" by (simp_all add: BaseResult_def)
  show thesis
  proof (cases "recruit_row > kReferenceRowMask \<or> team_row > kReferenceRowMask \<or> ?m = 0")
    case True
    with assms show thesis by (intro rejected) (auto simp: Invoke_def Let_def base split: if_splits)
  next
    case False
    show thesis
    proof (cases "runtime_of game s layout ?m recruit_row team_row cache")
      case (Inl st)
      then have "st \<in> {kRecruitingNotLoaded, kRuntimeAmbiguous, kTableDiscoveryFailed}"
        using fresh_runtime_Inl [of game s layout ?m recruit_row team_row st]
        by (simp add: runtime_of_def split: option.split_asm)
      then show thesis using assms False Inl by (intro rejected) (auto simp: Invoke_def Let_def base)
    next
      case (Inr c)
      show thesis
      proof (cases "prepare game s layout c ?base")
        case early: (Inl result)
        then show thesis
          using assms False Inr prepare_Inl [OF early] by (intro rejected) (auto simp: Invoke_def Let_def base)
      next
        case ready: (Inr plan)
        obtain call t where call: "call_game game layout ?m oper c s = (call, t)" by (metis surj_pair)
        show thesis
          using assms False Inr ready call
          by (intro called [of c plan call]) (auto simp: Invoke_def Let_def split: if_splits option.splits)
      qed
    qed
  qed
qed

section \<open>A small game\<close>

text \<open>
  A process that the properties are applied to: memory is a map of 32-bit words, one region of it is
  mapped, and the code at the address of the addition links the heads of the free lists into the board, as the check after
  the call expects. The addresses of the layout are those of the first build of the table.
\<close>

type_synonym words = "addr \<Rightarrow> u32"

definition toy_query :: query where
  "toy_query a = (if a < 0x700000000000 then Some \<lparr>BaseAddress = 0, AllocationBase = 0, AllocationProtect = PAGE_READWRITE,
     RegionSize = 0x700000000000, State = MEM_COMMIT, Protect = PAGE_EXECUTE_READWRITE, MemType = MEM_PRIVATE\<rparr> else None)"

definition toy_layout :: BoardLayout where
  "toy_layout = the (board (hd kGeneratedBuilds))"

definition toy_module :: addr where "toy_module = 0x140000000"

text \<open>Controller, wrappers and descriptors; the three tables with their heads; the first free rows point to the second.\<close>

definition toy_memory :: words where
  "toy_memory = (\<lambda>_. 0)
     (0x10000 := 0x4B0B5BA8, 0x10004 := 1, 0x10010 := 0x20000, 0x10138 := 0x10000, 0x2002C := 0x138B,
      0x11000 := 0x4B093F68, 0x11004 := 1, 0x11010 := 0x21000, 0x11018 := 7, 0x2102C := 0x10AD,
      0x12000 := 0x4B093F68, 0x12004 := 1, 0x12010 := 0x22000, 0x12018 := 3, 0x2202C := 0x18BE,
      0x30000 := 40444, 0x30004 := 40444, 0x30008 := 9, 0x3000C := 1120, 0x30078 := 1,
      0x40000 := 77312, 0x40004 := 77312, 0x40008 := 3, 0x4000C := 4830, 0x44B94 := 1,
      0x60000 := 19904, 0x60004 := 19904, 0x60008 := 35, 0x6000C := 138)"

definition toy_view :: "TableSpec \<Rightarrow> addr \<Rightarrow> TableView" where
  "toy_view spec header = \<lparr>view_spec = Some spec, view_header = header, view_data = header + data_offset spec,
     view_head = 0, view_score = 1\<rparr>"

definition toy_cache :: RuntimeCache where
  "toy_cache = \<lparr>cache_module = toy_module, cache_recruit_row = 7, cache_team_row = 3, cache_controller = 0x10000,
     cache_recruit_wrapper = 0x11000, cache_team_wrapper = 0x12000, cache_targets = toy_view kUserTarget 0x30000,
     cache_pitches = toy_view kActivePitch 0x40000, cache_membership = toy_view kMembership 0x60000\<rparr>"

definition toy_add :: "words \<Rightarrow> addr \<Rightarrow> words" where
  "toy_add m recruit_cell =
     (let row = m (ucast (m recruit_cell) + 24)
      in m(0x60244 := 0x1048 * 2 ^ 17, 0x30084 := 0x10AD * 2 ^ 17 + row, 0x30088 := 0x169E * 2 ^ 17,
           0x30018 := m 0x30078, 0x40018 := m 0x44B94))"

definition toy_code :: "words native_code" where
  "toy_code address arguments m =
     (if address = toy_module + full_add_rva toy_layout then (Inr 1, toy_add m (arguments ! 2)) else (Inl 0xC0000005, m))"

definition toy_game :: "words Game" where
  "toy_game = \<lparr>RegionQuery = \<lambda>m. toy_query,
     GuardedCopy = \<lambda>m a n. Some (concat (map (\<lambda>i. word_bytes 4 (m (a + 4 * word_of_nat i))) [0..<n div 4])),
     ReadOwnMemory = \<lambda>m a n. (True, concat (map (\<lambda>i. word_bytes 4 (m (a + 4 * word_of_nat i))) [0..<n div 4])),
     ModuleHandle = \<lambda>m. toy_module, ApplicationAddresses = (0x10000, 0x700000000000),
     LocalWord = \<lambda>w m. (w + 0x100000, m(w + 0x100000 := ucast w)), NativeCode = toy_code\<rparr>"

lemma little_endian_word_bytes: "little_endian 0 (word_bytes 4 w) = (w :: u32)"
proof (rule bit_word_eqI)
  fix n assume n: "n < LENGTH(32)"
  have "little_endian 0 (word_bytes 4 w) = ((ucast (ucast w :: byte) :: u32) OR push_bit 8 (ucast (ucast (drop_bit 8 w) :: byte)) OR
      push_bit 16 (ucast (ucast (drop_bit 16 w) :: byte)) OR push_bit 24 (ucast (ucast (drop_bit 24 w) :: byte)))"
    by (simp add: word_bytes_def upt_rec)
  then show "bit (little_endian 0 (word_bytes 4 w) :: u32) n = bit w n"
    using n by (cases "n < 8"; cases "n < 16"; cases "n < 24"; auto simp: bit_simps)
qed

lemma toy_readable:
  assumes "0 < a" and "n \<noteq> 0" and "n \<le> 0x100000" and "a < 0x600000000000"
  shows "ReadableRange toy_query a n"
proof -
  have sum: "unat (a + n) = unat a + unat n" "unat a < 0x600000000000" "unat n \<le> 0x100000"
    using assms by (auto simp: word_less_nat_alt word_le_nat_alt unat_word_ariths)
  then have "a + n < 0x700000000000" "a < 0x700000000000" by (auto simp: word_less_nat_alt)
  moreover have "\<not> a > max_u64 - n" using sum by (simp only: add_guard_swapped) simp
  moreover have "\<not> 0x700000000000 \<le> a" "\<not> 0x700000000000 < a + n" "a + n \<le> 0x700000000000"
    using sum by (auto simp: word_less_nat_alt word_le_nat_alt)
  ultimately show ?thesis using assms(1,2)
    by (simp add: ReadableRange_def walk_regions.simps [of _ _ "a + n"] toy_query_def win_constants ReadableProtection_def min_def)
qed

lemma toy_ReadU32: "0 < a \<Longrightarrow> a < 0x600000000000 \<Longrightarrow> ReadU32 toy_game m a = Some (m a)"
  by (simp add: ReadU32_def ReadBytes_def toy_game_def toy_readable little_endian_word_bytes)

lemma little_endian_append: "little_endian i (xs @ ys) = little_endian i xs OR little_endian (i + length xs) ys"
  by (induction xs arbitrary: i) (simp_all add: or.assoc)

lemma little_endian_push: "little_endian (i + k) xs = push_bit (8 * i) (little_endian k xs)"
proof (induction xs arbitrary: k)
  case (Cons b bs)
  then show ?case using Cons.IH [of "Suc k"] by (simp add: push_bit_or push_bit_push_bit algebra_simps)
qed simp

lemma little_endian_dword: "(little_endian 0 (word_bytes 4 (w :: u32)) :: u64) = ucast w"
proof (rule bit_word_eqI)
  fix n assume n: "n < LENGTH(64)"
  have "little_endian 0 (word_bytes 4 w) = ((ucast (ucast w :: byte) :: u64) OR push_bit 8 (ucast (ucast (drop_bit 8 w) :: byte)) OR
      push_bit 16 (ucast (ucast (drop_bit 16 w) :: byte)) OR push_bit 24 (ucast (ucast (drop_bit 24 w) :: byte)))"
    by (simp add: word_bytes_def upt_rec)
  then show "bit (little_endian 0 (word_bytes 4 w) :: u64) n = bit (ucast w :: u64) n"
    using n by (cases "n < 8"; cases "n < 16"; cases "n < 24"; cases "n < 32"; auto simp: bit_simps dest: bit_imp_le_length)
qed

lemma toy_ReadU64:
  assumes "0 < a" and "a < 0x600000000000"
  shows "ReadU64 toy_game m a = Some (ucast (m a) OR push_bit 32 (ucast (m (a + 4))))"
proof -
  have [simp]: "length (word_bytes 4 v) = 4" for v :: u32 by (simp add: word_bytes_def)
  have "little_endian 0 (word_bytes 4 v @ word_bytes 4 w) = (ucast v OR push_bit 32 (ucast w) :: u64)" for v w :: u32
    using little_endian_push [of 4 0 "word_bytes 4 w", where 'a=64]
    by (simp add: little_endian_append little_endian_dword)
  then show ?thesis using assms
    by (simp add: ReadU64_def ReadBytes_def toy_game_def toy_readable upt_rec)
qed

lemma toy_ReadBytes:
  assumes "0 < a" and "a < 0x600000000000"
  shows "ReadBytes toy_game m a 16 = Some (word_bytes 4 (m a) @ word_bytes 4 (m (a + 4)) @ word_bytes 4 (m (a + 8)) @ word_bytes 4 (m (a + 12)))"
  using assms by (simp add: ReadBytes_def toy_game_def toy_readable upt_rec)

lemma toy_descriptor: "0 < d \<Longrightarrow> d < 0x500000000000 \<Longrightarrow> DescriptorTableId toy_game m d = m (d + 44)"
proof -
  assume d: "0 < d" "d < 0x500000000000"
  then have "unat (d + 40) = unat d + 40" by (simp add: word_less_nat_alt unat_word_ariths)
  with d have "0 < d + 40" "d + 40 < 0x600000000000" by (auto simp: word_less_nat_alt)
  moreover have "(ucast (drop_bit 32 (ucast v OR push_bit 32 (ucast w) :: u64)) :: u32) = w" for v w :: u32
    by (rule bit_word_eqI) (auto simp: bit_simps dest: bit_imp_le_length)
  ultimately show ?thesis by (simp add: DescriptorTableId_def toy_ReadU64 algebra_simps)
qed

lemma toy_layout_simps [simp]:
  "generic_record_wrapper_vtable_rva toy_layout = 0xB093F68" "recruiting_controller_vtable_rva toy_layout = 0xB0B5BA8"
  "full_add_rva toy_layout = 0x8109060" "recruit_table_id toy_layout = 0x10AD" "team_table_id toy_layout = 0x18BE"
  "controller_descriptor_table_id toy_layout = 0x138B" "user_target_table_id toy_layout = 0x1048"
  "active_pitch_table_id toy_layout = 0x169E"
  by (simp_all add: toy_layout_def kGeneratedBuilds_def)

lemma toy_game_simps [simp]:
  "RegionQuery toy_game m = toy_query" "ModuleHandle toy_game m = toy_module" "NativeCode toy_game = toy_code"
  "LocalWord toy_game w m = (w + 0x100000, m(w + 0x100000 := ucast w))"
  by (simp_all add: toy_game_def)

lemma toy_view_simps [simp]:
  "view_spec (toy_view spec header) = Some spec" "view_header (toy_view spec header) = header"
  "view_data (toy_view spec header) = header + data_offset spec" "view_head (toy_view spec header) = 0"
  by (simp_all add: toy_view_def)

lemma toy_refresh:
  assumes "(header, spec) \<in> {(0x30000, kUserTarget), (0x40000, kActivePitch), (0x60000, kMembership)}"
  shows "RefreshTable toy_game toy_memory (toy_view spec header) = Some (toy_view spec header)"
  using assms
  by (elim insertE emptyE; simp add: RefreshTable_def toy_readable toy_ReadBytes toy_ReadU32 table_readable_def TableSignature_def
    kUserTarget_def kActivePitch_def kMembership_def toy_memory_def toy_view_def)

lemma toy_cached: "cached_runtime toy_game toy_memory toy_layout toy_module 7 3 (Some toy_cache) = Some toy_cache"
proof -
  have controller: "ValidateController toy_game toy_memory toy_layout toy_module 0x10000"
    by (simp add: ValidateController_def controller_fields_def toy_ReadU64 toy_descriptor toy_readable toy_module_def
      kMembershipCapacity_def toy_memory_def)
  moreover have "ValidateWrapper toy_game toy_memory toy_layout toy_module 0x11000 (recruit_table_id toy_layout) 7"
    "ValidateWrapper toy_game toy_memory toy_layout toy_module 0x12000 (team_table_id toy_layout) 3"
    by (simp_all add: ValidateWrapper_def wrapper_target_def toy_ReadU64 toy_descriptor toy_module_def toy_memory_def)
  ultimately show ?thesis by (simp add: cached_runtime_def toy_cache_def toy_refresh)
qed

lemma read_slots_empty:
  "\<forall>slot \<in> set slots. ReadU32 game s (word_at address slot) = Some 0 \<Longrightarrow>
   read_slots game s targets pitches layout address slots saw_zero snapshot = snapshot\<lparr>board_valid := board_compact snapshot\<rparr>"
  by (induction slots arbitrary: saw_zero snapshot) auto

lemma toy_slots:
  assumes "slot < 35"
  shows "0 < word_at 0x60244 slot" "word_at 0x60244 slot < 0x600000000000" "unat (word_at 0x60244 slot) = 0x60244 + slot * 4"
  using assms by (auto simp: word_at_def word_less_nat_alt unat_word_ariths unat_of_nat)

lemma toy_memory_row: "toy_memory (word_at 0x60244 slot) = 0" if "slot < 35"
  using toy_slots [OF that] that by (auto simp: toy_memory_def word_unat_eq_iff)

lemma toy_membership_row: "row_address (view_data (cache_membership toy_cache)) kMembership 0 = 0x60244"
  by (simp add: row_address_def toy_cache_def kMembership_def)

lemma toy_before:
  "ReadBoard toy_game toy_memory (cache_targets toy_cache) (cache_pitches toy_cache) (cache_membership toy_cache) toy_layout 0 =
   \<lparr>board_valid = True, board_compact = True, board_membership_row = 0, board_items = []\<rparr>"
proof -
  have "\<forall>slot \<in> set [0..<kBoardSlots]. ReadU32 toy_game toy_memory (word_at 0x60244 slot) = Some 0"
    by (auto simp: kBoardSlots_def toy_ReadU32 toy_slots toy_memory_row)
  note read = read_slots_empty [OF this]
  show ?thesis
    using toy_membership_row by (simp add: ReadBoard_def toy_cache_def read) (simp add: kMembership_def read)
qed

definition toy_plan :: Plan where
  "toy_plan = \<lparr>plan_result = (BaseResult kAdd 7 3)\<lparr>result_membership_row := 0\<rparr>,
     plan_before = \<lparr>board_valid = True, board_compact = True, board_membership_row = 0, board_items = []\<rparr>,
     plan_next_target = 1, plan_next_pitch = 1, plan_removed = no_item\<rparr>"

lemma toy_prepare: "prepare toy_game toy_memory toy_layout toy_cache (BaseResult kAdd 7 3) = Inr toy_plan"
proof -
  have controller: "ReadU64 toy_game toy_memory (cache_controller toy_cache + 8) = Some 0"
    by (simp add: toy_cache_def toy_ReadU64 toy_memory_def)
  have heads: "next_head toy_game toy_memory (cache_targets toy_cache) = Some 1"
    "next_head toy_game toy_memory (cache_pitches toy_cache) = Some 1"
    by (simp_all add: next_head_def toy_cache_def kUserTarget_def kActivePitch_def row_address_def toy_ReadU32 toy_memory_def)
  have "operation (BaseResult kAdd 7 3) = kAdd" by (simp add: BaseResult_def)
  then show ?thesis
    by (simp add: prepare_def controller toy_before heads Matching_def kMembershipCapacity_def kBoardSlots_def toy_plan_def Let_def)
qed

definition toy_after :: words where
  "toy_after = toy_add (toy_memory(0x112000 := 0x12000, 0x111000 := 0x11000)) 0x111000"

lemma toy_call:
  "call_game toy_game toy_layout toy_module kAdd toy_cache toy_memory =
   (\<lparr>call_status = kCallOk, call_result = 1, call_fault = 0\<rparr>, toy_after)"
  by (simp add: call_game_def toy_cache_def Native_Call.Invoke_def kMaxArguments_def IsExecutableAddress_def toy_query_def
    win_constants toy_module_def InvokeGuarded_def Dispatch_def toy_code_def toy_after_def)

definition toy_item :: BoardItem where
  "toy_item = \<lparr>item_slot = 0, item_target_row = 0, item_recruit_row = 7, item_active_pitch_row = 0\<rparr>"

lemma toy_after_simps:
  "toy_after 0x60244 = 0x1048 * 2 ^ 17" "toy_after 0x30084 = 0x10AD * 2 ^ 17 + 7" "toy_after 0x30088 = 0x169E * 2 ^ 17"
  "toy_after 0x30018 = 1" "toy_after 0x40018 = 1"
  by (simp_all add: toy_after_def toy_add_def toy_memory_def)

lemma toy_after_row: "0 < slot \<Longrightarrow> slot < 35 \<Longrightarrow> toy_after (word_at 0x60244 slot) = 0"
  using toy_slots [of slot] by (auto simp: toy_after_def toy_add_def toy_memory_def word_unat_eq_iff)

lemma toy_board_item:
  "board_item toy_game toy_after (toy_view kUserTarget 0x30000) (toy_view kActivePitch 0x40000) toy_layout 0 (0x1048 * 2 ^ 17) =
   Some toy_item"
  by (simp add: board_item_def ReferenceRow_def ReferenceTable_def kReferenceRowMask_def kUserTarget_def kActivePitch_def
      row_address_def toy_ReadU32 toy_after_simps [simplified] toy_item_def)

lemma toy_reading:
  "ReadBoard toy_game toy_after (cache_targets toy_cache) (cache_pitches toy_cache) (cache_membership toy_cache) toy_layout 0 =
   \<lparr>board_valid = True, board_compact = True, board_membership_row = 0, board_items = [toy_item]\<rparr>"
proof -
  have "\<forall>slot \<in> set [1..<kBoardSlots]. ReadU32 toy_game toy_after (word_at 0x60244 slot) = Some 0"
    by (auto simp: kBoardSlots_def toy_ReadU32 toy_slots toy_after_row)
  note rest = read_slots_empty [OF this, simplified]
  have slots: "[0..<kBoardSlots] = 0 # [Suc 0..<kBoardSlots]" by (simp add: kBoardSlots_def upt_conv_Cons)
  have first: "ReadU32 toy_game toy_after (word_at 0x60244 0) = Some (0x1048 * 2 ^ 17)"
    by (simp add: toy_ReadU32 word_at_def toy_after_simps [simplified])
  have "spec_capacity kMembership = 138" by (simp add: kMembership_def)
  then show ?thesis
    using toy_membership_row first toy_board_item
    by (simp add: ReadBoard_def toy_cache_def slots rest)
qed

lemma toy_check: "check_after toy_game toy_after toy_layout toy_cache toy_plan = Some toy_item"
proof -
  have "ReadU32 toy_game toy_after (view_header (cache_targets toy_cache) + 24) = Some 1"
    "ReadU32 toy_game toy_after (view_header (cache_pitches toy_cache) + 24) = Some 1"
    by (simp_all add: toy_cache_def toy_ReadU32 toy_after_simps)
  then show ?thesis
    by (simp add: check_after_def toy_plan_def BaseResult_def toy_reading added_item_def Matching_def toy_item_def)
      (simp add: toy_cache_def)
qed

definition toy_result :: Result where
  "toy_result = (BaseResult kAdd 7 3)\<lparr>result_membership_row := 0, call_value := 1, result_board_slot := 0,
     result_target_row := 0, result_active_pitch_row := 0, status := kApplied\<rparr>"

lemma toy_invoke: "Invoke toy_game toy_layout kAdd 7 3 (Some toy_cache) toy_memory = (toy_result, Some toy_cache, toy_after)"
proof -
  have "runtime_of toy_game toy_memory toy_layout toy_module 7 3 (Some toy_cache) = Inr toy_cache"
    by (simp add: runtime_of_def toy_cached)
  moreover have "toy_module \<noteq> 0" by (simp add: toy_module_def)
  ultimately show ?thesis
    by (simp add: Invoke_def toy_prepare toy_call toy_check kReferenceRowMask_def)
      (simp add: toy_plan_def toy_result_def toy_item_def with_item_def BaseResult_def)
qed

section \<open>Properties\<close>

text \<open>C31: a reading of the board is the memory. The reading is valid with some items exactly when the row is one of the
  table, every slot can be read, the first slots hold references to sound target rows with these recruits and pitches, in
  order, and all the slots after them are empty.\<close>

theorem ReadBoard_exact:
  "board_valid (ReadBoard game s (cache_targets c) (cache_pitches c) (cache_membership c) layout row) \<and>
   board_items (ReadBoard game s (cache_targets c) (cache_pitches c) (cache_membership c) layout row) = items \<longleftrightarrow>
   board_holds game s c layout row items"
  by (rule ReadBoard_holds)

text \<open>The items of any reading, even of one that ended early, are well formed: their slots rise and lie on the
  board, the target rows lie in the target table, the recruit rows fit a reference, and a pitch row is absent or lies in
  the pitch table.\<close>

lemma ReadBoard_typed:
  "sorted_wrt (<) (map item_slot (board_items (ReadBoard game s targets pitches membership layout row))) \<and>
   list_all (\<lambda>item. item_slot item < kBoardSlots \<and> unat (item_target_row item) < spec_capacity (the (view_spec targets)) \<and>
       item_recruit_row item \<le> kReferenceRowMask \<and>
       (item_active_pitch_row item = - 1 \<or> unat (item_active_pitch_row item) < spec_capacity (the (view_spec pitches))))
     (board_items (ReadBoard game s targets pitches membership layout row))"
proof (cases "unat row \<ge> spec_capacity (the (view_spec membership))")
  case True
  then show ?thesis by (simp add: ReadBoard_def Let_def)
next
  case False
  show ?thesis
    unfolding ReadBoard_def Let_def if_not_P [OF False]
    by (subst conj_commute, rule read_slots_items) (auto dest!: board_item_ok)
qed

text \<open>C30: a refused mutation has not touched the game. Whatever the status but those after the native call, the state is the
  one before, no call value or fault is reported, and the result names the operation and the rows asked for.\<close>

theorem Invoke_refused:
  assumes "Invoke game layout oper recruit_row team_row cache s = (r, cache', s')"
    and "status r \<notin> {kApplied, kNativeCallFailed, kPostconditionFailed}"
  shows "s' = s \<and> operation r = oper \<and> result_recruit_row r = recruit_row \<and> result_team_row r = team_row \<and>
    call_value r = 0 \<and> fault_code r = 0"
  using assms(1)
proof (cases rule: mutation_cases)
  case (called c plan call)
  then show ?thesis using assms(2) by auto
qed auto

theorem Invoke_refused_witness:
  "snd (snd (Invoke toy_game toy_layout kAdd 0x20000 3 (Some toy_cache) toy_memory)) = toy_memory"
proof -
  have run: "Invoke toy_game toy_layout kAdd 0x20000 3 (Some toy_cache) toy_memory =
      ((BaseResult kAdd 0x20000 3)\<lparr>status := kInvalidArgument\<rparr>, Some toy_cache, toy_memory)"
    by (simp add: Invoke_def kReferenceRowMask_def)
  from Invoke_refused [OF this] show ?thesis by (simp add: run)
qed

text \<open>C29: what an applied mutation has done. The boards before and after the native call are those in memory. After an addition
  the recruit, who was on no item, is on exactly one, the last of a board one longer, with the rows that headed the free
  lists, and both lists now start with what followed. After a removal the only item of the recruit is gone from a
  board one shorter, its target and pitch rows head the free lists and the references of its target row are cleared. The
  result reports the row of the board and that item.\<close>

theorem Invoke_applied:
  assumes "Invoke game layout oper recruit_row team_row cache s = (r, cache', s')" and "status r = kApplied"
  shows "\<exists>c before after item. cache' = Some c \<and>
    board_holds game s c layout (result_membership_row r) before \<and> board_holds game s' c layout (result_membership_row r) after \<and>
    (case oper of kAdd \<Rightarrow> recruit_added game s s' c recruit_row before after item
                | kRemove \<Rightarrow> recruit_removed game s s' c recruit_row before after item) \<and>
    result_board_slot r = word_of_nat (item_slot item) \<and> result_target_row r = item_target_row item \<and>
    result_active_pitch_row r = item_active_pitch_row item"
  using assms(1)
proof (cases rule: mutation_cases)
  case (called c plan call)
  then obtain item where item: "check_after game s' layout c plan = Some item"
      "r = (with_item item ((plan_result plan)\<lparr>call_value := call_result call, fault_code := call_fault call\<rparr>))\<lparr>status := kApplied\<rparr>"
    using assms(2) by auto
  obtain row where plan: "plan_result plan = (BaseResult oper recruit_row team_row)\<lparr>result_membership_row := row\<rparr>"
      "plan_before plan = ReadBoard game s (cache_targets c) (cache_pitches c) (cache_membership c) layout row"
      "board_valid (plan_before plan)"
      "oper = kAdd \<longrightarrow> Matching (plan_before plan) recruit_row = [] \<and>
         next_head game s (cache_targets c) = Some (plan_next_target plan) \<and>
         next_head game s (cache_pitches c) = Some (plan_next_pitch plan)"
      "oper = kRemove \<longrightarrow> Matching (plan_before plan) recruit_row = [plan_removed plan]"
    using prepare_Inr [OF called(1)] by (auto simp: BaseResult_def)
  have result: "operation (plan_result plan) = oper" "result_recruit_row (plan_result plan) = recruit_row"
    "result_membership_row (plan_result plan) = row" "result_membership_row r = row"
    by (simp_all add: plan(1) item(2) BaseResult_def with_item_def)
  have holds: "board_holds game s c layout row (board_items (plan_before plan))"
    using plan(2,3) ReadBoard_holds by metis
  have "\<exists>after. board_holds game s' c layout row after \<and>
      (case oper of kAdd \<Rightarrow> recruit_added game s s' c recruit_row (board_items (plan_before plan)) after item
                  | kRemove \<Rightarrow> recruit_removed game s s' c recruit_row (board_items (plan_before plan)) after item)"
  proof (cases oper)
    case kAdd
    with check_added [OF item(1) _ refl, of recruit_row s] plan(4) result show ?thesis by (auto simp: Matching_filter)
  next
    case kRemove
    with check_removed [OF item(1) _ refl, of recruit_row s] plan(5) result show ?thesis by (auto simp: Matching_filter)
  qed
  then show ?thesis using holds called(2) result(4) by (auto simp: item(2) with_item_def)
qed (use assms(2) in auto)

theorem Invoke_applied_witness:
  "\<exists>before after item. board_holds toy_game toy_memory toy_cache toy_layout 0 before \<and>
     board_holds toy_game toy_after toy_cache toy_layout 0 after \<and>
     recruit_added toy_game toy_memory toy_after toy_cache 7 before after item"
  using Invoke_applied [OF toy_invoke] by (auto simp: toy_result_def BaseResult_def)

end
