(* ===== verification/Telemetry.thy ===== *)
theory Telemetry
  imports Json
begin

text \<open>
  The telemetry types of a session and the payloads scripts may emit (telemetry.cpp). The registered types are
  the state \<open>g_registered_types\<close>; \<open>dump\<close>, the text nlohmann::json gives a value, is a parameter that is \<open>None\<close>
  when the library throws. The locale \<open>json_dump\<close> states the compact format the library documents for
  arrays and objects; it is interpreted on the texts put together from those of scalars and keys.
\<close>

section \<open>Limits and errors\<close>

definition kMaxTelemetryTypes :: nat where "kMaxTelemetryTypes = 16"
definition kMaxDepth :: nat where "kMaxDepth = 4"
definition kMaxObjectKeys :: nat where "kMaxObjectKeys = 64"
definition kMaxArrayEntries :: nat where "kMaxArrayEntries = 128"
definition kMaxStringBytes :: nat where "kMaxStringBytes = 1024"
definition kMaxSerializedBytes :: nat where "kMaxSerializedBytes = 16 * 1024"

lemmas telemetry_limits = kMaxTelemetryTypes_def kMaxDepth_def kMaxObjectKeys_def kMaxArrayEntries_def
  kMaxStringBytes_def kMaxSerializedBytes_def

text \<open>A payload is refused with a message, or the library threw.\<close>

datatype failure = Refused string | Thrown

section \<open>Types\<close>

definition IsReservedType :: "string \<Rightarrow> bool" where
  "IsReservedType type \<longleftrightarrow> type = ''game_ready'' \<or> type = ''tick'' \<or> type = ''log''"

definition IsForbiddenKey :: "string \<Rightarrow> bool" where
  "IsForbiddenKey key \<longleftrightarrow> key = ''address'' \<or> key = ''addressHex'' \<or> key = ''regionBase'' \<or>
     key = ''bytesHex'' \<or> key = ''contextAddress'' \<or> key = ''contextHex''"

text \<open>The characters of a name behind its first.\<close>

fun type_characters :: "string \<Rightarrow> bool" where
  "type_characters [] = True"
| "type_characters (character # rest) =
     (if (of_char character < (of_char CHR ''a'' :: nat) \<or> of_char character > (of_char CHR ''z'' :: nat)) \<and>
         (of_char character < (of_char CHR ''0'' :: nat) \<or> of_char character > (of_char CHR ''9'' :: nat)) \<and>
         character \<noteq> CHR ''_'' \<and> character \<noteq> CHR ''.'' \<and> character \<noteq> CHR ''-''
      then False else type_characters rest)"

definition IsTelemetryTypeName :: "string \<Rightarrow> bool" where
  "IsTelemetryTypeName type =
     (if type = [] \<or> 64 < length type \<or> IsReservedType type \<or>
         of_char (hd type) < (of_char CHR ''a'' :: nat) \<or> of_char (hd type) > (of_char CHR ''z'' :: nat)
      then False else type_characters (tl type))"

text \<open>The checks of the requested names, in order.\<close>

fun request_types :: "string list \<Rightarrow> string list \<Rightarrow> string + string list" where
  "request_types [] requested = Inr requested"
| "request_types (type # types) requested =
     (if \<not> IsTelemetryTypeName type then Inl ''Telemetry type name is invalid or reserved''
      else if type \<in> set requested then Inl ''Telemetry registration contains duplicate types''
      else request_types types (type # requested))"

text \<open>The answer is the error, or nothing when the types are registered.\<close>

definition RegisterTelemetryTypes :: "string list \<Rightarrow> string set \<Rightarrow> string option \<times> string set" where
  "RegisterTelemetryTypes types registered =
     (if types = [] \<or> kMaxTelemetryTypes < length types
      then (Some ''Telemetry registration requires 1 to 16 types'', registered)
      else case request_types types [] of
             Inl error \<Rightarrow> (Some error, registered)
           | Inr requested \<Rightarrow>
               if kMaxTelemetryTypes - card registered < length (filter (\<lambda>type. type \<notin> registered) requested)
               then (Some ''Telemetry registration exceeds the 16-type session limit'', registered)
               else (None, registered \<union> set requested))"

definition IsTelemetryTypeRegistered :: "string \<Rightarrow> string set \<Rightarrow> bool" where
  "IsTelemetryTypeRegistered type registered \<longleftrightarrow> type \<in> registered"

section \<open>Payloads\<close>

definition is_number_float :: "Json \<Rightarrow> bool" where
  "is_number_float j = (case j of JFloat _ \<Rightarrow> True | _ \<Rightarrow> False)"

text \<open>A double is finite when its exponent is not all ones.\<close>

definition isfinite :: "u64 \<Rightarrow> bool" where
  "isfinite bits \<longleftrightarrow> drop_bit 52 bits AND 0x7FF \<noteq> 0x7FF"

definition AddSerializedBytes :: "nat \<Rightarrow> nat \<Rightarrow> failure + nat" where
  "AddSerializedBytes bytes used =
     (if kMaxSerializedBytes - used < bytes
      then Inl (Refused ''Serialized telemetry payload must not exceed 16 KiB'') else Inr (used + bytes))"

text \<open>\<open>AddSerializedBytes(value.dump().size(), \<dots>)\<close>\<close>

definition add_dump :: "(Json \<Rightarrow> string option) \<Rightarrow> Json \<Rightarrow> nat \<Rightarrow> nat \<Rightarrow> failure + nat" where
  "add_dump dump value punctuation used =
     (case dump value of None \<Rightarrow> Inl Thrown | Some text \<Rightarrow> AddSerializedBytes (length text + punctuation) used)"

text \<open>The whole tree in the order of the code: the bytes counted so far, or the failure.\<close>

fun ValidateValue :: "(Json \<Rightarrow> string option) \<Rightarrow> Json \<Rightarrow> nat \<Rightarrow> nat \<Rightarrow> failure + nat"
  and validate_items :: "(Json \<Rightarrow> string option) \<Rightarrow> Json list \<Rightarrow> bool \<Rightarrow> nat \<Rightarrow> nat \<Rightarrow> failure + nat"
  and validate_entries :: "(Json \<Rightarrow> string option) \<Rightarrow> (string \<times> Json) list \<Rightarrow> bool \<Rightarrow> nat \<Rightarrow> nat \<Rightarrow> failure + nat" where
  "ValidateValue dump (JFloat bits) depth used =
     (if \<not> isfinite bits then Inl (Refused ''Telemetry numbers must be finite'')
      else add_dump dump (JFloat bits) 0 used)"
| "ValidateValue dump (JString text) depth used =
     (if kMaxStringBytes < length text then Inl (Refused ''Telemetry strings must not exceed 1024 bytes'')
      else add_dump dump (JString text) 0 used)"
| "ValidateValue dump (JArray items) depth used =
     (if kMaxDepth < depth then Inl (Refused ''Telemetry payload depth must not exceed 4'')
      else if kMaxArrayEntries < length items then Inl (Refused ''Telemetry arrays must not exceed 128 entries'')
      else case AddSerializedBytes 2 used of
             Inl failure \<Rightarrow> Inl failure
           | Inr used \<Rightarrow> validate_items dump items True (depth + 1) used)"
| "ValidateValue dump (JObject entries) depth used =
     (if kMaxDepth < depth then Inl (Refused ''Telemetry payload depth must not exceed 4'')
      else if kMaxObjectKeys < length entries then Inl (Refused ''Telemetry objects must not exceed 64 keys'')
      else case AddSerializedBytes 2 used of
             Inl failure \<Rightarrow> Inl failure
           | Inr used \<Rightarrow> validate_entries dump entries True (depth + 1) used)"
| "ValidateValue dump value depth used = add_dump dump value 0 used"
| "validate_items dump [] first depth used = Inr used"
| "validate_items dump (item # items) first depth used =
     (case (if first then Inr used else AddSerializedBytes 1 used) of
        Inl failure \<Rightarrow> Inl failure
      | Inr used \<Rightarrow>
          (case ValidateValue dump item depth used of
             Inl failure \<Rightarrow> Inl failure
           | Inr used \<Rightarrow> validate_items dump items False depth used))"
| "validate_entries dump [] first depth used = Inr used"
| "validate_entries dump ((key, item) # entries) first depth used =
     (if kMaxStringBytes < length key then Inl (Refused ''Telemetry strings must not exceed 1024 bytes'')
      else if IsForbiddenKey key then Inl (Refused ''Telemetry payloads must not contain address or raw-byte keys'')
      else case add_dump dump (JString key) (if first then 1 else 2) used of
             Inl failure \<Rightarrow> Inl failure
           | Inr used \<Rightarrow>
               (case ValidateValue dump item depth used of
                  Inl failure \<Rightarrow> Inl failure
                | Inr used \<Rightarrow> validate_entries dump entries False depth used))"

text \<open>The error, or nothing for an accepted payload.\<close>

definition ValidateTelemetryPayload :: "(Json \<Rightarrow> string option) \<Rightarrow> Json \<Rightarrow> string option" where
  "ValidateTelemetryPayload dump payload =
     (case ValidateValue dump payload 1 0 of
        Inr used \<Rightarrow> None
      | Inl (Refused error) \<Rightarrow> Some error
      | Inl Thrown \<Rightarrow> Some ''Telemetry payload could not be serialized'')"

section \<open>The registry\<close>

lemma request_types_iff:
  "request_types types requested = Inr result \<longleftrightarrow>
     result = rev types @ requested \<and> list_all IsTelemetryTypeName types \<and> distinct types \<and> set types \<inter> set requested = {}"
  by (induction types arbitrary: requested) auto

definition registry_ok :: "string set \<Rightarrow> bool" where
  "registry_ok registered \<longleftrightarrow> finite registered \<and> card registered \<le> kMaxTelemetryTypes \<and> Ball registered IsTelemetryTypeName"

text \<open>What a registration promises: all the names or none.\<close>

definition may_register :: "string list \<Rightarrow> string set \<Rightarrow> bool" where
  "may_register types registered \<longleftrightarrow> types \<noteq> [] \<and> length types \<le> kMaxTelemetryTypes \<and> list_all IsTelemetryTypeName types \<and>
     distinct types \<and> card (registered \<union> set types) \<le> kMaxTelemetryTypes"

lemma new_types:
  assumes "finite registered" and "card registered \<le> kMaxTelemetryTypes" and "distinct types"
  shows "kMaxTelemetryTypes - card registered < length (filter (\<lambda>type. type \<notin> registered) types) \<longleftrightarrow>
    \<not> card (registered \<union> set types) \<le> kMaxTelemetryTypes"
proof -
  have "card (registered \<union> set types) = card registered + card (set types - registered)"
    using assms(1) card_Un_disjoint [of registered "set types - registered"] by (simp add: Un_Diff_cancel)
  moreover have "set (filter (\<lambda>type. type \<notin> registered) types) = set types - registered" by auto
  then have "length (filter (\<lambda>type. type \<notin> registered) types) = card (set types - registered)"
    using assms(3) by (metis distinct_card distinct_filter)
  ultimately show ?thesis using assms(2) by linarith
qed

lemma RegisterTelemetryTypes_cases:
  assumes "registry_ok registered"
  shows "(fst (RegisterTelemetryTypes types registered) = None \<longleftrightarrow> may_register types registered) \<and>
    snd (RegisterTelemetryTypes types registered) = (if may_register types registered then registered \<union> set types else registered)"
proof (cases "types = [] \<or> kMaxTelemetryTypes < length types")
  case True
  then show ?thesis by (auto simp: RegisterTelemetryTypes_def may_register_def)
next
  case False
  show ?thesis
  proof (cases "request_types types []")
    case (Inl error)
    then have "\<not> (list_all IsTelemetryTypeName types \<and> distinct types)" using request_types_iff [of types "[]" "rev types"] by simp
    then show ?thesis using False Inl by (auto simp: RegisterTelemetryTypes_def may_register_def)
  next
    case (Inr requested)
    then have "requested = rev types" "list_all IsTelemetryTypeName types" "distinct types"
      using request_types_iff [of types "[]" requested] by simp_all
    then show ?thesis
      using False Inr assms new_types [of registered types]
      by (auto simp: RegisterTelemetryTypes_def may_register_def registry_ok_def rev_filter [symmetric])
  qed
qed

text \<open>The registry after a list of registrations, of an empty one at the start.\<close>

definition register_all :: "string list list \<Rightarrow> string set" where
  "register_all requests = fold (\<lambda>types registered. snd (RegisterTelemetryTypes types registered)) requests {}"

lemma register_all_snoc [simp]:
  "register_all (requests @ [types]) = snd (RegisterTelemetryTypes types (register_all requests))"
  by (simp add: register_all_def)

lemma register_all_ok: "registry_ok (register_all requests)"
proof (induction requests rule: rev_induct)
  case Nil
  then show ?case by (simp add: register_all_def registry_ok_def)
next
  case (snoc types requests)
  then show ?case
    using RegisterTelemetryTypes_cases [OF snoc, of types]
    by (auto simp: registry_ok_def may_register_def list_all_iff)
qed

text \<open>The telemetry types of a session. After any registrations the registry holds at most 16 valid names. The next one succeeds
  exactly when it asks for one to sixteen different valid names that fit beside those registered; then it adds all of
  them, and otherwise it adds none.\<close>

lemma telemetry_registry:
  "card (register_all requests) \<le> 16 \<and> register_all requests \<subseteq> Collect IsTelemetryTypeName \<and>
   (fst (RegisterTelemetryTypes types (register_all requests)) = None \<longleftrightarrow> may_register types (register_all requests)) \<and>
   register_all (requests @ [types]) =
     (if may_register types (register_all requests) then register_all requests \<union> set types else register_all requests)"
  using register_all_ok [of requests] RegisterTelemetryTypes_cases [of "register_all requests" types]
  by (auto simp: registry_ok_def kMaxTelemetryTypes_def)

section \<open>The text of a payload\<close>

text \<open>The limits on a value at a depth.\<close>

fun fits :: "nat \<Rightarrow> Json \<Rightarrow> bool" where
  "fits depth (JFloat bits) = isfinite bits"
| "fits depth (JString text) = (length text \<le> kMaxStringBytes)"
| "fits depth (JArray items) = (depth \<le> kMaxDepth \<and> length items \<le> kMaxArrayEntries \<and> list_all (fits (depth + 1)) items)"
| "fits depth (JObject entries) = (depth \<le> kMaxDepth \<and> length entries \<le> kMaxObjectKeys \<and>
     list_all (\<lambda>key. length key \<le> kMaxStringBytes \<and> \<not> IsForbiddenKey key) (map fst entries) \<and>
     list_all (fits (depth + 1)) (map snd entries))"
| "fits depth value = True"

text \<open>Texts with commas between them, and the text of an entry of an object.\<close>

fun comma :: "string list \<Rightarrow> string" where
  "comma [] = []"
| "comma [text] = text"
| "comma (text # rest) = text @ '','' @ comma rest"

definition entry_text :: "string option \<Rightarrow> string option \<Rightarrow> string option" where
  "entry_text key item = (case (key, item) of (Some k, Some v) \<Rightarrow> Some (k @ '':'' @ v) | _ \<Rightarrow> None)"

text \<open>A check that adds a number of bytes to the count as long as the limit allows, or fails whatever the count.\<close>

definition charges :: "(nat \<Rightarrow> failure + nat) \<Rightarrow> nat option \<Rightarrow> bool" where
  "charges check bytes \<longleftrightarrow> (\<forall>used u. used \<le> kMaxSerializedBytes \<longrightarrow>
     (check used = Inr u \<longleftrightarrow> (\<exists>n. bytes = Some n \<and> used + n \<le> kMaxSerializedBytes \<and> u = used + n)))"

definition both :: "nat option \<Rightarrow> nat option \<Rightarrow> nat option" where
  "both m n = (case (m, n) of (Some a, Some b) \<Rightarrow> Some (a + b) | _ \<Rightarrow> None)"

lemma charges_both:
  assumes "charges f m" and "charges g n"
  shows "charges (\<lambda>used. case f used of Inl failure \<Rightarrow> Inl failure | Inr used \<Rightarrow> g used) (both m n)"
  unfolding charges_def
proof (intro allI impI)
  fix used u assume "used \<le> kMaxSerializedBytes"
  then have f: "f used = Inr v \<longleftrightarrow> (\<exists>a. m = Some a \<and> used + a \<le> kMaxSerializedBytes \<and> v = used + a)" for v
    using assms(1) by (simp add: charges_def)
  have g: "g v = Inr u \<longleftrightarrow> (\<exists>b. n = Some b \<and> v + b \<le> kMaxSerializedBytes \<and> u = v + b)" if "v \<le> kMaxSerializedBytes" for v
    using assms(2) that by (simp add: charges_def)
  have "(case f used of Inl failure \<Rightarrow> Inl failure | Inr used \<Rightarrow> g used) = Inr u \<longleftrightarrow> (\<exists>v. f used = Inr v \<and> g v = Inr u)"
    by (cases "f used") auto
  also have "\<dots> \<longleftrightarrow> (\<exists>a. m = Some a \<and> used + a \<le> kMaxSerializedBytes \<and> g (used + a) = Inr u)"
    unfolding f by blast
  also have "\<dots> \<longleftrightarrow> (\<exists>n'. both m n = Some n' \<and> used + n' \<le> kMaxSerializedBytes \<and> u = used + n')"
    using g by (auto simp: both_def split: option.splits)
  finally show "(case f used of Inl failure \<Rightarrow> Inl failure | Inr used \<Rightarrow> g used) = Inr u \<longleftrightarrow>
      (\<exists>n'. both m n = Some n' \<and> used + n' \<le> kMaxSerializedBytes \<and> u = used + n')" .
qed

lemma charges_eq: "charges check m \<Longrightarrow> m = n \<Longrightarrow> charges check n"
  by simp

lemma charges_none: "charges Inr (Some 0)"
  by (auto simp: charges_def)

lemma charges_bytes: "charges (AddSerializedBytes bytes) (Some bytes)"
  by (auto simp: charges_def AddSerializedBytes_def)

lemma charges_dump: "charges (add_dump dump value punctuation) (map_option (\<lambda>text. length text + punctuation) (dump value))"
  by (auto simp: charges_def add_dump_def AddSerializedBytes_def split: option.splits)

locale json_dump =
  fixes dump :: "Json \<Rightarrow> string option"
  assumes dump_array: "dump (JArray items) = map_option (\<lambda>texts. ''['' @ comma texts @ '']'') (those (map dump items))"
    and dump_object: "dump (JObject entries) = map_option (\<lambda>texts. ''{'' @ comma texts @ ''}'')
        (those (map (\<lambda>(key, item). entry_text (dump (JString key)) (dump item)) entries))"
begin

definition listed :: "bool \<Rightarrow> string list \<Rightarrow> nat" where
  "listed first texts = sum_list (map length texts) + (length texts - (if first then 1 else 0))"

lemma listed_simps [simp]:
  "listed first [] = 0"
  "listed first (text # texts) = (if first then 0 else 1) + length text + listed False texts"
  by (auto simp: listed_def)

lemma length_comma: "length (comma texts) = listed True texts"
  by (induction texts rule: comma.induct) auto

lemma validate_items_charges:
  "(\<And>item. item \<in> set items \<Longrightarrow> charges (ValidateValue dump item depth) (if fits depth item then map_option length (dump item) else None)) \<Longrightarrow>
   charges (validate_items dump items first depth)
     (if list_all (fits depth) items then map_option (listed first) (those (map dump items)) else None)"
proof (induction items arbitrary: first)
  case Nil
  then show ?case using charges_none by (simp cong: charges_def)
next
  case (Cons item items)
  have pre: "charges (\<lambda>used. if first then Inr used else AddSerializedBytes 1 used) (Some (if first then 0 else 1))"
    using charges_none charges_bytes [of 1] by (cases first) simp_all
  note item = charges_both [OF Cons.prems [of item, simplified] Cons.IH [OF Cons.prems, of False, simplified]]
  have "validate_items dump (item # items) first depth = (\<lambda>used.
      case (if first then Inr used else AddSerializedBytes 1 used) of Inl failure \<Rightarrow> Inl failure
      | Inr used \<Rightarrow> (case ValidateValue dump item depth used of
             Inl failure \<Rightarrow> Inl failure
           | Inr used \<Rightarrow> validate_items dump items False depth used))" by (rule ext) simp
  moreover have "both (Some (if first then 0 else 1)) (both (if fits depth item then map_option length (dump item) else None)
        (if list_all (fits depth) items then map_option (listed False) (those (map dump items)) else None)) =
      (if list_all (fits depth) (item # items) then map_option (listed first) (those (map dump (item # items))) else None)"
    by (auto simp: both_def split: option.split)
  ultimately show ?case using charges_both [OF pre item] by simp
qed

lemma validate_entries_charges:
  "(\<And>item. item \<in> set (map snd entries) \<Longrightarrow>
     charges (ValidateValue dump item depth) (if fits depth item then map_option length (dump item) else None)) \<Longrightarrow>
   charges (validate_entries dump entries first depth)
     (if list_all (\<lambda>key. length key \<le> kMaxStringBytes \<and> \<not> IsForbiddenKey key) (map fst entries) \<and>
         list_all (fits depth) (map snd entries)
      then map_option (listed first) (those (map (\<lambda>(key, item). entry_text (dump (JString key)) (dump item)) entries)) else None)"
proof (induction entries arbitrary: first)
  case Nil
  then show ?case using charges_none by simp
next
  case (Cons entry entries)
  obtain key item where entry: "entry = (key, item)" by force
  show ?case
  proof (cases "length key \<le> kMaxStringBytes \<and> \<not> IsForbiddenKey key")
    case False
    then show ?thesis by (auto simp: entry charges_def)
  next
    case True
    have "item \<in> set (map snd (entry # entries))" by (simp add: entry)
    note item = charges_both [OF Cons.prems [OF this] Cons.IH [OF Cons.prems, of False, simplified]]
    have "validate_entries dump (entry # entries) first depth = (\<lambda>used.
        case add_dump dump (JString key) (if first then 1 else 2) used of Inl failure \<Rightarrow> Inl failure
        | Inr used \<Rightarrow> (case ValidateValue dump item depth used of
               Inl failure \<Rightarrow> Inl failure
             | Inr used \<Rightarrow> validate_entries dump entries False depth used))" using True by (intro ext) (simp add: entry)
    then show ?thesis using charges_both [OF charges_dump [of dump "JString key" "if first then 1 else 2"] item] True
      by (auto simp: entry both_def entry_text_def split: option.splits elim!: back_subst [of "charges _"])
  qed
qed

lemma ValidateValue_charges:
  "charges (ValidateValue dump j depth) (if fits depth j then map_option length (dump j) else None)"
proof (induction j arbitrary: depth)
  case (JArray items)
  show ?case
  proof (cases "depth \<le> kMaxDepth \<and> length items \<le> kMaxArrayEntries")
    case True
    then have run: "ValidateValue dump (JArray items) depth =
        (\<lambda>used. case AddSerializedBytes 2 used of Inl failure \<Rightarrow> Inl failure
           | Inr used \<Rightarrow> validate_items dump items True (depth + 1) used)" by (intro ext) simp
    show ?thesis
      unfolding run
      by (rule charges_eq [OF charges_both [OF charges_bytes validate_items_charges [OF JArray]]])
        (use True in \<open>auto simp: dump_array both_def length_comma split: option.split\<close>)
  qed (auto simp: charges_def)
next
  case (JObject entries)
  show ?case
  proof (cases "depth \<le> kMaxDepth \<and> length entries \<le> kMaxObjectKeys")
    case True
    then have run: "ValidateValue dump (JObject entries) depth =
        (\<lambda>used. case AddSerializedBytes 2 used of Inl failure \<Rightarrow> Inl failure
           | Inr used \<Rightarrow> validate_entries dump entries True (depth + 1) used)" by (intro ext) simp
    have items: "charges (ValidateValue dump item (depth + 1)) (if fits (depth + 1) item then map_option length (dump item) else None)"
      if "item \<in> set (map snd entries)" for item
    proof -
      obtain key where "(key, item) \<in> set entries" using \<open>item \<in> set (map snd entries)\<close> by auto
      then show ?thesis by (rule JObject) simp
    qed
    show ?thesis
      unfolding run
      by (rule charges_eq [OF charges_both [OF charges_bytes validate_entries_charges [OF items]]])
        (use True in \<open>auto simp: dump_object both_def length_comma split: option.split\<close>)
  qed (auto simp: charges_def)
qed (use charges_dump [of dump _ 0] in \<open>auto simp: charges_def\<close>)

lemma payload_exact:
  "ValidateTelemetryPayload dump payload = None \<longleftrightarrow>
   fits 1 payload \<and> (\<exists>text. dump payload = Some text \<and> length text \<le> kMaxSerializedBytes)"
proof -
  have "(\<exists>u. ValidateValue dump payload 1 0 = Inr u) \<longleftrightarrow>
      fits 1 payload \<and> (\<exists>text. dump payload = Some text \<and> length text \<le> kMaxSerializedBytes)"
    using ValidateValue_charges [of payload 1] by (auto simp: charges_def split: if_splits)
  moreover have "ValidateTelemetryPayload dump payload = None \<longleftrightarrow> (\<exists>u. ValidateValue dump payload 1 0 = Inr u)"
    by (auto simp: ValidateTelemetryPayload_def split: sum.split failure.split)
  ultimately show ?thesis by simp
qed

end

text \<open>The compact text put together from the texts of scalars and keys.\<close>

fun compact_text :: "(Json \<Rightarrow> string option) \<Rightarrow> Json \<Rightarrow> string option" where
  "compact_text scalar (JArray items) = map_option (\<lambda>texts. ''['' @ comma texts @ '']'') (those (map (compact_text scalar) items))"
| "compact_text scalar (JObject entries) = map_option (\<lambda>texts. ''{'' @ comma texts @ ''}'')
     (those (map (\<lambda>(key, item). entry_text (scalar (JString key)) (compact_text scalar item)) entries))"
| "compact_text scalar value = scalar value"

interpretation compact: json_dump "compact_text scalar" for scalar
  by unfold_locales simp_all

text \<open>C35: accepted payloads. A payload is accepted exactly when it keeps to the limits on depth, entries, keys and strings, its
  numbers are finite, the library can serialize it and its compact text has at most 16 KiB: the bytes counted on the
  way are those of the text.\<close>

theorem payload_accepted:
  assumes "json_dump dump"
  shows "ValidateTelemetryPayload dump payload = None \<longleftrightarrow>
    fits 1 payload \<and> (\<exists>text. dump payload = Some text \<and> length text \<le> 16 * 1024)"
  using json_dump.payload_exact [OF assms, of payload] by (simp add: kMaxSerializedBytes_def)

theorem payload_accepted_witness:
  "ValidateTelemetryPayload (compact_text (\<lambda>value. Some ''1'')) (JObject [(''a'', JArray [JUnsigned 1, JNull])]) = None \<and>
   ValidateTelemetryPayload (compact_text (\<lambda>value. Some ''1'')) (JObject [(''address'', JNull)]) \<noteq> None"
  using payload_accepted [OF compact.json_dump_axioms, of "\<lambda>value. Some ''1''" "JObject [(''a'', JArray [JUnsigned 1, JNull])]"]
    payload_accepted [OF compact.json_dump_axioms, of "\<lambda>value. Some ''1''" "JObject [(''address'', JNull)]"]
  by (simp add: telemetry_limits IsForbiddenKey_def entry_text_def)

end
