(* ===== verification/Protocol.thy ===== *)
theory Protocol
  imports Json
begin

text \<open>
  The frames of the v1 pipe (protocol.cpp): four bytes with the length of the body, lowest first, and the body,
  the JSON text of one value. \<open>ReadFile\<close> and \<open>WriteFile\<close> of the pipe, the parser and the printer of
  nlohmann::json are parameters; a printer that throws is \<open>None\<close>. The locales \<open>byte_source\<close> and \<open>byte_sink\<close> state
  what a byte-mode pipe promises of the two calls; they are interpreted on pipes that hold chunks of bytes.
\<close>

definition kVersion :: nat where "kVersion = 1"
definition kMaxFrameBytes :: u32 where "kMaxFrameBytes = 1024 * 1024"

text \<open>The largest count one call takes, \<open>std::numeric_limits<DWORD>::max()\<close>.\<close>

definition kMaxDword :: nat where "kMaxDword = 2 ^ 32 - 1"

section \<open>Objects\<close>

text \<open>Objects keep their keys sorted; a new entry replaces one of the same key.\<close>

fun text_less :: "string \<Rightarrow> string \<Rightarrow> bool" where
  "text_less [] right \<longleftrightarrow> right \<noteq> []"
| "text_less (a # left) [] \<longleftrightarrow> False"
| "text_less (a # left) (b # right) \<longleftrightarrow>
     (of_char a :: nat) < of_char b \<or> a = b \<and> text_less left right"

fun put_entry :: "string \<Rightarrow> Json \<Rightarrow> (string \<times> Json) list \<Rightarrow> (string \<times> Json) list" where
  "put_entry key item [] = [(key, item)]"
| "put_entry key item ((k, v) # entries) =
     (if key = k then (key, item) # entries
      else if text_less key k then (key, item) # (k, v) # entries
      else (k, v) # put_entry key item entries)"

definition object :: "(string \<times> Json) list \<Rightarrow> Json" where
  "object entries = JObject (fold (\<lambda>(key, item). put_entry key item) entries [])"

lemma map_of_put_entry: "map_of (put_entry key item entries) = (map_of entries)(key \<mapsto> item)"
  by (induction entries) (auto simp: fun_eq_iff)

lemma json_at_object: "json_at (object entries) key = Inr item \<longleftrightarrow> map_of (rev entries) key = Some item"
proof -
  have "map_of (fold (\<lambda>(key, item). put_entry key item) entries acc) = map_of (rev entries @ acc)" for acc
    by (induction entries arbitrary: acc) (auto simp: map_of_put_entry fun_eq_iff map_add_def split: option.splits)
  from this [of "[]"] show ?thesis by (simp add: object_def json_at_Inr)
qed

definition ErrorResponse :: "string \<Rightarrow> string \<Rightarrow> string \<Rightarrow> Json \<Rightarrow> Json" where
  "ErrorResponse request_id code message details =
     object [(''protocol'', JUnsigned (word_of_nat kVersion)), (''id'', JString request_id), (''ok'', JBool False),
       (''error'', object [(''code'', JString code), (''message'', JString message), (''details'', details)])]"

section \<open>Exact transfers\<close>

type_synonym 's read_file = "'s \<Rightarrow> nat \<Rightarrow> byte list option \<times> 's"
type_synonym 's write_file = "'s \<Rightarrow> byte list \<Rightarrow> nat option \<times> 's"

text \<open>The bytes read so far are \<open>data\<close>; \<open>left\<close> are missing. A read of nothing is a failure, so the loop ends.\<close>

function ReadExact :: "'s read_file \<Rightarrow> 's \<Rightarrow> byte list \<Rightarrow> nat \<Rightarrow> byte list option \<times> 's" where
  "ReadExact ReadFile s data left =
     (if 0 < left then
        (case ReadFile s (min left kMaxDword) of
           (None, s) \<Rightarrow> (None, s)
         | (Some bytes, s) \<Rightarrow>
             if bytes = [] then (None, s) else ReadExact ReadFile s (data @ bytes) (left - length bytes))
      else (Some data, s))"
  by pat_completeness auto
termination by (relation "measure (\<lambda>(ReadFile, s, data, left). left)") auto

function WriteExact :: "'s write_file \<Rightarrow> 's \<Rightarrow> byte list \<Rightarrow> bool \<times> 's" where
  "WriteExact WriteFile s data =
     (if data \<noteq> [] then
        (case WriteFile s (take kMaxDword data) of
           (None, s) \<Rightarrow> (False, s)
         | (Some written, s) \<Rightarrow> if written = 0 then (False, s) else WriteExact WriteFile s (drop written data))
      else (True, s))"
  by pat_completeness auto
termination by (relation "measure (\<lambda>(WriteFile, s, data). length data)") auto

declare ReadExact.simps [simp del] WriteExact.simps [simp del]

section \<open>Frames\<close>

definition header_size :: "byte list \<Rightarrow> u32" where
  "header_size header = ucast (header ! 0) OR push_bit 8 (ucast (header ! 1)) OR push_bit 16 (ucast (header ! 2)) OR
     push_bit 24 (ucast (header ! 3))"

definition frame_header :: "u32 \<Rightarrow> byte list" where
  "frame_header n = [ucast n, ucast (drop_bit 8 n), ucast (drop_bit 16 n), ucast (drop_bit 24 n)]"

definition ReadFrame :: "(byte list \<Rightarrow> Json option) \<Rightarrow> 's read_file \<Rightarrow> 's \<Rightarrow> (string + Json) \<times> 's" where
  "ReadFrame parse ReadFile s =
     (case ReadExact ReadFile s [] 4 of
        (None, s) \<Rightarrow> (Inl ''Could not read the frame header'', s)
      | (Some header, s) \<Rightarrow>
          let n = header_size header
          in if n = 0 \<or> kMaxFrameBytes < n then (Inl ''Frame size is outside the supported range'', s)
             else (case ReadExact ReadFile s [] (unat n) of
                     (None, s) \<Rightarrow> (Inl ''Could not read the complete frame body'', s)
                   | (Some body, s) \<Rightarrow>
                       (case parse body of
                          None \<Rightarrow> (Inl ''Frame body is not valid JSON'', s)
                        | Some request \<Rightarrow> (Inr request, s))))"

text \<open>A frame is written, refused or cut short with an error, or the printer threw.\<close>

datatype frame_written = Written | NotWritten string | PrinterThrew

definition WriteFrame :: "(Json \<Rightarrow> byte list option) \<Rightarrow> 's write_file \<Rightarrow> 's \<Rightarrow> Json \<Rightarrow> frame_written \<times> 's" where
  "WriteFrame print WriteFile s response =
     (case print response of
        None \<Rightarrow> (PrinterThrew, s)
      | Some body \<Rightarrow>
          if body = [] \<or> unat kMaxFrameBytes < length body
          then (NotWritten ''Response frame size is outside the supported range'', s)
          else let (header_ok, s) = WriteExact WriteFile s (frame_header (word_of_nat (length body)))
               in if \<not> header_ok then (NotWritten ''Could not write the complete response frame'', s)
                  else let (body_ok, s) = WriteExact WriteFile s body
                       in if \<not> body_ok then (NotWritten ''Could not write the complete response frame'', s)
                          else (Written, s))"

section \<open>The server\<close>

text \<open>The pipe calls of the loop, on the state of the process; the handler runs in between.\<close>

record 's Server =
  Running :: "'s \<Rightarrow> bool"
  CreateNamedPipe :: "'s \<Rightarrow> bool \<times> 's"
  ConnectNamedPipe :: "'s \<Rightarrow> bool \<times> 's"
  PipeRead :: "'s read_file"
  PipeWrite :: "'s write_file"
  FlushAndDisconnect :: "'s \<Rightarrow> 's"
  CloseHandle :: "'s \<Rightarrow> 's"

text \<open>One connected client: its request or the reason there is none, and the answer.\<close>

definition serve_client ::
  "(byte list \<Rightarrow> Json option) \<Rightarrow> (Json \<Rightarrow> byte list option) \<Rightarrow> 's Server \<Rightarrow> (Json \<Rightarrow> 's \<Rightarrow> Json \<times> 's) \<Rightarrow> 's \<Rightarrow>
   frame_written \<times> 's" where
  "serve_client parse print server handler s =
     (let (request, s) = ReadFrame parse (PipeRead server) s;
          (response, s) = (case request of
             Inr request \<Rightarrow> handler request s
           | Inl error \<Rightarrow> (ErrorResponse [] ''INVALID_REQUEST'' error (object []), s))
      in WriteFrame print (PipeWrite server) s response)"

text \<open>The loop ends when the host stops or no pipe can be made (\<open>False\<close>), or by an exception of the printer (\<open>True\<close>).\<close>

partial_function (option) Serve ::
  "(byte list \<Rightarrow> Json option) \<Rightarrow> (Json \<Rightarrow> byte list option) \<Rightarrow> 's Server \<Rightarrow> (Json \<Rightarrow> 's \<Rightarrow> Json \<times> 's) \<Rightarrow> 's \<Rightarrow>
   (bool \<times> 's) option" where
  "Serve parse print server handler s =
     (if \<not> Running server s then Some (False, s)
      else let (created, s) = CreateNamedPipe server s
           in if \<not> created then Some (False, s)
              else let (connected, s) = ConnectNamedPipe server s
                   in if connected then
                        (let (written, s) = serve_client parse print server handler s
                         in if written = PrinterThrew then Some (True, s)
                            else Serve parse print server handler (CloseHandle server (FlushAndDisconnect server s)))
                      else Serve parse print server handler (CloseHandle server s))"

section \<open>What a byte pipe promises\<close>

text \<open>The bytes still to be received: a read takes some of them, and takes at least one when there are any.\<close>

locale byte_source =
  fixes ReadFile :: "'s read_file" and content :: "'s \<Rightarrow> byte list"
  assumes takes: "ReadFile s n = (Some bytes, s') \<Longrightarrow> content s = bytes @ content s' \<and> length bytes \<le> n"
    and delivers: "0 < n \<Longrightarrow> content s \<noteq> [] \<Longrightarrow> \<exists>bytes s'. ReadFile s n = (Some bytes, s') \<and> bytes \<noteq> []"
begin

lemma ReadExact_takes:
  "length data = have \<Longrightarrow> left \<le> length (content s) \<Longrightarrow>
   \<exists>s'. ReadExact ReadFile s data left = (Some (data @ take left (content s)), s') \<and> content s' = drop left (content s)"
proof (induction "left" arbitrary: s data "have" rule: less_induct)
  case (less left)
  show ?case
  proof (cases "left = 0")
    case True
    then show ?thesis by (simp add: ReadExact.simps)
  next
    case False
    then have "0 < min left kMaxDword" "content s \<noteq> []" using less.prems by (auto simp: kMaxDword_def)
    then obtain bytes t where read: "ReadFile s (min left kMaxDword) = (Some bytes, t)" "bytes \<noteq> []"
      using delivers by blast
    then have split: "content s = bytes @ content t" "length bytes \<le> left" using takes [OF read(1)] by auto
    have "left - length bytes < left" using False read(2) by (cases bytes) auto
    moreover have "left - length bytes \<le> length (content t)" using split less.prems by simp
    ultimately obtain s' where "ReadExact ReadFile t (data @ bytes) (left - length bytes) =
          (Some ((data @ bytes) @ take (left - length bytes) (content t)), s')"
        "content s' = drop (left - length bytes) (content t)"
      using less.IH [of "left - length bytes" "data @ bytes" _ t] by blast
    then show ?thesis using False read split by (simp add: ReadExact.simps [of ReadFile s])
  qed
qed

lemma ReadExact_short:
  "length (content s) < left \<Longrightarrow> fst (ReadExact ReadFile s data left) = None"
proof (induction "left" arbitrary: s data rule: less_induct)
  case (less left)
  show ?case
  proof (cases "ReadFile s (min left kMaxDword)")
    case (Pair r t)
    show ?thesis
    proof (cases r)
      case None
      then show ?thesis using Pair less.prems by (simp add: ReadExact.simps [of ReadFile s])
    next
      case (Some bytes)
      then have split: "content s = bytes @ content t" using takes Pair by blast
      show ?thesis
      proof (cases "bytes = []")
        case True
        then show ?thesis using Some Pair less.prems by (simp add: ReadExact.simps [of ReadFile s])
      next
        case False
        then have "left - length bytes < left" "length (content t) < left - length bytes" using less.prems split by auto
        from less.IH [OF this] show ?thesis using False Some Pair less.prems by (simp add: ReadExact.simps [of ReadFile s])
      qed
    qed
  qed
qed

end

text \<open>A transfer is cut short only by a call that fails or takes nothing.\<close>

lemma WriteExact_cut:
  "WriteExact WriteFile s data = (False, s') \<Longrightarrow> \<exists>t part. part \<noteq> [] \<and> fst (WriteFile t part) \<in> {None, Some 0}"
proof (induction data arbitrary: s rule: measure_induct_rule [of length])
  case (less data)
  have data: "data \<noteq> []" using less.prems by (auto simp: WriteExact.simps [of _ _ "[]"])
  then have part: "take kMaxDword data \<noteq> []" by (simp add: kMaxDword_def)
  obtain r t where step: "WriteFile s (take kMaxDword data) = (r, t)" by force
  show ?case
  proof (cases "r \<in> {None, Some 0}")
    case True
    then show ?thesis using step part by (intro exI [of _ s] exI [of _ "take kMaxDword data"]) simp
  next
    case False
    then obtain written where w: "r = Some written" "0 < written" by auto
    have "WriteExact WriteFile t (drop written data) = (False, s')"
      using less.prems data step w by (simp add: WriteExact.simps [of WriteFile s])
    then show ?thesis using less.IH [of "drop written data" t] w data by simp
  qed
qed

text \<open>The bytes sent so far: a write sends the first ones of its buffer.\<close>

locale byte_sink =
  fixes WriteFile :: "'s write_file" and sent :: "'s \<Rightarrow> byte list"
  assumes sends: "WriteFile s bytes = (Some written, s') \<Longrightarrow> written \<le> length bytes \<and> sent s' = sent s @ take written bytes"
    and fails: "WriteFile s bytes = (None, s') \<Longrightarrow> sent s' = sent s"
begin

lemma WriteExact_sends:
  "WriteExact WriteFile s data = (ok, s') \<Longrightarrow>
   \<exists>n \<le> length data. sent s' = sent s @ take n data \<and> (ok \<longleftrightarrow> n = length data)"
proof (induction data arbitrary: s rule: measure_induct_rule [of length])
  case (less data)
  show ?case
  proof (cases "data = []")
    case True
    then show ?thesis using less.prems by (auto simp: WriteExact.simps)
  next
    case False
    obtain r t where step: "WriteFile s (take kMaxDword data) = (r, t)" by force
    show ?thesis
    proof (cases "r = None \<or> r = Some 0")
      case True
      then have "sent t = sent s" using step sends [of s "take kMaxDword data" 0 t] fails by auto
      moreover have "ok = False" "s' = t" using less.prems True step False by (auto simp: WriteExact.simps [of WriteFile s])
      ultimately show ?thesis using False by (intro exI [of _ 0]) simp
    next
      case go: False
      then obtain written where w: "r = Some written" "0 < written" by auto
      have first: "written \<le> length data" "sent t = sent s @ take written data"
        using sends [OF step [unfolded w(1)]] by (auto simp: min_def split: if_splits)
      have "WriteExact WriteFile t (drop written data) = (ok, s')"
        using less.prems False step w by (simp add: WriteExact.simps [of WriteFile s])
      then obtain n where n: "n \<le> length (drop written data)" "sent s' = sent t @ take n (drop written data)"
          "ok \<longleftrightarrow> n = length (drop written data)"
        using less.IH [of "drop written data" t] w False by auto
      have "take written data @ take n (drop written data) = take (written + n) data" by (simp add: take_add)
      then show ?thesis using n first by (intro exI [of _ "written + n"]) auto
    qed
  qed
qed

end


section \<open>Frames over a byte pipe\<close>

lemma header_size_frame_header: "header_size (frame_header n) = n"
proof (rule bit_word_eqI)
  fix i assume i: "i < LENGTH(32)"
  then show "bit (header_size (frame_header n)) i = bit n i"
    unfolding header_size_def frame_header_def
    by (cases "i < 8"; cases "i < 16"; cases "i < 24"; auto simp: bit_simps)
qed

text \<open>What a reader makes of the bytes it is to receive, and the bytes it leaves.\<close>

definition frame_of :: "(byte list \<Rightarrow> Json option) \<Rightarrow> byte list \<Rightarrow> string + Json" where
  "frame_of parse bytes =
     (let n = header_size (take 4 bytes)
      in if length bytes < 4 then Inl ''Could not read the frame header''
         else if n = 0 \<or> kMaxFrameBytes < n then Inl ''Frame size is outside the supported range''
         else if length bytes < 4 + unat n then Inl ''Could not read the complete frame body''
         else case parse (take (unat n) (drop 4 bytes)) of
                None \<Rightarrow> Inl ''Frame body is not valid JSON''
              | Some request \<Rightarrow> Inr request)"

text \<open>The bytes of a frame.\<close>

definition frame :: "byte list \<Rightarrow> byte list" where
  "frame body = frame_header (word_of_nat (length body)) @ body"

context byte_source
begin

lemma ReadFrame_frame_of: "fst (ReadFrame parse ReadFile s) = frame_of parse (content s)"
proof (cases "length (content s) < 4")
  case True
  then have "fst (ReadExact ReadFile s [] 4) = None" by (rule ReadExact_short)
  then obtain t where "ReadExact ReadFile s [] 4 = (None, t)" by (metis prod.collapse)
  with True show ?thesis by (simp add: ReadFrame_def frame_of_def)
next
  case False
  then obtain t where header: "ReadExact ReadFile s [] 4 = (Some (take 4 (content s)), t)" "content t = drop 4 (content s)"
    using ReadExact_takes [of "[]" 0 4 s] by auto
  let ?n = "header_size (take 4 (content s))"
  show ?thesis
  proof (cases "?n = 0 \<or> kMaxFrameBytes < ?n")
    case True
    with False header show ?thesis by (simp add: ReadFrame_def frame_of_def Let_def)
  next
    case fits: False
    show ?thesis
    proof (cases "length (content t) < unat ?n")
      case True
      then have "fst (ReadExact ReadFile t [] (unat ?n)) = None" by (rule ReadExact_short)
      then obtain u where "ReadExact ReadFile t [] (unat ?n) = (None, u)" by (metis prod.collapse)
      with True False fits header show ?thesis by (auto simp: ReadFrame_def frame_of_def Let_def)
    next
      case full: False
      then obtain u where "ReadExact ReadFile t [] (unat ?n) = (Some (take (unat ?n) (content t)), u)"
        using ReadExact_takes [of "[]" 0 "unat ?n" t] by auto
      with full False fits header show ?thesis
        by (auto simp: ReadFrame_def frame_of_def Let_def split: option.split)
    qed
  qed
qed

lemma ReadFrame_frame:
  assumes "content s = frame body @ rest" and "body \<noteq> []" and "length body \<le> unat kMaxFrameBytes" and "parse body = Some request"
  shows "\<exists>s'. ReadFrame parse ReadFile s = (Inr request, s') \<and> content s' = rest"
proof -
  let ?n = "word_of_nat (length body) :: u32"
  have n: "unat ?n = length body" using assms(3) by (simp add: kMaxFrameBytes_def unat_of_nat)
  have header: "length (frame_header ?n) = 4" by (simp add: frame_header_def)
  then obtain t where t: "ReadExact ReadFile s [] 4 = (Some (frame_header ?n), t)" "content t = body @ rest"
    using ReadExact_takes [of "[]" 0 4 s] assms(1) by (auto simp: frame_def)
  obtain u where u: "ReadExact ReadFile t [] (length body) = (Some body, u)" "content u = rest"
    using ReadExact_takes [of "[]" 0 "length body" t] t(2) by auto
  have "?n \<noteq> 0" "\<not> kMaxFrameBytes < ?n"
    using n assms(2,3) by (auto simp: word_less_nat_alt)
  then show ?thesis using t u n assms(4) by (simp add: ReadFrame_def header_size_frame_header)
qed

end

context byte_sink
begin

lemma WriteFrame_frame:
  assumes "WriteFrame print WriteFile s response = (Written, s')"
  shows "\<exists>body. print response = Some body \<and> body \<noteq> [] \<and> length body \<le> unat kMaxFrameBytes \<and> sent s' = sent s @ frame body"
proof -
  obtain body t where body: "print response = Some body" "body \<noteq> []" "length body \<le> unat kMaxFrameBytes"
    and header: "WriteExact WriteFile s (frame_header (word_of_nat (length body))) = (True, t)"
    and rest: "WriteExact WriteFile t body = (True, s')"
    using assms by (auto simp: WriteFrame_def Let_def split: option.splits if_splits prod.splits)
  from WriteExact_sends [OF header] WriteExact_sends [OF rest] body show ?thesis by (auto simp: frame_def)
qed

lemma WriteFrame_cut:
  assumes "print response = Some body" and "body \<noteq> []" "length body \<le> unat kMaxFrameBytes"
    and "WriteFrame print WriteFile s response = (outcome, s')" and "outcome \<noteq> Written"
  shows "outcome = NotWritten ''Could not write the complete response frame'' \<and>
    (\<exists>k < length (frame body). sent s' = sent s @ take k (frame body)) \<and>
    (\<exists>u part. part \<noteq> [] \<and> fst (WriteFile u part) \<in> {None, Some 0})"
proof -
  let ?header = "frame_header (word_of_nat (length body))"
  obtain header_ok t where header: "WriteExact WriteFile s ?header = (header_ok, t)" by force
  obtain body_ok u where rest: "WriteExact WriteFile t body = (body_ok, u)" by force
  have outcome: "outcome = NotWritten ''Could not write the complete response frame''"
    "\<not> header_ok \<and> s' = t \<or> header_ok \<and> \<not> body_ok \<and> s' = u"
    using assms header rest by (auto simp: WriteFrame_def Let_def split: if_splits)
  obtain k where k: "k \<le> length ?header" "sent t = sent s @ take k ?header" "header_ok \<longleftrightarrow> k = length ?header"
    using WriteExact_sends [OF header] by blast
  obtain m where m: "m \<le> length body" "sent u = sent t @ take m body" "body_ok \<longleftrightarrow> m = length body"
    using WriteExact_sends [OF rest] by blast
  from outcome(2) show ?thesis
  proof (elim disjE conjE)
    assume h: "\<not> header_ok" "s' = t"
    then have "k < length (frame body)" "sent s' = sent s @ take k (frame body)" using k by (auto simp: frame_def)
    moreover have "\<exists>u part. part \<noteq> [] \<and> fst (WriteFile u part) \<in> {None, Some 0}"
      using WriteExact_cut [of WriteFile s ?header t] header h(1) by simp
    ultimately show ?thesis using outcome(1) by blast
  next
    assume h: "header_ok" "\<not> body_ok" "s' = u"
    then have "length ?header + m < length (frame body)" "sent s' = sent s @ take (length ?header + m) (frame body)"
      using k m by (auto simp: frame_def)
    moreover have "\<exists>u part. part \<noteq> [] \<and> fst (WriteFile u part) \<in> {None, Some 0}"
      using WriteExact_cut [of WriteFile t body u] rest h(2) by simp
    ultimately show ?thesis using outcome(1) by blast
  qed
qed

lemma WriteFrame_outcome:
  assumes "WriteFrame print WriteFile s response = (outcome, s')"
  shows "case print response of
       None \<Rightarrow> outcome = PrinterThrew \<and> sent s' = sent s
     | Some body \<Rightarrow>
         if body = [] \<or> unat kMaxFrameBytes < length body
         then outcome = NotWritten ''Response frame size is outside the supported range'' \<and> sent s' = sent s
         else outcome = Written \<and> sent s' = sent s @ frame body \<or>
           outcome = NotWritten ''Could not write the complete response frame'' \<and>
           (\<exists>k < length (frame body). sent s' = sent s @ take k (frame body)) \<and>
           (\<exists>u part. part \<noteq> [] \<and> fst (WriteFile u part) \<in> {None, Some 0})"
proof (cases "print response")
  case None
  then show ?thesis using assms by (simp add: WriteFrame_def)
next
  case (Some body)
  show ?thesis
  proof (cases "body = [] \<or> unat kMaxFrameBytes < length body")
    case True
    then show ?thesis using assms Some by (simp add: WriteFrame_def)
  next
    case False
    then show ?thesis
      using WriteFrame_frame [of print s response s'] WriteFrame_cut [OF Some _ _ assms] assms Some
      by (cases "outcome = Written") auto
  qed
qed

end

section \<open>Pipes that hold chunks\<close>

text \<open>A byte-mode pipe keeps what it was sent in chunks; a read takes from the first of them that holds bytes.\<close>

definition chunk_read :: "byte list list read_file" where
  "chunk_read chunks n =
     (case dropWhile (\<lambda>chunk. chunk = []) chunks of
        [] \<Rightarrow> (None, [])
      | chunk # rest \<Rightarrow> (Some (take n chunk), drop n chunk # rest))"

text \<open>A write adds one chunk, of no more bytes than there is room for.\<close>

definition chunk_write :: "nat \<Rightarrow> byte list list write_file" where
  "chunk_write room chunks bytes = (Some (min room (length bytes)), chunks @ [take room bytes])"

lemma concat_dropWhile: "concat (dropWhile (\<lambda>chunk. chunk = []) chunks) = concat chunks"
  by (induction chunks) auto

lemma dropWhile_first: "dropWhile (\<lambda>chunk. chunk = []) chunks = chunk # rest \<Longrightarrow> chunk \<noteq> []"
  using hd_dropWhile [of "\<lambda>chunk. chunk = []" chunks] by auto

interpretation chunk_source: byte_source chunk_read concat
proof
  fix s s' :: "byte list list" and n bytes
  assume "chunk_read s n = (Some bytes, s')"
  then show "concat s = bytes @ concat s' \<and> length bytes \<le> n"
    using concat_dropWhile [of s]
    by (auto simp: chunk_read_def split: list.splits) (metis append_assoc append_take_drop_id)
next
  fix s :: "byte list list" and n :: nat
  assume "0 < n" "concat s \<noteq> []"
  then obtain chunk rest where first: "dropWhile (\<lambda>chunk. chunk = []) s = chunk # rest"
    by (metis concat.simps(1) concat_dropWhile neq_Nil_conv)
  then show "\<exists>bytes s'. chunk_read s n = (Some bytes, s') \<and> bytes \<noteq> []"
    using dropWhile_first [OF first] \<open>0 < n\<close> by (simp add: chunk_read_def)
qed

interpretation chunk_sink: byte_sink "chunk_write room" concat for room
  by unfold_locales (auto simp: chunk_write_def min_def)

section \<open>Properties\<close>

text \<open>C34: frames survive the pipe. When a value was written as a frame, a reader that is to receive the bytes sent, in
  whatever pieces, reads the value the printed text parses to and leaves the bytes behind the frame.\<close>

theorem frame_roundtrip:
  assumes "byte_sink WriteFile sent" and "byte_source ReadFile content"
    and "WriteFrame print WriteFile w response = (Written, w')" and "sent w' = sent w @ bytes" and "content r = bytes @ rest"
    and "parse (the (print response)) = Some request"
  shows "\<exists>r'. ReadFrame parse ReadFile r = (Inr request, r') \<and> content r' = rest"
proof -
  obtain body where body: "print response = Some body" "body \<noteq> []" "length body \<le> unat kMaxFrameBytes"
      "sent w' = sent w @ frame body"
    using byte_sink.WriteFrame_frame [OF assms(1,3)] by blast
  then have "content r = frame body @ rest" using assms(4,5) by simp
  then show ?thesis using byte_source.ReadFrame_frame [OF assms(2) _ body(2,3)] assms(6) body(1) by simp
qed

theorem frame_roundtrip_witness:
  "\<exists>r'. ReadFrame (\<lambda>body. if body = [110] then Some JNull else None) chunk_read [[1, 0], [0, 0, 110, 7]] = (Inr JNull, r') \<and>
     concat r' = [7]"
proof -
  have wrote: "WriteFrame (\<lambda>value. Some [110]) (chunk_write 2) [] JNull = (Written, [[1, 0], [0, 0], [110]])"
    by (simp add: WriteFrame_def WriteExact.simps chunk_write_def frame_header_def kMaxDword_def kMaxFrameBytes_def)
  show ?thesis
    by (rule frame_roundtrip [OF chunk_sink.byte_sink_axioms chunk_source.byte_source_axioms wrote,
        where bytes = "[1, 0, 0, 0, 110]"]) simp_all
qed

text \<open>C33: the answer to a client. The answer is that of the handler to the request in the frame received, or an error
  that says why there is no request, whatever the pieces the bytes come in. A text of 1 to 1048576 bytes is sent as
  exactly one frame, unless a write to the pipe fails or takes nothing, and then a proper beginning of that frame
  is sent and the host says so. For a longer text, and for a printer that throws, nothing is sent at all: the client of a
  request with such an answer gets no frame.\<close>

theorem served_client:
  assumes "byte_source (PipeRead server) content" and "byte_sink (PipeWrite server) sent"
    and "\<And>s n. sent (snd (PipeRead server s n)) = sent s" and "\<And>request s. sent (snd (handler request s)) = sent s"
    and "serve_client parse print server handler s = (outcome, s')"
  shows "\<exists>response t. (case frame_of parse (content s) of
       Inr request \<Rightarrow> response = fst (handler request t)
     | Inl error \<Rightarrow> response = ErrorResponse [] ''INVALID_REQUEST'' error (object [])) \<and>
    (case print response of
       None \<Rightarrow> outcome = PrinterThrew \<and> sent s' = sent s
     | Some body \<Rightarrow>
         if body = [] \<or> unat kMaxFrameBytes < length body
         then outcome = NotWritten ''Response frame size is outside the supported range'' \<and> sent s' = sent s
         else outcome = Written \<and> sent s' = sent s @ frame body \<or>
           outcome = NotWritten ''Could not write the complete response frame'' \<and>
           (\<exists>k < length (frame body). sent s' = sent s @ take k (frame body)) \<and>
           (\<exists>u part. part \<noteq> [] \<and> fst (PipeWrite server u part) \<in> {None, Some 0}))"
proof -
  have exact: "sent (snd (ReadExact (PipeRead server) s data left)) = sent s" for s data "left"
  proof (induction "left" arbitrary: s data rule: less_induct)
    case (less left)
    obtain r t where read: "PipeRead server s (min left kMaxDword) = (r, t)" by force
    then have "sent t = sent s" using assms(3) [of s "min left kMaxDword"] by simp
    then show ?case using read less.IH [of _ t]
      by (cases "r = None \<or> r = Some []") (auto simp: ReadExact.simps [of _ s])
  qed
  obtain request t where request: "ReadFrame parse (PipeRead server) s = (request, t)" by force
  have t: "sent t = sent s"
    using request exact [of s "[]" 4] exact [of _ "[]"]
    by (auto simp: ReadFrame_def Let_def split: prod.splits option.splits if_splits) (metis snd_conv)+
  have found: "request = frame_of parse (content s)"
    using byte_source.ReadFrame_frame_of [OF assms(1), of parse s] request by simp
  obtain response u where response: "(case request of Inr request \<Rightarrow> handler request t
      | Inl error \<Rightarrow> (ErrorResponse [] ''INVALID_REQUEST'' error (object []), t)) = (response, u)" by force
  have u: "sent u = sent s"
    using response assms(4) t by (auto split: sum.splits) (metis snd_conv)
  have "WriteFrame print (PipeWrite server) u response = (outcome, s')"
    using assms(5) request response by (simp add: serve_client_def)
  from byte_sink.WriteFrame_outcome [OF assms(2) this] show ?thesis
    using response found unfolding u
    by (intro exI [of _ response] exI [of _ t] conjI) (auto split: sum.splits)
qed

text \<open>A server on a pair of chunk pipes whose handler echoes the request.\<close>

type_synonym duplex = "byte list list \<times> byte list list"

definition duplex_server :: "duplex Server" where
  "duplex_server =
     \<lparr>Running = \<lambda>s. True, CreateNamedPipe = \<lambda>s. (True, s), ConnectNamedPipe = \<lambda>s. (True, s),
      PipeRead = \<lambda>s n. (case chunk_read (fst s) n of (r, incoming) \<Rightarrow> (r, (incoming, snd s))),
      PipeWrite = \<lambda>s bytes. (case chunk_write 3 (snd s) bytes of (r, outgoing) \<Rightarrow> (r, (fst s, outgoing))),
      FlushAndDisconnect = \<lambda>s. s, CloseHandle = \<lambda>s. s\<rparr>"

interpretation duplex_source: byte_source "PipeRead duplex_server" "\<lambda>s. concat (fst s)"
proof
  fix s s' :: duplex and n bytes
  assume "PipeRead duplex_server s n = (Some bytes, s')"
  then show "concat (fst s) = bytes @ concat (fst s') \<and> length bytes \<le> n"
    using chunk_source.takes [of "fst s" n bytes] by (auto simp: duplex_server_def split: prod.splits)
next
  fix s :: duplex and n :: nat
  assume "0 < n" "concat (fst s) \<noteq> []"
  then obtain bytes t where "chunk_read (fst s) n = (Some bytes, t)" "bytes \<noteq> []" using chunk_source.delivers by blast
  then show "\<exists>bytes s'. PipeRead duplex_server s n = (Some bytes, s') \<and> bytes \<noteq> []" by (simp add: duplex_server_def)
qed

interpretation duplex_sink: byte_sink "PipeWrite duplex_server" "\<lambda>s. concat (snd s)"
  by unfold_locales (auto simp: duplex_server_def chunk_write_def min_def)

theorem served_client_witness:
  "\<exists>s'. serve_client (\<lambda>body. if body = [110] then Some JNull else None) (\<lambda>response. if response = JNull then Some [110] else None)
     duplex_server Pair ([[1, 0], [0, 0, 110]], []) = (Written, s') \<and> concat (snd s') = frame [110]"
proof -
  let ?parse = "\<lambda>body. if body = [110] then Some JNull else None" and ?print = "\<lambda>response. if response = JNull then Some [110] else None"
  have run: "serve_client ?parse ?print duplex_server Pair ([[1, 0], [0, 0, 110]], []) = (Written, ([[]], [[1, 0, 0], [0], [110]]))"
    by (simp add: serve_client_def ReadFrame_def WriteFrame_def ReadExact.simps WriteExact.simps duplex_server_def chunk_read_def
      chunk_write_def header_size_def frame_header_def kMaxDword_def kMaxFrameBytes_def)
  have "frame_of ?parse (concat [[1, 0], [0, 0, 110]]) = Inr JNull"
    by (simp add: frame_of_def header_size_def kMaxFrameBytes_def)
  then have "concat [[1, 0, 0], [0], [110]] = frame [110]"
    using served_client [OF duplex_source.byte_source_axioms duplex_sink.byte_sink_axioms _ _ run]
    by (simp add: duplex_server_def chunk_read_def kMaxFrameBytes_def split: list.split prod.split)
  then show ?thesis using run by auto
qed

end
