(* ===== verification/Process_Discovery.thy ===== *)
theory Process_Discovery
  imports Memory_Reader Discovery
begin

text \<open>
  The discovery backend over the process itself (lua_host.cpp, \<open>ProcessDiscoveryBackend\<close>): scans run page by page
  through the private-memory scan, reads through the batch read, allocations through the region map. What it
  uses of the process is the record \<open>HostProcess\<close>; its own state is \<open>DiscoveryProcess\<close>. The locale \<open>host_process\<close>
  states what the process promises, and makes the backend a \<open>table_scanner\<close>; it is interpreted on the
  process with a page table.
\<close>

section \<open>The process and the state of the backend\<close>

text \<open>
  \<open>scan_env\<close> is the process as one page of a scan sees it, with the answers of the deadline during the
  page, and \<open>scanned\<close> the state when it ends; \<open>map_bytes\<close> copies bytes into a buffer of its own; \<open>deadline_passed\<close>
  asks the clock once, \<open>walk_deadline\<close> during the walk of an allocation, that ends in \<open>walked\<close>.
\<close>

record 's HostProcess =
  host_os :: "'s Os"
  scan_env :: "'s \<Rightarrow> ScanEnv"
  scanned :: "'s \<Rightarrow> 's"
  map_bytes :: "byte list \<Rightarrow> 's \<Rightarrow> Mapped option \<times> 's"
  deadline_passed :: "'s \<Rightarrow> bool \<times> 's"
  walk_deadline :: "'s \<Rightarrow> addr \<Rightarrow> bool"
  walked :: "'s \<Rightarrow> 's"
  certified_build :: "'s \<Rightarrow> bool"

record 's DiscoveryProcess =
  process_state :: 's
  smoke_timeout_progress :: bool
  smoke_timeout_scan_count :: nat

section \<open>Scans\<close>

definition scan_failed :: "string \<Rightarrow> ScanObservationResult" where
  "scan_failed c = \<lparr>observation_complete = False, observation_code = c, observation_matches = [],
     observation_counters = no_counters\<rparr>"

text \<open>The scans of the smoke test of timeouts: the third times out.\<close>

definition smoke_scan :: "nat \<Rightarrow> ScanObservationResult" where
  "smoke_scan k =
     (if k = 3
      then \<lparr>observation_complete = False, observation_code = ''OPERATION_TIMEOUT'', observation_matches = [],
        observation_counters = \<lparr>pages_scanned = 1, discovery_chunks_scanned = 1, discovery_scanned_bytes = 1024,
          discovery_candidate_windows = 1, capped_matches = 1\<rparr>\<rparr>
      else \<lparr>observation_complete = True, observation_code = [], observation_matches = [],
        observation_counters = \<lparr>pages_scanned = 1, discovery_chunks_scanned = 2, discovery_scanned_bytes = 2048,
          discovery_candidate_windows = 3, capped_matches = 4\<rparr>\<rparr>)"

definition add_progress :: "ScanResult \<Rightarrow> DiscoveryCounters \<Rightarrow> DiscoveryCounters" where
  "add_progress r counters = counters\<lparr>
     pages_scanned := Discovery.SaturatingAdd (pages_scanned counters) 1,
     discovery_chunks_scanned := Discovery.SaturatingAdd (discovery_chunks_scanned counters) (unat (chunks_scanned r)),
     discovery_scanned_bytes := Discovery.SaturatingAdd (discovery_scanned_bytes counters) (unat (progress_scanned_bytes r)),
     discovery_candidate_windows := Discovery.SaturatingAdd (discovery_candidate_windows counters) (unat (candidate_windows r))\<rparr>"

type_synonym 's accept = "ScanObservation \<Rightarrow> 's \<Rightarrow> bool \<times> 's"

text \<open>The matches of a page: the result when the scan ends among them (\<open>Inl\<close>), and otherwise the result so far.\<close>

fun collect_matches ::
  "nat \<Rightarrow> bool \<Rightarrow> 's accept option \<Rightarrow> ScanMatch list \<Rightarrow> ScanObservationResult \<Rightarrow> 's \<Rightarrow>
   (ScanObservationResult + ScanObservationResult) \<times> 's" where
  "collect_matches n stop_after_first accept [] output s = (Inr output, s)"
| "collect_matches n stop_after_first accept (m # ms) output s =
     (case match_allocation m of
        None \<Rightarrow> (Inl (scan_failed ''allocation_invalid''), s)
      | Some allocation \<Rightarrow>
          (case (ParseAddress (match_address m), ParseAddress (alloc_base allocation)) of
             (Some address, Some base) \<Rightarrow>
               let observation = \<lparr>observed_address = address, observed_allocation_base = base,
                     observed_allocation_size = alloc_size allocation\<rparr>;
                   (accepted, s) = (case accept of None \<Rightarrow> (True, s) | Some accept_match \<Rightarrow> accept_match observation s)
               in if \<not> accepted then collect_matches n stop_after_first accept ms output s
                  else let found = observation_matches output @ [observation];
                           output = output\<lparr>observation_matches := found, observation_counters :=
                             (observation_counters output)\<lparr>capped_matches := min (length found) n\<rparr>\<rparr>
                       in if stop_after_first then (Inl (output\<lparr>observation_complete := True\<rparr>), s)
                          else if n < length found then (Inl (output\<lparr>observation_code := ''too_many_matches''\<rparr>), s)
                          else collect_matches n stop_after_first accept ms output s
           | _ \<Rightarrow> (Inl (scan_failed ''allocation_invalid''), s)))"

definition scan_request :: "Mapped \<Rightarrow> Mapped \<Rightarrow> nat \<Rightarrow> string option \<Rightarrow> ScanRequest" where
  "scan_request pattern mask_view n cursor = \<lparr>scan_pattern = pattern, scan_mask = mask_view, max_matches = n,
     context_before = 0, context_after = 0, scan_cursor = cursor, include_allocation_metadata = True,
     scan_purpose = kFrtkInternal\<rparr>"

text \<open>The loop over the pages; the first argument counts those left of 4096.\<close>

fun scan_pages ::
  "nat \<Rightarrow> 's HostProcess \<Rightarrow> RowFingerprint \<Rightarrow> nat \<Rightarrow> bool \<Rightarrow> 's accept option \<Rightarrow> string option \<Rightarrow>
   ScanObservationResult \<Rightarrow> 's \<Rightarrow> ScanObservationResult \<times> 's" where
  "scan_pages 0 host fingerprint n stop_after_first accept cursor output s =
     (output\<lparr>observation_code := ''scan_limit''\<rparr>, s)"
| "scan_pages (Suc left) host fingerprint n stop_after_first accept cursor output s =
     (let (expired, s) = deadline_passed host s
      in if expired then (output\<lparr>observation_code := ''OPERATION_TIMEOUT''\<rparr>, s)
         else let (pattern, s) = map_bytes host (row_pattern fingerprint) s;
                  (mask_view, s) = map_bytes host (row_mask fingerprint) s
              in case (pattern, mask_view) of
                   (Some pattern, Some mask_view) \<Rightarrow>
                     let result = ScanPrivateMemory (scan_env host s) (scan_request pattern mask_view n cursor);
                         s = scanned host s;
                         output = output\<lparr>observation_counters := add_progress result (observation_counters output)\<rparr>
                     in if scan_code result \<noteq> [] then (output\<lparr>observation_code := scan_code result\<rparr>, s)
                        else (case collect_matches n stop_after_first accept (scan_matches result) output s of
                                (Inl ended, s) \<Rightarrow> (ended, s)
                              | (Inr output, s) \<Rightarrow>
                                  if scan_complete result then (output\<lparr>observation_complete := True\<rparr>, s)
                                  else if next_cursor result = None \<or> cursor \<noteq> None \<and> next_cursor result = cursor
                                  then (output\<lparr>observation_code := ''scan_incomplete''\<rparr>, s)
                                  else scan_pages left host fingerprint n stop_after_first accept (next_cursor result) output s)
                 | _ \<Rightarrow> (scan_failed ''scan_setup_failed'', s))"

text \<open>An operation on the process inside the state of the backend.\<close>

definition on_process :: "('s \<Rightarrow> 'a \<times> 's) \<Rightarrow> 's DiscoveryProcess \<Rightarrow> 'a \<times> 's DiscoveryProcess" where
  "on_process f d = (let (r, s) = f (process_state d) in (r, d\<lparr>process_state := s\<rparr>))"

text \<open>A filter runs with the backend: what it does to the process counts, it does not scan.\<close>

definition inside :: "'s DiscoveryProcess \<Rightarrow> 's DiscoveryProcess accept \<Rightarrow> 's accept" where
  "inside d accept observation s =
     (let (accepted, d) = accept observation (d\<lparr>process_state := s\<rparr>) in (accepted, process_state d))"

definition ScanImpl ::
  "'s HostProcess \<Rightarrow> RowFingerprint \<Rightarrow> nat \<Rightarrow> bool \<Rightarrow> 's DiscoveryProcess accept option \<Rightarrow> 's DiscoveryProcess \<Rightarrow>
   ScanObservationResult \<times> 's DiscoveryProcess" where
  "ScanImpl host fingerprint n stop_after_first accept d =
     (if smoke_timeout_progress d
      then let d = d\<lparr>smoke_timeout_scan_count := Suc (smoke_timeout_scan_count d)\<rparr>
           in (smoke_scan (smoke_timeout_scan_count d), d)
      else on_process (scan_pages 4096 host fingerprint n stop_after_first (map_option (inside d) accept) None
             (scan_failed [])) d)"

definition descriptor_fingerprint :: "nat \<Rightarrow> nat \<Rightarrow> RowFingerprint" where
  "descriptor_fingerprint table_id uid =
     (let pattern = [word_of_nat table_id, word_of_nat (table_id div 2 ^ 8), 0, 0, word_of_nat uid,
            word_of_nat (uid div 2 ^ 8), word_of_nat (uid div 2 ^ 16), word_of_nat (uid div 2 ^ 24)]
      in \<lparr>row_index = 0, row_pattern = pattern, row_mask = replicate (length pattern) 0xFF\<rparr>)"

definition ProcessDiscoveryBackend :: "'s HostProcess \<Rightarrow> 's DiscoveryProcess DiscoveryBackend" where
  "ProcessDiscoveryBackend host =
     \<lparr>ScanTableDescriptor = \<lambda>table_id uid n accept d.
        if \<not> certified_build host (process_state d)
        then (\<lparr>observation_complete = True, observation_code = ''DESCRIPTOR_SCAN_UNSUPPORTED'', observation_matches = [],
               observation_counters = no_counters\<rparr>, d)
        else ScanImpl host (descriptor_fingerprint table_id uid) n True (Some accept) d,
      Scan = \<lambda>fingerprint n d. ScanImpl host fingerprint n False None d,
      ReadBatch = \<lambda>requests. on_process (\<lambda>s.
        let (result, s) = ReadMemoryBatch (host_os host)
              (map (\<lambda>r. \<lparr>rr_address = FormatAddress (request_address r), rr_length = request_length r\<rparr>) requests) s
        in (if \<not> batch_ok result \<or> length (batch_ranges result) \<noteq> length requests then (False, [])
            else (True, map rd_bytes (batch_ranges result)), s)),
      ExtentExists = \<lambda>base n. on_process (\<lambda>s.
        (AllocationExists (VirtualQuery (host_os host) s) (walk_deadline host s) base n, walked host s)),
      Expired = on_process (deadline_passed host)\<rparr>"

lemma process_on_process [simp]: "process_state (snd (on_process f d)) = snd (f (process_state d))"
  by (simp add: on_process_def split: prod.split)

section \<open>What the process promises\<close>

text \<open>Its reads return memory, and nothing the backend does changes memory.\<close>

locale host_process =
  fixes host :: "'s HostProcess" and mem :: "'s \<Rightarrow> memory"
  assumes reads: "os_process (host_os host) mem"
    and scanned_mem: "mem (scanned host s) = mem s"
    and map_mem: "mem (snd (map_bytes host bytes s)) = mem s"
    and deadline_mem: "mem (snd (deadline_passed host s)) = mem s"
    and walked_mem: "mem (walked host s) = mem s"
begin

definition quiet :: "'s accept option \<Rightarrow> bool" where
  "quiet accept \<longleftrightarrow> (\<forall>f observation s. accept = Some f \<longrightarrow> mem (snd (f observation s)) = mem s)"

lemma collect_mem:
  "quiet accept \<Longrightarrow>
   mem (snd (collect_matches n stop accept ms out s)) = mem s"
proof (induction n stop accept ms out s rule: collect_matches.induct)
  case (2 n stop accept m ms out s)
  show ?case
  proof (cases "match_allocation m = None \<or> ParseAddress (match_address m) = None \<or>
      ParseAddress (alloc_base (the (match_allocation m))) = None")
    case True
    then show ?thesis by (auto split: option.split)
  next
    case False
    then obtain allocation address base where found: "match_allocation m = Some allocation"
      "ParseAddress (match_address m) = Some address" "ParseAddress (alloc_base allocation) = Some base" by auto
    let ?observation = "\<lparr>observed_address = address, observed_allocation_base = base, observed_allocation_size = alloc_size allocation\<rparr>"
    obtain accepted t where t: "(case accept of None \<Rightarrow> (True, s) | Some accept_match \<Rightarrow> accept_match ?observation s) = (accepted, t)"
      by force
    have same: "mem t = mem s" using t "2.prems" unfolding quiet_def by (cases accept) (simp, metis option.case(2) snd_conv)
    show ?thesis
      using "2.IH" same "2.prems" found t by (auto simp: Let_def)
  qed
qed simp

lemma scan_pages_mem:
  "quiet accept \<Longrightarrow>
   mem (snd (scan_pages k host fingerprint n stop accept cursor out s)) = mem s"
proof (induction k arbitrary: cursor out s)
  case (Suc k)
  note accept = Suc.prems
  obtain expired t where t: "deadline_passed host s = (expired, t)" by force
  obtain pattern u where u: "map_bytes host (row_pattern fingerprint) t = (pattern, u)" by force
  obtain mask_view v where v: "map_bytes host (row_mask fingerprint) u = (mask_view, v)" by force
  have same: "mem t = mem s" "mem u = mem s" "mem v = mem s" "mem (scanned host v) = mem s"
    using deadline_mem [of s] map_mem [of "row_pattern fingerprint" t] map_mem [of "row_mask fingerprint" u] t u v scanned_mem [of v]
    by simp_all
  show ?case
  proof (cases "expired \<or> pattern = None \<or> mask_view = None")
    case True
    then show ?thesis using t u v same by (auto split: option.split)
  next
    case False
    then obtain p q where pq: "pattern = Some p" "mask_view = Some q" by auto
    let ?r = "ScanPrivateMemory (scan_env host v) (scan_request p q n cursor)"
    let ?out = "out\<lparr>observation_counters := add_progress ?r (observation_counters out)\<rparr>"
    obtain res w where w: "collect_matches n stop accept (scan_matches ?r) ?out (scanned host v) = (res, w)" by force
    then have "mem w = mem s" using collect_mem [OF accept, of n stop "scan_matches ?r" ?out "scanned host v"] same by simp
    then show ?thesis
      using False t u v pq w same Suc.IH [OF accept] by (auto simp: Let_def split: sum.split)
  qed
qed simp

end

sublocale host_process \<subseteq> scanner: table_scanner "ProcessDiscoveryBackend host" "\<lambda>d. mem (process_state d)"
proof
  fix requests d out d'
  note batch = ReadMemoryBatch_correct [OF reads]
  show "mem (process_state (snd (ReadBatch (ProcessDiscoveryBackend host) requests d))) = mem (process_state d)"
    by (simp add: ProcessDiscoveryBackend_def split: prod.split)
      (use batch in \<open>fastforce split: if_splits\<close>)
  show "out = map (\<lambda>r. mem_read (mem (process_state d)) (request_address r) (request_length r)) requests"
    if "ReadBatch (ProcessDiscoveryBackend host) requests d = ((True, out), d')"
  proof -
    let ?ranges = "map (\<lambda>r. \<lparr>rr_address = FormatAddress (request_address r), rr_length = request_length r\<rparr>) requests"
    obtain r s' where run: "ReadMemoryBatch (host_os host) ?ranges (process_state d) = (r, s')" by force
    then have "batch_ok r" "out = map rd_bytes (batch_ranges r)"
      using that by (auto simp: ProcessDiscoveryBackend_def on_process_def split: if_splits)
    then have "list_all2 (\<lambda>rr rd. \<exists>a. ParseAddress (rr_address rr) = Some a \<and>
        rd_bytes rd = mem_read (mem (process_state d)) a (rr_length rr)) ?ranges (batch_ranges r)"
      using batch [OF run] by (auto elim: list_all2_mono)
    then show ?thesis
      unfolding \<open>out = _\<close> by (auto simp: list_all2_conv_all_nth intro!: nth_equalityI)
  qed
next
  fix a n d
  show "mem (process_state (snd (ExtentExists (ProcessDiscoveryBackend host) a n d))) = mem (process_state d)"
    by (simp add: ProcessDiscoveryBackend_def walked_mem)
next
  fix d
  show "mem (process_state (snd (Expired (ProcessDiscoveryBackend host) d))) = mem (process_state d)"
    using deadline_mem [of "process_state d"]
    by (simp add: ProcessDiscoveryBackend_def)
next
  fix fingerprint n d
  show "mem (process_state (snd (Scan (ProcessDiscoveryBackend host) fingerprint n d))) = mem (process_state d)"
    using scan_pages_mem [of None 4096 fingerprint n False None "scan_failed []" "process_state d", unfolded quiet_def]
    by (simp add: ProcessDiscoveryBackend_def ScanImpl_def Let_def)
next
  fix accept :: "'s DiscoveryProcess accept" and table_id uid n d
  assume accept: "\<And>observation s. mem (process_state (snd (accept observation s))) = mem (process_state s)"
  have "mem (snd (inside d accept observation s)) = mem s" for observation s
    using accept [of observation "d\<lparr>process_state := s\<rparr>"]
    by (cases "accept observation (d\<lparr>process_state := s\<rparr>)") (simp add: inside_def)
  then have "quiet (Some (inside d accept))" by (simp add: quiet_def)
  from scan_pages_mem [OF this, of 4096 "descriptor_fingerprint table_id uid" n True None "scan_failed []" "process_state d"]
  show "mem (process_state (snd (ScanTableDescriptor (ProcessDiscoveryBackend host) table_id uid n accept d))) = mem (process_state d)"
    by (simp add: ProcessDiscoveryBackend_def ScanImpl_def Let_def)
qed

section \<open>What a scan of the process finds\<close>

text \<open>
  A process that stays as it is while it is scanned: every page sees the same regions between the same
  bounds, and the buffers of a request are not private memory.
\<close>

locale scanned_process = host_process host mem
  for host :: "'s HostProcess" and mem :: "'s \<Rightarrow> memory" +
  fixes VQ :: "'s \<Rightarrow> query" and lo hi :: addr
  assumes env: "env_query (scan_env host s) = VQ s \<and> min_app (scan_env host s) = lo \<and> max_app (scan_env host s) = hi"
    and kept: "VQ (scanned host s) = VQ s \<and> VQ (snd (map_bytes host bytes s)) = VQ s \<and> VQ (snd (deadline_passed host s)) = VQ s"
    and world: "scan_world (scan_env host s) (mem s)"
    and mapped: "map_bytes host bytes s = (Some v, s') \<Longrightarrow> view_bytes v = bytes \<and> unscanned_view (VQ s) (view_address v) (length bytes)"
begin

definition addresses :: "ScanObservationResult \<Rightarrow> addr list" where
  "addresses out = map observed_address (observation_matches out)"

lemma collect_all:
  assumes "collect_matches n False None ms out s = (res, s')" and "\<not> observation_complete out"
    and "map match_address ms = map FormatAddress as" and "length (observation_matches out) \<le> n"
  shows "case res of
      Inl out' \<Rightarrow> \<not> observation_complete out'
    | Inr out' \<Rightarrow> s' = s \<and> addresses out' = addresses out @ as \<and> \<not> observation_complete out' \<and> length (observation_matches out') \<le> n"
  using assms
proof (induction ms arbitrary: out as)
  case (Cons m ms)
  then obtain a as' where as': "as = a # as'" "match_address m = FormatAddress a" "map match_address ms = map FormatAddress as'"
    by (cases as) auto
  show ?case
  proof (cases "match_allocation m = None \<or> ParseAddress (alloc_base (the (match_allocation m))) = None")
    case True
    then have "collect_matches n False None (m # ms) out s = (Inl (scan_failed ''allocation_invalid''), s)"
      using as'(2) by (auto split: option.split)
    then show ?thesis using Cons.prems(1) by (auto simp: scan_failed_def)
  next
    case False
    then obtain allocation base where found: "match_allocation m = Some allocation" "ParseAddress (alloc_base allocation) = Some base"
      by auto
    define observation where "observation = \<lparr>observed_address = a, observed_allocation_base = base, observed_allocation_size = alloc_size allocation\<rparr>"
    define out1 where "out1 = out\<lparr>observation_matches := observation_matches out @ [observation], observation_counters :=
        (observation_counters out)\<lparr>capped_matches := min (length (observation_matches out @ [observation])) n\<rparr>\<rparr>"
    have step: "collect_matches n False None (m # ms) out s =
        (if n < length (observation_matches out @ [observation]) then (Inl (out1\<lparr>observation_code := ''too_many_matches''\<rparr>), s)
         else collect_matches n False None ms out1 s)"
      by (simp add: found as' Let_def out1_def observation_def)
    show ?thesis
    proof (cases "n < length (observation_matches out @ [observation])")
      case True
      then show ?thesis using Cons.prems step by (auto simp: out1_def)
    next
      case fits: False
      have "addresses out1 = addresses out @ [a]" by (simp add: addresses_def out1_def observation_def)
      moreover have "\<not> observation_complete out1" "length (observation_matches out1) \<le> n"
        using Cons.prems(2) fits by (simp_all add: out1_def)
      ultimately show ?thesis
        using Cons.IH [of out1 as'] Cons.prems(1) step fits as' by (auto split: sum.splits)
    qed
  qed
qed (auto simp: addresses_def)

lemma scan_pages_found:
  assumes "scan_pages k host fingerprint n False None cursor out s = (r, s')" and "\<not> observation_complete out"
    and "length (observation_matches out) \<le> n"
    and "(case cursor of None \<Rightarrow> lo | Some t \<Rightarrow> the (ParseAddress t)) = c"
    and "addresses out = map word_of_nat (hits (VQ s) (mem s) (row_pattern fingerprint) (row_mask fingerprint) (unat lo) (unat c))"
    and "lo \<le> c" and "observation_complete r"
  shows "\<exists>limit > unat hi. addresses r =
      map word_of_nat (hits (VQ s) (mem s) (row_pattern fingerprint) (row_mask fingerprint) (unat lo) limit) \<and>
    length (observation_matches r) \<le> n"
  using assms
proof (induction k arbitrary: cursor out s c)
  case (Suc k)
  let ?p = "row_pattern fingerprint" and ?q = "row_mask fingerprint"
  obtain expired t where t: "deadline_passed host s = (expired, t)" by force
  obtain pattern u where u: "map_bytes host ?p t = (pattern, u)" by force
  obtain mask_view v where v: "map_bytes host ?q u = (mask_view, v)" by force
  have same: "mem t = mem s" "mem u = mem s" "mem v = mem s" "mem (scanned host v) = mem s"
    using deadline_mem [of s] map_mem [of ?p t] map_mem [of ?q u] t u v scanned_mem [of v] by simp_all
  have same_regions: "VQ t = VQ s" "VQ u = VQ s" "VQ v = VQ s" "VQ (scanned host v) = VQ s"
    using kept [where s=s] kept [where s=t and bytes="?p"] kept [where s=u and bytes="?q"] kept [where s=v] t u v by simp_all
  have "\<not> observation_complete (fst (scan_pages (Suc k) host fingerprint n False None cursor out s))"
    if "expired \<or> pattern = None \<or> mask_view = None"
    using that Suc.prems(2) t u v by (auto simp: scan_failed_def split: option.split)
  then have "\<not> (expired \<or> pattern = None \<or> mask_view = None)" using Suc.prems(1,7) by (metis fst_conv)
  then obtain p q where pq: "\<not> expired" "pattern = Some p" "mask_view = Some q" by auto
  define r1 where "r1 = ScanPrivateMemory (scan_env host v) (scan_request p q n cursor)"
  define out1 where "out1 = out\<lparr>observation_counters := add_progress r1 (observation_counters out)\<rparr>"
  have run: "(if scan_code r1 \<noteq> [] then (out1\<lparr>observation_code := scan_code r1\<rparr>, scanned host v)
      else (case collect_matches n False None (scan_matches r1) out1 (scanned host v) of
              (Inl ended, s) \<Rightarrow> (ended, s)
            | (Inr out, s) \<Rightarrow>
                if scan_complete r1 then (out\<lparr>observation_complete := True\<rparr>, s)
                else if next_cursor r1 = None \<or> cursor \<noteq> None \<and> next_cursor r1 = cursor
                then (out\<lparr>observation_code := ''scan_incomplete''\<rparr>, s)
                else scan_pages k host fingerprint n False None (next_cursor r1) out s)) = (r, s')"
    unfolding Suc.prems(1) [symmetric] r1_def out1_def by (simp add: t u v pq Let_def)
  have out1: "\<not> observation_complete out1" "addresses out1 = addresses out" "length (observation_matches out1) \<le> n"
    using Suc.prems by (simp_all add: out1_def addresses_def)
  then have ok: "scan_code r1 = []" using run Suc.prems(7) by (auto split: if_splits)
  have views: "view_bytes p = ?p" "view_bytes q = ?q" "unscanned_view (VQ s) (view_address p) (length ?p)"
    "unscanned_view (VQ s) (view_address q) (length ?q)"
    using mapped u v pq same_regions by fastforce+
  define request where "request = scan_request p q n cursor"
  have request: "view_bytes (scan_pattern request) = ?p" "view_bytes (scan_mask request) = ?q" "max_matches request = n"
    "request_views (env_query (scan_env host v)) request" "scan_cursor request = cursor"
    using views env [of v] same_regions by (simp_all add: request_def scan_request_def request_views_def)
  have "scan_start (scan_env host v) request \<noteq> None"
    using ok
    by (auto simp: r1_def request_def [symmetric] ScanPrivateMemory_def Let_def kInvalidRequest_def
        split: option.splits if_splits)
  then have start: "scan_start (scan_env host v) request = Some c"
    using Suc.prems(4) env [of v] request(5) by (cases cursor) (auto simp: scan_start_def split: option.splits if_splits)
  have page: "page_found (VQ s) (mem s) request (unat c) hi r1"
    using scan_world.ScanPrivateMemory_found [OF world request(4) start] ok env [of v] same same_regions by (simp add: r1_def request_def)
  then obtain limit where limit: "map match_address (scan_matches r1) =
        map (\<lambda>x. FormatAddress (word_of_nat x)) (hits (VQ s) (mem s) ?p ?q (unat c) limit)"
      "if scan_complete r1 then next_cursor r1 = None \<and> unat hi < limit
       else next_cursor r1 = Some (FormatAddress (word_of_nat limit)) \<and> unat c \<le> limit \<and> limit \<le> unat hi"
    unfolding page_found_def request by blast
  obtain res w where collect: "collect_matches n False None (scan_matches r1) out1 (scanned host v) = (res, w)" by force
  have all: "case res of
      Inl out' \<Rightarrow> \<not> observation_complete out'
    | Inr out' \<Rightarrow> w = scanned host v \<and> addresses out' = addresses out1 @ map word_of_nat (hits (VQ s) (mem s) ?p ?q (unat c) limit) \<and>
        \<not> observation_complete out' \<and> length (observation_matches out') \<le> n"
    by (rule collect_all [OF collect out1(1) _ out1(3)]) (simp add: limit(1))
  show ?case
  proof (cases res)
    case (Inl ended)
    then show ?thesis using run ok collect all Suc.prems(7) by simp
  next
    case (Inr out2)
    have found: "addresses out2 = map word_of_nat (hits (VQ s) (mem s) ?p ?q (unat lo) limit)" if "unat c \<le> limit"
      using all Inr out1(2) Suc.prems(5,6) hits_append [of "unat lo" "unat c" limit "VQ s" "mem s" ?p ?q] that
      by (simp add: word_le_nat_alt)
    show ?thesis
    proof (cases "scan_complete r1")
      case True
      then have beyond: "unat hi < limit" using limit(2) by simp
      have "unat c \<le> limit \<or> c = lo"
        using start Suc.prems(4) env [of v] request(5) beyond
        by (auto simp: scan_start_def word_le_nat_alt word_less_nat_alt split: option.splits if_splits)
      then have "addresses out2 = map word_of_nat (hits (VQ s) (mem s) ?p ?q (unat lo) limit)"
      proof
        assume "c = lo"
        then show ?thesis using all Inr out1(2) Suc.prems(5) by (simp add: hits_def)
      qed (rule found)
      moreover have "r = out2\<lparr>observation_complete := True\<rparr>" using run ok collect Inr all True by simp
      ultimately show ?thesis using beyond all Inr by (auto simp: addresses_def)
    next
      case False
      then have next_page: "next_cursor r1 = Some (FormatAddress (word_of_nat limit))" "unat c \<le> limit" "limit \<le> unat hi"
        using limit(2) by simp_all
      have unat: "unat (word_of_nat limit :: addr) = limit"
        using next_page(3) unat_lt_2p64 [of hi] by (simp add: unat_of_nat)
      have again: "scan_pages k host fingerprint n False None (next_cursor r1) out2 (scanned host v) = (r, s')"
        using run ok collect Inr all False Suc.prems(7) by (auto split: if_splits)
      show ?thesis
        using Suc.IH [OF again, of "word_of_nat limit"] all Inr found same same_regions unat next_page Suc.prems(6,7)
        by (simp add: word_le_nat_alt)
    qed
  qed
qed (auto simp: scan_failed_def)


lemma Scan_found:
  assumes "Scan (ProcessDiscoveryBackend host) fingerprint n d = (r, d')" and "\<not> smoke_timeout_progress d" and "observation_complete r"
  shows "\<exists>limit > unat hi. map observed_address (observation_matches r) =
      map word_of_nat (hits (VQ (process_state d)) (mem (process_state d)) (row_pattern fingerprint) (row_mask fingerprint)
        (unat lo) limit) \<and> length (observation_matches r) \<le> n"
proof -
  obtain s' where run: "scan_pages 4096 host fingerprint n False None None (scan_failed []) (process_state d) = (r, s')"
    using assms(1,2) by (auto simp: ProcessDiscoveryBackend_def ScanImpl_def on_process_def split: prod.splits)
  have "addresses (scan_failed []) = []" by (simp add: addresses_def scan_failed_def)
  then show ?thesis
    using scan_pages_found [OF run, of lo] assms(3) by (simp add: scan_failed_def hits_def addresses_def)
qed

end

section \<open>The process with a page table\<close>

text \<open>The clock answers \<open>expired\<close>, buffers are mapped where \<open>pick\<close> proposes unless that is private memory.\<close>

definition windows_host ::
  "addr \<Rightarrow> addr \<Rightarrow> (nat \<Rightarrow> nat \<Rightarrow> addr option) \<Rightarrow> bool \<Rightarrow> bool \<Rightarrow> process HostProcess" where
  "windows_host lo hi pick expired certified =
     (let env = (\<lambda>s. process_env s lo hi pick (\<lambda>_. expired))
      in \<lparr>host_os = windows, scan_env = env, scanned = (\<lambda>s. s),
          map_bytes = (\<lambda>bytes s. (map_option (\<lambda>v. \<lparr>view_address = v, view_bytes = bytes\<rparr>) (env_alloc (env s) 0 (length bytes)), s)),
          deadline_passed = (\<lambda>s. (expired, s)), walk_deadline = (\<lambda>s a. expired), walked = (\<lambda>s. s),
          certified_build = (\<lambda>s. certified)\<rparr>)"

interpretation process_host: scanned_process "windows_host lo hi pick expired certified" ram "\<lambda>s. space_query (pages s)" lo hi
  for lo hi pick expired certified
proof (intro scanned_process.intro host_process.intro scanned_process_axioms.intro)
  show "os_process (host_os (windows_host lo hi pick expired certified)) ram"
    using win.os_process_axioms by (simp add: windows_host_def Let_def)
  show "scan_world (scan_env (windows_host lo hi pick expired certified) s) (ram s)" for s
    using process_scan.scan_world_axioms by (simp add: windows_host_def Let_def)
  show "view_bytes v = bytes \<and> unscanned_view (space_query (pages s)) (view_address v) (length bytes)"
    if "map_bytes (windows_host lo hi pick expired certified) bytes s = (Some v, s')" for bytes s v s'
    using that process_scan.views [of s lo hi pick "\<lambda>_. expired" 0 "length bytes"]
    by (auto simp: windows_host_def Let_def process_env_def)
qed (simp_all add: windows_host_def Let_def process_env_def)

text \<open>A scan of the process with one region that finds nothing.\<close>

definition quiet_fingerprint :: RowFingerprint where
  "quiet_fingerprint = \<lparr>row_index = 0, row_pattern = [9, 9, 9, 9], row_mask = [255, 255, 255, 255]\<rparr>"

definition quiet_request :: ScanRequest where
  "quiet_request = scan_request \<lparr>view_address = 0x20000000, view_bytes = [9, 9, 9, 9]\<rparr>
     \<lparr>view_address = 0x20000000, view_bytes = [255, 255, 255, 255]\<rparr> 4 None"

lemma quiet_scan:
  "scan_code (ScanPrivateMemory tiny_env quiet_request) = [] \<and> scan_complete (ScanPrivateMemory tiny_env quiet_request) \<and>
   scan_matches (ScanPrivateMemory tiny_env quiet_request) = []"
proof -
  let ?p = "[9, 9, 9, 9] :: byte list" and ?q = "[255, 255, 255, 255] :: byte list"
  have view: "view_bytes (scan_pattern quiet_request) = ?p" "view_bytes (scan_mask quiet_request) = ?q"
    by (simp_all add: quiet_request_def scan_request_def)
  define matcher where "matcher = the (CompileMaskedPattern ?p ?q)"
  have comp: "CompileMaskedPattern ?p ?q = Some matcher"
    unfolding matcher_def by (simp add: CompileMaskedPattern_def Let_def)
  define buf where "buf = mem_read (ram tiny_process) 0x10000 32"
  have lbuf: "length buf = 32" by (simp add: buf_def)
  have byte: "buf ! i AND 255 \<noteq> 9" if "i < 32" for i
    using that by (simp add: buf_def mem_read_nth tiny_process_def)
  have "\<not> masked_match ?p ?q buf k" if "k < 29" for k
    using that byte [of k] by (auto simp: masked_match_def upt_rec)
  then have "find (masked_match ?p ?q buf) [0..<29] = None" unfolding find_upt_None by simp
  then have find: "fst (FindNext matcher buf 0 29 None) = None"
    using FindNext_find [OF comp, where bytes=buf and e=29 and k=0] lbuf by simp
  have e: "min 29 kCancellationCandidateWindow = 29" by (simp add: kCancellationCandidateWindow_def)
  have loop: "window_loop tiny_env quiet_request matcher tiny_region 0x10000 0x10020 buf 28 0 st = Inr (count_window (tick st))" for st
    by (simp add: window_loop.simps [of _ _ _ _ _ _ _ _ 0] window_loop.simps [of _ _ _ _ _ _ _ _ 29] window_step_def Let_def
        tiny_env_simps e find)
  define st0 where "st0 = \<lparr>st_result = empty_result, st_extents = Map.empty, st_calls = 0, st_allocs = 1\<rparr>"
  define st2 where "st2 = count_window (tick (count_chunk 32 (tick (tick st0))))"
  have u: "scan_unique tiny_env quiet_request matcher tiny_region 0x10020 0x10000 32 (tick st0) = Inr st2"
    using loop tiny_read by (simp add: scan_unique_def Let_def view tiny_env_simps lbuf st2_def flip: buf_def)
  have size: "chunk_size 0x10020 0x10000 (tick st0) = 32"
    by (simp add: chunk_size_def kScanChunkBytes_def kMaxScanPageBytes_def tick_def st0_def empty_result_def)
  have "kMaxScanPageBytes - scanned_bytes (st_result (tick st0)) \<noteq> 0"
    by (simp add: kMaxScanPageBytes_def tick_def st0_def empty_result_def)
  then have chunk: "scan_chunk tiny_env quiet_request matcher tiny_region 0x10020 0x10000 (tick st0) =
      Inl ((st_result (add_scanned 32 st2))\<lparr>scan_complete := True\<rparr>)"
    by (simp add: scan_chunk_def size u Let_def finish_chunk_def ClassifyScanPageBoundary_def tiny_env_simps)
  have elig: "IsEligiblePrivateReadableRegion tiny_region"
    by (simp add: IsEligiblePrivateReadableRegion_def tiny_region_def sample_region_def IsReadableProtection_def win_constants)
  have region: "BaseAddress tiny_region = 0x10000" "RegionSize tiny_region = 0x20"
    by (simp_all add: tiny_region_def sample_region_def)
  have step: "scan_step tiny_env quiet_request matcher 0x20000000 be 0x10000 st0 =
      Inl ((st_result (add_scanned 32 st2))\<lparr>scan_complete := True\<rparr>)" for be
    using chunk by (simp add: scan_step_def Let_def tiny_env_simps region elig AddOverflows_def)
  have "ScanPrivateMemory tiny_env quiet_request = (st_result (add_scanned 32 st2))\<lparr>scan_complete := True\<rparr>"
    using comp step
    by (simp add: ScanPrivateMemory_def Let_def view, simp add: quiet_request_def scan_request_def scan_start_def tiny_env_simps
        kMinFrtkPatternBytes_def kMaxPatternBytes_def kMaxMatches_def kMaxContextBytes_def tiny_alloc kScanChunkBytes_def
        scan_loop.simps [of tiny_env] st0_def)
  then show ?thesis
    by (simp add: add_scanned_def st2_def st0_def count_window_def count_chunk_def tick_def empty_result_def)
qed

text \<open>The host whose scans see \<open>tiny_env\<close>, and its backend.\<close>

definition tiny_host :: "process HostProcess" where
  "tiny_host = windows_host 0x10000 0x1001F (\<lambda>k n. Some 0x20000000) False True"

definition tiny_backend_state :: "process DiscoveryProcess" where
  "tiny_backend_state = \<lparr>process_state = tiny_process, smoke_timeout_progress = False, smoke_timeout_scan_count = 0\<rparr>"

lemma tiny_host_simps:
  "scan_env tiny_host tiny_process = tiny_env" "deadline_passed tiny_host s = (False, s)" "scanned tiny_host s = s"
  "length bytes < 2 ^ 32 \<Longrightarrow>
   map_bytes tiny_host bytes tiny_process = (Some \<lparr>view_address = 0x20000000, view_bytes = bytes\<rparr>, tiny_process)"
  using tiny_alloc [of "length bytes" 0] by (simp_all add: tiny_host_def windows_host_def Let_def tiny_env_def)

lemma tiny_complete:
  "observation_complete (fst (Scan (ProcessDiscoveryBackend tiny_host) quiet_fingerprint 4 tiny_backend_state))"
proof -
  have "observation_complete (fst (scan_pages (Suc k) tiny_host quiet_fingerprint 4 False None None (scan_failed []) tiny_process))" for k
    using quiet_scan by (simp add: tiny_host_simps quiet_fingerprint_def Let_def flip: quiet_request_def)
  from this [of 4095] show ?thesis
    by (cases "scan_pages 4096 tiny_host quiet_fingerprint 4 False None None (scan_failed []) tiny_process")
      (simp add: ProcessDiscoveryBackend_def ScanImpl_def on_process_def tiny_backend_state_def)
qed

section \<open>Properties\<close>

text \<open>C32: a complete scan of the process is exact. When the backend reports a scan as complete, the addresses it observed
  are, in order and without repetition, exactly those from the first application address to the last at which the
  whole fingerprint lies in committed, private, readable memory and matches: no page border loses one or reports
  one twice, and there are no more than asked for.\<close>

theorem process_scan_exact:
  assumes "scanned_process host mem VQ lo hi" and "\<not> smoke_timeout_progress d"
    and "Scan (ProcessDiscoveryBackend host) fingerprint n d = (r, d')" and "observation_complete r"
  shows "\<exists>limit > unat hi. map observed_address (observation_matches r) =
      map word_of_nat (hits (VQ (process_state d)) (mem (process_state d)) (row_pattern fingerprint) (row_mask fingerprint)
        (unat lo) limit) \<and> length (observation_matches r) \<le> n"
  by (rule scanned_process.Scan_found [OF assms(1,3,2,4)])

theorem process_scan_exact_witness:
  "\<exists>limit > 0x1001F. map observed_address
       (observation_matches (fst (Scan (ProcessDiscoveryBackend tiny_host) quiet_fingerprint 4 tiny_backend_state))) =
     map word_of_nat (hits (space_query (pages tiny_process)) (ram tiny_process) [9, 9, 9, 9] [255, 255, 255, 255] 0x10000 limit)"
proof -
  obtain r d' where run: "Scan (ProcessDiscoveryBackend tiny_host) quiet_fingerprint 4 tiny_backend_state = (r, d')" by force
  have "scanned_process tiny_host ram (\<lambda>s. space_query (pages s)) 0x10000 0x1001F"
    unfolding tiny_host_def by (rule process_host.scanned_process_axioms)
  from process_scan_exact [OF this _ run] tiny_complete run show ?thesis
    by (auto simp: tiny_backend_state_def quiet_fingerprint_def)
qed

end
