(* ===== verification/Host_Events.thy ===== *)
theory Host_Events
  imports Protocol
begin

text \<open>
  The events and the log of the host (lua_host.cpp): a ring of the last 1024 events, numbered from 1 by a cursor
  that is never reused, and a ring of the last 512 log messages, each of which is an event too. A client polls
  the events with the cursor of the last one it has seen. The log file is left out; the clock is an argument.
\<close>

record HostEvent =
  event_cursor :: u64
  event_timestamp :: "64 word"
  event_type :: string
  event_payload :: Json

record LogEntry =
  log_timestamp :: "64 word"
  log_message :: string

text \<open>The state under \<open>g_event_mutex\<close>: \<open>g_events\<close>, \<open>g_logs\<close> and \<open>g_next_event_cursor\<close>.\<close>

record EventLog =
  log_events :: "HostEvent list"
  log_entries :: "LogEntry list"
  next_event_cursor :: u64

definition kMaxEvents :: nat where "kMaxEvents = 1024"
definition kMaxLogs :: nat where "kMaxLogs = 512"

definition empty_log :: EventLog where
  "empty_log = \<lparr>log_events = [], log_entries = [], next_event_cursor = 1\<rparr>"

section \<open>Recording\<close>

fun pop_to :: "nat \<Rightarrow> 'a list \<Rightarrow> 'a list" where
  "pop_to n [] = []"
| "pop_to n (x # xs) = (if n < Suc (length xs) then pop_to n xs else x # xs)"

definition AppendEvent :: "string \<Rightarrow> Json \<Rightarrow> 64 word \<Rightarrow> EventLog \<Rightarrow> EventLog" where
  "AppendEvent type payload timestamp log = log\<lparr>
     log_events := pop_to kMaxEvents (log_events log @
       [\<lparr>event_cursor = next_event_cursor log, event_timestamp = timestamp, event_type = type, event_payload = payload\<rparr>]),
     next_event_cursor := next_event_cursor log + 1\<rparr>"

definition Log :: "string \<Rightarrow> 64 word \<Rightarrow> EventLog \<Rightarrow> EventLog" where
  "Log message timestamp log =
     (let log = log\<lparr>log_entries := pop_to kMaxLogs (log_entries log @ [\<lparr>log_timestamp = timestamp, log_message = message\<rparr>])\<rparr>
      in AppendEvent ''log'' (object [(''message'', JString message)]) timestamp log)"

section \<open>Results of the requests logs and events\<close>

definition log_json :: "LogEntry \<Rightarrow> Json" where
  "log_json entry = object [(''timestampMs'', JInteger (log_timestamp entry)), (''message'', JString (log_message entry))]"

definition LogsResult :: "nat \<Rightarrow> EventLog \<Rightarrow> Json" where
  "LogsResult limit log =
     (let begin_index = if limit < length (log_entries log) then length (log_entries log) - limit else 0
      in object [(''logs'', JArray (map (\<lambda>index. log_json (log_entries log ! index)) [begin_index..<length (log_entries log)]))])"

definition event_json :: "HostEvent \<Rightarrow> Json" where
  "event_json event = object [(''cursor'', JUnsigned (event_cursor event)), (''type'', JString (event_type event)),
     (''timestampMs'', JInteger (event_timestamp event)), (''payload'', event_payload event)]"

fun collect_events :: "u64 \<Rightarrow> nat \<Rightarrow> HostEvent list \<Rightarrow> Json list \<Rightarrow> u64 \<Rightarrow> Json list \<times> u64" where
  "collect_events after limit [] events next_cursor = (events, next_cursor)"
| "collect_events after limit (event # rest) events next_cursor =
     (if event_cursor event \<le> after then collect_events after limit rest events next_cursor
      else let events = events @ [event_json event]; next_cursor = event_cursor event
           in if limit \<le> length events then (events, next_cursor)
              else collect_events after limit rest events next_cursor)"

definition EventsResult :: "u64 \<Rightarrow> nat \<Rightarrow> EventLog \<Rightarrow> Json" where
  "EventsResult after limit log =
     (let (events, next_cursor) = collect_events after limit (log_events log) [] after
      in object [(''events'', JArray events), (''nextCursor'', JUnsigned next_cursor)])"

section \<open>The rings hold the end of the history\<close>

text \<open>A history of the host, as the calls of \<open>AppendEvent\<close> and \<open>Log\<close> in their order.\<close>

datatype Recorded = Emitted string Json "64 word" | Logged string "64 word"

fun record_one :: "Recorded \<Rightarrow> EventLog \<Rightarrow> EventLog" where
  "record_one (Emitted type payload timestamp) = AppendEvent type payload timestamp"
| "record_one (Logged message timestamp) = Log message timestamp"

definition recorded :: "Recorded list \<Rightarrow> EventLog" where
  "recorded history = fold record_one history empty_log"

fun event_of :: "nat \<Rightarrow> Recorded \<Rightarrow> HostEvent" where
  "event_of n (Emitted type payload timestamp) = \<lparr>event_cursor = word_of_nat n, event_timestamp = timestamp,
     event_type = type, event_payload = payload\<rparr>"
| "event_of n (Logged message timestamp) = \<lparr>event_cursor = word_of_nat n, event_timestamp = timestamp,
     event_type = ''log'', event_payload = object [(''message'', JString message)]\<rparr>"

definition all_events :: "Recorded list \<Rightarrow> HostEvent list" where
  "all_events history = map (\<lambda>n. event_of (Suc n) (history ! n)) [0..<length history]"

fun log_of :: "Recorded \<Rightarrow> LogEntry list" where
  "log_of (Emitted _ _ _) = []"
| "log_of (Logged message timestamp) = [\<lparr>log_timestamp = timestamp, log_message = message\<rparr>]"

definition all_logs :: "Recorded list \<Rightarrow> LogEntry list" where
  "all_logs history = concat (map log_of history)"

definition last_of :: "nat \<Rightarrow> 'a list \<Rightarrow> 'a list" where
  "last_of n xs = drop (length xs - n) xs"

lemma length_all_events [simp]: "length (all_events history) = length history"
  by (simp add: all_events_def)

lemma pop_to_last_of: "pop_to n xs = last_of n xs"
proof (induction xs)
  case (Cons x xs)
  then show ?case
    by (cases "n < Suc (length xs)") (simp_all add: last_of_def Suc_diff_le)
qed (simp add: last_of_def)

lemma last_of_snoc: "last_of n (last_of n xs @ ys) = last_of n (xs @ ys)"
proof (cases "length xs \<le> n")
  case False
  then have "length (drop (length xs - n) xs) = n" by simp
  moreover from False have "length ys + (length xs - n) = length xs + length ys - n" by simp
  ultimately show ?thesis by (simp add: last_of_def)
qed (simp add: last_of_def)

lemma all_events_snoc: "all_events (history @ [r]) = all_events history @ [event_of (Suc (length history)) r]"
  by (simp add: all_events_def nth_append)

lemma recorded_snoc: "recorded (history @ [r]) = record_one r (recorded history)"
  by (simp add: recorded_def)

lemma recorded_rings:
  "log_events (recorded history) = last_of kMaxEvents (all_events history) \<and>
   log_entries (recorded history) = last_of kMaxLogs (all_logs history) \<and>
   next_event_cursor (recorded history) = word_of_nat (Suc (length history))"
proof (induction history rule: rev_induct)
  case Nil
  then show ?case by (simp add: recorded_def empty_log_def last_of_def all_events_def all_logs_def)
next
  case (snoc r history)
  have event: "event_of (Suc (length history)) r = \<lparr>event_cursor = next_event_cursor (recorded history),
      event_timestamp = event_timestamp (event_of 0 r), event_type = event_type (event_of 0 r),
      event_payload = event_payload (event_of 0 r)\<rparr>"
    using snoc.IH by (cases r) simp_all
  then show ?case
    using snoc.IH event
    by (cases r) (simp_all add: recorded_snoc all_events_snoc AppendEvent_def Log_def Let_def pop_to_last_of
        last_of_snoc all_logs_def)
qed


section \<open>Polling\<close>

definition unread :: "u64 \<Rightarrow> HostEvent \<Rightarrow> bool" where
  "unread after event \<longleftrightarrow> \<not> event_cursor event \<le> after"

lemma collect_events_take:
  "length out < limit \<Longrightarrow>
   collect_events after limit events out c =
     (let sent = take (limit - length out) (filter (unread after) events)
      in (out @ map event_json sent, if sent = [] then c else event_cursor (last sent)))"
proof (induction after limit events out c rule: collect_events.induct)
  case (2 after limit event rest out c)
  show ?case
  proof (cases "unread after event")
    case False
    then show ?thesis using 2 by (simp add: unread_def)
  next
    case new: True
    show ?thesis
    proof (cases "limit \<le> Suc (length out)")
      case True
      then have "limit - length out = 1" using "2.prems" by simp
      then show ?thesis using new True by (simp add: unread_def Let_def)
    next
      case False
      then obtain k where k: "limit - length out = Suc k" "limit - Suc (length out) = k" by (metis Suc_diff_Suc "2.prems")
      moreover from False k have "take k xs = [] \<longleftrightarrow> xs = []" for xs :: "HostEvent list" by auto
      ultimately show ?thesis using 2 new False by (auto simp: unread_def Let_def)
    qed
  qed
qed simp

text \<open>The cursors of a history shorter than \<open>2 ^ 64\<close> count its events.\<close>

lemma event_cursor_of [simp]: "event_cursor (event_of n r) = word_of_nat n"
  by (cases r) simp_all

lemma filter_upt: "filter (\<lambda>n. k \<le> n) [i..<j] = [max k i..<j]"
proof (induction j)
  case (Suc j)
  then show ?case by (cases "i \<le> j"; cases "k \<le> j") (auto simp: max_def)
qed simp

lemma unread_rest:
  assumes "length history < 2 ^ 64" and "after < 2 ^ 64"
  shows "filter (unread (word_of_nat after)) (log_events (recorded history)) =
         drop (max after (length history - kMaxEvents)) (all_events history)"
proof -
  let ?N = "length history"
  have "unread (word_of_nat after) (event_of (Suc n) (history ! n)) \<longleftrightarrow> after \<le> n" if "n < ?N" for n
    using that assms by (simp add: unread_def word_le_nat_alt unat_of_nat_u64 del: of_nat_Suc) arith
  then have "filter (unread (word_of_nat after)) (map (\<lambda>n. event_of (Suc n) (history ! n)) [k..<?N]) =
      map (\<lambda>n. event_of (Suc n) (history ! n)) (filter (\<lambda>n. after \<le> n) [k..<?N])" for k
    by (subst filter_map) (auto intro!: arg_cong [where f = "map _"] filter_cong)
  then show ?thesis
    by (simp add: recorded_rings last_of_def all_events_def drop_map filter_upt)
qed

definition events_sent :: "nat \<Rightarrow> nat \<Rightarrow> Recorded list \<Rightarrow> HostEvent list" where
  "events_sent after limit history = take limit (drop (max after (length history - kMaxEvents)) (all_events history))"

lemma EventsResult_sent:
  assumes "length history < 2 ^ 64" and "after < 2 ^ 64" and "0 < limit"
  shows "EventsResult (word_of_nat after) limit (recorded history) =
     object [(''events'', JArray (map event_json (events_sent after limit history))),
       (''nextCursor'', JUnsigned (word_of_nat (if events_sent after limit history = [] then after
          else max after (length history - kMaxEvents) + length (events_sent after limit history))))]"
proof -
  let ?first = "max after (length history - kMaxEvents)"
  let ?sent = "events_sent after limit history"
  have "collect_events (word_of_nat after) limit (log_events (recorded history)) [] (word_of_nat after) =
      (map event_json ?sent, if ?sent = [] then word_of_nat after else event_cursor (last ?sent))"
    using assms by (simp add: collect_events_take unread_rest events_sent_def Let_def)
  moreover have "event_cursor (last ?sent) = word_of_nat (?first + length ?sent)" if "?sent \<noteq> []"
  proof -
    have "last ?sent = all_events history ! (?first + (length ?sent - 1))"
      using that by (simp add: last_conv_nth events_sent_def) (auto simp: min_def)
    moreover have "?first + (length ?sent - 1) < length history"
      using that by (auto simp: events_sent_def min_def)
    ultimately have "event_cursor (last ?sent) = word_of_nat (Suc (?first + (length ?sent - 1)))"
      by (simp add: all_events_def del: of_nat_add of_nat_Suc)
    also have "Suc (?first + (length ?sent - 1)) = ?first + length ?sent" using that by (cases ?sent) simp_all
    finally show ?thesis .
  qed
  ultimately show ?thesis by (simp add: EventsResult_def)
qed

text \<open>A client that polls with the cursor it was given last: what it asks and what it has received. Each element
  is what the host recorded since the last poll.\<close>

fun follow :: "nat \<Rightarrow> nat \<Rightarrow> Recorded list \<Rightarrow> Recorded list list \<Rightarrow> Json list" where
  "follow limit after history [] = []"
| "follow limit after history (new # rest) =
     (let history = history @ new; reply = EventsResult (word_of_nat after) limit (recorded history)
      in case (json_at reply ''events'', json_at reply ''nextCursor'') of
           (Inr (JArray events), Inr (JUnsigned next_cursor)) \<Rightarrow> events @ follow limit (unat next_cursor) history rest
         | _ \<Rightarrow> [])"

text \<open>No poll finds the client more than a ring behind, and the last one takes what is left.\<close>

fun keeps_up :: "nat \<Rightarrow> nat \<Rightarrow> nat \<Rightarrow> nat list \<Rightarrow> bool" where
  "keeps_up limit after n [] \<longleftrightarrow> after = n"
| "keeps_up limit after n (new # rest) \<longleftrightarrow>
     n + new \<le> after + kMaxEvents \<and> keeps_up limit (min (after + limit) (n + new)) (n + new) rest"

lemma all_events_append: "take (length history) (all_events (history @ new)) = all_events history"
  by (simp add: all_events_def take_map nth_append)

lemma follow_step:
  assumes n: "length history < 2 ^ 64" and after: "after \<le> length history" and limit: "0 < limit"
    and near: "length history \<le> after + kMaxEvents"
  shows "json_at (EventsResult (word_of_nat after) limit (recorded history)) ''events'' =
           Inr (JArray (map event_json (take limit (drop after (all_events history)))))"
    and "json_at (EventsResult (word_of_nat after) limit (recorded history)) ''nextCursor'' =
           Inr (JUnsigned (word_of_nat (min (after + limit) (length history))))"
proof -
  have sent: "events_sent after limit history = take limit (drop after (all_events history))"
    using near by (simp add: events_sent_def)
  have first: "max after (length history - kMaxEvents) = after" using near by simp
  have "after < 2 ^ 64" using n after by simp
  note reply = EventsResult_sent [OF n this limit]
  show "json_at (EventsResult (word_of_nat after) limit (recorded history)) ''events'' =
      Inr (JArray (map event_json (take limit (drop after (all_events history)))))"
    unfolding reply json_at_object by (simp add: sent)
  have "(if events_sent after limit history = [] then after
       else max after (length history - kMaxEvents) + length (events_sent after limit history)) =
      min (after + limit) (length history)"
    unfolding sent first using after limit by auto
  then show "json_at (EventsResult (word_of_nat after) limit (recorded history)) ''nextCursor'' =
      Inr (JUnsigned (word_of_nat (min (after + limit) (length history))))"
    unfolding reply json_at_object by simp
qed

lemma follow_all:
  assumes "0 < limit" and "after \<le> length history" and "length (history @ concat polls) < 2 ^ 64"
    and "keeps_up limit after (length history) (map length polls)"
  shows "follow limit after history polls = map event_json (drop after (all_events (history @ concat polls)))"
  using assms(2-)
proof (induction polls arbitrary: after history)
  case (Cons new rest)
  let ?h = "history @ new"
  let ?next = "min (after + limit) (length ?h)"
  let ?all = "all_events (?h @ concat rest)"
  have near: "length ?h < 2 ^ 64" "after \<le> length ?h" "length ?h \<le> after + kMaxEvents" using Cons.prems by simp_all
  note step = follow_step [OF near(1,2) assms(1) near(3)]
  have "follow limit ?next ?h rest = map event_json (drop ?next ?all)"
    using Cons.IH [of ?next ?h] Cons.prems by simp
  moreover have "unat (word_of_nat ?next :: u64) = ?next" using near(1) by (simp add: unat_of_nat_u64)
  ultimately have "follow limit after history (new # rest) =
      map event_json (take limit (drop after (all_events ?h)) @ drop ?next ?all)"
    using step by (simp add: Let_def)
  also have "all_events ?h = take (length ?h) ?all" by (rule all_events_append [symmetric])
  also have "take limit (drop after (take (length ?h) ?all)) @ drop ?next ?all = drop after ?all"
  proof -
    have "after \<le> ?next" using near(2) by simp
    then have "after - length (take ?next ?all) = 0" by simp
    then have "drop after (take ?next ?all) @ drop ?next ?all = drop after (take ?next ?all @ drop ?next ?all)"
      by (simp only: drop_append drop_0)
    moreover have "take limit (drop after (take (length ?h) ?all)) = drop after (take ?next ?all)"
      by (simp add: take_drop min_def add.commute)
    ultimately show ?thesis by (simp only: append_take_drop_id)
  qed
  finally show ?case by simp
qed simp

text \<open>C36: the stream of events. A client that starts with the history and polls with the cursor it was given last
  receives every event of the host exactly once and in order, as long as no poll finds it more than 1024 events
  behind and the last poll takes what is left; whatever else it asks in between.\<close>

theorem events_followed:
  assumes "0 < limit" and "length (concat polls) < 2 ^ 64" and "keeps_up limit 0 0 (map length polls)"
  shows "follow limit 0 [] polls = map event_json (all_events (concat polls))"
  using follow_all [of limit 0 "[]" polls] assms by simp

theorem events_followed_witness:
  "follow 2 0 [] [[Logged ''a'' 5, Emitted ''tick'' JNull 6, Logged ''b'' 7], []] =
     map event_json (all_events [Logged ''a'' 5, Emitted ''tick'' JNull 6, Logged ''b'' 7])"
  using events_followed [of 2 "[[Logged ''a'' 5, Emitted ''tick'' JNull 6, Logged ''b'' 7], []]"]
  by (simp add: kMaxEvents_def)

text \<open>C37: one poll. After any history the reply holds the events numbered above the cursor of the client, oldest
  first and at most as many as the limit, of the last 1024; the next cursor is that of the last event sent, and
  the cursor of the client when there is none.\<close>

theorem events_polled:
  assumes "length history < 2 ^ 64" and "after < 2 ^ 64" and "0 < limit"
  shows "EventsResult (word_of_nat after) limit (recorded history) =
     object [(''events'', JArray (map event_json (events_sent after limit history))),
       (''nextCursor'', JUnsigned (word_of_nat (if events_sent after limit history = [] then after
          else max after (length history - kMaxEvents) + length (events_sent after limit history))))]"
  using assms by (rule EventsResult_sent)

theorem events_polled_witness:
  "EventsResult (word_of_nat 1) 5 (recorded [Logged ''a'' 5, Emitted ''tick'' JNull 6]) =
     object [(''events'', JArray [event_json (event_of 2 (Emitted ''tick'' JNull 6))]), (''nextCursor'', JUnsigned 2)]"
  using events_polled [of "[Logged ''a'' 5, Emitted ''tick'' JNull 6]" 1 5]
  by (simp add: events_sent_def all_events_def kMaxEvents_def)

end
