(* ===== verification/Quiet_Access.thy ===== *)
theory Quiet_Access
  imports Record_Access
begin

text \<open>
  What reads and plans leave alone: revalidating a catalog, reading fields and planning field writes never change
  memory, whether they succeed or not. The operations of the host that go through them rest on these lemmas.
\<close>

context table_reader
begin

lemma read_twice_mem: "mem (snd (read_twice backend valid requests s)) = mem s"
  using read_twice_read by (metis prod.collapse)

lemma collect_entry_mem: "mem (snd (collect_entry schema es backend e (k, s))) = mem s"
proof -
  let ?d = "entry_descriptor e"
  obtain found s1 where x: "ExtentExists backend (allocation_base ?d) (allocation_size ?d) s = (found, s1)" by force
  then have m1: "mem s1 = mem s" using extent_mem [of "allocation_base ?d" "allocation_size ?d" s] by simp
  obtain r s2 where c: "check_indexed schema backend e s1 = (r, s2)" by force
  then have "mem s2 = mem s" using check_indexed_read [OF c] m1 by simp
  then show ?thesis using m1 x c by (simp add: collect_entry_def Let_def split: option.split)
qed

lemma collect_mem: "mem (snd (fold (collect_entry schema es backend) rest (k, s))) = mem s"
proof (induction rest arbitrary: k s)
  case (Cons e rest)
  then show ?case
    using collect_entry_mem [of schema es e k s] by (cases "collect_entry schema es backend e (k, s)") simp
qed simp

lemma read_evidence_mem: "mem (snd (read_evidence backend c s)) = mem s"
proof -
  obtain k s1 where f: "fold (collect_entry (catalog_schema c) (catalog_entries c) backend) (catalog_entries c)
      (\<lparr>quarantined = {}, planned = [], indexed_guards = []\<rparr>, s) = (k, s1)" by force
  obtain first second s2 where t: "read_twice backend True (map fst (planned k)) s1 = ((first, second), s2)"
    by (metis surj_pair)
  have "mem s1 = mem s" using collect_mem f by (metis snd_conv)
  moreover have "mem s2 = mem s1" using read_twice_mem t by (metis snd_conv)
  ultimately show ?thesis by (simp add: read_evidence_def f t)
qed

lemma Revalidate_mem:
  assumes "Revalidate backend c s = (r, s')"
  shows "mem s' = mem s"
proof -
  obtain ok snapshot c' where r: "r = (ok, snapshot, c')" by (cases r)
  show ?thesis
  proof (cases "catalog_entries c = []")
    case True
    then show ?thesis using assms by (auto simp: Revalidate_def)
  next
    case False
    obtain evidence t where e: "read_evidence backend c s = (evidence, t)" by (metis surj_pair)
    then have "mem t = mem s" using read_evidence_mem by (metis snd_conv)
    then show ?thesis using assms False e by (auto simp: Revalidate_def Let_def split: if_splits)
  qed
qed

end

text \<open>A record accessor whose two backends work on the same memory.\<close>

locale record_reader =
  reader: table_reader "validation_backend a" mem + backend: memory_backend "accessor_memory a" mem
  for a :: "'s RecordAccessor" and mem :: "'s \<Rightarrow> memory"
begin

lemma read_record_mem: "mem (snd (read_record (accessor_memory a) address n s)) = mem s"
proof -
  obtain ok t where t: "Validate (accessor_memory a) s address n False = (ok, t)" by force
  then have "mem t = mem s" using backend.validate_mem [of s address n False] by simp
  then show ?thesis using t backend.read_mem [of t address n] by (simp add: read_record_def)
qed

lemma ReadFields_mem:
  assumes "ReadFields a h row names c s = (r, c', s')"
  shows "mem s' = mem s"
proof -
  obtain ok ev c1 s1 where rv: "Revalidate (validation_backend a) c s = ((ok, ev, c1), s1)" by (metis surj_pair)
  have m: "mem s1 = mem s" using reader.Revalidate_mem [OF rv] .
  have rd: "mem t = mem s" if "read_record (accessor_memory a) address n s1 = (bytes, t)" for address n bytes t
    using read_record_mem [of address n s1] that m by simp
  show ?thesis
  proof (rule ccontr)
    assume other: "mem s' \<noteq> mem s"
    then have "ok" using assms rv m by (auto simp: ReadFields_def)
    with assms other rv m show False
      by (auto simp: ReadFields_def Let_def dest!: rd split: option.splits if_splits prod.splits)
  qed
qed

lemma PlanFieldWrites_mem:
  assumes "PlanFieldWrites a h row changes c s = (p, c', s')"
  shows "mem s' = mem s"
proof -
  obtain ok ev c1 s1 where rv: "Revalidate (validation_backend a) c s = ((ok, ev, c1), s1)" by (metis surj_pair)
  have m: "mem s1 = mem s" using reader.Revalidate_mem [OF rv] .
  have rd: "mem t = mem s" if "read_record (accessor_memory a) address n s1 = (bytes, t)" for address n bytes t
    using read_record_mem [of address n s1] that m by simp
  show ?thesis
  proof (rule ccontr)
    assume other: "mem s' \<noteq> mem s"
    then have "ok" using assms rv m by (auto simp: PlanFieldWrites_def)
    with assms other rv m show False
      by (auto simp: PlanFieldWrites_def Let_def dest!: rd split: option.splits if_splits prod.splits sum.splits)
  qed
qed

end

interpretation linear_records: record_reader sample_accessor linear_mem
proof -
  have "table_reader LinearBackend linear_mem" by (rule linear.table_reader_axioms)
  moreover have "memory_backend linear_memory_backend linear_mem" by (rule linear_memory.memory_backend_axioms)
  ultimately show "record_reader sample_accessor linear_mem" by (simp add: record_reader_def sample_accessor_def)
qed

end
