(* ===== verification/Lua_Values.thy ===== *)
theory Lua_Values
  imports Quiet_Access
begin

text \<open>
  The values a script passes to the functions of the host and the results they push. Lua itself is a library:
  its tables live in a heap, a function from references to the entries in the order of \<open>lua_next\<close>; the
  userdata are those the host creates. An error raised by a function is \<open>Inl\<close> of its message.
\<close>

datatype LuaValue =
    LuaNil
  | LuaBoolean bool
  | LuaInteger "64 word"
  | LuaFloat u64
  | LuaText string
  | LuaTable nat
  | LuaFunction nat
  | TableUserdata TableHandle
  | RecordUserdata TableHandle nat
  | TransactionUserdata
  | LuaOther nat

type_synonym lua_heap = "nat \<Rightarrow> (LuaValue \<times> LuaValue) list"

text \<open>What a function pushes: a value, or a table it creates.\<close>

datatype LuaResult = Pushed LuaValue | PushedTable "(LuaValue \<times> LuaResult) list"

text \<open>The argument at a position of the stack; past the top it is none, which no check accepts either.\<close>

definition lua_argument :: "LuaValue list \<Rightarrow> nat \<Rightarrow> LuaValue" where
  "lua_argument arguments n = (if 1 \<le> n \<and> n \<le> length arguments then arguments ! (n - 1) else LuaNil)"

definition push_nat :: "nat \<Rightarrow> LuaResult" where
  "push_nat n = Pushed (LuaInteger (word_of_nat n))"

fun lua_isinteger :: "LuaValue \<Rightarrow> bool" where
  "lua_isinteger (LuaInteger _) = True"
| "lua_isinteger _ = False"

fun lua_text :: "LuaValue \<Rightarrow> string option" where
  "lua_text (LuaText text) = Some text"
| "lua_text _ = None"

text \<open>\<open>Unsigned\<close> of frtk_lua_api.cpp: an integer value from 0 to the largest 32-bit number.\<close>

definition Unsigned :: "LuaValue \<Rightarrow> nat option" where
  "Unsigned v =
     (case v of
        LuaInteger w \<Rightarrow> if sint w < 0 \<or> 4294967295 < w then None else Some (unat w)
      | _ \<Rightarrow> None)"

definition TableValue :: "LuaValue \<Rightarrow> TableHandle option" where
  "TableValue v = (case v of TableUserdata handle \<Rightarrow> Some handle | _ \<Rightarrow> None)"

definition RecordValue :: "LuaValue \<Rightarrow> (TableHandle \<times> nat) option" where
  "RecordValue v = (case v of RecordUserdata handle row \<Rightarrow> Some (handle, row) | _ \<Rightarrow> None)"

definition TransactionValue :: "LuaValue \<Rightarrow> bool" where
  "TransactionValue v = (case v of TransactionUserdata \<Rightarrow> True | _ \<Rightarrow> False)"

text \<open>The parts of a packed reference, a table with exactly the keys uniqueId and row.\<close>

fun reference_entries ::
  "(LuaValue \<times> LuaValue) list \<Rightarrow> nat \<Rightarrow> nat option \<Rightarrow> nat option \<Rightarrow> string + nat \<times> nat" where
  "reference_entries [] n seen_unique_id seen_row =
     (case (seen_unique_id, seen_row) of
        (Some unique_id, Some row) \<Rightarrow>
          if n \<noteq> 2 then Inl ''packed-reference requires uniqueId and row'' else Inr (unique_id, row)
      | _ \<Rightarrow> Inl ''packed-reference requires uniqueId and row'')"
| "reference_entries ((key, item) # rest) n seen_unique_id seen_row =
     (case key of
        LuaText name \<Rightarrow>
          (case Unsigned item of
             None \<Rightarrow> Inl ''packed-reference values must be unsigned integers''
           | Some number \<Rightarrow>
               if name = ''uniqueId'' then reference_entries rest (Suc n) (Some number) seen_row
               else if name = ''row'' then reference_entries rest (Suc n) seen_unique_id (Some number)
               else Inl ''packed-reference must contain only uniqueId and row'')
      | _ \<Rightarrow> Inl ''packed-reference must contain only uniqueId and row'')"

definition ReferenceParts :: "lua_heap \<Rightarrow> LuaValue \<Rightarrow> string + nat \<times> nat" where
  "ReferenceParts heap v =
     (case v of
        LuaTable reference \<Rightarrow> reference_entries (heap reference) 0 None None
      | _ \<Rightarrow> Inl ''packed-reference value must be a table'')"

lemma Unsigned_bound: "Unsigned v = Some n \<Longrightarrow> n < 2 ^ 32"
  by (auto simp: Unsigned_def word_less_nat_alt not_less split: LuaValue.splits if_splits)

lemma reference_entries_keys:
  "reference_entries entries n u r = Inr (unique_id, row) \<Longrightarrow>
   fst ` set entries \<subseteq> {LuaText ''uniqueId'', LuaText ''row''} \<and> n + length entries = 2"
  by (induction entries n u r rule: reference_entries.induct)
    (auto split: option.splits if_splits LuaValue.splits)

end
