(* ===== verification/Lua_Db_Api.thy ===== *)
theory Lua_Db_Api
  imports Lua_Values "HOL-Library.Product_Lexorder" "HOL-Library.Multiset"
begin

text \<open>
  The database of the scripts (frtk_lua_api.cpp): tables and records as userdata over the session catalog, field
  reads, and transactions, in which a script collects field changes that are planned, guarded and submitted
  together when its function returns. How \<open>std::sort\<close> orders equal keys is left open. The record \<open>LuaDatabaseApi\<close> is the state of the class between the calls, \<open>DatabaseEnv\<close>
  what its constructor is given; the catalog and the state of the backends are passed along.
\<close>

section \<open>State\<close>

record PendingChange =
  pending_handle :: TableHandle
  pending_row :: nat
  pending_field :: FieldChange

record LuaDatabaseApi =
  transaction_active :: bool
  transaction_failed :: bool
  pending_changes :: "PendingChange list"

definition new_api :: LuaDatabaseApi where
  "new_api = \<lparr>transaction_active = False, transaction_failed = False, pending_changes = []\<rparr>"

text \<open>\<open>schema_provider\<close> may have no schema; \<open>submit_transaction\<close> runs the request. Both see the state. \<open>sort_changes\<close> is
  \<open>std::sort\<close> with the order of the pending changes; it does not promise to keep changes of one record in their order.\<close>

record 's DatabaseEnv =
  schema_provider :: "'s \<Rightarrow> SchemaRegistry option"
  db_validation :: "'s DiscoveryBackend"
  db_memory :: "'s MemoryBackend"
  submit_transaction :: "TransactionRequest \<Rightarrow> 's \<Rightarrow> TransactionResult \<times> 's"
  sort_changes :: "PendingChange list \<Rightarrow> PendingChange list"

text \<open>The buffer of the error message: up to its first zero byte and at most 255 bytes.\<close>

definition SetError :: "string \<Rightarrow> string" where
  "SetError message = take 255 (takeWhile (\<lambda>c. c \<noteq> CHR 0x00) message)"

section \<open>Tables and records\<close>

definition PrepareGetTable :: "SessionCatalog \<Rightarrow> nat \<Rightarrow> string + TableHandle" where
  "PrepareGetTable c unique_id =
     (case GetHandle c unique_id of
        None \<Rightarrow> Inl (SetError ''unknown table Unique ID'')
      | Some handle \<Rightarrow> Inr handle)"

definition GetTableByUniqueId :: "SessionCatalog \<Rightarrow> LuaValue list \<Rightarrow> string + LuaResult list" where
  "GetTableByUniqueId c arguments =
     (case Unsigned (lua_argument arguments 2) of
        None \<Rightarrow> Inl ''uniqueId must be an unsigned 32-bit integer''
      | Some unique_id \<Rightarrow>
          (case PrepareGetTable c unique_id of
             Inl e \<Rightarrow> Inl e
           | Inr handle \<Rightarrow> Inr [Pushed (TableUserdata handle)]))"

definition PrepareGetRecord :: "SessionCatalog \<Rightarrow> TableHandle \<Rightarrow> nat \<Rightarrow> string + TableHandle \<times> nat" where
  "PrepareGetRecord c handle row =
     (case Resolve c handle of
        None \<Rightarrow> Inl (SetError ''catalog handle is stale'')
      | Some descriptor \<Rightarrow>
          if capacity descriptor \<le> row then Inl (SetError ''row is out of range'') else Inr (handle, row))"

definition GetRecord :: "SessionCatalog \<Rightarrow> LuaValue list \<Rightarrow> string + LuaResult list" where
  "GetRecord c arguments =
     (case TableValue (lua_argument arguments 1) of
        None \<Rightarrow> Inl ''table userdata expected''
      | Some handle \<Rightarrow>
          (case Unsigned (lua_argument arguments 2) of
             None \<Rightarrow> Inl ''row must be an unsigned 32-bit integer''
           | Some row \<Rightarrow>
               (case PrepareGetRecord c handle row of
                  Inl e \<Rightarrow> Inl e
                | Inr (handle, row) \<Rightarrow> Inr [Pushed (RecordUserdata handle row)])))"

section \<open>Reading a field\<close>

definition db_accessor :: "'s DatabaseEnv \<Rightarrow> SchemaRegistry \<Rightarrow> 's RecordAccessor" where
  "db_accessor env schema =
     \<lparr>accessor_schema = schema, validation_backend = db_validation env, accessor_memory = db_memory env\<rparr>"

datatype PreparedValue = PreparedInteger int | PreparedReference nat nat

definition PrepareGetField ::
  "'s DatabaseEnv \<Rightarrow> TableHandle \<Rightarrow> nat \<Rightarrow> string \<Rightarrow> SessionCatalog \<Rightarrow> 's \<Rightarrow>
   (string + PreparedValue) \<times> SessionCatalog \<times> 's" where
  "PrepareGetField env handle row field c s =
     (if Resolve c handle = None then (Inl (SetError ''catalog handle is stale''), c, s)
      else case schema_provider env s of
        None \<Rightarrow> (Inl (SetError ''field schema is not loaded''), c, s)
      | Some schema \<Rightarrow>
          (let (result, c, s) = ReadFields (db_accessor env schema) handle row [field] c s
           in if \<not> frr_ok result \<or> length (frr_fields result) \<noteq> 1
              then (Inl (SetError (''field read refused: '' @ frr_code result)), c, s)
              else case nf_value (hd (frr_fields result)) of
                Numeric number \<Rightarrow> (Inr (PreparedInteger number), c, s)
              | Reference reference \<Rightarrow>
                  (case ActiveUniqueId c (ref_table_id reference) (ref_row_index reference) (handle_generation handle) of
                     None \<Rightarrow> (Inl (SetError ''packed-reference target is inactive''), c, s)
                   | Some unique_id \<Rightarrow> (Inr (PreparedReference unique_id (ref_row_index reference)), c, s))))"

definition push_prepared :: "PreparedValue \<Rightarrow> LuaResult" where
  "push_prepared prepared =
     (case prepared of
        PreparedInteger number \<Rightarrow> Pushed (LuaInteger (word_of_int number))
      | PreparedReference unique_id row \<Rightarrow>
          PushedTable [(LuaText ''uniqueId'', push_nat unique_id), (LuaText ''row'', push_nat row)])"

definition GetField ::
  "'s DatabaseEnv \<Rightarrow> LuaValue list \<Rightarrow> SessionCatalog \<Rightarrow> 's \<Rightarrow> (string + LuaResult list) \<times> SessionCatalog \<times> 's" where
  "GetField env arguments c s =
     (case RecordValue (lua_argument arguments 1) of
        None \<Rightarrow> (Inl ''record userdata expected'', c, s)
      | Some (handle, row) \<Rightarrow>
          (case lua_text (lua_argument arguments 2) of
             None \<Rightarrow> (Inl ''field name must be a string'', c, s)
           | Some name \<Rightarrow>
               (case PrepareGetField env handle row name c s of
                  (Inl e, c, s) \<Rightarrow> (Inl e, c, s)
                | (Inr prepared, c, s) \<Rightarrow> (Inr [push_prepared prepared], c, s))))"

section \<open>Transactions\<close>

definition PoisonTransaction :: "LuaDatabaseApi \<Rightarrow> LuaDatabaseApi" where
  "PoisonTransaction api = api\<lparr>transaction_failed := True\<rparr>"

definition same_change :: "TableHandle \<Rightarrow> nat \<Rightarrow> string \<Rightarrow> PendingChange \<Rightarrow> bool" where
  "same_change handle row name item \<longleftrightarrow>
     handle_unique_id (pending_handle item) = handle_unique_id handle \<and> pending_row item = row \<and>
     change_name (pending_field item) = name"

text \<open>The value of a change, by the encoding of the field.\<close>

definition change_value_of ::
  "SessionCatalog \<Rightarrow> TableHandle \<Rightarrow> FieldDefinition \<Rightarrow> bool \<Rightarrow> bool \<Rightarrow> int \<Rightarrow> nat \<Rightarrow> nat \<Rightarrow> string + DecodedField" where
  "change_value_of c handle definition is_reference is_integer integer reference_unique_id reference_row =
     (if field_encoding definition = ''packed-reference''
      then if \<not> is_reference then Inl ''packed-reference value must be a table''
           else (case ActiveTableId c reference_unique_id reference_row (handle_generation handle) of
                   None \<Rightarrow> Inl ''packed-reference target is inactive''
                 | Some table_id \<Rightarrow> Inr (Reference \<lparr>ref_table_id = table_id, ref_row_index = reference_row\<rparr>))
      else if is_reference \<or> \<not> is_integer then Inl ''field value must be an integer''
      else Inr (Numeric integer))"

definition PrepareSetField ::
  "SessionCatalog \<Rightarrow> SchemaRegistry option \<Rightarrow> TableHandle \<Rightarrow> nat \<Rightarrow> string \<Rightarrow> bool \<Rightarrow> bool \<Rightarrow> int \<Rightarrow> nat \<Rightarrow> nat \<Rightarrow>
   LuaDatabaseApi \<Rightarrow> (string + unit) \<times> LuaDatabaseApi" where
  "PrepareSetField c provided handle row name is_reference is_integer integer reference_unique_id reference_row api =
     (let already_failed = transaction_failed api;
          api = PoisonTransaction api;
          refused = (\<lambda>message. (Inl (SetError message), api))
      in case Resolve c handle of
           None \<Rightarrow> refused ''catalog handle is stale''
         | Some descriptor \<Rightarrow>
             if cd_authority descriptor \<noteq> kDirectVerified then refused ''table write authority is unproven''
             else case provided of
               None \<Rightarrow> refused ''field schema is not loaded''
             | Some schema \<Rightarrow>
                 (case FindField schema (session_table_id descriptor) name of
                    None \<Rightarrow> refused ''unknown field''
                  | Some definition \<Rightarrow>
                      (case change_value_of c handle definition is_reference is_integer integer reference_unique_id
                              reference_row of
                         Inl message \<Rightarrow> refused message
                       | Inr decoded \<Rightarrow>
                           if list_ex (same_change handle row name) (pending_changes api)
                           then refused ''duplicate field change''
                           else (Inr (), api\<lparr>pending_changes := pending_changes api @
                                   [\<lparr>pending_handle = handle, pending_row = row,
                                     pending_field = \<lparr>change_name = name, change_value = decoded\<rparr>\<rparr>],
                                   transaction_failed := already_failed\<rparr>))))"

definition SetField ::
  "SessionCatalog \<Rightarrow> SchemaRegistry option \<Rightarrow> lua_heap \<Rightarrow> LuaValue list \<Rightarrow> LuaDatabaseApi \<Rightarrow>
   (string + LuaResult list) \<times> LuaDatabaseApi" where
  "SetField c provided heap arguments api =
     (let poisoned = (\<lambda>message. (Inl message, PoisonTransaction api)) in
      if \<not> transaction_active api then (Inl ''transaction is not active'', api)
      else if \<not> TransactionValue (lua_argument arguments 1) then poisoned ''transaction userdata expected''
      else case RecordValue (lua_argument arguments 2) of
        None \<Rightarrow> poisoned ''record userdata expected''
      | Some (handle, row) \<Rightarrow>
          (case lua_text (lua_argument arguments 3) of
             None \<Rightarrow> poisoned ''field name must be a string''
           | Some name \<Rightarrow>
               let item = lua_argument arguments 4;
                   is_reference = (case item of LuaTable _ \<Rightarrow> True | _ \<Rightarrow> False);
                   is_integer = lua_isinteger item;
                   integer = (case item of LuaInteger w \<Rightarrow> sint w | _ \<Rightarrow> 0)
               in case (if is_reference then ReferenceParts heap item else Inr (0, 0)) of
                    Inl message \<Rightarrow> poisoned message
                  | Inr (reference_unique_id, reference_row) \<Rightarrow>
                      (case PrepareSetField c provided handle row name is_reference is_integer integer
                              reference_unique_id reference_row api of
                         (Inl e, api) \<Rightarrow> (Inl e, api)
                       | (Inr _, api) \<Rightarrow> (Inr [], api))))"

definition BeginTransaction :: "LuaDatabaseApi \<Rightarrow> (string + unit) \<times> LuaDatabaseApi" where
  "BeginTransaction api =
     (if transaction_active api
      then (Inl (SetError ''nested transactions are forbidden''), api\<lparr>transaction_failed := True\<rparr>)
      else (Inr (), api\<lparr>transaction_active := True, transaction_failed := False, pending_changes := []\<rparr>))"

definition AbortTransaction :: "LuaDatabaseApi \<Rightarrow> LuaDatabaseApi" where
  "AbortTransaction api = api\<lparr>transaction_active := False, transaction_failed := False, pending_changes := []\<rparr>"

text \<open>The order of the changes: by table, then row.\<close>

definition pending_key :: "PendingChange \<Rightarrow> nat \<times> nat" where
  "pending_key item = (handle_unique_id (pending_handle item), pending_row item)"

text \<open>What \<open>std::sort\<close> promises: the same changes, in this order; those of one record in any order.\<close>

definition sorts_pending :: "(PendingChange list \<Rightarrow> PendingChange list) \<Rightarrow> bool" where
  "sorts_pending f \<longleftrightarrow> (\<forall>items. mset (f items) = mset items \<and> sorted (map pending_key (f items)))"

text \<open>Each run of changes of one record is planned with the handle of its first change.\<close>

function plan_groups ::
  "'s RecordAccessor \<Rightarrow> PendingChange list \<Rightarrow> FieldWritePlan list \<Rightarrow> SessionCatalog \<Rightarrow> 's \<Rightarrow>
   (string + FieldWritePlan list) \<times> SessionCatalog \<times> 's" where
  "plan_groups accessor [] plans c s = (Inr plans, c, s)"
| "plan_groups accessor (item # items) plans c s =
     (let same = (\<lambda>other. pending_key other = pending_key item);
          (plan, c, s) = PlanFieldWrites accessor (pending_handle item) (pending_row item)
             (map pending_field (item # takeWhile same items)) c s
      in if \<not> plan_ok plan then (Inl (''field transaction refused: '' @ plan_code plan), c, s)
         else plan_groups accessor (dropWhile same items) (plans @ [plan]) c s)"
  by pat_completeness auto
termination
  by (relation "measure (\<lambda>(accessor, items, plans, c, s). length items)") (auto simp: le_imp_less_Suc length_dropWhile_le)

declare plan_groups.simps(2) [simp del]

lemma plan_groups_step:
  assumes "PlanFieldWrites accessor (pending_handle item) (pending_row item)
      (map pending_field (item # takeWhile (\<lambda>other. pending_key other = pending_key item) items)) c s = (p, c1, s1)"
  shows "plan_groups accessor (item # items) plans c s =
    (if \<not> plan_ok p then (Inl (''field transaction refused: '' @ plan_code p), c1, s1)
     else plan_groups accessor (dropWhile (\<lambda>other. pending_key other = pending_key item) items) (plans @ [p]) c1 s1)"
  by (subst plan_groups.simps) (simp only: assms Let_def prod.case)

definition FinishTransaction ::
  "'s DatabaseEnv \<Rightarrow> LuaDatabaseApi \<Rightarrow> SessionCatalog \<Rightarrow> 's \<Rightarrow> (string + unit) \<times> LuaDatabaseApi \<times> SessionCatalog \<times> 's" where
  "FinishTransaction env api c s =
     (let api = api\<lparr>transaction_active := False\<rparr>;
          pending = sort_changes env (pending_changes api);
          cleared = api\<lparr>pending_changes := []\<rparr>
      in if transaction_failed api
         then (Inl (SetError ''transaction callback contained a refused change''), cleared\<lparr>transaction_failed := False\<rparr>, c, s)
         else if pending_changes api = []
         then (Inl (SetError ''transaction contains no field changes''), api, c, s)
         else let tid = ''lua-db-'' @ to_dec (unat (generation c))
              in case schema_provider env s of
                None \<Rightarrow> (Inl (SetError ''field schema is not loaded''), cleared, c, s)
              | Some schema \<Rightarrow>
                  (case plan_groups (db_accessor env schema) pending [] c s of
                     (Inl message, c, s) \<Rightarrow> (Inl (SetError message), cleared, c, s)
                   | (Inr plans, c, s) \<Rightarrow>
                       (let guarded = FinalizeFieldTransaction c tid plans
                        in if \<not> guarded_ok guarded
                           then (Inl (SetError (''field transaction refused: '' @ guarded_code guarded)), cleared, c, s)
                           else let (result, s) = submit_transaction env (guarded_request guarded) s
                                in if tr_status result \<noteq> kAppliedVerified
                                   then (Inl (SetError (''field transaction failed: '' @ tr_code result)), cleared, c, s)
                                   else (Inr (), cleared, c, s))))"


section \<open>What a transaction collects\<close>

text \<open>A transaction while its function runs: the changes accepted so far, and whether one was refused. Whatever
  else the script or the game does in between may change the catalog and the state.\<close>

inductive in_transaction ::
  "'s DatabaseEnv \<Rightarrow> LuaDatabaseApi \<Rightarrow> SessionCatalog \<Rightarrow> 's \<Rightarrow> PendingChange list \<Rightarrow> bool \<Rightarrow> bool" for env where
  begun: "BeginTransaction api = (Inr (), api') \<Longrightarrow> in_transaction env api' c s [] False"
| changed: "in_transaction env api c s changes refused \<Longrightarrow>
    SetField c (schema_provider env s) heap arguments api = (Inr out, api') \<Longrightarrow>
    in_transaction env api' c s (changes @ [last (pending_changes api')]) refused"
| refused_change: "in_transaction env api c s changes refused \<Longrightarrow>
    SetField c (schema_provider env s) heap arguments api = (Inl e, api') \<Longrightarrow>
    in_transaction env api' c s changes True"
| nested: "in_transaction env api c s changes refused \<Longrightarrow> BeginTransaction api = (Inl e, api') \<Longrightarrow>
    in_transaction env api' c s changes True"
| elsewhere: "in_transaction env api c s changes refused \<Longrightarrow> in_transaction env api c' s' changes refused"

inductive_cases in_transaction_cases: "in_transaction env api c s changes refused"

definition change_identity :: "PendingChange \<Rightarrow> (nat \<times> nat) \<times> string" where
  "change_identity item = (pending_key item, change_name (pending_field item))"

lemma PrepareSetField_cases:
  assumes "PrepareSetField c provided handle row name is_reference is_integer integer uid rrow api = (r, api')"
  obtains (refused) message where "r = Inl message" "api' = PoisonTransaction api"
  | (accepted) change where "r = Inr ()" "api' = api\<lparr>pending_changes := pending_changes api @ [change]\<rparr>"
      "change_identity change = ((handle_unique_id handle, row), name)" "pending_handle change = handle"
      "change_identity change \<notin> change_identity ` set (pending_changes api)"
proof -
  note simps = PrepareSetField_def PoisonTransaction_def Let_def
  have "(\<exists>message. r = Inl message \<and> api' = PoisonTransaction api) \<or>
      (\<exists>decoded. r = Inr () \<and> \<not> list_ex (same_change handle row name) (pending_changes api) \<and>
         api' = api\<lparr>pending_changes := pending_changes api @ [\<lparr>pending_handle = handle, pending_row = row,
           pending_field = \<lparr>change_name = name, change_value = decoded\<rparr>\<rparr>]\<rparr>)"
    using assms unfolding simps by (auto split: option.splits sum.splits if_splits)
  then show thesis
  proof (elim disjE exE conjE)
    fix decoded :: DecodedField
    let ?change = "\<lparr>pending_handle = handle, pending_row = row, pending_field = \<lparr>change_name = name, change_value = decoded\<rparr>\<rparr>"
    assume new: "\<not> list_ex (same_change handle row name) (pending_changes api)"
    have "same_change handle row name item \<longleftrightarrow> change_identity item = change_identity ?change" for item
      by (auto simp: same_change_def change_identity_def pending_key_def)
    with new have "change_identity ?change \<notin> change_identity ` set (pending_changes api)"
      by (auto simp: list_ex_iff)
    moreover assume "r = Inr ()" "api' = api\<lparr>pending_changes := pending_changes api @ [?change]\<rparr>"
    ultimately show thesis by (intro accepted [of ?change]) (simp_all add: change_identity_def pending_key_def)
  qed (rule refused)
qed

lemma SetField_cases:
  assumes "SetField c provided heap arguments api = (r, api')" and "transaction_active api"
  obtains (refused) message where "r = Inl message" "api' = PoisonTransaction api"
  | (accepted) change where "r = Inr []" "api' = api\<lparr>pending_changes := pending_changes api @ [change]\<rparr>"
      "change_identity change \<notin> change_identity ` set (pending_changes api)"
proof (cases "\<exists>handle row name uid rrow is_reference is_integer integer r1.
    PrepareSetField c provided handle row name is_reference is_integer integer uid rrow api = (r1, api') \<and>
    r = (case r1 of Inl e \<Rightarrow> Inl e | Inr _ \<Rightarrow> Inr [])")
  case True
  then obtain handle row name uid rrow is_reference is_integer integer r1 where
    run: "PrepareSetField c provided handle row name is_reference is_integer integer uid rrow api = (r1, api')"
    and r: "r = (case r1 of Inl e \<Rightarrow> Inl e | Inr _ \<Rightarrow> Inr [])" by blast
  from run show thesis
  proof (cases rule: PrepareSetField_cases)
    case (accepted change)
    then show ?thesis using r that(2) [of change] by simp
  qed (use r in \<open>auto intro: refused\<close>)
next
  case False
  have "\<exists>message. r = Inl message \<and> api' = PoisonTransaction api"
    using assms False unfolding SetField_def Let_def
    by (auto split: option.splits sum.splits prod.splits if_splits)
      (metis sum.case)+
  then show thesis using refused by blast
qed

lemma in_transaction_state:
  "in_transaction env api c s changes refused \<Longrightarrow>
   transaction_active api \<and> pending_changes api = changes \<and> transaction_failed api = refused \<and>
   distinct (map change_identity changes)"
proof (induction rule: in_transaction.induct)
  case (changed api c s changes refused heap arguments out api')
  from changed(2) show ?case
    by (cases rule: SetField_cases) (use changed in auto)
next
  case (refused_change api c s changes refused heap arguments e api')
  from refused_change(2) show ?case
    by (cases rule: SetField_cases) (use refused_change in \<open>auto simp: PoisonTransaction_def\<close>)
qed (auto simp: BeginTransaction_def split: if_splits)

section \<open>What a finished transaction did\<close>

text \<open>The records that occur in a list of changes, in order, with the changes of each as they follow in the list.\<close>

definition record_groups :: "PendingChange list \<Rightarrow> PendingChange list list" where
  "record_groups changes =
     map (\<lambda>key. filter (\<lambda>item. pending_key item = key) changes) (sorted_list_of_set (pending_key ` set changes))"

lemma groups_step:
  fixes key :: "'a \<Rightarrow> 'k::linorder"
  assumes "sorted (map key (x # xs))"
  defines "same \<equiv> \<lambda>y. key y = key x"
  shows "filter (\<lambda>y. key y = key x) (x # xs) = x # takeWhile same xs"
    and "sorted_list_of_set (key ` set (x # xs)) = key x # sorted_list_of_set (key ` set (dropWhile same xs))"
    and "k \<in> key ` set (dropWhile same xs) \<Longrightarrow>
      filter (\<lambda>y. key y = k) (x # xs) = filter (\<lambda>y. key y = k) (dropWhile same xs)"
    and "sorted (map key (dropWhile same xs))"
proof -
  have least: "\<forall>y \<in> set xs. key x \<le> key y" and sorted: "sorted (map key xs)" using assms(1) by auto
  show rest_sorted: "sorted (map key (dropWhile same xs))" using sorted by (metis sorted_wrt_dropWhile sorted_wrt_map)
  have greater: "\<forall>y \<in> set (dropWhile same xs). key x < key y"
  proof (cases "dropWhile same xs")
    case (Cons y ys)
    then have "\<not> same y" by (metis hd_dropWhile list.distinct(1) list.sel(1))
    moreover have "y \<in> set xs" using Cons by (metis list.set_intros(1) set_dropWhileD)
    ultimately have "key x < key y" using least by (auto simp: same_def)
    moreover have "\<forall>z \<in> set ys. key y \<le> key z" using rest_sorted Cons by simp
    ultimately show ?thesis using Cons by auto
  next
    case Nil
    then show ?thesis by (simp only: list.set) simp
  qed
  have parts: "xs = takeWhile same xs @ dropWhile same xs" by simp
  have taken: "\<forall>y \<in> set (takeWhile same xs). key y = key x" by (auto dest: set_takeWhileD simp: same_def)
  have "filter (\<lambda>y. key y = key x) xs = takeWhile same xs"
  proof -
    have "filter (\<lambda>y. key y = key x) (takeWhile same xs @ dropWhile same xs) = takeWhile same xs"
      using taken greater by (auto simp: filter_id_conv filter_empty_conv simp del: takeWhile_dropWhile_id)
    then show ?thesis by simp
  qed
  then show "filter (\<lambda>y. key y = key x) (x # xs) = x # takeWhile same xs" by simp
  have "key ` set (x # xs) = insert (key x) (key ` set (dropWhile same xs))"
    using taken by (subst parts) (auto simp del: takeWhile_dropWhile_id)
  moreover have "sorted_list_of_set (insert (key x) (key ` set (dropWhile same xs))) =
      key x # sorted_list_of_set (key ` set (dropWhile same xs))"
  proof -
    have "sorted_list_of_set (insert (key x) (key ` set (dropWhile same xs))) =
        insort (key x) (sorted_list_of_set (key ` set (dropWhile same xs) - {key x}))"
      by (rule sorted_list_of_set_insert_remove) simp
    also have "key ` set (dropWhile same xs) - {key x} = key ` set (dropWhile same xs)" using greater by auto
    also have "insort (key x) (sorted_list_of_set (key ` set (dropWhile same xs))) =
        key x # sorted_list_of_set (key ` set (dropWhile same xs))"
      by (rule insort_is_Cons) (use greater in auto)
    finally show ?thesis .
  qed
  ultimately show "sorted_list_of_set (key ` set (x # xs)) = key x # sorted_list_of_set (key ` set (dropWhile same xs))"
    by simp
  show "filter (\<lambda>y. key y = k) (x # xs) = filter (\<lambda>y. key y = k) (dropWhile same xs)"
    if "k \<in> key ` set (dropWhile same xs)"
  proof -
    have "k \<noteq> key x" using that greater by auto
    moreover have "filter (\<lambda>y. key y = k) (takeWhile same xs @ dropWhile same xs) = filter (\<lambda>y. key y = k) (dropWhile same xs)"
      using taken \<open>k \<noteq> key x\<close> by (auto simp: filter_empty_conv simp del: takeWhile_dropWhile_id)
    ultimately show ?thesis by simp
  qed
qed

text \<open>A plan accepted for the changes of one record, at some moment between the start and the end of the planning.\<close>

definition group_planned :: "'s RecordAccessor \<Rightarrow> PendingChange list \<Rightarrow> FieldWritePlan \<Rightarrow> bool" where
  "group_planned accessor changes p \<longleftrightarrow>
     (\<exists>c s c' s'. PlanFieldWrites accessor (pending_handle (hd changes)) (pending_row (hd changes)) (map pending_field changes) c s =
        (p, c', s')) \<and> plan_ok p"

lemma plan_groups_Inr:
  assumes "plan_groups accessor items plans c s = (Inr all, c', s')" and "sorted (map pending_key items)"
  shows "\<exists>new. all = plans @ new \<and> list_all2 (group_planned accessor) (record_groups items) new"
  using assms
proof (induction accessor items plans c s rule: plan_groups.induct)
  case (1 accessor plans c s)
  then show ?case by (simp add: record_groups_def)
next
  case (2 accessor item items plans c s)
  let ?same = "\<lambda>other. pending_key other = pending_key item"
  let ?first = "item # takeWhile ?same items"
  obtain plan c1 s1 where plan: "PlanFieldWrites accessor (pending_handle item) (pending_row item) (map pending_field ?first) c s =
      (plan, c1, s1)" by (metis prod_cases3)
  note step = groups_step [where key = pending_key, OF "2.prems"(2)]
  have ok: "plan_ok plan"
    and rest: "plan_groups accessor (dropWhile ?same items) (plans @ [plan]) c1 s1 = (Inr all, c', s')"
    using "2.prems"(1) unfolding plan_groups_step [OF plan] by (auto split: if_splits)
  obtain new where new: "all = (plans @ [plan]) @ new"
      "list_all2 (group_planned accessor) (record_groups (dropWhile ?same items)) new"
    using "2.IH" [OF refl plan [symmetric] refl refl _ rest] ok step(4) by auto
  have "record_groups (item # items) = ?first # record_groups (dropWhile ?same items)"
    unfolding record_groups_def using step(1,3) by (simp only: step(2) list.map) (auto intro!: map_cong)
  moreover have "group_planned accessor ?first plan" using plan ok by (auto simp: group_planned_def)
  ultimately show ?case using new by auto
qed

text \<open>One group for each record a transaction changes, in order, with all the changes of the record in some order.\<close>

definition grouped :: "PendingChange list \<Rightarrow> PendingChange list list \<Rightarrow> bool" where
  "grouped changes groups \<longleftrightarrow>
     list_all2 (\<lambda>key g. mset g = mset (filter (\<lambda>item. pending_key item = key) changes))
       (sorted_list_of_set (pending_key ` set changes)) groups"

lemma sorted_grouped:
  assumes "sorts_pending f"
  shows "grouped changes (record_groups (f changes))"
proof -
  have sorted: "mset (f changes) = mset changes" using assms by (simp add: sorts_pending_def)
  then have "set (f changes) = set changes" by (rule mset_eq_setD)
  moreover have "mset (filter P (f changes)) = mset (filter P changes)" for P by (simp add: sorted)
  ultimately show ?thesis by (simp add: grouped_def record_groups_def list_all2_conv_all_nth)
qed

lemma FinishTransaction_Inr:
  assumes "FinishTransaction env api c s = (Inr u, api', c', s')" and sorts: "sorts_pending (sort_changes env)"
  obtains schema groups plans guarded result s1 where "schema_provider env s = Some schema"
    "grouped (pending_changes api) groups" "list_all2 (group_planned (db_accessor env schema)) groups plans"
    "guarded = FinalizeFieldTransaction c' (''lua-db-'' @ to_dec (unat (generation c))) plans" "guarded_ok guarded"
    "plan_groups (db_accessor env schema) (sort_changes env (pending_changes api)) [] c s = (Inr plans, c', s1)"
    "submit_transaction env (guarded_request guarded) s1 = (result, s')" "tr_status result = kAppliedVerified"
proof -
  obtain schema where schema: "schema_provider env s = Some schema"
    using assms by (cases "schema_provider env s") (auto simp: FinishTransaction_def Let_def split: if_splits)
  obtain planned c1 s1 where planned: "plan_groups (db_accessor env schema) (sort_changes env (pending_changes api)) [] c s = (planned, c1, s1)"
    by (metis prod_cases3)
  obtain plans where plans: "planned = Inr plans"
    using assms schema planned by (cases planned) (auto simp: FinishTransaction_def Let_def split: if_splits)
  let ?guarded = "FinalizeFieldTransaction c1 (''lua-db-'' @ to_dec (unat (generation c))) plans"
  obtain result s2 where result: "submit_transaction env (guarded_request ?guarded) s1 = (result, s2)" by force
  have "guarded_ok ?guarded \<and> tr_status result = kAppliedVerified \<and> c' = c1 \<and> s' = s2"
    using assms schema planned plans result by (auto simp: FinishTransaction_def Let_def split: if_splits)
  moreover have "list_all2 (group_planned (db_accessor env schema)) (record_groups (sort_changes env (pending_changes api))) plans"
    using plan_groups_Inr [OF planned [unfolded plans]] sorts by (simp add: sorts_pending_def)
  ultimately show thesis using that schema sorted_grouped [OF sorts] planned plans result by blast
qed

lemma FinishTransaction_api:
  assumes "FinishTransaction env api c s = (r, api', c', s')" and "transaction_active api"
  shows "api' = new_api"
  using assms unfolding FinishTransaction_def new_api_def Let_def
  by (cases api) (auto split: if_splits option.splits sum.splits prod.splits)


context record_reader
begin

lemma plan_groups_mem: "mem (snd (snd (plan_groups a items plans c s))) = mem s"
proof (induction items arbitrary: plans c s rule: measure_induct_rule [of length])
  case (less items)
  show ?case
  proof (cases items)
    case (Cons item rest)
    let ?same = "\<lambda>other. pending_key other = pending_key item"
    obtain p c1 s1 where plan: "PlanFieldWrites a (pending_handle item) (pending_row item)
        (map pending_field (item # takeWhile ?same rest)) c s = (p, c1, s1)" by (metis prod_cases3)
    have "mem s1 = mem s" using PlanFieldWrites_mem [OF plan] .
    moreover have "length (dropWhile ?same rest) < length items"
      using length_dropWhile_le [of ?same rest] Cons by simp
    note less.IH [OF this, of "plans @ [p]" c1 s1]
    ultimately show ?thesis unfolding Cons plan_groups_step [OF plan] by simp
  qed simp
qed

end

section \<open>The contract of the environment\<close>

text \<open>Its reads leave memory alone, and a request it reports as applied was run on its memory, with nothing written
  before the run or after it.\<close>

locale database =
  reader: table_reader "db_validation env" mem + backend: memory_backend "db_memory env" mem
  for env :: "'s DatabaseEnv" and mem :: "'s \<Rightarrow> memory" +
  assumes submits: "submit_transaction env request s = (r, s') \<Longrightarrow> tr_status r = kAppliedVerified \<Longrightarrow>
      \<exists>t t'. mem t = mem s \<and> RunTransaction request (db_memory env) t = (r, t') \<and> mem s' = mem t'"
    and sorts: "sorts_pending (sort_changes env)"
    and withdrawn: "submit_transaction env request s = (r, s') \<Longrightarrow>
      tr_status r = kRejected \<or> tr_status r = kRolledBackVerified \<Longrightarrow> mem s' = mem s"

sublocale database \<subseteq> records: record_reader "db_accessor env schema" mem for schema
  using reader.table_reader_axioms backend.memory_backend_axioms by (simp add: record_reader_def db_accessor_def)

context database
begin

lemma finished_writes:
  assumes "FinishTransaction env api c s = (Inr u, api', c', s')"
  obtains schema groups plans where "schema_provider env s = Some schema"
    "grouped (pending_changes api) groups" "list_all2 (group_planned (db_accessor env schema)) groups plans"
    "\<forall>q \<in> set (concat (map inputs_of plans)). \<forall>x \<in> input_range q.
       mem s x = input_expected_at q x \<and> (op_kind q = kWrite \<longrightarrow> mem s' x = input_replacement_at q x)"
    "\<forall>x. x \<notin> input_writes plans \<longrightarrow> mem s' x = mem s x"
proof (rule FinishTransaction_Inr [OF assms sorts])
  fix schema groups plans guarded result s1
  assume f: "schema_provider env s = Some schema"
    "list_all2 (group_planned (db_accessor env schema)) groups plans"
    "guarded = FinalizeFieldTransaction c' (''lua-db-'' @ to_dec (unat (generation c))) plans" "guarded_ok guarded"
    "plan_groups (db_accessor env schema) (sort_changes env (pending_changes api)) [] c s = (Inr plans, c', s1)"
    "submit_transaction env (guarded_request guarded) s1 = (result, s')" "tr_status result = kAppliedVerified"
    and groups: "grouped (pending_changes api) groups"
  have m: "mem s1 = mem s" using records.plan_groups_mem [of schema "sort_changes env (pending_changes api)" "[]" c s] f(5) by simp
  note g = f(4) [unfolded f(3)]
  obtain t t' where t: "mem t = mem s1" "mem s' = mem t'"
    and ran: "RunTransaction (guarded_request guarded) (db_memory env) t = (result, t')"
    using submits [OF f(6,7)] by metis
  note run = ran [unfolded f(3)]
  note ops = finalize_request(1) [OF g]
  have "\<forall>q \<in> set (concat (map inputs_of plans)). \<forall>x \<in> input_range q.
      mem s x = input_expected_at q x \<and> (op_kind q = kWrite \<longrightarrow> mem s' x = input_replacement_at q x)"
    using backend.assembled_byte [OF ops run f(7) refl] unfolding t m by blast
  moreover have "\<forall>x. x \<notin> input_writes plans \<longrightarrow> mem s' x = mem s x"
    using backend.assembled_frame [OF ops run f(7) refl] unfolding t m by blast
  ultimately show thesis using that [OF f(1) groups f(2)] by blast
qed

lemma FinishTransaction_kept:
  assumes "FinishTransaction env api c s = (Inl e, api', c', s')"
    and "\<And>request t r t'. submit_transaction env request t = (r, t') \<Longrightarrow> tr_status r \<noteq> kRollbackUnverified"
  shows "mem s' = mem s"
proof (cases "schema_provider env s")
  case None
  then show ?thesis using assms(1) by (auto simp: FinishTransaction_def Let_def split: if_splits)
next
  case (Some schema)
  obtain planned c1 s1 where planned: "plan_groups (db_accessor env schema) (sort_changes env (pending_changes api)) [] c s = (planned, c1, s1)"
    by (metis prod_cases3)
  then have m: "mem s1 = mem s" using records.plan_groups_mem by (metis snd_conv)
  show ?thesis
  proof (cases planned)
    case (Inl message)
    then show ?thesis using assms(1) Some planned m by (auto simp: FinishTransaction_def Let_def split: if_splits)
  next
    case (Inr plans)
    let ?guarded = "FinalizeFieldTransaction c1 (''lua-db-'' @ to_dec (unat (generation c))) plans"
    obtain result s2 where result: "submit_transaction env (guarded_request ?guarded) s1 = (result, s2)" by force
    have "tr_status result \<noteq> kAppliedVerified \<Longrightarrow> mem s2 = mem s1"
      using withdrawn [OF result] assms(2) [OF result] by (cases "tr_status result") auto
    then show ?thesis
      using assms(1) Some planned Inr result m by (auto simp: FinishTransaction_def Let_def split: if_splits)
  qed
qed

end

section \<open>A database on linear memory\<close>

definition sample_db :: "linear_state DatabaseEnv" where
  "sample_db = \<lparr>schema_provider = \<lambda>s. Some sample_registry, db_validation = LinearBackend, db_memory = linear_memory_backend,
     submit_transaction = \<lambda>request. RunTransaction request linear_memory_backend, sort_changes = sort_key pending_key\<rparr>"

lemma sort_key_sorts: "sorts_pending (sort_key pending_key)"
  by (simp add: sorts_pending_def)

interpretation linear_db: database sample_db linear_mem
proof (intro database.intro database_axioms.intro)
  show "table_reader (db_validation sample_db) linear_mem"
    using linear.table_reader_axioms by (simp add: sample_db_def)
  show m: "memory_backend (db_memory sample_db) linear_mem"
    using linear_memory.memory_backend_axioms by (simp add: sample_db_def)
  show "\<exists>t t'. linear_mem t = linear_mem s \<and> RunTransaction request (db_memory sample_db) t = (r, t') \<and> linear_mem s' = linear_mem t'"
    if "submit_transaction sample_db request s = (r, s')" for request s r s'
    using that by (auto simp: sample_db_def)
  show "linear_mem s' = linear_mem s"
    if "submit_transaction sample_db request s = (r, s')" "tr_status r = kRejected \<or> tr_status r = kRolledBackVerified"
    for request s r s'
    using that linear_memory.run_frame(1) by (auto simp: sample_db_def)
qed (simp add: sample_db_def sort_key_sorts)

section \<open>Properties\<close>

text \<open>C38: all or nothing. Once a change was refused in a transaction, or a transaction was nested in it, finishing the
  transaction fails without planning or submitting anything, even when the script has caught the error; the same holds
  when nothing was changed. Whatever the outcome, the API is ready for the next transaction.\<close>

theorem refused_transaction:
  assumes "in_transaction env api c s changes refused" and "refused \<or> changes = []"
  shows "\<exists>message. FinishTransaction env api c s = (Inl message, new_api, c, s) \<and>
    message = (if refused then ''transaction callback contained a refused change'' else ''transaction contains no field changes'')"
  using in_transaction_state [OF assms(1)] assms(2)
  by (cases api) (auto simp: FinishTransaction_def new_api_def SetError_def)

theorem refused_transaction_witness:
  "\<exists>message. FinishTransaction sample_db (PoisonTransaction (snd (BeginTransaction new_api))) sample_catalog
     (sample_linear sample_bytes) = (Inl message, new_api, sample_catalog, sample_linear sample_bytes)"
proof -
  let ?api = "snd (BeginTransaction new_api)"
  have "BeginTransaction new_api = (Inr (), ?api)" by (simp add: BeginTransaction_def new_api_def)
  from in_transaction.begun [OF this]
  have "in_transaction sample_db ?api sample_catalog (sample_linear sample_bytes) [] False" .
  moreover have "SetField sample_catalog (schema_provider sample_db (sample_linear sample_bytes)) (\<lambda>_. []) [] ?api =
      (Inl ''transaction userdata expected'', PoisonTransaction ?api)"
    by (simp add: SetField_def BeginTransaction_def new_api_def TransactionValue_def lua_argument_def)
  ultimately have "in_transaction sample_db (PoisonTransaction ?api) sample_catalog (sample_linear sample_bytes) [] True"
    by (rule in_transaction.refused_change)
  from refused_transaction [OF this] show ?thesis by auto
qed

text \<open>C39: what a transaction that succeeds has done. No change was refused; for each record, in the order of tables and
  rows, exactly the changes the script made to it were planned together, in whatever order the sort leaves the changes
  of one record; every byte the plans rely on was as planned, every byte they replace is in memory, and nothing else in memory has changed.\<close>

theorem transaction_writes:
  assumes "database env mem" and "in_transaction env api c s changes refused"
    and "FinishTransaction env api c s = (Inr u, api', c', s')"
  shows "\<not> refused \<and> changes \<noteq> [] \<and> api' = new_api \<and> distinct (map change_identity changes) \<and>
    (\<exists>schema groups plans. schema_provider env s = Some schema \<and> grouped changes groups \<and>
       list_all2 (group_planned (db_accessor env schema)) groups plans \<and>
       (\<forall>q \<in> set (concat (map inputs_of plans)). \<forall>x \<in> input_range q.
          mem s x = input_expected_at q x \<and> (op_kind q = kWrite \<longrightarrow> mem s' x = input_replacement_at q x)) \<and>
       (\<forall>x. x \<notin> input_writes plans \<longrightarrow> mem s' x = mem s x))"
proof -
  note state = in_transaction_state [OF assms(2)]
  have "\<not> refused \<and> changes \<noteq> []"
    using assms(3) state by (auto simp: FinishTransaction_def Let_def)
  moreover have "api' = new_api" using FinishTransaction_api [OF assms(3)] state by blast
  moreover from database.finished_writes [OF assms(1,3)]
  have "\<exists>schema groups plans. schema_provider env s = Some schema \<and> grouped changes groups \<and>
       list_all2 (group_planned (db_accessor env schema)) groups plans \<and>
       (\<forall>q \<in> set (concat (map inputs_of plans)). \<forall>x \<in> input_range q.
          mem s x = input_expected_at q x \<and> (op_kind q = kWrite \<longrightarrow> mem s' x = input_replacement_at q x)) \<and>
       (\<forall>x. x \<notin> input_writes plans \<longrightarrow> mem s' x = mem s x)"
    using state by metis
  ultimately show ?thesis using state by blast
qed

text \<open>A script that sets the speed of the third player of the sample table to 5.\<close>

definition sample_call :: "LuaValue list" where
  "sample_call = [TransactionUserdata, RecordUserdata sample_table_handle 2, LuaText ''SpeedRating'', LuaInteger 5]"

definition sample_pending :: PendingChange where
  "sample_pending = \<lparr>pending_handle = sample_table_handle, pending_row = 2, pending_field = hd sample_changes\<rparr>"

abbreviation sample_api :: LuaDatabaseApi where
  "sample_api \<equiv> \<lparr>transaction_active = True, transaction_failed = False, pending_changes = [sample_pending]\<rparr>"

lemma sample_in_transaction:
  "in_transaction sample_db sample_api sample_catalog (sample_linear sample_bytes) [sample_pending] False"
proof -
  let ?begun = "\<lparr>transaction_active = True, transaction_failed = False, pending_changes = []\<rparr>"
  have "BeginTransaction new_api = (Inr (), ?begun)" by (simp add: BeginTransaction_def new_api_def)
  from in_transaction.begun [OF this]
  have "in_transaction sample_db ?begun sample_catalog (sample_linear sample_bytes) [] False" .
  moreover have "SetField sample_catalog (schema_provider sample_db (sample_linear sample_bytes)) (\<lambda>_. []) sample_call ?begun =
      (Inr [], sample_api)"
  proof -
    have "session_table_id (entry_descriptor sample_entry) = 4256" "field_encoding sample_field \<noteq> ''packed-reference''"
      by (simp_all add: sample_entry_def sample_field_def)
    then show ?thesis
      by (simp add: SetField_def sample_call_def lua_argument_def TransactionValue_def RecordValue_def PrepareSetField_def
          PoisonTransaction_def sample_handle sample_entry_kind sample_db_def sample_lookup change_value_of_def sample_pending_def
          sample_changes_def Let_def)
  qed
  ultimately have "in_transaction sample_db sample_api sample_catalog (sample_linear sample_bytes)
      ([] @ [last (pending_changes sample_api)]) False"
    by (rule in_transaction.changed)
  then show ?thesis by simp
qed

lemma sample_finished:
  obtains s' where "FinishTransaction sample_db sample_api sample_catalog (sample_linear sample_bytes) =
    (Inr (), new_api, sample_catalog, s')"
proof -
  let ?s = "sample_linear sample_bytes"
  let ?guarded = "FinalizeFieldTransaction sample_catalog ''lua-db-1'' [sample_write_plan]"
  have planned: "plan_groups sample_accessor [sample_pending] [] sample_catalog ?s =
      (Inr [sample_write_plan], sample_catalog, ?s)"
    using sample_planned by (simp add: plan_groups.simps sample_pending_def sample_changes_def Let_def)
      (simp add: sample_write_plan_def)
  have ok: "guarded_ok ?guarded" by (simp add: FinalizeFieldTransaction_def sample_finalized)
  have "IsValidTransactionId ''lua-db-1''" by (simp add: IsValidTransactionId_def is_id_char_def)
  note valid = finalize_valid_request [OF ok this]
  have "tx_operations (guarded_request ?guarded) = tx_operations (guarded_request sample_assembled)"
    by (simp add: FinalizeFieldTransaction_def sample_finalized)
  then have "tr_status (fst (RunTransaction (guarded_request ?guarded) linear_memory_backend ?s)) = kAppliedVerified"
    using linear_reliable.RunTransaction_outcome [of "guarded_request ?guarded" ?s] valid sample_assembled_usable
    by (simp add: sample_holds_def)
  then obtain r s' where run: "RunTransaction (guarded_request ?guarded) linear_memory_backend ?s = (r, s')"
      "tr_status r = kAppliedVerified"
    by (cases "RunTransaction (guarded_request ?guarded) linear_memory_backend ?s") simp
  have "unat (generation sample_catalog) = 1" by (simp add: sample_catalog_eq)
  moreover have "to_dec 1 = ''1''" by code_simp
  moreover have "db_accessor sample_db sample_registry = sample_accessor"
    by (simp add: db_accessor_def sample_db_def sample_accessor_def)
  ultimately have "FinishTransaction sample_db sample_api sample_catalog ?s = (Inr (), new_api, sample_catalog, s')"
    using planned ok run by (simp add: FinishTransaction_def sample_db_def new_api_def Let_def)
  then show thesis by (rule that)
qed

theorem transaction_writes_witness:
  "\<exists>s'. FinishTransaction sample_db sample_api sample_catalog (sample_linear sample_bytes) = (Inr (), new_api, sample_catalog, s') \<and>
     (\<exists>plans. \<forall>x. x \<notin> input_writes plans \<longrightarrow> linear_mem s' x = linear_mem (sample_linear sample_bytes) x)"
proof -
  obtain s' where "FinishTransaction sample_db sample_api sample_catalog (sample_linear sample_bytes) =
      (Inr (), new_api, sample_catalog, s')" by (rule sample_finished)
  with transaction_writes [OF linear_db.database_axioms sample_in_transaction this] show ?thesis by blast
qed

end
