(* ===== verification/Host_Policy.thy ===== *)
theory Host_Policy
  imports Build_Policy Hex_Text
begin

text \<open>
  How the host decides what it may do (lua_host.cpp): the identity of the executable, the environment variables of
  the smoke tests, the scan for a running anti-cheat and the gates built on them. The calls of Windows they use
  are the record \<open>HostPlatform\<close>, functions of the state of the process; the snapshot of the running processes may
  change that state. Hashing a file is a parameter that has no digest when one of its calls fails.
\<close>

record ProcessEntry =
  exe_file :: string
  entry_process_id :: u32

record 's HostPlatform =
  ModuleFileName :: "'s \<Rightarrow> string option"
  FileAttributes :: "'s \<Rightarrow> string \<Rightarrow> (u32 \<times> u32) option"
  FileDigest :: "'s \<Rightarrow> string \<Rightarrow> byte list option"
  EnvironmentVariable :: "'s \<Rightarrow> string \<Rightarrow> string option"
  ProcessSnapshot :: "'s \<Rightarrow> ProcessEntry list option \<times> 's"
  OwnProcessId :: "'s \<Rightarrow> u32"
  ProcessImage :: "'s \<Rightarrow> u32 \<Rightarrow> string option option"
  SystemClock :: "'s \<Rightarrow> 64 word \<times> 's"

section \<open>The executable\<close>

definition digest_text :: "byte list \<Rightarrow> string" where
  "digest_text digest = concat (map (\<lambda>b. [upper_digit (unat b div 16), upper_digit (unat b mod 16)]) digest)"

definition Sha256File :: "'s HostPlatform \<Rightarrow> 's \<Rightarrow> string \<Rightarrow> string" where
  "Sha256File p s path = (case FileDigest p s path of None \<Rightarrow> [] | Some digest \<Rightarrow> digest_text digest)"

definition file_size :: "u32 \<times> u32 \<Rightarrow> u64" where
  "file_size parts = (case parts of (high, low) \<Rightarrow> push_bit 32 (ucast high) OR ucast low)"

definition ResolveGameBuild :: "'s HostPlatform \<Rightarrow> 's \<Rightarrow> Build option" where
  "ResolveGameBuild p s =
     (case ModuleFileName p s of
        None \<Rightarrow> None
      | Some executable \<Rightarrow>
          (case FileAttributes p s executable of
             None \<Rightarrow> None
           | Some parts \<Rightarrow> FindBuild (unat (file_size parts)) (Sha256File p s executable)))"

section \<open>The environment of the smoke tests\<close>

text \<open>The variable fits the buffer of two characters exactly when it has one.\<close>

definition EnvironmentIsOne :: "'s HostPlatform \<Rightarrow> 's \<Rightarrow> string \<Rightarrow> bool" where
  "EnvironmentIsOne p s name =
     (case EnvironmentVariable p s name of None \<Rightarrow> False | Some v \<Rightarrow> length v = 1 \<and> hd v = CHR ''1'')"

definition file_name :: "string \<Rightarrow> string" where
  "file_name path = rev (takeWhile (\<lambda>c. c \<noteq> CHR 0x5C \<and> c \<noteq> CHR ''/'') (rev path))"

definition same_ignoring_case :: "string \<Rightarrow> string \<Rightarrow> bool" where
  "same_ignoring_case a b \<longleftrightarrow> map toupper a = map toupper b"

definition SmokeWritesAllowed :: "'s HostPlatform \<Rightarrow> 's \<Rightarrow> bool" where
  "SmokeWritesAllowed p s =
     (case ModuleFileName p s of
        None \<Rightarrow> False
      | Some executable \<Rightarrow>
          if \<not> same_ignoring_case (file_name executable) ''cfb27_protocol_smoke.exe'' then False
          else EnvironmentIsOne p s ''CFB27_SMOKE_ALLOW_WRITES'')"

definition SmokeRollbackUnverifiedRequested :: "'s HostPlatform \<Rightarrow> 's \<Rightarrow> bool" where
  "SmokeRollbackUnverifiedRequested p s \<longleftrightarrow>
     SmokeWritesAllowed p s \<and> EnvironmentIsOne p s ''CFB27_SMOKE_FORCE_ROLLBACK_UNVERIFIED''"

definition SmokeApplyFailureRequested :: "'s HostPlatform \<Rightarrow> 's \<Rightarrow> bool" where
  "SmokeApplyFailureRequested p s \<longleftrightarrow>
     SmokeWritesAllowed p s \<and> EnvironmentIsOne p s ''CFB27_SMOKE_FORCE_APPLY_FAILURE''"

section \<open>The anti-cheat\<close>

definition contains_text :: "string \<Rightarrow> string \<Rightarrow> bool" where
  "contains_text part text \<longleftrightarrow> list_ex (\<lambda>n. take (length part) (drop n text) = part) [0..<Suc (length text)]"

definition anticheat_name :: "string \<Rightarrow> bool" where
  "anticheat_name name \<longleftrightarrow>
     contains_text ''Javelin'' name \<or> contains_text ''EAAntiCheat'' name \<or> contains_text ''EAAnticheat'' name"

text \<open>A process of such a name counts unless its image can be found and is smaller than a megabyte.\<close>

definition counts_as_anticheat :: "'s HostPlatform \<Rightarrow> 's \<Rightarrow> ProcessEntry \<Rightarrow> bool" where
  "counts_as_anticheat p s entry =
     (case ProcessImage p s (entry_process_id entry) of
        None \<Rightarrow> True
      | Some None \<Rightarrow> True
      | Some (Some path) \<Rightarrow>
          (case FileAttributes p s path of
             None \<Rightarrow> True
           | Some parts \<Rightarrow> 1024 * 1024 \<le> file_size parts))"

fun find_anticheat :: "'s HostPlatform \<Rightarrow> 's \<Rightarrow> ProcessEntry list \<Rightarrow> bool" where
  "find_anticheat p s [] = False"
| "find_anticheat p s (entry # entries) =
     (if anticheat_name (exe_file entry) \<and> entry_process_id entry \<noteq> OwnProcessId p s
      then if counts_as_anticheat p s entry then True else find_anticheat p s entries
      else find_anticheat p s entries)"

definition RealAnticheatIsRunning :: "'s HostPlatform \<Rightarrow> 's \<Rightarrow> bool \<times> 's" where
  "RealAnticheatIsRunning p s =
     (case ProcessSnapshot p s of
        (None, s) \<Rightarrow> (True, s)
      | (Some entries, s) \<Rightarrow> (find_anticheat p s entries, s))"

section \<open>The gates\<close>

definition WriteEnvironmentAllowed :: "'s HostPlatform \<Rightarrow> Build option \<Rightarrow> 's \<Rightarrow> bool \<times> 's" where
  "WriteEnvironmentAllowed p build s =
     (let (anticheat, s) = RealAnticheatIsRunning p s
      in (WritesAllowed build anticheat False (SmokeWritesAllowed p s), s))"

definition ResearchWatchesAllowed :: "'s HostPlatform \<Rightarrow> Build option \<Rightarrow> 's \<Rightarrow> bool \<times> 's" where
  "ResearchWatchesAllowed p build s =
     (let (anticheat, s) = RealAnticheatIsRunning p s
      in (Build_Policy.ResearchWatchesAllowed build anticheat, s))"

definition NativeCallsAllowed :: "'s HostPlatform \<Rightarrow> Build option \<Rightarrow> bool \<Rightarrow> 's \<Rightarrow> bool \<times> 's" where
  "NativeCallsAllowed p build disabled s =
     (let (anticheat, s) = RealAnticheatIsRunning p s
      in (WritesAllowed build anticheat disabled (SmokeWritesAllowed p s), s))"

definition WriteBuildDenialText :: "Build option \<Rightarrow> string" where
  "WriteBuildDenialText build =
     (if build = None then ''UNKNOWN_BUILD: executable identity is not registered''
      else if \<not> IsCertified build then ''DIAGNOSTIC_BUILD_WRITE_BLOCKED: executable identity is diagnostic only''
      else ''Write environment is not allowed'')"

section \<open>What the gates let through\<close>

lemma find_anticheat_iff:
  "find_anticheat p s entries \<longleftrightarrow> (\<exists>entry \<in> set entries. anticheat_name (exe_file entry) \<and>
     entry_process_id entry \<noteq> OwnProcessId p s \<and> counts_as_anticheat p s entry)"
  by (induction p s entries rule: find_anticheat.induct) auto

text \<open>Whoever may write is certified or the smoke test, and saw no anti-cheat in its snapshot.\<close>

definition may_write :: "'s HostPlatform \<Rightarrow> Build option \<Rightarrow> 's \<Rightarrow> bool" where
  "may_write p build s \<longleftrightarrow> (IsCertified build \<or> SmokeWritesAllowed p s) \<and>
     (\<exists>s0 entries. ProcessSnapshot p s0 = (Some entries, s) \<and>
        (\<forall>entry \<in> set entries. anticheat_name (exe_file entry) \<longrightarrow> entry_process_id entry \<noteq> OwnProcessId p s \<longrightarrow>
           \<not> counts_as_anticheat p s entry))"

lemma RealAnticheat_absent:
  assumes "RealAnticheatIsRunning p s = (False, s')"
  obtains entries where "ProcessSnapshot p s = (Some entries, s')" "\<not> find_anticheat p s' entries"
  using assms by (auto simp: RealAnticheatIsRunning_def split: prod.splits option.splits)

lemma WriteEnvironmentAllowed_may_write: "WriteEnvironmentAllowed p build s = (True, s') \<Longrightarrow> may_write p build s'"
  by (auto simp: WriteEnvironmentAllowed_def WritesAllowed_def may_write_def find_anticheat_iff
      split: prod.splits elim!: RealAnticheat_absent) blast+

lemma NativeCallsAllowed_may_write:
  "NativeCallsAllowed p build disabled s = (True, s') \<Longrightarrow> may_write p build s' \<and> \<not> disabled"
  by (auto simp: NativeCallsAllowed_def WritesAllowed_def may_write_def find_anticheat_iff
      split: prod.splits elim!: RealAnticheat_absent) blast+

lemma NativeCalls_disabled: "NativeCallsAllowed p build True s = (allowed, s') \<Longrightarrow> \<not> allowed"
  by (auto simp: NativeCallsAllowed_def WritesAllowed_def split: prod.splits)

text \<open>Each gate takes one snapshot.\<close>

lemma gate_states:
  "snd (RealAnticheatIsRunning p s) = snd (ProcessSnapshot p s)"
  "snd (WriteEnvironmentAllowed p build s) = snd (ProcessSnapshot p s)"
  "snd (ResearchWatchesAllowed p build s) = snd (ProcessSnapshot p s)"
  "snd (NativeCallsAllowed p build disabled s) = snd (ProcessSnapshot p s)"
  by (auto simp: RealAnticheatIsRunning_def WriteEnvironmentAllowed_def ResearchWatchesAllowed_def NativeCallsAllowed_def
      split: prod.split option.split)

end
