(* ===== verification/Host_State.thy ===== *)
theory Host_State
  imports Host_Policy Host_Events Lua_Db_Api Process_Discovery Board_Mutation Telemetry Research_Watch
begin

text \<open>
  The state of the host (the globals of lua_host.cpp) and the world it runs in. \<open>HostState\<close> holds the process as
  the operating system and the game see it, \<open>process_of\<close>, and beside it what the host keeps. \<open>HostWorld\<close> is
  everything the host calls that is not its own code: Windows, the native code of the game, the clocks, the JSON and hash
  libraries, and Lua. A script is what it does: a tree of calls of the functions the host registers, each followed by
  whatever the script does with the result. The mutexes are left out: each request, tick and script runs to its end.
\<close>

section \<open>Scripts\<close>

text \<open>The functions of the tables \<open>cfb\<close> and \<open>CFB27.db\<close> and of its userdata.\<close>

datatype HostFunction =
    cfb_module_base | cfb_read_u8 | cfb_write_u8 | cfb_call | cfb_watch | cfb_watch_exec | cfb_watch_hits | cfb_unwatch
  | cfb_aob_scan | cfb_log | cfb_emit | cfb_on
  | db_get_table | db_get_record | db_get_field | db_set_field

text \<open>A call returns its values or raises an error; the error object of Lua may be no text (\<open>None\<close>).\<close>

type_synonym lua_return = "string option + LuaResult list"

text \<open>A script has returned, raised an error, calls a function, or runs a database transaction with the function
  it was given, whose effects are those of a script too. These are the effects of a script on the host. The standard
  libraries of Lua, which \<open>luaL_openlibs\<close> opens for the scripts, are not modelled: files, the clock, and
  \<open>os.execute\<close> or \<open>package.loadlib\<close>, which run other code, have effects beside these.\<close>

datatype LuaScript =
    Returned
  | Raised "string option"
  | Calls HostFunction lua_heap "LuaValue list" "lua_return \<Rightarrow> LuaScript"
  | Transacts "LuaValue list" LuaScript "lua_return \<Rightarrow> LuaScript"

section \<open>State and world\<close>

record 's HostState =
  process_of :: 's
  game_build :: "Build option"
  session_writes_disabled :: bool
  host_ready :: bool
  scripts_run :: u64
  tick_count :: u64
  last_tick_event_ms :: "64 word"
  last_error :: string
  event_log :: EventLog
  registered_types :: "string set"
  frtk_profile :: "ProfileBundle option"
  frtk_catalog :: SessionCatalog
  board_cache :: "RuntimeCache option"
  watch_state_of :: Watch
  database_api :: LuaDatabaseApi
  callbacks :: "(string \<times> int) list"
  lua_started :: bool

text \<open>\<open>steady_start\<close> notes the start of an operation with a deadline, \<open>steady_elapsed\<close> is the time since then in
  milliseconds. \<open>load_chunk\<close> is what a chunk of the given name and text does, \<open>callback_script\<close> what the function behind a
  reference does, \<open>new_reference\<close> the reference \<open>luaL_ref\<close> gives. \<open>lua_checkinteger\<close> and \<open>lua_checkstring\<close> are the
  conversions of the Lua library, \<open>Inl\<close> of the error they raise; \<open>lua_functionerror\<close> is the error of a value that is no function,
  \<open>lua_invalid_conversion\<close> the one of a format with a conversion Lua does not have. \<open>change_sort\<close> is \<open>std::sort\<close> on the
  pending changes of a transaction.\<close>

record 's HostWorld =
  platform :: "'s HostPlatform"
  discovery_process :: "'s HostProcess"
  game :: "'s Game"
  thread_api :: "'s ThreadApi"
  peek_byte :: "'s \<Rightarrow> addr \<Rightarrow> byte"
  poke_byte :: "addr \<Rightarrow> byte \<Rightarrow> 's \<Rightarrow> 's"
  steady_start :: "nat \<Rightarrow> 's \<Rightarrow> 's"
  steady_elapsed :: "'s \<Rightarrow> int"
  dump_json :: "Json \<Rightarrow> string option"
  canonical_json :: "Json \<Rightarrow> string"
  sha256_bytes :: "string \<Rightarrow> byte list option"
  lua_checkinteger :: "LuaValue \<Rightarrow> string + 64 word"
  lua_checkstring :: "LuaValue \<Rightarrow> string + string"
  lua_functionerror :: "LuaValue \<Rightarrow> string"
  lua_invalid_conversion :: "string \<Rightarrow> string"
  image_size :: "'s \<Rightarrow> u64"
  load_chunk :: "string \<Rightarrow> string \<Rightarrow> 's \<Rightarrow> LuaScript"
  callback_script :: "int \<Rightarrow> 's \<Rightarrow> LuaScript"
  new_reference :: "(string \<times> int) list \<Rightarrow> LuaValue \<Rightarrow> int"
  script_file :: "string \<Rightarrow> 's \<Rightarrow> string option"
  change_sort :: "PendingChange list \<Rightarrow> PendingChange list"

section \<open>Operations on parts of the state\<close>

definition on_state :: "('s \<Rightarrow> 'a \<times> 's) \<Rightarrow> 's HostState \<Rightarrow> 'a \<times> 's HostState" where
  "on_state f h = (let (r, s) = f (process_of h) in (r, h\<lparr>process_of := s\<rparr>))"

definition NowMilliseconds :: "'s HostWorld \<Rightarrow> 's HostState \<Rightarrow> 64 word \<times> 's HostState" where
  "NowMilliseconds w = on_state (SystemClock (platform w))"

definition append_event :: "'s HostWorld \<Rightarrow> string \<Rightarrow> Json \<Rightarrow> 's HostState \<Rightarrow> 's HostState" where
  "append_event w type payload h =
     (let (now, h) = NowMilliseconds w h in h\<lparr>event_log := AppendEvent type payload now (event_log h)\<rparr>)"

definition log_message_of :: "'s HostWorld \<Rightarrow> string \<Rightarrow> 's HostState \<Rightarrow> 's HostState" where
  "log_message_of w message h =
     (let (now, h) = NowMilliseconds w h in h\<lparr>event_log := Log message now (event_log h)\<rparr>)"

definition CertifiedBuild :: "'s HostState \<Rightarrow> bool" where
  "CertifiedBuild h = IsCertified (game_build h)"

definition write_environment :: "'s HostWorld \<Rightarrow> 's HostState \<Rightarrow> bool \<times> 's HostState" where
  "write_environment w h = on_state (WriteEnvironmentAllowed (platform w) (game_build h)) h"

definition native_calls :: "'s HostWorld \<Rightarrow> 's HostState \<Rightarrow> bool \<times> 's HostState" where
  "native_calls w h = on_state (NativeCallsAllowed (platform w) (game_build h) (session_writes_disabled h)) h"

definition research_watches :: "'s HostWorld \<Rightarrow> 's HostState \<Rightarrow> bool \<times> 's HostState" where
  "research_watches w h = on_state (Host_Policy.ResearchWatchesAllowed (platform w) (game_build h)) h"

definition anticheat_running :: "'s HostWorld \<Rightarrow> 's HostState \<Rightarrow> bool \<times> 's HostState" where
  "anticheat_running w = on_state (RealAnticheatIsRunning (platform w))"

section \<open>The backends on the whole state\<close>

text \<open>A backend object without scans of the smoke test, as the host constructs it for reads and for the database.\<close>

definition fresh_backend :: "bool \<Rightarrow> 's \<Rightarrow> 's DiscoveryProcess" where
  "fresh_backend smoke s = \<lparr>process_state = s, smoke_timeout_progress = smoke, smoke_timeout_scan_count = 0\<rparr>"

definition host_process_of :: "'s HostWorld \<Rightarrow> Build option \<Rightarrow> 's HostProcess" where
  "host_process_of w build = (discovery_process w)\<lparr>certified_build := \<lambda>s. IsCertified build\<rparr>"

definition with_backend ::
  "('s DiscoveryProcess \<Rightarrow> 'a \<times> 's DiscoveryProcess) \<Rightarrow> 's HostState \<Rightarrow> 'a \<times> 's HostState" where
  "with_backend f h = (let (r, d) = f (fresh_backend False (process_of h)) in (r, h\<lparr>process_of := process_state d\<rparr>))"

text \<open>A filter of the caller sees the host with the process of the backend.\<close>

definition accept_in :: "'s HostState \<Rightarrow> 's HostState accept \<Rightarrow> 's DiscoveryProcess accept" where
  "accept_in h accept observation d =
     (let (accepted, h) = accept observation (h\<lparr>process_of := process_state d\<rparr>)
      in (accepted, d\<lparr>process_state := process_of h\<rparr>))"

definition host_validation :: "'s HostWorld \<Rightarrow> Build option \<Rightarrow> 's HostState DiscoveryBackend" where
  "host_validation w build =
     (let backend = ProcessDiscoveryBackend (host_process_of w build)
      in \<lparr>ScanTableDescriptor = \<lambda>table_id uid n accept h.
            with_backend (ScanTableDescriptor backend table_id uid n (accept_in h accept)) h,
          Scan = \<lambda>fingerprint n. with_backend (Scan backend fingerprint n),
          ReadBatch = \<lambda>requests. with_backend (ReadBatch backend requests),
          ExtentExists = \<lambda>base n. with_backend (ExtentExists backend base n),
          Expired = with_backend (Expired backend)\<rparr>)"

definition host_memory :: "'s HostWorld \<Rightarrow> 's HostState MemoryBackend" where
  "host_memory w =
     (let backend = ProcessMemoryBackend (host_os (discovery_process w))
      in \<lparr>Validate = \<lambda>h a n writable. on_state (\<lambda>s. Validate backend s a n writable) h,
          Read = \<lambda>h a n. on_state (\<lambda>s. Read backend s a n) h,
          Write = \<lambda>h a bytes. on_state (\<lambda>s. Write backend s a bytes) h\<rparr>)"

text \<open>The transactions of scripts (\<open>RegisterApi\<close>): refused when writes are disabled or not allowed; a rollback that could
  not be verified disables the writes of the session.\<close>

definition lock_session :: "TransactionResult \<Rightarrow> 's HostState \<Rightarrow> 's HostState" where
  "lock_session result h = (if tr_status result = kRollbackUnverified then h\<lparr>session_writes_disabled := True\<rparr> else h)"

definition submit_lua_transaction ::
  "'s HostWorld \<Rightarrow> TransactionRequest \<Rightarrow> 's HostState \<Rightarrow> TransactionResult \<times> 's HostState" where
  "submit_lua_transaction w request h =
     (if session_writes_disabled h then (Rejected ''writes_disabled'', h)
      else let (allowed, h) = write_environment w h
           in if \<not> allowed then (Rejected ''write_environment_denied'', h)
              else let (result, h) = RunTransaction request (host_memory w) h in (result, lock_session result h))"

definition lua_database :: "'s HostWorld \<Rightarrow> Build option \<Rightarrow> 's HostState DatabaseEnv" where
  "lua_database w build =
     \<lparr>schema_provider = \<lambda>h. map_option bundle_schema (frtk_profile h), db_validation = host_validation w build,
      db_memory = host_memory w, submit_transaction = submit_lua_transaction w,
      sort_changes = change_sort w\<rparr>"

end
