(* ===== verification/Lua_Telemetry.thy ===== *)
theory Lua_Telemetry
  imports Telemetry Lua_Values Protocol
begin

text \<open>
  The payload of \<open>cfb.emit\<close> (lua_host.cpp): the conversion of a Lua value to JSON, which counts the bytes of the text as
  it goes and refuses cycles, deep tables, sparse or mixed tables and keys that carry addresses or bytes. The
  function counts the levels left of the four allowed, so it ends on every heap, cyclic ones included.
\<close>

definition AddLuaTelemetryBytes :: "nat \<Rightarrow> nat \<Rightarrow> string + nat" where
  "AddLuaTelemetryBytes bytes used =
     (if 16 * 1024 - used < bytes then Inl ''serialized telemetry payload must not exceed 16 KiB'' else Inr (used + bytes))"

definition AddLuaTelemetryValueBytes :: "(Json \<Rightarrow> string option) \<Rightarrow> Json \<Rightarrow> nat \<Rightarrow> string + nat" where
  "AddLuaTelemetryValueBytes dump item used =
     (case dump item of
        None \<Rightarrow> Inl ''telemetry strings must contain valid UTF-8''
      | Some text \<Rightarrow> AddLuaTelemetryBytes (length text) used)"

definition IsForbiddenTelemetryKey :: "string \<Rightarrow> bool" where
  "IsForbiddenTelemetryKey key \<longleftrightarrow>
     key \<in> {''address'', ''addressHex'', ''regionBase'', ''bytesHex'', ''contextAddress'', ''contextHex''}"

text \<open>A value that is its own output.\<close>

definition scalar_json :: "(Json \<Rightarrow> string option) \<Rightarrow> Json \<Rightarrow> nat \<Rightarrow> string + Json \<times> nat" where
  "scalar_json dump output used =
     (case AddLuaTelemetryValueBytes dump output used of Inl e \<Rightarrow> Inl e | Inr used \<Rightarrow> Inr (output, used))"

text \<open>The checks of a key before its value is converted; the array items and the entries of the object so far.\<close>

record TableSoFar =
  saw_array_key :: bool
  saw_object_key :: bool
  array_items :: "(nat \<times> Json) list"
  object_entries :: "(string \<times> Json) list"

definition new_table :: TableSoFar where
  "new_table = \<lparr>saw_array_key = False, saw_object_key = False, array_items = [], object_entries = []\<rparr>"

definition check_key ::
  "(Json \<Rightarrow> string option) \<Rightarrow> LuaValue \<Rightarrow> TableSoFar \<Rightarrow> nat \<Rightarrow> string + TableSoFar \<times> nat" where
  "check_key dump key t used =
     (case key of
        LuaInteger n \<Rightarrow>
          if saw_object_key t then Inl ''telemetry tables must not mix array and object keys''
          else if sint n < 1 \<or> kMaxArrayEntries < unat n
          then Inl ''telemetry arrays must be dense and contain at most 128 entries''
          else if array_items t = [] then Inr (t\<lparr>saw_array_key := True\<rparr>, used)
          else (case AddLuaTelemetryBytes 1 used of Inl e \<Rightarrow> Inl e | Inr used \<Rightarrow> Inr (t\<lparr>saw_array_key := True\<rparr>, used))
      | LuaText name \<Rightarrow>
          if saw_array_key t then Inl ''telemetry tables must not mix array and object keys''
          else if kMaxStringBytes < length name \<or> kMaxObjectKeys \<le> length (object_entries t)
          then Inl ''telemetry objects must contain at most 64 bounded string keys''
          else if IsForbiddenTelemetryKey name then Inl ''telemetry payloads must not contain address or raw-byte keys''
          else (case AddLuaTelemetryValueBytes dump (JString name) used of
                  Inl e \<Rightarrow> Inl e
                | Inr used \<Rightarrow>
                    (case AddLuaTelemetryBytes (if object_entries t = [] then 1 else 2) used of
                       Inl e \<Rightarrow> Inl e
                     | Inr used \<Rightarrow> Inr (t\<lparr>saw_object_key := True\<rparr>, used)))
      | _ \<Rightarrow> Inl ''telemetry object keys must be strings'')"

definition put_item :: "LuaValue \<Rightarrow> Json \<Rightarrow> TableSoFar \<Rightarrow> TableSoFar" where
  "put_item key item t =
     (case key of
        LuaInteger n \<Rightarrow> t\<lparr>array_items := array_items t @ [(unat n, item)]\<rparr>
      | LuaText name \<Rightarrow> t\<lparr>object_entries := put_entry name item (object_entries t)\<rparr>
      | _ \<Rightarrow> t)"

definition finish_table :: "TableSoFar \<Rightarrow> string + Json" where
  "finish_table t =
     (if saw_array_key t
      then if kMaxArrayEntries < length (array_items t) then Inl ''telemetry arrays must not exceed 128 entries''
           else let items = sort_key fst (array_items t)
                in if map fst items = [1..<Suc (length items)] then Inr (JArray (map snd items))
                   else Inl ''telemetry arrays must not be sparse''
      else Inr (JObject (object_entries t)))"

text \<open>\<open>left\<close> is \<open>5 - depth\<close>: at depth 1 four levels of tables are left.\<close>

function LuaToTelemetryJson ::
  "(Json \<Rightarrow> string option) \<Rightarrow> lua_heap \<Rightarrow> nat \<Rightarrow> LuaValue \<Rightarrow> nat set \<Rightarrow> nat \<Rightarrow> string + Json \<times> nat"
  and convert_entries ::
  "(Json \<Rightarrow> string option) \<Rightarrow> lua_heap \<Rightarrow> nat \<Rightarrow> (LuaValue \<times> LuaValue) list \<Rightarrow> nat set \<Rightarrow> TableSoFar \<Rightarrow> nat \<Rightarrow>
   string + TableSoFar \<times> nat" where
  "LuaToTelemetryJson dump heap left v visiting used =
     (case v of
        LuaNil \<Rightarrow> scalar_json dump JNull used
      | LuaBoolean b \<Rightarrow> scalar_json dump (JBool b) used
      | LuaInteger n \<Rightarrow> scalar_json dump (JInteger n) used
      | LuaFloat bits \<Rightarrow>
          if \<not> isfinite bits then Inl ''telemetry numbers must be finite'' else scalar_json dump (JFloat bits) used
      | LuaText text \<Rightarrow>
          if kMaxStringBytes < length text then Inl ''telemetry strings must not exceed 1024 bytes''
          else scalar_json dump (JString text) used
      | LuaTable identity \<Rightarrow>
          (case left of
             0 \<Rightarrow> Inl ''telemetry payload depth must not exceed 4''
           | Suc left \<Rightarrow>
               if identity \<in> visiting then Inl ''telemetry payload contains a table cycle''
               else (case AddLuaTelemetryBytes 2 used of
                       Inl e \<Rightarrow> Inl e
                     | Inr used \<Rightarrow>
                         (case convert_entries dump heap left (heap identity) (insert identity visiting) new_table used of
                            Inl e \<Rightarrow> Inl e
                          | Inr (t, used) \<Rightarrow>
                              (case finish_table t of Inl e \<Rightarrow> Inl e | Inr output \<Rightarrow> Inr (output, used)))))
      | _ \<Rightarrow> Inl ''telemetry payload contains an unsupported Lua value'')"
| "convert_entries dump heap left [] visiting t used = Inr (t, used)"
| "convert_entries dump heap left ((key, item) # entries) visiting t used =
     (case check_key dump key t used of
        Inl e \<Rightarrow> Inl e
      | Inr (t, used) \<Rightarrow>
          (case LuaToTelemetryJson dump heap left item visiting used of
             Inl e \<Rightarrow> Inl e
           | Inr (output, used) \<Rightarrow> convert_entries dump heap left entries visiting (put_item key output t) used))"
  by pat_completeness auto
termination
  by (relation "measures [\<lambda>x. case x of Inl (_, _, left, _) \<Rightarrow> left | Inr (_, _, left, _) \<Rightarrow> left,
      \<lambda>x. case x of Inl _ \<Rightarrow> 0 | Inr (_, _, _, entries, _) \<Rightarrow> Suc (length entries)]") auto


declare LuaToTelemetryJson.simps [simp del]

section \<open>Converted payloads\<close>

lemma AddLuaTelemetryBytes_Inr:
  "used \<le> kMaxSerializedBytes \<Longrightarrow>
   AddLuaTelemetryBytes bytes used = Inr u \<longleftrightarrow> u = used + bytes \<and> u \<le> kMaxSerializedBytes"
  by (auto simp: AddLuaTelemetryBytes_def kMaxSerializedBytes_def)

lemma AddLuaTelemetryValueBytes_Inr:
  "used \<le> kMaxSerializedBytes \<Longrightarrow>
   AddLuaTelemetryValueBytes dump item used = Inr u \<longleftrightarrow>
   (\<exists>text. dump item = Some text \<and> u = used + length text \<and> u \<le> kMaxSerializedBytes)"
  by (auto simp: AddLuaTelemetryValueBytes_def AddLuaTelemetryBytes_Inr split: option.split)

lemma IsForbiddenTelemetryKey_eq: "IsForbiddenTelemetryKey = IsForbiddenKey"
  by (auto simp: IsForbiddenTelemetryKey_def IsForbiddenKey_def fun_eq_iff)

text \<open>A new key goes somewhere between the others.\<close>

lemma put_entry_new:
  "key \<notin> fst ` set entries \<Longrightarrow> \<exists>before after. entries = before @ after \<and> put_entry key item entries = before @ (key, item) # after"
proof (induction entries)
  case (Cons entry entries)
  obtain k v where entry: "entry = (k, v)" by force
  show ?case
  proof (cases "text_less key k")
    case True
    then have "put_entry key item (entry # entries) = [] @ (key, item) # entry # entries" using Cons.prems by (simp add: entry)
    then show ?thesis by blast
  next
    case False
    obtain before after where "entries = before @ after" "put_entry key item entries = before @ (key, item) # after"
      using Cons by auto
    then have "entry # entries = (entry # before) @ after \<and> put_entry key item (entry # entries) = (entry # before) @ (key, item) # after"
      using False Cons.prems by (simp add: entry)
    then show ?thesis by blast
  qed
qed simp

lemma set_put_entry: "fst ` set (put_entry key item entries) = insert key (fst ` set entries)"
  by (simp add: dom_map_of_conv_image_fst [symmetric] map_of_put_entry)

definition item_ok :: "(Json \<Rightarrow> string option) \<Rightarrow> nat \<Rightarrow> Json \<Rightarrow> bool" where
  "item_ok dump depth j \<longleftrightarrow> fits depth j \<and> dump j \<noteq> None"

definition key_ok :: "(Json \<Rightarrow> string option) \<Rightarrow> string \<Rightarrow> bool" where
  "key_ok dump key \<longleftrightarrow> length key \<le> kMaxStringBytes \<and> \<not> IsForbiddenKey key \<and> dump (JString key) \<noteq> None"

definition so_far_ok :: "(Json \<Rightarrow> string option) \<Rightarrow> nat \<Rightarrow> TableSoFar \<Rightarrow> bool" where
  "so_far_ok dump depth t \<longleftrightarrow> list_all (item_ok dump depth) (map snd (array_items t)) \<and>
     list_all (item_ok dump depth) (map snd (object_entries t)) \<and> list_all (key_ok dump) (map fst (object_entries t)) \<and>
     length (object_entries t) \<le> kMaxObjectKeys \<and> \<not> (saw_array_key t \<and> saw_object_key t) \<and>
     (array_items t \<noteq> [] \<longrightarrow> saw_array_key t) \<and> (object_entries t \<noteq> [] \<longrightarrow> saw_object_key t)"

definition text_bytes :: "(Json \<Rightarrow> string option) \<Rightarrow> Json \<Rightarrow> nat" where
  "text_bytes dump j = length (the (dump j))"

definition entry_bytes :: "(Json \<Rightarrow> string option) \<Rightarrow> string \<times> Json \<Rightarrow> nat" where
  "entry_bytes dump entry = text_bytes dump (JString (fst entry)) + 1 + text_bytes dump (snd entry)"

definition table_bytes :: "(Json \<Rightarrow> string option) \<Rightarrow> TableSoFar \<Rightarrow> nat" where
  "table_bytes dump t = sum_list (map (text_bytes dump \<circ> snd) (array_items t)) + (length (array_items t) - 1) +
     sum_list (map (entry_bytes dump) (object_entries t)) + (length (object_entries t) - 1)"

text \<open>The keys a table has already got.\<close>

definition fresh_key :: "TableSoFar \<Rightarrow> LuaValue \<Rightarrow> bool" where
  "fresh_key t key \<longleftrightarrow> (\<forall>name. key = LuaText name \<longrightarrow> name \<notin> fst ` set (object_entries t))"

lemma new_table_ok [simp]: "so_far_ok dump depth new_table" "table_bytes dump new_table = 0"
  by (simp_all add: so_far_ok_def table_bytes_def new_table_def)

context json_dump
begin

lemma put_item_ok:
  assumes key: "check_key dump key t used = Inr (t1, u)" and used: "used \<le> kMaxSerializedBytes"
    and ok: "so_far_ok dump depth t" and item: "item_ok dump depth item" and new: "fresh_key t key"
  shows "so_far_ok dump depth (put_item key item t1) \<and> u \<le> kMaxSerializedBytes \<and>
    table_bytes dump (put_item key item t1) + used = table_bytes dump t + u + text_bytes dump item"
proof (cases key)
  case (LuaInteger n)
  have "u \<le> kMaxSerializedBytes \<and> \<not> saw_object_key t \<and> t1 = t\<lparr>saw_array_key := True\<rparr> \<and>
      u = used + (if array_items t = [] then 0 else 1)"
    using key used by (auto simp: LuaInteger check_key_def AddLuaTelemetryBytes_Inr split: if_splits sum.splits)
  moreover from this ok have "object_entries t = []" by (auto simp: so_far_ok_def)
  ultimately show ?thesis
    using ok item by (cases "array_items t") (auto simp: LuaInteger put_item_def so_far_ok_def table_bytes_def)
next
  case (LuaText name)
  have facts: "u \<le> kMaxSerializedBytes" "\<not> saw_array_key t" "t1 = t\<lparr>saw_object_key := True\<rparr>" "key_ok dump name"
      "length (object_entries t) < kMaxObjectKeys"
      "u = used + text_bytes dump (JString name) + (if object_entries t = [] then 1 else 2)"
    using key used
    by (auto simp: LuaText check_key_def AddLuaTelemetryBytes_Inr AddLuaTelemetryValueBytes_Inr IsForbiddenTelemetryKey_eq
        key_ok_def text_bytes_def split: if_splits sum.splits)
  then have arrays: "array_items t = []" using ok by (auto simp: so_far_ok_def)
  have "name \<notin> fst ` set (object_entries t)" using new by (simp add: fresh_key_def LuaText)
  then obtain before after where put: "object_entries t = before @ after"
      "put_entry name item (object_entries t) = before @ (name, item) # after" using put_entry_new by blast
  have update: "put_item key item t1 = t\<lparr>saw_object_key := True, object_entries := before @ (name, item) # after\<rparr>"
    using facts(3) put by (simp add: LuaText put_item_def)
  moreover note update
  moreover have "(length (before @ (name, item) # after) - 1) + used + text_bytes dump (JString name) + 1 = (length (object_entries t) - 1) + u"
    using facts(6) arg_cong [OF put(1), of length] by (cases "object_entries t") auto
  ultimately have "table_bytes dump (put_item key item t1) + used = table_bytes dump t + u + text_bytes dump item"
    using arrays by (simp add: table_bytes_def entry_bytes_def) (simp add: put(1))
  moreover have "so_far_ok dump depth (put_item key item t1)"
  proof -
    have "list_all (item_ok dump depth) (map snd (before @ (name, item) # after))"
      "list_all (key_ok dump) (map fst (before @ (name, item) # after))"
      "length (before @ (name, item) # after) \<le> kMaxObjectKeys"
      using ok item facts(4,5) unfolding so_far_ok_def put(1) by simp_all
    then show ?thesis using ok facts(2) arrays update by (simp add: so_far_ok_def)
  qed
  ultimately show ?thesis using facts(1) by blast
qed (use key in \<open>simp_all add: check_key_def\<close>)

lemma finish_table_ok:
  assumes "finish_table t = Inr j" and "so_far_ok dump (depth + 1) t" and "depth \<le> kMaxDepth"
  shows "item_ok dump depth j \<and> text_bytes dump j = 2 + table_bytes dump t"
proof -
  have listed: "length (comma texts) = sum_list (map length texts) + (length texts - 1)" for texts
    using length_comma [of texts] by (simp add: listed_def)
  have texts: "those (map dump items) = Some (map (the \<circ> dump) items)" if "list_all (\<lambda>j. dump j \<noteq> None) items" for items
    using that by (induction items) (auto simp: list_all_iff)
  show ?thesis
  proof (cases "saw_array_key t")
    case True
    let ?items = "sort_key fst (array_items t)"
    have j: "j = JArray (map snd ?items)" "length (array_items t) \<le> kMaxArrayEntries"
      using assms(1) True by (auto simp: finish_table_def Let_def split: if_splits)
    have none: "object_entries t = []" using assms(2) True by (auto simp: so_far_ok_def)
    have all: "list_all (item_ok dump (depth + 1)) (map snd ?items)" using assms(2) by (simp add: so_far_ok_def list_all_iff)
    have sums: "sum_list (map (text_bytes dump \<circ> snd) ?items) = sum_list (map (text_bytes dump \<circ> snd) (array_items t))"
      by (rule sum_mset_sum_list [THEN trans [OF sym]]) (simp add: sum_mset_sum_list [symmetric])
    have "dump j = Some (''['' @ comma (map (the \<circ> dump) (map snd ?items)) @ '']'')"
      unfolding j(1) dump_array using texts [of "map snd ?items"] all by (simp add: list_all_iff item_ok_def)
    moreover from this have "text_bytes dump j = 2 + table_bytes dump t"
      using sums none by (simp add: text_bytes_def [of dump j] listed table_bytes_def o_def text_bytes_def)
    ultimately show ?thesis
      using all j(2) assms(3) by (simp add: item_ok_def j(1) list_all_iff)
  next
    case False
    have j: "j = JObject (object_entries t)" using assms(1) False by (simp add: finish_table_def)
    have none: "array_items t = []" using assms(2) False by (auto simp: so_far_ok_def)
    have entries: "those (map (\<lambda>(key, item). entry_text (dump (JString key)) (dump item)) entries) =
        Some (map (\<lambda>(key, item). the (dump (JString key)) @ '':'' @ the (dump item)) entries)"
      if "list_all (key_ok dump) (map fst entries)" "list_all (item_ok dump (depth + 1)) (map snd entries)" for entries
      using that by (induction entries) (auto simp: key_ok_def item_ok_def entry_text_def)
    note ok = assms(2) [unfolded so_far_ok_def]
    have sums: "sum_list (map length (map (\<lambda>(key, item). the (dump (JString key)) @ CHR '':'' # the (dump item)) entries)) =
        sum_list (map (entry_bytes dump) entries)" for entries
      by (induction entries) (auto simp: entry_bytes_def text_bytes_def)
    have "dump j = Some (''{'' @ comma (map (\<lambda>(key, item). the (dump (JString key)) @ '':'' @ the (dump item)) (object_entries t)) @ ''}'')"
      unfolding j dump_object using entries ok by simp
    moreover from this have "text_bytes dump j = 2 + table_bytes dump t"
      using none by (simp add: text_bytes_def listed table_bytes_def sums del: map_map)
    ultimately show ?thesis
      using ok assms(3) by (auto simp: item_ok_def j list_all_iff key_ok_def)
  qed
qed

lemma scalar_json_ok:
  assumes "scalar_json dump j used = Inr (payload, u)" and "used \<le> kMaxSerializedBytes" and "fits depth j"
  shows "payload = j \<and> item_ok dump depth j \<and> u = used + text_bytes dump j \<and> u \<le> kMaxSerializedBytes"
  using assms by (auto simp: scalar_json_def AddLuaTelemetryValueBytes_Inr item_ok_def text_bytes_def split: sum.splits)

end

definition heap_ok :: "lua_heap \<Rightarrow> bool" where
  "heap_ok heap \<longleftrightarrow> (\<forall>r. distinct (map fst (heap r)))"

lemma converted_ok:
  "LuaToTelemetryJson dump heap left v visiting used = Inr (payload, u) \<Longrightarrow> json_dump dump \<Longrightarrow> heap_ok heap \<Longrightarrow>
     used \<le> kMaxSerializedBytes \<Longrightarrow> left \<le> 4 \<Longrightarrow>
     item_ok dump (5 - left) payload \<and> u = used + text_bytes dump payload \<and> u \<le> kMaxSerializedBytes"
  "convert_entries dump heap left entries visiting t used = Inr (t', u) \<Longrightarrow> json_dump dump \<Longrightarrow> heap_ok heap \<Longrightarrow>
     used \<le> kMaxSerializedBytes \<Longrightarrow> left \<le> 4 \<Longrightarrow>
     distinct (map fst entries) \<Longrightarrow> list_all (fresh_key t) (map fst entries) \<Longrightarrow> so_far_ok dump (5 - left) t \<Longrightarrow>
     so_far_ok dump (5 - left) t' \<and> table_bytes dump t' + used = table_bytes dump t + u \<and> u \<le> kMaxSerializedBytes"
proof (induction dump heap left v visiting used and dump heap left entries visiting t used
    arbitrary: payload u and t' u rule: LuaToTelemetryJson_convert_entries.induct)
  case (1 dump heap left v visiting used)
  note scalar = json_dump.scalar_json_ok [OF "1.prems"(2) _ "1.prems"(4)]
  show ?case
  proof (cases v)
    case (LuaTable identity)
    then obtain k where k: "left = Suc k" and new: "identity \<notin> visiting"
      using "1.prems"(1) by (cases left) (auto simp: LuaToTelemetryJson.simps split: if_splits)
    obtain u1 t u2 where run: "AddLuaTelemetryBytes 2 used = Inr u1"
        "convert_entries dump heap k (heap identity) (insert identity visiting) new_table u1 = Inr (t, u2)"
        "finish_table t = Inr payload" "u = u2"
      using "1.prems"(1) LuaTable k new by (auto simp: LuaToTelemetryJson.simps split: sum.splits)
    have u1: "u1 = used + 2" "u1 \<le> kMaxSerializedBytes" using run(1) AddLuaTelemetryBytes_Inr [OF "1.prems"(4)] by auto
    have "list_all (fresh_key new_table) (map fst (heap identity))" by (simp add: list_all_iff fresh_key_def new_table_def)
    moreover have "distinct (map fst (heap identity))" using "1.prems"(3) by (simp add: heap_ok_def)
    ultimately have t: "so_far_ok dump (5 - k) t" "table_bytes dump t + u1 = u2" "u2 \<le> kMaxSerializedBytes"
      using "1.IH" [OF LuaTable k new run(1,2) "1.prems"(2,3) u1(2)] "1.prems"(5) k by auto
    have "5 - k = 5 - left + 1" "5 - left \<le> kMaxDepth" using k "1.prems"(5) by (simp_all add: kMaxDepth_def)
    then show ?thesis
      using json_dump.finish_table_ok [OF "1.prems"(2) run(3), of "5 - left"] t u1 run(4) by simp
  next
    case LuaNil
    then show ?thesis using "1.prems"(1) scalar [of JNull payload u "5 - left"] by (simp add: LuaToTelemetryJson.simps)
  next
    case (LuaBoolean b)
    then show ?thesis using "1.prems"(1) scalar [of "JBool b" payload u "5 - left"] by (simp add: LuaToTelemetryJson.simps)
  next
    case (LuaInteger n)
    then show ?thesis using "1.prems"(1) scalar [of "JInteger n" payload u "5 - left"] by (simp add: LuaToTelemetryJson.simps)
  next
    case (LuaFloat bits)
    then show ?thesis using "1.prems"(1) scalar [of "JFloat bits" payload u "5 - left"]
      by (simp add: LuaToTelemetryJson.simps split: if_splits)
  next
    case (LuaText content)
    then show ?thesis using "1.prems"(1) scalar [of "JString content" payload u "5 - left"]
      by (simp add: LuaToTelemetryJson.simps split: if_splits)
  qed (use "1.prems"(1) in \<open>simp_all add: LuaToTelemetryJson.simps\<close>)
next
  case (3 dump heap left key item entries visiting t used)
  obtain t1 u1 converted u2 where run: "check_key dump key t used = Inr (t1, u1)"
      "LuaToTelemetryJson dump heap left item visiting u1 = Inr (converted, u2)"
      "convert_entries dump heap left entries visiting (put_item key converted t1) u2 = Inr (t', u)"
    using "3.prems"(1) by (auto split: sum.splits)
  have new: "fresh_key t key" using "3.prems"(7) by simp
  have u1: "u1 \<le> kMaxSerializedBytes"
    using run(1) "3.prems"(4)
    by (auto simp: check_key_def AddLuaTelemetryBytes_Inr AddLuaTelemetryValueBytes_Inr split: LuaValue.splits if_splits sum.splits)
  have value_ok: "item_ok dump (5 - left) converted" "u2 = u1 + text_bytes dump converted" "u2 \<le> kMaxSerializedBytes"
    using "3.IH"(1) [OF run(1) refl run(2) "3.prems"(2,3) u1 "3.prems"(5)] by auto
  note put = json_dump.put_item_ok [OF "3.prems"(2) run(1) "3.prems"(4,8) value_ok(1) new]
  have "list_all (fresh_key (put_item key converted t1)) (map fst entries)"
  proof -
    have "fst ` set (object_entries (put_item key converted t1)) \<subseteq> fst ` set (object_entries t) \<union> {name. key = LuaText name}"
      using run(1) by (auto simp: check_key_def put_item_def set_put_entry split: LuaValue.splits if_splits sum.splits)
    moreover have "fresh_key t k" "k \<noteq> key" if "k \<in> set (map fst entries)" for k
      using that "3.prems"(6,7) by (simp_all add: list_all_iff) blast+
    ultimately show ?thesis unfolding list_all_iff fresh_key_def by blast
  qed
  moreover have "distinct (map fst entries)" using "3.prems"(6) by simp
  ultimately have "so_far_ok dump (5 - left) t' \<and> table_bytes dump t' + u2 = table_bytes dump (put_item key converted t1) + u \<and>
      u \<le> kMaxSerializedBytes"
    using "3.IH"(2) [OF run(1) refl run(2) refl run(3) "3.prems"(2,3) value_ok(3) "3.prems"(5)] put by blast
  then show ?case using put value_ok(2) by auto
qed simp

section \<open>What is emitted\<close>

text \<open>C40: the conversion of the payload of cfb.emit counts exactly the bytes of the compact text of its result, and
  whatever it accepts passes the validation of telemetry payloads: depth, array and object sizes, strings, keys and bytes.\<close>

theorem emitted_payload:
  assumes "json_dump dump" and "heap_ok heap" and "LuaToTelemetryJson dump heap 4 v {} 0 = Inr (payload, used)"
  shows "ValidateTelemetryPayload dump payload = None \<and>
    (\<exists>text. dump payload = Some text \<and> length text = used \<and> used \<le> 16 * 1024)"
proof -
  have "item_ok dump 1 payload \<and> used = text_bytes dump payload \<and> used \<le> kMaxSerializedBytes"
    using converted_ok(1) [OF assms(3,1,2)] by simp
  then show ?thesis
    using json_dump.payload_exact [OF assms(1), of payload]
    by (auto simp: item_ok_def text_bytes_def kMaxSerializedBytes_def)
qed

theorem emitted_payload_witness:
  "let heap = (\<lambda>r. [(LuaText ''a'', LuaInteger 7), (LuaText ''b'', LuaBoolean True)]) :: lua_heap;
       dump = compact_text (\<lambda>scalar. Some ''1'');
       payload = JObject [(''a'', JInteger 7), (''b'', JBool True)]
   in LuaToTelemetryJson dump heap 4 (LuaTable 0) {} 0 = Inr (payload, 9) \<and>
      ValidateTelemetryPayload dump payload = None"
proof -
  let ?heap = "(\<lambda>r. [(LuaText ''a'', LuaInteger 7), (LuaText ''b'', LuaBoolean True)]) :: lua_heap"
  let ?dump = "compact_text (\<lambda>scalar. Some ''1'')"
  let ?payload = "JObject [(''a'', JInteger 7), (''b'', JBool True)]"
  have run: "LuaToTelemetryJson ?dump ?heap 4 (LuaTable 0) {} 0 = Inr (?payload, 9)"
    by (simp add: LuaToTelemetryJson.simps scalar_json_def AddLuaTelemetryBytes_def AddLuaTelemetryValueBytes_def
        check_key_def put_item_def new_table_def finish_table_def IsForbiddenTelemetryKey_def telemetry_limits)
  have "heap_ok ?heap" by (simp add: heap_ok_def)
  then show ?thesis using emitted_payload [OF compact.json_dump_axioms _ run] run by (simp add: Let_def)
qed

end
