(* ===== verification/Lua_Bindings.thy ===== *)
theory Lua_Bindings
  imports Host_State Lua_Telemetry Native_Call
begin

text \<open>
  The functions of the Lua table \<open>cfb\<close> (lua_host.cpp): each is given its arguments and the state of the host and either
  raises an error or pushes results. \<open>call_function\<close> is the table of \<open>RegisterApi\<close>; \<open>run_script\<close> runs a script by
  the calls it makes, which is \<open>lua_pcall\<close> on it.
\<close>

section \<open>Results and arguments\<close>

text \<open>Text recorded_hit as a C string ends at its first zero byte.\<close>

definition c_string :: "string \<Rightarrow> string" where
  "c_string text = takeWhile (\<lambda>c. c \<noteq> CHR 0x00) text"

definition luaL_error :: "string \<Rightarrow> 's HostState \<Rightarrow> lua_return \<times> 's HostState" where
  "luaL_error message h = (Inl (Some message), h)"

definition lua_push :: "LuaResult list \<Rightarrow> 's HostState \<Rightarrow> lua_return \<times> 's HostState" where
  "lua_push results h = (Inr results, h)"

definition lua_integer :: "u64 \<Rightarrow> LuaResult" where
  "lua_integer n = Pushed (LuaInteger n)"

text \<open>\<open>luaL_optinteger\<close>: the default for an argument that is none or nil.\<close>

definition lua_optinteger :: "'s HostWorld \<Rightarrow> LuaValue \<Rightarrow> 64 word \<Rightarrow> string + 64 word" where
  "lua_optinteger w v fallback = (if v = LuaNil then Inr fallback else lua_checkinteger w v)"

definition lua_toboolean :: "LuaValue \<Rightarrow> bool" where
  "lua_toboolean v \<longleftrightarrow> v \<noteq> LuaNil \<and> v \<noteq> LuaBoolean False"

definition to_int :: "64 word \<Rightarrow> int" where
  "to_int n = sint (ucast n :: 32 word)"

definition query_of :: "'s HostWorld \<Rightarrow> 's HostState \<Rightarrow> query" where
  "query_of w h = VirtualQuery (host_os (discovery_process w)) (process_of h)"

section \<open>Bytes\<close>

definition LuaModuleBase :: "'s HostWorld \<Rightarrow> 's HostState \<Rightarrow> lua_return \<times> 's HostState" where
  "LuaModuleBase w h = lua_push [lua_integer (ModuleHandle (game w) (process_of h))] h"

definition LuaReadU8 :: "'s HostWorld \<Rightarrow> LuaValue list \<Rightarrow> 's HostState \<Rightarrow> lua_return \<times> 's HostState" where
  "LuaReadU8 w arguments h =
     (case lua_checkinteger w (lua_argument arguments 1) of
        Inl e \<Rightarrow> luaL_error e h
      | Inr address \<Rightarrow>
          if \<not> IsAccessible (query_of w h) address 1 False then luaL_error ''address is not readable'' h
          else lua_push [lua_integer (ucast (peek_byte w (process_of h) address))] h)"

text \<open>The writing part of \<open>LuaWriteU8\<close>: the error, or whether the byte reads back.\<close>

definition write_byte ::
  "'s HostWorld \<Rightarrow> addr \<Rightarrow> int \<Rightarrow> int \<Rightarrow> 's HostState \<Rightarrow> (string + bool) \<times> 's HostState" where
  "write_byte w address expected replacement h =
     (if session_writes_disabled h then (Inl ''session writes are disabled'', h)
      else let (allowed, h) = write_environment w h
           in if \<not> allowed
              then let (anticheat, h) = anticheat_running w h
                   in (Inl (if anticheat then ''writes are disabled while EA anticheat is running''
                            else WriteBuildDenialText (game_build h)), h)
              else if expected < 0 \<or> 255 < expected \<or> replacement < 0 \<or> 255 < replacement
              then (Inl ''byte values must be between 0 and 255'', h)
              else if \<not> IsAccessible (query_of w h) address 1 True then (Inl ''address is not writable'', h)
              else if peek_byte w (process_of h) address \<noteq> word_of_int expected
              then (Inl ''expected byte does not match live memory'', h)
              else let h = h\<lparr>process_of := poke_byte w address (word_of_int replacement) (process_of h)\<rparr>
                   in (Inr (peek_byte w (process_of h) address = word_of_int replacement), h))"

definition LuaWriteU8 :: "'s HostWorld \<Rightarrow> LuaValue list \<Rightarrow> 's HostState \<Rightarrow> lua_return \<times> 's HostState" where
  "LuaWriteU8 w arguments h =
     (case lua_checkinteger w (lua_argument arguments 1) of
        Inl e \<Rightarrow> luaL_error e h
      | Inr address \<Rightarrow>
          (case lua_checkinteger w (lua_argument arguments 2) of
             Inl e \<Rightarrow> luaL_error e h
           | Inr expected \<Rightarrow>
               (case lua_checkinteger w (lua_argument arguments 3) of
                  Inl e \<Rightarrow> luaL_error e h
                | Inr replacement \<Rightarrow>
                    (case write_byte w address (to_int expected) (to_int replacement) h of
                       (Inl error, h) \<Rightarrow> luaL_error error h
                     | (Inr verified, h) \<Rightarrow> lua_push [Pushed (LuaBoolean verified)] h))))"

section \<open>Native calls\<close>

fun check_integers :: "'s HostWorld \<Rightarrow> LuaValue list \<Rightarrow> string + u64 list" where
  "check_integers w [] = Inr []"
| "check_integers w (v # vs) =
     (case lua_checkinteger w v of
        Inl e \<Rightarrow> Inl e
      | Inr n \<Rightarrow> (case check_integers w vs of Inl e \<Rightarrow> Inl e | Inr ns \<Rightarrow> Inr (n # ns)))"

definition invoke_native :: "'s HostWorld \<Rightarrow> addr \<Rightarrow> u64 list \<Rightarrow> 's HostState \<Rightarrow> CallResult \<times> 's HostState" where
  "invoke_native w target arguments h =
     on_state (Native_Call.Invoke (VirtualQuery (host_os (discovery_process w))) (NativeCode (game w)) target arguments) h"

text \<open>The format of the last error has the conversion \<open>%08X\<close>, which \<open>luaL_error\<close> of Lua 5.4 does not have: Lua raises
  an error about the conversion instead, and the exception code is not in it.\<close>

definition LuaNativeCall :: "'s HostWorld \<Rightarrow> LuaValue list \<Rightarrow> 's HostState \<Rightarrow> lua_return \<times> 's HostState" where
  "LuaNativeCall w arguments h =
     (if arguments = [] \<or> kMaxArguments + 1 < length arguments
      then luaL_error ''cfb.call requires a target and zero to eight arguments'' h
      else let (allowed, h) = native_calls w h
           in if \<not> allowed then luaL_error (WriteBuildDenialText (game_build h)) h
              else case check_integers w arguments of
                Inl e \<Rightarrow> luaL_error e h
              | Inr integers \<Rightarrow>
                  (let (result, h) = invoke_native w (hd integers) (tl integers) h
                   in case call_status result of
                        kInvalidTarget \<Rightarrow> luaL_error ''native call target is not executable process code'' h
                      | kTooManyArguments \<Rightarrow> luaL_error ''native call accepts at most eight arguments'' h
                      | kException \<Rightarrow> luaL_error (lua_invalid_conversion w ''%0'') h
                      | kCallOk \<Rightarrow> lua_push [lua_integer (call_result result)] h))"

section \<open>Hardware watches\<close>

definition watch_denied :: string where
  "watch_denied = ''RESEARCH_WATCH_NOT_ALLOWED: exact diagnostic or certified offline identity required''"

definition arm_watch :: "'s HostWorld \<Rightarrow> Kind \<Rightarrow> addr \<Rightarrow> nat \<Rightarrow> 's HostState \<Rightarrow> ArmResult \<times> 's HostState" where
  "arm_watch w kind address n h =
     (let (result, watch, s) = Arm (thread_api w) (query_of w h) kind address n (watch_state_of h) (process_of h)
      in (result, h\<lparr>watch_state_of := watch, process_of := s\<rparr>))"

definition LuaArmWatch :: "'s HostWorld \<Rightarrow> Kind \<Rightarrow> LuaValue list \<Rightarrow> 's HostState \<Rightarrow> lua_return \<times> 's HostState" where
  "LuaArmWatch w kind arguments h =
     (let (allowed, h) = research_watches w h
      in if \<not> allowed then luaL_error watch_denied h
         else case lua_checkinteger w (lua_argument arguments 1) of
           Inl e \<Rightarrow> luaL_error e h
         | Inr address \<Rightarrow>
             (case (if kind = kExecute then Inr 1 else lua_optinteger w (lua_argument arguments 2) 4) of
                Inl e \<Rightarrow> luaL_error e h
              | Inr n \<Rightarrow>
                  (let (result, h) = arm_watch w kind address (unat n) h
                   in if arm_status result \<noteq> kOk
                      then luaL_error (''could not arm research watch: '' @ ArmStatusCode (arm_status result)) h
                      else lua_push [push_nat (arm_slot result), push_nat (thread_count result)] h)))"

definition LuaWatch :: "'s HostWorld \<Rightarrow> LuaValue list \<Rightarrow> 's HostState \<Rightarrow> lua_return \<times> 's HostState" where
  "LuaWatch w = LuaArmWatch w Kind.kWrite"

definition LuaWatchExec :: "'s HostWorld \<Rightarrow> LuaValue list \<Rightarrow> 's HostState \<Rightarrow> lua_return \<times> 's HostState" where
  "LuaWatchExec w = LuaArmWatch w kExecute"

definition lua_array :: "LuaResult list \<Rightarrow> LuaResult" where
  "lua_array items = PushedTable (zip (map (\<lambda>i. LuaInteger (word_of_nat (Suc i))) [0..<length items]) items)"

definition PushHitInteger :: "string \<Rightarrow> u64 \<Rightarrow> LuaValue \<times> LuaResult" where
  "PushHitInteger name n = (LuaText name, lua_integer n)"

definition PushPointerSnapshot :: "string \<Rightarrow> PointerSnapshot \<Rightarrow> LuaValue \<times> LuaResult" where
  "PushPointerSnapshot name snapshot =
     (LuaText name, lua_array (map (\<lambda>i. lua_integer (words snapshot ! i)) [0..<word_count snapshot]))"

definition hit_table :: "Hit \<Rightarrow> LuaResult" where
  "hit_table recorded_hit = PushedTable
     [PushHitInteger ''slot'' (word_of_nat (hit_slot recorded_hit)), PushHitInteger ''thread_id'' (ucast (hit_thread_id recorded_hit)),
      PushHitInteger ''rip'' (hit_rip recorded_hit), PushHitInteger ''rsp'' (hit_rsp recorded_hit), PushHitInteger ''rax'' (hit_rax recorded_hit),
      PushHitInteger ''rbx'' (hit_rbx recorded_hit), PushHitInteger ''rbp'' (hit_rbp recorded_hit), PushHitInteger ''rsi'' (hit_rsi recorded_hit),
      PushHitInteger ''rdi'' (hit_rdi recorded_hit), PushHitInteger ''rcx'' (hit_rcx recorded_hit), PushHitInteger ''rdx'' (hit_rdx recorded_hit),
      PushHitInteger ''r8'' (hit_r8 recorded_hit), PushHitInteger ''r9'' (hit_r9 recorded_hit), PushHitInteger ''r10'' (hit_r10 recorded_hit),
      PushHitInteger ''r11'' (hit_r11 recorded_hit),
      PushPointerSnapshot ''rbx_memory'' (rbx_memory recorded_hit), PushPointerSnapshot ''rsi_memory'' (rsi_memory recorded_hit),
      PushPointerSnapshot ''rdi_memory'' (rdi_memory recorded_hit), PushPointerSnapshot ''rcx_memory'' (rcx_memory recorded_hit),
      PushPointerSnapshot ''rdx_memory'' (rdx_memory recorded_hit), PushPointerSnapshot ''r8_memory'' (r8_memory recorded_hit),
      PushPointerSnapshot ''r9_memory'' (r9_memory recorded_hit),
      (LuaText ''stack'', lua_array (map (\<lambda>i. lua_integer (hit_stack recorded_hit ! i)) [0..<stack_count recorded_hit]))]"

definition LuaWatchHits :: "'s HostWorld \<Rightarrow> LuaValue list \<Rightarrow> 's HostState \<Rightarrow> lua_return \<times> 's HostState" where
  "LuaWatchHits w arguments h =
     (let (allowed, h) = research_watches w h
      in if \<not> allowed then luaL_error watch_denied h
         else let (snapshot, buffer) = Collect (lua_toboolean (lua_argument arguments 1)) (watch_buffer (watch_state_of h));
                  h = h\<lparr>watch_state_of := (watch_state_of h)\<lparr>watch_buffer := buffer\<rparr>\<rparr>
              in (case lua_array (map hit_table (snapshot_hits snapshot)) of
                    PushedTable entries \<Rightarrow>
                      lua_push [PushedTable (entries @ [PushHitInteger ''dropped'' (word_of_nat (snapshot_dropped snapshot))])] h
                  | Pushed v \<Rightarrow> lua_push [Pushed v] h))"

definition LuaUnwatch :: "'s HostWorld \<Rightarrow> 's HostState \<Rightarrow> lua_return \<times> 's HostState" where
  "LuaUnwatch w h =
     (let (allowed, h) = research_watches w h
      in if \<not> allowed then luaL_error watch_denied h
         else let (restored, watch, s) = Disarm (thread_api w) (watch_state_of h) (process_of h)
              in lua_push [push_nat restored] (h\<lparr>watch_state_of := watch, process_of := s\<rparr>))"

section \<open>Pattern scans of the module\<close>

definition is_space :: "char \<Rightarrow> bool" where
  "is_space c \<longleftrightarrow> c \<in> {CHR '' '', CHR 0x09, CHR 0x0A, CHR 0x0B, CHR 0x0C, CHR 0x0D}"

lemma dropWhile_shorter: "length (dropWhile P xs) \<le> length xs"
  by (induction xs) auto

text \<open>The tokens \<open>operator>>\<close> reads.\<close>

function tokens :: "string \<Rightarrow> string list" where
  "tokens text =
     (let text = dropWhile is_space text
      in if text = [] then []
         else takeWhile (\<lambda>c. \<not> is_space c) text # tokens (dropWhile (\<lambda>c. \<not> is_space c) text))"
  by pat_completeness auto

termination
proof (relation "measure length")
  fix content rest :: string
  assume "rest = dropWhile is_space content" "rest \<noteq> []"
  then have "\<not> is_space (hd rest)" by (metis hd_dropWhile)
  then have "length (dropWhile (\<lambda>c. \<not> is_space c) rest) < length rest"
    using \<open>rest \<noteq> []\<close> dropWhile_shorter [of "\<lambda>c. \<not> is_space c" "tl rest"] by (cases rest) simp_all
  then show "(dropWhile (\<lambda>c. \<not> is_space c) rest, content) \<in> measure length"
    using \<open>rest = _\<close> dropWhile_shorter [of is_space content] by simp
qed simp

declare tokens.simps [simp del]

text \<open>A byte of the pattern; \<open>None\<close> is a wildcard.\<close>

type_synonym pattern_byte = "byte option"

definition pattern_token :: "string \<Rightarrow> pattern_byte option" where
  "pattern_token token =
     (if token = ''?'' \<or> token = ''??'' then Some None
      else if length token \<noteq> 2 then None
      else case from_chars16 token of
        Some (n, []) \<Rightarrow> if 255 < n then None else Some (Some (word_of_nat n))
      | _ \<Rightarrow> None)"

definition ParsePattern :: "string \<Rightarrow> pattern_byte list option" where
  "ParsePattern text =
     (case those (map pattern_token (tokens text)) of
        None \<Rightarrow> None
      | Some pattern \<Rightarrow> if pattern = [] \<or> 4096 < length pattern then None else Some pattern)"

definition pattern_at :: "(addr \<Rightarrow> byte) \<Rightarrow> pattern_byte list \<Rightarrow> addr \<Rightarrow> bool" where
  "pattern_at peek pattern address \<longleftrightarrow>
     list_all (\<lambda>i. case pattern ! i of None \<Rightarrow> True | Some b \<Rightarrow> peek (address + word_of_nat i) = b) [0..<length pattern]"

fun scan_offsets ::
  "(addr \<Rightarrow> byte) \<Rightarrow> pattern_byte list \<Rightarrow> nat \<Rightarrow> addr \<Rightarrow> nat list \<Rightarrow> addr list \<Rightarrow> addr list" where
  "scan_offsets peek pattern maximum region_start [] found = found"
| "scan_offsets peek pattern maximum region_start (offset # offsets) found =
     (if length found < maximum
      then scan_offsets peek pattern maximum region_start offsets
             (if pattern_at peek pattern (region_start + word_of_nat offset) then found @ [region_start + word_of_nat offset]
              else found)
      else found)"

function scan_image ::
  "query \<Rightarrow> (addr \<Rightarrow> byte) \<Rightarrow> pattern_byte list \<Rightarrow> nat \<Rightarrow> addr \<Rightarrow> addr \<Rightarrow> addr list \<Rightarrow> addr list" where
  "scan_image query peek pattern maximum image_end cursor found =
     (if cursor < image_end \<and> length found < maximum then
        (case query cursor of
           None \<Rightarrow> found
         | Some info \<Rightarrow>
             let region_start = max cursor (BaseAddress info);
                 region_end = min image_end (BaseAddress info + RegionSize info);
                 found = (if IsAccessible query region_start (region_end - region_start) False \<and>
                             length pattern \<le> unat (region_end - region_start)
                          then scan_offsets peek pattern maximum region_start
                                 [0..<Suc (unat (region_end - region_start)) - length pattern] found
                          else found)
             in if region_end \<le> cursor then found
                else scan_image query peek pattern maximum image_end region_end found)
      else found)"
  by pat_completeness auto
termination
  by (relation "measure (\<lambda>(query, peek, pattern, maximum, image_end, cursor, found). 2 ^ 64 - unat cursor)")
    (auto simp: not_le word_less_nat_alt intro!: diff_less_mono2 unat_lt_2p64 [THEN order_less_le_trans])

declare scan_image.simps [simp del]

definition LuaAobScan :: "'s HostWorld \<Rightarrow> LuaValue list \<Rightarrow> 's HostState \<Rightarrow> lua_return \<times> 's HostState" where
  "LuaAobScan w arguments h =
     (case lua_checkstring w (lua_argument arguments 1) of
        Inl e \<Rightarrow> luaL_error e h
      | Inr text \<Rightarrow>
          (case lua_optinteger w (lua_argument arguments 2) 32 of
             Inl e \<Rightarrow> luaL_error e h
           | Inr requested \<Rightarrow>
               (case ParsePattern (c_string text) of
                  None \<Rightarrow> luaL_error ''invalid AOB pattern'' h
                | Some pattern \<Rightarrow>
                    let maximum = (if to_int requested < 1 then 1
                                   else if 256 < to_int requested then 256 else nat (to_int requested));
                        module = ModuleHandle (game w) (process_of h);
                        found = scan_image (query_of w h) (peek_byte w (process_of h)) pattern maximum
                          (module + image_size w (process_of h)) module []
                    in lua_push [lua_array (map lua_integer found)] h)))"

section \<open>Log, telemetry and callbacks\<close>

definition LuaLog :: "'s HostWorld \<Rightarrow> LuaValue list \<Rightarrow> 's HostState \<Rightarrow> lua_return \<times> 's HostState" where
  "LuaLog w arguments h =
     (case lua_checkstring w (lua_argument arguments 1) of
        Inl e \<Rightarrow> luaL_error e h
      | Inr message \<Rightarrow> lua_push [] (log_message_of w (c_string message) h))"

definition LuaEmit :: "'s HostWorld \<Rightarrow> lua_heap \<Rightarrow> LuaValue list \<Rightarrow> 's HostState \<Rightarrow> lua_return \<times> 's HostState" where
  "LuaEmit w heap arguments h =
     (case arguments of
        [LuaText type, v] \<Rightarrow>
          if \<not> IsTelemetryTypeRegistered type (registered_types h) then luaL_error ''telemetry type is not registered'' h
          else (case LuaToTelemetryJson (dump_json w) heap 4 v {} 0 of
                  Inl error \<Rightarrow> luaL_error (c_string error) h
                | Inr (payload, _) \<Rightarrow>
                    (case ValidateTelemetryPayload (dump_json w) payload of
                       Some error \<Rightarrow> luaL_error (c_string error) h
                     | None \<Rightarrow> lua_push [Pushed (LuaBoolean True)] (append_event w type payload h)))
      | _ \<Rightarrow> luaL_error ''cfb.emit requires a telemetry type and payload'' h)"

definition LuaOn :: "'s HostWorld \<Rightarrow> LuaValue list \<Rightarrow> 's HostState \<Rightarrow> lua_return \<times> 's HostState" where
  "LuaOn w arguments h =
     (case lua_checkstring w (lua_argument arguments 1) of
        Inl e \<Rightarrow> luaL_error e h
      | Inr text \<Rightarrow>
          (case lua_argument arguments 2 of
             LuaFunction f \<Rightarrow>
               let event = c_string text
               in if event \<noteq> ''game_ready'' \<and> event \<noteq> ''tick'' then luaL_error ''unsupported event'' h
                  else lua_push [Pushed (LuaBoolean True)]
                    (h\<lparr>callbacks := callbacks h @ [(event, new_reference w (callbacks h) (LuaFunction f))]\<rparr>)
           | v \<Rightarrow> luaL_error (lua_functionerror w v) h))"

section \<open>The database of the catalog\<close>

definition db_return :: "string + LuaResult list \<Rightarrow> lua_return" where
  "db_return r = (case r of Inl e \<Rightarrow> Inl (Some e) | Inr results \<Rightarrow> Inr results)"

definition db_env :: "'s HostWorld \<Rightarrow> 's HostState \<Rightarrow> 's HostState DatabaseEnv" where
  "db_env w h = lua_database w (game_build h)"

definition LuaDbGetField :: "'s HostWorld \<Rightarrow> LuaValue list \<Rightarrow> 's HostState \<Rightarrow> lua_return \<times> 's HostState" where
  "LuaDbGetField w arguments h =
     (let (r, c, h) = GetField (db_env w h) arguments (frtk_catalog h) h in (db_return r, h\<lparr>frtk_catalog := c\<rparr>))"

definition LuaDbSetField :: "'s HostWorld \<Rightarrow> lua_heap \<Rightarrow> LuaValue list \<Rightarrow> 's HostState \<Rightarrow> lua_return \<times> 's HostState" where
  "LuaDbSetField w heap arguments h =
     (let (r, api) = SetField (frtk_catalog h) (schema_provider (db_env w h) h) heap arguments (database_api h)
      in (db_return r, h\<lparr>database_api := api\<rparr>))"

definition finish_transaction :: "'s HostWorld \<Rightarrow> 's HostState \<Rightarrow> lua_return \<times> 's HostState" where
  "finish_transaction w h =
     (let (r, api, c, h) = FinishTransaction (db_env w h) (database_api h) (frtk_catalog h) h;
          h = h\<lparr>database_api := api, frtk_catalog := c\<rparr>
      in case r of Inl e \<Rightarrow> luaL_error e h | Inr _ \<Rightarrow> lua_push [Pushed (LuaBoolean True)] h)"

section \<open>Calls and scripts\<close>

primrec call_function ::
  "'s HostWorld \<Rightarrow> HostFunction \<Rightarrow> lua_heap \<Rightarrow> LuaValue list \<Rightarrow> 's HostState \<Rightarrow> lua_return \<times> 's HostState" where
  "call_function w cfb_module_base heap arguments h = LuaModuleBase w h"
| "call_function w cfb_read_u8 heap arguments h = LuaReadU8 w arguments h"
| "call_function w cfb_write_u8 heap arguments h = LuaWriteU8 w arguments h"
| "call_function w cfb_call heap arguments h = LuaNativeCall w arguments h"
| "call_function w cfb_watch heap arguments h = LuaWatch w arguments h"
| "call_function w cfb_watch_exec heap arguments h = LuaWatchExec w arguments h"
| "call_function w cfb_watch_hits heap arguments h = LuaWatchHits w arguments h"
| "call_function w cfb_unwatch heap arguments h = LuaUnwatch w h"
| "call_function w cfb_aob_scan heap arguments h = LuaAobScan w arguments h"
| "call_function w cfb_log heap arguments h = LuaLog w arguments h"
| "call_function w cfb_emit heap arguments h = LuaEmit w heap arguments h"
| "call_function w cfb_on heap arguments h = LuaOn w arguments h"
| "call_function w db_get_table heap arguments h = (db_return (GetTableByUniqueId (frtk_catalog h) arguments), h)"
| "call_function w db_get_record heap arguments h = (db_return (GetRecord (frtk_catalog h) arguments), h)"
| "call_function w db_get_field heap arguments h = LuaDbGetField w arguments h"
| "call_function w db_set_field heap arguments h = LuaDbSetField w heap arguments h"

text \<open>A script ends with the error object it raised, or normally. An error of a transaction callback aborts
  the transaction and is raised again.\<close>

primrec run_script :: "'s HostWorld \<Rightarrow> LuaScript \<Rightarrow> 's HostState \<Rightarrow> (string option + unit) \<times> 's HostState" where
  "run_script w Returned h = (Inr (), h)"
| "run_script w (Raised e) h = (Inl e, h)"
| "run_script w (Calls f heap arguments rest) h =
     (let (r, h) = call_function w f heap arguments h in run_script w (rest r) h)"
| "run_script w (Transacts arguments body rest) h =
     (case lua_argument arguments 2 of
        LuaFunction _ \<Rightarrow>
          (case BeginTransaction (database_api h) of
             (Inl e, api) \<Rightarrow> run_script w (rest (Inl (Some e))) (h\<lparr>database_api := api\<rparr>)
           | (Inr _, api) \<Rightarrow>
               (case run_script w body (h\<lparr>database_api := api\<rparr>) of
                  (Inl e, h) \<Rightarrow> run_script w (rest (Inl e)) (h\<lparr>database_api := AbortTransaction (database_api h)\<rparr>)
                | (Inr _, h) \<Rightarrow> (let (r, h) = finish_transaction w h in run_script w (rest r) h)))
      | _ \<Rightarrow> run_script w (rest (Inl (Some ''transaction callback must be a function''))) h)"

text \<open>The callbacks of an event run in the order they were registered. The loop runs over the callbacks
  there are at its start; a callback that registers another one is outside the model.\<close>

definition error_text :: "string \<Rightarrow> string option \<Rightarrow> string" where
  "error_text fallback e = (case e of None \<Rightarrow> fallback | Some text \<Rightarrow> c_string text)"

fun fire_callbacks :: "'s HostWorld \<Rightarrow> string \<Rightarrow> (string \<times> int) list \<Rightarrow> 's HostState \<Rightarrow> 's HostState" where
  "fire_callbacks w event [] h = h"
| "fire_callbacks w event ((name, reference) # rest) h =
     (if name \<noteq> event then fire_callbacks w event rest h
      else case run_script w (callback_script w reference (process_of h)) h of
             (Inl e, h) \<Rightarrow>
               let message = error_text ''Lua callback error'' e
               in fire_callbacks w event rest (log_message_of w message (h\<lparr>last_error := message\<rparr>))
           | (Inr _, h) \<Rightarrow> fire_callbacks w event rest h)"

definition FireEvent :: "'s HostWorld \<Rightarrow> string \<Rightarrow> 's HostState \<Rightarrow> 's HostState" where
  "FireEvent w event h = (if \<not> lua_started h then h else fire_callbacks w event (callbacks h) h)"

text \<open>Whether the text ran, and the result text.\<close>

definition RunLuaText :: "'s HostWorld \<Rightarrow> string \<Rightarrow> string \<Rightarrow> 's HostState \<Rightarrow> (bool \<times> string) \<times> 's HostState" where
  "RunLuaText w text chunk_name h =
     (if \<not> lua_started h then ((False, ''Lua host is not initialized''), h)
      else case run_script w (load_chunk w chunk_name text (process_of h)) h of
             (Inl e, h) \<Rightarrow> let result = error_text ''Lua error'' e in ((False, result), h\<lparr>last_error := result\<rparr>)
           | (Inr _, h) \<Rightarrow> ((True, ''ok''), h\<lparr>last_error := [], scripts_run := scripts_run h + 1\<rparr>))"

definition RunLuaFile :: "'s HostWorld \<Rightarrow> string \<Rightarrow> 's HostState \<Rightarrow> (bool \<times> string) \<times> 's HostState" where
  "RunLuaFile w path h =
     (case script_file w path (process_of h) of
        None \<Rightarrow> ((False, ''script file was not found''), h)
      | Some text \<Rightarrow> RunLuaText w text (c_string path) h)"

definition RunAutorun :: "'s HostWorld \<Rightarrow> string \<Rightarrow> 's HostState \<Rightarrow> 's HostState" where
  "RunAutorun w script h =
     (case script_file w script (process_of h) of
        None \<Rightarrow> h
      | Some _ \<Rightarrow>
          (case RunLuaFile w script h of
             ((True, _), h) \<Rightarrow> h
           | ((False, result), h) \<Rightarrow> log_message_of w (''autorun failed: '' @ result) h))"

end
