(* ===== verification/Host_Requests.thy ===== *)
theory Host_Requests
  imports Lua_Bindings
begin

text \<open>
  The requests of the v1 pipe that do not concern the catalog (lua_host.cpp, \<open>HandleV1Request\<close>): each handler is given the
  id and the parameters of a request and the state of the host, and answers with a response. The branches
  of the function are definitions of their own; Lua_Host puts them together.
\<close>

section \<open>Responses and parameters\<close>

definition SuccessResponse :: "string \<Rightarrow> Json \<Rightarrow> Json" where
  "SuccessResponse request_id result =
     object [(''protocol'', JUnsigned (word_of_nat kVersion)), (''id'', JString request_id), (''ok'', JBool True),
       (''result'', result)]"

text \<open>An error without details, and a success, of a handler.\<close>

definition refuse :: "string \<Rightarrow> string \<Rightarrow> string \<Rightarrow> 's HostState \<Rightarrow> Json \<times> 's HostState" where
  "refuse request_id what message h = (ErrorResponse request_id what message (JObject []), h)"

definition answer :: "string \<Rightarrow> Json \<Rightarrow> 's HostState \<Rightarrow> Json \<times> 's HostState" where
  "answer request_id result h = (SuccessResponse request_id result, h)"

definition json_nat :: "nat \<Rightarrow> Json" where
  "json_nat n = JUnsigned (word_of_nat n)"

text \<open>\<open>value[key]\<close> of a key that is there.\<close>

definition json_field :: "Json \<Rightarrow> string \<Rightarrow> Json" where
  "json_field j key = (case json_at j key of Inl _ \<Rightarrow> JNull | Inr v \<Rightarrow> v)"

definition HasOnlyKeys :: "Json \<Rightarrow> string list \<Rightarrow> bool" where
  "HasOnlyKeys j allowed \<longleftrightarrow>
     (case j of JObject entries \<Rightarrow> list_all (\<lambda>(key, _). key \<in> set allowed) entries | _ \<Rightarrow> True)"

text \<open>The number of an integer value from the minimum to the maximum.\<close>

definition JsonUnsigned :: "Json \<Rightarrow> nat \<Rightarrow> nat option" where
  "JsonUnsigned j maximum =
     (case j of
        JUnsigned n \<Rightarrow> if unat n \<le> maximum then Some (unat n) else None
      | JInteger n \<Rightarrow> if 0 \<le> sint n \<and> unat n \<le> maximum then Some (unat n) else None
      | _ \<Rightarrow> None)"

definition ReadUnsigned :: "Json \<Rightarrow> string \<Rightarrow> nat \<Rightarrow> nat \<Rightarrow> nat option" where
  "ReadUnsigned params key minimum maximum =
     (let checked = (\<lambda>n. if n < minimum \<or> maximum < n then None else Some n)
      in case json_at params key of
           Inl _ \<Rightarrow> None
         | Inr (JUnsigned n) \<Rightarrow> checked (unat n)
         | Inr (JInteger n) \<Rightarrow> if sint n < 0 then None else checked (unat n)
         | Inr _ \<Rightarrow> None)"

definition ReadLimit :: "Json \<Rightarrow> nat \<Rightarrow> nat option" where
  "ReadLimit params default_value =
     (if \<not> json_contains params ''limit'' then Some default_value
      else case json_field params ''limit'' of
        JUnsigned n \<Rightarrow> if n < 1 \<or> 256 < n then None else Some (unat n)
      | JInteger n \<Rightarrow> if sint n < 1 \<or> 256 < sint n then None else Some (unat n)
      | _ \<Rightarrow> None)"

definition HexToBytes :: "Json \<Rightarrow> byte list option" where
  "HexToBytes j = (case j of JString text \<Rightarrow> hex_text_bytes text | _ \<Rightarrow> None)"

definition has_string :: "Json \<Rightarrow> string \<Rightarrow> bool" where
  "has_string j key \<longleftrightarrow> json_contains j key \<and> is_string (json_field j key)"

definition has_array :: "Json \<Rightarrow> string \<Rightarrow> bool" where
  "has_array j key \<longleftrightarrow> json_contains j key \<and> is_array (json_field j key)"

definition string_field :: "Json \<Rightarrow> string \<Rightarrow> string" where
  "string_field j key = json_text (json_field j key)"

section \<open>Errors of the engines\<close>

definition MemoryError :: "string \<Rightarrow> string \<Rightarrow> Json" where
  "MemoryError request_id what =
     (if what = ''MEMORY_ACCESS_DENIED''
      then ErrorResponse request_id ''MEMORY_ACCESS_DENIED'' ''Requested memory is not readable'' (JObject [])
      else if what = ''SCAN_LIMIT_EXCEEDED''
      then ErrorResponse request_id ''SCAN_LIMIT_EXCEEDED'' ''Memory scan byte limit exceeded'' (JObject [])
      else if what = ''TOO_MANY_MATCHES''
      then ErrorResponse request_id ''TOO_MANY_MATCHES'' ''Memory scan found too many matches'' (JObject [])
      else ErrorResponse request_id ''INVALID_REQUEST'' ''Invalid memory request'' (JObject []))"

definition TransactionResultJson :: "string \<Rightarrow> TransactionResult \<Rightarrow> Json" where
  "TransactionResultJson tid transaction =
     object [(''transactionId'', JString tid), (''status'', JString (tr_code transaction)),
       (''operations'', JArray (map (\<lambda>r. object [(''index'', json_nat (res_index r)), (''applied'', JBool (res_applied r)),
          (''verified'', JBool (res_verified r))]) (tr_operations transaction)))]"

definition TransactionRejected :: "string \<Rightarrow> string \<Rightarrow> Json" where
  "TransactionRejected request_id engine_code =
     (if engine_code = ''expected_mismatch''
      then ErrorResponse request_id ''MEMORY_MISMATCH'' ''Live memory does not match the transaction preflight'' (JObject [])
      else if engine_code = ''invalid_memory_range'' \<or> engine_code = ''preflight_read_failed''
      then ErrorResponse request_id ''MEMORY_ACCESS_DENIED'' ''Transaction memory is not accessible for writing'' (JObject [])
      else if engine_code = ''invalid_operation_count'' \<or> engine_code = ''invalid_operation_size'' \<or>
              engine_code = ''transaction_too_large''
      then ErrorResponse request_id ''TRANSACTION_LIMIT_EXCEEDED'' ''Transaction exceeds an operation or byte limit'' (JObject [])
      else ErrorResponse request_id ''INVALID_REQUEST'' ''Invalid writeTransaction request'' (JObject []))"

section \<open>hello and status\<close>

definition kHostVersion :: string where "kHostVersion = ''0.2.0-dev.2''"

definition handle_hello :: "bool \<Rightarrow> bool \<Rightarrow> string \<Rightarrow> 's HostState \<Rightarrow> Json \<times> 's HostState" where
  "handle_hello supported writes_allowed request_id =
     answer request_id (object
       [(''protocolVersion'', JUnsigned (word_of_nat kVersion)), (''hostVersion'', JString kHostVersion),
        (''supportedBuild'', JBool supported), (''writesAllowed'', JBool writes_allowed),
        (''capabilities'', JArray (map JString [''status'', ''runScript'', ''evaluate'', ''logs'', ''events'', ''memoryScan'',
           ''memoryScanAllocationMetadata'', ''memoryRead'', ''memoryWriteTransaction'', ''nativeCall'',
           ''boardMutationV1'', ''researchWatch'', ''telemetry'', ''frtkProfileV1'', ''frtkCatalogV1'', ''frtkRecordReadV1'',
           ''frtkFieldTransactionV1'']))])"

definition handle_status :: "bool \<Rightarrow> bool \<Rightarrow> bool \<Rightarrow> string \<Rightarrow> 's HostState \<Rightarrow> Json \<times> 's HostState" where
  "handle_status supported writes_allowed writes_disabled request_id h =
     answer request_id (object
       [(''ready'', JBool (host_ready h)), (''supportedBuild'', JBool supported), (''writesAllowed'', JBool writes_allowed),
        (''sessionWritesDisabled'', JBool writes_disabled), (''scriptsRun'', JUnsigned (scripts_run h)),
        (''ticks'', JUnsigned (tick_count h)), (''lastError'', JString (last_error h))]) h"

section \<open>nativeCall\<close>

fun native_arguments :: "Json list \<Rightarrow> string + u64 list" where
  "native_arguments [] = Inr []"
| "native_arguments (item # items) =
     (case item of
        JString text \<Rightarrow>
          (case CanonicalAddress text of
             None \<Rightarrow> Inl ''nativeCall arguments must be canonical hexadecimal strings''
           | Some canonical \<Rightarrow>
               (case ParseAddress canonical of
                  None \<Rightarrow> Inl ''nativeCall argument is invalid''
                | Some n \<Rightarrow> (case native_arguments items of Inl e \<Rightarrow> Inl e | Inr ns \<Rightarrow> Inr (n # ns))))
      | _ \<Rightarrow> Inl ''nativeCall arguments must be canonical hexadecimal strings'')"

definition native_call_response :: "string \<Rightarrow> string \<Rightarrow> CallResult \<Rightarrow> Json" where
  "native_call_response request_id target call =
     (case call_status call of
        kInvalidTarget \<Rightarrow>
          ErrorResponse request_id ''NATIVE_CALL_TARGET_INVALID'' ''Native call target is not executable process code'' (JObject [])
      | kTooManyArguments \<Rightarrow>
          ErrorResponse request_id ''INVALID_REQUEST'' ''nativeCall accepts at most eight arguments'' (JObject [])
      | kException \<Rightarrow>
          ErrorResponse request_id ''NATIVE_CALL_EXCEPTION'' ''Native call raised a structured exception''
            (object [(''exceptionCode'', JString (FormatCanonicalAddress (ucast (call_fault call))))])
      | kCallOk \<Rightarrow>
          SuccessResponse request_id (object [(''address'', JString target),
            (''value'', JString (FormatCanonicalAddress (call_result call)))]))"

definition handle_nativeCall ::
  "'s HostWorld \<Rightarrow> bool \<Rightarrow> string \<Rightarrow> Json \<Rightarrow> 's HostState \<Rightarrow> Json \<times> 's HostState" where
  "handle_nativeCall w writes_disabled request_id params h =
     (if \<not> HasOnlyKeys params [''address'', ''arguments''] \<or> \<not> has_string params ''address'' \<or>
         \<not> has_array params ''arguments'' \<or> kMaxArguments < json_size (json_field params ''arguments'')
      then refuse request_id ''INVALID_REQUEST'' ''nativeCall requires an address and zero to eight arguments'' h
      else if writes_disabled
      then refuse request_id ''SESSION_WRITES_DISABLED'' ''Native calls are disabled for this host session'' h
      else let (allowed, h) = native_calls w h
           in if \<not> allowed then refuse request_id ''UNSUPPORTED_BUILD'' (WriteBuildDenialText (game_build h)) h
              else case CanonicalAddress (string_field params ''address'') of
                None \<Rightarrow> refuse request_id ''INVALID_REQUEST'' ''nativeCall address must be canonical hexadecimal'' h
              | Some target \<Rightarrow>
                  (case native_arguments (json_items (json_field params ''arguments'')) of
                     Inl e \<Rightarrow> refuse request_id ''INVALID_REQUEST'' e h
                   | Inr arguments \<Rightarrow>
                       let (call, h) = invoke_native w (the (ParseAddress target)) arguments h
                       in (native_call_response request_id target call, h)))"

section \<open>addBoard and removeBoard\<close>

definition invoke_board ::
  "'s HostWorld \<Rightarrow> BoardLayout \<Rightarrow> Operation \<Rightarrow> u32 \<Rightarrow> u32 \<Rightarrow> 's HostState \<Rightarrow> Result \<times> 's HostState" where
  "invoke_board w layout oper recruit_row team_row h =
     (let (result, cache, s) = Board_Mutation.Invoke (game w) layout oper recruit_row team_row (board_cache h) (process_of h)
      in (result, h\<lparr>board_cache := cache, process_of := s\<rparr>))"

definition optional_row :: "u32 \<Rightarrow> Json" where
  "optional_row n = (if n = - 1 then JNull else JUnsigned (ucast n))"

definition board_name :: "Operation \<Rightarrow> string" where
  "board_name oper = (case oper of kAdd \<Rightarrow> ''add'' | kRemove \<Rightarrow> ''remove'')"

definition board_response :: "string \<Rightarrow> Operation \<Rightarrow> u64 \<Rightarrow> u64 \<Rightarrow> Result \<Rightarrow> Json" where
  "board_response request_id oper recruit_row team_row mutation =
     (if status mutation \<noteq> kApplied \<and> status mutation \<noteq> kUnchanged
      then ErrorResponse request_id (StatusCode (status mutation)) ''Board mutation could not be verified''
        (object ([(''operation'', JString (board_name oper)), (''recruitRow'', JUnsigned recruit_row),
           (''teamRow'', JUnsigned team_row)] @
           (if fault_code mutation \<noteq> 0
            then [(''exceptionCode'', JString (FormatCanonicalAddress (ucast (fault_code mutation))))] else [])))
      else SuccessResponse request_id (object
        [(''operation'', JString (board_name oper)),
         (''status'', JString (if status mutation = kApplied then ''applied_verified'' else ''unchanged'')),
         (''recruitRow'', JUnsigned (ucast (result_recruit_row mutation))),
         (''teamRow'', JUnsigned (ucast (result_team_row mutation))),
         (''membershipRow'', JUnsigned (ucast (result_membership_row mutation))),
         (''boardSlot'', optional_row (result_board_slot mutation)),
         (''targetRow'', optional_row (result_target_row mutation)),
         (''activePitchRow'', optional_row (result_active_pitch_row mutation)),
         (''callValue'', JString (FormatCanonicalAddress (call_value mutation))),
         (''uiRefresh'', JString ''next_recruiting_screen_change'')]))"

definition unsigned_value :: "Json \<Rightarrow> u64" where
  "unsigned_value j = (case j of JUnsigned n \<Rightarrow> n | _ \<Rightarrow> 0)"

definition handle_board ::
  "'s HostWorld \<Rightarrow> Operation \<Rightarrow> bool \<Rightarrow> string \<Rightarrow> Json \<Rightarrow> 's HostState \<Rightarrow> Json \<times> 's HostState" where
  "handle_board w oper writes_disabled request_id params h =
     (if \<not> HasOnlyKeys params [''recruitRow'', ''teamRow''] \<or>
         \<not> json_contains params ''recruitRow'' \<or> \<not> is_number_unsigned (json_field params ''recruitRow'') \<or>
         \<not> json_contains params ''teamRow'' \<or> \<not> is_number_unsigned (json_field params ''teamRow'')
      then refuse request_id ''INVALID_REQUEST'' ''Board mutation requires recruitRow and teamRow'' h
      else let recruit_row = unsigned_value (json_field params ''recruitRow'');
               team_row = unsigned_value (json_field params ''teamRow'')
        in if 0x1FFFF < recruit_row \<or> 0x1FFFF < team_row
           then refuse request_id ''INVALID_REQUEST'' ''Board mutation rows are outside the supported range'' h
           else if writes_disabled
           then refuse request_id ''SESSION_WRITES_DISABLED'' ''Board mutations are disabled for this host session'' h
           else let (allowed, h) = native_calls w h
             in if \<not> allowed then refuse request_id ''UNSUPPORTED_BUILD'' (WriteBuildDenialText (game_build h)) h
                else case (if IsCertified (game_build h) then board (the (game_build h)) else None) of
                  None \<Rightarrow> refuse request_id ''UNSUPPORTED_BUILD'' ''Board mutations require a certified board layout'' h
                | Some layout \<Rightarrow>
                    let (mutation, h) = invoke_board w layout oper (ucast recruit_row) (ucast team_row) h;
                        h = (if status mutation = kPostconditionFailed then h\<lparr>session_writes_disabled := True\<rparr> else h)
                    in (board_response request_id oper recruit_row team_row mutation, h))"

section \<open>writeTransaction\<close>

text \<open>The operations of the request, or the code and message of the error.\<close>

definition parse_operation :: "Json \<Rightarrow> nat \<Rightarrow> (string \<times> string) + TransactionOperation" where
  "parse_operation entry aggregate =
     (let invalid = Inl (''INVALID_REQUEST'', ''Invalid transaction operation'') in
      if \<not> is_object entry \<or> \<not> HasOnlyKeys entry [''address'', ''expectedHex'', ''replacementHex''] \<or>
         \<not> has_string entry ''address'' \<or> \<not> json_contains entry ''expectedHex'' \<or>
         \<not> json_contains entry ''replacementHex''
      then invalid
      else case (CanonicalAddress (string_field entry ''address''), HexToBytes (json_field entry ''expectedHex''),
                 HexToBytes (json_field entry ''replacementHex'')) of
        (Some address, Some expected, Some replacement) \<Rightarrow>
          if length expected \<noteq> length replacement then invalid
          else if kMaxOperationBytes < length replacement \<or> kMaxTransactionBytes - length replacement < aggregate
          then Inl (''TRANSACTION_LIMIT_EXCEEDED'', ''Transaction exceeds the byte limit'')
          else Inr \<lparr>op_address = address, op_expected = expected, op_replacement = replacement, op_kind = TransactionOperationKind.kWrite\<rparr>
      | _ \<Rightarrow> invalid)"

fun parse_operations :: "Json list \<Rightarrow> nat \<Rightarrow> TransactionOperation list \<Rightarrow> (string \<times> string) + TransactionOperation list" where
  "parse_operations [] aggregate parsed = Inr parsed"
| "parse_operations (item # items) aggregate parsed =
     (case parse_operation item aggregate of
        Inl e \<Rightarrow> Inl e
      | Inr entry \<Rightarrow> parse_operations items (aggregate + length (op_replacement entry)) (parsed @ [entry]))"

definition run_write ::
  "'s HostWorld \<Rightarrow> TransactionRequest \<Rightarrow> 's HostState \<Rightarrow> TransactionResult \<times> 's HostState" where
  "run_write w request h =
     (if SmokeRollbackUnverifiedRequested (platform w) (process_of h)
      then let (result, h, _) = RunTransaction request (SmokeRollbackUnverifiedBackend (host_memory w)) (h, 0) in (result, h)
      else if SmokeApplyFailureRequested (platform w) (process_of h)
      then let (result, h, _) = RunTransaction request (SmokeApplyFailureBackend (host_memory w)) (h, 0) in (result, h)
      else RunTransaction request (host_memory w) h)"

text \<open>The answer to a transaction that was run; \<open>summary\<close> is its public result.\<close>

definition transaction_response :: "string \<Rightarrow> TransactionResult \<Rightarrow> Json \<Rightarrow> 's HostState \<Rightarrow> Json \<times> 's HostState" where
  "transaction_response request_id transaction summary h =
     (case tr_status transaction of
        kRejected \<Rightarrow> (TransactionRejected request_id (tr_code transaction), h)
      | kRollbackUnverified \<Rightarrow>
          (ErrorResponse request_id ''ROLLBACK_VERIFICATION_FAILED'' ''Transaction rollback could not be verified'' summary,
           h\<lparr>session_writes_disabled := True\<rparr>)
      | kRolledBackVerified \<Rightarrow>
          (ErrorResponse request_id ''TRANSACTION_APPLY_FAILED'' ''Transaction failed and was rolled back'' summary, h)
      | kAppliedVerified \<Rightarrow> (SuccessResponse request_id summary, h))"

text \<open>The checks before a write: the refusal (\<open>Inl\<close>) or the state to go on in.\<close>

definition write_gate ::
  "'s HostWorld \<Rightarrow> string \<Rightarrow> 's HostState \<Rightarrow> (Json \<times> 's HostState) + 's HostState" where
  "write_gate w request_id h =
     (if session_writes_disabled h
      then Inl (refuse request_id ''SESSION_WRITES_DISABLED'' ''Writes are disabled for the remainder of this host session'' h)
      else let (allowed, h) = write_environment w h
           in if allowed then Inr h
              else let (anticheat, h) = anticheat_running w h
                   in Inl (if anticheat
                           then refuse request_id ''MEMORY_ACCESS_DENIED'' ''Writes are disabled while EA anticheat is running'' h
                           else refuse request_id ''UNSUPPORTED_BUILD'' (WriteBuildDenialText (game_build h)) h))"

definition handle_writeTransaction ::
  "'s HostWorld \<Rightarrow> string \<Rightarrow> Json \<Rightarrow> 's HostState \<Rightarrow> Json \<times> 's HostState" where
  "handle_writeTransaction w request_id params h =
     (case write_gate w request_id h of
        Inl refused \<Rightarrow> refused
      | Inr h \<Rightarrow>
          if \<not> HasOnlyKeys params [''transactionId'', ''operations''] \<or> \<not> has_string params ''transactionId'' \<or>
             \<not> has_array params ''operations''
          then refuse request_id ''INVALID_REQUEST'' ''Invalid writeTransaction params'' h
          else (case parse_operations (json_items (json_field params ''operations'')) 0 [] of
                  Inl (what, message) \<Rightarrow> refuse request_id what message h
                | Inr operations \<Rightarrow>
                    let tid = string_field params ''transactionId'';
                        (transaction, h) = run_write w \<lparr>transaction_id = tid, tx_operations = operations\<rparr> h
                    in transaction_response request_id transaction (TransactionResultJson tid transaction) h))"

section \<open>registerTelemetry\<close>

definition handle_registerTelemetry :: "string \<Rightarrow> Json \<Rightarrow> 's HostState \<Rightarrow> Json \<times> 's HostState" where
  "handle_registerTelemetry request_id params h =
     (let items = json_items (json_field params ''types'')
      in if \<not> HasOnlyKeys params [''types''] \<or> \<not> has_array params ''types'' \<or> items = [] \<or> 16 < length items
         then refuse request_id ''INVALID_REQUEST'' ''Invalid registerTelemetry params'' h
         else if \<not> list_all is_string items
         then refuse request_id ''INVALID_REQUEST'' ''Telemetry types must be strings'' h
         else case RegisterTelemetryTypes (map json_text items) (registered_types h) of
           (Some error, registered) \<Rightarrow>
             refuse request_id ''INVALID_REQUEST'' error (h\<lparr>registered_types := registered\<rparr>)
         | (None, registered) \<Rightarrow>
             answer request_id (object [(''types'', JArray (map (JString \<circ> json_text) items))])
               (h\<lparr>registered_types := registered\<rparr>))"

end
