(* ===== verification/Host_Scans.thy ===== *)
theory Host_Scans
  imports Host_Requests
begin

text \<open>
  The requests of the v1 pipe that read: scanMemory, readMemory, logs and events, and the two that run a script
  (lua_host.cpp, \<open>HandleV1Request\<close>).
\<close>

section \<open>scanMemory\<close>

definition bad_flag :: "Json \<Rightarrow> string \<Rightarrow> bool" where
  "bad_flag params key \<longleftrightarrow> json_contains params key \<and> \<not> is_boolean (json_field params key)"

definition flag :: "Json \<Rightarrow> string \<Rightarrow> bool" where
  "flag params key \<longleftrightarrow> json_contains params key \<and> json_field params key = JBool True"

text \<open>The bytes of a hexadecimal text in mapped storage.\<close>

definition decode_mapped :: "'s HostWorld \<Rightarrow> Json \<Rightarrow> 's HostState \<Rightarrow> Mapped option \<times> 's HostState" where
  "decode_mapped w j h =
     (case j of
        JString text \<Rightarrow>
          (case DecodeScanHex (\<lambda>n. True) text of
             None \<Rightarrow> (None, h)
           | Some bytes \<Rightarrow> on_state (map_bytes (discovery_process w) bytes) h)
      | _ \<Rightarrow> (None, h))"

text \<open>The cursor of the request: \<open>None\<close> when there is one that is not canonical.\<close>

definition request_cursor :: "Json \<Rightarrow> string option option" where
  "request_cursor params =
     (if \<not> json_contains params ''cursor'' then Some None
      else case json_field params ''cursor'' of
        JString text \<Rightarrow> (case CanonicalAddress text of None \<Rightarrow> None | Some canonical \<Rightarrow> Some (Some canonical))
      | _ \<Rightarrow> None)"

definition allocation_entries :: "AllocationMetadata \<Rightarrow> (string \<times> Json) list option" where
  "allocation_entries allocation =
     map_option (\<lambda>base. [(''allocationBase'', JString (FormatCanonicalAddress base)),
         (''allocationSize'', JUnsigned (alloc_size allocation)),
         (''allocationProtect'', JUnsigned (ucast (alloc_protection allocation))),
         (''offsetInAllocation'', JUnsigned (alloc_offset allocation))])
       (ParseAddress (alloc_base allocation))"

definition match_json :: "ScanMatch \<Rightarrow> string + Json" where
  "match_json m =
     (case (ParseAddress (match_address m), ParseAddress (match_region_base m), ParseAddress (match_context_address m)) of
        (Some address, Some region_base, Some context_address) \<Rightarrow>
          let entries = [(''address'', JString (FormatCanonicalAddress address)),
                (''regionBase'', JString (FormatCanonicalAddress region_base)),
                (''regionSize'', JUnsigned (match_region_size m)),
                (''protection'', JUnsigned (ucast (match_protection m))),
                (''contextAddress'', JString (FormatCanonicalAddress context_address)),
                (''contextHex'', JString (BytesToHex (view_bytes (match_context m))))]
          in (case match_allocation m of
                None \<Rightarrow> Inr (object entries)
              | Some allocation \<Rightarrow>
                  (case allocation_entries allocation of
                     None \<Rightarrow> Inl ''Memory scan returned an invalid allocation address''
                   | Some placed \<Rightarrow> Inr (object (entries @ placed))))
      | _ \<Rightarrow> Inl ''Memory scan returned an invalid address'')"

fun matches_json :: "ScanMatch list \<Rightarrow> string + Json list" where
  "matches_json [] = Inr []"
| "matches_json (m # ms) =
     (case match_json m of
        Inl e \<Rightarrow> Inl e
      | Inr j \<Rightarrow> (case matches_json ms of Inl e \<Rightarrow> Inl e | Inr js \<Rightarrow> Inr (j # js)))"

text \<open>A request of a client is never cancelled.\<close>

definition run_scan :: "'s HostWorld \<Rightarrow> ScanRequest \<Rightarrow> 's HostState \<Rightarrow> ScanResult \<times> 's HostState" where
  "run_scan w request h =
     (ScanPrivateMemory ((scan_env (discovery_process w) (process_of h))\<lparr>env_cancel := \<lambda>_. False\<rparr>) request,
      h\<lparr>process_of := scanned (discovery_process w) (process_of h)\<rparr>)"

definition scan_response :: "string \<Rightarrow> bool \<Rightarrow> ScanResult \<Rightarrow> Json" where
  "scan_response request_id supported scan =
     (if scan_code scan \<noteq> [] then MemoryError request_id (scan_code scan)
      else case matches_json (scan_matches scan) of
        Inl message \<Rightarrow> ErrorResponse request_id ''MEMORY_ACCESS_DENIED'' message (JObject [])
      | Inr found \<Rightarrow>
          SuccessResponse request_id (object [(''supportedBuild'', JBool supported), (''complete'', JBool (scan_complete scan)),
            (''nextCursor'', (case next_cursor scan of None \<Rightarrow> JNull | Some cursor \<Rightarrow> JString cursor)),
            (''scannedBytes'', json_nat (scanned_bytes scan)), (''matches'', JArray found)]))"

definition scan_keys :: "string list" where
  "scan_keys = [''patternHex'', ''maskHex'', ''maxMatches'', ''contextBefore'', ''contextAfter'', ''allowUnsupportedBuild'',
     ''cursor'', ''includeAllocationMetadata'']"

definition handle_scanMemory ::
  "'s HostWorld \<Rightarrow> bool \<Rightarrow> string \<Rightarrow> Json \<Rightarrow> 's HostState \<Rightarrow> Json \<times> 's HostState" where
  "handle_scanMemory w supported request_id params h =
     (let invalid = refuse request_id ''INVALID_REQUEST'' ''Invalid scanMemory params'' in
      if bad_flag params ''allowUnsupportedBuild''
      then refuse request_id ''INVALID_REQUEST'' ''allowUnsupportedBuild must be a boolean'' h
      else if bad_flag params ''includeAllocationMetadata''
      then refuse request_id ''INVALID_REQUEST'' ''includeAllocationMetadata must be a boolean'' h
      else if \<not> supported \<and> \<not> flag params ''allowUnsupportedBuild''
      then refuse request_id ''UNSUPPORTED_BUILD'' ''Memory scanning requires a supported build or explicit override'' h
      else if \<not> HasOnlyKeys params scan_keys \<or> \<not> json_contains params ''patternHex'' \<or> \<not> json_contains params ''maskHex''
      then invalid h
      else let (pattern, h) = decode_mapped w (json_field params ''patternHex'') h;
               (mask_view, h) = decode_mapped w (json_field params ''maskHex'') h
        in case (pattern, mask_view, ReadUnsigned params ''maxMatches'' 1 kMaxMatches,
                 ReadUnsigned params ''contextBefore'' 0 kMaxContextBytes, ReadUnsigned params ''contextAfter'' 0 kMaxContextBytes) of
             (Some pattern, Some mask_view, Some n, Some ahead, Some behind) \<Rightarrow>
               if length (view_bytes pattern) < kMinPatternBytes \<or> kMaxPatternBytes < length (view_bytes pattern) \<or>
                  length (view_bytes mask_view) \<noteq> length (view_bytes pattern) \<or> kMaxContextBytes - behind < ahead
               then invalid h
               else (case request_cursor params of
                       None \<Rightarrow> invalid h
                     | Some cursor \<Rightarrow>
                         let (scan, h) = run_scan w \<lparr>scan_pattern = pattern, scan_mask = mask_view, max_matches = n,
                               context_before = ahead, context_after = behind, scan_cursor = cursor,
                               include_allocation_metadata = flag params ''includeAllocationMetadata'',
                               scan_purpose = kPublicRaw\<rparr> h
                         in (scan_response request_id supported scan, h))
           | _ \<Rightarrow> invalid h)"

section \<open>readMemory\<close>

fun parse_ranges :: "Json list \<Rightarrow> nat \<Rightarrow> ReadRange list \<Rightarrow> ReadRange list option" where
  "parse_ranges [] n ranges = Some ranges"
| "parse_ranges (item # rest) n ranges =
     (if \<not> is_object item \<or> \<not> HasOnlyKeys item [''address'', ''length''] \<or> \<not> has_string item ''address'' then None
      else case (CanonicalAddress (string_field item ''address''), ReadUnsigned item ''length'' 1 kMaxReadRangeBytes) of
        (Some address, Some k) \<Rightarrow>
          if kMaxReadBytes - k < n then None
          else parse_ranges rest (n + k) (ranges @ [\<lparr>rr_address = address, rr_length = k\<rparr>])
      | _ \<Rightarrow> None)"

fun ranges_json :: "ReadResult list \<Rightarrow> Json list option" where
  "ranges_json [] = Some []"
| "ranges_json (r # rs) =
     (case ParseAddress (rd_address r) of
        None \<Rightarrow> None
      | Some address \<Rightarrow>
          map_option ((#) (object [(''address'', JString (FormatCanonicalAddress address)),
            (''length'', json_nat (length (rd_bytes r))), (''bytesHex'', JString (BytesToHex (rd_bytes r)))])) (ranges_json rs))"

definition read_response :: "string \<Rightarrow> bool \<Rightarrow> BatchReadResult \<Rightarrow> Json" where
  "read_response request_id supported result =
     (if \<not> batch_ok result then MemoryError request_id (batch_code result)
      else case ranges_json (batch_ranges result) of
        None \<Rightarrow> ErrorResponse request_id ''MEMORY_ACCESS_DENIED'' ''Memory read returned an invalid address'' (JObject [])
      | Some results \<Rightarrow>
          SuccessResponse request_id (object [(''supportedBuild'', JBool supported), (''ranges'', JArray results)]))"

definition handle_readMemory ::
  "'s HostWorld \<Rightarrow> bool \<Rightarrow> string \<Rightarrow> Json \<Rightarrow> 's HostState \<Rightarrow> Json \<times> 's HostState" where
  "handle_readMemory w supported request_id params h =
     (let items = json_items (json_field params ''ranges'') in
      if bad_flag params ''allowUnsupportedBuild''
      then refuse request_id ''INVALID_REQUEST'' ''allowUnsupportedBuild must be a boolean'' h
      else if \<not> supported \<and> \<not> flag params ''allowUnsupportedBuild''
      then refuse request_id ''UNSUPPORTED_BUILD'' ''Memory reads require a supported build or explicit override'' h
      else if \<not> HasOnlyKeys params [''ranges'', ''allowUnsupportedBuild''] \<or> \<not> has_array params ''ranges'' \<or>
              items = [] \<or> kMaxReadRanges < length items
      then refuse request_id ''INVALID_REQUEST'' ''Invalid readMemory params'' h
      else case parse_ranges items 0 [] of
        None \<Rightarrow> refuse request_id ''INVALID_REQUEST'' ''Invalid readMemory range'' h
      | Some ranges \<Rightarrow>
          let (result, h) = on_state (ReadMemoryBatch (host_os (discovery_process w)) ranges) h
          in (read_response request_id supported result, h))"

section \<open>logs and events\<close>

definition limit_error :: string where
  "limit_error = ''limit must be an integer from 1 to 256''"

definition handle_logs :: "string \<Rightarrow> Json \<Rightarrow> 's HostState \<Rightarrow> Json \<times> 's HostState" where
  "handle_logs request_id params h =
     (case ReadLimit params 100 of
        None \<Rightarrow> refuse request_id ''INVALID_REQUEST'' limit_error h
      | Some limit \<Rightarrow> answer request_id (LogsResult limit (event_log h)) h)"

definition events_after :: "Json \<Rightarrow> u64 option" where
  "events_after params =
     (if \<not> json_contains params ''after'' then Some 0
      else case json_field params ''after'' of
        JUnsigned n \<Rightarrow> Some n
      | JInteger n \<Rightarrow> if 0 \<le> sint n then Some n else None
      | _ \<Rightarrow> None)"

definition handle_events :: "string \<Rightarrow> Json \<Rightarrow> 's HostState \<Rightarrow> Json \<times> 's HostState" where
  "handle_events request_id params h =
     (case ReadLimit params 100 of
        None \<Rightarrow> refuse request_id ''INVALID_REQUEST'' limit_error h
      | Some limit \<Rightarrow>
          (case events_after params of
             None \<Rightarrow> refuse request_id ''INVALID_REQUEST'' ''after must be a nonnegative integer'' h
           | Some after \<Rightarrow> answer request_id (EventsResult after limit (event_log h)) h))"

section \<open>runScript and evaluate\<close>

definition script_response :: "string \<Rightarrow> (bool \<times> string) \<times> 's HostState \<Rightarrow> Json \<times> 's HostState" where
  "script_response request_id = (\<lambda>((ok, result), h).
     if \<not> ok then refuse request_id ''SCRIPT_ERROR'' result h
     else answer request_id (object [(''status'', JString ''ok'')]) h)"

definition handle_script :: "'s HostWorld \<Rightarrow> string \<Rightarrow> string \<Rightarrow> Json \<Rightarrow> 's HostState \<Rightarrow> Json \<times> 's HostState" where
  "handle_script w command request_id params h =
     (if command = ''runScript'' then
        if \<not> has_string params ''name'' \<or> \<not> has_string params ''source''
        then refuse request_id ''INVALID_REQUEST'' ''runScript requires string name and source params'' h
        else script_response request_id
          (RunLuaText w (string_field params ''source'') (c_string (string_field params ''name'')) h)
      else if command = ''evaluate'' then
        if \<not> has_string params ''source''
        then refuse request_id ''INVALID_REQUEST'' ''evaluate requires a string source param'' h
        else script_response request_id (RunLuaText w (string_field params ''source'') ''evaluate'' h)
      else (ErrorResponse request_id ''INVALID_REQUEST'' ''Unknown command'' (object [(''command'', JString command)]), h))"

end
