(* ===== verification/Host_Frtk.thy ===== *)
theory Host_Frtk
  imports Host_Requests
begin

text \<open>
  The requests of the v1 pipe about the profile and the catalog of tables (lua_host.cpp, \<open>HandleV1Request\<close>): loading a
  profile, discovering and inspecting the catalog, reading records, invalidating the catalog and transactions on
  fields.
\<close>

section \<open>Names and values\<close>

definition SchemaByUniqueId :: "SchemaRegistry \<Rightarrow> nat \<Rightarrow> TableSchema option" where
  "SchemaByUniqueId schema unique_id = find (\<lambda>table. schema_unique_id table = unique_id) (schema_tables schema)"

fun DiscoveryStateName :: "TableState \<Rightarrow> string" where
  "DiscoveryStateName kResolved = ''resolved''"
| "DiscoveryStateName kMissing = ''missing''"
| "DiscoveryStateName kAmbiguous = ''ambiguous''"
| "DiscoveryStateName kUnstable = ''unstable''"
| "DiscoveryStateName kRelationshipFailed = ''relationship_failed''"
| "DiscoveryStateName kAllocationInvalid = ''allocation_invalid''"

fun AuthorityStatusName :: "AuthorityStatus \<Rightarrow> string" where
  "AuthorityStatusName kDiscoveryOnly = ''discovery_only''"
| "AuthorityStatusName kCommitAdapterRequired = ''commit_adapter_required''"
| "AuthorityStatusName kDirectVerified = ''direct_verified''"

fun stage_name :: "DiscoveryStage \<Rightarrow> string" where
  "stage_name kScan = ''scan''"
| "stage_name kAllocation = ''allocation''"
| "stage_name kRelationship = ''relationship''"
| "stage_name kReread = ''reread''"

definition EvidenceJson :: "DiscoveryEvidence list \<Rightarrow> Json" where
  "EvidenceJson evidence =
     JArray (map (\<lambda>item. object [(''code'', JString (evidence_code item)), (''fingerprintCount'', json_nat (fingerprint_count item))])
       evidence)"

text \<open>\<open>None\<close> when it throws.\<close>

definition DecodedFieldJson :: "DecodedField \<Rightarrow> SchemaRegistry \<Rightarrow> Json option" where
  "DecodedFieldJson decoded schema =
     (case decoded of
        Numeric number \<Rightarrow> Some (JInteger (word_of_int number))
      | Reference reference \<Rightarrow>
          map_option (\<lambda>target. object [(''uniqueId'', json_nat (schema_unique_id target)), (''row'', json_nat (ref_row_index reference))])
            (FindTable schema (ref_table_id reference)))"

definition ParseTypedFieldValue :: "Json \<Rightarrow> FieldDefinition \<Rightarrow> SchemaRegistry \<Rightarrow> DecodedField option" where
  "ParseTypedFieldValue j field schema =
     (if field_encoding field = ''packed-reference'' then
        if \<not> is_object j \<or> \<not> HasOnlyKeys j [''uniqueId'', ''row''] \<or> \<not> json_contains j ''uniqueId'' \<or> \<not> json_contains j ''row''
        then None
        else (case (JsonUnsigned (json_field j ''uniqueId'') 0xFFFFFFFF, JsonUnsigned (json_field j ''row'') 0x1FFFF) of
                (Some unique_id, Some row) \<Rightarrow>
                  (case SchemaByUniqueId schema unique_id of
                     None \<Rightarrow> None
                   | Some target \<Rightarrow>
                       if reference_table_id field \<noteq> Some (schema_table_id target) \<or> schema_capacity target \<le> row then None
                       else Some (Reference \<lparr>ref_table_id = schema_table_id target, ref_row_index = row\<rparr>))
              | _ \<Rightarrow> None)
      else case j of
        JUnsigned n \<Rightarrow> if 2 ^ 63 - 1 < unat n then None else Some (Numeric (uint n))
      | JInteger n \<Rightarrow> Some (Numeric (sint n))
      | _ \<Rightarrow> None)"

section \<open>loadFrtkProfile\<close>

definition handle_loadFrtkProfile :: "'s HostWorld \<Rightarrow> string \<Rightarrow> Json \<Rightarrow> 's HostState \<Rightarrow> Json \<times> 's HostState" where
  "handle_loadFrtkProfile w request_id params h =
     (if \<not> HasOnlyKeys params [''profile'', ''layout''] \<or> \<not> json_contains params ''profile'' \<or> \<not> json_contains params ''layout''
      then refuse request_id ''INVALID_REQUEST'' ''Invalid loadFrtkProfile params'' h
      else case fst (ParseProfile (canonical_json w) (sha256_bytes w) params) of
        None \<Rightarrow> refuse request_id ''FRTK_PROFILE_INVALID'' ''FrTk profile is invalid'' h
      | Some bundle \<Rightarrow>
          let synthetic_smoke = (SmokeWritesAllowed (platform w) (process_of h) \<and>
                bundle_build_identity bundle = ''synthetic-protocol-smoke'');
              certified_profile = (IsCertified (game_build h) \<and>
                bundle_build_identity bundle = executable_sha256 (the (game_build h)))
          in if \<not> synthetic_smoke \<and> \<not> certified_profile
             then refuse request_id ''UNSUPPORTED_BUILD'' ''FrTk profile does not match this executable build'' h
             else answer request_id (object [(''profileId'', JString (profile_id bundle)),
                 (''schemaIdentity'', JString (bundle_schema_identity bundle)),
                 (''buildIdentity'', JString (bundle_build_identity bundle)),
                 (''tableCount'', json_nat (length (bundle_tables bundle)))])
               (h\<lparr>frtk_catalog := Invalidate (frtk_catalog h), frtk_profile := Some bundle\<rparr>))"

section \<open>discoverFrtkCatalog\<close>

definition kDiscoveryBudget :: nat where "kDiscoveryBudget = 15000"

definition run_discovery :: "'s HostWorld \<Rightarrow> ProfileBundle \<Rightarrow> 's HostState \<Rightarrow> DiscoveryResult \<times> 's HostState" where
  "run_discovery w bundle h =
     (let p = platform w; s = process_of h;
          smoke = (SmokeWritesAllowed p s \<and> EnvironmentIsOne p s ''CFB27_SMOKE_FRTK_TIMEOUT'');
          (discovery, d) = DiscoverTables (ProcessDiscoveryBackend (host_process_of w (game_build h)))
             (\<lambda>d. steady_elapsed w (process_state d)) bundle (fresh_backend smoke (steady_start w kDiscoveryBudget s))
      in (discovery, h\<lparr>process_of := process_state d\<rparr>))"

definition rejected_discovery :: DiscoveryResult where
  "rejected_discovery = \<lparr>disc_valid = False, disc_code = ''discovery_failed'', disc_tables = [], disc_timeout = None\<rparr>"

definition optional_nat :: "nat option \<Rightarrow> Json" where
  "optional_nat n = (case n of None \<Rightarrow> JNull | Some n \<Rightarrow> json_nat n)"

definition timeout_json :: "DiscoveryTimeoutDetails \<Rightarrow> Json" where
  "timeout_json timeout =
     object [(''stage'', JString (stage_name (timeout_stage timeout))),
       (''tableUniqueId'', optional_nat (timeout_table timeout)),
       (''fingerprintOrdinal'', optional_nat (timeout_ordinal timeout)),
       (''completedFingerprintCount'', json_nat (completed_fingerprint_count timeout)),
       (''elapsedMilliseconds'', json_nat (elapsed_milliseconds timeout)),
       (''pagesScanned'', json_nat (pages_scanned (timeout_counters timeout))),
       (''chunksScanned'', json_nat (discovery_chunks_scanned (timeout_counters timeout))),
       (''scannedBytes'', json_nat (discovery_scanned_bytes (timeout_counters timeout))),
       (''candidateWindows'', json_nat (discovery_candidate_windows (timeout_counters timeout))),
       (''cappedMatches'', json_nat (capped_matches (timeout_counters timeout)))]"

definition discovery_complete :: "ProfileBundle \<Rightarrow> DiscoveryResult \<Rightarrow> bool" where
  "discovery_complete bundle discovery \<longleftrightarrow> disc_valid discovery \<and>
     length (disc_tables discovery) = length (bundle_tables bundle) \<and>
     list_all (\<lambda>table. disc_state table = kResolved \<and> disc_descriptor table \<noteq> None) (disc_tables discovery)"

definition handle_discoverFrtkCatalog :: "'s HostWorld \<Rightarrow> string \<Rightarrow> Json \<Rightarrow> 's HostState \<Rightarrow> Json \<times> 's HostState" where
  "handle_discoverFrtkCatalog w request_id params h =
     (if json_size params \<noteq> 0 then refuse request_id ''INVALID_REQUEST'' ''Invalid discoverFrtkCatalog params'' h
      else case frtk_profile h of
        None \<Rightarrow> refuse request_id ''FRTK_PROFILE_INVALID'' ''No FrTk profile is loaded'' h
      | Some bundle \<Rightarrow>
          let (discovery, h) = run_discovery w bundle h;
              installed = (\<lambda>result. Install bundle result (frtk_catalog h))
          in if \<not> disc_valid discovery \<and> disc_code discovery = ''OPERATION_TIMEOUT''
             then (ErrorResponse request_id ''FRTK_DISCOVERY_TIMEOUT'' ''FrTk discovery exceeded its native operation budget''
                     (timeout_json (the (disc_timeout discovery))),
                   h\<lparr>frtk_catalog := installed rejected_discovery\<rparr>)
             else if \<not> discovery_complete bundle discovery
             then (ErrorResponse request_id ''FRTK_DISCOVERY_FAILED'' ''Required FrTk tables were not resolved''
                     (object [(''generation'', JUnsigned (generation (installed rejected_discovery))),
                        (''tables'', JArray (map (\<lambda>table. object [(''uniqueId'', json_nat (disc_unique_id table)),
                           (''state'', JString (DiscoveryStateName (disc_state table))),
                           (''evidence'', EvidenceJson (disc_evidence table))]) (disc_tables discovery)))]),
                   h\<lparr>frtk_catalog := installed rejected_discovery\<rparr>)
             else answer request_id (object [(''generation'', JUnsigned (generation (installed discovery))),
                    (''tableCount'', json_nat (length (disc_tables discovery)))])
                  (h\<lparr>frtk_catalog := installed discovery\<rparr>))"

section \<open>inspectFrtkCatalog\<close>

definition request_generation :: "Json \<Rightarrow> nat option" where
  "request_generation params = JsonUnsigned (json_field params ''generation'') (2 ^ 64 - 1)"

definition summary_json :: "TableSchema \<Rightarrow> CatalogSummary \<Rightarrow> Json" where
  "summary_json schema table =
     object [(''uniqueId'', json_nat (sum_unique_id table)), (''logicalName'', JString (logical_name schema)),
       (''authorityStatus'', JString (AuthorityStatusName (sum_authority table))), (''capacity'', json_nat (sum_capacity table)),
       (''profileId'', JString (sum_profile_id table)), (''generation'', JUnsigned (sum_generation table)),
       (''evidence'', EvidenceJson (sum_evidence table))]"

fun summaries_json :: "SchemaRegistry option \<Rightarrow> CatalogSummary list \<Rightarrow> Json list option" where
  "summaries_json schema [] = Some []"
| "summaries_json schema (table # tables) =
     (case Option.bind schema (\<lambda>registry. SchemaByUniqueId registry (sum_unique_id table)) of
        None \<Rightarrow> None
      | Some found \<Rightarrow> map_option ((#) (summary_json found table)) (summaries_json schema tables))"

definition handle_inspectFrtkCatalog :: "string \<Rightarrow> Json \<Rightarrow> 's HostState \<Rightarrow> Json \<times> 's HostState" where
  "handle_inspectFrtkCatalog request_id params h =
     (if \<not> HasOnlyKeys params [''generation''] \<or> \<not> json_contains params ''generation''
      then refuse request_id ''INVALID_REQUEST'' ''Invalid inspectFrtkCatalog params'' h
      else case request_generation params of
        None \<Rightarrow> refuse request_id ''INVALID_REQUEST'' ''Invalid catalog generation'' h
      | Some g \<Rightarrow>
          if g \<noteq> unat (generation (frtk_catalog h))
          then refuse request_id ''FRTK_CATALOG_STALE'' ''FrTk catalog generation is stale'' h
          else (case summaries_json (map_option bundle_schema (frtk_profile h)) (Summaries (frtk_catalog h)) of
                  None \<Rightarrow> refuse request_id ''FRTK_CATALOG_STALE'' ''FrTk catalog schema is stale'' h
                | Some tables \<Rightarrow> answer request_id (object [(''generation'', json_nat g), (''tables'', JArray tables)]) h))"

section \<open>readFrtkRecords\<close>

definition host_accessor :: "'s HostWorld \<Rightarrow> Build option \<Rightarrow> SchemaRegistry \<Rightarrow> 's HostState RecordAccessor" where
  "host_accessor w build schema =
     \<lparr>accessor_schema = schema, validation_backend = host_validation w build, accessor_memory = host_memory w\<rparr>"

fun parse_names :: "Json list \<Rightarrow> string list \<Rightarrow> string list option" where
  "parse_names [] names = Some names"
| "parse_names (field # rest) names =
     (case field of
        JString name \<Rightarrow>
          if name = [] \<or> 128 < length name \<or> name \<in> set names then None else parse_names rest (names @ [name])
      | _ \<Rightarrow> None)"

fun field_values_json :: "SchemaRegistry \<Rightarrow> NamedFieldValue list \<Rightarrow> Json list option" where
  "field_values_json schema [] = Some []"
| "field_values_json schema (field # rest) =
     (case DecodedFieldJson (nf_value field) schema of
        None \<Rightarrow> None
      | Some j \<Rightarrow> map_option ((#) (object [(''field'', JString (nf_name field)), (''value'', j)])) (field_values_json schema rest))"

text \<open>The code and message of an error, or what was asked for: table, row and names.\<close>

definition parse_selector :: "SessionCatalog \<Rightarrow> Json \<Rightarrow> (string \<times> string) + (nat \<times> nat \<times> TableHandle \<times> string list)" where
  "parse_selector c item =
     (if \<not> is_object item \<or> \<not> HasOnlyKeys item [''uniqueId'', ''row'', ''fields''] \<or> \<not> json_contains item ''uniqueId'' \<or>
         \<not> json_contains item ''row'' \<or> \<not> has_array item ''fields'' \<or> json_items (json_field item ''fields'') = [] \<or>
         64 < length (json_items (json_field item ''fields''))
      then Inl (''INVALID_REQUEST'', ''Invalid typed record request'')
      else case (JsonUnsigned (json_field item ''uniqueId'') 0xFFFFFFFF, JsonUnsigned (json_field item ''row'') 0xFFFFFFFF) of
        (Some unique_id, Some row) \<Rightarrow>
          (case GetHandle c unique_id of
             None \<Rightarrow> Inl (''FRTK_FIELD_INVALID'', ''Unknown FrTk table Unique ID'')
           | Some handle \<Rightarrow>
               (case parse_names (json_items (json_field item ''fields'')) [] of
                  None \<Rightarrow> Inl (''INVALID_REQUEST'', ''Invalid typed field list'')
                | Some names \<Rightarrow> Inr (unique_id, row, handle, names)))
      | _ \<Rightarrow> Inl (''INVALID_REQUEST'', ''Invalid typed record selector''))"

definition access_code :: "string \<Rightarrow> string" where
  "access_code what =
     (if what = ''CATALOG_STALE'' then ''FRTK_CATALOG_STALE''
      else if what = ''READ_FAILED'' then ''MEMORY_ACCESS_DENIED''
      else ''FRTK_FIELD_INVALID'')"

fun read_records ::
  "'s HostState RecordAccessor \<Rightarrow> Json list \<Rightarrow> Json list \<Rightarrow> 's HostState \<Rightarrow> ((string \<times> string) + Json list) \<times> 's HostState" where
  "read_records accessor [] records h = (Inr records, h)"
| "read_records accessor (item # items) records h =
     (case parse_selector (frtk_catalog h) item of
        Inl e \<Rightarrow> (Inl e, h)
      | Inr (unique_id, row, handle, names) \<Rightarrow>
          (let (result, c, h) = ReadFields accessor handle row names (frtk_catalog h) h;
               h = h\<lparr>frtk_catalog := c\<rparr>
           in if \<not> frr_ok result then (Inl (access_code (frr_code result), ''FrTk record read failed''), h)
              else case field_values_json (accessor_schema accessor) (frr_fields result) of
                None \<Rightarrow> (Inl (''FRTK_FIELD_INVALID'', ''FrTk field value is invalid''), h)
              | Some found \<Rightarrow>
                  read_records accessor items
                    (records @ [object [(''uniqueId'', json_nat unique_id), (''row'', json_nat row), (''values'', JArray found)]]) h))"

definition handle_readFrtkRecords :: "'s HostWorld \<Rightarrow> string \<Rightarrow> Json \<Rightarrow> 's HostState \<Rightarrow> Json \<times> 's HostState" where
  "handle_readFrtkRecords w request_id params h =
     (let items = json_items (json_field params ''records'') in
      if \<not> HasOnlyKeys params [''generation'', ''records''] \<or> \<not> json_contains params ''generation'' \<or>
         \<not> has_array params ''records'' \<or> items = [] \<or> 64 < length items
      then refuse request_id ''INVALID_REQUEST'' ''Invalid readFrtkRecords params'' h
      else case request_generation params of
        None \<Rightarrow> refuse request_id ''INVALID_REQUEST'' ''Invalid catalog generation'' h
      | Some g \<Rightarrow>
          if frtk_profile h = None \<or> g \<noteq> unat (generation (frtk_catalog h))
          then refuse request_id ''FRTK_CATALOG_STALE'' ''FrTk catalog generation is stale'' h
          else let accessor = host_accessor w (game_build h) (bundle_schema (the (frtk_profile h)))
            in (case read_records accessor items [] h of
                  (Inl (what, message), h) \<Rightarrow> refuse request_id what message h
                | (Inr records, h) \<Rightarrow>
                    answer request_id (object [(''generation'', json_nat g), (''records'', JArray records)]) h))"

section \<open>invalidateFrtkCatalog\<close>

definition handle_invalidateFrtkCatalog :: "string \<Rightarrow> Json \<Rightarrow> 's HostState \<Rightarrow> Json \<times> 's HostState" where
  "handle_invalidateFrtkCatalog request_id params h =
     (if \<not> HasOnlyKeys params [''reason''] \<or> \<not> has_string params ''reason''
      then refuse request_id ''INVALID_REQUEST'' ''Invalid catalog invalidation params'' h
      else let reason = string_field params ''reason''
        in if reason \<noteq> ''caller_transition'' \<and> reason \<noteq> ''save_changed'' \<and> reason \<noteq> ''shutdown''
           then refuse request_id ''INVALID_REQUEST'' ''Invalid catalog invalidation reason'' h
           else let c = Invalidate (frtk_catalog h)
             in answer request_id (object [(''generation'', JUnsigned (generation c)), (''reason'', JString reason)])
                  (h\<lparr>frtk_catalog := c\<rparr>))"

section \<open>transactFrtkFields\<close>

record ChangeGroup =
  group_unique_id :: nat
  group_row :: nat
  group_changes :: "FieldChange list"

definition parse_change ::
  "SchemaRegistry \<Rightarrow> Json \<Rightarrow> (string \<times> string) + (nat \<times> nat \<times> FieldChange)" where
  "parse_change schema change =
     (let invalid = Inl (''INVALID_REQUEST'', ''Invalid typed field change'') in
      if \<not> is_object change \<or> \<not> HasOnlyKeys change [''uniqueId'', ''row'', ''field'', ''value''] \<or>
         \<not> json_contains change ''uniqueId'' \<or> \<not> json_contains change ''row'' \<or> \<not> has_string change ''field'' \<or>
         \<not> json_contains change ''value''
      then invalid
      else case (JsonUnsigned (json_field change ''uniqueId'') 0xFFFFFFFF, JsonUnsigned (json_field change ''row'') 0xFFFFFFFF) of
        (Some unique_id, Some row) \<Rightarrow>
          let name = string_field change ''field'' in
          if name = [] \<or> 128 < length name then invalid
          else (case Option.bind (SchemaByUniqueId schema unique_id) (\<lambda>table. FindField schema (schema_table_id table) name) of
                  None \<Rightarrow> Inl (''FRTK_FIELD_INVALID'', ''Unknown FrTk field'')
                | Some field \<Rightarrow>
                    (case ParseTypedFieldValue (json_field change ''value'') field schema of
                       None \<Rightarrow> Inl (''FRTK_FIELD_INVALID'', ''Invalid FrTk field value'')
                     | Some decoded \<Rightarrow> Inr (unique_id, row, \<lparr>change_name = name, change_value = decoded\<rparr>)))
      | _ \<Rightarrow> invalid)"

definition change_key :: "nat \<Rightarrow> nat \<Rightarrow> string \<Rightarrow> string" where
  "change_key unique_id row name = to_dec unique_id @ '':'' @ to_dec row @ '':'' @ name"

fun add_change :: "nat \<Rightarrow> nat \<Rightarrow> FieldChange \<Rightarrow> ChangeGroup list \<Rightarrow> ChangeGroup list" where
  "add_change unique_id row change [] = [\<lparr>group_unique_id = unique_id, group_row = row, group_changes = [change]\<rparr>]"
| "add_change unique_id row change (g # gs) =
     (if group_unique_id g = unique_id \<and> group_row g = row then g\<lparr>group_changes := group_changes g @ [change]\<rparr> # gs
      else g # add_change unique_id row change gs)"

fun parse_changes ::
  "SchemaRegistry \<Rightarrow> Json list \<Rightarrow> string set \<Rightarrow> ChangeGroup list \<Rightarrow> (string \<times> string) + ChangeGroup list" where
  "parse_changes schema [] identities groups = Inr groups"
| "parse_changes schema (item # items) identities groups =
     (case parse_change schema item of
        Inl e \<Rightarrow> Inl e
      | Inr (unique_id, row, change) \<Rightarrow>
          if change_key unique_id row (change_name change) \<in> identities
          then Inl (''INVALID_REQUEST'', ''Duplicate typed field change'')
          else parse_changes schema items (insert (change_key unique_id row (change_name change)) identities)
                 (add_change unique_id row change groups))"

fun plan_changes ::
  "'s HostState RecordAccessor \<Rightarrow> ChangeGroup list \<Rightarrow> FieldWritePlan list \<Rightarrow> 's HostState \<Rightarrow>
   ((string \<times> string) + FieldWritePlan list) \<times> 's HostState" where
  "plan_changes accessor [] plans h = (Inr plans, h)"
| "plan_changes accessor (g # gs) plans h =
     (case GetHandle (frtk_catalog h) (group_unique_id g) of
        None \<Rightarrow> (Inl (''FRTK_FIELD_INVALID'', ''Unknown FrTk table Unique ID''), h)
      | Some handle \<Rightarrow>
          (let (planned_write, c, h) = PlanFieldWrites accessor handle (group_row g) (group_changes g) (frtk_catalog h) h;
               h = h\<lparr>frtk_catalog := c\<rparr>
           in if \<not> plan_ok planned_write
              then (Inl (if plan_code planned_write = ''AUTHORITY_UNPROVEN'' then ''FRTK_AUTHORITY_UNPROVEN''
                         else access_code (plan_code planned_write), ''FrTk field transaction was refused''), h)
              else plan_changes accessor gs (plans @ [planned_write]) h))"

definition finalize_code :: "string \<Rightarrow> string" where
  "finalize_code what =
     (if what = ''CATALOG_EVIDENCE_STALE'' then ''FRTK_CATALOG_STALE''
      else if what = ''TRANSACTION_LIMIT_EXCEEDED'' then ''TRANSACTION_LIMIT_EXCEEDED''
      else ''FRTK_FIELD_INVALID'')"

text \<open>From the plans on: assemble, run, answer.\<close>

definition run_changes ::
  "'s HostWorld \<Rightarrow> string \<Rightarrow> string \<Rightarrow> nat \<Rightarrow> FieldWritePlan list \<Rightarrow> 's HostState \<Rightarrow> Json \<times> 's HostState" where
  "run_changes w request_id tid n plans h =
     (let guarded = FinalizeFieldTransaction (frtk_catalog h) tid plans
      in if \<not> guarded_ok guarded
         then refuse request_id (finalize_code (guarded_code guarded)) ''FrTk field transaction was refused'' h
         else let (transaction, h) = RunTransaction (guarded_request guarded) (host_memory w) h;
                  summary = object [(''transactionId'', JString tid), (''status'', JString (tr_code transaction)),
                    (''changedFields'', json_nat n)]
              in transaction_response request_id transaction summary h)"

definition handle_transactFrtkFields :: "'s HostWorld \<Rightarrow> string \<Rightarrow> Json \<Rightarrow> 's HostState \<Rightarrow> Json \<times> 's HostState" where
  "handle_transactFrtkFields w request_id params h =
     (let items = json_items (json_field params ''changes'') in
      if \<not> HasOnlyKeys params [''transactionId'', ''generation'', ''changes''] \<or> \<not> has_string params ''transactionId'' \<or>
         \<not> json_contains params ''generation'' \<or> \<not> has_array params ''changes'' \<or> items = [] \<or> 128 < length items
      then refuse request_id ''INVALID_REQUEST'' ''Invalid transactFrtkFields params'' h
      else case request_generation params of
        None \<Rightarrow> refuse request_id ''INVALID_REQUEST'' ''Invalid catalog generation'' h
      | Some g \<Rightarrow>
          if frtk_profile h = None \<or> g \<noteq> unat (generation (frtk_catalog h))
          then refuse request_id ''FRTK_CATALOG_STALE'' ''FrTk catalog generation is stale'' h
          else (case write_gate w request_id h of
                  Inl refused \<Rightarrow> refused
                | Inr h \<Rightarrow>
                    let schema = bundle_schema (the (frtk_profile h))
                    in (case parse_changes schema items {} [] of
                          Inl (what, message) \<Rightarrow> refuse request_id what message h
                        | Inr groups \<Rightarrow>
                            (case plan_changes (host_accessor w (game_build h) schema) groups [] h of
                               (Inl (what, message), h) \<Rightarrow> refuse request_id what message h
                             | (Inr plans, h) \<Rightarrow>
                                 run_changes w request_id (string_field params ''transactionId'') (length items) plans h))))"

end
