(* ===== verification/Lua_Host.thy ===== *)
theory Lua_Host
  imports Host_Scans Host_Frtk
begin

text \<open>
  The host as a whole (lua_host.cpp): the dispatch of the v1 requests, the line commands of the older pipe, the tick,
  the game-ready signal and the start. The threads that call them are left out: a run of the host is a sequence of
  these steps.
\<close>

section \<open>The v1 requests\<close>

definition request_id_of :: "Json \<Rightarrow> string" where
  "request_id_of request = (if is_object request \<and> has_string request ''id'' then string_field request ''id'' else [])"

text \<open>\<open>get<int>()\<close> of an integer keeps its low 32 bits.\<close>

definition json_get_int :: "Json \<Rightarrow> int" where
  "json_get_int j = (case j of JInteger n \<Rightarrow> to_int n | JUnsigned n \<Rightarrow> to_int n | _ \<Rightarrow> 0)"

definition bad_envelope :: "Json \<Rightarrow> bool" where
  "bad_envelope request \<longleftrightarrow> \<not> is_object request \<or>
     \<not> HasOnlyKeys request [''protocol'', ''id'', ''command'', ''params''] \<or> \<not> json_contains request ''protocol'' \<or>
     \<not> is_number_integer (json_field request ''protocol'') \<or>
     json_get_int (json_field request ''protocol'') \<noteq> int kVersion \<or>
     \<not> has_string request ''id'' \<or> \<not> has_string request ''command''"

definition request_params :: "Json \<Rightarrow> Json" where
  "request_params request = (if json_contains request ''params'' then json_field request ''params'' else JObject [])"

text \<open>One command; \<open>supported\<close>, \<open>writes_disabled\<close> and \<open>writes_allowed\<close> were found when the request came in.\<close>

definition dispatch ::
  "'s HostWorld \<Rightarrow> bool \<Rightarrow> bool \<Rightarrow> bool \<Rightarrow> string \<Rightarrow> string \<Rightarrow> Json \<Rightarrow> 's HostState \<Rightarrow> Json \<times> 's HostState" where
  "dispatch w supported writes_disabled writes_allowed request_id command params h =
     (if command = ''hello'' then handle_hello supported writes_allowed request_id h
      else if command = ''status'' then handle_status supported writes_allowed writes_disabled request_id h
      else if command = ''nativeCall'' then handle_nativeCall w writes_disabled request_id params h
      else if command = ''addBoard'' then handle_board w kAdd writes_disabled request_id params h
      else if command = ''removeBoard'' then handle_board w kRemove writes_disabled request_id params h
      else if command = ''loadFrtkProfile'' then handle_loadFrtkProfile w request_id params h
      else if command = ''discoverFrtkCatalog'' then handle_discoverFrtkCatalog w request_id params h
      else if command = ''inspectFrtkCatalog'' then handle_inspectFrtkCatalog request_id params h
      else if command = ''readFrtkRecords'' then handle_readFrtkRecords w request_id params h
      else if command = ''invalidateFrtkCatalog'' then handle_invalidateFrtkCatalog request_id params h
      else if command = ''transactFrtkFields'' then handle_transactFrtkFields w request_id params h
      else if command = ''writeTransaction'' then handle_writeTransaction w request_id params h
      else if command = ''registerTelemetry'' then handle_registerTelemetry request_id params h
      else if command = ''scanMemory'' then handle_scanMemory w supported request_id params h
      else if command = ''readMemory'' then handle_readMemory w supported request_id params h
      else if command = ''logs'' then handle_logs request_id params h
      else if command = ''events'' then handle_events request_id params h
      else handle_script w command request_id params h)"

definition HandleV1Request :: "'s HostWorld \<Rightarrow> Json \<Rightarrow> 's HostState \<Rightarrow> Json \<times> 's HostState" where
  "HandleV1Request w request h =
     (let request_id = request_id_of request in
      if bad_envelope request
      then refuse request_id ''INVALID_REQUEST'' ''Request is missing protocol, id, or command'' h
      else let params = request_params request in
        if \<not> is_object params then refuse request_id ''INVALID_REQUEST'' ''Request params must be an object'' h
        else let supported = CertifiedBuild h; writes_disabled = session_writes_disabled h;
                 (writes_allowed, h) = (if writes_disabled then (False, h) else write_environment w h)
          in dispatch w supported writes_disabled writes_allowed request_id (string_field request ''command'') params h)"

section \<open>The line commands\<close>

definition escape_char :: "char \<Rightarrow> string" where
  "escape_char c =
     (if c = CHR 0x5C then [CHR 0x5C, CHR 0x5C]
      else if c = CHR 0x22 then [CHR 0x5C, CHR 0x22]
      else if c = CHR 0x0A then [CHR 0x5C, CHR ''n'']
      else if c = CHR 0x0D then [CHR 0x5C, CHR ''r'']
      else if c = CHR 0x09 then [CHR 0x5C, CHR ''t'']
      else if of_char c < (0x20 :: nat)
      then [CHR 0x5C, CHR ''u'', CHR ''0'', CHR ''0'', lower_digit (of_char c div 16), lower_digit (of_char c mod 16)]
      else [c])"

definition JsonEscape :: "string \<Rightarrow> string" where
  "JsonEscape content = concat (map escape_char content)"

definition bool_text :: "bool \<Rightarrow> string" where
  "bool_text b = (if b then ''true'' else ''false'')"

definition quoted :: "string \<Rightarrow> string" where
  "quoted content = [CHR 0x22] @ content @ [CHR 0x22]"

text \<open>The streams run in the order of the text, so the gate is asked in its place.\<close>

definition StatusJson :: "'s HostWorld \<Rightarrow> 's HostState \<Rightarrow> string \<times> 's HostState" where
  "StatusJson w h =
     (let (allowed, h) = native_calls w h
      in (''{'' @ quoted ''ok'' @ '':true,'' @ quoted ''ready'' @ '':'' @ bool_text (host_ready h) @
          '','' @ quoted ''supportedBuild'' @ '':'' @ bool_text (CertifiedBuild h) @
          '','' @ quoted ''writesAllowed'' @ '':'' @ bool_text allowed @
          '','' @ quoted ''scriptsRun'' @ '':'' @ to_dec (unat (scripts_run h)) @
          '','' @ quoted ''ticks'' @ '':'' @ to_dec (unat (tick_count h)) @
          '','' @ quoted ''lastError'' @ '':'' @ quoted (JsonEscape (last_error h)) @ ''}'', h))"

definition line_end :: "char \<Rightarrow> bool" where
  "line_end c \<longleftrightarrow> c = CHR 0x0D \<or> c = CHR 0x0A"

definition strip_line :: "string \<Rightarrow> string" where
  "strip_line command = rev (dropWhile line_end (rev command))"

text \<open>The verb, and the rest after the white space that follows it.\<close>

definition split_verb :: "string \<Rightarrow> string \<times> string" where
  "split_verb command =
     (let command = dropWhile is_space command
      in (takeWhile (\<lambda>c. \<not> is_space c) command, dropWhile is_space (dropWhile (\<lambda>c. \<not> is_space c) command)))"

definition command_result :: "(bool \<times> string) \<times> 's HostState \<Rightarrow> string \<times> 's HostState" where
  "command_result = (\<lambda>((ok, result), h).
     (''{'' @ quoted ''ok'' @ '':'' @ bool_text ok @ '','' @ quoted ''result'' @ '':'' @ quoted (JsonEscape result) @ ''}'', h))"

definition HandleCommand :: "'s HostWorld \<Rightarrow> string \<Rightarrow> 's HostState \<Rightarrow> string \<times> 's HostState" where
  "HandleCommand w command h =
     (let (verb, rest) = split_verb (strip_line command) in
      if verb = ''PING'' \<or> verb = ''STATUS'' then StatusJson w h
      else if verb = ''RUN'' then command_result (RunLuaFile w (takeWhile (\<lambda>c. c \<noteq> CHR 0x0A) rest) h)
      else if verb = ''EVAL'' then command_result (RunLuaText w (takeWhile (\<lambda>c. c \<noteq> CHR 0x00) rest) ''pipe'' h)
      else (''{'' @ quoted ''ok'' @ '':false,'' @ quoted ''error'' @ '':'' @ quoted ''unknown command'' @ ''}'', h))"

section \<open>Ticks, the game and the start\<close>

text \<open>One turn of \<open>TickLoop\<close>. The time of the event is the one the turn has read.\<close>

definition tick_event :: "'s HostWorld \<Rightarrow> 's HostState \<Rightarrow> 's HostState" where
  "tick_event w h =
     (let (now, h) = NowMilliseconds w h
      in if 1000 \<le> sint now - sint (last_tick_event_ms h)
         then h\<lparr>last_tick_event_ms := now,
                event_log := AppendEvent ''tick'' (object [(''ticks'', JUnsigned (tick_count h))]) now (event_log h)\<rparr>
         else h)"

definition TickLoop_step :: "'s HostWorld \<Rightarrow> 's HostState \<Rightarrow> 's HostState" where
  "TickLoop_step w h = tick_event w (FireEvent w ''tick'' (h\<lparr>tick_count := tick_count h + 1\<rparr>))"

definition UpdateGameReady :: "'s HostWorld \<Rightarrow> bool \<Rightarrow> 's HostState \<Rightarrow> 's HostState" where
  "UpdateGameReady w is_ready h =
     (let h = h\<lparr>host_ready := is_ready, frtk_catalog := AdvanceLifecycle is_ready (frtk_catalog h)\<rparr>;
          h = FireEvent w ''game_ready'' h
      in append_event w ''game_ready'' (object [(''ready'', JBool is_ready)]) h)"

text \<open>The state at the start of the process, and what \<open>Start\<close> does before it starts the threads; the Lua state may
  be refused.\<close>

definition initial_state :: "'s \<Rightarrow> 's HostState" where
  "initial_state s =
     \<lparr>process_of = s, game_build = None, session_writes_disabled = False, host_ready = False, scripts_run = 0,
      tick_count = 0, last_tick_event_ms = 0, last_error = [], event_log = empty_log, registered_types = {},
      frtk_profile = None, frtk_catalog = new_catalog, board_cache = None, watch_state_of = new_watch,
      database_api = new_api, callbacks = [], lua_started = False\<rparr>"

definition Start :: "'s HostWorld \<Rightarrow> bool \<Rightarrow> string \<Rightarrow> 's HostState \<Rightarrow> bool \<times> 's HostState" where
  "Start w new_state autorun h =
     (let h = h\<lparr>game_build := ResolveGameBuild (platform w) (process_of h)\<rparr>
      in if \<not> new_state then (False, h\<lparr>last_error := ''could not create Lua state''\<rparr>)
         else let h = RunAutorun w autorun (h\<lparr>lua_started := True\<rparr>);
                  h = UpdateGameReady w True h
              in (True, log_message_of w ''CFB27 Lua host ready'' h))"

end
