(* ===== verification/Quiet_Steps.thy ===== *)
theory Quiet_Steps
  imports Lua_Db_Api Research_Watch
begin

text \<open>
  What a relation between states that holds for every step of the backends holds for: the revalidation of a
  catalog, field reads, write plans, transactions and the database of the scripts, whatever else they do. The
  guarantee of the host (no memory is changed behind the gates) rests on these lemmas.
\<close>

locale guarantee =
  fixes R :: "'s \<Rightarrow> 's \<Rightarrow> bool"
  assumes same [simp, intro]: "R s s" and next_step [trans]: "R s t \<Longrightarrow> R t u \<Longrightarrow> R s u"

section \<open>Reads\<close>

locale quiet_backend = guarantee R for R :: "'s \<Rightarrow> 's \<Rightarrow> bool" +
  fixes backend :: "'s DiscoveryBackend"
  assumes batch: "ReadBatch backend requests s = (r, t) \<Longrightarrow> R s t"
    and extent: "ExtentExists backend a n s = (found, t) \<Longrightarrow> R s t"
begin

lemma read_batches_step: "read_batches backend requests s = (r, t) \<Longrightarrow> R s t"
proof (induction requests arbitrary: r s t rule: measure_induct_rule [of length])
  case (less requests)
  show ?case
  proof (cases "requests = [] \<or> batch_count 0 0 requests = 0")
    case True
    then show ?thesis using less.prems by (subst (asm) read_batches.simps) auto
  next
    case False
    let ?n = "batch_count 0 0 requests"
    obtain ok chunk u where u: "ReadBatch backend (take ?n requests) s = ((ok, chunk), u)" by (metis surj_pair)
    obtain rest v where v: "read_batches backend (drop ?n requests) u = (rest, v)" by (metis surj_pair)
    have "length (drop ?n requests) < length requests" using False by simp
    from less.IH [OF this v] have "R u v" .
    moreover have "v = t"
      using less.prems False u v by (subst (asm) read_batches.simps) (simp add: Let_def split: prod.splits)
    ultimately show ?thesis using batch [OF u] next_step by blast
  qed
qed

lemma ReadBoundedBatches_step: "ReadBoundedBatches backend requests s = (r, t) \<Longrightarrow> R s t"
  using read_batches_step by (auto simp: ReadBoundedBatches_def split: if_splits prod.splits)

lemma read_twice_step: "read_twice backend valid requests s = (r, t) \<Longrightarrow> R s t"
  by (auto simp: read_twice_def split: if_splits prod.splits dest!: ReadBoundedBatches_step elim: next_step)

lemma check_indexed_step: "check_indexed schema backend e s = (r, t) \<Longrightarrow> R s t"
  by (auto simp: check_indexed_def Let_def split: if_splits prod.splits dest!: read_twice_step elim: next_step)

lemma collect_entry_step: "collect_entry schema es backend e (k, s) = (k', t) \<Longrightarrow> R s t"
  by (auto simp: collect_entry_def Let_def split: if_splits prod.splits option.splits
      dest!: extent check_indexed_step elim: next_step)

lemma collect_step: "fold (collect_entry schema es backend) rest (k, s) = (k', t) \<Longrightarrow> R s t"
proof (induction rest arbitrary: k s)
  case (Cons e rest)
  obtain k1 u where u: "collect_entry schema es backend e (k, s) = (k1, u)" by force
  then show ?case using Cons collect_entry_step [OF u] next_step by fastforce
qed simp

lemma read_evidence_step: "read_evidence backend c s = (r, t) \<Longrightarrow> R s t"
  by (auto simp: read_evidence_def split: prod.splits dest!: collect_step read_twice_step elim: next_step)

lemma Revalidate_step: "Revalidate backend c s = (r, t) \<Longrightarrow> R s t"
  by (auto simp: Revalidate_def Let_def split: if_splits prod.splits dest!: read_evidence_step)

end

section \<open>Records\<close>

locale quiet_memory = guarantee R for R :: "'s \<Rightarrow> 's \<Rightarrow> bool" +
  fixes memory :: "'s MemoryBackend"
  assumes validated: "Validate memory s a n writable = (ok, t) \<Longrightarrow> R s t"
    and bytes_read: "Read memory s a n = (bytes, t) \<Longrightarrow> R s t"
begin

lemma read_record_step: "read_record memory address n s = (r, t) \<Longrightarrow> R s t"
  by (auto simp: read_record_def split: if_splits prod.splits dest!: validated bytes_read elim: next_step)

end

locale quiet_records =
  reads: quiet_backend R "validation_backend a" + bytes: quiet_memory R "accessor_memory a"
  for R :: "'s \<Rightarrow> 's \<Rightarrow> bool" and a :: "'s RecordAccessor"
begin

lemma ReadFields_step:
  assumes "ReadFields a h row names c s = (r, c', t)"
  shows "R s t"
proof -
  obtain v c1 u where rv: "Revalidate (validation_backend a) c s = ((fst v, snd v, c1), u)" by (metis surj_pair fst_conv snd_conv)
  have s: "R s u" using reads.Revalidate_step [OF rv] .
  have rd: "R s x" if "read_record (accessor_memory a) address n u = (bytes, x)" for address n bytes x
    using bytes.read_record_step [OF that] s reads.next_step by blast
  show ?thesis
    using assms rv s by (auto simp: ReadFields_def Let_def dest!: rd split: option.splits if_splits prod.splits)
qed

lemma PlanFieldWrites_step:
  assumes "PlanFieldWrites a h row changes c s = (p, c', t)"
  shows "R s t"
proof -
  obtain v c1 u where rv: "Revalidate (validation_backend a) c s = ((fst v, snd v, c1), u)" by (metis surj_pair fst_conv snd_conv)
  have s: "R s u" using reads.Revalidate_step [OF rv] .
  have rd: "R s x" if "read_record (accessor_memory a) address n u = (bytes, x)" for address n bytes x
    using bytes.read_record_step [OF that] s reads.next_step by blast
  show ?thesis
    using assms rv s by (auto simp: PlanFieldWrites_def Let_def dest!: rd split: option.splits if_splits prod.splits sum.splits)
qed

lemma planned_groups_step: "plan_groups a items plans c s = (r, c', t) \<Longrightarrow> R s t"
proof (induction items arbitrary: plans c s r c' t rule: measure_induct_rule [of length])
  case (less items)
  show ?case
  proof (cases items)
    case (Cons item rest)
    let ?same = "\<lambda>other. pending_key other = pending_key item"
    obtain p c1 u where plan: "PlanFieldWrites a (pending_handle item) (pending_row item)
        (map pending_field (item # takeWhile ?same rest)) c s = (p, c1, u)" by (metis prod_cases3)
    have "length (dropWhile ?same rest) < length items"
      using length_dropWhile_le [of ?same rest] Cons by simp
    note later = less.IH [OF this]
    show ?thesis
      using less.prems PlanFieldWrites_step [OF plan] later reads.next_step
      unfolding Cons Lua_Db_Api.plan_groups_step [OF plan] by (auto split: if_splits)
  qed (use less.prems in simp)
qed

end

section \<open>Transactions\<close>

locale loud_memory = quiet_memory R memory for R :: "'s \<Rightarrow> 's \<Rightarrow> bool" and memory :: "'s MemoryBackend" +
  assumes written: "Write memory s a bytes = (ok, t) \<Longrightarrow> R s t"
begin

lemma validate_all_step: "validate_all memory addresses operations s = (r, t) \<Longrightarrow> R s t"
proof (induction operations arbitrary: addresses s)
  case (Cons operation rest)
  show ?case
  proof (cases addresses)
    case a: (Cons address later)
    obtain ok u where u: "Validate memory s address (length (op_expected operation)) (op_kind operation = TransactionOperationKind.kWrite) = (ok, u)"
      by force
    show ?thesis
      using Cons.prems a u validated [OF u] Cons.IH [of later u] next_step [of s u t] by (cases ok) auto
  qed (use Cons.prems in simp)
qed simp

lemma read_all_step: "read_all memory addresses operations s = (r, t) \<Longrightarrow> R s t"
proof (induction operations arbitrary: addresses s r t)
  case (Cons operation rest)
  show ?case
  proof (cases addresses)
    case a: (Cons address later)
    obtain bytes u where u: "Read memory s address (length (op_expected operation)) = (bytes, u)" by force
    obtain originals v where v: "read_all memory later rest u = (originals, v)" by force
    show ?thesis
      using Cons.prems a u v bytes_read [OF u] Cons.IH [OF v] next_step [of s u v] by (cases bytes; cases originals) auto
  qed (use Cons.prems in simp)
qed simp

lemma restore_loop_step: "restore_loop memory prepared indices restored results s = (r, results', t) \<Longrightarrow> R s t"
proof (induction indices arbitrary: restored results s)
  case (Cons index rest)
  obtain ok u where u: "Write memory s (prep_address (prepared ! index)) (prep_original (prepared ! index)) = (ok, u)" by force
  then show ?case using Cons written [OF u] next_step [of s u t] by simp
qed simp

lemma readback_loop_step: "readback_loop memory prepared indices restored s = (r, t) \<Longrightarrow> R s t"
proof (induction indices arbitrary: restored s)
  case (Cons index rest)
  obtain got u where u: "Read memory s (prep_address (prepared ! index)) (length (prep_original (prepared ! index))) = (got, u)"
    by force
  then show ?case using Cons bytes_read [OF u] next_step [of s u t] by simp
qed simp

lemma RollBack_step:
  assumes "RollBack prepared attempted results memory s = (r, t)"
  shows "R s t"
proof -
  obtain restored results' u where u: "restore_loop memory prepared (rev attempted) True results s = (restored, results', u)"
    by (metis prod_cases3)
  obtain restored' v where v: "readback_loop memory prepared attempted restored u = (restored', v)" by force
  show ?thesis
    using assms u v restore_loop_step [OF u] readback_loop_step [OF v] next_step [of s u v] by (auto simp: RollBack_def)
qed

lemma apply_loop_step: "apply_loop operations index prepared attempted results memory s = (r, t) \<Longrightarrow> R s t"
proof (induction operations arbitrary: index attempted results s)
  case (Cons operation rest)
  show ?case
  proof (cases "op_kind operation = kVerifyOnly")
    case True
    then show ?thesis using Cons by simp
  next
    case False
    obtain ok u where u: "Write memory s (prep_address (prepared ! index)) (op_replacement operation) = (ok, u)" by force
    obtain got v where v: "Read memory u (prep_address (prepared ! index)) (length (op_replacement operation)) = (got, v)"
      by force
    have su: "R s u" and sv: "R s v" using written [OF u] bytes_read [OF v] next_step [of s u v] by simp_all
    show ?thesis
    proof (cases "ok \<and> got = Some (op_replacement operation)")
      case True
      then have "apply_loop rest (Suc index) prepared (attempted @ [index])
          ((results[index := (results ! index)\<lparr>res_applied := True\<rparr>])[index := ((results[index := (results ! index)\<lparr>res_applied := True\<rparr>]) ! index)\<lparr>res_verified := True\<rparr>])
          memory v = (r, t)"
        using Cons.prems False u v by (simp add: Let_def)
      then show ?thesis using Cons.IH sv next_step by blast
    next
      case rolled: False
      show ?thesis
      proof (cases ok)
        case True
        then have "RollBack prepared (attempted @ [index]) (results[index := (results ! index)\<lparr>res_applied := True\<rparr>]) memory v = (r, t)"
          using Cons.prems False u v rolled by (simp add: Let_def)
        then show ?thesis using RollBack_step sv next_step by blast
      next
        case False
        then have "RollBack prepared (attempted @ [index]) results memory u = (r, t)"
          using Cons.prems \<open>op_kind operation \<noteq> kVerifyOnly\<close> u by (simp add: Let_def)
        then show ?thesis using RollBack_step su next_step by blast
      qed
    qed
  qed
qed simp

lemma RunTransaction_step:
  assumes "RunTransaction request memory s = (r, t)"
  shows "R s t"
proof (cases "check_operations 0 (tx_operations request)")
  case (Inl what)
  then show ?thesis using assms by (auto simp: RunTransaction_def Let_def split: if_splits)
next
  case (Inr addresses)
  let ?ops = "tx_operations request"
  obtain ok u where u: "validate_all memory addresses ?ops s = (ok, u)" by force
  obtain originals v where v: "read_all memory addresses ?ops u = (originals, v)" by force
  have su: "R s u" and sv: "R s v"
    using validate_all_step [OF u] read_all_step [OF v] next_step [of s u v] by simp_all
  show ?thesis
  proof (rule ccontr)
    assume other: "\<not> R s t"
    then have "t \<noteq> s" "t \<noteq> u" "t \<noteq> v" using su sv by auto
    then obtain bytes where "apply_loop ?ops 0 (prepare addresses bytes) [] (initial_results (length ?ops)) memory v = (r, t)"
      using assms Inr u v by (auto simp: RunTransaction_def Let_def split: if_splits bool.splits option.splits)
    then show False using apply_loop_step sv next_step other by blast
  qed
qed

end

text \<open>The fault injecting backends keep a relation that the backend keeps.\<close>

lemma injected_steps:
  assumes "loud_memory R memory"
  shows "loud_memory (\<lambda>(s, n) (t, k). R s t) (SmokeRollbackUnverifiedBackend memory)"
    and "loud_memory (\<lambda>(s, n) (t, k). R s t) (SmokeApplyFailureBackend memory)"
proof -
  have quiet: "quiet_memory R memory" using assms by (rule loud_memory.axioms)
  note steps = quiet_memory.validated [OF quiet] quiet_memory.bytes_read [OF quiet] loud_memory.written [OF assms]
  have base: "guarantee R" using quiet by (rule quiet_memory.axioms)
  then have g: "guarantee (\<lambda>(s, n) (t, k). R s t)"
    by (auto simp: guarantee_def)
  show "loud_memory (\<lambda>(s, n) (t, k). R s t) (SmokeRollbackUnverifiedBackend memory)"
    using g steps guarantee.same [OF base]
    by (auto simp: loud_memory_def loud_memory_axioms_def quiet_memory_def quiet_memory_axioms_def
        SmokeRollbackUnverifiedBackend_def Let_def split: prod.splits if_splits)
  show "loud_memory (\<lambda>(s, n) (t, k). R s t) (SmokeApplyFailureBackend memory)"
    using g steps guarantee.same [OF base]
    by (auto simp: loud_memory_def loud_memory_axioms_def quiet_memory_def quiet_memory_axioms_def
        SmokeApplyFailureBackend_def Let_def split: prod.splits if_splits)
qed

section \<open>The database of the scripts\<close>

locale quiet_database = quiet_backend R "db_validation env" + quiet_memory R "db_memory env"
  for R :: "'s \<Rightarrow> 's \<Rightarrow> bool" and env :: "'s DatabaseEnv" +
  assumes submitted: "submit_transaction env request s = (result, t) \<Longrightarrow> R s t"

sublocale quiet_database \<subseteq> records: quiet_records R "db_accessor env schema" for schema
  using quiet_backend_axioms quiet_memory_axioms by (simp add: quiet_records_def db_accessor_def)

context quiet_database
begin

lemma GetField_step:
  assumes "GetField env arguments c s = (r, c', t)"
  shows "R s t"
proof (rule ccontr)
  assume other: "\<not> R s t"
  then have "t \<noteq> s" by auto
  then obtain handle row name q where "PrepareGetField env handle row name c s = (q, c', t)"
    using assms by (auto simp: GetField_def split: option.splits prod.splits sum.splits)
  then obtain schema result c1 where "ReadFields (db_accessor env schema) handle row [name] c s = (result, c1, t)"
    using \<open>t \<noteq> s\<close>
    by (auto simp: PrepareGetField_def split: if_splits option.splits prod.splits DecodedField.splits)
  then show False using records.ReadFields_step other by blast
qed

lemma FinishTransaction_step:
  assumes "FinishTransaction env api c s = (r, api', c', t)"
  shows "R s t"
proof (cases "schema_provider env s")
  case None
  then show ?thesis using assms by (auto simp: FinishTransaction_def Let_def split: if_splits)
next
  case (Some schema)
  obtain planned c1 u where u: "plan_groups (db_accessor env schema) (sort_changes env (pending_changes api)) [] c s = (planned, c1, u)"
    by (metis prod_cases3)
  have su: "R s u" using records.planned_groups_step [OF u] .
  show ?thesis
  proof (cases planned)
    case (Inl message)
    then show ?thesis using assms Some u su by (auto simp: FinishTransaction_def Let_def split: if_splits)
  next
    case (Inr plans)
    let ?guarded = "FinalizeFieldTransaction c1 (''lua-db-'' @ to_dec (unat (generation c))) plans"
    obtain result v where v: "submit_transaction env (guarded_request ?guarded) u = (result, v)" by force
    have "R s v" using submitted [OF v] su next_step by blast
    then show ?thesis using assms Some u v Inr su by (auto simp: FinishTransaction_def Let_def split: if_splits)
  qed
qed

end

section \<open>Hardware watches\<close>

locale quiet_threads = guarantee R for R :: "'s \<Rightarrow> 's \<Rightarrow> bool" +
  fixes api :: "'s ThreadApi"
  assumes thread_steps:
    "ThreadSnapshot api s = (threads, t) \<Longrightarrow> R s t" "OpenThread api i s = (ok, t) \<Longrightarrow> R s t"
    "SuspendThread api i s = (ok, t) \<Longrightarrow> R s t" "GetThreadContext api i s = (context_of, t) \<Longrightarrow> R s t"
    "SetThreadContext api i ctx s = (ok, t) \<Longrightarrow> R s t" "R s (ResumeThread api i s)" "R s (CloseHandle api i s)"
    "AddVectoredExceptionHandler api s = (ok, t) \<Longrightarrow> R s t" "R s (RemoveVectoredExceptionHandler api s)"

begin

lemmas thread_chain =
  next_step [OF _ thread_steps(1)] next_step [OF _ thread_steps(2)] next_step [OF _ thread_steps(3)]
  next_step [OF _ thread_steps(4)] next_step [OF _ thread_steps(5)] next_step [OF _ thread_steps(6)]
  next_step [OF _ thread_steps(7)] next_step [OF _ thread_steps(8)] next_step [OF _ thread_steps(9)]

text \<open>What a thread has open, from its opening to its context.\<close>

lemma opened_thread:
  obtains thread u suspended v context_of x where "OpenThread api tid s = (thread, u)" "SuspendThread api tid u = (suspended, v)"
    "GetThreadContext api tid v = (context_of, x)" "R s u" "R s (CloseHandle api tid v)"
    "R s (CloseHandle api tid (ResumeThread api tid x))"
    "\<And>ctx ok y. SetThreadContext api tid ctx x = (ok, y) \<Longrightarrow> R s (CloseHandle api tid (ResumeThread api tid y))"
proof -
  obtain thread u where u: "OpenThread api tid s = (thread, u)" by force
  obtain suspended v where v: "SuspendThread api tid u = (suspended, v)" by force
  obtain context_of x where x: "GetThreadContext api tid v = (context_of, x)" by force
  have "R s u" "R s v" "R s x" using u v x thread_chain(2-4) by blast+
  then show thesis using that [OF u v x] thread_chain(5,6,7) by blast
qed

lemma ConfigureThread_step:
  assumes "ConfigureThread api slots tid saved s = (r, saved', t)"
  shows "R s t"
proof (rule opened_thread [of tid s])
  fix thread u suspended v context_of x
  assume run: "OpenThread api tid s = (thread, u)" "SuspendThread api tid u = (suspended, v)"
      "GetThreadContext api tid v = (context_of, x)"
    and ends: "R s u" "R s (CloseHandle api tid v)" "R s (CloseHandle api tid (ResumeThread api tid x))"
      "\<And>ctx ok y. SetThreadContext api tid ctx x = (ok, y) \<Longrightarrow> R s (CloseHandle api tid (ResumeThread api tid y))"
  show ?thesis
  proof (cases context_of)
    case None
    then show ?thesis using assms run ends by (auto simp: ConfigureThread_def split: if_splits)
  next
    case (Some ctx)
    let ?saved = "FindSavedThread saved tid"
    obtain found list where found: "(if ?saved = None \<and> Dr7 ctx AND 0xFF = 0
        then (Some (save_thread tid ctx), saved @ [save_thread tid ctx]) else (?saved, saved)) = (found, list)" by force
    show ?thesis
    proof (cases found)
      case None
      then show ?thesis using assms run ends found Some by (auto simp: ConfigureThread_def split: if_splits)
    next
      case other: (Some target)
      obtain ok y where "SetThreadContext api tid (ApplySlots slots ctx target) x = (ok, y)" by force
      then show ?thesis
        using assms run ends(1,2) ends(4) found Some other by (auto simp: ConfigureThread_def split: if_splits)
    qed
  qed
qed

lemma configure_threads_step: "configure_threads api slots entries n saved s = (k, saved', t) \<Longrightarrow> R s t"
proof (induction entries arbitrary: n saved s)
  case (Cons entry entries)
  obtain owner tid where entry: "entry = (owner, tid)" by force
  obtain ok saved1 u where u: "ConfigureThread api slots tid saved s = (ok, saved1, u)" by (metis prod_cases3)
  show ?case
    using Cons.prems Cons.IH ConfigureThread_step [OF u] u entry next_step [of s u t] by (auto split: if_splits)
qed simp

lemma ConfigureAllThreads_step: "ConfigureAllThreads api slots saved s = (k, saved', t) \<Longrightarrow> R s t"
  by (auto simp: ConfigureAllThreads_def split: prod.splits option.splits dest!: configure_threads_step
      dest: thread_steps(1) intro: next_step)

lemma RestoreThread_step:
  assumes "RestoreThread api saved s = (r, t)"
  shows "R s t"
proof (rule opened_thread [of "thread_id saved" s])
  let ?tid = "thread_id saved"
  fix thread u suspended v context_of x
  assume run: "OpenThread api ?tid s = (thread, u)" "SuspendThread api ?tid u = (suspended, v)"
      "GetThreadContext api ?tid v = (context_of, x)"
    and ends: "R s u" "R s (CloseHandle api ?tid v)" "R s (CloseHandle api ?tid (ResumeThread api ?tid x))"
      "\<And>ctx ok y. SetThreadContext api ?tid ctx x = (ok, y) \<Longrightarrow> R s (CloseHandle api ?tid (ResumeThread api ?tid y))"
  obtain ok y where "SetThreadContext api ?tid (saved_context saved) x = (ok, y)" by force
  then show ?thesis
    using assms run ends by (cases context_of) (auto simp: RestoreThread_def Let_def split: if_splits)
qed

lemma restore_threads_step: "restore_threads api saved n s = (k, t) \<Longrightarrow> R s t"
proof (induction saved arbitrary: n s)
  case (Cons thread saved)
  obtain ok u where u: "RestoreThread api thread s = (ok, u)" by force
  show ?case using Cons.prems Cons.IH RestoreThread_step [OF u] u next_step [of s u t] by (auto split: if_splits)
qed simp

lemma Arm_step:
  assumes "Arm api query kind address n w s = (r, w', t)"
  shows "R s t"
proof (rule ccontr)
  assume other: "\<not> R s t"
  obtain added w1 u where u: "install_handler api w s = (added, w1, u)" by (metis prod_cases3)
  have su: "R s u" using u thread_steps(8) by (auto simp: install_handler_def split: if_splits prod.splits)
  let ?slot = "free_slot_index (watch_slots w)"
  let ?w = "w1\<lparr>watch_slots := (watch_slots w1)[?slot := watch_state kind address n]\<rparr>"
  obtain k saved v where v: "ConfigureAllThreads api (watch_slots ?w) (watch_saved ?w) u = (k, saved, v)" by (metis prod_cases3)
  have sv: "R s v" using ConfigureAllThreads_step [OF v] su next_step by blast
  then have "R s (RemoveVectoredExceptionHandler api v)" by (rule thread_chain)
  then show False
    using assms other u v su sv by (auto simp: Arm_def place_watch_def Let_def split: if_splits)
qed

lemma Disarm_step:
  assumes "Disarm api w s = (k, w', t)"
  shows "R s t"
proof -
  obtain n u where u: "restore_threads api (watch_saved w) 0 s = (n, u)" by force
  then have "R s u" by (rule restore_threads_step)
  then show ?thesis using assms u thread_chain(9) by (auto simp: Disarm_def Let_def split: if_splits)
qed

end

end
