(* ===== verification/Host_Guarantee.thy ===== *)
theory Host_Guarantee
  imports Lua_Host Quiet_Steps
begin

text \<open>
  What every step of the host guarantees: the identity of the build stays, a session whose writes are disabled stays
  so, and the memory of the game changes only when the session was not locked and the gate let writes
  through. The locale \<open>host_world\<close> states what the world promises: reads, snapshots, clocks and debug registers leave
  the memory alone. Nothing is assumed of native code and of the writes themselves.
\<close>

section \<open>The guarantee\<close>

definition open_gate :: "'s HostWorld \<Rightarrow> 's HostState \<Rightarrow> bool" where
  "open_gate w h \<longleftrightarrow> \<not> session_writes_disabled h \<and> (\<exists>s. may_write (platform w) (game_build h) s)"

definition guarded :: "'s HostWorld \<Rightarrow> ('s \<Rightarrow> memory) \<Rightarrow> 's HostState \<Rightarrow> 's HostState \<Rightarrow> bool" where
  "guarded w mem h h' \<longleftrightarrow> game_build h' = game_build h \<and>
     (session_writes_disabled h \<longrightarrow> session_writes_disabled h') \<and>
     (mem (process_of h') = mem (process_of h) \<or> open_gate w h)"

text \<open>A step that touches neither the build nor the lock, and one that leaves the memory alone too.\<close>

definition framed :: "'s HostState \<Rightarrow> 's HostState \<Rightarrow> bool" where
  "framed h h' \<longleftrightarrow> game_build h' = game_build h \<and> session_writes_disabled h' = session_writes_disabled h"

definition still :: "('s \<Rightarrow> memory) \<Rightarrow> 's HostState \<Rightarrow> 's HostState \<Rightarrow> bool" where
  "still mem h h' \<longleftrightarrow> framed h h' \<and> mem (process_of h') = mem (process_of h)"

lemma framed_open: "framed h h' \<Longrightarrow> open_gate w h' \<longleftrightarrow> open_gate w h"
  by (simp add: framed_def open_gate_def)

lemma still_guarded [intro]: "still mem h h' \<Longrightarrow> guarded w mem h h'"
  by (simp add: still_def framed_def guarded_def)

lemma still_refl [simp, intro]: "still mem h h"
  by (simp add: still_def framed_def)

lemma still_trans [trans]: "still mem h h' \<Longrightarrow> still mem h' h'' \<Longrightarrow> still mem h h''"
  by (simp add: still_def framed_def)

lemma guarded_open: "open_gate w h \<Longrightarrow> framed h h' \<Longrightarrow> guarded w mem h h'"
  by (simp add: framed_def guarded_def)

lemma guarantee_guarded: "guarantee (guarded w mem)"
  by unfold_locales (auto simp: guarded_def open_gate_def)

lemma guarantee_framed: "guarantee framed"
  by unfold_locales (simp_all add: framed_def)

lemma guarantee_still: "guarantee (still mem)"
  by unfold_locales (simp_all add: framed_def still_def)

lemmas guarded_refl [simp, intro] = guarantee.same [OF guarantee_guarded]
lemmas guarded_trans [trans] = guarantee.next_step [OF guarantee_guarded]

text \<open>Updates of what the host keeps beside the process.\<close>

lemma still_updates [simp]:
  "still mem h (h'\<lparr>last_error := x1\<rparr>) = still mem h h'" "still mem h (h'\<lparr>event_log := x2\<rparr>) = still mem h h'"
  "still mem h (h'\<lparr>registered_types := x3\<rparr>) = still mem h h'" "still mem h (h'\<lparr>frtk_profile := x4\<rparr>) = still mem h h'"
  "still mem h (h'\<lparr>frtk_catalog := x5\<rparr>) = still mem h h'" "still mem h (h'\<lparr>watch_state_of := x6\<rparr>) = still mem h h'"
  "still mem h (h'\<lparr>database_api := x7\<rparr>) = still mem h h'" "still mem h (h'\<lparr>callbacks := x8\<rparr>) = still mem h h'"
  "still mem h (h'\<lparr>scripts_run := x9\<rparr>) = still mem h h'" "still mem h (h'\<lparr>tick_count := x10\<rparr>) = still mem h h'"
  "still mem h (h'\<lparr>last_tick_event_ms := x11\<rparr>) = still mem h h'" "still mem h (h'\<lparr>host_ready := x12\<rparr>) = still mem h h'"
  by (simp_all add: still_def framed_def)

lemma guarded_updates [simp]:
  "guarded w mem h (h'\<lparr>last_error := x1\<rparr>) = guarded w mem h h'" "guarded w mem h (h'\<lparr>event_log := x2\<rparr>) = guarded w mem h h'"
  "guarded w mem h (h'\<lparr>frtk_catalog := x5\<rparr>) = guarded w mem h h'"
  "guarded w mem h (h'\<lparr>database_api := x7\<rparr>) = guarded w mem h h'"
  "guarded w mem h (h'\<lparr>scripts_run := x9\<rparr>) = guarded w mem h h'"
  "guarded w mem (h\<lparr>lua_started := x13\<rparr>) h' = guarded w mem h h'"
  "guarded w mem (h\<lparr>database_api := x7\<rparr>) h' = guarded w mem h h'"
  by (simp_all add: guarded_def open_gate_def)

lemma guarded_lock: "guarded w mem h h' \<Longrightarrow> guarded w mem h (h'\<lparr>session_writes_disabled := True\<rparr>)"
  by (simp add: guarded_def)

section \<open>The promises of the world\<close>

text \<open>What the backends of the process keep, stated for any process.\<close>

context os_process
begin

lemma process_backend: "memory_backend (ProcessMemoryBackend os) mem"
  by (rule memory_backend_axioms)

end

context host_process
begin

lemma process_scanner: "table_scanner (ProcessDiscoveryBackend host) (\<lambda>d. mem (process_state d))"
  by (rule scanner.table_scanner_axioms)

end

definition unwritten :: "('s \<Rightarrow> memory) \<Rightarrow> 's \<Rightarrow> 's \<Rightarrow> bool" where
  "unwritten mem s t \<longleftrightarrow> mem t = mem s"

locale host_world =
  fixes w :: "'s HostWorld" and mem :: "'s \<Rightarrow> memory"
  assumes process: "host_process (discovery_process w) mem"
    and snapshot_mem: "mem (snd (ProcessSnapshot (platform w) s)) = mem s"
    and clock_mem: "mem (snd (SystemClock (platform w) s)) = mem s"
    and timer_mem: "mem (steady_start w n s) = mem s"
    and threads: "quiet_threads (unwritten mem) (thread_api w)"
begin

lemma on_state_still: "on_state f h = (r, h') \<Longrightarrow> mem (snd (f (process_of h))) = mem (process_of h) \<Longrightarrow> still mem h h'"
  by (auto simp: on_state_def still_def framed_def split: prod.splits)

lemma now_still: "NowMilliseconds w h = (now, h') \<Longrightarrow> still mem h h'"
  by (auto simp: NowMilliseconds_def clock_mem elim: on_state_still)

lemma append_event_still: "still mem h (append_event w type payload h)"
  using now_still by (auto simp: append_event_def split: prod.splits)

lemma log_still: "still mem h (log_message_of w message h)"
  using now_still by (auto simp: log_message_of_def split: prod.splits)

lemma write_environment_still:
  "write_environment w h = (allowed, h') \<Longrightarrow> still mem h h' \<and> (allowed \<longrightarrow> (\<exists>s. may_write (platform w) (game_build h) s))"
  unfolding write_environment_def
  by (auto simp: gate_states snapshot_mem elim: on_state_still)
    (auto simp: on_state_def split: prod.splits dest: WriteEnvironmentAllowed_may_write)

lemma native_calls_still:
  "native_calls w h = (allowed, h') \<Longrightarrow> still mem h h' \<and> (allowed \<longrightarrow> open_gate w h)"
  unfolding native_calls_def
  by (auto simp: gate_states snapshot_mem elim: on_state_still)
    (auto simp: on_state_def open_gate_def split: prod.splits dest: NativeCallsAllowed_may_write)

lemma research_watches_still: "research_watches w h = (allowed, h') \<Longrightarrow> still mem h h'"
  unfolding research_watches_def by (auto simp: gate_states snapshot_mem elim: on_state_still)

lemma anticheat_still: "anticheat_running w h = (found, h') \<Longrightarrow> still mem h h'"
  unfolding anticheat_running_def by (auto simp: gate_states snapshot_mem elim: on_state_still)

lemma host_process_any: "host_process (host_process_of w build) mem"
  using process by (simp add: host_process_def host_process_of_def)

lemma memory_framed: "loud_memory framed (host_memory w)"
  by (intro loud_memory.intro quiet_memory.intro guarantee_framed quiet_memory_axioms.intro loud_memory_axioms.intro)
    (auto simp: host_memory_def Let_def on_state_def framed_def split: prod.splits)

lemma memory_still: "quiet_memory (still mem) (host_memory w)"
proof -
  have "os_process (host_os (discovery_process w)) mem" using process by (simp add: host_process_def)
  note backend = os_process.process_backend [OF this]
  show ?thesis
    by (intro quiet_memory.intro guarantee_still quiet_memory_axioms.intro)
      (auto simp: host_memory_def Let_def memory_backend.read_mem [OF backend] memory_backend.validate_mem [OF backend]
        elim: on_state_still)
qed

lemma with_backend_still:
  assumes "with_backend f h = (r, h')" and "\<And>d. mem (process_state (snd (f d))) = mem (process_state d)"
  shows "still mem h h'"
  using assms(1) assms(2) [of "fresh_backend False (process_of h)"]
  by (auto simp: with_backend_def fresh_backend_def still_def framed_def split: prod.splits)

lemma validation_still: "quiet_backend (still mem) (host_validation w build)"
proof -
  note reader = table_scanner.axioms(1) [OF host_process.process_scanner [OF host_process_any]]
  note scanner = table_reader.batch_mem [OF reader] table_reader.extent_mem [OF reader]
  show ?thesis
    by (intro quiet_backend.intro guarantee_still quiet_backend_axioms.intro)
      (auto simp: host_validation_def Let_def scanner elim!: with_backend_still)
qed

lemma accessor_still: "quiet_records (still mem) (host_accessor w build schema)"
  using validation_still memory_still by (simp add: quiet_records_def host_accessor_def)

lemma arm_still: "arm_watch w kind address n h = (r, h') \<Longrightarrow> still mem h h'"
  by (auto simp: arm_watch_def still_def framed_def unwritten_def split: prod.splits dest!: quiet_threads.Arm_step [OF threads])

lemma run_open: "RunTransaction request (host_memory w) h = (r, h') \<Longrightarrow> open_gate w h \<Longrightarrow> guarded w mem h h'"
  using loud_memory.RunTransaction_step [OF memory_framed] guarded_open by blast

section \<open>The database of the scripts\<close>

lemma submit_guarded:
  assumes "submit_lua_transaction w request h = (r, h')"
  shows "guarded w mem h h'"
proof (cases "session_writes_disabled h")
  case True
  then show ?thesis using assms by (simp add: submit_lua_transaction_def)
next
  case False
  obtain allowed h1 where gate: "write_environment w h = (allowed, h1)" by force
  note g = write_environment_still [OF gate]
  show ?thesis
  proof (cases allowed)
    case True
    have opened: "open_gate w h1" using g True False by (simp add: still_def framed_def open_gate_def)
    obtain result h2 where run: "RunTransaction request (host_memory w) h1 = (result, h2)" by force
    have "guarded w mem h h2" using run_open [OF run opened] g guarded_trans by blast
    then show ?thesis
      using assms False True gate run guarded_lock by (auto simp: submit_lua_transaction_def lock_session_def split: if_splits)
  next
    case False
    then show ?thesis using assms gate g \<open>\<not> session_writes_disabled h\<close> by (auto simp: submit_lua_transaction_def)
  qed
qed

lemma quiet_backend_guarded: "quiet_backend (guarded w mem) (host_validation w build)"
  using quiet_backend.batch [OF validation_still] quiet_backend.extent [OF validation_still]
  by (auto intro!: quiet_backend.intro guarantee_guarded quiet_backend_axioms.intro)

lemma quiet_memory_guarded: "quiet_memory (guarded w mem) (host_memory w)"
  using quiet_memory.validated [OF memory_still] quiet_memory.bytes_read [OF memory_still]
  by (auto intro!: quiet_memory.intro guarantee_guarded quiet_memory_axioms.intro)

lemma database_guarded: "quiet_database (guarded w mem) (db_env w h)"
  using quiet_backend_guarded quiet_memory_guarded submit_guarded
  by (auto simp: quiet_database_def quiet_database_axioms_def db_env_def lua_database_def)

end

context host_world
begin

section \<open>The functions of the scripts\<close>

lemmas lua_returns = luaL_error_def lua_push_def

lemma still_then: "still mem h h1 \<Longrightarrow> guarded w mem h1 h2 \<Longrightarrow> guarded w mem h h2"
  using guarded_trans still_guarded by blast

lemma opened_write: "still mem h h1 \<Longrightarrow> open_gate w h \<Longrightarrow> framed h1 h2 \<Longrightarrow> guarded w mem h h2"
  by (simp add: guarded_def still_def framed_def)

lemma write_byte_guarded:
  assumes "write_byte w address expected replacement h = (r, h')"
  shows "guarded w mem h h'"
proof (cases "session_writes_disabled h")
  case True
  then show ?thesis using assms by (simp add: write_byte_def)
next
  case False
  obtain allowed h1 where gate: "write_environment w h = (allowed, h1)" by force
  note g = write_environment_still [OF gate]
  show ?thesis
  proof (cases allowed)
    case True
    then have "open_gate w h" using g False by (simp add: open_gate_def)
    then have "guarded w mem h (h1\<lparr>process_of := s\<rparr>)" for s
      using opened_write [of h h1 "h1\<lparr>process_of := s\<rparr>"] g by (simp add: framed_def)
    then show ?thesis
      using assms False True gate g by (auto simp: write_byte_def Let_def split: if_splits)
  next
    case False
    obtain found h2 where "anticheat_running w h1 = (found, h2)" by force
    moreover from anticheat_still [OF this] g have "still mem h h2" using still_trans by blast
    ultimately show ?thesis
      using assms False \<open>\<not> session_writes_disabled h\<close> gate by (auto simp: write_byte_def)
  qed
qed

lemma LuaWriteU8_guarded: "LuaWriteU8 w arguments h = (r, h') \<Longrightarrow> guarded w mem h h'"
  using write_byte_guarded by (fastforce simp: LuaWriteU8_def lua_returns split: sum.splits prod.splits)

lemma invoke_framed: "invoke_native w target arguments h = (r, h') \<Longrightarrow> framed h h'"
  by (auto simp: invoke_native_def on_state_def framed_def split: prod.splits)

lemma LuaNativeCall_guarded:
  assumes "LuaNativeCall w arguments h = (r, h')"
  shows "guarded w mem h h'"
proof -
  obtain allowed h1 where gate: "native_calls w h = (allowed, h1)" by force
  note g = native_calls_still [OF gate]
  have called: "guarded w mem h h2" if "allowed" "invoke_native w a b h1 = (result, h2)" for a b result h2
    using opened_write g that invoke_framed by blast
  have h1: "guarded w mem h h1" using g by blast
  show ?thesis
    using assms gate h1 called
    by (auto simp: LuaNativeCall_def lua_returns split: if_splits sum.splits prod.splits CallStatus.splits)
qed

lemma LuaArmWatch_guarded: "LuaArmWatch w kind arguments h = (r, h') \<Longrightarrow> still mem h h'"
  by (auto simp: LuaArmWatch_def lua_returns split: if_splits sum.splits prod.splits
      dest!: research_watches_still arm_still intro: still_trans)

lemma LuaWatchHits_guarded: "LuaWatchHits w arguments h = (r, h') \<Longrightarrow> still mem h h'"
  by (auto simp: LuaWatchHits_def lua_returns Let_def split: if_splits LuaResult.splits prod.splits
      dest!: research_watches_still)

lemma LuaUnwatch_guarded:
  assumes "LuaUnwatch w h = (r, h')"
  shows "still mem h h'"
proof -
  obtain allowed h1 where gate: "research_watches w h = (allowed, h1)" by force
  obtain n watch s where off: "Disarm (thread_api w) (watch_state_of h1) (process_of h1) = (n, watch, s)" by (metis prod_cases3)
  have "mem s = mem (process_of h1)" using quiet_threads.Disarm_step [OF threads off] by (simp add: unwritten_def)
  then show ?thesis
    using assms gate off research_watches_still [OF gate]
    by (auto simp: LuaUnwatch_def lua_returns still_def framed_def split: if_splits)
qed

lemma LuaLog_guarded: "LuaLog w arguments h = (r, h') \<Longrightarrow> still mem h h'"
  using log_still by (auto simp: LuaLog_def lua_returns split: sum.splits)

lemma LuaEmit_guarded: "LuaEmit w heap arguments h = (r, h') \<Longrightarrow> still mem h h'"
  using append_event_still
  by (auto simp: LuaEmit_def lua_returns split: if_splits list.splits LuaValue.splits sum.splits option.splits)

lemma LuaOn_guarded: "LuaOn w arguments h = (r, h') \<Longrightarrow> still mem h h'"
  by (auto simp: LuaOn_def lua_returns Let_def split: if_splits LuaValue.splits sum.splits)

lemma LuaDbGetField_guarded: "LuaDbGetField w arguments h = (r, h') \<Longrightarrow> guarded w mem h h'"
  by (auto simp: LuaDbGetField_def split: prod.splits dest!: quiet_database.GetField_step [OF database_guarded])

lemma finish_guarded: "finish_transaction w h = (r, h') \<Longrightarrow> guarded w mem h h'"
  by (auto simp: finish_transaction_def lua_returns Let_def split: prod.splits sum.splits
      dest!: quiet_database.FinishTransaction_step [OF database_guarded])

lemma call_function_guarded: "call_function w f heap arguments h = (r, h') \<Longrightarrow> guarded w mem h h'"
proof (cases f)
  case cfb_write_u8
  assume "call_function w f heap arguments h = (r, h')"
  then show ?thesis using cfb_write_u8 LuaWriteU8_guarded by simp
next
  case cfb_call
  assume "call_function w f heap arguments h = (r, h')"
  then show ?thesis using cfb_call LuaNativeCall_guarded by simp
next
  case cfb_watch
  assume "call_function w f heap arguments h = (r, h')"
  then show ?thesis using cfb_watch LuaArmWatch_guarded by (auto simp: LuaWatch_def)
next
  case cfb_watch_exec
  assume "call_function w f heap arguments h = (r, h')"
  then show ?thesis using cfb_watch_exec LuaArmWatch_guarded by (auto simp: LuaWatchExec_def)
next
  case db_get_field
  assume "call_function w f heap arguments h = (r, h')"
  then show ?thesis using db_get_field LuaDbGetField_guarded by simp
qed (auto simp: LuaModuleBase_def LuaReadU8_def LuaAobScan_def LuaDbSetField_def lua_returns Let_def
    split: sum.splits if_splits option.splits prod.splits
    dest: LuaWatchHits_guarded LuaUnwatch_guarded LuaLog_guarded LuaEmit_guarded LuaOn_guarded)

lemma run_script_guarded: "run_script w script h = (r, h') \<Longrightarrow> guarded w mem h h'"
proof (induction script arbitrary: h r h')
  case (Calls f heap arguments rest)
  obtain result h1 where call: "call_function w f heap arguments h = (result, h1)" by force
  then have "run_script w (rest result) h1 = (r, h')" using Calls.prems by simp
  from Calls.IH [OF _ this] have "guarded w mem h1 h'" by simp
  with call_function_guarded [OF call] show ?case by (rule guarded_trans)
next
  case (Transacts arguments body rest)
  have onward: "guarded w mem h1 h'" if "run_script w (rest x) h1 = (r, h')" for x h1
    using Transacts.IH(2) [OF _ that] by simp
  show ?case
  proof (cases "lua_argument arguments 2")
    case (LuaFunction identity)
    obtain began api where start: "BeginTransaction (database_api h) = (began, api)" by force
    let ?h = "h\<lparr>database_api := api\<rparr>"
    obtain ended h1 where body: "run_script w body ?h = (ended, h1)" by force
    have h1: "guarded w mem h h1" using Transacts.IH(1) [OF body] by simp
    obtain result h2 where finish: "finish_transaction w h1 = (result, h2)" by force
    have h2: "guarded w mem h h2" using h1 finish_guarded [OF finish] by (rule guarded_trans)
    show ?thesis
    proof (cases began)
      case (Inl e)
      then have "guarded w mem ?h h'" using Transacts.prems LuaFunction start by (auto dest: onward)
      then show ?thesis by simp
    next
      case began: (Inr u)
      show ?thesis
      proof (cases ended)
        case (Inl e)
        then have "guarded w mem (h1\<lparr>database_api := AbortTransaction (database_api h1)\<rparr>) h'"
          using Transacts.prems LuaFunction start began body by (auto dest: onward)
        then show ?thesis using h1 guarded_trans by auto
      next
        case (Inr u)
        then have "guarded w mem h2 h'"
          using Transacts.prems LuaFunction start began body finish by (auto dest: onward)
        then show ?thesis using h2 guarded_trans by blast
      qed
    qed
  qed (use Transacts.prems in \<open>auto dest: onward\<close>)
qed simp_all

lemma fire_callbacks_guarded: "guarded w mem h (fire_callbacks w event entries h)"
proof (induction entries arbitrary: h)
  case (Cons entry entries)
  obtain name reference where entry: "entry = (name, reference)" by force
  obtain r h1 where run: "run_script w (callback_script w reference (process_of h)) h = (r, h1)" by force
  have h1: "guarded w mem h h1" using run_script_guarded [OF run] .
  have "still mem h1 (log_message_of w message (h1\<lparr>last_error := message\<rparr>))" for message
    using log_still [of "h1\<lparr>last_error := message\<rparr>"] by (simp add: still_def framed_def)
  then have "guarded w mem h (log_message_of w message (h1\<lparr>last_error := message\<rparr>))" for message
    using h1 guarded_trans by blast
  moreover have "guarded w mem h (fire_callbacks w event entries h2)" if "guarded w mem h h2" for h2
    using that Cons.IH guarded_trans by blast
  ultimately show ?case
    using Cons.IH h1 run entry by (auto simp: Let_def split: sum.split)
qed simp

lemma FireEvent_guarded: "guarded w mem h (FireEvent w event h)"
  by (simp add: FireEvent_def fire_callbacks_guarded)

lemma RunLuaText_guarded: "RunLuaText w content chunk h = (r, h') \<Longrightarrow> guarded w mem h h'"
  by (auto simp: RunLuaText_def Let_def split: if_splits prod.splits sum.splits dest!: run_script_guarded)

lemma RunLuaFile_guarded: "RunLuaFile w path h = (r, h') \<Longrightarrow> guarded w mem h h'"
  using RunLuaText_guarded by (auto simp: RunLuaFile_def split: option.splits)

end

context host_world
begin

section \<open>The requests\<close>

lemmas replies = refuse_def answer_def

lemma handle_nativeCall_guarded:
  assumes "handle_nativeCall w writes_disabled request_id params h = (r, h')"
  shows "guarded w mem h h'"
proof -
  obtain allowed h1 where gate: "native_calls w h = (allowed, h1)" by force
  note g = native_calls_still [OF gate]
  have called: "guarded w mem h h2" if "allowed" "invoke_native w a b h1 = (result, h2)" for a b result h2
    using opened_write g that invoke_framed by blast
  have h1: "guarded w mem h h1" using g by blast
  show ?thesis
    using assms gate h1 called
    by (auto simp: handle_nativeCall_def replies Let_def split: if_splits sum.splits prod.splits option.splits)
qed

lemma handle_board_guarded:
  assumes "handle_board w oper writes_disabled request_id params h = (r, h')"
  shows "guarded w mem h h'"
proof -
  obtain allowed h1 where gate: "native_calls w h = (allowed, h1)" by force
  note g = native_calls_still [OF gate]
  have framed: "framed h1 h2" if "invoke_board w layout oper a b h1 = (result, h2)" for layout a b result h2
    using that by (auto simp: invoke_board_def framed_def split: prod.splits)
  have called: "guarded w mem h h2" if "allowed" "invoke_board w layout oper a b h1 = (result, h2)" for layout a b result h2
    using opened_write g that framed by blast
  have h1: "guarded w mem h h1" using g by blast
  show ?thesis
    using assms gate h1 called
    by (auto simp: handle_board_def replies Let_def split: if_splits prod.splits option.splits intro!: guarded_lock)
qed

lemma write_gate_guarded:
  "(\<forall>q h'. write_gate w request_id h = Inl (q, h') \<longrightarrow> still mem h h') \<and>
   (\<forall>h'. write_gate w request_id h = Inr h' \<longrightarrow> still mem h h' \<and> open_gate w h)"
proof -
  obtain allowed h1 where gate: "write_environment w h = (allowed, h1)" by force
  obtain found h2 where scan: "anticheat_running w h1 = (found, h2)" by force
  note g = write_environment_still [OF gate]
  have "still mem h h2" using g anticheat_still [OF scan] still_trans by blast
  then show ?thesis
    using gate scan g by (auto simp: write_gate_def replies open_gate_def split: if_splits)
qed

lemma transaction_response_guarded:
  "transaction_response request_id transaction summary h1 = (r, h') \<Longrightarrow> guarded w mem h h1 \<Longrightarrow> guarded w mem h h'"
  using guarded_lock by (auto simp: transaction_response_def split: TransactionStatus.splits)

lemma run_write_framed: "run_write w request h = (r, h') \<Longrightarrow> framed h h'"
proof -
  note smoke = loud_memory.RunTransaction_step [OF injected_steps(1) [OF memory_framed]]
    loud_memory.RunTransaction_step [OF injected_steps(2) [OF memory_framed]]
    loud_memory.RunTransaction_step [OF memory_framed]
  show "run_write w request h = (r, h') \<Longrightarrow> framed h h'"
    using smoke by (fastforce simp: run_write_def split: if_splits prod.splits)
qed

lemma handle_writeTransaction_guarded:
  assumes "handle_writeTransaction w request_id params h = (r, h')"
  shows "guarded w mem h h'"
proof (cases "write_gate w request_id h")
  case (Inl refused)
  then show ?thesis using assms write_gate_guarded by (cases refused) (auto simp: handle_writeTransaction_def)
next
  case (Inr h1)
  then have g: "still mem h h1" "open_gate w h" using write_gate_guarded by blast+
  have ran: "guarded w mem h h2" if "run_write w request h1 = (result, h2)" for request result h2
    using run_write_framed [OF that] opened_write g by blast
  show ?thesis
    using assms Inr g ran
    by (auto simp: handle_writeTransaction_def replies Let_def split: if_splits sum.splits prod.splits
        intro: transaction_response_guarded)
qed

lemma handle_registerTelemetry_still: "handle_registerTelemetry request_id params h = (r, h') \<Longrightarrow> still mem h h'"
  by (auto simp: handle_registerTelemetry_def replies Let_def split: if_splits prod.splits option.splits)

lemma mapped_still:
  assumes "decode_mapped w j h = (m, h')"
  shows "still mem h h'"
proof -
  have "still mem h h1" if "on_state (map_bytes (discovery_process w) bytes) h = (x, h1)" for bytes x h1
    using on_state_still [OF that] host_process.map_mem [OF process] by simp
  then show ?thesis using assms by (auto simp: decode_mapped_def split: Json.splits option.splits)
qed

lemma handle_scanMemory_still:
  assumes "handle_scanMemory w supported request_id params h = (r, h')"
  shows "still mem h h'"
proof -
  obtain pattern h1 where p: "decode_mapped w (json_field params ''patternHex'') h = (pattern, h1)" by force
  obtain mask_view h2 where m: "decode_mapped w (json_field params ''maskHex'') h1 = (mask_view, h2)" by force
  have h2: "still mem h h2" using mapped_still [OF p] mapped_still [OF m] still_trans by blast
  then have "still mem h h3" if "run_scan w request h2 = (scan, h3)" for request scan h3
    using that host_process.scanned_mem [OF process] by (auto simp: run_scan_def still_def framed_def)
  then show ?thesis
    using assms p m h2
    by (auto simp: handle_scanMemory_def replies Let_def split: if_splits prod.splits option.splits)
qed

lemma handle_readMemory_still:
  assumes "handle_readMemory w supported request_id params h = (r, h')"
  shows "still mem h h'"
proof -
  have reads: "os_process (host_os (discovery_process w)) mem" using process by (simp add: host_process_def)
  have "still mem h h1" if "on_state (ReadMemoryBatch (host_os (discovery_process w)) ranges) h = (x, h1)" for ranges x h1
    using on_state_still [OF that] ReadMemoryBatch_correct [OF reads] by (metis prod.collapse)
  then show ?thesis
    using assms by (auto simp: handle_readMemory_def replies Let_def split: if_splits prod.splits option.splits)
qed

lemma handle_script_guarded: "handle_script w command request_id params h = (r, h') \<Longrightarrow> guarded w mem h h'"
  by (auto simp: handle_script_def script_response_def replies split: if_splits prod.splits
      dest: RunLuaText_guarded)

lemma handle_loadFrtkProfile_still: "handle_loadFrtkProfile w request_id params h = (r, h') \<Longrightarrow> still mem h h'"
  by (auto simp: handle_loadFrtkProfile_def replies Let_def split: if_splits prod.splits option.splits)

lemma run_discovery_still:
  assumes "run_discovery w bundle h = (discovery, h')"
  shows "still mem h h'"
proof -
  note scanner = host_process.process_scanner [OF host_process_any]
  show ?thesis
    using assms table_scanner.DiscoverTables_ok [OF scanner] timer_mem
    by (auto simp: run_discovery_def Let_def still_def framed_def fresh_backend_def split: prod.splits)
qed

lemma handle_discoverFrtkCatalog_still: "handle_discoverFrtkCatalog w request_id params h = (r, h') \<Longrightarrow> still mem h h'"
  by (auto simp: handle_discoverFrtkCatalog_def replies Let_def split: if_splits prod.splits option.splits
      dest!: run_discovery_still)

lemma read_records_still:
  "read_records (host_accessor w build schema) items records h = (r, h') \<Longrightarrow> still mem h h'"
proof (induction items arbitrary: records h)
  case (Cons item items)
  show ?case
  proof (cases "parse_selector (frtk_catalog h) item")
    case (Inr selected)
    obtain unique_id row handle names where s: "selected = (unique_id, row, handle, names)" by (cases selected)
    obtain result c h1 where read: "ReadFields (host_accessor w build schema) handle row names (frtk_catalog h) h = (result, c, h1)"
      by (metis prod_cases3)
    have h1: "still mem h (h1\<lparr>frtk_catalog := c\<rparr>)" using quiet_records.ReadFields_step [OF accessor_still read] by simp
    show ?thesis
    proof (cases "frr_ok result \<and> field_values_json schema (frr_fields result) \<noteq> None")
      case True
      then obtain x where "read_records (host_accessor w build schema) items x (h1\<lparr>frtk_catalog := c\<rparr>) = (r, h')"
        using Cons.prems Inr s read by (auto simp: host_accessor_def)
      then show ?thesis using Cons.IH h1 still_trans by blast
    next
      case False
      then show ?thesis using Cons.prems Inr s read h1 by (auto simp: Let_def host_accessor_def split: if_splits)
    qed
  qed (use Cons.prems in simp)
qed simp

end

context host_world
begin

lemma handle_readFrtkRecords_still:
  assumes "handle_readFrtkRecords w request_id params h = (r, h')"
  shows "still mem h h'"
  using assms
  by (auto simp: handle_readFrtkRecords_def replies Let_def split: if_splits prod.splits option.splits sum.splits
      dest: read_records_still)

lemma plan_changes_still:
  "plan_changes (host_accessor w build schema) groups plans h = (r, h') \<Longrightarrow> still mem h h'"
proof (induction groups arbitrary: plans h)
  case (Cons g groups)
  show ?case
  proof (cases "GetHandle (frtk_catalog h) (group_unique_id g)")
    case (Some handle)
    obtain p c h1 where run: "PlanFieldWrites (host_accessor w build schema) handle (group_row g) (group_changes g)
        (frtk_catalog h) h = (p, c, h1)" by (metis prod_cases3)
    have h1: "still mem h (h1\<lparr>frtk_catalog := c\<rparr>)" using quiet_records.PlanFieldWrites_step [OF accessor_still run] by simp
    show ?thesis
    proof (cases "plan_ok p")
      case True
      then have "plan_changes (host_accessor w build schema) groups (plans @ [p]) (h1\<lparr>frtk_catalog := c\<rparr>) = (r, h')"
        using Cons.prems Some run by simp
      then show ?thesis using Cons.IH h1 still_trans by blast
    next
      case False
      then show ?thesis using Cons.prems Some run h1 by (auto simp: Let_def)
    qed
  qed (use Cons.prems in simp)
qed simp

lemma handle_transactFrtkFields_guarded:
  assumes "handle_transactFrtkFields w request_id params h = (r, h')"
  shows "guarded w mem h h'"
proof (rule ccontr)
  assume other: "\<not> guarded w mem h h'"
  then have "\<not> still mem h h'" by blast
  then have "h' \<noteq> h" by auto
  show False
  proof (cases "write_gate w request_id h")
    case (Inl refused)
    then have "still mem h (snd refused)" using write_gate_guarded by (cases refused) auto
    then show False
      using assms Inl \<open>h' \<noteq> h\<close> \<open>\<not> still mem h h'\<close>
      by (auto simp: handle_transactFrtkFields_def replies Let_def split: if_splits option.splits)
  next
    case (Inr h1)
    then have g: "still mem h h1" "open_gate w h" using write_gate_guarded by blast+
    let ?schema = "bundle_schema (the (frtk_profile h1))"
    have planned: "still mem h h2" if "plan_changes (host_accessor w (game_build h1) ?schema) groups [] h1 = (x, h2)" for groups x h2
      using plan_changes_still [OF that] g still_trans by blast
    have ran: "guarded w mem h h3" if "still mem h h2" "run_changes w request_id tid n plans h2 = (x, h3)" for tid n plans x h2 h3
    proof -
      have "guarded w mem h h4" if "RunTransaction request (host_memory w) h2 = (result, h4)" for request result h4
        using loud_memory.RunTransaction_step [OF memory_framed that] opened_write [OF \<open>still mem h h2\<close> g(2)] by blast
      then show ?thesis
        using that by (auto simp: run_changes_def replies Let_def split: if_splits prod.splits
            intro: transaction_response_guarded)
    qed
    show False
      using assms Inr g other \<open>h' \<noteq> h\<close>
      by (auto simp: handle_transactFrtkFields_def replies Let_def split: if_splits prod.splits option.splits sum.splits
          dest!: planned dest: ran)
  qed
qed

lemma handle_invalidateFrtkCatalog_still: "handle_invalidateFrtkCatalog request_id params h = (r, h') \<Longrightarrow> still mem h h'"
  by (auto simp: handle_invalidateFrtkCatalog_def replies Let_def split: if_splits)

lemma unchanged_handlers:
  "handle_hello supported writes_allowed request_id h = (r, h') \<Longrightarrow> h' = h"
  "handle_status supported writes_allowed writes_disabled request_id h = (r, h') \<Longrightarrow> h' = h"
  "handle_inspectFrtkCatalog request_id params h = (r, h') \<Longrightarrow> h' = h"
  "handle_logs request_id params h = (r, h') \<Longrightarrow> h' = h"
  "handle_events request_id params h = (r, h') \<Longrightarrow> h' = h"
  by (auto simp: handle_hello_def handle_status_def handle_inspectFrtkCatalog_def handle_logs_def handle_events_def replies
      split: if_splits option.splits)

lemma dispatch_guarded:
  assumes "dispatch w supported writes_disabled writes_allowed request_id command params h = (r, h')"
  shows "guarded w mem h h'"
proof -
  note loud = handle_nativeCall_guarded handle_board_guarded handle_transactFrtkFields_guarded handle_writeTransaction_guarded
    handle_script_guarded
  note quiet = handle_loadFrtkProfile_still handle_discoverFrtkCatalog_still handle_readFrtkRecords_still
    handle_registerTelemetry_still handle_scanMemory_still handle_readMemory_still handle_invalidateFrtkCatalog_still
  show ?thesis
    using assms unfolding dispatch_def
    by (auto split: if_splits dest: loud quiet dest!: unchanged_handlers)
qed

lemma HandleV1Request_guarded:
  assumes "HandleV1Request w request h = (r, h')"
  shows "guarded w mem h h'"
proof (cases "bad_envelope request \<or> \<not> is_object (request_params request)")
  case True
  then show ?thesis using assms by (cases "bad_envelope request") (auto simp: HandleV1Request_def replies Let_def)
next
  case False
  obtain allowed h1 where gate: "(if session_writes_disabled h then (False, h) else write_environment w h) = (allowed, h1)" by force
  then have h1: "still mem h h1" using write_environment_still by (auto split: if_splits)
  have "dispatch w (CertifiedBuild h) (session_writes_disabled h) allowed (request_id_of request)
      (string_field request ''command'') (request_params request) h1 = (r, h')"
    using assms False gate by (simp add: HandleV1Request_def Let_def)
  from still_then [OF h1 dispatch_guarded [OF this]] show ?thesis .
qed

lemma HandleCommand_guarded: "HandleCommand w command h = (r, h') \<Longrightarrow> guarded w mem h h'"
  by (auto simp: HandleCommand_def StatusJson_def command_result_def split: if_splits prod.splits
      dest: RunLuaFile_guarded RunLuaText_guarded native_calls_still)

lemma TickLoop_step_guarded: "guarded w mem h (TickLoop_step w h)"
proof -
  let ?h = "h\<lparr>tick_count := tick_count h + 1\<rparr>"
  obtain now h1 where now: "NowMilliseconds w (FireEvent w ''tick'' ?h) = (now, h1)" by force
  have "guarded w mem h ?h" by (rule still_guarded) simp
  then have "guarded w mem h h1"
    using FireEvent_guarded [of ?h "''tick''"] now_still [OF now] guarded_trans still_guarded by blast
  then have "guarded w mem h (h1\<lparr>last_tick_event_ms := a, event_log := b\<rparr>)" for a b by (simp add: guarded_def)
  then show ?thesis using \<open>guarded w mem h h1\<close> now by (simp add: TickLoop_step_def tick_event_def)
qed

lemma UpdateGameReady_guarded: "guarded w mem h (UpdateGameReady w is_ready h)"
proof -
  let ?h = "h\<lparr>host_ready := is_ready, frtk_catalog := AdvanceLifecycle is_ready (frtk_catalog h)\<rparr>"
  have "guarded w mem h ?h" by (rule still_guarded) simp
  then show ?thesis
    using FireEvent_guarded [of ?h "''game_ready''"] append_event_still guarded_trans still_guarded
    unfolding UpdateGameReady_def Let_def by blast
qed

end

section \<open>Runs of the host\<close>

text \<open>After the start the host is driven by its two pipes, the tick and the game; the game itself may change its
  memory between the steps, which is not a step of the host.\<close>

inductive host_step :: "'s HostWorld \<Rightarrow> 's HostState \<Rightarrow> 's HostState \<Rightarrow> bool" for w where
  requested: "HandleV1Request w request h = (response, h') \<Longrightarrow> host_step w h h'"
| commanded: "HandleCommand w command h = (response, h') \<Longrightarrow> host_step w h h'"
| ticked: "host_step w h (TickLoop_step w h)"
| signalled: "host_step w h (UpdateGameReady w is_ready h)"

lemma host_run_guarded:
  assumes "host_world w mem" and "(host_step w)\<^sup>*\<^sup>* h h'"
  shows "guarded w mem h h'"
  using assms(2)
proof (induction rule: rtranclp_induct)
  case (step h1 h2)
  from step.hyps(2) have "guarded w mem h1 h2"
    by cases (auto dest: host_world.HandleV1Request_guarded [OF assms(1)] host_world.HandleCommand_guarded [OF assms(1)]
        intro: host_world.TickLoop_step_guarded [OF assms(1)] host_world.UpdateGameReady_guarded [OF assms(1)])
  with step.IH show ?case by (rule guarded_trans)
qed simp

section \<open>A session from its start\<close>

text \<open>What \<open>Start\<close> does before the threads, on the state of a fresh process, and any run after it.\<close>

lemma RunAutorun_guarded:
  assumes "host_world w mem"
  shows "guarded w mem h (RunAutorun w autorun h)"
proof (cases "script_file w autorun (process_of h)")
  case None
  then show ?thesis by (simp add: RunAutorun_def)
next
  case (Some content)
  obtain ran result h1 where run: "RunLuaFile w autorun h = ((ran, result), h1)" by (metis prod.collapse)
  have "guarded w mem h h1" using host_world.RunLuaFile_guarded [OF assms run] .
  moreover have "guarded w mem h1 (log_message_of w message h1)" for message
    using host_world.log_still [OF assms] by (rule still_guarded)
  ultimately have "guarded w mem h (log_message_of w message h1)" for message using guarded_trans by blast
  then show ?thesis using Some run \<open>guarded w mem h h1\<close> by (simp add: RunAutorun_def split: bool.split)
qed

lemma start_guarded:
  assumes "host_world w mem" and "Start w created autorun (initial_state s) = (ok, h)"
  shows "guarded w mem ((initial_state s)\<lparr>game_build := ResolveGameBuild (platform w) s\<rparr>) h"
proof -
  let ?h = "(initial_state s)\<lparr>game_build := ResolveGameBuild (platform w) s\<rparr>"
  let ?ran = "RunAutorun w autorun (?h\<lparr>lua_started := True\<rparr>)"
  have "guarded w mem (?h\<lparr>lua_started := True\<rparr>) ?ran" by (rule RunAutorun_guarded [OF assms(1)])
  then have "guarded w mem ?h ?ran" by (simp only: guarded_updates)
  also have "guarded w mem ?ran (UpdateGameReady w True ?ran)" by (rule host_world.UpdateGameReady_guarded [OF assms(1)])
  also have "guarded w mem (UpdateGameReady w True ?ran) (log_message_of w m (UpdateGameReady w True ?ran))" for m
    using host_world.log_still [OF assms(1)] by (rule still_guarded)
  finally have up: "guarded w mem ?h (log_message_of w m (UpdateGameReady w True ?ran))" for m .
  have start: "process_of (initial_state s) = s" by (simp add: initial_state_def)
  show ?thesis
  proof (cases created)
    case True
    then show ?thesis using assms(2) up start by (auto simp: Start_def Let_def)
  next
    case False
    then show ?thesis using assms(2) start by (auto simp: Start_def Let_def)
  qed
qed

section \<open>A Windows process without threads to watch\<close>

definition windows_platform :: "string \<Rightarrow> ProcessEntry list \<Rightarrow> (string \<Rightarrow> string option) \<Rightarrow> process HostPlatform" where
  "windows_platform executable entries environment =
     \<lparr>ModuleFileName = \<lambda>s. Some executable, FileAttributes = \<lambda>s path. None, FileDigest = \<lambda>s path. None,
      EnvironmentVariable = \<lambda>s. environment, ProcessSnapshot = \<lambda>s. (Some entries, s), OwnProcessId = \<lambda>s. 4,
      ProcessImage = \<lambda>s i. None, SystemClock = \<lambda>s. (1000, s)\<rparr>"

definition windows_game :: "process native_code \<Rightarrow> process Game" where
  "windows_game native =
     \<lparr>RegionQuery = \<lambda>s. space_query (pages s),
      GuardedCopy = \<lambda>s a n. if accessible s False a n then Some (mem_read (ram s) a n) else None,
      ReadOwnMemory = \<lambda>s a n. fst (ReadProcessMemory windows s a n), ModuleHandle = \<lambda>s. 0x140000000,
      ApplicationAddresses = (0x10000, 0x7FFFFFFEFFFF), LocalWord = \<lambda>v s. (0x7000, s), NativeCode = native\<rparr>"

definition unthreaded :: "process ThreadApi" where
  "unthreaded =
     \<lparr>GetCurrentThreadId = \<lambda>s. 1, GetCurrentProcessId = \<lambda>s. 4, ThreadSnapshot = \<lambda>s. (Some [(4, 1)], s),
      OpenThread = \<lambda>i s. (False, s), SuspendThread = \<lambda>i s. (False, s), GetThreadContext = \<lambda>i s. (None, s),
      SetThreadContext = \<lambda>i c s. (False, s), ResumeThread = \<lambda>i s. s, CloseHandle = \<lambda>i s. s,
      AddVectoredExceptionHandler = \<lambda>s. (True, s), RemoveVectoredExceptionHandler = \<lambda>s. s\<rparr>"

definition windows_world ::
  "process HostPlatform \<Rightarrow> process native_code \<Rightarrow> (string \<Rightarrow> string \<Rightarrow> process \<Rightarrow> LuaScript) \<Rightarrow> process HostWorld" where
  "windows_world p native script =
     \<lparr>platform = p, discovery_process = windows_host 0x10000 0x7FFFFFFEFFFF (\<lambda>k n. None) False False,
      game = windows_game native, thread_api = unthreaded, peek_byte = \<lambda>s a. ram s a,
      poke_byte = \<lambda>a b s. s\<lparr>ram := (ram s)(a := b)\<rparr>, steady_start = \<lambda>n s. s, steady_elapsed = \<lambda>s. 0,
      dump_json = \<lambda>j. Some (json_text j), canonical_json = json_text, sha256_bytes = \<lambda>text. None,
      lua_checkinteger = \<lambda>v. case v of LuaInteger n \<Rightarrow> Inr n | _ \<Rightarrow> Inl ''number expected'',
      lua_checkstring = \<lambda>v. case v of LuaText t \<Rightarrow> Inr t | _ \<Rightarrow> Inl ''string expected'',
      lua_functionerror = \<lambda>v. ''function expected'', lua_invalid_conversion = \<lambda>f. ''invalid conversion'',
      image_size = \<lambda>s. 0x1000, load_chunk = script, callback_script = \<lambda>i s. Returned,
      new_reference = \<lambda>entries v. int (length entries), script_file = \<lambda>path s. None,
      change_sort = sort_key pending_key\<rparr>"

interpretation threads: quiet_threads "unwritten ram" unthreaded
  by unfold_locales (simp_all add: unthreaded_def unwritten_def)

lemma windows_session: "host_world (windows_world (windows_platform executable entries environment) native script) ram"
proof (intro host_world.intro)
  let ?w = "windows_world (windows_platform executable entries environment) native script"
  have "host_process (windows_host 0x10000 0x7FFFFFFEFFFF (\<lambda>k n. None) False False) ram"
    by (rule scanned_process.axioms(1) [OF process_host.scanned_process_axioms])
  then show "host_process (discovery_process ?w) ram" by (simp only: windows_world_def HostWorld.select_convs)
  show "quiet_threads (unwritten ram) (thread_api ?w)"
    using threads.quiet_threads_axioms by (simp only: windows_world_def HostWorld.select_convs)
  show "ram (snd (ProcessSnapshot (platform ?w) s)) = ram s" for s
    by (simp only: windows_world_def windows_platform_def HostWorld.select_convs HostPlatform.select_convs snd_conv)
  show "ram (snd (SystemClock (platform ?w) s)) = ram s" for s
    by (simp only: windows_world_def windows_platform_def HostWorld.select_convs HostPlatform.select_convs snd_conv)
  show "ram (steady_start ?w n s) = ram s" for n s by (simp only: windows_world_def HostWorld.select_convs)
qed

interpretation session: host_world "windows_world (windows_platform executable entries environment) native script" ram
  for executable entries environment native script
  by (rule windows_session)

definition plain_world :: "process HostWorld" where
  "plain_world = windows_world (windows_platform ''CollegeFootball27.exe'' [] (\<lambda>name. None))
     (\<lambda>a args s. (Inr 0, s)) (\<lambda>chunk text s. Returned)"

lemma plain_session: "host_world plain_world ram"
  unfolding plain_world_def by (rule windows_session)

interpretation session_guarantee: guarantee "guarded plain_world ram"
  by (rule guarantee_guarded)

interpretation session_reads: quiet_backend "still ram" "host_validation plain_world build" for build
  by (rule host_world.validation_still [OF plain_session])

interpretation session_memory: loud_memory framed "host_memory plain_world"
  by (rule host_world.memory_framed [OF plain_session])

interpretation session_bytes: quiet_memory "still ram" "host_memory plain_world"
  by (rule host_world.memory_still [OF plain_session])

interpretation session_records: quiet_records "still ram" "host_accessor plain_world build schema" for build schema
  by (rule host_world.accessor_still [OF plain_session])

interpretation session_database: quiet_database "guarded plain_world ram" "db_env plain_world h" for h
  by (rule host_world.database_guarded [OF plain_session])

section \<open>Properties\<close>

text \<open>C1: the guarantee of a session. Whatever requests, commands, ticks and signals of the game a host serves, in any order
  and with any scripts and native code: once the writes of the session are disabled they stay disabled and the host
  changes no byte of the memory; and if the memory was changed at all, the build is certified or the process is the smoke
  test, and some snapshot of the processes would show no anti-cheat. Of a script its calls of the host are meant, not the
  standard libraries of Lua.\<close>

theorem session_guarantee:
  assumes "host_world w mem" and "(host_step w)\<^sup>*\<^sup>* h h'"
  shows "(session_writes_disabled h \<longrightarrow> session_writes_disabled h' \<and> mem (process_of h') = mem (process_of h)) \<and>
    (mem (process_of h') \<noteq> mem (process_of h) \<longrightarrow> (\<exists>s. may_write (platform w) (game_build h) s))"
  using host_run_guarded [OF assms] by (auto simp: guarded_def open_gate_def)

definition locked_host :: "process HostState" where
  "locked_host = (initial_state tiny_process)\<lparr>session_writes_disabled := True\<rparr>"

definition write_request :: Json where
  "write_request = object [(''protocol'', JUnsigned 1), (''id'', JString ''7''), (''command'', JString ''writeTransaction''),
     (''params'', object [(''transactionId'', JString ''t''), (''operations'', JArray [])])]"

theorem session_guarantee_witness:
  "session_writes_disabled (snd (HandleV1Request plain_world write_request locked_host)) \<and>
   ram (process_of (snd (HandleV1Request plain_world write_request locked_host))) = ram tiny_process"
proof -
  obtain r h' where run: "HandleV1Request plain_world write_request locked_host = (r, h')" by force
  have "(host_step plain_world)\<^sup>*\<^sup>* locked_host h'" using host_step.requested [OF run] by blast
  from session_guarantee [OF plain_session this]
  have "session_writes_disabled h' \<and> ram (process_of h') = ram tiny_process"
    by (simp add: locked_host_def initial_state_def)
  with run show ?thesis by simp
qed

text \<open>C2: a process that may not be written is not written. From the start of the host in a fresh process on, autorun
  script included, no run changes the memory of a process whose executable is neither a certified build nor the smoke test,
  or whose snapshots always show an anti-cheat. Of a script its calls of the host are meant, not the standard libraries of
  Lua.\<close>

theorem unwritable_process_unchanged:
  assumes "host_world w mem" and "Start w created autorun (initial_state s) = (ok, h)" and "(host_step w)\<^sup>*\<^sup>* h h'"
    and "\<And>s'. \<not> may_write (platform w) (ResolveGameBuild (platform w) s) s'"
  shows "mem (process_of h') = mem s"
proof -
  have "guarded w mem ((initial_state s)\<lparr>game_build := ResolveGameBuild (platform w) s\<rparr>) h'"
    using start_guarded [OF assms(1,2)] host_run_guarded [OF assms(1,3)] guarded_trans by blast
  then show ?thesis using assms(4) by (simp add: guarded_def open_gate_def initial_state_def)
qed

theorem unwritable_process_unchanged_witness:
  "ram (process_of (TickLoop_step plain_world (snd (Start plain_world True ''autorun.lua'' (initial_state tiny_process))))) =
     ram tiny_process"
proof -
  obtain ok h where run: "Start plain_world True ''autorun.lua'' (initial_state tiny_process) = (ok, h)" by force
  have "(host_step plain_world)\<^sup>*\<^sup>* h (TickLoop_step plain_world h)" using host_step.ticked by blast
  moreover have "ResolveGameBuild (platform plain_world) tiny_process = None"
    by (simp add: plain_world_def windows_world_def windows_platform_def ResolveGameBuild_def)
  moreover have "\<not> SmokeWritesAllowed (platform plain_world) s" for s
    by (simp add: plain_world_def windows_world_def windows_platform_def SmokeWritesAllowed_def EnvironmentIsOne_def)
  ultimately have "ram (process_of (TickLoop_step plain_world h)) = ram tiny_process"
    using unwritable_process_unchanged [OF plain_session run] by (simp add: may_write_def IsCertified_def)
  with run show ?thesis by simp
qed

end
