(* ===== verification/Host_Contracts.thy ===== *)
theory Host_Contracts
  imports Host_Guarantee
begin

text \<open>
  What the host provides to its parts: its reads, its memory and the transactions of its scripts meet the contracts the
  catalog, the transaction engine and the database of the scripts are verified against. So the theorems on those parts
  hold inside the host.
\<close>

lemma on_state_parts: "fst (on_state f h) = fst (f (process_of h))" "process_of (snd (on_state f h)) = snd (f (process_of h))"
  by (simp_all add: on_state_def split: prod.split)

context host_world
begin

lemma host_reader: "table_reader (host_validation w build) (\<lambda>h. mem (process_of h))"
proof -
  note reader = table_scanner.axioms(1) [OF host_process.process_scanner [OF host_process_any]]
  have "out = map (\<lambda>r. mem_read (mem (process_of h)) (request_address r) (request_length r)) requests"
    if "ReadBatch (host_validation w build) requests h = ((True, out), h')" for requests h out h'
    using that table_reader.batch_bytes [OF reader]
    by (fastforce simp: host_validation_def Let_def with_backend_def fresh_backend_def split: prod.splits)
  moreover have "mem (process_of (snd (ReadBatch (host_validation w build) requests h))) = mem (process_of h)" for requests h
    using quiet_backend.batch [OF validation_still] by (metis prod.collapse still_def)
  moreover have "mem (process_of (snd (ExtentExists (host_validation w build) a n h))) = mem (process_of h)" for a n h
    using quiet_backend.extent [OF validation_still] by (metis prod.collapse still_def)
  ultimately show ?thesis by (intro table_reader.intro) blast+
qed

lemma host_backend: "memory_backend (host_memory w) (\<lambda>h. mem (process_of h))"
proof -
  have "os_process (host_os (discovery_process w)) mem" using process by (simp add: host_process_def)
  then have own: "memory_backend (ProcessMemoryBackend (host_os (discovery_process w))) mem"
    by (rule os_process.process_backend)
  note backend = memory_backend.validate_mem [OF own] memory_backend.read_mem [OF own]
    memory_backend.read_bytes [OF own] memory_backend.write_frame [OF own]
    memory_backend.write_bytes [OF own]
  show ?thesis
    by unfold_locales (simp_all add: host_memory_def Let_def on_state_parts backend(1,2,4,5) backend(3) [THEN sym])
qed

lemma submitted_run:
  assumes "submit_lua_transaction w request h = (result, h')"
  shows "mem (process_of h') = mem (process_of h) \<and> tr_status result = kRejected \<or>
    (\<exists>h1 h2. still mem h h1 \<and> RunTransaction request (host_memory w) h1 = (result, h2) \<and> process_of h' = process_of h2)"
proof -
  obtain allowed h1 where gate: "write_environment w h = (allowed, h1)" by force
  have h1: "still mem h h1" using write_environment_still [OF gate] by blast
  show ?thesis
  proof (cases "session_writes_disabled h \<or> \<not> allowed")
    case True
    then show ?thesis
      using assms gate h1 by (cases "session_writes_disabled h") (auto simp: submit_lua_transaction_def Rejected_def still_def)
  next
    case False
    obtain r h2 where run: "RunTransaction request (host_memory w) h1 = (r, h2)" by force
    then have "result = r" "process_of h' = process_of h2"
      using assms gate False by (auto simp: submit_lua_transaction_def lock_session_def)
    then show ?thesis using run h1 by blast
  qed
qed

lemma host_database:
  assumes "sorts_pending (change_sort w)"
  shows "database (lua_database w build) (\<lambda>h. mem (process_of h))"
proof (intro database.intro database_axioms.intro)
  show "sorts_pending (sort_changes (lua_database w build))" using assms by (simp add: lua_database_def)
  show "table_reader (db_validation (lua_database w build)) (\<lambda>h. mem (process_of h))"
    using host_reader by (simp add: lua_database_def)
  show "memory_backend (db_memory (lua_database w build)) (\<lambda>h. mem (process_of h))"
    using host_backend by (simp add: lua_database_def)
  fix request h r h'
  assume "submit_transaction (lua_database w build) request h = (r, h')"
  then have run: "submit_lua_transaction w request h = (r, h')" by (simp add: lua_database_def)
  show "\<exists>t t'. mem (process_of t) = mem (process_of h) \<and>
      RunTransaction request (db_memory (lua_database w build)) t = (r, t') \<and> mem (process_of h') = mem (process_of t')"
    if "tr_status r = kAppliedVerified"
    using submitted_run [OF run] that by (auto simp: lua_database_def still_def)
  show "mem (process_of h') = mem (process_of h)" if "tr_status r = kRejected \<or> tr_status r = kRolledBackVerified"
    using submitted_run [OF run] that memory_backend.run_frame(1) [OF host_backend] by (fastforce simp: still_def)
qed

end


interpretation session_db: database "lua_database plain_world build" "\<lambda>h. ram (process_of h)" for build
  by (rule host_world.host_database [OF plain_session]) (simp add: plain_world_def windows_world_def sort_key_sorts)


text \<open>The memory of the host on Windows reads and writes what it validated, so it is one of the backends whose outcomes are exact.\<close>

lemma windows_memory: "host_os (discovery_process (windows_world p native script)) = windows"
  by (simp add: windows_world_def windows_host_def Let_def)

interpretation host_bytes: memory_backend
  "host_memory (windows_world (windows_platform executable entries environment) native script)" "\<lambda>h. ram (process_of h)"
  for executable entries environment native script
  by (rule host_world.host_backend [OF windows_session])

interpretation host_reliable: reliable_backend
  "host_memory (windows_world (windows_platform executable entries environment) native script)" "\<lambda>h. ram (process_of h)"
  "\<lambda>h. windows_usable (process_of h)"
  for executable entries environment native script
  by unfold_locales (simp_all add: host_memory_def windows_memory Let_def on_state_parts win_reliable.validate_usable
      win_reliable.read_usable win_reliable.write_usable win_reliable.usable_stable)

end
