(* ===== verification/Host_Responses.thy ===== *)
theory Host_Responses
  imports Host_Contracts
begin

text \<open>
  What the responses of the host tell a client: every response is an envelope of the protocol with the id of its
  request, and an error says whether anything may have been written. Only five error codes leave that open; with two of them
  the host disables the writes of its session.
\<close>

section \<open>Shapes of a response\<close>

definition envelope :: "string \<Rightarrow> Json \<Rightarrow> bool" where
  "envelope request_id response \<longleftrightarrow> (\<exists>result. response = SuccessResponse request_id result) \<or>
     (\<exists>what message details. response = ErrorResponse request_id what message details)"

definition unsettled_codes :: "string set" where
  "unsettled_codes = {''NATIVE_CALL_EXCEPTION'', ''SCRIPT_ERROR'', ''ROLLBACK_VERIFICATION_FAILED'',
     ''BOARD_NATIVE_CALL_FAILED'', ''BOARD_POSTCONDITION_FAILED''}"

definition locking_codes :: "string set" where
  "locking_codes = {''ROLLBACK_VERIFICATION_FAILED'', ''BOARD_POSTCONDITION_FAILED''}"

text \<open>A response is settled when it is an error with no unsettled code.\<close>

definition settled :: "string \<Rightarrow> Json \<Rightarrow> bool" where
  "settled request_id response \<longleftrightarrow>
     (\<exists>what message details. response = ErrorResponse request_id what message details \<and> what \<notin> unsettled_codes)"

lemma response_ok:
  "json_field (SuccessResponse request_id result) ''ok'' = JBool True"
  "json_field (ErrorResponse request_id what message details) ''ok'' = JBool False"
  by (simp_all add: SuccessResponse_def ErrorResponse_def object_def json_field_def json_at_def)

lemma error_parts:
  "json_field (json_field (ErrorResponse request_id what message details) ''error'') ''code'' = JString what"
  by (simp add: ErrorResponse_def object_def json_field_def json_at_def)

lemma success_not_error [simp]: "SuccessResponse request_id result \<noteq> ErrorResponse request_id' what message details"
proof
  assume "SuccessResponse request_id result = ErrorResponse request_id' what message details"
  from arg_cong [OF this, of "\<lambda>r. json_field r ''ok''"] show False by (simp add: response_ok)
qed

lemma error_code:
  assumes "ErrorResponse request_id what message details = ErrorResponse request_id' what' message' details'"
  shows "what = what'"
  using arg_cong [OF assms, of "\<lambda>r. json_field (json_field r ''error'') ''code''"] by (simp add: error_parts)

lemma settled_error [simp]: "settled request_id (ErrorResponse request_id what message details) \<longleftrightarrow> what \<notin> unsettled_codes"
  unfolding settled_def using error_code by blast

lemma settled_success [simp]: "\<not> settled request_id (SuccessResponse request_id result)"
  unfolding settled_def by simp

lemma envelopes [simp, intro]:
  "envelope request_id (SuccessResponse request_id result)"
  "envelope request_id (ErrorResponse request_id what message details)"
  by (auto simp: envelope_def)


section \<open>Every response is an envelope\<close>

lemma replies_envelope [simp]:
  "envelope request_id (fst (refuse request_id what message h))" "envelope request_id (fst (answer request_id result h))"
  by (simp_all add: refuse_def answer_def)

lemma engine_envelopes [simp]:
  "envelope request_id (MemoryError request_id what)" "envelope request_id (TransactionRejected request_id what)"
  "envelope request_id (native_call_response request_id target call)"
  "envelope request_id (board_response request_id oper recruit_row team_row mutation)"
  "envelope request_id (scan_response request_id supported scan)"
  "envelope request_id (read_response request_id supported reading)"
  "envelope request_id (fst (transaction_response request_id transaction summary h))"
  "envelope request_id (fst (script_response request_id outcome))"
  by (auto simp: MemoryError_def TransactionRejected_def native_call_response_def board_response_def scan_response_def
      read_response_def transaction_response_def script_response_def
      split: CallStatus.split sum.split option.split TransactionStatus.split prod.split)

lemma write_gate_envelope: "write_gate w request_id h = Inl (r, h') \<Longrightarrow> envelope request_id r"
  by (auto simp: write_gate_def refuse_def split: if_splits prod.splits)

lemma run_changes_envelope: "envelope request_id (fst (run_changes w request_id tid n plans h))"
  by (simp add: run_changes_def Let_def split: prod.split)

lemma read_envelopes [simp]:
  "envelope request_id (fst (handle_hello supported allowed request_id h))"
  "envelope request_id (fst (handle_status supported allowed disabled request_id h))"
  "envelope request_id (fst (handle_registerTelemetry request_id params h))"
  "envelope request_id (fst (handle_logs request_id params h))"
  "envelope request_id (fst (handle_events request_id params h))"
  "envelope request_id (fst (handle_loadFrtkProfile w request_id params h))"
  "envelope request_id (fst (handle_inspectFrtkCatalog request_id params h))"
  "envelope request_id (fst (handle_invalidateFrtkCatalog request_id params h))"
  by (simp_all add: handle_hello_def handle_status_def handle_registerTelemetry_def handle_logs_def handle_events_def
      handle_loadFrtkProfile_def handle_inspectFrtkCatalog_def handle_invalidateFrtkCatalog_def Let_def
      split: option.split prod.split)

lemma run_envelopes [simp]:
  "envelope request_id (fst (handle_nativeCall w disabled request_id params h))"
  "envelope request_id (fst (handle_board w oper disabled request_id params h))"
  "envelope request_id (fst (handle_script w command request_id params h))"
  "envelope request_id (fst (handle_readMemory w supported request_id params h))"
  "envelope request_id (fst (handle_scanMemory w supported request_id params h))"
  "envelope request_id (fst (handle_discoverFrtkCatalog w request_id params h))"
  "envelope request_id (fst (handle_readFrtkRecords w request_id params h))"
  by (simp_all add: handle_nativeCall_def handle_board_def handle_script_def handle_readMemory_def handle_scanMemory_def
      handle_discoverFrtkCatalog_def handle_readFrtkRecords_def Let_def split: option.split prod.split sum.split)

lemma write_envelopes [simp]:
  "envelope request_id (fst (handle_writeTransaction w request_id params h))"
  "envelope request_id (fst (handle_transactFrtkFields w request_id params h))"
  using run_changes_envelope
  by (auto simp: handle_writeTransaction_def handle_transactFrtkFields_def Let_def
      split: option.split prod.split sum.split dest: write_gate_envelope)

lemma dispatch_envelope: "envelope request_id (fst (dispatch w supported disabled allowed request_id command params h))"
  by (simp add: dispatch_def)


section \<open>A settled error wrote nothing\<close>

context host_world
begin

lemma run_write_withdrawn:
  assumes "run_write w request h = (result, h')" and "tr_status result = kRejected \<or> tr_status result = kRolledBackVerified"
  shows "still mem h h'"
proof -
  have "mem (process_of h') = mem (process_of h)"
    using assms memory_backend.run_frame(1) [OF memory_backend.smoke_rollback_backend [OF host_backend]]
      memory_backend.run_frame(1) [OF memory_backend.smoke_apply_backend [OF host_backend]]
      memory_backend.run_frame(1) [OF host_backend]
    by (fastforce simp: run_write_def split: if_splits prod.splits)
  then show ?thesis using run_write_framed [OF assms(1)] by (simp add: still_def)
qed

lemma transaction_response_settled:
  assumes "transaction_response request_id transaction summary h1 = (r, h')" and "settled request_id r"
    and "tr_status transaction = kRejected \<or> tr_status transaction = kRolledBackVerified \<Longrightarrow> still mem h h1"
  shows "still mem h h'"
  using assms by (auto simp: transaction_response_def unsettled_codes_def split: TransactionStatus.splits)

lemma handle_nativeCall_settled:
  assumes "handle_nativeCall w disabled request_id params h = (r, h')" and "settled request_id r"
  shows "still mem h h'"
proof -
  obtain allowed h1 where gate: "native_calls w h = (allowed, h1)" by force
  have g: "still mem h h1" using native_calls_still [OF gate] by blast
  have called: "still mem h h2" if run: "invoke_native w target arguments h1 = (call, h2)"
    and "settled request_id (native_call_response request_id name call)" for target arguments call h2 name
  proof -
    let ?s = "process_of h1"
    have "call_status call \<in> {kTooManyArguments, kInvalidTarget}"
      using that(2) by (cases "call_status call") (auto simp: native_call_response_def unsettled_codes_def)
    moreover obtain s where "Native_Call.Invoke (VirtualQuery (host_os (discovery_process w))) (NativeCode (game w)) target arguments ?s = (call, s)"
      "h2 = h1\<lparr>process_of := s\<rparr>"
      using run by (auto simp: invoke_native_def on_state_def split: prod.splits)
    ultimately have "h2 = h1" by (auto elim!: Invoke_cases)
    then show ?thesis using g by simp
  qed
  show ?thesis
    using assms gate g called
    by (auto simp: handle_nativeCall_def replies Let_def split: if_splits prod.splits option.splits sum.splits)
qed

lemma handle_board_settled:
  assumes "handle_board w oper disabled request_id params h = (r, h')" and "settled request_id r"
  shows "still mem h h'"
proof -
  obtain allowed h1 where gate: "native_calls w h = (allowed, h1)" by force
  have g: "still mem h h1" using native_calls_still [OF gate] by blast
  have called: "status result \<noteq> kPostconditionFailed \<and> still mem h h2"
    if run: "invoke_board w layout oper a b h1 = (result, h2)"
    and "settled request_id (board_response request_id oper n k result)" for layout a b n k result h2
  proof -
    have code: "status result \<notin> {kApplied, kNativeCallFailed, kPostconditionFailed}"
      using that(2) by (cases "status result") (auto simp: board_response_def unsettled_codes_def split: if_splits)
    obtain cache s where invoked: "Board_Mutation.Invoke (game w) layout oper a b (board_cache h1) (process_of h1) = (result, cache, s)"
      and h2: "h2 = h1\<lparr>board_cache := cache, process_of := s\<rparr>"
      using run by (auto simp: invoke_board_def split: prod.splits)
    from invoked have "s = process_of h1"
      using code by (cases rule: mutation_cases) auto
    then show ?thesis using code h2 g by (simp add: still_def framed_def)
  qed
  show ?thesis
    using assms gate g called
    by (auto simp: handle_board_def replies Let_def split: if_splits prod.splits option.splits)
qed

lemma handle_writeTransaction_settled:
  assumes "handle_writeTransaction w request_id params h = (r, h')" and "settled request_id r"
  shows "still mem h h'"
proof (cases "write_gate w request_id h")
  case (Inl refused)
  then show ?thesis using assms write_gate_guarded by (cases refused) (auto simp: handle_writeTransaction_def)
next
  case (Inr h1)
  then have g: "still mem h h1" using write_gate_guarded by blast
  have ran: "still mem h h3"
    if "run_write w request h1 = (result, h2)" "transaction_response request_id result summary h2 = (r, h3)" for request result h2 summary h3
    using transaction_response_settled [OF that(2) assms(2)] run_write_withdrawn [OF that(1)] g still_trans by blast
  show ?thesis
    using assms(1) Inr g
    by (auto simp: handle_writeTransaction_def replies Let_def split: if_splits sum.splits prod.splits intro: ran)
qed

lemma run_changes_settled:
  assumes "run_changes w request_id tid n plans h = (r, h')" and "settled request_id r"
  shows "still mem h h'"
proof -
  have withdrawn: "still mem h h2"
    if "RunTransaction request (host_memory w) h = (result, h2)" "tr_status result = kRejected \<or> tr_status result = kRolledBackVerified"
    for request result h2
    using that memory_backend.run_frame(1) [OF host_backend that(1)] loud_memory.RunTransaction_step [OF memory_framed that(1)]
    by (auto simp: still_def)
  then show ?thesis
    using assms by (auto simp: run_changes_def replies Let_def split: if_splits prod.splits
        intro: transaction_response_settled)
qed

lemma handle_transactFrtkFields_settled:
  assumes "handle_transactFrtkFields w request_id params h = (r, h')" and "settled request_id r"
  shows "still mem h h'"
proof (cases "write_gate w request_id h")
  case (Inl refused)
  then show ?thesis
    using assms write_gate_guarded
    by (cases refused) (auto simp: handle_transactFrtkFields_def replies Let_def split: if_splits option.splits)
next
  case (Inr h1)
  then have g: "still mem h h1" using write_gate_guarded by blast
  have planned: "still mem h h2" if "plan_changes (host_accessor w build schema) groups [] h1 = (x, h2)" for build schema groups x h2
    using plan_changes_still [OF that] g still_trans by blast
  have ran: "still mem h h'" if "still mem h h2" "run_changes w request_id tid n plans h2 = (r, h')" for tid n plans h2
    using run_changes_settled [OF that(2) assms(2)] that(1) still_trans by blast
  show ?thesis
    using assms(1) Inr g
    by (auto simp: handle_transactFrtkFields_def replies Let_def split: if_splits prod.splits option.splits sum.splits
        dest!: planned dest: ran)
qed

lemma handle_script_settled:
  assumes "handle_script w command request_id params h = (r, h')" and "settled request_id r"
  shows "still mem h h'"
  using assms
  by (auto simp: handle_script_def script_response_def replies unsettled_codes_def split: if_splits prod.splits)

lemma dispatch_settled:
  assumes "dispatch w supported disabled allowed request_id command params h = (r, h')" and "settled request_id r"
  shows "still mem h h'"
proof -
  note loud = handle_nativeCall_settled [OF _ assms(2)] handle_board_settled [OF _ assms(2)]
    handle_transactFrtkFields_settled [OF _ assms(2)] handle_writeTransaction_settled [OF _ assms(2)]
    handle_script_settled [OF _ assms(2)]
  note quiet = handle_loadFrtkProfile_still handle_discoverFrtkCatalog_still handle_readFrtkRecords_still
    handle_registerTelemetry_still handle_scanMemory_still handle_readMemory_still handle_invalidateFrtkCatalog_still
  show ?thesis
    using assms(1) unfolding dispatch_def
    by (auto split: if_splits dest: loud quiet dest!: unchanged_handlers)
qed

lemma HandleV1Request_settled:
  assumes "HandleV1Request w request h = (r, h')" and "settled (request_id_of request) r"
  shows "still mem h h'"
proof (cases "bad_envelope request \<or> \<not> is_object (request_params request)")
  case True
  then show ?thesis using assms by (cases "bad_envelope request") (auto simp: HandleV1Request_def replies Let_def)
next
  case False
  obtain allowed h1 where gate: "(if session_writes_disabled h then (False, h) else write_environment w h) = (allowed, h1)" by force
  then have h1: "still mem h h1" using write_environment_still by (auto split: if_splits)
  have "dispatch w (CertifiedBuild h) (session_writes_disabled h) allowed (request_id_of request)
      (string_field request ''command'') (request_params request) h1 = (r, h')"
    using assms False gate by (simp add: HandleV1Request_def Let_def)
  from still_trans [OF h1 dispatch_settled [OF this assms(2)]] show ?thesis .
qed

end


section \<open>Which errors lock the session\<close>

definition locks_told :: "Json \<times> 's HostState \<Rightarrow> bool" where
  "locks_told p \<longleftrightarrow> (\<forall>request_id what message details. fst p = ErrorResponse request_id what message details \<longrightarrow>
     what \<in> locking_codes \<longrightarrow> session_writes_disabled (snd p))"

lemma locks_told_error [simp]:
  "locks_told (ErrorResponse request_id what message details, h) \<longleftrightarrow> (what \<in> locking_codes \<longrightarrow> session_writes_disabled h)"
    (is "?told \<longleftrightarrow> ?locked")
proof
  assume ?locked
  then show ?told unfolding locks_told_def fst_conv snd_conv using error_code by blast
qed (unfold locks_told_def fst_conv snd_conv, blast)

lemma locks_told_success [simp]: "locks_told (SuccessResponse request_id result, h)"
  by (simp add: locks_told_def)

lemma locks_told_replies [simp]:
  "locks_told (answer request_id result h)"
  "locks_told (refuse request_id what message h) \<longleftrightarrow> (what \<in> locking_codes \<longrightarrow> session_writes_disabled h)"
  by (simp_all add: answer_def refuse_def)

lemma locking_code [simp]:
  "what \<in> locking_codes \<longleftrightarrow> what = ''ROLLBACK_VERIFICATION_FAILED'' \<or> what = ''BOARD_POSTCONDITION_FAILED''"
  by (simp add: locking_codes_def)

lemma engine_locks [simp]:
  "locks_told (MemoryError request_id what, h)" "locks_told (TransactionRejected request_id what, h)"
  "locks_told (native_call_response request_id target call, h)"
  "locks_told (board_response request_id oper recruit_row team_row mutation, h) \<longleftrightarrow>
     (status mutation = kPostconditionFailed \<longrightarrow> session_writes_disabled h)"
  "locks_told (scan_response request_id supported scan, h)"
  "locks_told (read_response request_id supported reading, h)"
  "locks_told (transaction_response request_id transaction summary h)"
  "locks_told (script_response request_id outcome)"
  by (auto simp: MemoryError_def TransactionRejected_def native_call_response_def scan_response_def
      read_response_def transaction_response_def script_response_def
      split: CallStatus.split sum.split option.split TransactionStatus.split prod.split)
    (cases "status mutation"; simp add: board_response_def; fail)+

text \<open>The codes of the parsers and of the field requests.\<close>

lemma parse_operations_code: "parse_operations items n parsed = Inl (what, message) \<Longrightarrow> what \<notin> locking_codes"
  by (induction items arbitrary: n parsed)
    (auto simp: parse_operation_def Let_def split: sum.splits if_splits option.splits)

lemma parse_changes_code: "parse_changes schema items identities groups = Inl (what, message) \<Longrightarrow> what \<notin> locking_codes"
  by (induction items arbitrary: identities groups)
    (auto simp: parse_change_def Let_def split: sum.splits if_splits option.splits)

lemma access_code_unlocked: "access_code what \<notin> locking_codes"
  by (simp add: access_code_def)

lemma plan_changes_code: "plan_changes accessor groups plans h = (Inl (what, message), h') \<Longrightarrow> what \<notin> locking_codes"
  using access_code_unlocked
  by (induction groups arbitrary: plans h) (auto simp: Let_def split: option.splits if_splits prod.splits)

lemma read_records_code: "read_records accessor items records h = (Inl (what, message), h') \<Longrightarrow> what \<notin> locking_codes"
  using access_code_unlocked
  by (induction items arbitrary: records h)
    (auto simp: parse_selector_def Let_def split: sum.splits option.splits if_splits prod.splits)

lemma finalize_code_unlocked: "finalize_code what \<notin> locking_codes"
  by (simp add: finalize_code_def)

lemmas unlocked_codes = parse_operations_code parse_changes_code plan_changes_code read_records_code

section \<open>The handlers\<close>

lemma write_gate_locks: "write_gate w request_id h = Inl p \<Longrightarrow> locks_told p"
  by (auto simp: write_gate_def split: if_splits prod.splits)

lemma run_changes_locks: "locks_told (run_changes w request_id tid n plans h)"
  using finalize_code_unlocked by (simp add: run_changes_def Let_def split: prod.split)

lemma read_locks [simp]:
  "locks_told (handle_hello supported allowed request_id h)"
  "locks_told (handle_status supported allowed disabled request_id h)"
  "locks_told (handle_registerTelemetry request_id params h)"
  "locks_told (handle_logs request_id params h)"
  "locks_told (handle_events request_id params h)"
  "locks_told (handle_loadFrtkProfile w request_id params h)"
  "locks_told (handle_inspectFrtkCatalog request_id params h)"
  "locks_told (handle_invalidateFrtkCatalog request_id params h)"
  by (simp_all add: handle_hello_def handle_status_def handle_registerTelemetry_def handle_logs_def handle_events_def
      handle_loadFrtkProfile_def handle_inspectFrtkCatalog_def handle_invalidateFrtkCatalog_def Let_def
      split: option.split prod.split)

lemma run_locks [simp]:
  "locks_told (handle_nativeCall w disabled request_id params h)"
  "locks_told (handle_board w oper disabled request_id params h)"
  "locks_told (handle_script w command request_id params h)"
  "locks_told (handle_readMemory w supported request_id params h)"
  "locks_told (handle_scanMemory w supported request_id params h)"
  "locks_told (handle_discoverFrtkCatalog w request_id params h)"
  by (simp_all add: handle_nativeCall_def handle_board_def handle_script_def handle_readMemory_def handle_scanMemory_def
      handle_discoverFrtkCatalog_def Let_def split: option.split prod.split sum.split)

lemma handle_readFrtkRecords_locks [simp]: "locks_told (handle_readFrtkRecords w request_id params h)"
  by (auto simp: handle_readFrtkRecords_def Let_def split: option.split prod.split sum.split dest!: read_records_code)

lemma handle_writeTransaction_locks [simp]: "locks_told (handle_writeTransaction w request_id params h)"
proof (cases "write_gate w request_id h")
  case (Inl p)
  then show ?thesis using write_gate_locks by (simp add: handle_writeTransaction_def)
next
  case (Inr h1)
  then show ?thesis
    using parse_operations_code [of "json_items (json_field params ''operations'')" 0 "[]"]
    by (cases "parse_operations (json_items (json_field params ''operations'')) 0 []")
      (auto simp: handle_writeTransaction_def Let_def split: prod.split)
qed

lemma handle_transactFrtkFields_locks [simp]: "locks_told (handle_transactFrtkFields w request_id params h)"
proof (cases "write_gate w request_id h")
  case (Inl p)
  from write_gate_locks [OF this] Inl show ?thesis
    by (simp add: handle_transactFrtkFields_def Let_def split: option.split)
next
  case (Inr h1)
  let ?schema = "bundle_schema (the (frtk_profile h1))"
  show ?thesis
  proof (cases "parse_changes ?schema (json_items (json_field params ''changes'')) {} []")
    case refused: (Inl e)
    then show ?thesis
      using Inr parse_changes_code [of ?schema _ "{}" "[]" "fst e" "snd e"]
      by (cases e) (simp add: handle_transactFrtkFields_def Let_def split: option.split)
  next
    case parsed: (Inr groups)
    obtain outcome h2 where planned: "plan_changes (host_accessor w (game_build h1) ?schema) groups [] h1 = (outcome, h2)"
      by force
    show ?thesis
    proof (cases outcome)
      case (Inl e)
      then show ?thesis
        using Inr parsed planned plan_changes_code [of _ groups "[]" h1 "fst e" "snd e" h2]
        by (cases e) (simp add: handle_transactFrtkFields_def Let_def split: option.split)
    next
      case (Inr plans)
      then show ?thesis
        using \<open>write_gate w request_id h = Inr h1\<close> parsed planned
        by (simp add: handle_transactFrtkFields_def Let_def run_changes_locks split: option.split)
    qed
  qed
qed

lemma dispatch_locks: "locks_told (dispatch w supported disabled allowed request_id command params h)"
  by (simp add: dispatch_def)

lemma HandleV1Request_locks: "locks_told (HandleV1Request w request h)"
  by (simp add: HandleV1Request_def Let_def dispatch_locks split: prod.split)

section \<open>Properties\<close>

text \<open>C5: every request is answered. The response to any request in any state is an envelope of the protocol with the id of the
  request (or the empty one when it has none): a success with a result, or an error with code, message and details.\<close>

theorem response_envelope: "envelope (request_id_of request) (fst (HandleV1Request w request h))"
  by (auto simp: HandleV1Request_def Let_def refuse_def split: prod.split intro: dispatch_envelope)

text \<open>C4: an error is honest. An error whose code is not one of the five for native code, scripts and unverified writes
  means that the memory is as it was before the request, and so is the lock of the session.\<close>

theorem settled_error_unwritten:
  assumes "host_world w mem"
    and "HandleV1Request w request h = (ErrorResponse (request_id_of request) what message details, h')"
    and "what \<notin> unsettled_codes"
  shows "mem (process_of h') = mem (process_of h) \<and> session_writes_disabled h' = session_writes_disabled h"
  using host_world.HandleV1Request_settled [OF assms(1,2)] assms(3) by (simp add: still_def framed_def)

text \<open>A write for a session whose writes are disabled.\<close>

lemma refused_request:
  "HandleV1Request plain_world write_request locked_host =
     (ErrorResponse ''7'' ''SESSION_WRITES_DISABLED'' ''Writes are disabled for the remainder of this host session'' (JObject []),
      locked_host)"
  "request_id_of write_request = ''7''"
proof -
  have envelope: "\<not> bad_envelope write_request" "request_id_of write_request = ''7''"
    "is_object (request_params write_request)" "string_field write_request ''command'' = ''writeTransaction''"
    by code_simp+
  then show "request_id_of write_request = ''7''" by simp
  have "session_writes_disabled locked_host" by (simp add: locked_host_def)
  with envelope show "HandleV1Request plain_world write_request locked_host =
     (ErrorResponse ''7'' ''SESSION_WRITES_DISABLED'' ''Writes are disabled for the remainder of this host session'' (JObject []),
      locked_host)"
    by (simp add: HandleV1Request_def Let_def dispatch_def handle_writeTransaction_def write_gate_def refuse_def)
qed

theorem settled_error_unwritten_witness:
  "\<exists>h'. HandleV1Request plain_world write_request locked_host = (ErrorResponse ''7'' ''SESSION_WRITES_DISABLED''
      ''Writes are disabled for the remainder of this host session'' (JObject []), h') \<and>
     ram (process_of h') = ram (process_of locked_host) \<and> session_writes_disabled h'"
  using settled_error_unwritten [OF plain_session refused_request(1) [folded refused_request(2)]] refused_request
  by (simp add: unsettled_codes_def locked_host_def)

text \<open>The smoke test with the rollback of the first write made unverifiable.\<close>

definition smoke_world :: "process HostWorld" where
  "smoke_world = windows_world (windows_platform ''cfb27_protocol_smoke.exe'' [] (\<lambda>name. Some ''1''))
     (\<lambda>a args s. (Inr 0, s)) (\<lambda>chunk content s. Returned)"

definition rollback_request :: Json where
  "rollback_request = object [(''protocol'', JUnsigned 1), (''id'', JString ''7''), (''command'', JString ''writeTransaction''),
     (''params'', object [(''transactionId'', JString ''smoke.valid-1''), (''operations'', JArray [object
       [(''address'', JString (FormatAddress 0x10000)), (''expectedHex'', JString (BytesToHex [0, 0])),
        (''replacementHex'', JString (BytesToHex [1, 2]))]])])]"

lemma smoke_session: "host_world smoke_world ram"
  unfolding smoke_world_def by (rule windows_session)

lemma smoke_gates:
  "write_environment smoke_world h = (True, h)"
  "SmokeRollbackUnverifiedRequested (platform smoke_world) s"
proof -
  have "map toupper (file_name ''cfb27_protocol_smoke.exe'') = map toupper ''cfb27_protocol_smoke.exe''" by code_simp
  then have smoke: "SmokeWritesAllowed (platform smoke_world) s" for s
    by (simp add: SmokeWritesAllowed_def smoke_world_def windows_world_def windows_platform_def same_ignoring_case_def
        EnvironmentIsOne_def)
  then show "SmokeRollbackUnverifiedRequested (platform smoke_world) s"
    by (simp add: SmokeRollbackUnverifiedRequested_def EnvironmentIsOne_def smoke_world_def windows_world_def windows_platform_def)
  have "ProcessSnapshot (platform smoke_world) s = (Some [], s)" for s
    by (simp add: smoke_world_def windows_world_def windows_platform_def)
  with smoke show "write_environment smoke_world h = (True, h)"
    by (simp add: write_environment_def on_state_def WriteEnvironmentAllowed_def RealAnticheatIsRunning_def WritesAllowed_def)
qed

lemma hex_bytes: "bytes \<noteq> [] \<Longrightarrow> HexToBytes (JString (BytesToHex bytes)) = Some bytes"
  using hex_pairs_BytesToHex [of bytes] length_BytesToHex [of bytes]
  by (cases "BytesToHex bytes = []") (auto simp: HexToBytes_def hex_text_bytes_def)

lemma canonical_address: "CanonicalAddress (FormatAddress a) = Some (FormatAddress a)"
  unfolding CanonicalAddress_iff by blast

lemmas json_lookups = object_def json_field_def json_at_def json_contains_def json_items_def json_text_def has_string_def
  has_array_def string_field_def is_string_def is_array_def is_object_def is_number_integer_def HasOnlyKeys_def
  request_params_def request_id_of_def

lemma rollback_parts:
  "\<not> bad_envelope rollback_request" "request_id_of rollback_request = ''7''" "is_object (request_params rollback_request)"
  "string_field rollback_request ''command'' = ''writeTransaction''"
  "HasOnlyKeys (request_params rollback_request) [''transactionId'', ''operations'']"
  "has_string (request_params rollback_request) ''transactionId''" "has_array (request_params rollback_request) ''operations''"
  "string_field (request_params rollback_request) ''transactionId'' = ''smoke.valid-1''"
  by (simp_all add: rollback_request_def bad_envelope_def json_get_int_def to_int_def kVersion_def json_lookups)

lemma rollback_parsed:
  "parse_operations (json_items (json_field (request_params rollback_request) ''operations'')) 0 [] = Inr [sample_write]"
  by (simp add: rollback_request_def json_lookups parse_operation_def Let_def hex_bytes canonical_address
      kMaxOperationBytes_def kMaxTransactionBytes_def sample_write_def del: BytesToHex_Cons)

lemma rollback_status:
  "tr_status (fst (run_write smoke_world (sample_request [sample_write]) (initial_state sample_process))) = kRollbackUnverified"
proof -
  have "tr_status (fst (RunTransaction (sample_request [sample_write]) (host_memory smoke_world) (initial_state sample_process))) =
      kAppliedVerified"
    unfolding smoke_world_def host_reliable.RunTransaction_outcome
    using sample_applied(1) unfolding win_reliable.RunTransaction_outcome
    by (simp add: initial_state_def split: if_splits)
  then have "tr_status (fst (RunTransaction (sample_request [sample_write]) (SmokeRollbackUnverifiedBackend (host_memory smoke_world))
      (initial_state sample_process, 0))) = kRollbackUnverified"
    unfolding smoke_world_def
    by (rule host_reliable.smoke_rollback_outcome [where p = sample_write]) (simp_all add: sample_request_def sample_write_def)
  then show ?thesis
    using smoke_gates(2) by (auto simp: run_write_def split: prod.splits)
qed

lemma rollback_response:
  obtains details h where "HandleV1Request smoke_world rollback_request (initial_state sample_process) =
    (ErrorResponse ''7'' ''ROLLBACK_VERIFICATION_FAILED'' ''Transaction rollback could not be verified'' details, h)"
proof -
  let ?h = "initial_state sample_process"
  obtain result h2 where run: "run_write smoke_world (sample_request [sample_write]) ?h = (result, h2)" by force
  then have status: "tr_status result = kRollbackUnverified" using rollback_status by simp
  have unlocked: "\<not> session_writes_disabled ?h" by (simp add: initial_state_def)
  have "HandleV1Request smoke_world rollback_request ?h = transaction_response ''7'' result (TransactionResultJson ''smoke.valid-1'' result) h2"
    using unlocked run
    by (simp add: HandleV1Request_def Let_def dispatch_def handle_writeTransaction_def write_gate_def smoke_gates(1)
        rollback_parts rollback_parsed sample_request_def)
  with status show thesis using that by (simp add: transaction_response_def)
qed

text \<open>C3: an unverified write is the last one. Once a request was answered with the code of a rollback or of a board that
  could not be verified, no later step of the host, scripts and native calls included, changes the memory.\<close>

theorem unverified_write_is_last:
  assumes "host_world w mem"
    and "HandleV1Request w request h = (ErrorResponse request_id what message details, h1)" and "what \<in> locking_codes"
    and "(host_step w)\<^sup>*\<^sup>* h1 h2"
  shows "session_writes_disabled h2 \<and> mem (process_of h2) = mem (process_of h1)"
proof -
  have "session_writes_disabled h1"
    using HandleV1Request_locks [of w request h] assms(2,3) by (simp add: locks_told_def) blast
  then show ?thesis using host_run_guarded [OF assms(1,4)] by (simp add: guarded_def open_gate_def)
qed

theorem unverified_write_is_last_witness:
  "\<exists>details h. HandleV1Request smoke_world rollback_request (initial_state sample_process) =
      (ErrorResponse ''7'' ''ROLLBACK_VERIFICATION_FAILED'' ''Transaction rollback could not be verified'' details, h) \<and>
     ram (process_of (snd (HandleV1Request smoke_world rollback_request h))) = ram (process_of h)"
proof (rule rollback_response)
  fix details h
  assume told: "HandleV1Request smoke_world rollback_request (initial_state sample_process) =
      (ErrorResponse ''7'' ''ROLLBACK_VERIFICATION_FAILED'' ''Transaction rollback could not be verified'' details, h)"
  obtain r h2 where again: "HandleV1Request smoke_world rollback_request h = (r, h2)" by force
  have "(host_step smoke_world)\<^sup>*\<^sup>* h h2" using host_step.requested [OF again] by blast
  from unverified_write_is_last [OF smoke_session told _ this] told again show ?thesis by auto
qed

text \<open>The version of the protocol is read into an int, which keeps the low 32 bits: a request of protocol
  4294967297 = 2^32 + 1 has an envelope like one of protocol 1.\<close>

lemma wrapped_protocol_accepted:
  "\<not> bad_envelope (object [(''protocol'', JUnsigned 4294967297), (''id'', JString ''7''), (''command'', JString ''hello''),
     (''params'', object [])])"
  by (simp add: bad_envelope_def json_get_int_def to_int_def kVersion_def json_lookups)

end
