(* ===== verification/Spec2Isabelle.thy ===== *)
theory Spec2Isabelle
  imports Hex_Text Win_Memory Transaction Build_Policy Pattern_Matcher Memory_Reader Json Field_Schema Profile
    Discovery_Backend Catalog Record_Access Discovery Research_Watch Board_Mutation Native_Call
    Telemetry Protocol Process_Discovery Host_Events Quiet_Access Lua_Values Lua_Db_Api Host_Policy Host_State Lua_Telemetry
    Lua_Bindings Host_Requests Host_Scans Host_Frtk Lua_Host Quiet_Steps Host_Guarantee Host_Contracts Host_Responses
begin

text \<open>
  A verification development for the native host of cfb27-lua-hook, the library that a game process loads from
  src/native/host. The host answers requests on a named pipe and runs Lua scripts. Both can read and scan the memory of the game, find
  and read the records of its tables, write fields in guarded transactions, call native code, change the recruiting board
  and watch addresses with the debug registers. What may write is decided by the build of the game, the processes
  that run beside it and a lock that a failed rollback leaves behind.

  \<^bold>\<open>How the parts fit.\<close> A request arrives as a frame (Protocol), is taken apart and dispatched (Lua_Host, with its handlers in
  Host_Requests, Host_Scans and Host_Frtk) and answered with an envelope. The handlers work on one state, \<open>HostState\<close>, and a
  record of everything outside the host, \<open>HostWorld\<close> (Host_State). Scripts reach the same operations through the functions
  of Lua_Bindings and the database of Lua_Db_Api. Tables of the game are described by a profile (Profile) with field layouts
  (Field_Schema), found in memory by fingerprints (Discovery, on the backend of Process_Discovery), kept as a catalog
  of one session (Catalog) and read and written through write plans (Record_Access) that end in one memory
  transaction (Transaction). The gates are Build_Policy and Host_Policy.

  \<^bold>\<open>Theories and source files,\<close> all under src/native/host. Definitions have the names of the functions and types they model; a loop
  or a branch with a name of its own is a definition of its own.

  \<^item> Prelude: lemmas on lists, words and address ranges, and the memory \<open>addr \<Rightarrow> byte\<close> that all parts share.
  \<^item> Hex_Text, Win_Memory, Os_Calls: the hexadecimal and address texts of several files, the region walks over the map of
    \<open>VirtualQuery\<close>, and the process memory calls with the locale \<open>os_process\<close>.
  \<^item> Transaction (memory_transaction.cpp, and the fault injecting backends of lua_host.cpp): preflight, apply, rollback.
  \<^item> Build_Policy (build_policy.cpp, game_builds.cpp and its generated table), Host_Policy (lua_host.cpp): which process may be written.
  \<^item> Pattern_Matcher, Memory_Reader (memory_reader.cpp): the masked search, the scan by pages and chunks, and batch reads.
  \<^item> Json: the values of nlohmann::json and the accessors the sources use. Field_Schema (frtk_field_schema.cpp): the layout
    parser and the codec of bit fields. Profile (frtk_profile.cpp): the profile parser.
  \<^item> Discovery_Backend, Catalog (frtk_catalog.cpp), Quiet_Access, Record_Access (frtk_record_access.cpp), Discovery
    (frtk_discovery.cpp), Process_Discovery (lua_host.cpp).
  \<^item> Research_Watch (research_watch.cpp), Native_Call (native_call.cpp), Board_Mutation (board_mutation.cpp).
  \<^item> Telemetry (telemetry.cpp), Protocol (protocol.cpp and the server loop), Host_Events (the rings of lua_host.cpp).
  \<^item> Lua_Values, Lua_Db_Api (frtk_lua_api.cpp), Lua_Telemetry, Lua_Bindings, Host_State, Host_Requests, Host_Scans,
    Host_Frtk, Lua_Host (lua_host.cpp): the host itself.
  \<^item> Quiet_Steps, Host_Guarantee, Host_Contracts, Host_Responses: properties of the host across these parts.

  \<^bold>\<open>State and errors.\<close> State is passed along explicitly. Machine integers have their width; where the source checks for an overflow
  by a subtraction the model often states the sum in natural numbers, with a remark at the definition. A raise or an early
  return is \<open>Inl\<close> of a code, an absent value \<open>None\<close>. A dictionary whose order matters is an association list.

  \<^bold>\<open>What is outside\<close> is a parameter, and what the code relies on is a locale that is interpreted on a model of Windows memory or on a
  test memory: \<open>os_process\<close>, \<open>virtual_query\<close>, \<open>memory_backend\<close> and \<open>reliable_backend\<close> (what a backend of transactions
  promises), \<open>table_reader\<close> and \<open>table_scanner\<close> (discovery backends), \<open>thread_registers\<close>, \<open>byte_source\<close> and
  \<open>byte_sink\<close> (pipes), \<open>json_dump\<close>, \<open>database\<close>, \<open>scan_world\<close>, \<open>host_process\<close> and \<open>host_world\<close>. The printer and parser of JSON, SHA-256,
  native code, the clock, Lua and \<open>std::sort\<close> on the pending changes of a script are parameters of this kind; of the sort it is
  only used that it sorts, not that it keeps the order of equal keys.

  \<^bold>\<open>What the lemmas show.\<close>

  \<^item> Writing (C1 to C5, C11): over every run of host steps a locked session writes nothing, and memory changes only where the gate can
    let writes through; after an answer about a write that could not be verified nothing is written any more; an error outside five
    codes means that nothing was written.
  \<^item> Transactions (C6 to C10): all or nothing, exact outcome on a reliable backend, exact report, behaviour under the injected faults.
  \<^item> Fields, layouts, profiles (C12, C13, C24): codec round trip with every other bit kept; well-formedness of all that is accepted.
  \<^item> Scans and reads (C14, C15, C32): a page reports exactly its hits; a scan of the process exactly those of the whole memory.
  \<^item> Tables (C16 to C23, C25): planned writes land and do what the plans say; reads decode the row; what a successful or failed
    revalidation leaves; no stale handle resolves; what discovery finds holds in memory.
  \<^item> Watches (C26 to C28): whole hits once and in order beside running handlers, registers come back, what one exception records.
  \<^item> Board (C29 to C31): what an applied mutation has done, that a refused one has done nothing, what a reading means.
  \<^item> Pipe and events (C33 to C37): what a client is sent in each case, frames survive, payload accounting, polling.
  \<^item> Scripts (C38 to C40): transactions of scripts, and the conversion of emitted values.

  \<^bold>\<open>Loops and bounds.\<close> Loops that end are functions with a measure; a page of a scan ends by its chunk and cursor bounds, and the
  scan of the process stops after 4096 pages as the source does. The server loop may run forever and is a
  \<open>partial_function\<close>; every client it serves is answered by a total function. Conversions of Lua values
  stop at the depth limit of the source. A script is a tree of calls of the host, so it ends, but it may be any such tree. The constants
  (operations and bytes of a transaction, 1 MiB frames, 1024 kept events, 4 slots and 128 hits) are those of the sources.

  \<^bold>\<open>What is left out.\<close> Threads and mutexes: a run of the host is a sequence of whole steps, with one exception, the exception
  handlers of Research_Watch, which interleave action by action with each other and with a collection and a clear of
  the buffer. The process entry and the creation of threads and pipes, the log file, and metatables of userdata.
  The standard libraries of Lua: a script is known by its calls of the host only, so what C1 and C2 say of scripts does
  not cover code that \<open>os.execute\<close> or \<open>package.loadlib\<close> may run. Callbacks that register callbacks while an event is
  fired: the model fires those that were there when the event began, where the source iterates over the growing
  vector. The smoke test drivers, the proxy library, the archived hooks and the JavaScript packages are not modelled.
\<close>

end
